(* ===== verification/Prelude.thy ===== *)
theory Prelude
  imports
    Complex_Main
    "HOL-Library.List_Lexorder"
    "HOL-Library.Product_Lexorder"
    "HOL-Library.AList"
    "HOL-Library.Multiset"
begin

text \<open>
  What every component of the gateway model shares: the result type that stands for
  Python's exceptions, slices of sequences, insertion-ordered dictionaries, big-endian
  positional encodings, and facts on sorting by a key.
  Python's \<open>sorted(xs, key=f)\<close> is the library's stable \<open>sort_key f xs\<close>; tuples and
  strings (lists of code points) are compared lexicographically, as the imported orders do.
\<close>

named_theorems result_simps \<open>inversion rules of the result combinators\<close>
named_theorems slice_simps \<open>rules on slices\<close>

section \<open>Results\<close>

text \<open>
  A function that may raise returns \<open>'e + 'a\<close>: \<open>Inl\<close> is the exception, \<open>Inr\<close> the value.
\<close>

definition bindR :: "'e + 'a \<Rightarrow> ('a \<Rightarrow> 'e + 'b) \<Rightarrow> 'e + 'b" where
  "bindR m f = (case m of Inl e \<Rightarrow> Inl e | Inr x \<Rightarrow> f x)"

definition guardR :: "bool \<Rightarrow> 'e \<Rightarrow> 'e + unit" where
  "guardR ok e = (if ok then Inr () else Inl e)"

fun traverseR :: "('a \<Rightarrow> 'e + 'b) \<Rightarrow> 'a list \<Rightarrow> 'e + 'b list" where
  "traverseR f [] = Inr []"
| "traverseR f (x # xs) = bindR (f x) (\<lambda>y. bindR (traverseR f xs) (\<lambda>ys. Inr (y # ys)))"

lemma bindR_simps [simp]:
  "bindR (Inl e) f = Inl e"
  "bindR (Inr x) f = f x"
  by (simp_all add: bindR_def)

lemma bindR_Inr [result_simps]: "bindR m f = Inr y \<longleftrightarrow> (\<exists>x. m = Inr x \<and> f x = Inr y)"
  by (cases m) auto

lemma bindR_Inl [result_simps]:
  "bindR m f = Inl e \<longleftrightarrow> m = Inl e \<or> (\<exists>x. m = Inr x \<and> f x = Inl e)"
  by (cases m) auto

lemma bindR_assoc: "bindR (bindR m f) g = bindR m (\<lambda>x. bindR (f x) g)"
  by (cases m) auto

lemma guardR_simps [simp]:
  "guardR True e = Inr ()"
  "guardR False e = Inl e"
  by (simp_all add: guardR_def)

lemma guardR_Inr [result_simps]: "guardR ok e = Inr u \<longleftrightarrow> ok"
  by (simp add: guardR_def)

lemma guardR_Inl [result_simps]: "guardR ok e = Inl e' \<longleftrightarrow> \<not> ok \<and> e' = e"
  by (auto simp: guardR_def)

lemma traverseR_length: "traverseR f xs = Inr ys \<Longrightarrow> length ys = length xs"
  by (induction xs arbitrary: ys) (auto simp: result_simps)

lemma traverseR_Inr:
  "traverseR f xs = Inr ys \<longleftrightarrow> list_all2 (\<lambda>x y. f x = Inr y) xs ys"
  by (induction xs arbitrary: ys) (auto simp: result_simps list_all2_Cons1)

lemma traverseR_total: "(\<And>x. x \<in> set xs \<Longrightarrow> f x = Inr (g x)) \<Longrightarrow> traverseR f xs = Inr (map g xs)"
  by (induction xs) auto

lemma traverseR_cong [fundef_cong]:
  "xs = ys \<Longrightarrow> (\<And>x. x \<in> set ys \<Longrightarrow> f x = g x) \<Longrightarrow> traverseR f xs = traverseR g ys"
  by (induction ys arbitrary: xs) auto

section \<open>Slices\<close>

text \<open>Python's \<open>xs[i:j]\<close> for non-negative indices: it clips, never raises.\<close>

definition slice :: "'a list \<Rightarrow> nat \<Rightarrow> nat \<Rightarrow> 'a list" where
  "slice xs i j = take (j - i) (drop i xs)"

lemma length_slice [slice_simps]: "length (slice xs i j) = min (j - i) (length xs - i)"
  by (simp add: slice_def min.commute)

lemma slice_all [simp]: "slice xs 0 (length xs) = xs"
  by (simp add: slice_def)

lemma slice_empty [simp]: "j \<le> i \<Longrightarrow> slice xs i j = []"
  by (simp add: slice_def)

lemma slice_append: "i \<le> j \<Longrightarrow> j \<le> k \<Longrightarrow> slice xs i j @ slice xs j k = slice xs i k"
proof -
  assume "i \<le> j" "j \<le> k"
  then have "drop j xs = drop (j - i) (drop i xs)" and k: "k - i = (j - i) + (k - j)" by simp_all
  then show ?thesis by (simp only: slice_def k take_add)
qed

lemma slice_drop: "slice xs i (length xs) = drop i xs"
  by (simp add: slice_def)

lemma slice_slice: "slice (slice xs i j) a b = slice xs (i + a) (min (i + b) j)"
  by (simp add: slice_def drop_take min_def add.commute)

lemma set_slice_subset: "set (slice xs i j) \<subseteq> set xs"
  unfolding slice_def by (meson set_drop_subset set_take_subset subset_trans)

lemma slice_nonempty: "i < j \<Longrightarrow> j \<le> length xs \<Longrightarrow> slice xs i j \<noteq> []"
  by (simp add: slice_def)

section \<open>Replacing slices\<close>

text \<open>
  The reference for every splice: copy the text, putting \<open>r\<close> for the slice from \<open>s\<close> to \<open>e\<close>,
  left to right over spans \<open>(s, e, r)\<close> in order. The tokenizer works right to left instead;
  \<open>splice_right\<close> is that walk, and the two agree on ordered disjoint spans.
\<close>

fun rebuild :: "'a list \<Rightarrow> nat \<Rightarrow> (nat \<times> nat \<times> 'a list) list \<Rightarrow> 'a list" where
  "rebuild txt c [] = drop c txt"
| "rebuild txt c ((s, e, r) # xs) = slice txt c s @ r @ rebuild txt e xs"

fun splice_right ::
    "'a list \<Rightarrow> (nat \<times> nat \<times> 'a list) list \<Rightarrow> 'a list list \<times> nat \<Rightarrow> 'a list list \<times> nat" where
  "splice_right txt [] st = st"
| "splice_right txt ((s, e, r) # xs) (pieces, cursor) =
     splice_right txt xs (pieces @ [slice txt e cursor, r], s)"

definition spans_ordered :: "nat \<Rightarrow> (nat \<times> nat \<times> 'a list) list \<Rightarrow> bool" where
  "spans_ordered n xs \<longleftrightarrow> sorted_wrt (\<lambda>(s, e, r) (s', e', r'). e \<le> s') xs
     \<and> (\<forall>(s, e, r) \<in> set xs. s \<le> e \<and> e \<le> n)"

lemma splice_right_append: "splice_right txt (xs @ ys) p = splice_right txt ys (splice_right txt xs p)"
  by (induction "txt" xs p rule: splice_right.induct) auto

lemma splice_right_rebuild:
  assumes "spans_ordered (length txt) xs" "splice_right txt (rev xs) ([], length txt) = (pieces, cursor)"
    and "k \<le> cursor"
  shows "slice txt k cursor @ concat (rev pieces) = rebuild txt k xs"
    and "cursor = (case xs of [] \<Rightarrow> length txt | x # _ \<Rightarrow> fst x)"
proof -
  have "(\<forall>k \<le> cursor. slice txt k cursor @ concat (rev pieces) = rebuild txt k xs)
     \<and> cursor = (case xs of [] \<Rightarrow> length txt | x # _ \<Rightarrow> fst x)"
    using assms(1,2)
  proof (induction xs arbitrary: pieces cursor)
    case Nil
    then show ?case by (auto simp: slice_drop)
  next
    case (Cons x xs)
    obtain s e r where x: "x = (s, e, r)" by (cases x)
    obtain ps c where eq: "splice_right txt (rev xs) ([], length txt) = (ps, c)" by fastforce
    have o: "spans_ordered (length txt) xs" "s \<le> e" "e \<le> length txt" "\<forall>y \<in> set xs. e \<le> fst y"
      using Cons.prems(1) x by (auto simp: spans_ordered_def)
    note ih = Cons.IH[OF o(1) eq]
    then have "e \<le> c" using o(3,4) by (auto split: list.splits)
    then have "slice txt e c @ concat (rev ps) = rebuild txt e xs" using ih by blast
    moreover have "pieces = ps @ [slice txt e c, r]" "cursor = s"
      using Cons.prems(2) x eq by (auto simp: splice_right_append)
    ultimately show ?case using x by simp
  qed
  then show "slice txt k cursor @ concat (rev pieces) = rebuild txt k xs"
    "cursor = (case xs of [] \<Rightarrow> length txt | x # _ \<Rightarrow> fst x)" using assms(3) by blast+
qed

section \<open>Dictionaries in insertion order\<close>

text \<open>
  A Python dict whose order matters is an association list: \<open>dict_put\<close> overwrites in place
  when the key is present and appends otherwise, as \<open>d[k] = v\<close> does.
\<close>

abbreviation dict_get :: "('k \<times> 'v) list \<Rightarrow> 'k \<Rightarrow> 'v option" where
  "dict_get d \<equiv> map_of d"

abbreviation dict_put :: "'k \<Rightarrow> 'v \<Rightarrow> ('k \<times> 'v) list \<Rightarrow> ('k \<times> 'v) list" where
  "dict_put \<equiv> AList.update"

definition dict_incr :: "'k \<Rightarrow> nat \<Rightarrow> ('k \<times> nat) list \<Rightarrow> ('k \<times> nat) list" where
  "dict_incr k n d = dict_put k ((case dict_get d k of None \<Rightarrow> 0 | Some c \<Rightarrow> c) + n) d"

definition dict_count :: "('k \<times> nat) list \<Rightarrow> 'k \<Rightarrow> nat" where
  "dict_count d k = (case dict_get d k of None \<Rightarrow> 0 | Some c \<Rightarrow> c)"

lemma dict_get_put [simp]: "dict_get (dict_put k v d) k' = (if k' = k then Some v else dict_get d k')"
  by (simp add: update_conv')

lemma dict_count_incr [simp]:
  "dict_count (dict_incr k n d) k' = dict_count d k' + (if k' = k then n else 0)"
  by (simp add: dict_count_def dict_incr_def)

lemma dict_count_Nil [simp]: "dict_count [] k = 0"
  by (simp add: dict_count_def)

lemma distinct_dict_incr: "distinct (map fst d) \<Longrightarrow> distinct (map fst (dict_incr k n d))"
  by (simp add: dict_incr_def distinct_update)

section \<open>Big-endian positional encodings\<close>

text \<open>
  One encoding serves \<open>int.to_bytes(n, "big")\<close> (base 256), hexadecimal (base 16) and
  Crockford base 32: exactly \<open>w\<close> digits, most significant first.
\<close>

fun enc_be :: "nat \<Rightarrow> nat \<Rightarrow> nat \<Rightarrow> nat list" where
  "enc_be b 0 v = []"
| "enc_be b (Suc w) v = enc_be b w (v div b) @ [v mod b]"

definition dec_be :: "nat \<Rightarrow> nat list \<Rightarrow> nat" where
  "dec_be b ds = foldl (\<lambda>a d. a * b + d) 0 ds"

lemma length_enc_be [simp]: "length (enc_be b w v) = w"
  by (induction w arbitrary: v) auto

lemma enc_be_bound: "0 < b \<Longrightarrow> d \<in> set (enc_be b w v) \<Longrightarrow> d < b"
  by (induction w arbitrary: v) auto

lemma dec_be_snoc [simp]: "dec_be b (ds @ [d]) = dec_be b ds * b + d"
  by (simp add: dec_be_def)

lemma dec_be_Nil [simp]: "dec_be b [] = 0"
  by (simp add: dec_be_def)

lemma dec_enc_be: "0 < b \<Longrightarrow> v < b ^ w \<Longrightarrow> dec_be b (enc_be b w v) = v"
proof (induction w arbitrary: v)
  case (Suc w)
  have "v div b < b ^ w"
    using Suc.prems by (simp add: less_mult_imp_div_less mult.commute)
  then show ?case using Suc by (simp add: mult.commute)
qed simp

lemma enc_be_inj: "0 < b \<Longrightarrow> v < b ^ w \<Longrightarrow> v' < b ^ w \<Longrightarrow> enc_be b w v = enc_be b w v' \<Longrightarrow> v = v'"
  by (metis dec_enc_be)

lemma enc_dec_be: "\<forall>d \<in> set ds. d < b \<Longrightarrow> enc_be b (length ds) (dec_be b ds) = ds"
  by (induction ds rule: rev_induct) auto

lemma dec_be_bound: "\<forall>d \<in> set ds. d < b \<Longrightarrow> dec_be b ds < b ^ length ds"
proof (induction ds rule: rev_induct)
  case (snoc d ds)
  then have "dec_be b ds + 1 \<le> b ^ length ds" and "d < b" by auto
  then have "(dec_be b ds + 1) * b \<le> b ^ length ds * b" by (simp only: mult_le_mono1)
  with \<open>d < b\<close> show ?case by (simp add: algebra_simps)
qed simp

lemma nth_enc_be: "i < w \<Longrightarrow> enc_be b w v ! i = v div b ^ (w - 1 - i) mod b"
proof (induction w arbitrary: v)
  case (Suc w)
  show ?case
  proof (cases "i = w")
    case True
    then show ?thesis by (simp add: nth_append)
  next
    case False
    with Suc.prems have "i < w" by simp
    moreover from this have "w - i = Suc (w - 1 - i)" by simp
    ultimately show ?thesis using Suc.IH[of "v div b"]
      by (simp add: nth_append div_mult2_eq)
  qed
qed simp

section \<open>Sorting by a key\<close>

lemma sort_key_sorted_wrt: "sorted_wrt (\<lambda>x y. f x \<le> f y) (sort_key f xs)"
  using sorted_sort_key[of f xs] by (simp add: sorted_map)

lemma sum_list_map_filter_le:
  "sum_list (map (\<lambda>x. if P x then 1 else 0) xs) = length (filter P xs)"
  by (induction xs) auto

end
