(* ===== verification/Errors.thy ===== *)
theory Errors
  imports Prelude
begin

text \<open>
  Domain errors of \<^verbatim>\<open>app/domain/errors.py\<close>: the machine-readable codes, the HTTP status the
  catalog gives each, and the exceptions the modelled code raises. A gateway error carries its
  code and the \<open>reason\<close> entry of its log context (empty where the code sets none).
  The last constructors are Python's own exceptions, raised by constructors and by the
  standard library, and the base classes of the exceptions of the stores and of the
  cryptography library; \<open>Diverges\<close> stands for a loop that does not return.
\<close>

datatype error_code =
    AUTHENTICATION_REQUIRED
  | AUTHENTICATION_FAILED
  | AUTHORIZATION_FAILED
  | RATE_LIMIT_EXCEEDED
  | REQUEST_TOO_LARGE
  | INVALID_REQUEST
  | UNSUPPORTED_LANGUAGE
  | POLICY_NOT_FOUND
  | POLICY_VIOLATION
  | ENTITY_LIMIT_EXCEEDED
  | PRIVACY_DETECTOR_UNAVAILABLE
  | VAULT_UNAVAILABLE
  | VAULT_ENCRYPTION_FAILED
  | PROVIDER_NOT_ALLOWED
  | MODEL_NOT_ALLOWED
  | PROVIDER_TIMEOUT
  | PROVIDER_UNAVAILABLE
  | PROVIDER_RESPONSE_INVALID
  | RESTORATION_FAILED
  | AUDIT_UNAVAILABLE
  | DOCUMENT_NOT_FOUND
  | DOCUMENT_TOO_LARGE
  | DOCUMENT_TYPE_UNSUPPORTED
  | DOCUMENT_INVALID
  | DOCUMENT_STORAGE_UNAVAILABLE
  | DOCUMENT_ENCRYPTION_FAILED
  | DOCUMENT_EXTRACTION_FAILED
  | DOCUMENT_EXTRACTION_TIMEOUT
  | INTERNAL_ERROR

datatype exn =
    GatewayError (err_code: error_code) (err_reason: string)
  | ValueError
  | OverflowError
  | UnicodeEncodeError
  | UnicodeDecodeError
  | AssertionError
  | KeyError
  | TypeError
  | AttributeError
  | IndexError
  | RuntimeError
  | OSError
  | StructError
  | SQLAlchemyError
  | RedisError
  | CryptoError
  | TimeoutError
  | Diverges

type_synonym 'a res = "exn + 'a"

text \<open>The HTTP status of \<open>ERROR_CATALOG\<close>; the public messages are in \<open>Http_Boundary\<close>.\<close>

fun status_code :: "error_code \<Rightarrow> nat" where
  "status_code AUTHENTICATION_REQUIRED = 401"
| "status_code AUTHENTICATION_FAILED = 401"
| "status_code AUTHORIZATION_FAILED = 403"
| "status_code RATE_LIMIT_EXCEEDED = 429"
| "status_code REQUEST_TOO_LARGE = 413"
| "status_code INVALID_REQUEST = 400"
| "status_code UNSUPPORTED_LANGUAGE = 400"
| "status_code POLICY_NOT_FOUND = 409"
| "status_code POLICY_VIOLATION = 422"
| "status_code ENTITY_LIMIT_EXCEEDED = 422"
| "status_code PRIVACY_DETECTOR_UNAVAILABLE = 503"
| "status_code VAULT_UNAVAILABLE = 503"
| "status_code VAULT_ENCRYPTION_FAILED = 503"
| "status_code PROVIDER_NOT_ALLOWED = 403"
| "status_code MODEL_NOT_ALLOWED = 403"
| "status_code PROVIDER_TIMEOUT = 504"
| "status_code PROVIDER_UNAVAILABLE = 502"
| "status_code PROVIDER_RESPONSE_INVALID = 502"
| "status_code RESTORATION_FAILED = 500"
| "status_code AUDIT_UNAVAILABLE = 503"
| "status_code DOCUMENT_NOT_FOUND = 404"
| "status_code DOCUMENT_TOO_LARGE = 413"
| "status_code DOCUMENT_TYPE_UNSUPPORTED = 415"
| "status_code DOCUMENT_INVALID = 400"
| "status_code DOCUMENT_STORAGE_UNAVAILABLE = 503"
| "status_code DOCUMENT_ENCRYPTION_FAILED = 503"
| "status_code DOCUMENT_EXTRACTION_FAILED = 422"
| "status_code DOCUMENT_EXTRACTION_TIMEOUT = 503"
| "status_code INTERNAL_ERROR = 500"

text \<open>Every code stops the request with a client or server error.\<close>

lemma status_code_is_error: "400 \<le> status_code c \<and> status_code c < 600"
  by (cases c) simp_all

end
