(* ===== verification/Effects.thy ===== *)
theory Effects
  imports Errors
begin

text \<open>
  The combinators of the stateful stages: an operation takes the state of the store it works on
  and returns its result or exception with the new state. \<open>catchS\<close> is \<open>except (...)\<close> with a
  handler for the exceptions it names; the state the body left is kept, as Python keeps it.
\<close>

named_theorems state_simps \<open>inversion rules of the state combinators\<close>

type_synonym ('s, 'a) op = "'s \<Rightarrow> 'a res \<times> 's"

definition liftS :: "'a res \<Rightarrow> ('s, 'a) op" where
  "liftS r s = (r, s)"

definition bindS :: "('s, 'a) op \<Rightarrow> ('a \<Rightarrow> ('s, 'b) op) \<Rightarrow> ('s, 'b) op" where
  "bindS m f s = (case m s of (Inl e, s') \<Rightarrow> (Inl e, s') | (Inr x, s') \<Rightarrow> f x s')"

lemma liftS_eq [state_simps]: "liftS r s = (r', s') \<longleftrightarrow> r = r' \<and> s = s'"
  by (auto simp: liftS_def)

lemma bindS_Inr [state_simps]:
  "bindS m f s = (Inr y, s'') \<longleftrightarrow> (\<exists>x s'. m s = (Inr x, s') \<and> f x s' = (Inr y, s''))"
  by (auto simp: bindS_def split: prod.splits sum.splits)

lemma bindS_Inl [state_simps]:
  "bindS m f s = (Inl e, s'') \<longleftrightarrow>
     m s = (Inl e, s'') \<or> (\<exists>x s'. m s = (Inr x, s') \<and> f x s' = (Inl e, s''))"
  by (auto simp: bindS_def split: prod.splits sum.splits)

lemma bindS_liftS [simp]:
  "bindS (liftS (Inl e)) f s = (Inl e, s)"
  "bindS (liftS (Inr x)) f s = f x s"
  by (simp_all add: bindS_def liftS_def)

lemma bindS_step:
  "m s = (Inr x, s') \<Longrightarrow> bindS m f s = f x s'"
  "m s = (Inl e, s') \<Longrightarrow> bindS m f s = (Inl e, s')"
  by (simp_all add: bindS_def)

definition catchS :: "('s, 'a) op \<Rightarrow> (exn \<Rightarrow> ('s, 'a) op option) \<Rightarrow> ('s, 'a) op" where
  "catchS m handler s = (case m s of
       (Inr x, s') \<Rightarrow> (Inr x, s')
     | (Inl e, s') \<Rightarrow> (case handler e of None \<Rightarrow> (Inl e, s') | Some h \<Rightarrow> h s'))"

lemma catchS_step [simp]:
  "m s = (Inr x, s') \<Longrightarrow> catchS m h s = (Inr x, s')"
  "m s = (Inl e, s') \<Longrightarrow> h e = None \<Longrightarrow> catchS m h s = (Inl e, s')"
  "m s = (Inl e, s') \<Longrightarrow> h e = Some k \<Longrightarrow> catchS m h s = k s'"
  by (simp_all add: catchS_def)

lemma catchS_Inl:
  "catchS m h s = (Inl e, s'') \<Longrightarrow>
     \<exists>e' s'. m s = (Inl e', s') \<and> (h e' = None \<and> e' = e \<or> (\<exists>k. h e' = Some k \<and> k s' = (Inl e, s'')))"
  by (auto simp: catchS_def split: prod.splits sum.splits option.splits)

definition getS :: "('s, 's) op" where
  "getS s = (Inr s, s)"

definition putS :: "'s \<Rightarrow> ('s, unit) op" where
  "putS s' s = (Inr (), s')"

lemma getS_putS [simp]: "getS s = (Inr s, s)" "putS s' s = (Inr (), s')"
  by (simp_all add: getS_def putS_def)

end
