(* ===== verification/Database.thy ===== *)
theory Database
  imports Effects
begin

text \<open>
  The relational store behind the repositories. SQLAlchemy and the database are not part of the
  repository: a table is a record of operations on the state of its server, and \<open>table_laws\<close>
  states what a statement that succeeds does to the rows. \<open>rows\<close> is the table's contents in
  primary-key order; a failed statement raises and leaves the rows as they were.
  \<open>plain_table\<close> is the table as a list, the instance used in worked examples.
\<close>

record ('s, 'r) table_ops =
  tb_select :: "('r \<Rightarrow> bool) \<Rightarrow> ('s, 'r list) op"
  tb_insert :: "'r \<Rightarrow> ('s, unit) op"
  tb_update :: "('r \<Rightarrow> bool) \<Rightarrow> ('r \<Rightarrow> 'r) \<Rightarrow> ('s, unit) op"
  tb_delete :: "('r \<Rightarrow> bool) \<Rightarrow> ('s, unit) op"

definition update_where :: "('r \<Rightarrow> bool) \<Rightarrow> ('r \<Rightarrow> 'r) \<Rightarrow> 'r list \<Rightarrow> 'r list" where
  "update_where P f rs = map (\<lambda>r. if P r then f r else r) rs"

definition select_law :: "('s, 'r) table_ops \<Rightarrow> ('s \<Rightarrow> 'r list) \<Rightarrow> bool" where
  "select_law tb rows \<longleftrightarrow> (\<forall>P s r s'. tb_select tb P s = (r, s') \<longrightarrow>
     rows s' = rows s \<and> (\<forall>rs. r = Inr rs \<longrightarrow> rs = filter P (rows s)))"

definition insert_law :: "('s, 'r) table_ops \<Rightarrow> ('s \<Rightarrow> 'r list) \<Rightarrow> bool" where
  "insert_law tb rows \<longleftrightarrow> (\<forall>x s r s'. tb_insert tb x s = (r, s') \<longrightarrow>
     rows s' = (if isl r then rows s else rows s @ [x]))"

definition update_law :: "('s, 'r) table_ops \<Rightarrow> ('s \<Rightarrow> 'r list) \<Rightarrow> bool" where
  "update_law tb rows \<longleftrightarrow> (\<forall>P f s r s'. tb_update tb P f s = (r, s') \<longrightarrow>
     rows s' = (if isl r then rows s else update_where P f (rows s)))"

definition delete_law :: "('s, 'r) table_ops \<Rightarrow> ('s \<Rightarrow> 'r list) \<Rightarrow> bool" where
  "delete_law tb rows \<longleftrightarrow> (\<forall>P s r s'. tb_delete tb P s = (r, s') \<longrightarrow>
     rows s' = (if isl r then rows s else filter (\<lambda>x. \<not> P x) (rows s)))"

definition table_laws :: "('s, 'r) table_ops \<Rightarrow> ('s \<Rightarrow> 'r list) \<Rightarrow> bool" where
  "table_laws tb rows \<longleftrightarrow>
     select_law tb rows \<and> insert_law tb rows \<and> update_law tb rows \<and> delete_law tb rows"

text \<open>What the driver raises.\<close>

definition db_error :: "exn \<Rightarrow> bool" where
  "db_error e \<longleftrightarrow> e = SQLAlchemyError \<or> e = OSError"

definition table_errors :: "('s, 'r) table_ops \<Rightarrow> bool" where
  "table_errors tb \<longleftrightarrow>
     (\<forall>P s e s'. tb_select tb P s = (Inl e, s') \<longrightarrow> db_error e) \<and>
     (\<forall>x s e s'. tb_insert tb x s = (Inl e, s') \<longrightarrow> db_error e) \<and>
     (\<forall>P f s e s'. tb_update tb P f s = (Inl e, s') \<longrightarrow> db_error e) \<and>
     (\<forall>P s e s'. tb_delete tb P s = (Inl e, s') \<longrightarrow> db_error e)"

text \<open>\<open>scalar_one_or_none\<close> on the rows of a statement; several rows raise \<open>MultipleResultsFound\<close>.\<close>

fun scalar_one_or_none :: "'r list \<Rightarrow> 'r option res" where
  "scalar_one_or_none [] = Inr None"
| "scalar_one_or_none [r] = Inr (Some r)"
| "scalar_one_or_none (r # r' # rs) = Inl SQLAlchemyError"

definition select_one :: "('s, 'r) table_ops \<Rightarrow> ('r \<Rightarrow> bool) \<Rightarrow> ('s, 'r option) op" where
  "select_one tb P = bindS (tb_select tb P) (\<lambda>rs. liftS (scalar_one_or_none rs))"

lemma table_select:
  assumes "table_laws tb rows" "tb_select tb P s = (r, s')"
  shows "rows s' = rows s" "r = Inr rs \<Longrightarrow> rs = filter P (rows s)"
  using assms unfolding table_laws_def select_law_def by blast+

lemma table_insert: "table_laws tb rows \<Longrightarrow> tb_insert tb x s = (r, s') \<Longrightarrow>
    rows s' = (if isl r then rows s else rows s @ [x])"
  unfolding table_laws_def insert_law_def by blast

lemma table_update: "table_laws tb rows \<Longrightarrow> tb_update tb P f s = (r, s') \<Longrightarrow>
    rows s' = (if isl r then rows s else update_where P f (rows s))"
  unfolding table_laws_def update_law_def by blast

lemma table_delete: "table_laws tb rows \<Longrightarrow> tb_delete tb P s = (r, s') \<Longrightarrow>
    rows s' = (if isl r then rows s else filter (\<lambda>x. \<not> P x) (rows s))"
  unfolding table_laws_def delete_law_def by blast

lemma scalar_one_or_none_simps [simp]:
  "scalar_one_or_none rs = Inr None \<longleftrightarrow> rs = []"
  "scalar_one_or_none rs = Inr (Some r) \<longleftrightarrow> rs = [r]"
  "scalar_one_or_none rs = Inl e \<longleftrightarrow> 2 \<le> length rs \<and> e = SQLAlchemyError"
  by (cases rs rule: scalar_one_or_none.cases; force)+

lemma select_one_rows:
  assumes "table_laws tb rows" "select_one tb P s = (r, s')"
  shows "rows s' = rows s"
    and "r = Inr (Some x) \<Longrightarrow> filter P (rows s) = [x]"
    and "r = Inr None \<Longrightarrow> filter P (rows s) = []"
proof -
  obtain r1 s1 where sel: "tb_select tb P s = (r1, s1)" by fastforce
  note law = table_select[OF assms(1) sel]
  show "rows s' = rows s" "r = Inr (Some x) \<Longrightarrow> filter P (rows s) = [x]" "r = Inr None \<Longrightarrow> filter P (rows s) = []"
    using assms(2) sel law by (auto simp: select_one_def bindS_def liftS_def split: sum.splits)
qed

lemma select_one_error:
  "table_errors tb \<Longrightarrow> select_one tb P s = (Inl e, s') \<Longrightarrow> db_error e"
  by (auto simp: select_one_def table_errors_def bindS_Inl liftS_def db_error_def)

definition plain_table :: "('r list, 'r) table_ops" where
  "plain_table =
     \<lparr>tb_select = (\<lambda>P rs. (Inr (filter P rs), rs)), tb_insert = (\<lambda>x rs. (Inr (), rs @ [x])),
      tb_update = (\<lambda>P f rs. (Inr (), update_where P f rs)),
      tb_delete = (\<lambda>P rs. (Inr (), filter (\<lambda>x. \<not> P x) rs))\<rparr>"

lemma plain_table_laws: "table_laws plain_table id" "table_errors plain_table"
  by (simp_all add: table_laws_def select_law_def insert_law_def update_law_def delete_law_def
      table_errors_def plain_table_def)

end
