(* ===== verification/Text.thy ===== *)
theory Text
  imports Errors "HOL-Library.Sublist"
begin

text \<open>
  Python strings and bytes, as far as the gateway uses them. A \<open>str\<close> is a list of Unicode
  code points (natural numbers), so lengths, indices and slices count what Python counts;
  \<open>bytes\<close> is a list of numbers below 256. UTF-8 and the search, split and join methods are
  written out. What needs the Unicode character database (character classes, case mappings,
  normal forms) is a record of functions passed as an argument.
\<close>

type_synonym uchar = nat
type_synonym ustr = "nat list"
type_synonym bytes = "nat list"

abbreviation lit :: "string \<Rightarrow> ustr" where
  "lit s \<equiv> map of_char s"

text \<open>\<open>str(n)\<close>: decimal digits, with a minus sign where it is negative.\<close>

fun nat_str :: "nat \<Rightarrow> ustr" where
  "nat_str n = (if n < 10 then [48 + n] else nat_str (n div 10) @ [48 + n mod 10])"

declare nat_str.simps [simp del]

definition int_str :: "int \<Rightarrow> ustr" where
  "int_str n = (if n < 0 then 45 # nat_str (nat (- n)) else nat_str (nat n))"

lemma nat_str_digits: "c \<in> set (nat_str n) \<Longrightarrow> 48 \<le> c \<and> c < 58"
proof (induction n rule: nat_str.induct)
  case (1 n)
  then show ?case by (subst (asm) (2) nat_str.simps) (auto split: if_splits)
qed

lemma nat_str_value: "foldl (\<lambda>a c. a * 10 + (c - 48)) 0 (nat_str n) = n"
proof (induction n rule: nat_str.induct)
  case (1 n)
  then show ?case by (subst nat_str.simps) auto
qed

lemma nat_str_inj: "nat_str m = nat_str n \<Longrightarrow> m = n"
  by (metis nat_str_value)

lemma nat_str_nonempty: "nat_str n \<noteq> []"
  by (subst nat_str.simps) simp

lemma int_str_inj: "int_str i = int_str j \<Longrightarrow> i = j"
proof -
  have neg: "hd (nat_str n) \<noteq> 45" for n
    using nat_str_digits[of "hd (nat_str n)" n] nat_str_nonempty[of n] by auto
  have minus: "45 # x \<noteq> nat_str n" "nat_str n \<noteq> 45 # x" for x n
    using neg[of n] by (auto dest: arg_cong[where f = hd])
  assume "int_str i = int_str j"
  then show ?thesis
    using minus nat_str_inj[of "nat (- i)" "nat (- j)"] nat_str_inj[of "nat i" "nat j"]
    by (auto simp: int_str_def split: if_splits)
qed

section \<open>Searching and splitting\<close>

definition startswith :: "'a list \<Rightarrow> 'a list \<Rightarrow> bool" where
  "startswith s p \<longleftrightarrow> take (length p) s = p"

definition endswith :: "'a list \<Rightarrow> 'a list \<Rightarrow> bool" where
  "endswith s p \<longleftrightarrow> length p \<le> length s \<and> drop (length s - length p) s = p"

text \<open>\<open>s.find(p, i)\<close>: the first index at or after \<open>i\<close> where \<open>p\<close> occurs.\<close>

fun find_at :: "'a list \<Rightarrow> 'a list \<Rightarrow> nat option" where
  "find_at p [] = (if p = [] then Some 0 else None)"
| "find_at p (c # cs) = (if startswith (c # cs) p then Some 0 else map_option Suc (find_at p cs))"

definition py_find :: "'a list \<Rightarrow> 'a list \<Rightarrow> nat \<Rightarrow> nat option" where
  "py_find s p i = (if i \<le> length s then map_option ((+) i) (find_at p (drop i s)) else None)"

text \<open>\<open>s.rfind(p, lo, hi)\<close>: the last index where \<open>p\<close> lies wholly inside \<open>s[lo:hi]\<close>.\<close>

definition py_rfind :: "'a list \<Rightarrow> 'a list \<Rightarrow> nat \<Rightarrow> nat \<Rightarrow> nat option" where
  "py_rfind s p lo hi =
     (let hits = filter (\<lambda>i. i + length p \<le> min hi (length s) \<and> slice s i (i + length p) = p)
                   [lo ..< Suc (min hi (length s))]
      in if hits = [] then None else Some (last hits))"

fun split_on :: "'a \<Rightarrow> 'a list \<Rightarrow> 'a list list" where
  "split_on c [] = [[]]"
| "split_on c (x # xs) =
     (if x = c then [] # split_on c xs
      else (case split_on c xs of [] \<Rightarrow> [[x]] | w # ws \<Rightarrow> (x # w) # ws))"

fun join_with :: "'a list \<Rightarrow> 'a list list \<Rightarrow> 'a list" where
  "join_with sep [] = []"
| "join_with sep [w] = w"
| "join_with sep (w # v # ws) = w @ sep @ join_with sep (v # ws)"

lemma startswith_append [simp]: "startswith (p @ s) p"
  by (simp add: startswith_def)

lemma startswith_iff: "startswith s p \<longleftrightarrow> (\<exists>t. s = p @ t)"
  by (metis append_take_drop_id startswith_def append_eq_conv_conj)

lemma endswith_iff: "endswith s p \<longleftrightarrow> (\<exists>t. s = t @ p)"
  by (auto simp: endswith_def) (metis append_take_drop_id)

lemma find_at_Some: "find_at p s = Some i \<Longrightarrow> startswith (drop i s) p \<and> i + length p \<le> length s"
proof (induction s arbitrary: i)
  case Nil
  then show ?case by (auto simp: startswith_def split: if_splits)
next
  case (Cons c cs)
  then show ?case
    by (auto simp: startswith_iff split: if_splits dest: arg_cong[of _ _ length])
qed

lemma find_at_least: "find_at p s = Some i \<Longrightarrow> j < i \<Longrightarrow> \<not> startswith (drop j s) p"
proof (induction s arbitrary: i j)
  case (Cons c cs)
  then show ?case by (cases j) (auto split: if_splits)
qed (auto split: if_splits)

lemma find_at_None: "find_at p s = None \<Longrightarrow> j \<le> length s \<Longrightarrow> \<not> startswith (drop j s) p"
proof (induction s arbitrary: j)
  case (Cons c cs)
  then show ?case by (cases j) (auto split: if_splits)
qed (auto simp: startswith_def split: if_splits)

lemma py_find_Some:
  assumes "py_find s p i = Some k"
  shows "i \<le> k" "k + length p \<le> length s" "startswith (drop k s) p"
  using assms find_at_Some[of p "drop i s"]
  by (auto simp: py_find_def add.commute split: if_splits)

lemma py_rfind_Some:
  assumes "py_rfind s p lo hi = Some i"
  shows "lo \<le> i" "i + length p \<le> hi" "i + length p \<le> length s" "slice s i (i + length p) = p"
proof -
  let ?hits = "filter (\<lambda>i. i + length p \<le> min hi (length s) \<and> slice s i (i + length p) = p)
                   [lo ..< Suc (min hi (length s))]"
  from assms have "?hits \<noteq> []" and "i = last ?hits"
    by (auto simp: py_rfind_def Let_def simp del: upt_Suc split: if_splits)
  then have "i \<in> set ?hits" by (metis last_in_set)
  then show "lo \<le> i" "i + length p \<le> hi" "i + length p \<le> length s" "slice s i (i + length p) = p"
    by (auto simp del: upt_Suc)
qed

lemma split_on_nonempty [simp]: "split_on c xs \<noteq> []"
  by (induction xs) (auto split: list.splits)

lemma join_with_Cons: "join_with sep ((x # w) # ws) = x # join_with sep (w # ws)"
  by (cases ws) auto

lemma join_split: "join_with [c] (split_on c xs) = xs"
proof (induction xs)
  case (Cons x xs)
  then show ?case by (cases "split_on c xs") (auto simp: neq_Nil_conv join_with_Cons split: list.splits)
qed simp

lemma split_on_no_sep: "c \<notin> set w \<Longrightarrow> split_on c w = [w]"
  by (induction w) auto

lemma split_on_append_sep:
  "c \<notin> set w \<Longrightarrow> split_on c (w @ c # rest) = w # split_on c rest"
  by (induction w) auto

lemma split_on_field: "w \<in> set (split_on c xs) \<Longrightarrow> c \<notin> set w"
  by (induction xs arbitrary: w) (auto split: if_splits list.splits)

section \<open>UTF-8\<close>

text \<open>\<open>str.encode("utf-8")\<close> raises on surrogates; no Python character is above 0x10FFFF.\<close>

definition utf8_char :: "uchar \<Rightarrow> bytes option" where
  "utf8_char c =
     (if c < 0x80 then Some [c]
      else if c < 0x800 then Some [0xC0 + c div 64, 0x80 + c mod 64]
      else if 0xD800 \<le> c \<and> c < 0xE000 then None
      else if c < 0x10000 then Some [0xE0 + c div 4096, 0x80 + c div 64 mod 64, 0x80 + c mod 64]
      else if c < 0x110000 then
        Some [0xF0 + c div 262144, 0x80 + c div 4096 mod 64, 0x80 + c div 64 mod 64, 0x80 + c mod 64]
      else None)"

fun utf8_encode :: "ustr \<Rightarrow> bytes res" where
  "utf8_encode [] = Inr []"
| "utf8_encode (c # cs) =
     (case utf8_char c of None \<Rightarrow> Inl UnicodeEncodeError
      | Some b \<Rightarrow> bindR (utf8_encode cs) (\<lambda>bs. Inr (b @ bs)))"

definition continuation :: "nat \<Rightarrow> bool" where
  "continuation b \<longleftrightarrow> 0x80 \<le> b \<and> b < 0xC0"

text \<open>
  The strict decoder: \<open>bytes.decode("utf-8")\<close> refuses truncated and overlong sequences,
  surrogates and numbers above 0x10FFFF, that is everything the encoder does not produce.
\<close>

fun utf8_decode :: "bytes \<Rightarrow> ustr res" where
  "utf8_decode [] = Inr []"
| "utf8_decode (a # bs) =
     (if a < 0x80 then bindR (utf8_decode bs) (\<lambda>cs. Inr (a # cs))
      else if 0xC0 \<le> a \<and> a < 0xE0 then
        (case bs of b # bs' \<Rightarrow>
           (let c = (a - 0xC0) * 64 + (b - 0x80)
            in if continuation b \<and> 0x80 \<le> c
               then bindR (utf8_decode bs') (\<lambda>cs. Inr (c # cs)) else Inl UnicodeDecodeError)
         | _ \<Rightarrow> Inl UnicodeDecodeError)
      else if 0xE0 \<le> a \<and> a < 0xF0 then
        (case bs of b # b' # bs' \<Rightarrow>
           (let c = (a - 0xE0) * 4096 + (b - 0x80) * 64 + (b' - 0x80)
            in if continuation b \<and> continuation b' \<and> 0x800 \<le> c \<and> \<not> (0xD800 \<le> c \<and> c < 0xE000)
               then bindR (utf8_decode bs') (\<lambda>cs. Inr (c # cs)) else Inl UnicodeDecodeError)
         | _ \<Rightarrow> Inl UnicodeDecodeError)
      else if 0xF0 \<le> a \<and> a < 0xF8 then
        (case bs of b # b' # b'' # bs' \<Rightarrow>
           (let c = (a - 0xF0) * 262144 + (b - 0x80) * 4096 + (b' - 0x80) * 64 + (b'' - 0x80)
            in if continuation b \<and> continuation b' \<and> continuation b'' \<and> 0x10000 \<le> c \<and> c < 0x110000
               then bindR (utf8_decode bs') (\<lambda>cs. Inr (c # cs)) else Inl UnicodeDecodeError)
         | _ \<Rightarrow> Inl UnicodeDecodeError)
      else Inl UnicodeDecodeError)"

lemma base64_digits:
  fixes c :: nat
  shows "c div 4096 * 4096 + c div 64 mod 64 * 64 + c mod 64 = c"
    and "c div 262144 * 262144 + c div 4096 mod 64 * 4096 + c div 64 mod 64 * 64 + c mod 64 = c"
proof -
  have d: "c div 4096 = c div 64 div 64" "c div 262144 = c div 64 div 64 div 64"
    by (simp_all add: div_mult2_eq [symmetric])
  note m = div_mult_mod_eq[of c 64] div_mult_mod_eq[of "c div 64" 64]
    div_mult_mod_eq[of "c div 64 div 64" 64]
  show "c div 4096 * 4096 + c div 64 mod 64 * 64 + c mod 64 = c"
    unfolding d using m by linarith
  show "c div 262144 * 262144 + c div 4096 mod 64 * 4096 + c div 64 mod 64 * 64 + c mod 64 = c"
    unfolding d using m by linarith
qed

lemma utf8_decode_char:
  assumes "utf8_char c = Some b"
  shows "utf8_decode (b @ bs) = bindR (utf8_decode bs) (\<lambda>cs. Inr (c # cs))"
proof -
  consider (one) "c < 0x80" | (two) "0x80 \<le> c" "c < 0x800"
    | (three) "0x800 \<le> c" "c < 0x10000" | (four) "0x10000 \<le> c" "c < 0x110000"
    using assms by (fastforce simp: utf8_char_def split: if_splits)
  then show ?thesis
  proof cases
    case one
    then show ?thesis using assms by (auto simp: utf8_char_def)
  next
    case two
    then have "c div 64 < 32" "2 \<le> c div 64" by auto
    moreover have "c div 64 * 64 + c mod 64 = c" by simp
    ultimately show ?thesis using assms two
      by (auto simp: utf8_char_def continuation_def Let_def mult.commute)
  next
    case three
    define x y z where "x = c div 4096" and "y = c div 64 mod 64" and "z = c mod 64"
    have s: "x * 4096 + y * 64 + z = c"
      unfolding x_def y_def z_def by (rule base64_digits(1))
    have "x < 16" using three unfolding x_def by auto
    moreover have "y < 64" "z < 64" unfolding y_def z_def by simp_all
    moreover have "b = [224 + x, 128 + y, 128 + z]" and "\<not> (0xD800 \<le> c \<and> c < 0xE000)"
      using assms three unfolding x_def y_def z_def by (auto simp: utf8_char_def split: if_splits)
    ultimately show ?thesis using s three by (simp add: continuation_def)
  next
    case four
    define x y z w where "x = c div 262144" and "y = c div 4096 mod 64" and "z = c div 64 mod 64"
      and "w = c mod 64"
    have s: "x * 262144 + y * 4096 + z * 64 + w = c"
      unfolding x_def y_def z_def w_def by (rule base64_digits(2))
    have "x < 8" using four unfolding x_def by auto
    moreover have "y < 64" "z < 64" "w < 64" unfolding y_def z_def w_def by simp_all
    moreover have "b = [240 + x, 128 + y, 128 + z, 128 + w]"
      using assms four unfolding x_def y_def z_def w_def by (simp add: utf8_char_def)
    ultimately show ?thesis using s four by (simp add: continuation_def)
  qed
qed

lemma utf8_roundtrip: "utf8_encode s = Inr b \<Longrightarrow> utf8_decode b = Inr s"
  by (induction s arbitrary: b)
    (auto simp: result_simps utf8_decode_char simp del: utf8_decode.simps(2) split: option.splits)

lemma utf8_encode_inj: "utf8_encode s = Inr b \<Longrightarrow> utf8_encode t = Inr b \<Longrightarrow> s = t"
  by (metis utf8_roundtrip sum.inject(2))

lemma utf8_char_byte: "utf8_char c = Some b \<Longrightarrow> x \<in> set b \<Longrightarrow> x < 256"
  by (auto simp: utf8_char_def split: if_splits)

lemma utf8_encode_byte: "utf8_encode s = Inr b \<Longrightarrow> x \<in> set b \<Longrightarrow> x < 256"
  by (induction s arbitrary: b) (auto simp: result_simps utf8_char_byte split: option.splits)

lemma utf8_encode_ascii: "(\<And>c. c \<in> set s \<Longrightarrow> c < 128) \<Longrightarrow> utf8_encode s = Inr s"
  by (induction s) (auto simp: utf8_char_def)

section \<open>The Unicode character database\<close>

text \<open>
  \<open>unicodedata\<close> and the case and class methods of \<open>str\<close> are table lookups in the
  interpreter. They are arguments of the model; the ASCII restriction below is one instance.
\<close>

record ucd =
  ud_isspace :: "uchar \<Rightarrow> bool"
  ud_isdigit :: "uchar \<Rightarrow> bool"
  ud_isdecimal :: "uchar \<Rightarrow> bool"
  ud_decimal :: "uchar \<Rightarrow> nat"
  ud_isalpha :: "uchar \<Rightarrow> bool"
  ud_isalnum :: "uchar \<Rightarrow> bool"
  ud_isupper :: "uchar \<Rightarrow> bool"
  ud_iscntrl :: "uchar \<Rightarrow> bool"
  ud_upper :: "ustr \<Rightarrow> ustr"
  ud_lower :: "ustr \<Rightarrow> ustr"
  ud_casefold :: "ustr \<Rightarrow> ustr"
  ud_nfc :: "ustr \<Rightarrow> ustr"
  ud_nfkc :: "ustr \<Rightarrow> ustr"

definition ascii_digit :: "uchar \<Rightarrow> bool" where "ascii_digit c \<longleftrightarrow> 48 \<le> c \<and> c \<le> 57"
definition ascii_upper :: "uchar \<Rightarrow> bool" where "ascii_upper c \<longleftrightarrow> 65 \<le> c \<and> c \<le> 90"
definition ascii_lower :: "uchar \<Rightarrow> bool" where "ascii_lower c \<longleftrightarrow> 97 \<le> c \<and> c \<le> 122"
definition ascii_space :: "uchar \<Rightarrow> bool" where "ascii_space c \<longleftrightarrow> 9 \<le> c \<and> c \<le> 13 \<or> 28 \<le> c \<and> c \<le> 32"

definition to_lower :: "uchar \<Rightarrow> uchar" where "to_lower c = (if ascii_upper c then c + 32 else c)"
definition to_upper :: "uchar \<Rightarrow> uchar" where "to_upper c = (if ascii_lower c then c - 32 else c)"

definition ascii_ucd :: ucd where
  "ascii_ucd = \<lparr>ud_isspace = ascii_space, ud_isdigit = ascii_digit, ud_isdecimal = ascii_digit,
     ud_decimal = (\<lambda>c. c - 48), ud_isalpha = (\<lambda>c. ascii_upper c \<or> ascii_lower c),
     ud_isalnum = (\<lambda>c. ascii_digit c \<or> ascii_upper c \<or> ascii_lower c), ud_isupper = ascii_upper,
     ud_iscntrl = (\<lambda>c. c < 32 \<or> c = 127), ud_upper = map to_upper, ud_lower = map to_lower,
     ud_casefold = map to_lower, ud_nfc = id, ud_nfkc = id\<rparr>"

lemmas ascii_defs = ascii_ucd_def ascii_digit_def ascii_upper_def ascii_lower_def ascii_space_def
  to_lower_def to_upper_def

definition lstrip :: "ucd \<Rightarrow> ustr \<Rightarrow> ustr" where
  "lstrip U s = dropWhile (ud_isspace U) s"

definition strip :: "ucd \<Rightarrow> ustr \<Rightarrow> ustr" where
  "strip U s = rev (lstrip U (rev (lstrip U s)))"

text \<open>\<open>s.split()\<close>: the maximal runs of characters that are not whitespace.\<close>

fun words_acc :: "ucd \<Rightarrow> ustr \<Rightarrow> ustr \<Rightarrow> ustr list" where
  "words_acc U w [] = (if w = [] then [] else [w])"
| "words_acc U w (c # cs) =
     (if ud_isspace U c then (if w = [] then words_acc U [] cs else w # words_acc U [] cs)
      else words_acc U (w @ [c]) cs)"

definition split_ws :: "ucd \<Rightarrow> ustr \<Rightarrow> ustr list" where
  "split_ws U s = words_acc U [] s"

lemma words_acc_nonempty: "w \<in> set (words_acc U a s) \<Longrightarrow> w \<noteq> []"
  by (induction U a s rule: words_acc.induct) (auto split: if_splits)

end
