(* ===== verification/Framing.thy ===== *)
theory Framing
  imports Text
begin

text \<open>
  Length-prefixed framing, used alike by the fingerprinter, the vault's associated data, the
  outbound payload and the audit digests: each field is preceded by its length in \<open>w\<close>
  big-endian bytes. \<open>int.to_bytes\<close> raises when the length does not fit.
\<close>

definition to_bytes_be :: "nat \<Rightarrow> nat \<Rightarrow> bytes res" where
  "to_bytes_be w v = (if v < 256 ^ w then Inr (enc_be 256 w v) else Inl OverflowError)"

fun frame :: "nat \<Rightarrow> bytes list \<Rightarrow> bytes res" where
  "frame w [] = Inr []"
| "frame w (p # ps) =
     bindR (to_bytes_be w (length p)) (\<lambda>h. bindR (frame w ps) (\<lambda>rest. Inr (h @ p @ rest)))"

lemma to_bytes_be_Inr: "to_bytes_be w v = Inr b \<longleftrightarrow> v < 256 ^ w \<and> b = enc_be 256 w v"
  by (auto simp: to_bytes_be_def)

lemma frame_Cons_Inr:
  "frame w (p # ps) = Inr b \<longleftrightarrow>
     length p < 256 ^ w \<and> (\<exists>rest. frame w ps = Inr rest \<and> b = enc_be 256 w (length p) @ p @ rest)"
  by (auto simp: result_simps to_bytes_be_Inr)

lemma enc_be_eq_Nil [simp]: "enc_be b w v = [] \<longleftrightarrow> w = 0"
  by (metis length_enc_be length_0_conv)

lemma frame_inj:
  assumes "0 < w" "frame w ps = Inr b" "frame w qs = Inr b"
  shows "ps = qs"
  using assms
proof (induction ps arbitrary: qs b)
  case Nil
  then show ?case by (cases qs) (auto simp: frame_Cons_Inr simp del: frame.simps(2))
next
  case (Cons p ps)
  then obtain r where p: "length p < 256 ^ w" "frame w ps = Inr r" "b = enc_be 256 w (length p) @ p @ r"
    by (auto simp: frame_Cons_Inr simp del: frame.simps(2))
  with Cons.prems obtain q qs' where qs: "qs = q # qs'" by (cases qs) auto
  with Cons.prems(3) obtain r' where q: "length q < 256 ^ w" "frame w qs' = Inr r'"
    "b = enc_be 256 w (length q) @ q @ r'"
    by (auto simp: frame_Cons_Inr simp del: frame.simps(2))
  from p(3) q(3) have "enc_be 256 w (length p) = enc_be 256 w (length q)" and rest: "p @ r = q @ r'"
    by (auto simp: append_eq_append_conv)
  then have "length p = length q" using p(1) q(1) by (intro enc_be_inj[of 256]) auto
  with rest have "p = q" "r = r'" by auto
  with Cons.IH[OF Cons.prems(1) p(2)] q(2) qs show ?case by simp
qed

lemma frame_ok: "\<forall>p \<in> set ps. length p < 256 ^ w \<Longrightarrow> \<exists>b. frame w ps = Inr b"
  by (induction ps) (auto simp: to_bytes_be_def)

text \<open>
  What the clients of the framing promise and what they get: if the fields determine the
  message, so do the framed bytes. The digests over them can then only collide if the hash does.
\<close>

locale framed_message =
  fixes w :: nat
    and fields :: "'m \<Rightarrow> bytes list res"
    and valid :: "'m \<Rightarrow> bool"
  assumes width_pos: "0 < w"
    and fields_inj: "valid a \<Longrightarrow> valid b \<Longrightarrow> fields a = Inr x \<Longrightarrow> fields b = Inr x \<Longrightarrow> a = b"
begin

lemma framed_inj:
  assumes "valid a" "valid b" "bindR (fields a) (frame w) = Inr m" "bindR (fields b) (frame w) = Inr m"
  shows "a = b"
proof -
  from assms obtain x y where x: "fields a = Inr x" "frame w x = Inr m"
    and y: "fields b = Inr y" "frame w y = Inr m" by (auto simp: result_simps)
  then have "x = y" using frame_inj[OF width_pos] by blast
  then show "a = b" using fields_inj assms(1,2) x(1) y(1) by blast
qed

end

section \<open>UUIDs\<close>

text \<open>A UUID is its 128-bit number; \<open>.bytes\<close> is big-endian, \<open>str\<close> groups 32 hexadecimal digits.\<close>

definition uuid_bytes :: "nat \<Rightarrow> bytes" where
  "uuid_bytes u = enc_be 256 16 u"

definition hex_digit :: "nat \<Rightarrow> uchar" where
  "hex_digit d = (if d < 10 then 48 + d else 87 + d)"

definition uuid_str :: "nat \<Rightarrow> ustr" where
  "uuid_str u =
     (let h = map hex_digit (enc_be 16 32 u)
      in slice h 0 8 @ 45 # slice h 8 12 @ 45 # slice h 12 16 @ 45 # slice h 16 20 @ 45 # slice h 20 32)"

definition valid_uuid :: "nat \<Rightarrow> bool" where
  "valid_uuid u \<longleftrightarrow> u < 2 ^ 128"

lemma uuid_bytes_inj: "valid_uuid u \<Longrightarrow> valid_uuid v \<Longrightarrow> uuid_bytes u = uuid_bytes v \<Longrightarrow> u = v"
proof -
  assume "valid_uuid u" "valid_uuid v" "uuid_bytes u = uuid_bytes v"
  moreover have "(2::nat) ^ 128 = 256 ^ 16" by simp
  ultimately show "u = v" unfolding uuid_bytes_def valid_uuid_def
    by (metis enc_be_inj zero_less_numeral)
qed

lemma length_uuid_bytes [simp]: "length (uuid_bytes u) = 16"
  by (simp add: uuid_bytes_def)

lemma length_uuid_str [simp]: "length (uuid_str u) = 36"
  by (simp add: uuid_str_def Let_def slice_simps)

lemma hex_digit_inj: "inj_on hex_digit {..<16}"
  by (auto simp: inj_on_def hex_digit_def split: if_splits)

lemma hex_digit_ascii: "d < 16 \<Longrightarrow> 48 \<le> hex_digit d \<and> hex_digit d < 128 \<and> hex_digit d \<noteq> 58"
  by (auto simp: hex_digit_def)

lemma uuid_hex_chars:
  "c \<in> set (map hex_digit (enc_be 16 32 u)) \<Longrightarrow> 48 \<le> c \<and> c < 128 \<and> c \<noteq> 58"
  using enc_be_bound[of 16 _ 32 u] hex_digit_ascii by fastforce

lemma group_no_dash:
  assumes "length h = 32" "45 \<notin> set h"
  shows "filter (\<lambda>c. c \<noteq> 45)
     (slice h 0 8 @ 45 # slice h 8 12 @ 45 # slice h 12 16 @ 45 # slice h 16 20 @ 45 # slice h 20 32) = h"
proof -
  have "filter (\<lambda>c. c \<noteq> 45) (slice h i j) = slice h i j" for i j
    using assms(2) set_slice_subset[of h i j] by (auto simp: filter_id_conv)
  then have "filter (\<lambda>c. c \<noteq> 45)
     (slice h 0 8 @ 45 # slice h 8 12 @ 45 # slice h 12 16 @ 45 # slice h 16 20 @ 45 # slice h 20 32)
      = slice h 0 8 @ slice h 8 12 @ slice h 12 16 @ slice h 16 20 @ slice h 20 32" by simp
  also have "\<dots> = slice h 0 32" by (simp add: slice_append)
  also have "\<dots> = h" using assms(1) slice_all[of h] by simp
  finally show ?thesis .
qed

lemma uuid_str_hex: "filter (\<lambda>c. c \<noteq> 45) (uuid_str u) = map hex_digit (enc_be 16 32 u)"
  unfolding uuid_str_def Let_def using uuid_hex_chars[of 45 u] by (intro group_no_dash) (simp, force)

lemma valid_uuid_pow: "valid_uuid u \<Longrightarrow> u < 16 ^ 32"
  by (simp add: valid_uuid_def)

lemma uuid_str_inj: "valid_uuid u \<Longrightarrow> valid_uuid v \<Longrightarrow> uuid_str u = uuid_str v \<Longrightarrow> u = v"
proof -
  assume a: "valid_uuid u" "valid_uuid v" "uuid_str u = uuid_str v"
  have "set (enc_be 16 32 u) \<union> set (enc_be 16 32 v) \<subseteq> {..<16}" by (auto simp: enc_be_bound)
  then have inj: "inj_on hex_digit (set (enc_be 16 32 u) \<union> set (enc_be 16 32 v))"
    by (rule inj_on_subset[OF hex_digit_inj])
  have "map hex_digit (enc_be 16 32 u) = map hex_digit (enc_be 16 32 v)"
    using a(3) uuid_str_hex by metis
  then have "enc_be 16 32 u = enc_be 16 32 v" using inj by (rule map_inj_on)
  then show "u = v"
    by (rule enc_be_inj[OF zero_less_numeral valid_uuid_pow[OF a(1)] valid_uuid_pow[OF a(2)]])
qed

lemma uuid_str_ascii: "c \<in> set (uuid_str u) \<Longrightarrow> 45 \<le> c \<and> c < 128 \<and> c \<noteq> 58"
proof (cases "c = 45")
  case False
  assume "c \<in> set (uuid_str u)"
  with False have "c \<in> set (filter (\<lambda>c. c \<noteq> 45) (uuid_str u))" by simp
  then show ?thesis using uuid_hex_chars[of c u] unfolding uuid_str_hex by simp
qed simp

lemma uuid_str_chars: "c \<in> set (uuid_str u) \<Longrightarrow> 45 \<le> c \<and> c < 128 \<and> c \<noteq> 58"
proof -
  let ?h = "map hex_digit (enc_be 16 32 u)"
  assume "c \<in> set (uuid_str u)"
  then have "c = 45 \<or> c \<in> set ?h"
    using set_slice_subset[of ?h] by (auto simp: uuid_str_def Let_def simp del: set_map)
  then show ?thesis using uuid_hex_chars[of c u] by auto
qed

lemma utf8_uuid_str [simp]: "utf8_encode (uuid_str u) = Inr (uuid_str u)"
  by (rule utf8_encode_ascii) (simp add: uuid_str_chars)

end
