(* ===== verification/Grammar.thy ===== *)
theory Grammar
  imports Text
begin

unbundle bit_operations_syntax

text \<open>
  The gateway token grammar, \<^verbatim>\<open>app/tokenization/grammar.py\<close>, and the identifier encoding,
  \<^verbatim>\<open>app/tokenization/ids.py\<close>: builder, strict parser and scanner. The regular expression of
  \<open>TOKEN_PATTERN\<close> is the function \<open>regex_match\<close>; \<open>finditer\<close> is \<open>scan_from\<close>.
\<close>

section \<open>Tokens\<close>

definition LEFT_DELIMITER :: uchar where "LEFT_DELIMITER = 0x27E6"
definition RIGHT_DELIMITER :: uchar where "RIGHT_DELIMITER = 0x27E7"
definition NAMESPACE :: ustr where "NAMESPACE = lit ''SGW''"
definition FIELD_SEPARATOR :: uchar where "FIELD_SEPARATOR = 58"
definition REDACTED_MARKER :: ustr where "REDACTED_MARKER = lit ''REDACTED''"
definition TOKEN_ID_LENGTH :: nat where "TOKEN_ID_LENGTH = 26"
definition MAX_ENTITY_TYPE_LENGTH :: nat where "MAX_ENTITY_TYPE_LENGTH = 64"
definition CROCKFORD_ALPHABET :: ustr where
  "CROCKFORD_ALPHABET = lit ''0123456789ABCDEFGHJKMNPQRSTVWXYZ''"

definition is_entity_char :: "uchar \<Rightarrow> bool" where
  "is_entity_char c \<longleftrightarrow> ascii_upper c \<or> ascii_digit c \<or> c = 95"

record token =
  tk_entity_type :: ustr
  tk_token_id :: ustr

record token_match =
  tm_token :: token
  tm_start :: nat
  tm_end :: nat

definition is_valid_entity_type :: "ustr \<Rightarrow> bool" where
  "is_valid_entity_type entity_type \<longleftrightarrow>
     (if \<not> (1 \<le> length entity_type \<and> length entity_type \<le> MAX_ENTITY_TYPE_LENGTH) then False
      else if entity_type = REDACTED_MARKER then False
      else list_all is_entity_char entity_type)"

definition is_valid_token_id :: "ustr \<Rightarrow> bool" where
  "is_valid_token_id token_id \<longleftrightarrow>
     (if length token_id \<noteq> TOKEN_ID_LENGTH then False
      else list_all (\<lambda>c. c \<in> set CROCKFORD_ALPHABET) token_id)"

text \<open>The f-strings of \<open>format_token\<close> and \<open>format_redaction\<close>.\<close>

definition render_token :: "ustr \<Rightarrow> ustr \<Rightarrow> ustr" where
  "render_token entity_type token_id =
     LEFT_DELIMITER # NAMESPACE @ FIELD_SEPARATOR # entity_type @ FIELD_SEPARATOR # token_id @
       [RIGHT_DELIMITER]"

definition format_token :: "ustr \<Rightarrow> ustr \<Rightarrow> ustr res" where
  "format_token entity_type token_id =
     (if \<not> is_valid_entity_type entity_type then Inl ValueError
      else if \<not> is_valid_token_id token_id then Inl ValueError
      else Inr (render_token entity_type token_id))"

definition format_redaction :: "ustr \<Rightarrow> ustr res" where
  "format_redaction entity_type =
     (if \<not> is_valid_entity_type entity_type then Inl ValueError
      else Inr (render_token REDACTED_MARKER entity_type))"

definition parse_token :: "ustr \<Rightarrow> token option" where
  "parse_token candidate =
     (if length candidate < 1 + length NAMESPACE + 2 + 1 + TOKEN_ID_LENGTH + 1 then None
      else if \<not> startswith candidate [LEFT_DELIMITER] \<or> \<not> endswith candidate [RIGHT_DELIMITER] then None
      else (let body = slice candidate 1 (length candidate - 1)
            in case split_on FIELD_SEPARATOR body of
                 [namespace, entity_type, token_id] \<Rightarrow>
                   (if namespace \<noteq> NAMESPACE then None
                    else if \<not> is_valid_entity_type entity_type then None
                    else if \<not> is_valid_token_id token_id then None
                    else Some \<lparr>tk_entity_type = entity_type, tk_token_id = token_id\<rparr>)
               | _ \<Rightarrow> None))"

definition is_token :: "ustr \<Rightarrow> bool" where
  "is_token candidate \<longleftrightarrow> parse_token candidate \<noteq> None"

section \<open>The scanner\<close>

text \<open>
  \<open>TOKEN_PATTERN.match\<close> at the start of \<open>s\<close>: the length of the match. Neither character
  class contains the colon, so the greedy classes match their maximal run or not at all.
\<close>

definition is_identifier_char :: "uchar \<Rightarrow> bool" where
  "is_identifier_char c \<longleftrightarrow> ascii_digit c \<or> 65 \<le> c \<and> c \<le> 72 \<or> c = 74 \<or> c = 75 \<or> c = 77 \<or> c = 78
     \<or> 80 \<le> c \<and> c \<le> 84 \<or> 86 \<le> c \<and> c \<le> 90"

definition regex_match :: "ustr \<Rightarrow> nat option" where
  "regex_match s =
     (let opening = LEFT_DELIMITER # NAMESPACE @ [FIELD_SEPARATOR] in
      if \<not> startswith s opening then None
      else (let s1 = drop (length opening) s;
                entity_type = takeWhile is_entity_char s1;
                s2 = drop (length entity_type) s1;
                token_id = take TOKEN_ID_LENGTH (drop 1 s2);
                s4 = drop (1 + TOKEN_ID_LENGTH) s2
            in if 1 \<le> length entity_type \<and> length entity_type \<le> MAX_ENTITY_TYPE_LENGTH
                  \<and> startswith s2 [FIELD_SEPARATOR]
                  \<and> length token_id = TOKEN_ID_LENGTH \<and> list_all is_identifier_char token_id
                  \<and> startswith s4 [RIGHT_DELIMITER]
               then Some (length opening + length entity_type + 1 + TOKEN_ID_LENGTH + 1)
               else None))"

lemma regex_match_pos: "regex_match s = Some n \<Longrightarrow> 0 < n"
  by (auto simp: regex_match_def Let_def split: if_splits)

text \<open>\<open>finditer\<close>: leftmost matches, each search resuming where the last match ended.\<close>

function scan_from :: "nat \<Rightarrow> ustr \<Rightarrow> (nat \<times> ustr) list" where
  "scan_from pos [] = []"
| "scan_from pos (c # cs) =
     (case regex_match (c # cs) of
        None \<Rightarrow> scan_from (Suc pos) cs
      | Some n \<Rightarrow> (pos, take n (c # cs)) # scan_from (pos + n) (drop n (c # cs)))"
  by pat_completeness auto
termination
  by (relation "measure (\<lambda>(pos, s). length s)") (auto dest: regex_match_pos)

definition find_tokens :: "ustr \<Rightarrow> token_match list" where
  "find_tokens text =
     List.map_filter
       (\<lambda>(start, candidate).
          case parse_token candidate of
            None \<Rightarrow> None
          | Some tk \<Rightarrow> Some \<lparr>tm_token = tk, tm_start = start, tm_end = start + length candidate\<rparr>)
       (scan_from 0 text)"

text \<open>\<open>TokenMatch.text\<close>; \<open>format_token\<close> cannot raise on a parsed token.\<close>

definition tm_text :: "token_match \<Rightarrow> ustr" where
  "tm_text m = render_token (tk_entity_type (tm_token m)) (tk_token_id (tm_token m))"

definition find_token_strings :: "ustr \<Rightarrow> ustr list" where
  "find_token_strings text =
     map fst (fold (\<lambda>m seen. if dict_get seen (tm_text m) = None then dict_put (tm_text m) () seen
                             else seen)
                (find_tokens text) [])"

section \<open>Parsing inverts formatting\<close>

lemmas grammar_consts = LEFT_DELIMITER_def RIGHT_DELIMITER_def NAMESPACE_def FIELD_SEPARATOR_def
  REDACTED_MARKER_def TOKEN_ID_LENGTH_def MAX_ENTITY_TYPE_LENGTH_def

lemma namespace_simps [simp]:
  "FIELD_SEPARATOR \<notin> set NAMESPACE" "length NAMESPACE = 3" "LEFT_DELIMITER \<notin> set NAMESPACE"
  by (simp_all add: grammar_consts)

lemma crockford_iff: "c \<in> set CROCKFORD_ALPHABET \<longleftrightarrow> is_identifier_char c"
  by (simp add: CROCKFORD_ALPHABET_def is_identifier_char_def ascii_digit_def) presburger

lemma entity_char_not_special:
  "is_entity_char c \<Longrightarrow> c \<noteq> FIELD_SEPARATOR \<and> c \<noteq> LEFT_DELIMITER \<and> c \<noteq> RIGHT_DELIMITER"
  by (auto simp: is_entity_char_def ascii_upper_def ascii_digit_def grammar_consts)

lemma identifier_char_not_special:
  "is_identifier_char c \<Longrightarrow> c \<noteq> FIELD_SEPARATOR \<and> c \<noteq> LEFT_DELIMITER \<and> c \<noteq> RIGHT_DELIMITER"
  by (auto simp: is_identifier_char_def ascii_digit_def grammar_consts)

lemma valid_entity_typeD:
  "is_valid_entity_type e \<Longrightarrow> 1 \<le> length e \<and> length e \<le> 64 \<and> list_all is_entity_char e \<and> e \<noteq> REDACTED_MARKER"
  by (auto simp: is_valid_entity_type_def MAX_ENTITY_TYPE_LENGTH_def split: if_splits)

lemma valid_token_idD:
  "is_valid_token_id t \<Longrightarrow> length t = 26 \<and> list_all is_identifier_char t"
  by (auto simp: is_valid_token_id_def TOKEN_ID_LENGTH_def crockford_iff split: if_splits)

lemma valid_entity_type_no_sep: "is_valid_entity_type e \<Longrightarrow> FIELD_SEPARATOR \<notin> set e"
  using valid_entity_typeD entity_char_not_special by (fastforce simp: list_all_iff)

lemma valid_token_id_no_sep: "is_valid_token_id t \<Longrightarrow> FIELD_SEPARATOR \<notin> set t"
  using valid_token_idD identifier_char_not_special by (fastforce simp: list_all_iff)

lemma length_render_token [simp]: "length (render_token e t) = 7 + length e + length t"
  by (simp add: render_token_def)

lemma slice_body: "slice (x # body @ [y]) 1 (length (x # body @ [y]) - 1) = body"
  by (simp add: slice_def)

lemma parse_token_fields:
  assumes "FIELD_SEPARATOR \<notin> set e" "FIELD_SEPARATOR \<notin> set t"
  shows "parse_token (render_token e t) =
    (if is_valid_entity_type e \<and> is_valid_token_id t
     then Some \<lparr>tk_entity_type = e, tk_token_id = t\<rparr> else None)"
proof -
  let ?body = "NAMESPACE @ FIELD_SEPARATOR # e @ FIELD_SEPARATOR # t"
  have r: "render_token e t = LEFT_DELIMITER # ?body @ [RIGHT_DELIMITER]"
    by (simp add: render_token_def)
  have fields: "split_on FIELD_SEPARATOR ?body = [NAMESPACE, e, t]"
    using assms by (simp add: split_on_append_sep split_on_no_sep)
  have "startswith (render_token e t) [LEFT_DELIMITER]" "endswith (render_token e t) [RIGHT_DELIMITER]"
    by (simp_all add: r startswith_def endswith_iff)
  moreover have "slice (render_token e t) 1 (length (render_token e t) - 1) = ?body"
    unfolding r by (rule slice_body)
  moreover have "is_valid_entity_type e \<and> is_valid_token_id t \<Longrightarrow> \<not> length (render_token e t) < 34"
    using valid_entity_typeD valid_token_idD by fastforce
  ultimately show ?thesis
    using fields by (auto simp: parse_token_def TOKEN_ID_LENGTH_def Let_def)
qed

lemma parse_token_Some:
  assumes "parse_token s = Some tk"
  shows "s = render_token (tk_entity_type tk) (tk_token_id tk)
    \<and> is_valid_entity_type (tk_entity_type tk) \<and> is_valid_token_id (tk_token_id tk)"
proof -
  let ?body = "slice s 1 (length s - 1)"
  from assms obtain e t where f: "split_on FIELD_SEPARATOR ?body = [NAMESPACE, e, t]"
    and v: "is_valid_entity_type e" "is_valid_token_id t"
    and tk: "tk = \<lparr>tk_entity_type = e, tk_token_id = t\<rparr>"
    and se: "startswith s [LEFT_DELIMITER]" "endswith s [RIGHT_DELIMITER]"
    and len: "34 \<le> length s"
    by (auto simp: parse_token_def Let_def TOKEN_ID_LENGTH_def split: if_splits list.splits)
  from se(1) obtain u where u: "s = LEFT_DELIMITER # u" by (auto simp: startswith_iff)
  moreover from se(2) obtain w where "s = w @ [RIGHT_DELIMITER]" by (auto simp: endswith_iff)
  ultimately obtain b where s: "s = LEFT_DELIMITER # b @ [RIGHT_DELIMITER]"
    using len by (cases w) auto
  then have "?body = b" using slice_body by metis
  with f have "b = join_with [FIELD_SEPARATOR] [NAMESPACE, e, t]" by (metis join_split)
  with s v tk show ?thesis by (simp add: render_token_def)
qed

lemma parse_token_format:
  "parse_token s = Some tk \<longleftrightarrow> format_token (tk_entity_type tk) (tk_token_id tk) = Inr s"
proof
  assume "parse_token s = Some tk"
  then show "format_token (tk_entity_type tk) (tk_token_id tk) = Inr s"
    using parse_token_Some by (fastforce simp: format_token_def)
next
  assume "format_token (tk_entity_type tk) (tk_token_id tk) = Inr s"
  then show "parse_token s = Some tk"
    by (auto simp: format_token_def parse_token_fields valid_entity_type_no_sep valid_token_id_no_sep
        split: if_splits)
qed

text \<open>
  C32. The parser is exactly the inverse of the builder: a string parses to a token if and
  only if the builder, given the token's fields, produces that very string. So there is one
  canonical rendering per token, near misses are rejected, and a round trip loses nothing.
\<close>

theorem parse_token_iff:
  "parse_token s = Some tk \<longleftrightarrow> format_token (tk_entity_type tk) (tk_token_id tk) = Inr s"
  by (rule parse_token_format)

section \<open>The scanner finds the tokens, all of them and nothing else\<close>

definition render_ok :: "ustr \<Rightarrow> ustr \<Rightarrow> bool" where
  "render_ok e t \<longleftrightarrow> 1 \<le> length e \<and> length e \<le> 64 \<and> list_all is_entity_char e
     \<and> length t = 26 \<and> list_all is_identifier_char t"

lemma valid_render_ok: "is_valid_entity_type e \<Longrightarrow> is_valid_token_id t \<Longrightarrow> render_ok e t"
  using valid_entity_typeD valid_token_idD by (auto simp: render_ok_def)

lemma regex_match_render:
  assumes "render_ok e t"
  shows "regex_match (render_token e t @ r) = Some (length (render_token e t))"
proof -
  let ?opening = "LEFT_DELIMITER # NAMESPACE @ [FIELD_SEPARATOR]"
  let ?rest = "e @ FIELD_SEPARATOR # t @ RIGHT_DELIMITER # r"
  have s: "render_token e t @ r = ?opening @ ?rest" by (simp add: render_token_def)
  have "\<not> is_entity_char FIELD_SEPARATOR"
    using entity_char_not_special by blast
  moreover have "\<forall>x \<in> set e. is_entity_char x"
    using assms by (simp add: render_ok_def list_all_iff)
  ultimately have "takeWhile is_entity_char ?rest = e"
    by (simp add: takeWhile_append2)
  moreover have "startswith (render_token e t @ r) ?opening"
    unfolding s by (rule startswith_append)
  moreover have "drop (length ?opening) (render_token e t @ r) = ?rest"
    unfolding s by simp
  ultimately show ?thesis using assms
    by (simp add: regex_match_def Let_def render_ok_def TOKEN_ID_LENGTH_def MAX_ENTITY_TYPE_LENGTH_def
        startswith_def)
qed

lemma regex_match_Some:
  assumes "regex_match s = Some n"
  obtains e t r where "render_ok e t" "s = render_token e t @ r" "n = length (render_token e t)"
proof -
  let ?opening = "LEFT_DELIMITER # NAMESPACE @ [FIELD_SEPARATOR]"
  define s1 where "s1 = drop (length ?opening) s"
  define e where "e = takeWhile is_entity_char s1"
  define s2 where "s2 = drop (length e) s1"
  define t where "t = take 26 (drop 1 s2)"
  define s4 where "s4 = drop 27 s2"
  from assms have o: "startswith s ?opening" and
    c: "1 \<le> length e" "length e \<le> 64" "startswith s2 [FIELD_SEPARATOR]" "length t = 26"
       "list_all is_identifier_char t" "startswith s4 [RIGHT_DELIMITER]" and
    n: "n = length ?opening + length e + 28"
    unfolding e_def s1_def s2_def t_def s4_def
    by (auto simp: regex_match_def Let_def TOKEN_ID_LENGTH_def MAX_ENTITY_TYPE_LENGTH_def
        split: if_splits)
  from o have "s = ?opening @ s1" by (auto simp: s1_def startswith_iff)
  moreover have "s1 = e @ s2" unfolding s2_def e_def
    by (metis dropWhile_eq_drop takeWhile_dropWhile_id)
  moreover from c(3) obtain s3 where s3: "s2 = FIELD_SEPARATOR # s3" by (auto simp: startswith_iff)
  moreover from s3 have "s3 = t @ s4" by (simp add: t_def s4_def)
  moreover from c(6) obtain r where "s4 = RIGHT_DELIMITER # r" by (auto simp: startswith_iff)
  ultimately have "s = render_token e t @ r" by (simp add: render_token_def)
  moreover have "list_all is_entity_char e"
    by (auto simp: e_def list_all_iff dest: set_takeWhileD)
  ultimately show thesis using that c n by (simp add: render_ok_def)
qed

lemma render_tail_no_left:
  assumes "render_ok e t" "0 < i" "i < length (render_token e t)"
  shows "render_token e t ! i \<noteq> LEFT_DELIMITER"
proof -
  let ?b = "NAMESPACE @ FIELD_SEPARATOR # e @ FIELD_SEPARATOR # t @ [RIGHT_DELIMITER]"
  have "LEFT_DELIMITER \<notin> set ?b"
    using assms(1) entity_char_not_special identifier_char_not_special
    by (auto simp: render_ok_def list_all_iff grammar_consts)
  moreover have "render_token e t ! i = ?b ! (i - 1)" and "i - 1 < length ?b"
    using assms(2,3) by (simp_all add: render_token_def)
  ultimately show ?thesis by (metis nth_mem)
qed

lemma regex_match_Nil [simp]: "regex_match [] = None"
  by (simp add: regex_match_def startswith_def Let_def)

lemma regex_match_length: "regex_match s = Some n \<Longrightarrow> n \<le> length s"
  by (auto elim!: regex_match_Some)

lemma regex_match_hd: "regex_match s = Some n \<Longrightarrow> s \<noteq> [] \<and> hd s = LEFT_DELIMITER"
  by (auto elim!: regex_match_Some simp: render_token_def)

lemma regex_match_disjoint:
  assumes "regex_match s = Some n" "regex_match (drop i s) = Some m" "0 < i"
  shows "n \<le> i"
proof (rule ccontr)
  assume "\<not> n \<le> i"
  then have i: "i < n" by simp
  from assms(1) obtain e t r where r: "render_ok e t" "s = render_token e t @ r"
    "n = length (render_token e t)" by (rule regex_match_Some)
  from regex_match_hd[OF assms(2)] have "s ! i = LEFT_DELIMITER" by (auto simp: hd_drop_conv_nth)
  moreover have "s ! i = render_token e t ! i" using i unfolding r(2) r(3) by (simp add: nth_append)
  ultimately show False using render_tail_no_left[OF r(1) assms(3)] i r(3) by simp
qed

lemma scan_from_sound:
  "(p, w) \<in> set (scan_from pos s) \<Longrightarrow>
     \<exists>i n. p = pos + i \<and> regex_match (drop i s) = Some n \<and> w = take n (drop i s)"
proof (induction pos s rule: scan_from.induct)
  case (2 pos c cs)
  show ?case
  proof (cases "regex_match (c # cs)")
    case None
    then obtain i n where "p = Suc pos + i" "regex_match (drop i cs) = Some n" "w = take n (drop i cs)"
      using 2 by auto
    then show ?thesis
      by - (rule exI[of _ "Suc i"], rule exI[of _ n], simp)
  next
    case (Some n)
    show ?thesis
    proof (cases "(p, w) = (pos, take n (c # cs))")
      case True
      then show ?thesis using Some by - (rule exI[of _ 0], rule exI[of _ n], simp)
    next
      case False
      then obtain i m where "p = pos + n + i" "regex_match (drop i (drop n (c # cs))) = Some m"
        "w = take m (drop i (drop n (c # cs)))"
        using 2(2)[OF Some] 2(3) Some by auto
      then show ?thesis
        by - (rule exI[of _ "i + n"], rule exI[of _ m], simp add: add.commute add.left_commute)
    qed
  qed
qed simp

lemma scan_from_complete:
  "regex_match (drop i s) = Some n \<Longrightarrow> (pos + i, take n (drop i s)) \<in> set (scan_from pos s)"
proof (induction pos s arbitrary: i rule: scan_from.induct)
  case (2 pos c cs)
  show ?case
  proof (cases "regex_match (c # cs)")
    case None
    then obtain j where "i = Suc j" using 2(3) by (cases i) auto
    then show ?thesis using 2(1)[OF None, of j] 2(3) None by simp
  next
    case (Some m)
    show ?thesis
    proof (cases i)
      case 0
      then show ?thesis using Some 2(3) by simp
    next
      case (Suc j)
      then have "m \<le> i" using regex_match_disjoint[OF Some] 2(3) by blast
      then obtain k where "i = k + m" by (metis le_Suc_ex add.commute)
      then show ?thesis using 2(2)[OF Some, of k] 2(3) Some by (simp add: add.commute add.left_commute)
    qed
  qed
qed simp

lemma scan_from_sorted:
  "sorted_wrt (\<lambda>a b. fst a + length (snd a) \<le> fst b) (scan_from pos s)
   \<and> (\<forall>a \<in> set (scan_from pos s). pos \<le> fst a)"
proof (induction pos s rule: scan_from.induct)
  case (2 pos c cs)
  show ?case
  proof (cases "regex_match (c # cs)")
    case None
    then show ?thesis using 2 by fastforce
  next
    case (Some n)
    then show ?thesis using 2(2)[OF Some] regex_match_length[OF Some] by fastforce
  qed
qed simp

lemma parse_token_regex_match:
  assumes "parse_token (slice text i j) = Some tk" "j \<le> length text"
  shows "regex_match (drop i text) = Some (j - i)" and "i < j"
proof -
  let ?e = "tk_entity_type tk" and ?t = "tk_token_id tk"
  from parse_token_Some[OF assms(1)] have r: "slice text i j = render_token ?e ?t" "render_ok ?e ?t"
    by (auto intro: valid_render_ok)
  then have "slice text i j \<noteq> []" by (simp add: render_token_def)
  then show "i < j" by (metis slice_empty not_le)
  then have "length (slice text i j) = j - i" using assms(2) by (simp add: length_slice)
  moreover have "drop i text = slice text i j @ drop (j - i) (drop i text)"
    by (simp add: slice_def del: drop_drop)
  ultimately show "regex_match (drop i text) = Some (j - i)"
    using regex_match_render[OF r(2)] r(1) by metis
qed

lemma find_tokens_iff:
  "m \<in> set (find_tokens text) \<longleftrightarrow>
     tm_end m \<le> length text \<and> parse_token (slice text (tm_start m) (tm_end m)) = Some (tm_token m)"
proof
  assume "m \<in> set (find_tokens text)"
  then obtain p w tk where "(p, w) \<in> set (scan_from 0 text)" and tk: "parse_token w = Some tk"
    and m: "m = \<lparr>tm_token = tk, tm_start = p, tm_end = p + length w\<rparr>"
    by (auto simp: find_tokens_def List.map_filter_def split: option.splits)
  then obtain n where n: "regex_match (drop p text) = Some n" "w = take n (drop p text)"
    using scan_from_sound by fastforce
  have "n \<le> length text - p" "p < length text"
    using regex_match_length[OF n(1)] regex_match_pos[OF n(1)] by simp_all
  moreover from this have "length w = n" using n(2) by simp
  moreover have "slice text p (p + n) = w" using n(2) by (simp add: slice_def)
  ultimately show "tm_end m \<le> length text \<and> parse_token (slice text (tm_start m) (tm_end m)) = Some (tm_token m)"
    using m tk by simp
next
  assume a: "tm_end m \<le> length text \<and> parse_token (slice text (tm_start m) (tm_end m)) = Some (tm_token m)"
  then have r: "regex_match (drop (tm_start m) text) = Some (tm_end m - tm_start m)"
    and lt: "tm_start m < tm_end m"
    using parse_token_regex_match by blast+
  have "(tm_start m, slice text (tm_start m) (tm_end m)) \<in> set (scan_from 0 text)"
    using scan_from_complete[OF r, of 0] by (simp add: slice_def)
  moreover have "tm_start m + length (slice text (tm_start m) (tm_end m)) = tm_end m"
    using a lt by (auto simp: length_slice min_def)
  ultimately show "m \<in> set (find_tokens text)" using a
    by (force simp: find_tokens_def List.map_filter_def image_iff split: option.splits)
qed

lemma sorted_wrt_map_filter:
  "sorted_wrt R xs \<Longrightarrow> (\<And>x y u v. f x = Some u \<Longrightarrow> f y = Some v \<Longrightarrow> R x y \<Longrightarrow> S u v) \<Longrightarrow>
   sorted_wrt S (List.map_filter f xs)"
  by (induction xs) (auto simp: List.map_filter_def)

lemma find_tokens_sorted: "sorted_wrt (\<lambda>a b. tm_end a \<le> tm_start b) (find_tokens text)"
  unfolding find_tokens_def using scan_from_sorted[of 0 "text", THEN conjunct1]
  by (rule sorted_wrt_map_filter) (auto split: option.splits)

text \<open>
  The scanner reports exactly the tokens of a text: a match is reported if and only if
  the characters between its offsets parse as that token. The matches come in order of
  appearance and never overlap. So the pattern neither widens what counts as a token nor
  misses one, wherever it stands.
\<close>

theorem find_tokens_exact:
  "(m \<in> set (find_tokens text) \<longleftrightarrow>
      tm_end m \<le> length text \<and> parse_token (slice text (tm_start m) (tm_end m)) = Some (tm_token m))
   \<and> sorted_wrt (\<lambda>a b. tm_end a \<le> tm_start b) (find_tokens text)"
  using find_tokens_iff find_tokens_sorted by blast

lemma tm_text_slice: "m \<in> set (find_tokens text) \<Longrightarrow> slice text (tm_start m) (tm_end m) = tm_text m"
  using parse_token_Some by (fastforce simp: find_tokens_iff tm_text_def)

lemma find_tokens_format:
  "m \<in> set (find_tokens text) \<Longrightarrow>
     format_token (tk_entity_type (tm_token m)) (tk_token_id (tm_token m)) = Inr (tm_text m)"
  using tm_text_slice[of m "text"] by (simp add: find_tokens_iff parse_token_format)

section \<open>Redaction placeholders\<close>

lemma render_token_head: "take 5 (render_token e t @ r) = LEFT_DELIMITER # NAMESPACE @ [FIELD_SEPARATOR]"
  by (simp add: render_token_def NAMESPACE_def numeral_eq_Suc)

lemma render_token_nth0 [simp]: "render_token e t ! 0 = LEFT_DELIMITER"
  by (simp add: render_token_def)

lemma render_token_same_type:
  assumes "render_token e t @ r = render_token e' t' @ r'"
    and "FIELD_SEPARATOR \<notin> set e" and "FIELD_SEPARATOR \<notin> set e'"
  shows "e = e'"
proof -
  have eq: "e @ FIELD_SEPARATOR # (t @ RIGHT_DELIMITER # r) = e' @ FIELD_SEPARATOR # (t' @ RIGHT_DELIMITER # r')"
    using assms(1) by (simp add: render_token_def)
  have "takeWhile (\<lambda>c. c \<noteq> FIELD_SEPARATOR) (x @ FIELD_SEPARATOR # y) = x"
    if "FIELD_SEPARATOR \<notin> set x" for x y
    using that by (induction x) auto
  with assms(2,3) eq show ?thesis by metis
qed

lemma redacted_marker_props:
  "FIELD_SEPARATOR \<notin> set REDACTED_MARKER" "LEFT_DELIMITER \<notin> set REDACTED_MARKER"
  by (simp_all add: grammar_consts)

lemma redaction_tail_no_left:
  assumes "is_valid_entity_type e" "0 < i" "i < length (render_token REDACTED_MARKER e)"
  shows "render_token REDACTED_MARKER e ! i \<noteq> LEFT_DELIMITER"
proof -
  let ?b = "NAMESPACE @ FIELD_SEPARATOR # REDACTED_MARKER @ FIELD_SEPARATOR # e @ [RIGHT_DELIMITER]"
  have "LEFT_DELIMITER \<notin> set ?b"
    using assms(1) valid_entity_typeD[OF assms(1)] entity_char_not_special
    by (auto simp: list_all_iff grammar_consts)
  moreover have "render_token REDACTED_MARKER e ! i = ?b ! (i - 1)" and "i - 1 < length ?b"
    using assms(2,3) by (simp_all add: render_token_def)
  ultimately show ?thesis by (metis nth_mem)
qed

lemma find_tokens_regex:
  assumes "m \<in> set (find_tokens text)"
  obtains r where "drop (tm_start m) text = tm_text m @ r" "tm_end m = tm_start m + length (tm_text m)"
    "is_valid_entity_type (tk_entity_type (tm_token m))" "is_valid_token_id (tk_token_id (tm_token m))"
proof -
  have a: "tm_end m \<le> length text" "parse_token (slice text (tm_start m) (tm_end m)) = Some (tm_token m)"
    using assms by (auto simp: find_tokens_iff)
  have lt: "tm_start m < tm_end m" using parse_token_regex_match(2)[OF a(2,1)] .
  have s: "slice text (tm_start m) (tm_end m) = tm_text m" using tm_text_slice[OF assms] .
  then have "drop (tm_start m) text = tm_text m @ drop (tm_end m - tm_start m) (drop (tm_start m) text)"
    by (metis append_take_drop_id slice_def)
  moreover have "tm_end m = tm_start m + length (tm_text m)"
    using s[symmetric] a(1) lt by (auto simp: length_slice min_def)
  ultimately show thesis using that parse_token_Some[OF a(2)] by blast
qed

lemma find_tokens_nth:
  assumes "m \<in> set (find_tokens text)" "i < length (tm_text m)"
  shows "text ! (tm_start m + i) = tm_text m ! i"
proof -
  obtain r where r: "drop (tm_start m) text = tm_text m @ r"
    using find_tokens_regex[OF assms(1)] by metis
  then have "tm_start m + i < length text"
    using assms(2) by (metis add.commute length_append length_drop less_diff_conv trans_less_add1)
  then have "text ! (tm_start m + i) = drop (tm_start m) text ! i" by simp
  also have "\<dots> = tm_text m ! i" using assms(2) by (simp add: r nth_append)
  finally show ?thesis .
qed

text \<open>
  A redaction placeholder is never part of a token, whatever text surrounds it: in
  \<open>pre @ placeholder @ post\<close> every token the scanner reports lies wholly before or wholly
  after the placeholder. So restoration can never resolve, or cut into, a redacted span.
\<close>

theorem redaction_never_token:
  assumes red: "format_redaction e = Inr s"
    and m: "m \<in> set (find_tokens (pre @ s @ post))"
  shows "tm_end m \<le> length pre \<or> length pre + length s \<le> tm_start m"
proof (rule ccontr)
  let ?T = "pre @ s @ post"
  from red have e: "is_valid_entity_type e" and s: "s = render_token REDACTED_MARKER e"
    by (auto simp: format_redaction_def split: if_splits)
  from m obtain r where r: "drop (tm_start m) ?T = tm_text m @ r"
    and len: "tm_end m = tm_start m + length (tm_text m)"
    and v: "is_valid_entity_type (tk_entity_type (tm_token m))" "is_valid_token_id (tk_token_id (tm_token m))"
    by (rule find_tokens_regex)
  let ?e = "tk_entity_type (tm_token m)" and ?t = "tk_token_id (tm_token m)"
  note nth = find_tokens_nth[OF m, unfolded tm_text_def[of m]]
  have pos: "0 < length (tm_text m)" by (simp add: tm_text_def)
  have s0: "?T ! length pre = LEFT_DELIMITER" by (simp add: s nth_append)
  assume "\<not> ?thesis"
  then have lt: "length pre < tm_end m" "tm_start m < length pre + length s" by auto
  consider (before) "tm_start m < length pre" | (at) "tm_start m = length pre" | (inside) "length pre < tm_start m"
    by linarith
  then show False
  proof cases
    case before
    define i where "i = length pre - tm_start m"
    have i: "0 < i" "i < length (tm_text m)" "tm_start m + i = length pre"
      using before lt len by (auto simp: i_def)
    then have "render_token ?e ?t ! i = LEFT_DELIMITER" using nth[of i] s0 by (simp add: tm_text_def)
    then show False
      using render_tail_no_left[OF valid_render_ok[OF v], of i] i(1,2) by (simp add: tm_text_def)
  next
    case at
    have "render_token ?e ?t @ r = render_token REDACTED_MARKER e @ post"
      using r at s by (simp add: tm_text_def)
    then have "?e = REDACTED_MARKER"
      using render_token_same_type v(1) valid_entity_type_no_sep redacted_marker_props(1) by blast
    then show False using valid_entity_typeD[OF v(1)] by simp
  next
    case inside
    define i where "i = tm_start m - length pre"
    have i: "0 < i" "i < length s" using inside lt by (auto simp: i_def)
    have "?T ! tm_start m = s ! i" using inside i by (simp add: nth_append i_def)
    moreover have "?T ! tm_start m = LEFT_DELIMITER" using nth[of 0] pos by (simp add: tm_text_def)
    ultimately show False using redaction_tail_no_left[OF e i(1)] i(2) s by simp
  qed
qed

definition sample_id :: ustr where "sample_id = replicate 26 55"

theorem redaction_never_token_witness:
  "let t = render_token (lit ''PERSON'') sample_id; s = render_token REDACTED_MARKER (lit ''US_SSN'');
       m = \<lparr>tm_token = \<lparr>tk_entity_type = lit ''PERSON'', tk_token_id = sample_id\<rparr>,
            tm_start = 0, tm_end = 39\<rparr>
   in tm_end m \<le> length t \<or> length t + length s \<le> tm_start m"
proof -
  let ?t = "render_token (lit ''PERSON'') sample_id"
  let ?s = "render_token REDACTED_MARKER (lit ''US_SSN'')"
  let ?tk = "\<lparr>tk_entity_type = lit ''PERSON'', tk_token_id = sample_id\<rparr>"
  let ?m = "\<lparr>tm_token = ?tk, tm_start = 0, tm_end = 39\<rparr>"
  have v: "is_valid_entity_type (lit ''PERSON'')" "is_valid_token_id sample_id"
    by (simp_all add: is_valid_entity_type_def is_valid_token_id_def sample_id_def grammar_consts
        is_entity_char_def ascii_upper_def ascii_digit_def crockford_iff is_identifier_char_def
        list_all_iff)
  have len: "length ?t = 39" by (simp add: sample_id_def)
  have "slice (?t @ ?s @ []) 0 39 = ?t" using len by (simp add: slice_def)
  then have "?m \<in> set (find_tokens (?t @ ?s @ []))"
    using v len by (simp add: find_tokens_iff parse_token_format format_token_def del: append_Nil2)
  moreover have "format_redaction (lit ''US_SSN'') = Inr ?s"
    by (simp add: format_redaction_def is_valid_entity_type_def grammar_consts
        is_entity_char_def ascii_upper_def ascii_digit_def)
  ultimately show ?thesis unfolding Let_def by (intro redaction_never_token)
qed

end
