(* ===== verification/Domain.thy ===== *)
theory Domain
  imports Grammar
begin

text \<open>
  The contracts shared by the components, \<^verbatim>\<open>app/domain/models.py\<close>: policy actions, detected
  spans, mappings, summaries and provider requests. Offsets are natural numbers once a span
  has been constructed; the constructor takes integers and refuses what the code refuses.
  Scores are floats compared but never computed with, so rational numbers represent them.
\<close>

type_synonym uuid = nat

datatype entity_action = ALLOW | TOKENIZE | REDACT | PSEUDONYMIZE | BLOCK

datatype unknown_token_action = UPRESERVE | UREDACT | UFAIL

record detected_entity =
  de_entity_type :: ustr
  de_start :: nat
  de_end :: nat
  de_score :: rat
  de_recognizer :: "ustr option"

text \<open>\<open>DetectedEntity.__post_init__\<close>.\<close>

definition mk_entity :: "ustr \<Rightarrow> int \<Rightarrow> int \<Rightarrow> rat \<Rightarrow> ustr option \<Rightarrow> detected_entity res" where
  "mk_entity entity_type start end' score recognizer =
     (if start < 0 \<or> end' \<le> start then Inl ValueError
      else if \<not> (0 \<le> score \<and> score \<le> 1) then Inl ValueError
      else Inr \<lparr>de_entity_type = entity_type, de_start = nat start, de_end = nat end',
                de_score = score, de_recognizer = recognizer\<rparr>)"

definition wf_entity :: "detected_entity \<Rightarrow> bool" where
  "wf_entity e \<longleftrightarrow> de_start e < de_end e \<and> 0 \<le> de_score e \<and> de_score e \<le> 1"

definition de_length :: "detected_entity \<Rightarrow> nat" where
  "de_length e = de_end e - de_start e"

definition overlaps :: "detected_entity \<Rightarrow> detected_entity \<Rightarrow> bool" where
  "overlaps a b \<longleftrightarrow> de_start a < de_end b \<and> de_start b < de_end a"

text \<open>What spliced spans must satisfy: each ends before the next begins.\<close>

definition disjoint_ordered :: "detected_entity list \<Rightarrow> bool" where
  "disjoint_ordered es \<longleftrightarrow> sorted_wrt (\<lambda>a b. de_end a \<le> de_start b) es"

lemma mk_entity_wf: "mk_entity t s e sc r = Inr d \<Longrightarrow> wf_entity d"
  by (auto simp: mk_entity_def wf_entity_def split: if_splits)

lemma overlaps_sym: "overlaps a b \<longleftrightarrow> overlaps b a"
  by (auto simp: overlaps_def)

lemma overlaps_refl: "wf_entity a \<Longrightarrow> overlaps a a"
  by (simp add: overlaps_def wf_entity_def)

lemma disjoint_ordered_Cons [simp]:
  "disjoint_ordered (e # es) \<longleftrightarrow> (\<forall>x \<in> set es. de_end e \<le> de_start x) \<and> disjoint_ordered es"
  by (simp add: disjoint_ordered_def)

lemma disjoint_ordered_Nil [simp]: "disjoint_ordered []"
  by (simp add: disjoint_ordered_def)

lemma disjoint_ordered_append:
  "disjoint_ordered (xs @ ys) \<longleftrightarrow> disjoint_ordered xs \<and> disjoint_ordered ys
     \<and> (\<forall>x \<in> set xs. \<forall>y \<in> set ys. de_end x \<le> de_start y)"
  by (simp add: disjoint_ordered_def sorted_wrt_append)

lemma disjoint_ordered_no_overlap:
  "disjoint_ordered es \<Longrightarrow> a \<in> set es \<Longrightarrow> b \<in> set es \<Longrightarrow> overlaps a b \<Longrightarrow> a = b"
  by (induction es) (auto simp: overlaps_def)

record entity_mapping =
  em_token :: ustr
  em_token_id :: ustr
  em_entity_type :: ustr
  em_original_value :: ustr
  em_normalized_hmac :: ustr

record vault_write_request =
  vw_entity_type :: ustr
  vw_normalized_hmac :: ustr
  vw_original_value :: ustr

section \<open>Privacy summaries\<close>

record privacy_summary =
  ps_detected :: nat
  ps_tokenized :: nat
  ps_redacted :: nat
  ps_pseudonymized :: nat
  ps_blocked :: nat
  ps_allowed :: nat
  ps_restored :: nat
  ps_unknown_tokens :: nat
  ps_entity_types :: "(ustr \<times> nat) list"

definition empty_summary :: privacy_summary where
  "empty_summary = \<lparr>ps_detected = 0, ps_tokenized = 0, ps_redacted = 0, ps_pseudonymized = 0,
     ps_blocked = 0, ps_allowed = 0, ps_restored = 0, ps_unknown_tokens = 0, ps_entity_types = []\<rparr>"

definition merged_with :: "privacy_summary \<Rightarrow> privacy_summary \<Rightarrow> privacy_summary" where
  "merged_with a b =
     \<lparr>ps_detected = ps_detected a + ps_detected b,
      ps_tokenized = ps_tokenized a + ps_tokenized b,
      ps_redacted = ps_redacted a + ps_redacted b,
      ps_pseudonymized = ps_pseudonymized a + ps_pseudonymized b,
      ps_blocked = ps_blocked a + ps_blocked b,
      ps_allowed = ps_allowed a + ps_allowed b,
      ps_restored = ps_restored a + ps_restored b,
      ps_unknown_tokens = ps_unknown_tokens a + ps_unknown_tokens b,
      ps_entity_types = fold (\<lambda>(t, n) d. dict_incr t n d) (ps_entity_types b) (ps_entity_types a)\<rparr>"

definition summary_total :: "privacy_summary \<Rightarrow> nat" where
  "summary_total s = ps_tokenized s + ps_redacted s + ps_pseudonymized s + ps_allowed s"

lemma dict_count_fold_incr:
  "distinct (map fst kvs) \<Longrightarrow>
     dict_count (fold (\<lambda>(t, n) d. dict_incr t n d) kvs d) k = dict_count d k + dict_count kvs k"
proof (induction kvs arbitrary: d)
  case (Cons kv kvs)
  obtain t n where kv: "kv = (t, n)" by (cases kv)
  have "dict_count ((t, n) # kvs) k = (if k = t then n else 0) + dict_count kvs k"
    using Cons.prems kv by (auto simp: dict_count_def split: option.splits dest: map_of_SomeD)
      (force dest: map_of_SomeD)
  then show ?case using Cons kv by simp
qed simp

lemma distinct_fold_incr:
  "distinct (map fst d) \<Longrightarrow> distinct (map fst (fold (\<lambda>(t, n) d. dict_incr t n d) kvs d))"
  by (induction kvs arbitrary: d) (auto simp: distinct_dict_incr)

section \<open>Requests and responses\<close>

record transformed_text =
  tt_text :: ustr
  tt_mappings :: "entity_mapping list"
  tt_summary :: privacy_summary

datatype message_role = RSystem | RUser | RAssistant

record chat_message =
  cm_role :: message_role
  cm_content :: ustr

record chat_request =
  cr_session_id :: "uuid option"
  cr_provider :: ustr
  cr_model :: ustr
  cr_messages :: "chat_message list"
  cr_temperature :: "rat option"
  cr_max_output_tokens :: "int option"

record protected_chat_request =
  pr_request_id :: uuid
  pr_tenant_id :: uuid
  pr_session_id :: uuid
  pr_provider_alias :: ustr
  pr_model_alias :: ustr
  pr_messages :: "chat_message list"
  pr_policy_version :: nat
  pr_temperature :: "rat option"
  pr_max_output_tokens :: "int option"

text \<open>\<open>ProtectedChatRequest.__post_init__\<close>.\<close>

definition mk_protected_request :: "protected_chat_request \<Rightarrow> protected_chat_request res" where
  "mk_protected_request r = (if pr_messages r = [] then Inl ValueError else Inr r)"

record provider_usage =
  pu_input_tokens :: "int option"
  pu_output_tokens :: "int option"
  pu_total_tokens :: "int option"

text \<open>\<open>content\<close> and \<open>model\<close> are whatever an adapter put there: \<open>None\<close> when not a string.\<close>

record provider_response =
  pv_content :: "ustr option"
  pv_model :: "ustr option"
  pv_usage :: "provider_usage option"
  pv_finish_reason :: "ustr option"

section \<open>Policies as the stages read them\<close>

text \<open>The protocol \<open>PolicyLike\<close> (\<^verbatim>\<open>app/tokenization/protocols.py\<close>).\<close>

record policy_like =
  pl_max_entities :: int
  pl_session_ttl_seconds :: int
  pl_action_for :: "ustr \<Rightarrow> entity_action"
  pl_min_score_for :: "ustr \<Rightarrow> rat"

text \<open>A span and a policy for the worked instances of the theories below.\<close>

definition sample_span :: "ustr \<Rightarrow> nat \<Rightarrow> nat \<Rightarrow> detected_entity" where
  "sample_span t s e = \<lparr>de_entity_type = t, de_start = s, de_end = e, de_score = 1, de_recognizer = None\<rparr>"

definition sample_policy :: policy_like where
  "sample_policy = \<lparr>pl_max_entities = 5, pl_session_ttl_seconds = 60,
     pl_action_for = (\<lambda>t. if t = lit ''US_SSN'' then BLOCK else TOKENIZE), pl_min_score_for = (\<lambda>_. 0)\<rparr>"

section \<open>Interface: choosing one interpretation per character\<close>

text \<open>
  Detection and tokenization each resolve overlapping spans, by different orders. What both
  promise, and what their clients use, is that a resolver keeps some of the candidates,
  ordered and disjoint, and drops a candidate only for a kept one that overlaps it.
\<close>

locale span_resolver =
  fixes resolve :: "detected_entity list \<Rightarrow> detected_entity list"
  assumes keeps_candidates: "set (resolve es) \<subseteq> set es"
    and keeps_disjoint: "\<forall>e \<in> set es. wf_entity e \<Longrightarrow> disjoint_ordered (resolve es)"
    and drops_overlapped: "\<forall>e \<in> set es. wf_entity e \<Longrightarrow> e \<in> set es \<Longrightarrow>
           \<exists>k \<in> set (resolve es). k = e \<or> overlaps e k"
begin

lemma resolve_set:
  assumes "disjoint_ordered es" "\<forall>e \<in> set es. wf_entity e"
  shows "set (resolve es) = set es"
proof
  show "set (resolve es) \<subseteq> set es" by (rule keeps_candidates)
  show "set es \<subseteq> set (resolve es)"
    using drops_overlapped[OF assms(2)] disjoint_ordered_no_overlap[OF assms(1)] keeps_candidates by blast
qed

lemma disjoint_ordered_same_set:
  assumes "disjoint_ordered xs" "disjoint_ordered ys" "set xs = set ys" "\<forall>e \<in> set xs. wf_entity e"
  shows "xs = ys"
  using assms
proof (induction xs arbitrary: ys)
  case (Cons x xs)
  then obtain y ys' where ys: "ys = y # ys'" by (cases ys) auto
  have lt: "de_start e < de_end e" if "e \<in> set (x # xs)" for e
    using that Cons.prems(4) by (auto simp: wf_entity_def)
  have "x = y"
  proof (rule ccontr)
    assume "x \<noteq> y"
    then have "y \<in> set xs" "x \<in> set ys'" using Cons.prems(3) ys by auto
    then have "de_end x \<le> de_start y" "de_end y \<le> de_start x" using Cons.prems(1,2) ys by auto
    then show False using lt[of x] lt[of y] \<open>y \<in> set xs\<close> by simp
  qed
  moreover have "x \<notin> set xs" using Cons.prems(1) lt[of x] by fastforce
  moreover have "y \<notin> set ys'" using Cons.prems(2) ys lt[of y] calculation(1) by fastforce
  ultimately have "set xs = set ys'" using Cons.prems(3) ys by auto
  then show ?case using Cons ys \<open>x = y\<close> by simp
qed simp

text \<open>A resolver changes nothing on spans that are already ordered and disjoint.\<close>

lemma resolve_id:
  assumes "disjoint_ordered es" "\<forall>e \<in> set es. wf_entity e"
  shows "resolve es = es"
  using disjoint_ordered_same_set[of "resolve es" es] keeps_disjoint[OF assms(2)] assms
    resolve_set[OF assms] by simp

end

end
