(* ===== verification/Fingerprint.thy ===== *)
theory Fingerprint
  imports Framing Domain
begin

text \<open>
  Keyed fingerprints, \<^verbatim>\<open>app/tokenization/fingerprint.py\<close>. HMAC-SHA256 is an argument \<open>hmac\<close>
  from key and message to the digest bytes; what is modelled is the key derivation with its
  length checks and the framing of the message the digest is taken over.
\<close>

definition FINGERPRINT_LABEL :: bytes where
  "FINGERPRINT_LABEL = lit ''sgw:tokenization:fingerprint:v1''"

definition MIN_KEY_BYTES :: nat where "MIN_KEY_BYTES = 16"

definition derive_fingerprint_key :: "(bytes \<Rightarrow> bytes \<Rightarrow> bytes) \<Rightarrow> bytes \<Rightarrow> bytes res" where
  "derive_fingerprint_key hmac root_secret =
     (if length root_secret < MIN_KEY_BYTES then Inl ValueError
      else Inr (hmac root_secret FINGERPRINT_LABEL))"

text \<open>\<open>Fingerprinter.__init__\<close>: the key is checked again.\<close>

definition mk_fingerprinter :: "bytes \<Rightarrow> bytes res" where
  "mk_fingerprinter key = (if length key < MIN_KEY_BYTES then Inl ValueError else Inr key)"

text \<open>\<open>_root_secret\<close> and \<open>from_settings\<close>: a dedicated secret wins over the audit key.\<close>

definition root_secret :: "ustr option \<Rightarrow> ustr \<Rightarrow> bytes res" where
  "root_secret dedicated audit_hmac_key =
     (case dedicated of Some s \<Rightarrow> utf8_encode s | None \<Rightarrow> utf8_encode audit_hmac_key)"

definition fingerprinter_from_settings ::
    "(bytes \<Rightarrow> bytes \<Rightarrow> bytes) \<Rightarrow> ustr option \<Rightarrow> ustr \<Rightarrow> bytes res" where
  "fingerprinter_from_settings hmac dedicated audit_hmac_key =
     bindR (root_secret dedicated audit_hmac_key)
       (\<lambda>secret. bindR (derive_fingerprint_key hmac secret) mk_fingerprinter)"

record fingerprint_input =
  fi_tenant_id :: uuid
  fi_session_id :: uuid
  fi_entity_type :: ustr
  fi_normalized_value :: ustr

definition fingerprint_fields :: "fingerprint_input \<Rightarrow> bytes list res" where
  "fingerprint_fields i =
     bindR (utf8_encode (fi_entity_type i))
       (\<lambda>t. bindR (utf8_encode (fi_normalized_value i))
         (\<lambda>v. Inr [uuid_bytes (fi_tenant_id i), uuid_bytes (fi_session_id i), t, v]))"

definition fingerprint_message :: "fingerprint_input \<Rightarrow> bytes res" where
  "fingerprint_message i = bindR (fingerprint_fields i) (frame 4)"

text \<open>\<open>hexdigest\<close>: two lower-case hexadecimal digits per byte.\<close>

definition hexdigest :: "bytes \<Rightarrow> ustr" where
  "hexdigest b = concat (map (\<lambda>x. [hex_digit (x div 16), hex_digit (x mod 16)]) b)"

definition fingerprint :: "(bytes \<Rightarrow> bytes \<Rightarrow> bytes) \<Rightarrow> bytes \<Rightarrow> fingerprint_input \<Rightarrow> ustr res" where
  "fingerprint hmac key i =
     bindR (fingerprint_message i) (\<lambda>m. Inr (hexdigest (hmac key m)))"

section \<open>Properties\<close>

definition valid_input :: "fingerprint_input \<Rightarrow> bool" where
  "valid_input i \<longleftrightarrow> valid_uuid (fi_tenant_id i) \<and> valid_uuid (fi_session_id i)"

lemma fingerprint_fields_Inr:
  "fingerprint_fields i = Inr x \<longleftrightarrow>
     (\<exists>t v. utf8_encode (fi_entity_type i) = Inr t \<and> utf8_encode (fi_normalized_value i) = Inr v
        \<and> x = [uuid_bytes (fi_tenant_id i), uuid_bytes (fi_session_id i), t, v])"
  by (auto simp: fingerprint_fields_def result_simps)

interpretation fp: framed_message 4 fingerprint_fields valid_input
proof
  fix a b x
  assume v: "valid_input a" "valid_input b" and a: "fingerprint_fields a = Inr x" and b: "fingerprint_fields b = Inr x"
  from a b have u: "uuid_bytes (fi_tenant_id a) = uuid_bytes (fi_tenant_id b)"
    "uuid_bytes (fi_session_id a) = uuid_bytes (fi_session_id b)" and t: "fi_entity_type a = fi_entity_type b"
    "fi_normalized_value a = fi_normalized_value b"
    unfolding fingerprint_fields_Inr using utf8_encode_inj by fastforce+
  then have "fi_tenant_id a = fi_tenant_id b" "fi_session_id a = fi_session_id b"
    using uuid_bytes_inj v unfolding valid_input_def by blast+
  with t show "a = b" by simp
qed simp

text \<open>
  No two inputs are fingerprinted over the same bytes: tenant, session, entity type and
  normalized value can be read back from the framed message, so the same value in another
  session, or split differently between the fields, is a different HMAC message.
\<close>

theorem fingerprint_message_injective:
  assumes "valid_input i" "valid_input j" "fingerprint_message i = Inr m" "fingerprint_message j = Inr m"
  shows "i = j"
  using fp.framed_inj[of i j m] assms by (simp add: fingerprint_message_def)

definition sample_input :: "nat \<Rightarrow> fingerprint_input" where
  "sample_input session = \<lparr>fi_tenant_id = 1, fi_session_id = session, fi_entity_type = lit ''AB'',
     fi_normalized_value = lit ''C''\<rparr>"

lemma sample_input_message: "\<exists>m. fingerprint_message (sample_input n) = Inr m"
proof -
  have "utf8_encode (lit ''AB'') = Inr (lit ''AB'')" "utf8_encode (lit ''C'') = Inr (lit ''C'')"
    by (rule utf8_encode_ascii; auto)+
  then show ?thesis
    unfolding fingerprint_message_def fingerprint_fields_def sample_input_def
    using frame_ok[of "[uuid_bytes 1, uuid_bytes n, lit ''AB'', lit ''C'']" 4] by simp
qed

lemma sample_input_valid: "n < 10 \<Longrightarrow> valid_input (sample_input n)"
  by (simp add: valid_input_def valid_uuid_def sample_input_def)

theorem fingerprint_message_injective_witness:
  "fingerprint_message (sample_input 2) \<noteq> fingerprint_message (sample_input 3)"
proof
  assume eq: "fingerprint_message (sample_input 2) = fingerprint_message (sample_input 3)"
  obtain m where m: "fingerprint_message (sample_input 3) = Inr m" using sample_input_message by blast
  have "sample_input 2 = sample_input 3"
    by (rule fingerprint_message_injective[OF _ _ _ m]) (simp_all add: sample_input_valid eq m)
  then show False by (simp add: sample_input_def)
qed

lemma hexdigest_inj: "\<forall>x \<in> set a. x < 256 \<Longrightarrow> \<forall>x \<in> set b. x < 256 \<Longrightarrow> hexdigest a = hexdigest b \<Longrightarrow> a = b"
proof (induction a arbitrary: b)
  case Nil
  then show ?case by (cases b) (auto simp: hexdigest_def)
next
  case (Cons x a)
  then obtain y b' where b: "b = y # b'" by (cases b) (auto simp: hexdigest_def)
  have lt: "x div 16 < 16" "y div 16 < 16" using Cons.prems b by (simp_all add: less_mult_imp_div_less)
  have "hex_digit (x div 16) = hex_digit (y div 16)" "hex_digit (x mod 16) = hex_digit (y mod 16)"
    and rest: "hexdigest a = hexdigest b'" using Cons.prems(3) b by (simp_all add: hexdigest_def)
  then have "x div 16 = y div 16" "x mod 16 = y mod 16"
    using hex_digit_inj lt by (auto dest: inj_onD)
  then have "x = y" by (metis div_mult_mod_eq)
  then show ?case using Cons.IH[OF _ _ rest] Cons.prems b by simp
qed

text \<open>A concrete digest for the witness: constant, of 32 bytes, so that it does collide.\<close>

definition zero_hmac :: "bytes \<Rightarrow> bytes \<Rightarrow> bytes" where
  "zero_hmac key m = replicate 32 0"

text \<open>
  If two different inputs share a fingerprint, then HMAC has collided on their two
  different messages. The framing, the UTF-8 encoding and the hexadecimal rendering add no
  confusion of their own.
\<close>

theorem fingerprint_collision_free:
  assumes "valid_input i" "valid_input j" "i \<noteq> j"
    and digest: "\<forall>m. \<forall>x \<in> set (hmac key m). x < 256"
    and "fingerprint hmac key i = Inr d" "fingerprint hmac key j = Inr d"
  shows "\<exists>m m'. fingerprint_message i = Inr m \<and> fingerprint_message j = Inr m'
    \<and> m \<noteq> m' \<and> hmac key m = hmac key m'"
proof -
  from assms(5,6) obtain m m' where m: "fingerprint_message i = Inr m" "hexdigest (hmac key m) = d"
    and m': "fingerprint_message j = Inr m'" "hexdigest (hmac key m') = d"
    by (auto simp: fingerprint_def result_simps)
  then have "hmac key m = hmac key m'" using hexdigest_inj digest by metis
  moreover have "m \<noteq> m'" using fp.framed_inj[of i j m] assms(1-3) m(1) m'(1)
    by (auto simp: fingerprint_message_def)
  ultimately show ?thesis using m(1) m'(1) by blast
qed

theorem fingerprint_collision_free_witness:
  "\<exists>m m'. fingerprint_message (sample_input 2) = Inr m \<and> fingerprint_message (sample_input 3) = Inr m'
    \<and> m \<noteq> m' \<and> zero_hmac (replicate 16 0) m = zero_hmac (replicate 16 0) m'"
proof (rule fingerprint_collision_free)
  show "fingerprint zero_hmac (replicate 16 0) (sample_input 2) = Inr (hexdigest (replicate 32 0))"
    "fingerprint zero_hmac (replicate 16 0) (sample_input 3) = Inr (hexdigest (replicate 32 0))"
    using sample_input_message[of 2] sample_input_message[of 3]
    by (auto simp: fingerprint_def zero_hmac_def)
  show "sample_input 2 \<noteq> sample_input 3" by (simp add: sample_input_def)
qed (auto simp: sample_input_valid zero_hmac_def)

end
