(* ===== verification/Principals.thy ===== *)
theory Principals
  imports Domain Effects
begin

text \<open>
  The authenticated caller, \<^verbatim>\<open>app/domain/models.py\<close>: the capabilities a key may be granted, the
  immutable principal and the correlation identifiers of one request. A frozen set of scopes
  is a list; only membership is ever read.
\<close>

datatype scope =
    CHAT_INVOKE
  | DETECT_INVOKE
  | SESSIONS_DELETE
  | DOCUMENTS_WRITE
  | DOCUMENTS_READ
  | DOCUMENTS_DELETE
  | POLICIES_READ
  | POLICIES_WRITE
  | POLICIES_TEST

definition all_scopes :: "scope list" where
  "all_scopes = [CHAT_INVOKE, DETECT_INVOKE, SESSIONS_DELETE, DOCUMENTS_WRITE, DOCUMENTS_READ,
     DOCUMENTS_DELETE, POLICIES_READ, POLICIES_WRITE, POLICIES_TEST]"

fun scope_value :: "scope \<Rightarrow> ustr" where
  "scope_value CHAT_INVOKE = lit ''chat:invoke''"
| "scope_value DETECT_INVOKE = lit ''detect:invoke''"
| "scope_value SESSIONS_DELETE = lit ''sessions:delete''"
| "scope_value DOCUMENTS_WRITE = lit ''documents:write''"
| "scope_value DOCUMENTS_READ = lit ''documents:read''"
| "scope_value DOCUMENTS_DELETE = lit ''documents:delete''"
| "scope_value POLICIES_READ = lit ''policies:read''"
| "scope_value POLICIES_WRITE = lit ''policies:write''"
| "scope_value POLICIES_TEST = lit ''policies:test''"

text \<open>\<open>Scope(value)\<close>: the member with that value, or \<open>ValueError\<close>.\<close>

definition scope_of :: "ustr \<Rightarrow> scope res" where
  "scope_of v = (case find (\<lambda>sc. scope_value sc = v) all_scopes of None \<Rightarrow> Inl ValueError | Some sc \<Rightarrow> Inr sc)"

record principal =
  p_tenant_id :: uuid
  p_api_key_id :: uuid
  p_api_key_prefix :: ustr
  p_scopes :: "scope list"

definition has_scope :: "principal \<Rightarrow> scope \<Rightarrow> bool" where
  "has_scope p sc \<longleftrightarrow> sc \<in> set (p_scopes p)"

record request_context =
  rc_request_id :: uuid
  rc_principal :: principal
  rc_session_id :: uuid
  rc_policy_version :: nat
  rc_diagnostics_enabled :: bool

lemma all_scopes_complete: "sc \<in> set all_scopes"
  by (cases sc) (simp_all add: all_scopes_def)

lemma scope_value_inj: "scope_value a = scope_value b \<Longrightarrow> a = b"
  by (cases a; cases b) simp_all

lemma scope_of_value [simp]: "scope_of (scope_value sc) = Inr sc"
proof -
  obtain sc' where "find (\<lambda>sc'. scope_value sc' = scope_value sc) all_scopes = Some sc'"
    using all_scopes_complete[of sc] by (cases "find (\<lambda>sc'. scope_value sc' = scope_value sc) all_scopes")
      (auto simp: find_None_iff)
  moreover from this have "scope_value sc' = scope_value sc" by (auto simp: find_Some_iff)
  ultimately show ?thesis by (simp add: scope_of_def scope_value_inj)
qed

lemma scope_of_Inr: "scope_of v = Inr sc \<longleftrightarrow> v = scope_value sc"
proof
  show "scope_of v = Inr sc \<Longrightarrow> v = scope_value sc"
    by (auto simp: scope_of_def find_Some_iff split: option.splits)
qed simp

text \<open>A principal for the worked instances of the theories below.\<close>

definition sample_principal :: principal where
  "sample_principal = \<lparr>p_tenant_id = 1, p_api_key_id = 2, p_api_key_prefix = lit ''sgw_live_abcdefgh'',
     p_scopes = [CHAT_INVOKE]\<rparr>"

end
