(* ===== verification/Api_Keys.thy ===== *)
theory Api_Keys
  imports Database Fingerprint Principals
begin

text \<open>
  API keys, \<^verbatim>\<open>app/repositories/api_keys.py\<close> and the row type of \<^verbatim>\<open>app/db/models.py\<close>: generation,
  the stored digest, verification, and the repository over the key table. HMAC-SHA256 and the
  random bytes are arguments. A \<open>datetime\<close> is a number of microseconds, marked when it has no
  time zone; columns read back from the store always have one.
\<close>

datatype py_datetime = Naive int | Aware int

fun instant :: "py_datetime \<Rightarrow> int" where
  "instant (Naive t) = t"
| "instant (Aware t) = t"

fun is_aware :: "py_datetime \<Rightarrow> bool" where
  "is_aware (Naive t) = False"
| "is_aware (Aware t) = True"

definition KEY_LABEL :: ustr where
  "KEY_LABEL = lit ''sgw_live_''"

definition KEY_RANDOM_BYTES :: nat where
  "KEY_RANDOM_BYTES = 32"

definition PREFIX_BODY_CHARS :: nat where
  "PREFIX_BODY_CHARS = 8"

text \<open>\<open>base64.urlsafe_b64encode(raw).decode("ascii").rstrip("=")\<close>.\<close>

fun base64_sextets :: "bytes \<Rightarrow> nat list" where
  "base64_sextets [] = []"
| "base64_sextets [a] = [a div 4, a mod 4 * 16]"
| "base64_sextets [a, b] = [a div 4, a mod 4 * 16 + b div 16, b mod 16 * 4]"
| "base64_sextets (a # b # c # r) =
     a div 4 # (a mod 4 * 16 + b div 16) # (b mod 16 * 4 + c div 64) # c mod 64 # base64_sextets r"

definition base64_char :: "nat \<Rightarrow> uchar" where
  "base64_char d = (if d < 26 then 65 + d else if d < 52 then 71 + d else if d < 62 then d - 4
     else if d = 62 then 45 else 95)"

definition encode_body :: "bytes \<Rightarrow> ustr" where
  "encode_body raw = map base64_char (base64_sextets raw)"

record generated_api_key =
  gk_raw_key :: ustr
  gk_prefix :: ustr
  gk_key_hash :: ustr

type_synonym hmac_fun = "bytes \<Rightarrow> bytes \<Rightarrow> bytes"

definition hash_api_key :: "hmac_fun \<Rightarrow> ustr \<Rightarrow> ustr \<Rightarrow> ustr res" where
  "hash_api_key hmac raw_key pepper =
     bindR (utf8_encode pepper) (\<lambda>key. bindR (utf8_encode raw_key) (\<lambda>msg. Inr (hexdigest (hmac key msg))))"

definition verify_api_key :: "hmac_fun \<Rightarrow> ustr \<Rightarrow> ustr \<Rightarrow> ustr \<Rightarrow> bool res" where
  "verify_api_key hmac raw_key stored_hash pepper =
     bindR (hash_api_key hmac raw_key pepper) (\<lambda>h. Inr (h = stored_hash))"

definition generate_api_key :: "hmac_fun \<Rightarrow> bytes \<Rightarrow> ustr \<Rightarrow> generated_api_key res" where
  "generate_api_key hmac random pepper =
     (let body = encode_body random; raw_key = KEY_LABEL @ body in
      bindR (hash_api_key hmac raw_key pepper) (\<lambda>h. Inr
        \<lparr>gk_raw_key = raw_key, gk_prefix = KEY_LABEL @ take PREFIX_BODY_CHARS body, gk_key_hash = h\<rparr>))"

definition prefix_of :: "ustr \<Rightarrow> ustr" where
  "prefix_of raw_key = take (length KEY_LABEL + PREFIX_BODY_CHARS) raw_key"

section \<open>The key table\<close>

datatype key_status = KEY_ACTIVE | KEY_REVOKED

record api_key =
  ak_id :: uuid
  ak_tenant_id :: uuid
  ak_name :: ustr
  ak_prefix :: ustr
  ak_key_hash :: ustr
  ak_scopes :: "ustr list"
  ak_status :: key_status
  ak_expires_at :: "int option"
  ak_last_used_at :: "int option"
  ak_created_at :: int

definition is_usable :: "int \<Rightarrow> api_key \<Rightarrow> bool" where
  "is_usable now k \<longleftrightarrow> ak_status k = KEY_ACTIVE \<and>
     (case ak_expires_at k of None \<Rightarrow> True | Some t \<Rightarrow> now < t)"

definition key_get :: "('s, api_key) table_ops \<Rightarrow> uuid \<Rightarrow> uuid \<Rightarrow> ('s, api_key option) op" where
  "key_get tb tenant_id api_key_id =
     select_one tb (\<lambda>k. ak_tenant_id k = tenant_id \<and> ak_id k = api_key_id)"

definition key_list_for_tenant :: "('s, api_key) table_ops \<Rightarrow> uuid \<Rightarrow> ('s, api_key list) op" where
  "key_list_for_tenant tb tenant_id =
     bindS (tb_select tb (\<lambda>k. ak_tenant_id k = tenant_id)) (\<lambda>ks. liftS (Inr (sort_key ak_created_at ks)))"

text \<open>\<open>create\<close>, with the new row's identifier and creation time.\<close>

definition key_create :: "hmac_fun \<Rightarrow> ('s, api_key) table_ops \<Rightarrow> uuid \<Rightarrow> int \<Rightarrow> bytes \<Rightarrow> uuid \<Rightarrow> ustr \<Rightarrow>
    ustr list \<Rightarrow> ustr \<Rightarrow> py_datetime option \<Rightarrow> ('s, api_key \<times> ustr) op" where
  "key_create hmac tb new_id now random tenant_id name scopes pepper expires_at =
     (if (case expires_at of None \<Rightarrow> False | Some t \<Rightarrow> \<not> is_aware t) then liftS (Inl ValueError)
      else bindS (liftS (generate_api_key hmac random pepper)) (\<lambda>g.
        let record = \<lparr>ak_id = new_id, ak_tenant_id = tenant_id, ak_name = name, ak_prefix = gk_prefix g,
              ak_key_hash = gk_key_hash g, ak_scopes = scopes, ak_status = KEY_ACTIVE,
              ak_expires_at = map_option instant expires_at, ak_last_used_at = None, ak_created_at = now\<rparr>
        in bindS (tb_insert tb record) (\<lambda>_. liftS (Inr (record, gk_raw_key g)))))"

definition key_revoke :: "('s, api_key) table_ops \<Rightarrow> uuid \<Rightarrow> uuid \<Rightarrow> ('s, api_key option) op" where
  "key_revoke tb tenant_id api_key_id =
     bindS (key_get tb tenant_id api_key_id) (\<lambda>found. case found of
         None \<Rightarrow> liftS (Inr None)
       | Some k \<Rightarrow> bindS (tb_update tb (\<lambda>r. ak_id r = ak_id k) (\<lambda>r. r\<lparr>ak_status := KEY_REVOKED\<rparr>))
           (\<lambda>_. liftS (Inr (Some (k\<lparr>ak_status := KEY_REVOKED\<rparr>)))))"

definition key_touch_last_used :: "('s, api_key) table_ops \<Rightarrow> uuid \<Rightarrow> uuid \<Rightarrow> py_datetime \<Rightarrow> ('s, unit) op" where
  "key_touch_last_used tb tenant_id api_key_id moment =
     (if \<not> is_aware moment then liftS (Inl ValueError)
      else bindS (key_get tb tenant_id api_key_id) (\<lambda>found. case found of
          None \<Rightarrow> liftS (Inr ())
        | Some k \<Rightarrow> tb_update tb (\<lambda>r. ak_id r = ak_id k) (\<lambda>r. r\<lparr>ak_last_used_at := Some (instant moment)\<rparr>)))"

text \<open>\<open>authenticate\<close>: every refusal is the same \<open>None\<close>; a miss still computes the digest.\<close>

definition key_authenticate ::
    "hmac_fun \<Rightarrow> ('s, api_key) table_ops \<Rightarrow> int \<Rightarrow> ustr \<Rightarrow> ustr \<Rightarrow> ('s, api_key option) op" where
  "key_authenticate hmac tb now raw_key pepper =
     bindS (select_one tb (\<lambda>k. ak_prefix k = prefix_of raw_key)) (\<lambda>found. case found of
         None \<Rightarrow> bindS (liftS (hash_api_key hmac raw_key pepper)) (\<lambda>_. liftS (Inr None))
       | Some k \<Rightarrow> bindS (liftS (verify_api_key hmac raw_key (ak_key_hash k) pepper)) (\<lambda>matches.
           liftS (Inr (if \<not> matches then None else if \<not> is_usable now k then None else Some k))))"

section \<open>Lemmas\<close>

lemma sextets_lt: "\<forall>x \<in> set raw. x < 256 \<Longrightarrow> d \<in> set (base64_sextets raw) \<Longrightarrow> d < 64"
  by (induction raw rule: base64_sextets.induct) (auto simp: less_mult_imp_div_less)

lemma base64_char_ascii: "d < 64 \<Longrightarrow> 45 \<le> base64_char d \<and> base64_char d < 123"
  by (auto simp: base64_char_def)

lemma encode_body_ascii: "\<forall>x \<in> set raw. x < 256 \<Longrightarrow> c \<in> set (encode_body raw) \<Longrightarrow> 45 \<le> c \<and> c < 123"
  by (auto simp: encode_body_def dest: sextets_lt base64_char_ascii)

lemma length_base64: "length (base64_sextets raw) = (4 * length raw + 2) div 3"
  by (induction raw rule: base64_sextets.induct) auto

lemma generated_prefix:
  assumes "generate_api_key hmac random pepper = Inr g"
  shows "prefix_of (gk_raw_key g) = gk_prefix g" "gk_raw_key g = KEY_LABEL @ encode_body random"
    "hash_api_key hmac (gk_raw_key g) pepper = Inr (gk_key_hash g)"
  using assms by (auto simp: generate_api_key_def Let_def result_simps prefix_of_def KEY_LABEL_def)

lemma key_authenticate_Some:
  assumes laws: "table_laws tb rows" and auth: "key_authenticate hmac tb now raw pepper s = (Inr (Some k), s')"
  shows "k \<in> set (rows s)" "ak_prefix k = prefix_of raw" "hash_api_key hmac raw pepper = Inr (ak_key_hash k)"
    "is_usable now k" "rows s' = rows s"
proof -
  obtain r1 s1 where sel: "select_one tb (\<lambda>k. ak_prefix k = prefix_of raw) s = (r1, s1)" by fastforce
  have r1: "r1 = Inr (Some k)" and s': "s' = s1"
    and ver: "verify_api_key hmac raw (ak_key_hash k) pepper = Inr True" and use: "is_usable now k"
    using auth sel
    by (auto simp: key_authenticate_def bindS_def liftS_def split: sum.splits option.splits if_splits)
  have "filter (\<lambda>k. ak_prefix k = prefix_of raw) (rows s) = [k]"
    using select_one_rows(2)[OF laws sel] r1 by blast
  then have "k \<in> set (filter (\<lambda>k. ak_prefix k = prefix_of raw) (rows s))" by simp
  then show "k \<in> set (rows s)" "ak_prefix k = prefix_of raw" by simp_all
  show "hash_api_key hmac raw pepper = Inr (ak_key_hash k)"
    using ver by (auto simp: verify_api_key_def result_simps)
  show "is_usable now k" by (rule use)
  show "rows s' = rows s" using select_one_rows(1)[OF laws sel] s' by simp
qed

lemma key_authenticate_error:
  assumes errs: "table_errors tb" and ok: "hash_api_key hmac raw pepper = Inr h"
    and fail: "key_authenticate hmac tb now raw pepper s = (Inl e, s')"
  shows "db_error e"
  using fail ok select_one_error[OF errs]
  by (auto simp: key_authenticate_def bindS_Inl liftS_def verify_api_key_def split: option.splits)

end
