(* ===== verification/Correlation.thy ===== *)
theory Correlation
  imports Fingerprint
begin

text \<open>
  The keyed digests of audit records, \<^verbatim>\<open>app/audit/correlation.py\<close>: the subkey derived from the
  audit secret and the four digests over length-prefixed messages, each under its own domain.
  HMAC-SHA256 is the argument \<open>hmac\<close>, as in Fingerprint.
\<close>

definition AUDIT_CORRELATION_LABEL :: bytes where
  "AUDIT_CORRELATION_LABEL = lit ''sgw:audit:correlation:v1''"

definition PROMPT_DOMAIN :: bytes where "PROMPT_DOMAIN = lit ''sgw:audit:prompt:v1''"
definition RESPONSE_DOMAIN :: bytes where "RESPONSE_DOMAIN = lit ''sgw:audit:response:v1''"
definition SESSION_DOMAIN :: bytes where "SESSION_DOMAIN = lit ''sgw:audit:session:v1''"
definition OUTBOUND_DOMAIN :: bytes where "OUTBOUND_DOMAIN = lit ''sgw:audit:outbound:v1''"

definition MIN_CORRELATION_KEY_BYTES :: nat where "MIN_CORRELATION_KEY_BYTES = 16"

definition derive_correlation_key :: "(bytes \<Rightarrow> bytes \<Rightarrow> bytes) \<Rightarrow> bytes \<Rightarrow> bytes res" where
  "derive_correlation_key hmac secret =
     (if length secret < MIN_CORRELATION_KEY_BYTES then Inl ValueError
      else Inr (hmac secret AUDIT_CORRELATION_LABEL))"

text \<open>\<open>CorrelationHasher.__init__\<close> and \<open>from_settings\<close>; the hasher is its key.\<close>

definition mk_correlation_hasher :: "bytes \<Rightarrow> bytes res" where
  "mk_correlation_hasher key =
     (if length key < MIN_CORRELATION_KEY_BYTES then Inl ValueError else Inr key)"

definition correlation_hasher_from_settings :: "(bytes \<Rightarrow> bytes \<Rightarrow> bytes) \<Rightarrow> ustr \<Rightarrow> bytes res" where
  "correlation_hasher_from_settings hmac audit_hmac_key =
     bindR (utf8_encode audit_hmac_key)
       (\<lambda>secret. bindR (derive_correlation_key hmac secret) mk_correlation_hasher)"

definition correlation_digest ::
    "(bytes \<Rightarrow> bytes \<Rightarrow> bytes) \<Rightarrow> bytes \<Rightarrow> bytes \<Rightarrow> uuid \<Rightarrow> bytes list \<Rightarrow> ustr res" where
  "correlation_digest hmac key domain tenant_id parts =
     bindR (frame 4 (domain # uuid_bytes tenant_id # parts)) (\<lambda>message. Inr (hexdigest (hmac key message)))"

definition prompt_digest :: "(bytes \<Rightarrow> bytes \<Rightarrow> bytes) \<Rightarrow> bytes \<Rightarrow> uuid \<Rightarrow> ustr list \<Rightarrow> ustr res" where
  "prompt_digest hmac key tenant_id segments =
     bindR (traverseR utf8_encode segments) (correlation_digest hmac key PROMPT_DOMAIN tenant_id)"

definition response_digest :: "(bytes \<Rightarrow> bytes \<Rightarrow> bytes) \<Rightarrow> bytes \<Rightarrow> uuid \<Rightarrow> ustr \<Rightarrow> ustr res" where
  "response_digest hmac key tenant_id txt =
     bindR (utf8_encode txt) (\<lambda>t. correlation_digest hmac key RESPONSE_DOMAIN tenant_id [t])"

definition outbound_digest :: "(bytes \<Rightarrow> bytes \<Rightarrow> bytes) \<Rightarrow> bytes \<Rightarrow> uuid \<Rightarrow> bytes \<Rightarrow> ustr res" where
  "outbound_digest hmac key tenant_id payload =
     correlation_digest hmac key OUTBOUND_DOMAIN tenant_id [payload]"

definition session_digest :: "(bytes \<Rightarrow> bytes \<Rightarrow> bytes) \<Rightarrow> bytes \<Rightarrow> uuid \<Rightarrow> uuid \<Rightarrow> ustr res" where
  "session_digest hmac key tenant_id session_id =
     correlation_digest hmac key SESSION_DOMAIN tenant_id [uuid_bytes session_id]"

section \<open>What a digest determines\<close>

text \<open>
  The four calls as one datatype, so that a single statement compares digests across kinds:
  what was digested, for which tenant, and the bytes HMAC is given.
\<close>

datatype correlated =
    Prompt uuid "ustr list"
  | Answer uuid ustr
  | Payload uuid bytes
  | Session uuid uuid

fun digest_of :: "(bytes \<Rightarrow> bytes \<Rightarrow> bytes) \<Rightarrow> bytes \<Rightarrow> correlated \<Rightarrow> ustr res" where
  "digest_of hmac key (Prompt t segments) = prompt_digest hmac key t segments"
| "digest_of hmac key (Answer t txt) = response_digest hmac key t txt"
| "digest_of hmac key (Payload t payload) = outbound_digest hmac key t payload"
| "digest_of hmac key (Session t session) = session_digest hmac key t session"

fun correlated_fields :: "correlated \<Rightarrow> bytes list res" where
  "correlated_fields (Prompt t segments) =
     bindR (traverseR utf8_encode segments) (\<lambda>parts. Inr (PROMPT_DOMAIN # uuid_bytes t # parts))"
| "correlated_fields (Answer t txt) =
     bindR (utf8_encode txt) (\<lambda>b. Inr [RESPONSE_DOMAIN, uuid_bytes t, b])"
| "correlated_fields (Payload t payload) = Inr [OUTBOUND_DOMAIN, uuid_bytes t, payload]"
| "correlated_fields (Session t session) = Inr [SESSION_DOMAIN, uuid_bytes t, uuid_bytes session]"

fun valid_correlated :: "correlated \<Rightarrow> bool" where
  "valid_correlated (Prompt t segments) = valid_uuid t"
| "valid_correlated (Answer t txt) = valid_uuid t"
| "valid_correlated (Payload t payload) = valid_uuid t"
| "valid_correlated (Session t session) \<longleftrightarrow> valid_uuid t \<and> valid_uuid session"

lemma domains_distinct: "distinct [PROMPT_DOMAIN, RESPONSE_DOMAIN, SESSION_DOMAIN, OUTBOUND_DOMAIN]"
  by (simp add: PROMPT_DOMAIN_def RESPONSE_DOMAIN_def SESSION_DOMAIN_def OUTBOUND_DOMAIN_def)

lemma traverse_utf8_inj:
  "traverseR utf8_encode xs = Inr b \<Longrightarrow> traverseR utf8_encode ys = Inr b \<Longrightarrow> xs = ys"
proof (induction xs arbitrary: ys b)
  case Nil
  then show ?case by (cases ys) (auto simp: result_simps)
next
  case (Cons x xs)
  then show ?case by (cases ys) (auto simp: result_simps dest: utf8_encode_inj)
qed

interpretation correlation: framed_message 4 correlated_fields valid_correlated
proof
  fix a b :: correlated and x
  assume "valid_correlated a" "valid_correlated b" "correlated_fields a = Inr x" "correlated_fields b = Inr x"
  then show "a = b" using domains_distinct
    by (cases a; cases b) (auto simp: result_simps dest: uuid_bytes_inj utf8_encode_inj traverse_utf8_inj)
qed simp

lemma digest_of_message:
  "digest_of hmac key c = Inr d \<longleftrightarrow>
     (\<exists>m. bindR (correlated_fields c) (frame 4) = Inr m \<and> d = hexdigest (hmac key m))"
  by (cases c) (auto simp: prompt_digest_def response_digest_def outbound_digest_def session_digest_def
      correlation_digest_def result_simps simp del: frame.simps)

text \<open>
  Audit digests tell apart what they should: if a prompt, an answer, a transmitted payload or
  a session id of some tenant shares its digest with anything else the gateway digests -- another
  content, another cutting into messages, another kind, another tenant -- then HMAC has collided
  on two different messages under the audit key.
\<close>

theorem audit_digest_collision_free:
  assumes "digest_of hmac key a = Inr d" "digest_of hmac key b = Inr d" "a \<noteq> b"
    and "valid_correlated a" "valid_correlated b"
    and digest: "\<And>m. \<forall>x \<in> set (hmac key m). x < 256"
  shows "\<exists>m m'. bindR (correlated_fields a) (frame 4) = Inr m \<and> bindR (correlated_fields b) (frame 4) = Inr m'
    \<and> m \<noteq> m' \<and> hmac key m = hmac key m'"
proof -
  obtain m m' where m: "bindR (correlated_fields a) (frame 4) = Inr m" "d = hexdigest (hmac key m)"
    and m': "bindR (correlated_fields b) (frame 4) = Inr m'" "d = hexdigest (hmac key m')"
    using assms(1,2) unfolding digest_of_message by blast
  have "hmac key m = hmac key m'" using hexdigest_inj digest m(2) m'(2) by metis
  moreover have "m \<noteq> m'" using correlation.framed_inj[OF assms(4,5) m(1)] m'(1) assms(3) by blast
  ultimately show ?thesis using m(1) m'(1) by blast
qed

theorem audit_digest_collision_free_witness:
  "\<exists>m m'. bindR (correlated_fields (Prompt 1 [lit ''AB'', lit ''C''])) (frame 4) = Inr m
     \<and> bindR (correlated_fields (Answer 1 (lit ''ABC''))) (frame 4) = Inr m'
     \<and> m \<noteq> m' \<and> zero_hmac (replicate 16 0) m = zero_hmac (replicate 16 0) m'"
proof (rule audit_digest_collision_free)
  have ascii: "utf8_encode (lit ''AB'') = Inr (lit ''AB'')" "utf8_encode (lit ''C'') = Inr (lit ''C'')"
    "utf8_encode (lit ''ABC'') = Inr (lit ''ABC'')" by (rule utf8_encode_ascii; auto)+
  show "digest_of zero_hmac (replicate 16 0) (Prompt 1 [lit ''AB'', lit ''C'']) = Inr (hexdigest (replicate 32 0))"
    unfolding digest_of_message using ascii frame_ok[of "[PROMPT_DOMAIN, uuid_bytes 1, lit ''AB'', lit ''C'']" 4]
    by (auto simp: zero_hmac_def PROMPT_DOMAIN_def simp del: frame.simps)
  show "digest_of zero_hmac (replicate 16 0) (Answer 1 (lit ''ABC'')) = Inr (hexdigest (replicate 32 0))"
    unfolding digest_of_message using ascii frame_ok[of "[RESPONSE_DOMAIN, uuid_bytes 1, lit ''ABC'']" 4]
    by (auto simp: zero_hmac_def RESPONSE_DOMAIN_def simp del: frame.simps)
qed (auto simp: zero_hmac_def valid_uuid_def)

text \<open>The audit subkey and the fingerprint subkey are taken over different labels.\<close>

lemma correlation_label_separate: "AUDIT_CORRELATION_LABEL \<noteq> FINGERPRINT_LABEL"
  by (simp add: AUDIT_CORRELATION_LABEL_def FINGERPRINT_LABEL_def)

end
