(* ===== verification/Llm.thy ===== *)
theory Llm
  imports Domain Grammar Effects
begin

text \<open>
  The provider seam: error mapping, retry budget, model catalog and alias registry of
  \<^verbatim>\<open>app/llm/base.py\<close> and \<^verbatim>\<open>registry.py\<close>, the mock adapter (\<^verbatim>\<open>mock_provider.py\<close>) and the OpenAI
  adapter (\<^verbatim>\<open>openai_provider.py\<close>). The OpenAI SDK is not part of the repository: one call to it
  is an argument, from the call and the number of the attempt to its outcome and its duration.
  Seconds are rational numbers, where the code has floats.
\<close>

section \<open>Retry and deadline policy\<close>

definition RETRYABLE_STATUS_CODES :: "int list" where
  "RETRYABLE_STATUS_CODES = [408, 429, 500, 502, 503, 504]"

definition TIMEOUT_STATUS_CODES :: "int list" where "TIMEOUT_STATUS_CODES = [408, 504]"

definition DEFAULT_RETRY_BACKOFF_BASE_SECONDS :: rat where "DEFAULT_RETRY_BACKOFF_BASE_SECONDS = 1 / 4"
definition RETRY_BACKOFF_MULTIPLIER :: rat where "RETRY_BACKOFF_MULTIPLIER = 2"
definition RETRY_BACKOFF_MAX_SECONDS :: rat where "RETRY_BACKOFF_MAX_SECONDS = 8"
definition DEADLINE_SLACK_SECONDS :: rat where "DEADLINE_SLACK_SECONDS = 1"

text \<open>
  \<open>_SAFE_ALIAS_PATTERN\<close>: one to 64 characters of the class, and, since \<open>$\<close> also matches before
  it, possibly a final line break.
\<close>

definition is_alias_char :: "uchar \<Rightarrow> bool" where
  "is_alias_char c \<longleftrightarrow> ascii_digit c \<or> ascii_upper c \<or> ascii_lower c \<or> c \<in> set (lit ''._:-'')"

definition safe_alias_match :: "ustr \<Rightarrow> bool" where
  "safe_alias_match alias \<longleftrightarrow>
     (let run = takeWhile is_alias_char alias; rest = drop (length run) alias
      in 1 \<le> length run \<and> length run \<le> 64 \<and> (rest = [] \<or> rest = [10]))"

definition safe_alias_for_log :: "ustr \<Rightarrow> ustr" where
  "safe_alias_for_log alias = (if safe_alias_match alias then alias else lit ''<unloggable>'')"

definition is_retryable_status :: "int \<Rightarrow> bool" where
  "is_retryable_status status \<longleftrightarrow> status \<in> set RETRYABLE_STATUS_CODES"

definition error_for_status :: "int \<Rightarrow> exn" where
  "error_for_status status =
     (if status \<in> set TIMEOUT_STATUS_CODES then GatewayError PROVIDER_TIMEOUT ''''
      else GatewayError PROVIDER_UNAVAILABLE '''')"

definition retry_backoff_seconds :: "nat \<Rightarrow> rat \<Rightarrow> rat" where
  "retry_backoff_seconds attempt base_seconds =
     min (base_seconds * RETRY_BACKOFF_MULTIPLIER ^ attempt) RETRY_BACKOFF_MAX_SECONDS"

definition overall_deadline_seconds :: "rat \<Rightarrow> rat \<Rightarrow> nat \<Rightarrow> rat \<Rightarrow> rat" where
  "overall_deadline_seconds connect_timeout read_timeout max_retries backoff_base =
     (let attempts = max_retries + 1;
          attempt_budget = of_nat attempts * (connect_timeout + read_timeout);
          backoff_budget = sum_list (map (\<lambda>a. retry_backoff_seconds a backoff_base) [0 ..< max_retries])
      in attempt_budget + backoff_budget + DEADLINE_SLACK_SECONDS)"

section \<open>Model catalog and provider registry\<close>

definition normalize_alias :: "ucd \<Rightarrow> ustr \<Rightarrow> ustr" where
  "normalize_alias U alias = ud_lower U (strip U alias)"

text \<open>\<open>ModelCatalog\<close> is its entries; a later alias that normalizes alike replaces the model.\<close>

definition catalog_from_mapping :: "ucd \<Rightarrow> (ustr \<times> ustr) list \<Rightarrow> (ustr \<times> ustr) list" where
  "catalog_from_mapping U entries =
     fold (\<lambda>(alias, model_id) d. dict_put (normalize_alias U alias) model_id d) entries []"

definition resolve_model :: "ucd \<Rightarrow> (ustr \<times> ustr) list \<Rightarrow> ustr \<Rightarrow> ustr res" where
  "resolve_model U entries alias =
     (case dict_get entries (normalize_alias U alias) of
        None \<Rightarrow> Inl (GatewayError MODEL_NOT_ALLOWED '''')
      | Some model_id \<Rightarrow> Inr model_id)"

definition catalog_aliases :: "(ustr \<times> ustr) list \<Rightarrow> ustr list" where
  "catalog_aliases entries = sort (map fst entries)"

text \<open>\<open>LLMProvider\<close>: an alias and a call, which may change the state \<open>'s\<close> of the outside world.\<close>

record 's llm_provider =
  lp_alias :: ustr
  lp_complete :: "protected_chat_request \<Rightarrow> ('s, provider_response) op"

fun register_all :: "ucd \<Rightarrow> (ustr \<times> 's llm_provider) list \<Rightarrow> 's llm_provider list \<Rightarrow>
    (ustr \<times> 's llm_provider) list res" where
  "register_all U adapters [] = Inr adapters"
| "register_all U adapters (p # ps) =
     (let alias = normalize_alias U (lp_alias p)
      in if dict_get adapters alias \<noteq> None then Inl ValueError
         else register_all U (dict_put alias p adapters) ps)"

definition registry_from_providers :: "ucd \<Rightarrow> 's llm_provider list \<Rightarrow> (ustr \<times> 's llm_provider) list res" where
  "registry_from_providers U providers = register_all U [] providers"

definition registry_get :: "ucd \<Rightarrow> (ustr \<times> 's llm_provider) list \<Rightarrow> ustr \<Rightarrow> 's llm_provider res" where
  "registry_get U adapters alias =
     (case dict_get adapters (normalize_alias U alias) of
        None \<Rightarrow> Inl (GatewayError PROVIDER_NOT_ALLOWED '''')
      | Some adapter \<Rightarrow> Inr adapter)"

definition registry_contains :: "ucd \<Rightarrow> (ustr \<times> 's llm_provider) list \<Rightarrow> ustr \<Rightarrow> bool" where
  "registry_contains U adapters alias \<longleftrightarrow> dict_get adapters (normalize_alias U alias) \<noteq> None"

definition registry_aliases :: "(ustr \<times> 's llm_provider) list \<Rightarrow> ustr list" where
  "registry_aliases adapters = sort (map fst adapters)"

section \<open>The mock adapter\<close>

definition MOCK_PROVIDER_ALIAS :: ustr where "MOCK_PROVIDER_ALIAS = lit ''mock''"
definition MOCK_MODEL_ID :: ustr where "MOCK_MODEL_ID = lit ''mock-echo-1''"
definition CHARS_PER_TOKEN :: nat where "CHARS_PER_TOKEN = 4"

text \<open>\<open>TOKEN_PATTERN.findall\<close> is the scanner of the grammar before it parses.\<close>

definition tokens_in_order :: "protected_chat_request \<Rightarrow> ustr list" where
  "tokens_in_order request =
     map fst (fold (\<lambda>tok seen. if dict_get seen tok = None then dict_put tok () seen else seen)
        (concat (map (\<lambda>m. map snd (scan_from 0 (cm_content m))) (pr_messages request))) [])"

definition build_reply :: "protected_chat_request \<Rightarrow> ustr" where
  "build_reply request =
     (let tokens = tokens_in_order request
      in if tokens = [] then lit ''Mock provider reply.'' @ lit '' No protected values were present.''
         else lit ''Mock provider reply.'' @ lit '' Echoed values:'' @ lit '' '' @ join_with (lit '' '') tokens)"

definition synthetic_usage :: "protected_chat_request \<Rightarrow> ustr \<Rightarrow> provider_usage" where
  "synthetic_usage request reply =
     (let input_tokens = sum_list (map (length \<circ> cm_content) (pr_messages request)) div CHARS_PER_TOKEN;
          output_tokens = length reply div CHARS_PER_TOKEN
      in \<lparr>pu_input_tokens = Some (int input_tokens), pu_output_tokens = Some (int output_tokens),
          pu_total_tokens = Some (int (input_tokens + output_tokens))\<rparr>)"

definition mock_complete :: "ustr \<Rightarrow> protected_chat_request \<Rightarrow> ('s, provider_response) op" where
  "mock_complete model_id request =
     liftS (Inr \<lparr>pv_content = Some (build_reply request), pv_model = Some model_id,
       pv_usage = Some (synthetic_usage request (build_reply request)), pv_finish_reason = Some (lit ''completed'')\<rparr>)"

definition mock_provider :: "ustr \<Rightarrow> ustr \<Rightarrow> 's llm_provider" where
  "mock_provider alias model_id = \<lparr>lp_alias = alias, lp_complete = mock_complete model_id\<rparr>"


section \<open>The OpenAI adapter\<close>

text \<open>
  What the SDK hands back, as far as the adapter reads it: \<open>None\<close> where an attribute is missing
  or not of the type the adapter tests for. An item whose \<open>content\<close> cannot be iterated is
  \<open>Unreadable\<close>; a falsy \<open>content\<close> is an empty list of parts.
\<close>

record sdk_part =
  sp_type :: "ustr option"
  sp_text :: "ustr option"

datatype sdk_item = Parts "sdk_part list" | Unreadable

record sdk_usage =
  su_input_tokens :: "int option"
  su_output_tokens :: "int option"
  su_total_tokens :: "int option"

record sdk_response =
  sr_output :: "sdk_item list option"
  sr_model :: "ustr option"
  sr_usage :: "sdk_usage option"
  sr_incomplete_reason :: "ustr option"
  sr_status :: "ustr option"

datatype sdk_outcome =
    SdkResponse sdk_response
  | APITimeoutError
  | APIConnectionError
  | APIStatusError int
  | OpenAIError

record sdk_call =
  sc_model :: ustr
  sc_input :: "chat_message list"
  sc_store :: bool
  sc_temperature :: "rat option"
  sc_max_output_tokens :: "int option"

record openai_adapter =
  oa_alias :: ustr
  oa_models :: "(ustr \<times> ustr) list"
  oa_max_retries :: nat
  oa_backoff_base :: rat
  oa_deadline :: rat

definition OPENAI_PROVIDER_ALIAS :: ustr where "OPENAI_PROVIDER_ALIAS = lit ''openai''"

definition DEFAULT_OPENAI_MODELS :: "(ustr \<times> ustr) list" where
  "DEFAULT_OPENAI_MODELS =
    [(lit ''default'', lit ''gpt-4.1-mini''), (lit ''fast'', lit ''gpt-4o-mini''),
     (lit ''balanced'', lit ''gpt-4.1''), (lit ''gpt-4.1'', lit ''gpt-4.1''),
     (lit ''gpt-4.1-mini'', lit ''gpt-4.1-mini''), (lit ''gpt-4o'', lit ''gpt-4o''),
     (lit ''gpt-4o-mini'', lit ''gpt-4o-mini'')]"

text \<open>\<open>OpenAIProvider.__init__\<close>; \<open>deadline_seconds or ...\<close> also replaces a zero.\<close>

definition mk_openai_adapter ::
    "(ustr \<times> ustr) list \<Rightarrow> rat \<Rightarrow> rat \<Rightarrow> nat \<Rightarrow> ustr \<Rightarrow> rat \<Rightarrow> rat option \<Rightarrow> openai_adapter" where
  "mk_openai_adapter models connect_timeout read_timeout max_retries alias backoff_base deadline =
     \<lparr>oa_alias = alias, oa_models = models, oa_max_retries = max_retries, oa_backoff_base = backoff_base,
      oa_deadline = (case deadline of
          Some d \<Rightarrow> if d \<noteq> 0 then d else overall_deadline_seconds connect_timeout read_timeout max_retries backoff_base
        | None \<Rightarrow> overall_deadline_seconds connect_timeout read_timeout max_retries backoff_base)\<rparr>"

text \<open>\<open>from_settings\<close>, given the credential of the settings, if any, and its three bounds.\<close>

definition openai_from_settings ::
    "ucd \<Rightarrow> ustr option \<Rightarrow> rat \<Rightarrow> rat \<Rightarrow> nat \<Rightarrow> (ustr \<times> ustr) list option \<Rightarrow> ustr \<Rightarrow> openai_adapter res" where
  "openai_from_settings U api_key connect_timeout read_timeout max_retries models alias =
     (case api_key of
        None \<Rightarrow> Inl ValueError
      | Some _ \<Rightarrow> Inr (mk_openai_adapter
          (case models of Some m \<Rightarrow> m | None \<Rightarrow> catalog_from_mapping U DEFAULT_OPENAI_MODELS)
          connect_timeout read_timeout max_retries alias DEFAULT_RETRY_BACKOFF_BASE_SECONDS None))"

definition openai_call :: "protected_chat_request \<Rightarrow> ustr \<Rightarrow> sdk_call" where
  "openai_call request model_id =
     \<lparr>sc_model = model_id, sc_input = pr_messages request, sc_store = False,
      sc_temperature = pr_temperature request, sc_max_output_tokens = pr_max_output_tokens request\<rparr>"

fun item_text :: "sdk_item list \<Rightarrow> ustr res" where
  "item_text [] = Inr []"
| "item_text (Unreadable # items) = Inl (GatewayError PROVIDER_RESPONSE_INVALID ''unreadable_output'')"
| "item_text (Parts parts # items) =
     bindR (item_text items) (\<lambda>rest.
       Inr (concat (map (\<lambda>p. if sp_type p = Some (lit ''output_text'') then
                               (case sp_text p of Some t \<Rightarrow> t | None \<Rightarrow> []) else []) parts) @ rest))"

definition extract_output_text :: "sdk_response \<Rightarrow> ustr res" where
  "extract_output_text raw =
     (case sr_output raw of
        None \<Rightarrow> Inl (GatewayError PROVIDER_RESPONSE_INVALID ''missing_output'')
      | Some items \<Rightarrow> item_text items)"

definition extract_usage :: "sdk_response \<Rightarrow> provider_usage option" where
  "extract_usage raw =
     (case sr_usage raw of
        None \<Rightarrow> None
      | Some u \<Rightarrow>
          if su_input_tokens u = None \<and> su_output_tokens u = None \<and> su_total_tokens u = None then None
          else Some \<lparr>pu_input_tokens = su_input_tokens u, pu_output_tokens = su_output_tokens u,
                     pu_total_tokens = su_total_tokens u\<rparr>)"

definition truthy :: "ustr option \<Rightarrow> ustr option" where
  "truthy s = (if s = Some [] then None else s)"

definition extract_finish_reason :: "sdk_response \<Rightarrow> ustr option" where
  "extract_finish_reason raw =
     (case truthy (sr_incomplete_reason raw) of Some r \<Rightarrow> Some r | None \<Rightarrow> truthy (sr_status raw))"

definition to_provider_response :: "sdk_response \<Rightarrow> ustr \<Rightarrow> provider_response res" where
  "to_provider_response raw model_id =
     bindR (extract_output_text raw) (\<lambda>content.
       if content = [] then Inl (GatewayError PROVIDER_RESPONSE_INVALID ''empty_output'')
       else Inr \<lparr>pv_content = Some content,
                 pv_model = Some (case truthy (sr_model raw) of Some m \<Rightarrow> m | None \<Rightarrow> model_id),
                 pv_usage = extract_usage raw, pv_finish_reason = extract_finish_reason raw\<rparr>)"

text \<open>
  One attempt either decides the call or leaves an error for the next attempt to replace.
\<close>

datatype attempt_verdict = Decided "provider_response res" | Retry exn

fun judge :: "ustr \<Rightarrow> sdk_outcome \<Rightarrow> attempt_verdict" where
  "judge model_id (SdkResponse raw) = Decided (to_provider_response raw model_id)"
| "judge model_id APITimeoutError = Retry (GatewayError PROVIDER_TIMEOUT '''')"
| "judge model_id APIConnectionError = Retry (GatewayError PROVIDER_UNAVAILABLE ''connection'')"
| "judge model_id (APIStatusError status) =
     (if is_retryable_status status then Retry (error_for_status status) else Decided (Inl (error_for_status status)))"
| "judge model_id OpenAIError = Decided (Inl (GatewayError PROVIDER_UNAVAILABLE ''client''))"

definition deadline_error :: exn where
  "deadline_error = GatewayError PROVIDER_TIMEOUT ''deadline''"

text \<open>
  \<open>_send_with_retries\<close> under \<open>asyncio.timeout\<close>: \<open>now\<close> is the time the call has taken; an attempt or
  a sleep that would pass the deadline is cancelled there. The second component counts the
  calls made to the SDK. The list holds the attempts still allowed.
\<close>

fun send_with_retries :: "openai_adapter \<Rightarrow> ustr \<Rightarrow> (nat \<Rightarrow> sdk_outcome \<times> rat) \<Rightarrow> rat \<Rightarrow> nat list \<Rightarrow> exn option \<Rightarrow>
    provider_response res \<times> nat" where
  "send_with_retries A model_id send now [] last_error =
     (Inl (case last_error of None \<Rightarrow> GatewayError PROVIDER_UNAVAILABLE ''exhausted'' | Some e \<Rightarrow> e), 0)"
| "send_with_retries A model_id send now (attempt # attempts) last_error =
     (let (outcome, took) = send attempt; now1 = now + took in
      if oa_deadline A \<le> now1 then (Inl deadline_error, 1)
      else case judge model_id outcome of
        Decided r \<Rightarrow> (r, 1)
      | Retry e \<Rightarrow>
          if attempts = [] then (Inl e, 1)
          else let now2 = now1 + retry_backoff_seconds attempt (oa_backoff_base A) in
            if oa_deadline A \<le> now2 then (Inl deadline_error, 1)
            else let (r, n) = send_with_retries A model_id send now2 attempts (Some e) in (r, Suc n))"

definition openai_complete :: "ucd \<Rightarrow> openai_adapter \<Rightarrow> (sdk_call \<Rightarrow> nat \<Rightarrow> sdk_outcome \<times> rat) \<Rightarrow>
    protected_chat_request \<Rightarrow> provider_response res \<times> nat" where
  "openai_complete U A sdk request =
     (case resolve_model U (oa_models A) (pr_model_alias request) of
        Inl e \<Rightarrow> (Inl e, 0)
      | Inr model_id \<Rightarrow>
          send_with_retries A model_id (sdk (openai_call request model_id)) 0 [0 ..< Suc (oa_max_retries A)] None)"

text \<open>The adapter in the registry; the world counts the calls to the SDK it has seen.\<close>

definition openai_provider :: "ucd \<Rightarrow> openai_adapter \<Rightarrow> (nat \<Rightarrow> sdk_call \<Rightarrow> nat \<Rightarrow> sdk_outcome \<times> rat) \<Rightarrow> nat llm_provider" where
  "openai_provider U A sdk = \<lparr>lp_alias = oa_alias A,
     lp_complete = (\<lambda>request calls. let (r, n) = openai_complete U A (sdk calls) request in (r, calls + n))\<rparr>"

definition build_default_registry :: "ucd \<Rightarrow> ustr option \<Rightarrow> rat \<Rightarrow> rat \<Rightarrow> nat \<Rightarrow>
    (nat \<Rightarrow> sdk_call \<Rightarrow> nat \<Rightarrow> sdk_outcome \<times> rat) \<Rightarrow> (ustr \<times> nat llm_provider) list res" where
  "build_default_registry U api_key connect_timeout read_timeout max_retries sdk =
     (let mock = mock_provider MOCK_PROVIDER_ALIAS MOCK_MODEL_ID in
      case api_key of
        None \<Rightarrow> registry_from_providers U [mock]
      | Some _ \<Rightarrow>
          bindR (openai_from_settings U api_key connect_timeout read_timeout max_retries
                   (Some (catalog_from_mapping U DEFAULT_OPENAI_MODELS)) OPENAI_PROVIDER_ALIAS)
            (\<lambda>A. registry_from_providers U [mock, openai_provider U A sdk]))"


section \<open>Properties of the registry\<close>

lemma register_all_keep: "register_all U d ps = Inr d' \<Longrightarrow> dict_get d k = Some p \<Longrightarrow> dict_get d' k = Some p"
proof (induction ps arbitrary: d)
  case (Cons q qs)
  then have "k \<noteq> normalize_alias U (lp_alias q)" by (auto simp: Let_def split: if_splits)
  with Cons.prems(2) have "dict_get (dict_put (normalize_alias U (lp_alias q)) q d) k = Some p"
    by (simp add: update_conv)
  moreover have "register_all U (dict_put (normalize_alias U (lp_alias q)) q d) qs = Inr d'"
    using Cons.prems(1) by (simp add: Let_def split: if_splits)
  ultimately show ?case using Cons.IH by blast
qed simp

lemma register_all_get:
  assumes "register_all U d ps = Inr d'" "distinct (map fst d)"
  shows "dict_get d' k = Some p \<longleftrightarrow> dict_get d k = Some p \<or> p \<in> set ps \<and> normalize_alias U (lp_alias p) = k"
  using assms
proof (induction ps arbitrary: d)
  case (Cons q qs)
  let ?a = "normalize_alias U (lp_alias q)"
  from Cons.prems have new: "dict_get d ?a = None" and rest: "register_all U (dict_put ?a q d) qs = Inr d'"
    by (auto simp: Let_def map_of_eq_None_iff split: if_splits)
  have "distinct (map fst (dict_put ?a q d))" using Cons.prems(2) by (simp add: distinct_update)
  note IH = Cons.IH[OF rest this]
  show ?case
  proof (cases "k = ?a")
    case True
    have "dict_get d' ?a = Some q" by (rule register_all_keep[OF rest]) (simp add: update_conv)
    moreover from this have "p = q" if "p \<in> set qs" "normalize_alias U (lp_alias p) = ?a"
      using IH that True by simp
    ultimately show ?thesis using True new by auto
  next
    case False
    then have "dict_get (dict_put ?a q d) k = dict_get d k" by (simp add: update_conv)
    with False show ?thesis unfolding IH by auto
  qed
qed simp

text \<open>
  The registry is the only way to a provider and means exactly what was registered: a lookup
  returns an adapter if and only if that adapter was handed to the registry under the alias asked
  for, up to case and surrounding space. Every other alias is refused.
\<close>

theorem registry_lookup_exact:
  assumes "registry_from_providers U ps = Inr d"
  shows "(registry_get U d alias = Inr p \<longleftrightarrow>
            p \<in> set ps \<and> normalize_alias U (lp_alias p) = normalize_alias U alias)
    \<and> (registry_get U d alias = Inl (GatewayError PROVIDER_NOT_ALLOWED '''')
        \<longleftrightarrow> normalize_alias U alias \<notin> normalize_alias U ` lp_alias ` set ps)"
proof -
  note get = register_all_get[OF assms[unfolded registry_from_providers_def], simplified]
  show ?thesis
    using get[of "normalize_alias U alias"] by (fastforce simp: registry_get_def image_iff split: option.splits)
qed

section \<open>Properties of the retry loop\<close>

lemma retry_backoff_nonneg: "0 \<le> base \<Longrightarrow> 0 \<le> retry_backoff_seconds a base"
  by (simp add: retry_backoff_seconds_def RETRY_BACKOFF_MULTIPLIER_def RETRY_BACKOFF_MAX_SECONDS_def)

definition spent_by :: "rat \<Rightarrow> rat \<Rightarrow> nat \<Rightarrow> rat" where
  "spent_by per_attempt base k =
     of_nat k * per_attempt + sum_list (map (\<lambda>a. retry_backoff_seconds a base) [0 ..< k])"

lemma spent_by_step: "spent_by w base (Suc k) = spent_by w base k + w + retry_backoff_seconds k base"
  by (simp add: spent_by_def algebra_simps)

lemma spent_by_mono: "0 \<le> w \<Longrightarrow> 0 \<le> base \<Longrightarrow> k \<le> n \<Longrightarrow> spent_by w base k \<le> spent_by w base n"
  by (rule lift_Suc_mono_le) (auto simp: spent_by_step retry_backoff_nonneg add_nonneg_nonneg)

lemma deadline_spent: "overall_deadline_seconds c r n base = spent_by (c + r) base n + (c + r) + 1"
  by (simp add: overall_deadline_seconds_def spent_by_def Let_def DEADLINE_SLACK_SECONDS_def algebra_simps)

definition retried :: "ustr \<Rightarrow> (nat \<Rightarrow> sdk_outcome \<times> rat) \<Rightarrow> nat \<Rightarrow> bool" where
  "retried model_id send a \<longleftrightarrow> (\<exists>e. judge model_id (fst (send a)) = Retry e)"

lemma send_with_retries_step:
  assumes deadline: "oa_deadline A = spent_by w (oa_backoff_base A) n + w + 1"
    and base: "0 \<le> oa_backoff_base A" and took: "0 \<le> snd (send k)" "snd (send k) \<le> w"
    and k: "k \<le> n" and now: "now \<le> spent_by w (oa_backoff_base A) k"
  shows "send_with_retries A m send now (k # ks) last_error =
    (case judge m (fst (send k)) of
       Decided r \<Rightarrow> (r, 1)
     | Retry e \<Rightarrow> if ks = [] then (Inl e, 1)
         else if oa_deadline A \<le> now + snd (send k) + retry_backoff_seconds k (oa_backoff_base A)
         then (Inl deadline_error, 1)
         else let (r, i) = send_with_retries A m send
                (now + snd (send k) + retry_backoff_seconds k (oa_backoff_base A)) ks (Some e) in (r, Suc i))"
proof -
  have "0 \<le> w" using took by linarith
  then have "now + snd (send k) < oa_deadline A"
    using spent_by_mono[OF _ base k, of w] now took deadline by linarith
  then show ?thesis by (simp add: Let_def case_prod_unfold not_le split: attempt_verdict.splits)
qed

lemma send_with_retries_decides:
  assumes deadline: "oa_deadline A = spent_by w (oa_backoff_base A) n + w + 1"
    and base: "0 \<le> oa_backoff_base A" and took: "\<And>a. 0 \<le> snd (send a) \<and> snd (send a) \<le> w"
  shows "k \<le> j \<Longrightarrow> j \<le> n \<Longrightarrow> now \<le> spent_by w (oa_backoff_base A) k \<Longrightarrow>
      \<forall>a. k \<le> a \<and> a < j \<longrightarrow> retried m send a \<Longrightarrow> (j < n \<longrightarrow> \<not> retried m send j) \<Longrightarrow>
      send_with_retries A m send now [k ..< Suc n] last_error =
        (case judge m (fst (send j)) of Decided r \<Rightarrow> r | Retry e \<Rightarrow> Inl e, Suc (j - k))"
proof (induction "j - k" arbitrary: k now last_error)
  case 0
  then have kj: "k = j" by simp
  have upt: "[j ..< Suc n] = j # [Suc j ..< Suc n]" using 0 by (simp add: upt_conv_Cons)
  have step: "send_with_retries A m send now (j # [Suc j ..< Suc n]) last_error =
     (case judge m (fst (send j)) of Decided r \<Rightarrow> (r, 1) | Retry e \<Rightarrow> (Inl e, 1))"
  proof (cases "judge m (fst (send j))")
    case (Retry e)
    then have "j = n" using 0 by (auto simp: retried_def)
    with Retry show ?thesis using send_with_retries_step[OF deadline base _ _ _ _, of send j now m "[]" last_error] took 0 kj
      by simp
  next
    case (Decided r)
    then show ?thesis using send_with_retries_step[OF deadline base _ _ _ _, of send j now m "[Suc j ..< Suc n]" last_error] took 0 kj
      by simp
  qed
  show ?case unfolding kj upt step by (simp split: attempt_verdict.splits)
next
  case (Suc d)
  then have kn: "k < n" "k < j" by simp_all
  then have upt: "[k ..< Suc n] = k # [Suc k ..< Suc n]" "[Suc k ..< Suc n] \<noteq> []"
    by (simp_all add: upt_conv_Cons)
  obtain e where e: "judge m (fst (send k)) = Retry e" using Suc.prems kn by (auto simp: retried_def)
  let ?now = "now + snd (send k) + retry_backoff_seconds k (oa_backoff_base A)"
  have now: "?now \<le> spent_by w (oa_backoff_base A) (Suc k)"
    using Suc.prems(3) took[of k] by (simp add: spent_by_step)
  have w: "0 \<le> w" using took[of k] by linarith
  have "?now < oa_deadline A" using now spent_by_mono[OF w base, of "Suc k" n] kn deadline w by linarith
  moreover have "send_with_retries A m send ?now [Suc k ..< Suc n] (Some e) =
      (case judge m (fst (send j)) of Decided r \<Rightarrow> r | Retry e \<Rightarrow> Inl e, Suc (j - Suc k))"
    using Suc now by (intro Suc.hyps(1)) auto
  ultimately show ?case unfolding upt(1)
    using send_with_retries_step[OF deadline base _ _ _ Suc.prems(3), of send m "[Suc k ..< Suc n]" last_error] took Suc.prems kn upt(2) e
    by (simp add: Suc_diff_Suc del: upt_Suc)
qed

lemma send_with_retries_bound: "snd (send_with_retries A m send now ks last_error) \<le> length ks"
proof (induction ks arbitrary: now last_error)
  case (Cons k ks)
  then show ?case by (auto simp: Let_def case_prod_unfold split: attempt_verdict.splits)
qed simp

text \<open>
  The OpenAI adapter retries exactly the transient failures. As long as no attempt exceeds its
  connect and read timeouts, the overall deadline never fires and the answer is that of the first
  attempt that is not a transient failure, reached by sending that many times; if all attempts
  fail, it is the last failure (\<open>j = n\<close>).
\<close>

theorem openai_retries_exact:
  fixes sdk :: "sdk_call \<Rightarrow> nat \<Rightarrow> sdk_outcome \<times> rat"
  assumes A: "A = mk_openai_adapter models connect_timeout read_timeout n alias base None" and base: "0 \<le> base"
    and model: "resolve_model U models (pr_model_alias request) = Inr model_id"
    and took: "\<And>c a. 0 \<le> snd (sdk c a) \<and> snd (sdk c a) \<le> connect_timeout + read_timeout"
    and before: "\<forall>a < j. retried model_id (sdk (openai_call request model_id)) a"
    and last: "j \<le> n" "j < n \<longrightarrow> \<not> retried model_id (sdk (openai_call request model_id)) j"
  shows "openai_complete U A sdk request =
    (case judge model_id (fst (sdk (openai_call request model_id) j)) of Decided r \<Rightarrow> r | Retry e \<Rightarrow> Inl e, Suc j)"
proof -
  have "oa_deadline A = spent_by (connect_timeout + read_timeout) (oa_backoff_base A) n + (connect_timeout + read_timeout) + 1"
    by (simp add: A mk_openai_adapter_def deadline_spent)
  from send_with_retries_decides[OF this, of "sdk (openai_call request model_id)" 0 j 0 model_id None]
  show ?thesis using base took before last model
    by (simp add: openai_complete_def A mk_openai_adapter_def spent_by_def del: upt_Suc)
qed

text \<open>Whatever the timing, it never sends more often than configured.\<close>

lemma openai_calls_bounded: "snd (openai_complete U A sdk request) \<le> Suc (oa_max_retries A)"
  using send_with_retries_bound by (auto simp: openai_complete_def split: sum.splits simp del: upt_Suc) (metis length_upt minus_nat.diff_0)


definition sample_registry :: "unit llm_provider list" where
  "sample_registry = [mock_provider MOCK_PROVIDER_ALIAS MOCK_MODEL_ID]"

theorem registry_lookup_exact_witness:
  "\<exists>d. registry_get ascii_ucd d (lit '' Mock'') = Inr (mock_provider MOCK_PROVIDER_ALIAS MOCK_MODEL_ID :: unit llm_provider)
     \<and> registry_get ascii_ucd d (lit ''openai'') = Inl (GatewayError PROVIDER_NOT_ALLOWED '''')"
proof -
  have "\<exists>d. registry_from_providers ascii_ucd sample_registry = Inr d"
    by (simp add: registry_from_providers_def sample_registry_def Let_def)
  then obtain d where d: "registry_from_providers ascii_ucd sample_registry = Inr d" by blast
  have "normalize_alias ascii_ucd (lit ''mock'') = lit ''mock''" "normalize_alias ascii_ucd (lit '' Mock'') = lit ''mock''"
    "normalize_alias ascii_ucd (lit ''openai'') = lit ''openai''" by code_simp+
  then show ?thesis
    using registry_lookup_exact[OF d, of "lit '' Mock''" "mock_provider MOCK_PROVIDER_ALIAS MOCK_MODEL_ID"]
      registry_lookup_exact[OF d, of "lit ''openai''"]
    by (auto simp: sample_registry_def mock_provider_def MOCK_PROVIDER_ALIAS_def)
qed

definition sample_protected :: protected_chat_request where
  "sample_protected = \<lparr>pr_request_id = 1, pr_tenant_id = 2, pr_session_id = 3, pr_provider_alias = lit ''openai'',
     pr_model_alias = lit ''fast'', pr_messages = [\<lparr>cm_role = RUser, cm_content = lit ''hello''\<rparr>],
     pr_policy_version = 1, pr_temperature = None, pr_max_output_tokens = None\<rparr>"

definition sample_sdk :: "sdk_call \<Rightarrow> nat \<Rightarrow> sdk_outcome \<times> rat" where
  "sample_sdk c a = (if a = 0 then APIConnectionError
     else SdkResponse \<lparr>sr_output = Some [Parts [\<lparr>sp_type = Some (lit ''output_text''), sp_text = Some (lit ''hi'')\<rparr>]],
            sr_model = None, sr_usage = None, sr_incomplete_reason = None, sr_status = None\<rparr>, 5)"

theorem openai_retries_exact_witness:
  "openai_complete ascii_ucd (mk_openai_adapter DEFAULT_OPENAI_MODELS 1 4 3 (lit ''openai'') (1 / 4) None) sample_sdk sample_protected =
     (Inr \<lparr>pv_content = Some (lit ''hi''), pv_model = Some (lit ''gpt-4o-mini''), pv_usage = None, pv_finish_reason = None\<rparr>, 2)"
proof -
  have fast: "normalize_alias ascii_ucd (lit ''fast'') = lit ''fast''" by code_simp
  have model: "resolve_model ascii_ucd DEFAULT_OPENAI_MODELS (pr_model_alias sample_protected) = Inr (lit ''gpt-4o-mini'')"
    by (simp add: resolve_model_def sample_protected_def fast[simplified] DEFAULT_OPENAI_MODELS_def)
  have "openai_complete ascii_ucd (mk_openai_adapter DEFAULT_OPENAI_MODELS 1 4 3 (lit ''openai'') (1 / 4) None) sample_sdk sample_protected =
     (case judge (lit ''gpt-4o-mini'') (fst (sample_sdk (openai_call sample_protected (lit ''gpt-4o-mini'')) 1)) of
        Decided r \<Rightarrow> r | Retry e \<Rightarrow> Inl e, Suc 1)"
    by (rule openai_retries_exact[OF refl _ model]) (auto simp: sample_sdk_def retried_def)
  then show ?thesis
    by (simp add: sample_sdk_def to_provider_response_def extract_output_text_def extract_usage_def
          extract_finish_reason_def truthy_def bindR_def)
qed

end
