(* ===== verification/Audit_Trail.thy ===== *)
theory Audit_Trail
  imports Correlation Llm Api_Keys
begin

text \<open>
  The audit trail: the validated record (\<^verbatim>\<open>app/audit/models.py\<close>), the bounded queue between the
  requests and the audit table (\<^verbatim>\<open>app/audit/service.py\<close>), the adapter the pipeline calls
  (\<^verbatim>\<open>app/audit/pipeline_adapter.py\<close>) and the repository (\<^verbatim>\<open>app/repositories/audit_events.py\<close>).
  The background writer is a task of its own: its steps and those of the requests interleave in
  the step relation below. Metrics and log lines are left out.
\<close>

section \<open>The record\<close>

definition MAX_KEY_CHARS :: nat where "MAX_KEY_CHARS = 64"
definition MAX_PROVIDER_ALIAS_CHARS :: nat where "MAX_PROVIDER_ALIAS_CHARS = 64"
definition MAX_MODEL_ALIAS_CHARS :: nat where "MAX_MODEL_ALIAS_CHARS = 128"
definition MAX_CODE_CHARS :: nat where "MAX_CODE_CHARS = 64"
definition MAX_DIGEST_CHARS :: nat where "MAX_DIGEST_CHARS = 128"
definition MIN_DIGEST_CHARS :: nat where "MIN_DIGEST_CHARS = 32"
definition MIN_STATUS_CODE :: int where "MIN_STATUS_CODE = 100"
definition MAX_STATUS_CODE :: int where "MAX_STATUS_CODE = 599"

lemmas audit_bounds = MAX_KEY_CHARS_def MAX_PROVIDER_ALIAS_CHARS_def MAX_MODEL_ALIAS_CHARS_def
  MAX_CODE_CHARS_def MAX_DIGEST_CHARS_def MIN_DIGEST_CHARS_def MIN_STATUS_CODE_def MAX_STATUS_CODE_def

text \<open>The three patterns are anchored with \<open>\A\<close> and \<open>\Z\<close>: no trailing line break is tolerated.\<close>

definition HEX_PATTERN :: "ustr \<Rightarrow> bool" where
  "HEX_PATTERN s \<longleftrightarrow> s \<noteq> [] \<and> list_all (\<lambda>c. ascii_digit c \<or> 97 \<le> c \<and> c \<le> 102) s"

definition CODE_PATTERN :: "ustr \<Rightarrow> bool" where
  "CODE_PATTERN s \<longleftrightarrow> 1 \<le> length s \<and> length s \<le> 64 \<and> list_all is_alias_char s"

definition COUNT_KEY_PATTERN :: "ustr \<Rightarrow> bool" where
  "COUNT_KEY_PATTERN s \<longleftrightarrow> 1 \<le> length s \<and> length s \<le> 64 \<and>
     list_all (\<lambda>c. ascii_digit c \<or> ascii_upper c \<or> ascii_lower c \<or> c = 95) s"

record audit_record =
  ar_tenant_id :: uuid
  ar_request_id :: uuid
  ar_status_code :: int
  ar_occurred_at :: "py_datetime option"
  ar_api_key_id :: "uuid option"
  ar_session_id_hash :: "ustr option"
  ar_policy_id :: "uuid option"
  ar_policy_version :: "int option"
  ar_provider_alias :: "ustr option"
  ar_model_alias :: "ustr option"
  ar_input_character_count :: int
  ar_output_character_count :: int
  ar_entity_counts :: "(ustr \<times> int) list"
  ar_actions :: "(ustr \<times> int) list"
  ar_blocked :: bool
  ar_block_reason_code :: "ustr option"
  ar_provider_latency_ms :: "int option"
  ar_pipeline_latency_ms :: "int option"
  ar_error_code :: "ustr option"
  ar_prompt_hmac :: "ustr option"
  ar_response_hmac :: "ustr option"
  ar_outbound_hmac :: "ustr option"
  ar_outbound_scan :: "ustr option"

definition require_non_negative :: "int \<Rightarrow> unit res" where
  "require_non_negative v = guardR (0 \<le> v) ValueError"

definition require_optional_non_negative :: "int option \<Rightarrow> unit res" where
  "require_optional_non_negative v = (case v of None \<Rightarrow> Inr () | Some n \<Rightarrow> require_non_negative n)"

definition require_code :: "ustr option \<Rightarrow> nat \<Rightarrow> unit res" where
  "require_code v maximum =
     (case v of None \<Rightarrow> Inr () | Some s \<Rightarrow> guardR (length s \<le> maximum \<and> CODE_PATTERN s) ValueError)"

definition require_digest :: "ustr option \<Rightarrow> nat \<Rightarrow> unit res" where
  "require_digest v maximum =
     (case v of None \<Rightarrow> Inr ()
      | Some s \<Rightarrow> guardR (MIN_DIGEST_CHARS \<le> length s \<and> length s \<le> maximum \<and> HEX_PATTERN s) ValueError)"

fun validated_counts :: "(ustr \<times> int) list \<Rightarrow> (ustr \<times> int) list res" where
  "validated_counts [] = Inr []"
| "validated_counts ((k, n) # counts) =
     (if \<not> COUNT_KEY_PATTERN k then Inl ValueError
      else if n < 0 then Inl ValueError
      else bindR (validated_counts counts) (\<lambda>rest. Inr ((k, n) # rest)))"

text \<open>\<open>AuditRecord.__post_init__\<close>: the checks in their order, then the copies of the counts.\<close>

definition audit_checks :: "audit_record \<Rightarrow> unit res list" where
  "audit_checks r =
     [guardR (MIN_STATUS_CODE \<le> ar_status_code r \<and> ar_status_code r \<le> MAX_STATUS_CODE) ValueError,
      guardR (case ar_occurred_at r of None \<Rightarrow> True | Some t \<Rightarrow> is_aware t) ValueError,
      require_non_negative (ar_input_character_count r),
      require_non_negative (ar_output_character_count r),
      require_optional_non_negative (ar_policy_version r),
      require_optional_non_negative (ar_provider_latency_ms r),
      require_optional_non_negative (ar_pipeline_latency_ms r),
      require_code (ar_provider_alias r) MAX_PROVIDER_ALIAS_CHARS,
      require_code (ar_model_alias r) MAX_MODEL_ALIAS_CHARS,
      require_code (ar_block_reason_code r) MAX_CODE_CHARS,
      require_code (ar_error_code r) MAX_CODE_CHARS,
      require_digest (ar_session_id_hash r) MAX_KEY_CHARS,
      require_digest (ar_prompt_hmac r) MAX_DIGEST_CHARS,
      require_digest (ar_response_hmac r) MAX_DIGEST_CHARS,
      require_digest (ar_outbound_hmac r) MAX_DIGEST_CHARS,
      require_code (ar_outbound_scan r) MAX_CODE_CHARS]"

definition mk_audit_record :: "audit_record \<Rightarrow> audit_record res" where
  "mk_audit_record r =
     bindR (traverseR (\<lambda>check. check) (audit_checks r)) (\<lambda>_.
       bindR (validated_counts (ar_entity_counts r)) (\<lambda>entity_counts.
         bindR (validated_counts (ar_actions r)) (\<lambda>actions.
           Inr (r\<lparr>ar_entity_counts := entity_counts, ar_actions := actions\<rparr>))))"

definition action_counts :: "privacy_summary \<Rightarrow> (ustr \<times> int) list" where
  "action_counts s =
     [(lit ''detected'', int (ps_detected s)), (lit ''tokenized'', int (ps_tokenized s)),
      (lit ''redacted'', int (ps_redacted s)), (lit ''pseudonymized'', int (ps_pseudonymized s)),
      (lit ''blocked'', int (ps_blocked s)), (lit ''allowed'', int (ps_allowed s)),
      (lit ''restored'', int (ps_restored s)), (lit ''unknown_tokens'', int (ps_unknown_tokens s))]"

definition counts_from_summary :: "privacy_summary \<Rightarrow> (ustr \<times> int) list \<times> (ustr \<times> int) list" where
  "counts_from_summary s = (map (\<lambda>(t, n). (t, int n)) (ps_entity_types s), action_counts s)"

section \<open>The service\<close>

definition to_draft :: "audit_record \<Rightarrow> audit_record" where
  "to_draft r = \<lparr>ar_tenant_id = ar_tenant_id r, ar_request_id = ar_request_id r, ar_status_code = ar_status_code r,
     ar_occurred_at = ar_occurred_at r, ar_api_key_id = ar_api_key_id r, ar_session_id_hash = ar_session_id_hash r,
     ar_policy_id = ar_policy_id r, ar_policy_version = ar_policy_version r, ar_provider_alias = ar_provider_alias r,
     ar_model_alias = ar_model_alias r, ar_input_character_count = ar_input_character_count r,
     ar_output_character_count = ar_output_character_count r, ar_entity_counts = ar_entity_counts r,
     ar_actions = ar_actions r, ar_blocked = ar_blocked r, ar_block_reason_code = ar_block_reason_code r,
     ar_provider_latency_ms = ar_provider_latency_ms r, ar_pipeline_latency_ms = ar_pipeline_latency_ms r,
     ar_error_code = ar_error_code r, ar_prompt_hmac = ar_prompt_hmac r, ar_response_hmac = ar_response_hmac r,
     ar_outbound_hmac = ar_outbound_hmac r, ar_outbound_scan = ar_outbound_scan r\<rparr>"

text \<open>
  \<open>as_running\<close> is whether a writer task exists, \<open>as_writing\<close> the record it has taken from the
  queue and not yet finished.
\<close>

record audit_service =
  as_fail_closed :: bool
  as_capacity :: nat
  as_queue :: "audit_record list"
  as_degraded :: bool
  as_stopped :: bool
  as_running :: bool
  as_writing :: "audit_record option"

definition mk_audit_service :: "bool \<Rightarrow> int \<Rightarrow> audit_service res" where
  "mk_audit_service fail_closed max_queue_size =
     (if max_queue_size < 1 then Inl ValueError
      else Inr \<lparr>as_fail_closed = fail_closed, as_capacity = nat max_queue_size, as_queue = [], as_degraded = False,
                as_stopped = False, as_running = False, as_writing = None\<rparr>)"

definition audit_start :: "audit_service \<Rightarrow> audit_service" where
  "audit_start s = (if as_running s then s else s\<lparr>as_stopped := False, as_running := True\<rparr>)"

definition audit_refuse :: "string \<Rightarrow> (audit_service, unit) op" where
  "audit_refuse reason s =
     (if as_fail_closed s then (Inl (GatewayError AUDIT_UNAVAILABLE reason), s) else (Inr (), s))"

definition stamped :: "int \<Rightarrow> audit_record \<Rightarrow> audit_record" where
  "stamped now r = (case ar_occurred_at r of Some _ \<Rightarrow> r | None \<Rightarrow> r\<lparr>ar_occurred_at := Some (Aware now)\<rparr>)"

definition submit :: "int \<Rightarrow> audit_record \<Rightarrow> (audit_service, unit) op" where
  "submit now r s =
     (if as_stopped s then audit_refuse ''shutdown'' s
      else if as_capacity s \<le> length (as_queue s) then audit_refuse ''queue_full'' s
      else let s1 = s\<lparr>as_queue := as_queue s @ [stamped now r]\<rparr>
           in if as_degraded s1 \<and> as_fail_closed s1 then (Inl (GatewayError AUDIT_UNAVAILABLE ''degraded''), s1)
              else (Inr (), s1))"

text \<open>
  The writer: \<open>queue.get\<close>, then the end of \<open>_write\<close>, with the verdict of the sink. \<open>stop\<close> first
  refuses new work; when the drain is over or has timed out it cancels the writer, and with it
  the write in progress.
\<close>

definition writer_take :: "audit_service \<Rightarrow> (audit_record \<times> audit_service) option" where
  "writer_take s =
     (if as_running s \<and> as_writing s = None
      then (case as_queue s of [] \<Rightarrow> None | r # rs \<Rightarrow> Some (r, s\<lparr>as_queue := rs, as_writing := Some r\<rparr>))
      else None)"

definition writer_finish :: "bool \<Rightarrow> audit_service \<Rightarrow> audit_service" where
  "writer_finish ok s = s\<lparr>as_degraded := \<not> ok, as_writing := None\<rparr>"

definition audit_stop_accepting :: "audit_service \<Rightarrow> audit_service" where
  "audit_stop_accepting s = s\<lparr>as_stopped := True\<rparr>"

definition audit_cancel_writer :: "audit_service \<Rightarrow> audit_service" where
  "audit_cancel_writer s = s\<lparr>as_running := False, as_writing := None\<rparr>"

section \<open>The adapter\<close>

text \<open>The field bag the pipeline passes; \<open>None\<close> for the status is a bag without that key.\<close>

record audit_fields =
  af_record :: audit_record
  af_status_code :: "int option"
  af_session_id :: "uuid option"

definition DEFAULT_STATUS_CODE :: int where "DEFAULT_STATUS_CODE = 500"

definition adapter_record :: "(bytes \<Rightarrow> bytes \<Rightarrow> bytes) \<Rightarrow> bytes \<Rightarrow> int \<Rightarrow> audit_fields \<Rightarrow> (audit_service, unit) op" where
  "adapter_record hmac key now bag =
     (let passed = (af_record bag)\<lparr>ar_session_id_hash := None,
            ar_status_code := (case af_status_code bag of Some c \<Rightarrow> c | None \<Rightarrow> DEFAULT_STATUS_CODE)\<rparr> in
      bindS (liftS (case af_session_id bag of
                 None \<Rightarrow> Inr None
               | Some session_id \<Rightarrow> bindR (session_digest hmac key (ar_tenant_id passed) session_id) (\<lambda>d. Inr (Some d))))
        (\<lambda>session_hash.
          bindS (liftS (mk_audit_record (passed\<lparr>ar_session_id_hash := session_hash\<rparr>))) (\<lambda>r. submit now r)))"

section \<open>The repository\<close>

record audit_event = audit_record +
  ae_id :: uuid

definition audit_event_of :: "uuid \<Rightarrow> py_datetime \<Rightarrow> audit_record \<Rightarrow> audit_event" where
  "audit_event_of event_id occurred_at draft =
     audit_record.extend (draft\<lparr>ar_occurred_at := Some occurred_at\<rparr>) \<lparr>ae_id = event_id\<rparr>"

definition audit_record_event :: "('s, audit_event) table_ops \<Rightarrow> int \<Rightarrow> uuid \<Rightarrow> audit_record \<Rightarrow> ('s, audit_event) op" where
  "audit_record_event tb now event_id draft =
     (let occurred_at = (case ar_occurred_at draft of Some t \<Rightarrow> t | None \<Rightarrow> Aware now)
      in if \<not> is_aware occurred_at then liftS (Inl ValueError)
         else let event = audit_event_of event_id occurred_at draft
              in bindS (tb_insert tb event) (\<lambda>_. liftS (Inr event)))"

definition event_time :: "audit_event \<Rightarrow> int" where
  "event_time e = (case ar_occurred_at e of Some t \<Rightarrow> instant t | None \<Rightarrow> 0)"

definition audit_list_for_tenant :: "('s, audit_event) table_ops \<Rightarrow> uuid \<Rightarrow> int option \<Rightarrow> int option \<Rightarrow> int \<Rightarrow> int \<Rightarrow>
    ('s, audit_event list) op" where
  "audit_list_for_tenant tb tenant_id since until limit offset =
     (if limit < 1 \<or> 1000 < limit then liftS (Inl ValueError)
      else if offset < 0 then liftS (Inl ValueError)
      else bindS (tb_select tb (\<lambda>e. ar_tenant_id e = tenant_id
               \<and> (case since of None \<Rightarrow> True | Some t \<Rightarrow> t \<le> event_time e)
               \<and> (case until of None \<Rightarrow> True | Some t \<Rightarrow> event_time e < t))) (\<lambda>events.
             liftS (Inr (take (nat limit) (drop (nat offset) (sort_key (\<lambda>e. - event_time e) events))))))"

definition audit_get :: "('s, audit_event) table_ops \<Rightarrow> uuid \<Rightarrow> uuid \<Rightarrow> ('s, audit_event option) op" where
  "audit_get tb tenant_id event_id = select_one tb (\<lambda>e. ar_tenant_id e = tenant_id \<and> ae_id e = event_id)"

lemma require_code_Inr: "require_code v m = Inr u \<longleftrightarrow> (\<forall>s. v = Some s \<longrightarrow> length s \<le> m \<and> CODE_PATTERN s)"
  by (cases v) (auto simp: require_code_def result_simps)

lemma require_digest_Inr:
  "require_digest v m = Inr u \<longleftrightarrow> (\<forall>s. v = Some s \<longrightarrow> 32 \<le> length s \<and> length s \<le> m \<and> HEX_PATTERN s)"
  by (cases v) (auto simp: require_digest_def result_simps audit_bounds)

lemma validated_counts_Inr:
  "validated_counts kvs = Inr d \<longleftrightarrow> d = kvs \<and> (\<forall>(k, n) \<in> set kvs. COUNT_KEY_PATTERN k \<and> 0 \<le> n)"
proof (induction kvs arbitrary: d)
  case (Cons kv kvs)
  then show ?case by (cases kv) (auto simp: bindR_Inr not_less)
qed auto

section \<open>What a record can hold\<close>

text \<open>
  C38. An audit record cannot carry text: whatever the caller supplies, a record that is accepted
  holds in its five code fields only runs of one to 64 letters, digits, dots, underscores, colons
  and dashes, in its four digest fields only lower-case hexadecimal of 32 to 128 digits, and in
  its two count maps only names of letters, digits and underscores with counts that are not
  negative. Nothing else in it is a string.
\<close>

theorem audit_record_carries_no_text:
  assumes "mk_audit_record r = Inr a"
  shows "a = r
    \<and> (\<forall>s. Some s \<in> {ar_provider_alias a, ar_model_alias a, ar_block_reason_code a, ar_error_code a, ar_outbound_scan a} \<longrightarrow>
          1 \<le> length s \<and> length s \<le> 64 \<and> (\<forall>c \<in> set s. is_alias_char c))
    \<and> (\<forall>s. Some s \<in> {ar_session_id_hash a, ar_prompt_hmac a, ar_response_hmac a, ar_outbound_hmac a} \<longrightarrow>
          32 \<le> length s \<and> length s \<le> 128 \<and> (\<forall>c \<in> set s. ascii_digit c \<or> 97 \<le> c \<and> c \<le> 102))
    \<and> (\<forall>(k, n) \<in> set (ar_entity_counts a) \<union> set (ar_actions a). 0 \<le> n \<and> 1 \<le> length k \<and> length k \<le> 64
          \<and> (\<forall>c \<in> set k. ascii_digit c \<or> ascii_upper c \<or> ascii_lower c \<or> c = 95))"
proof -
  obtain us e1 e2 where checks: "list_all2 (\<lambda>c u. c = Inr u) (audit_checks r) us"
    and e: "validated_counts (ar_entity_counts r) = Inr e1" "validated_counts (ar_actions r) = Inr e2"
    and a: "a = r\<lparr>ar_entity_counts := e1, ar_actions := e2\<rparr>"
    using assms by (auto simp: mk_audit_record_def bindR_Inr traverseR_Inr)
  have counts: "e1 = ar_entity_counts r" "e2 = ar_actions r" using e by (simp_all add: validated_counts_Inr)
  with a have eq: "a = r" by simp
  have ok: "\<forall>c \<in> set (audit_checks r). c = Inr ()"
    using checks by (auto simp: list_all2_conv_all_nth in_set_conv_nth)
  have "\<forall>s. Some s \<in> {ar_provider_alias r, ar_model_alias r, ar_block_reason_code r, ar_error_code r, ar_outbound_scan r} \<longrightarrow>
      CODE_PATTERN s"
    using ok by (auto simp: audit_checks_def require_code_Inr)
  then have codes: "\<forall>s. Some s \<in> {ar_provider_alias a, ar_model_alias a, ar_block_reason_code a, ar_error_code a, ar_outbound_scan a} \<longrightarrow>
      1 \<le> length s \<and> length s \<le> 64 \<and> (\<forall>c \<in> set s. is_alias_char c)"
    unfolding eq CODE_PATTERN_def list_all_iff .
  have "require_digest (ar_session_id_hash r) 64 = Inr ()" and d: "require_digest (ar_prompt_hmac r) 128 = Inr ()"
    "require_digest (ar_response_hmac r) 128 = Inr ()" "require_digest (ar_outbound_hmac r) 128 = Inr ()"
    using ok by (simp_all add: audit_checks_def MAX_KEY_CHARS_def MAX_DIGEST_CHARS_def)
  then have "require_digest (ar_session_id_hash r) 128 = Inr ()" by (auto simp: require_digest_Inr)
  note d = this[unfolded require_digest_Inr] d[unfolded require_digest_Inr]
  have "\<forall>s. Some s \<in> {ar_session_id_hash r, ar_prompt_hmac r, ar_response_hmac r, ar_outbound_hmac r} \<longrightarrow>
      32 \<le> length s \<and> length s \<le> 128 \<and> HEX_PATTERN s"
    by (intro allI impI, elim insertE emptyE) (simp_all only: d[rule_format, OF sym])
  then have digests: "\<forall>s. Some s \<in> {ar_session_id_hash a, ar_prompt_hmac a, ar_response_hmac a, ar_outbound_hmac a} \<longrightarrow>
      32 \<le> length s \<and> length s \<le> 128 \<and> (\<forall>c \<in> set s. ascii_digit c \<or> 97 \<le> c \<and> c \<le> 102)"
    unfolding eq HEX_PATTERN_def list_all_iff by blast
  have "\<forall>(k, n) \<in> set (ar_entity_counts r). COUNT_KEY_PATTERN k \<and> 0 \<le> n"
    "\<forall>(k, n) \<in> set (ar_actions r). COUNT_KEY_PATTERN k \<and> 0 \<le> n"
    using e by (simp_all add: validated_counts_Inr)
  then have "\<forall>(k, n) \<in> set (ar_entity_counts a) \<union> set (ar_actions a). 0 \<le> n \<and> 1 \<le> length k \<and> length k \<le> 64
          \<and> (\<forall>c \<in> set k. ascii_digit c \<or> ascii_upper c \<or> ascii_lower c \<or> c = 95)"
    unfolding eq COUNT_KEY_PATTERN_def list_all_iff ball_Un by fast
  with codes digests eq show ?thesis by (intro conjI)
qed

section \<open>The life of the service\<close>

text \<open>
  What can happen to a service, in any interleaving: a submission (with whether the record entered
  the queue, and how the call ended), a step of the writer, and the phases of its life.
\<close>

datatype audit_label =
    Submitted audit_record bool "unit res"
  | Took audit_record
  | Finished audit_record bool
  | Started
  | Stopping
  | Cancelled "audit_record option"

inductive audit_step :: "audit_service \<Rightarrow> audit_label \<Rightarrow> audit_service \<Rightarrow> bool" where
  step_submit: "submit now r s = (res, s') \<Longrightarrow>
     audit_step s (Submitted (stamped now r) (as_queue s' \<noteq> as_queue s) res) s'"
| step_take: "writer_take s = Some (r, s') \<Longrightarrow> audit_step s (Took r) s'"
| step_finish: "as_writing s = Some r \<Longrightarrow> audit_step s (Finished r ok) (writer_finish ok s)"
| step_start: "audit_step s Started (audit_start s)"
| step_stop: "audit_step s Stopping (audit_stop_accepting s)"
| step_cancel: "as_stopped s \<Longrightarrow> as_running s \<Longrightarrow> audit_step s (Cancelled (as_writing s)) (audit_cancel_writer s)"

inductive audit_run :: "audit_service \<Rightarrow> audit_label list \<Rightarrow> audit_service \<Rightarrow> bool" where
  run_nil: "audit_run s [] s"
| run_snoc: "audit_run s ls s' \<Longrightarrow> audit_step s' l s'' \<Longrightarrow> audit_run s (ls @ [l]) s''"

inductive_cases audit_stepE: "audit_step s l s'"
inductive_cases audit_run_snocE: "audit_run s (ls @ [l]) s'"

text \<open>
  Of a history: the records that entered the queue, those that left the writer (delivered to the
  sink, refused by it, or cut off with the writer), and the verdict of the last write, if any.
\<close>

fun entered :: "audit_label list \<Rightarrow> audit_record list" where
  "entered [] = []"
| "entered (Submitted r True res # ls) = r # entered ls"
| "entered (l # ls) = entered ls"

fun handled :: "audit_label list \<Rightarrow> audit_record list" where
  "handled [] = []"
| "handled (Finished r ok # ls) = r # handled ls"
| "handled (Cancelled (Some r) # ls) = r # handled ls"
| "handled (l # ls) = handled ls"

definition last_write_failed :: "audit_label list \<Rightarrow> bool" where
  "last_write_failed ls = foldl (\<lambda>b l. case l of Finished r ok \<Rightarrow> \<not> ok | _ \<Rightarrow> b) False ls"

lemma entered_append [simp]: "entered (ls @ ms) = entered ls @ entered ms"
  by (induction ls rule: entered.induct) auto

lemma handled_append [simp]: "handled (ls @ ms) = handled ls @ handled ms"
  by (induction ls rule: handled.induct) auto

lemma last_write_snoc:
  "last_write_failed [] = False"
  "last_write_failed (ls @ [l]) = (case l of Finished r ok \<Rightarrow> \<not> ok | _ \<Rightarrow> last_write_failed ls)"
  by (simp_all add: last_write_failed_def split: audit_label.splits)

text \<open>The queue after a submission, in the three ways it can end.\<close>

lemma submit_cases:
  assumes "submit now r s = (res, s')"
  obtains (refused) "s' = s" "as_fail_closed s \<longrightarrow> (\<exists>reason. res = Inl (GatewayError AUDIT_UNAVAILABLE reason))"
  | (queued) "s' = s\<lparr>as_queue := as_queue s @ [stamped now r]\<rparr>" "length (as_queue s) < as_capacity s" "\<not> as_stopped s"
      "res = (if as_degraded s \<and> as_fail_closed s then Inl (GatewayError AUDIT_UNAVAILABLE ''degraded'') else Inr ())"
  using assms
  by (cases "as_stopped s \<or> as_capacity s \<le> length (as_queue s)")
     (auto simp: submit_def audit_refuse_def Let_def split: if_splits)

definition audit_inv :: "audit_service \<Rightarrow> audit_label list \<Rightarrow> audit_service \<Rightarrow> bool" where
  "audit_inv s0 ls s \<longleftrightarrow>
     as_fail_closed s = as_fail_closed s0 \<and> as_capacity s = as_capacity s0
     \<and> length (as_queue s) \<le> as_capacity s
     \<and> entered ls = handled ls @ (case as_writing s of None \<Rightarrow> [] | Some r \<Rightarrow> [r]) @ as_queue s
     \<and> as_degraded s = last_write_failed ls"

lemma audit_inv_step: "audit_inv s0 ls s \<Longrightarrow> audit_step s l s' \<Longrightarrow> audit_inv s0 (ls @ [l]) s'"
proof (erule audit_stepE, goal_cases)
  case (1 now r res)
  from 1(3) show ?case
  proof (cases rule: submit_cases)
    case refused
    then show ?thesis using 1 by (simp add: audit_inv_def last_write_snoc)
  next
    case queued
    then show ?thesis using 1 by (auto simp: audit_inv_def last_write_snoc)
  qed
next
  case (2 r)
  then show ?case
    by (auto simp: audit_inv_def writer_take_def last_write_snoc split: if_splits list.splits)
qed (auto simp: audit_inv_def writer_finish_def audit_start_def audit_stop_accepting_def audit_cancel_writer_def
      last_write_snoc split: option.splits)

lemma audit_run_inv:
  "audit_run s0 ls s \<Longrightarrow> mk_audit_service fail_closed n = Inr s0 \<Longrightarrow> audit_inv s0 ls s"
proof (induction rule: audit_run.induct)
  case (run_nil s)
  then show ?case by (auto simp: audit_inv_def mk_audit_service_def last_write_snoc split: if_splits)
next
  case (run_snoc s ls s' l s'')
  then show ?case using audit_inv_step by blast
qed


text \<open>
  Fail closed means what it says: in a fail-closed service, a submission that returns has put
  its record, stamped, at the end of the queue, and no write since the last success has failed.
  A service whose queue is full, that is stopping, or whose last write failed, refuses.
\<close>

theorem audit_fail_closed:
  assumes "mk_audit_service True n = Inr s0" "audit_run s0 ls s" "submit now r s = (Inr (), s')"
  shows "as_queue s' = as_queue s @ [stamped now r] \<and> \<not> last_write_failed ls
    \<and> \<not> as_stopped s \<and> length (as_queue s) < nat n"
proof -
  have inv: "audit_inv s0 ls s" by (rule audit_run_inv[OF assms(2,1)])
  have s0: "as_fail_closed s0" "as_capacity s0 = nat n"
    using assms(1) by (auto simp: mk_audit_service_def split: if_splits)
  from assms(3) show ?thesis
  proof (cases rule: submit_cases)
    case refused
    then show ?thesis using inv s0 by (simp add: audit_inv_def)
  next
    case queued
    then show ?thesis using inv s0 by (auto simp: audit_inv_def split: if_splits)
  qed
qed

definition sample_audit_record :: audit_record where
  "sample_audit_record = \<lparr>ar_tenant_id = 1, ar_request_id = 2, ar_status_code = 200, ar_occurred_at = Some (Aware 7),
     ar_api_key_id = None, ar_session_id_hash = Some (replicate 64 97), ar_policy_id = None, ar_policy_version = Some 3,
     ar_provider_alias = Some (lit ''mock''), ar_model_alias = Some (lit ''fast''), ar_input_character_count = 5,
     ar_output_character_count = 9, ar_entity_counts = [(lit ''PERSON'', 1)], ar_actions = [(lit ''tokenized'', 1)],
     ar_blocked = False, ar_block_reason_code = None, ar_provider_latency_ms = Some 4, ar_pipeline_latency_ms = Some 6,
     ar_error_code = None, ar_prompt_hmac = None, ar_response_hmac = None, ar_outbound_hmac = None,
     ar_outbound_scan = Some (lit ''clean'')\<rparr>"

theorem audit_record_carries_no_text_witness:
  "mk_audit_record sample_audit_record = Inr sample_audit_record
    \<and> length (the (ar_outbound_scan sample_audit_record)) \<le> 64"
proof -
  have a: "mk_audit_record sample_audit_record = Inr sample_audit_record"
    by (simp add: mk_audit_record_def audit_checks_def sample_audit_record_def require_non_negative_def
        require_optional_non_negative_def require_code_def require_digest_def audit_bounds CODE_PATTERN_def
        HEX_PATTERN_def COUNT_KEY_PATTERN_def is_alias_char_def ascii_defs bindR_def list_all_iff)
  obtain s where "ar_outbound_scan sample_audit_record = Some s" by (simp add: sample_audit_record_def)
  then show ?thesis using a audit_record_carries_no_text[OF a] by auto
qed

definition idle_service :: audit_service where
  "idle_service = \<lparr>as_fail_closed = True, as_capacity = 2, as_queue = [], as_degraded = False,
     as_stopped = False, as_running = False, as_writing = None\<rparr>"

definition sample_history :: "audit_label list" where
  "sample_history = [Submitted sample_audit_record True (Inr ()), Started, Took sample_audit_record,
     Finished sample_audit_record True]"

lemma sample_stamped: "stamped 0 sample_audit_record = sample_audit_record"
  by (simp add: stamped_def sample_audit_record_def)

lemma sample_audit_run:
  "mk_audit_service True 2 = Inr idle_service"
  "audit_run idle_service sample_history (idle_service\<lparr>as_running := True\<rparr>)"
proof -
  show "mk_audit_service True 2 = Inr idle_service" by (simp add: mk_audit_service_def idle_service_def)
  let ?r = sample_audit_record and ?s = idle_service
  have "audit_step ?s (Submitted ?r True (Inr ())) (?s\<lparr>as_queue := [?r]\<rparr>)"
    using step_submit[of 0 ?r ?s "Inr ()" "?s\<lparr>as_queue := [?r]\<rparr>"]
    by (simp add: submit_def idle_service_def sample_stamped)
  moreover have "audit_step (?s\<lparr>as_queue := [?r]\<rparr>) Started (?s\<lparr>as_queue := [?r], as_running := True\<rparr>)"
    using step_start[of "?s\<lparr>as_queue := [?r]\<rparr>"] by (simp add: audit_start_def idle_service_def)
  moreover have "audit_step (?s\<lparr>as_queue := [?r], as_running := True\<rparr>) (Took ?r) (?s\<lparr>as_running := True, as_writing := Some ?r\<rparr>)"
    by (rule step_take) (simp add: writer_take_def idle_service_def)
  moreover have "audit_step (?s\<lparr>as_running := True, as_writing := Some ?r\<rparr>) (Finished ?r True) (?s\<lparr>as_running := True\<rparr>)"
    using step_finish[of "?s\<lparr>as_running := True, as_writing := Some ?r\<rparr>" ?r True]
    by (simp add: writer_finish_def idle_service_def)
  ultimately have "audit_run ?s ((((([] @ [Submitted ?r True (Inr ())]) @ [Started]) @ [Took ?r]) @ [Finished ?r True]))
      (?s\<lparr>as_running := True\<rparr>)"
    by (intro run_snoc) (simp_all add: run_nil)
  then show "audit_run ?s sample_history (?s\<lparr>as_running := True\<rparr>)" by (simp add: sample_history_def)
qed


theorem audit_fail_closed_witness:
  "\<exists>s'. submit 0 sample_audit_record (idle_service\<lparr>as_running := True\<rparr>) = (Inr (), s')
     \<and> as_queue s' = [sample_audit_record] \<and> \<not> last_write_failed sample_history"
proof -
  have "submit 0 sample_audit_record (idle_service\<lparr>as_running := True\<rparr>)
      = (Inr (), idle_service\<lparr>as_running := True, as_queue := [sample_audit_record]\<rparr>)"
    by (simp add: submit_def idle_service_def sample_stamped)
  from audit_fail_closed[OF sample_audit_run this] this show ?thesis by (simp add: sample_stamped idle_service_def)
qed

end
