(* ===== verification/Rate_Limit.thy ===== *)
theory Rate_Limit
  imports Principals Framing
begin

text \<open>
  Sliding-window rate limiting, \<^verbatim>\<open>app/auth/rate_limit.py\<close>: rules and decisions, the in-memory
  limiter and the limiter over Redis sorted sets. The interface \<open>sliding_window\<close> states what
  each check promises of its log of admitted requests; from it follows, for both limiters, that
  no window of the configured length ever admits more than the limit.
  The monotonic clock of the in-memory limiter returns a rational number of seconds. Redis is
  not part of the repository: its sorted-set commands are a record of operations, and
  \<open>zset_laws\<close> states their documented effect. The expiry of a whole key is left out: it
  removes a bucket only when every member is older than the window.
\<close>

section \<open>Rules and decisions\<close>

record rate_rule =
  rl_limit :: nat
  rl_window_seconds :: nat

definition mk_rate_rule :: "int \<Rightarrow> int \<Rightarrow> rate_rule res" where
  "mk_rate_rule limit window =
     (if limit < 1 then Inl ValueError
      else if window < 1 then Inl ValueError
      else Inr \<lparr>rl_limit = nat limit, rl_window_seconds = nat window\<rparr>)"

definition wf_rule :: "rate_rule \<Rightarrow> bool" where
  "wf_rule r \<longleftrightarrow> 0 < rl_limit r \<and> 0 < rl_window_seconds r"

definition window_ms :: "rate_rule \<Rightarrow> int" where
  "window_ms r = int (rl_window_seconds r) * 1000"

definition DEFAULT_TENANT_RULE :: rate_rule where
  "DEFAULT_TENANT_RULE = \<lparr>rl_limit = 600, rl_window_seconds = 60\<rparr>"

definition DEFAULT_API_KEY_RULE :: rate_rule where
  "DEFAULT_API_KEY_RULE = \<lparr>rl_limit = 120, rl_window_seconds = 60\<rparr>"

datatype bucket = BUCKET_TENANT | BUCKET_API_KEY

datatype limit_reason = WITHIN_LIMIT | LIMIT_EXCEEDED | BACKEND_UNAVAILABLE | NOT_CONFIGURED

fun limit_reason_value :: "limit_reason \<Rightarrow> string" where
  "limit_reason_value WITHIN_LIMIT = ''within_limit''"
| "limit_reason_value LIMIT_EXCEEDED = ''rate_limit_exceeded''"
| "limit_reason_value BACKEND_UNAVAILABLE = ''rate_limit_backend_unavailable''"
| "limit_reason_value NOT_CONFIGURED = ''rate_limiter_not_configured''"

record rate_decision =
  rd_allowed :: bool
  rd_bucket :: bucket
  rd_limit :: nat
  rd_remaining :: nat
  rd_retry_after_seconds :: int
  rd_reason :: limit_reason

definition BACKEND_ERROR_RETRY_AFTER_SECONDS :: int where
  "BACKEND_ERROR_RETRY_AFTER_SECONDS = 5"

definition backend_failure_decision :: "bool \<Rightarrow> rate_decision" where
  "backend_failure_decision fail_open =
     \<lparr>rd_allowed = fail_open, rd_bucket = BUCKET_TENANT, rd_limit = 0, rd_remaining = 0,
      rd_retry_after_seconds = BACKEND_ERROR_RETRY_AFTER_SECONDS, rd_reason = BACKEND_UNAVAILABLE\<rparr>"

definition not_configured_decision :: rate_decision where
  "not_configured_decision =
     \<lparr>rd_allowed = False, rd_bucket = BUCKET_TENANT, rd_limit = 0, rd_remaining = 0,
      rd_retry_after_seconds = BACKEND_ERROR_RETRY_AFTER_SECONDS, rd_reason = NOT_CONFIGURED\<rparr>"

text \<open>\<open>enforce\<close>: a denied decision becomes the public error.\<close>

definition enforce :: "(principal \<Rightarrow> 's \<Rightarrow> rate_decision \<times> 's) \<Rightarrow> principal \<Rightarrow> ('s, rate_decision) op" where
  "enforce acquire p s =
     (let (d, s') = acquire p s in
      if \<not> rd_allowed d then (Inl (GatewayError RATE_LIMIT_EXCEEDED (limit_reason_value (rd_reason d))), s')
      else (Inr d, s'))"

text \<open>\<open>math.ceil(x / 1000)\<close> on integers.\<close>

definition retry_after :: "int option \<Rightarrow> int \<Rightarrow> rate_rule \<Rightarrow> int" where
  "retry_after oldest_ms now_ms r =
     (case oldest_ms of
        None \<Rightarrow> int (rl_window_seconds r)
      | Some t \<Rightarrow> max 1 (- ((- (t + window_ms r - now_ms)) div 1000)))"

lemma mk_rate_rule_wf: "mk_rate_rule l w = Inr r \<Longrightarrow> wf_rule r"
  by (auto simp: mk_rate_rule_def wf_rule_def split: if_splits)

lemma length_filter_mono: "(\<And>x. x \<in> set xs \<Longrightarrow> P x \<Longrightarrow> Q x) \<Longrightarrow> length (filter P xs) \<le> length (filter Q xs)"
  by (induction xs) auto

lemma ceil_div_bounds: "(x::int) \<le> - ((- x) div 1000) * 1000" "(- ((- x) div 1000) - 1) * 1000 < x"
  using div_mult_mod_eq[of "- x" 1000] pos_mod_bound[of 1000 "- x"] pos_mod_sign[of 1000 "- x"]
  by (simp_all add: algebra_simps)

section \<open>The interface of a sliding-window log\<close>

text \<open>Serve requests at the given times; the answer to each, and the times one bucket admitted.\<close>

fun serve :: "('t \<Rightarrow> principal \<Rightarrow> 's \<Rightarrow> bool \<times> 's) \<Rightarrow> ('t \<times> principal) list \<Rightarrow> 's \<Rightarrow> bool list \<times> 's" where
  "serve acquire [] s = ([], s)"
| "serve acquire ((now, p) # reqs) s =
     (let (a, s1) = acquire now p s; (answers, s2) = serve acquire reqs s1 in (a # answers, s2))"

definition admitted_at :: "(principal \<Rightarrow> 'b set) \<Rightarrow> 'b \<Rightarrow> ('t \<times> principal) list \<Rightarrow> bool list \<Rightarrow> 't list" where
  "admitted_at buckets b reqs as = map (fst \<circ> fst) (filter (\<lambda>((t, p), a). a \<and> b \<in> buckets p) (zip reqs as))"

text \<open>
  \<open>acquire now p s\<close> answers whether the request is admitted. \<open>hits s b\<close> are the logged times of
  a bucket; a check may forget times that have left the window and nothing else, admits only
  below the limit in every bucket of the principal, and then logs the time in each.
\<close>

locale sliding_window =
  fixes acquire :: "'t::linordered_idom \<Rightarrow> principal \<Rightarrow> 's \<Rightarrow> bool \<times> 's"
    and buckets :: "principal \<Rightarrow> 'b set"
    and hits :: "'s \<Rightarrow> 'b \<Rightarrow> 't list"
    and limit :: "'b \<Rightarrow> nat"
    and window :: "'b \<Rightarrow> 't"
    and ok :: "'s \<Rightarrow> bool"
  assumes keeps_ok: "ok s \<Longrightarrow> acquire now p s = (a, s') \<Longrightarrow> ok s'"
    and below_limit: "ok s \<Longrightarrow> acquire now p s = (True, s') \<Longrightarrow> b \<in> buckets p \<Longrightarrow>
      length (filter (\<lambda>t. now - window b < t) (hits s b)) < limit b"
    and logs: "ok s \<Longrightarrow> acquire now p s = (a, s') \<Longrightarrow>
      mset (filter (\<lambda>t. now - window b < t) (hits s b)) + (if a \<and> b \<in> buckets p then {#now#} else {#})
        \<subseteq># mset (hits s' b)"
begin

definition windows_ok :: "'b \<Rightarrow> 't list \<Rightarrow> bool" where
  "windows_ok b ts \<longleftrightarrow> (\<forall>a. length (filter (\<lambda>t. a < t \<and> t \<le> a + window b) ts) \<le> limit b)"

definition log_covers :: "'b \<Rightarrow> 't list \<Rightarrow> 't \<Rightarrow> 's \<Rightarrow> bool" where
  "log_covers b ts now s \<longleftrightarrow>
     mset (filter (\<lambda>t. now - window b < t) ts) \<subseteq># mset (filter (\<lambda>t. now - window b < t) (hits s b))"

lemma log_covers_later: "log_covers b ts now s \<Longrightarrow> now \<le> now' \<Longrightarrow> log_covers b ts now' s"
proof -
  assume cov: "log_covers b ts now s" and le: "now \<le> now'"
  have "filter_mset (\<lambda>t. now' - window b < t) (mset (filter (\<lambda>t. now - window b < t) ts))
      \<subseteq># filter_mset (\<lambda>t. now' - window b < t) (mset (filter (\<lambda>t. now - window b < t) (hits s b)))"
    using cov unfolding log_covers_def by (rule multiset_filter_mono)
  moreover have "filter (\<lambda>t. now' - window b < t) (filter (\<lambda>t. now - window b < t) xs)
      = filter (\<lambda>t. now' - window b < t) xs" for xs
    using le by (induction xs) (auto simp: not_less)
  ultimately show ?thesis by (simp add: log_covers_def mset_filter[symmetric] del: mset_filter)
qed

lemma one_step:
  assumes ok: "ok s" and step: "acquire now p s = (a, s')"
    and old: "windows_ok b ts" "\<forall>t \<in> set ts. t \<le> now" "log_covers b ts now s"
  defines "ts' \<equiv> ts @ (if a \<and> b \<in> buckets p then [now] else [])"
  shows "windows_ok b ts'" and "log_covers b ts' now s'"
proof -
  let ?live = "filter (\<lambda>t. now - window b < t)"
  have logged: "mset (?live (hits s b)) + (if a \<and> b \<in> buckets p then {#now#} else {#}) \<subseteq># mset (hits s' b)"
    using logs[OF ok step] .
  show "windows_ok b ts'"
  proof (cases "a \<and> b \<in> buckets p")
    case True
    then have step': "acquire now p s = (True, s')" using step by simp
    have "length (?live ts) \<le> length (?live (hits s b))"
      using old(3) size_mset_mono unfolding log_covers_def by (metis size_mset)
    then have live: "length (?live ts) < limit b"
      using below_limit[OF ok step'] True by (meson le_less_trans)
    show ?thesis
      unfolding windows_ok_def
    proof
      fix x
      show "length (filter (\<lambda>t. x < t \<and> t \<le> x + window b) ts') \<le> limit b"
      proof (cases "x < now \<and> now \<le> x + window b")
        case inw: True
        have "length (filter (\<lambda>t. x < t \<and> t \<le> x + window b) ts) \<le> length (?live ts)"
          using inw by (intro length_filter_mono) (auto simp: algebra_simps)
        then show ?thesis using live inw True by (simp add: ts'_def)
      next
        case False
        then show ?thesis using old(1) True by (auto simp: ts'_def windows_ok_def)
      qed
    qed
  next
    case False
    then have "ts' = ts" by (auto simp: ts'_def)
    then show ?thesis using old(1) by simp
  qed
  have "mset (?live ts') = mset (?live ts) + mset (?live (if a \<and> b \<in> buckets p then [now] else []))"
    by (simp add: ts'_def)
  also have "\<dots> \<subseteq># mset (?live (hits s b)) + mset (?live (if a \<and> b \<in> buckets p then [now] else []))"
    using old(3) by (simp add: log_covers_def)
  also have "\<dots> = filter_mset (\<lambda>t. now - window b < t)
      (mset (?live (hits s b)) + (if a \<and> b \<in> buckets p then {#now#} else {#}))"
    by (auto simp: filter_filter_mset)
  also have "\<dots> \<subseteq># mset (?live (hits s' b))"
    using multiset_filter_mono[OF logged] by simp
  finally show "log_covers b ts' now s'" by (simp add: log_covers_def)
qed

lemma serve_covered:
  assumes "ok s" "windows_ok b ts" "\<forall>t \<in> set ts. t \<le> now" "log_covers b ts now s"
    and "sorted (now # map fst reqs)" "serve acquire reqs s = (as, s')"
  shows "windows_ok b (ts @ admitted_at buckets b reqs as)"
  using assms
proof (induction reqs arbitrary: s ts now as s')
  case Nil
  then show ?case by (simp add: admitted_at_def)
next
  case (Cons r reqs)
  obtain now' p where r: "r = (now', p)" by (cases r)
  obtain a s1 where step: "acquire now' p s = (a, s1)" by fastforce
  obtain as' s2 where rest: "serve acquire reqs s1 = (as', s2)" by fastforce
  have as: "as = a # as'" using Cons.prems(6) r step rest by simp
  have le: "now \<le> now'" "sorted (now' # map fst reqs)" using Cons.prems(5) r by auto
  let ?ts' = "ts @ (if a \<and> b \<in> buckets p then [now'] else [])"
  have old: "\<forall>t \<in> set ts. t \<le> now'" using Cons.prems(3) le(1) by auto
  note next_step = one_step[OF Cons.prems(1) step Cons.prems(2) old log_covers_later[OF Cons.prems(4) le(1)]]
  have "\<forall>t \<in> set ?ts'. t \<le> now'" using old by auto
  then have "windows_ok b (?ts' @ admitted_at buckets b reqs as')"
    by (rule Cons.IH[OF keeps_ok[OF Cons.prems(1) step] next_step(1) _ next_step(2) le(2) rest])
  moreover have "ts @ admitted_at buckets b (r # reqs) as = ?ts' @ admitted_at buckets b reqs as'"
    using r as by (auto simp: admitted_at_def)
  ultimately show ?case by (simp only:)
qed

text \<open>No window of the configured length admits more than the limit.\<close>

lemma never_over_limit:
  assumes "ok s" "sorted (map fst reqs)" "serve acquire reqs s = (as, s')"
  shows "length (filter (\<lambda>t. x < t \<and> t \<le> x + window b) (admitted_at buckets b reqs as)) \<le> limit b"
proof -
  have "windows_ok b ([] @ admitted_at buckets b reqs as)"
    using serve_covered[OF assms(1), of b "[]" "if reqs = [] then 0 else fst (hd reqs)" reqs as s'] assms(2,3)
    by (cases reqs) (auto simp: windows_ok_def log_covers_def)
  then show ?thesis by (simp add: windows_ok_def)
qed

end

section \<open>The in-memory limiter\<close>

text \<open>The constructor's arguments and the mutable fields are kept apart.\<close>

record limiter_config =
  lc_tenant_rule :: rate_rule
  lc_api_key_rule :: rate_rule
  lc_fail_open :: bool

type_synonym slot = "bucket \<times> uuid"

record memory_limiter =
  ml_hits :: "slot \<Rightarrow> rat list option"
  ml_failing :: bool

definition simulate_failure :: "bool \<Rightarrow> memory_limiter \<Rightarrow> memory_limiter" where
  "simulate_failure failing s = s\<lparr>ml_failing := failing\<rparr>"

definition hits_of :: "(slot \<Rightarrow> rat list option) \<Rightarrow> slot \<Rightarrow> rat list" where
  "hits_of h b = (case h b of None \<Rightarrow> [] | Some xs \<Rightarrow> xs)"

definition principal_slots :: "limiter_config \<Rightarrow> principal \<Rightarrow> (slot \<times> rate_rule) list" where
  "principal_slots cfg p =
     [((BUCKET_API_KEY, p_api_key_id p), lc_api_key_rule cfg),
      ((BUCKET_TENANT, p_tenant_id p), lc_tenant_rule cfg)]"

definition truncate_ms :: "rat \<Rightarrow> int" where
  "truncate_ms x = (if 0 \<le> x then \<lfloor>x * 1000\<rfloor> else \<lceil>x * 1000\<rceil>)"

definition memory_throttled :: "rat \<Rightarrow> slot \<Rightarrow> rate_rule \<Rightarrow> rat list \<Rightarrow> rate_decision" where
  "memory_throttled now b r hits =
     \<lparr>rd_allowed = False, rd_bucket = fst b, rd_limit = rl_limit r, rd_remaining = 0,
      rd_retry_after_seconds = retry_after (Some (truncate_ms (Min (set hits)))) (truncate_ms now) r,
      rd_reason = LIMIT_EXCEEDED\<rparr>"

text \<open>The first loop: forget, store, and stop at the first full bucket.\<close>

fun memory_scan :: "rat \<Rightarrow> (slot \<times> rate_rule) list \<Rightarrow> (slot \<Rightarrow> rat list option) \<Rightarrow>
    (rate_decision + (slot \<times> rate_rule \<times> rat list) list) \<times> (slot \<Rightarrow> rat list option)" where
  "memory_scan now [] h = (Inr [], h)"
| "memory_scan now ((b, r) # bs) h =
     (let hits = filter (\<lambda>t. now - of_nat (rl_window_seconds r) < t) (hits_of h b);
          h1 = h(b \<mapsto> hits)
      in if rl_limit r \<le> length hits then (Inl (memory_throttled now b r hits), h1)
         else (case memory_scan now bs h1 of
                 (Inl d, h2) \<Rightarrow> (Inl d, h2)
               | (Inr live, h2) \<Rightarrow> (Inr ((b, r, hits) # live), h2)))"

definition memory_acquire ::
    "limiter_config \<Rightarrow> rat \<Rightarrow> principal \<Rightarrow> memory_limiter \<Rightarrow> rate_decision \<times> memory_limiter" where
  "memory_acquire cfg now p s =
     (if ml_failing s then (backend_failure_decision (lc_fail_open cfg), s)
      else (case memory_scan now (principal_slots cfg p) (ml_hits s) of
              (Inl d, h) \<Rightarrow> (d, s\<lparr>ml_hits := h\<rparr>)
            | (Inr live, h) \<Rightarrow>
                (let live' = map (\<lambda>(b, r, hits). (b, r, hits @ [now])) live;
                     h' = fold (\<lambda>(b, r, hits) h. h(b \<mapsto> hits)) live' h;
                     (b, r, hits) = arg_min_list (\<lambda>(b, r, hits). int (rl_limit r) - int (length hits)) live'
                 in (\<lparr>rd_allowed = True, rd_bucket = fst b, rd_limit = rl_limit r,
                      rd_remaining = rl_limit r - length hits, rd_retry_after_seconds = 0,
                      rd_reason = WITHIN_LIMIT\<rparr>, s\<lparr>ml_hits := h'\<rparr>))))"

definition memory_check :: "limiter_config \<Rightarrow> rat \<Rightarrow> principal \<Rightarrow> memory_limiter \<Rightarrow> bool \<times> memory_limiter" where
  "memory_check cfg now p s = map_prod rd_allowed id (memory_acquire cfg now p s)"

definition slot_rule :: "limiter_config \<Rightarrow> slot \<Rightarrow> rate_rule" where
  "slot_rule cfg b = (case fst b of BUCKET_TENANT \<Rightarrow> lc_tenant_rule cfg | BUCKET_API_KEY \<Rightarrow> lc_api_key_rule cfg)"

definition slots_of :: "principal \<Rightarrow> slot set" where
  "slots_of p = {(BUCKET_API_KEY, p_api_key_id p), (BUCKET_TENANT, p_tenant_id p)}"

definition memory_limiter_ok :: "limiter_config \<Rightarrow> memory_limiter \<Rightarrow> bool" where
  "memory_limiter_ok cfg s \<longleftrightarrow> (ml_failing s \<longrightarrow> \<not> lc_fail_open cfg)"

lemma memory_check_failing:
  "ml_failing s \<Longrightarrow> memory_check cfg now p s = (lc_fail_open cfg, s)"
  by (simp add: memory_check_def memory_acquire_def backend_failure_decision_def)

definition live_hits :: "limiter_config \<Rightarrow> rat \<Rightarrow> slot \<Rightarrow> memory_limiter \<Rightarrow> rat list" where
  "live_hits cfg now b s =
     filter (\<lambda>t. now - of_nat (rl_window_seconds (slot_rule cfg b)) < t) (hits_of (ml_hits s) b)"

lemma memory_check_full:
  assumes "\<not> ml_failing s" "memory_check cfg now p s = (a, s')"
  shows "a \<longleftrightarrow> (\<forall>b \<in> slots_of p. length (live_hits cfg now b s) < rl_limit (slot_rule cfg b))"
    and "ml_failing s' = ml_failing s"
    and "b \<in> slots_of p \<Longrightarrow> a \<Longrightarrow> hits_of (ml_hits s') b = live_hits cfg now b s @ [now]"
    and "\<not> a \<Longrightarrow> hits_of (ml_hits s') b \<in> {hits_of (ml_hits s) b, live_hits cfg now b s}"
    and "b \<notin> slots_of p \<Longrightarrow> hits_of (ml_hits s') b = hits_of (ml_hits s) b"
  using assms
  by (auto simp: memory_check_def memory_acquire_def principal_slots_def memory_throttled_def Let_def
      live_hits_def slots_of_def slot_rule_def hits_of_def split: if_splits prod.splits)

interpretation mem_limiter: sliding_window "memory_check cfg" slots_of "\<lambda>s. hits_of (ml_hits s)"
  "\<lambda>b. rl_limit (slot_rule cfg b)" "\<lambda>b. of_nat (rl_window_seconds (slot_rule cfg b))" "memory_limiter_ok cfg"
  for cfg
proof
  fix s s' now p a
  assume ok: "memory_limiter_ok cfg s" and step: "memory_check cfg now p s = (a, s')"
  show "memory_limiter_ok cfg s'"
    using ok step memory_check_failing[of s cfg now p] memory_check_full(2)[OF _ step]
    by (cases "ml_failing s") (auto simp: memory_limiter_ok_def)
next
  fix s s' now p b
  assume ok: "memory_limiter_ok cfg s" and step: "memory_check cfg now p s = (True, s')" and b: "b \<in> slots_of p"
  have "\<not> ml_failing s" using ok step memory_check_failing[of s cfg now p] by (auto simp: memory_limiter_ok_def)
  then show "length (filter (\<lambda>t. now - of_nat (rl_window_seconds (slot_rule cfg b)) < t) (hits_of (ml_hits s) b))
      < rl_limit (slot_rule cfg b)"
    using memory_check_full(1)[OF _ step] b by (simp add: live_hits_def)
next
  fix s s' now p a b
  assume ok: "memory_limiter_ok cfg s" and step: "memory_check cfg now p s = (a, s')"
  show "mset (filter (\<lambda>t. now - of_nat (rl_window_seconds (slot_rule cfg b)) < t) (hits_of (ml_hits s) b))
      + (if a \<and> b \<in> slots_of p then {#now#} else {#}) \<subseteq># mset (hits_of (ml_hits s') b)"
  proof (cases "ml_failing s")
    case True
    then show ?thesis using ok step memory_check_failing[OF True, of cfg now p]
      by (auto simp: memory_limiter_ok_def)
  next
    case False
    note full = memory_check_full[OF False step]
    show ?thesis
      using full(3,4,5)[of b] unfolding live_hits_def
      by (cases "b \<in> slots_of p"; cases a) (auto simp del: mset_filter, auto)
  qed
qed

section \<open>The limiter over Redis\<close>

text \<open>
  The commands sent outright, and those buffered after \<open>MULTI\<close> and run by one \<open>EXEC\<close>.
  \<open>view s k\<close> lists the members of the sorted set at key \<open>k\<close> with their scores.
\<close>

datatype zset_command = ZAdd ustr ustr int | PExpire ustr int

record 's zset_ops =
  zo_remrangebyscore :: "ustr \<Rightarrow> int \<Rightarrow> int \<Rightarrow> ('s, nat) op"
  zo_card :: "ustr \<Rightarrow> ('s, nat) op"
  zo_range_first :: "ustr \<Rightarrow> ('s, (ustr \<times> int) option) op"
  zo_exec :: "zset_command list \<Rightarrow> ('s, unit) op"

type_synonym zsets = "ustr \<Rightarrow> (ustr \<times> int) list"

fun run_command :: "zset_command \<Rightarrow> zsets \<Rightarrow> zsets" where
  "run_command (ZAdd k m t) v = v(k := filter (\<lambda>x. fst x \<noteq> m) (v k) @ [(m, t)])"
| "run_command (PExpire k ms) v = v"

definition same_members :: "zsets \<Rightarrow> zsets \<Rightarrow> bool" where
  "same_members v w \<longleftrightarrow> (\<forall>k. mset (v k) = mset (w k))"

definition trimmed :: "zsets \<Rightarrow> ustr \<Rightarrow> int \<Rightarrow> int \<Rightarrow> zsets" where
  "trimmed v k lo hi = v(k := filter (\<lambda>x. \<not> (lo \<le> snd x \<and> snd x \<le> hi)) (v k))"

definition remrange_law :: "'s zset_ops \<Rightarrow> ('s \<Rightarrow> zsets) \<Rightarrow> bool" where
  "remrange_law ops view \<longleftrightarrow> (\<forall>k lo hi s r s'. zo_remrangebyscore ops k lo hi s = (r, s') \<longrightarrow>
     same_members (view s') (trimmed (view s) k lo hi) \<or> isl r \<and> same_members (view s') (view s))"

definition card_law :: "'s zset_ops \<Rightarrow> ('s \<Rightarrow> zsets) \<Rightarrow> bool" where
  "card_law ops view \<longleftrightarrow> (\<forall>k s r s'. zo_card ops k s = (r, s') \<longrightarrow>
     same_members (view s') (view s) \<and> (\<forall>n. r = Inr n \<longrightarrow> n = length (view s k)))"

definition range_first_law :: "'s zset_ops \<Rightarrow> ('s \<Rightarrow> zsets) \<Rightarrow> bool" where
  "range_first_law ops view \<longleftrightarrow> (\<forall>k s r s'. zo_range_first ops k s = (r, s') \<longrightarrow>
     same_members (view s') (view s) \<and>
     (\<forall>x. r = Inr x \<longrightarrow> (case x of None \<Rightarrow> view s k = []
        | Some y \<Rightarrow> y \<in> set (view s k) \<and> (\<forall>z \<in> set (view s k). snd y \<le> snd z))))"

definition exec_law :: "'s zset_ops \<Rightarrow> ('s \<Rightarrow> zsets) \<Rightarrow> bool" where
  "exec_law ops view \<longleftrightarrow> (\<forall>cs s r s'. zo_exec ops cs s = (r, s') \<longrightarrow>
     same_members (view s') (fold run_command cs (view s)) \<or> isl r \<and> same_members (view s') (view s))"

definition zset_laws :: "'s zset_ops \<Rightarrow> ('s \<Rightarrow> zsets) \<Rightarrow> bool" where
  "zset_laws ops view \<longleftrightarrow>
     remrange_law ops view \<and> card_law ops view \<and> range_first_law ops view \<and> exec_law ops view"

definition DEFAULT_KEY_PREFIX :: ustr where
  "DEFAULT_KEY_PREFIX = lit ''sgw:rl:v1''"

definition tenant_key :: "ustr \<Rightarrow> uuid \<Rightarrow> ustr" where
  "tenant_key pre tenant_id = pre @ lit '':tenant:'' @ uuid_str tenant_id"

definition api_key_key :: "ustr \<Rightarrow> uuid \<Rightarrow> ustr" where
  "api_key_key pre api_key_id = pre @ lit '':key:'' @ uuid_str api_key_id"

text \<open>The random part, \<open>secrets.token_hex(8)\<close>, is an argument.\<close>

definition new_member :: "int \<Rightarrow> ustr \<Rightarrow> ustr" where
  "new_member now_ms hex = int_str now_ms @ lit '':'' @ hex"

text \<open>One bucket: its name, key and rule.\<close>

record rl_bucket =
  bk_name :: bucket
  bk_key :: ustr
  bk_rule :: rate_rule

definition redis_buckets :: "limiter_config \<Rightarrow> ustr \<Rightarrow> principal \<Rightarrow> rl_bucket list" where
  "redis_buckets cfg pre p =
     [\<lparr>bk_name = BUCKET_API_KEY, bk_key = api_key_key pre (p_api_key_id p), bk_rule = lc_api_key_rule cfg\<rparr>,
      \<lparr>bk_name = BUCKET_TENANT, bk_key = tenant_key pre (p_tenant_id p), bk_rule = lc_tenant_rule cfg\<rparr>]"

definition redis_throttled :: "int \<Rightarrow> rl_bucket \<Rightarrow> (ustr \<times> int) option \<Rightarrow> rate_decision" where
  "redis_throttled now_ms b oldest =
     \<lparr>rd_allowed = False, rd_bucket = bk_name b, rd_limit = rl_limit (bk_rule b), rd_remaining = 0,
      rd_retry_after_seconds = retry_after (map_option snd oldest) now_ms (bk_rule b),
      rd_reason = LIMIT_EXCEEDED\<rparr>"

text \<open>The reading loop of \<open>_evaluate\<close>: every bucket is trimmed and counted, the first full one denies.\<close>

fun redis_scan :: "'s zset_ops \<Rightarrow> int \<Rightarrow> rl_bucket list \<Rightarrow> nat list \<Rightarrow> rate_decision option \<Rightarrow>
    ('s, nat list \<times> rate_decision option) op" where
  "redis_scan ops now_ms [] counts denied = liftS (Inr (counts, denied))"
| "redis_scan ops now_ms (b # bs) counts denied =
     bindS (zo_remrangebyscore ops (bk_key b) 0 (now_ms - window_ms (bk_rule b))) (\<lambda>_.
     bindS (zo_card ops (bk_key b)) (\<lambda>count.
       if denied = None \<and> rl_limit (bk_rule b) \<le> count
       then bindS (zo_range_first ops (bk_key b)) (\<lambda>oldest.
              redis_scan ops now_ms bs (counts @ [count]) (Some (redis_throttled now_ms b oldest)))
       else redis_scan ops now_ms bs (counts @ [count]) denied))"

definition admit_commands :: "int \<Rightarrow> ustr \<Rightarrow> rl_bucket list \<Rightarrow> zset_command list" where
  "admit_commands now_ms member bs =
     concat (map (\<lambda>b. [ZAdd (bk_key b) member now_ms, PExpire (bk_key b) (window_ms (bk_rule b))]) bs)"

text \<open>\<open>_evaluate\<close> inside the transaction, with the buffered commands it ends in.\<close>

definition redis_evaluate :: "'s zset_ops \<Rightarrow> int \<Rightarrow> ustr \<Rightarrow> rl_bucket list \<Rightarrow> ('s, rate_decision) op" where
  "redis_evaluate ops now_ms member bs =
     bindS (redis_scan ops now_ms bs [] None) (\<lambda>(counts, denied).
       case denied of
         Some d \<Rightarrow> bindS (zo_exec ops []) (\<lambda>_. liftS (Inr d))
       | None \<Rightarrow>
           (let (b, count) = arg_min_list (\<lambda>(b, n). int (rl_limit (bk_rule b)) - int n) (zip bs counts) in
            bindS (zo_exec ops (admit_commands now_ms member bs)) (\<lambda>_. liftS (Inr
              \<lparr>rd_allowed = True, rd_bucket = bk_name b, rd_limit = rl_limit (bk_rule b),
               rd_remaining = rl_limit (bk_rule b) - count - 1, rd_retry_after_seconds = 0,
               rd_reason = WITHIN_LIMIT\<rparr>))))"

definition redis_acquire :: "limiter_config \<Rightarrow> ustr \<Rightarrow> 's zset_ops \<Rightarrow> int \<Rightarrow> ustr \<Rightarrow>
    principal \<Rightarrow> ('s, rate_decision) op" where
  "redis_acquire cfg pre ops now_ms hex p =
     catchS (redis_evaluate ops now_ms (new_member now_ms hex) (redis_buckets cfg pre p))
       (\<lambda>e. if e = RedisError \<or> e = OSError
            then Some (liftS (Inr (backend_failure_decision (lc_fail_open cfg)))) else None)"

definition slot_key :: "ustr \<Rightarrow> slot \<Rightarrow> ustr" where
  "slot_key pre b = (case fst b of BUCKET_TENANT \<Rightarrow> tenant_key pre (snd b) | BUCKET_API_KEY \<Rightarrow> api_key_key pre (snd b))"

lemma slot_key_rule: "slot_key pre b = slot_key pre b' \<Longrightarrow> slot_rule cfg b = slot_rule cfg b'"
  by (auto simp: slot_key_def slot_rule_def tenant_key_def api_key_key_def split: bucket.splits)

definition live_members :: "limiter_config \<Rightarrow> ustr \<Rightarrow> int \<Rightarrow> zsets \<Rightarrow> slot \<Rightarrow> (ustr \<times> int) multiset" where
  "live_members cfg pre now v b =
     filter_mset (\<lambda>x. now - window_ms (slot_rule cfg b) < snd x) (mset (v (slot_key pre b)))"

text \<open>What the reads of one check may do to the sets: forget members out of the window.\<close>

definition forgets :: "limiter_config \<Rightarrow> ustr \<Rightarrow> int \<Rightarrow> zsets \<Rightarrow> zsets \<Rightarrow> bool" where
  "forgets cfg pre now v w \<longleftrightarrow>
     (\<forall>b. live_members cfg pre now w b = live_members cfg pre now v b) \<and> (\<forall>k. set (w k) \<subseteq> set (v k))"

lemma forgets_live: "forgets cfg pre now v w \<Longrightarrow> live_members cfg pre now w b = live_members cfg pre now v b"
  unfolding forgets_def by blast

lemma forgets_refl [simp]: "forgets cfg pre now v v"
  by (simp add: forgets_def)

lemma forgets_trans: "forgets cfg pre now u v \<Longrightarrow> forgets cfg pre now v w \<Longrightarrow> forgets cfg pre now u w"
  by (simp add: forgets_def) blast

lemma same_members_set: "same_members v w \<Longrightarrow> set (v k) = set (w k)"
  by (simp add: same_members_def) (metis set_mset_mset)

lemma same_members_forgets: "same_members w v \<Longrightarrow> forgets cfg pre now v w"
  by (simp add: forgets_def live_members_def same_members_set) (simp add: same_members_def)

lemma trim_forgets:
  assumes "same_members w (trimmed v (slot_key pre b) 0 (now - window_ms (slot_rule cfg b)))"
  shows "forgets cfg pre now v w"
proof -
  let ?v = "trimmed v (slot_key pre b) 0 (now - window_ms (slot_rule cfg b))"
  have "live_members cfg pre now ?v b' = live_members cfg pre now v b'" for b'
    using slot_key_rule[of pre b' b cfg]
    by (auto simp: live_members_def trimmed_def filter_filter_mset intro: filter_mset_cong)
  then have "forgets cfg pre now v ?v" by (auto simp: forgets_def trimmed_def)
  then show ?thesis using same_members_forgets[OF assms] forgets_trans by blast
qed

definition bucket_of :: "limiter_config \<Rightarrow> ustr \<Rightarrow> slot \<Rightarrow> rl_bucket" where
  "bucket_of cfg pre b = \<lparr>bk_name = fst b, bk_key = slot_key pre b, bk_rule = slot_rule cfg b\<rparr>"

lemma redis_buckets_of:
  "redis_buckets cfg pre p =
     map (bucket_of cfg pre) [(BUCKET_API_KEY, p_api_key_id p), (BUCKET_TENANT, p_tenant_id p)]"
  by (simp add: redis_buckets_def bucket_of_def slot_key_def slot_rule_def)

lemma zset_remrange:
  "zset_laws ops view \<Longrightarrow> zo_remrangebyscore ops k lo hi s = (r, s') \<Longrightarrow>
     same_members (view s') (trimmed (view s) k lo hi) \<or> same_members (view s') (view s)"
  unfolding zset_laws_def remrange_law_def by metis

lemma zset_card:
  "zset_laws ops view \<Longrightarrow> zo_card ops k s = (r, s') \<Longrightarrow> same_members (view s') (view s)"
  "zset_laws ops view \<Longrightarrow> zo_card ops k s = (Inr n, s') \<Longrightarrow> n = length (view s k)"
  unfolding zset_laws_def card_law_def by metis+

lemma zset_range_first:
  "zset_laws ops view \<Longrightarrow> zo_range_first ops k s = (r, s') \<Longrightarrow> same_members (view s') (view s)"
  unfolding zset_laws_def range_first_law_def by metis

lemma zset_exec:
  "zset_laws ops view \<Longrightarrow> zo_exec ops cs s = (r, s') \<Longrightarrow>
     same_members (view s') (fold run_command cs (view s)) \<or> isl r \<and> same_members (view s') (view s)"
  unfolding zset_laws_def exec_law_def by metis

lemma redis_scan_forgets:
  assumes laws: "zset_laws ops view"
    and scan: "redis_scan ops now (map (bucket_of cfg pre) bs) counts denied s = (r, s')"
  shows "forgets cfg pre now (view s) (view s')
    \<and> (\<forall>cs. r = Inr (cs, None) \<longrightarrow> denied = None \<and>
          (\<forall>b \<in> set bs. size (live_members cfg pre now (view s) b) < rl_limit (slot_rule cfg b)))
    \<and> (\<forall>cs d. r = Inr (cs, Some d) \<longrightarrow> denied = Some d \<or> \<not> rd_allowed d)"
  using scan
proof (induction bs arbitrary: counts denied s)
  case Nil
  then show ?case by (auto simp: liftS_def)
next
  case (Cons b bs)
  let ?k = "slot_key pre b" and ?hi = "now - window_ms (slot_rule cfg b)"
  obtain r1 s1 where rem: "zo_remrangebyscore ops ?k 0 ?hi s = (r1, s1)" by fastforce
  have f1: "forgets cfg pre now (view s) (view s1)"
    using zset_remrange[OF laws rem] same_members_forgets trim_forgets by blast
  show ?case
  proof (cases r1)
    case (Inl e)
    then show ?thesis using Cons.prems rem f1 by (auto simp: bucket_of_def bindS_def)
  next
    case (Inr n)
    obtain r2 s2 where card: "zo_card ops ?k s1 = (r2, s2)" by fastforce
    have f2: "forgets cfg pre now (view s) (view s2)"
      using f1 forgets_trans same_members_forgets[OF zset_card(1)[OF laws card]] by blast
    have lives: "size (live_members cfg pre now (view s) b) \<le> length (view s1 ?k)"
    proof -
      have "live_members cfg pre now (view s) b = live_members cfg pre now (view s1) b"
        using forgets_live[OF f1] by simp
      then show ?thesis using size_filter_mset_lesseq[of _ "mset (view s1 ?k)"]
        by (simp add: live_members_def)
    qed
    show ?thesis
    proof (cases r2)
      case (Inl e)
      then show ?thesis using Cons.prems rem Inr card f2 by (auto simp: bucket_of_def bindS_def)
    next
      case (Inr count)
      have count: "count = length (view s1 ?k)" using zset_card(2)[OF laws] card Inr by simp
      have step: "redis_scan ops now (map (bucket_of cfg pre) (b # bs)) counts denied s =
          (if denied = None \<and> rl_limit (slot_rule cfg b) \<le> count
           then bindS (zo_range_first ops ?k) (\<lambda>oldest. redis_scan ops now (map (bucket_of cfg pre) bs)
                  (counts @ [count]) (Some (redis_throttled now (bucket_of cfg pre b) oldest))) s2
           else redis_scan ops now (map (bucket_of cfg pre) bs) (counts @ [count]) denied s2)"
        using rem \<open>r1 = Inr n\<close> card Inr by (simp add: bucket_of_def bindS_def)
      show ?thesis
      proof (cases "denied = None \<and> rl_limit (slot_rule cfg b) \<le> count")
        case False
        then have "redis_scan ops now (map (bucket_of cfg pre) bs) (counts @ [count]) denied s2 = (r, s')"
          using Cons.prems step by presburger
        note ih = Cons.IH[OF this]
        moreover have "live_members cfg pre now (view s2) b' = live_members cfg pre now (view s) b'" for b'
          using forgets_live[OF f2] .
        ultimately show ?thesis using False lives count f2 forgets_trans by fastforce
      next
        case True
        obtain r3 s3 where first: "zo_range_first ops ?k s2 = (r3, s3)" by fastforce
        have f3: "forgets cfg pre now (view s) (view s3)"
          using f2 forgets_trans same_members_forgets[OF zset_range_first[OF laws first]] by blast
        show ?thesis
        proof (cases r3)
          case (Inl e)
          then have "r = Inl e" "s' = s3" using Cons.prems step True first by (auto simp: bindS_def)
          then show ?thesis using f3 by simp
        next
          case (Inr oldest)
          then have "redis_scan ops now (map (bucket_of cfg pre) bs) (counts @ [count])
              (Some (redis_throttled now (bucket_of cfg pre b) oldest)) s3 = (r, s')"
            using Cons.prems step True first by (simp add: bindS_def)
          note ih = Cons.IH[OF this]
          show ?thesis using ih f3 forgets_trans by (fastforce simp: redis_throttled_def)
        qed
      qed
    qed
  qed
qed

lemma admit_commands_run:
  assumes "\<And>k x. x \<in> set (v k) \<Longrightarrow> fst x \<noteq> m"
  shows "fold run_command (admit_commands now m (redis_buckets cfg pre p)) v k =
    v k @ (if k \<in> slot_key pre ` slots_of p then [(m, now)] else [])"
proof -
  have "filter (\<lambda>x. fst x \<noteq> m) (v k) = v k" for k using assms by simp
  then show ?thesis
    by (auto simp: admit_commands_def redis_buckets_def slots_of_def slot_key_def tenant_key_def api_key_key_def)
qed

text \<open>One check: the reads forget, and then either nothing is written or the request is logged.\<close>

lemma redis_acquire_effect:
  assumes laws: "zset_laws ops view" and closed: "\<not> lc_fail_open cfg"
    and step: "redis_acquire cfg pre ops now hex p s = (r, s')"
  obtains v where "forgets cfg pre now (view s) v"
    and "same_members (view s') v \<or>
         same_members (view s') (fold run_command (admit_commands now (new_member now hex) (redis_buckets cfg pre p)) v)"
    and "\<And>d. r = Inr d \<Longrightarrow> rd_allowed d \<Longrightarrow>
         same_members (view s') (fold run_command (admit_commands now (new_member now hex) (redis_buckets cfg pre p)) v) \<and>
         (\<forall>b \<in> slots_of p. size (live_members cfg pre now (view s) b) < rl_limit (slot_rule cfg b))"
proof -
  let ?bs = "redis_buckets cfg pre p"
  let ?h = "\<lambda>e. if e = RedisError \<or> e = OSError
    then Some (liftS (Inr (backend_failure_decision (lc_fail_open cfg)))) else None :: ('a, rate_decision) op option"
  obtain r0 s0 where eval: "redis_evaluate ops now (new_member now hex) ?bs s = (r0, s0)" by fastforce
  have s0: "s' = s0" and r: "\<And>d. r = Inr d \<Longrightarrow> rd_allowed d \<Longrightarrow> r0 = Inr d"
    using step eval closed
    by (auto simp: redis_acquire_def catchS_def liftS_def backend_failure_decision_def
        split: sum.splits if_splits)
  obtain r1 s1 where scan: "redis_scan ops now ?bs [] None s = (r1, s1)" by fastforce
  note sc = redis_scan_forgets[OF laws scan[unfolded redis_buckets_of]]
  show thesis
  proof (cases r1)
    case (Inl e)
    then have "r0 = Inl e" "s0 = s1" using eval scan by (simp_all add: redis_evaluate_def bindS_def)
    then show thesis using that[of "view s1"] sc s0 r by (auto simp: same_members_def)
  next
    case (Inr x)
    obtain cs denied where x: "x = (cs, denied)" by (cases x)
    show thesis
    proof (cases denied)
      case None
      obtain r2 s2 where ex: "zo_exec ops (admit_commands now (new_member now hex) ?bs) s1 = (r2, s2)" by fastforce
      have "s0 = s2" and r0: "isl r2 \<Longrightarrow> isl r0"
        using eval scan Inr x None ex
        by (auto simp: redis_evaluate_def bindS_def liftS_def Let_def split: prod.splits sum.splits)
      moreover have "\<forall>b \<in> slots_of p. size (live_members cfg pre now (view s) b) < rl_limit (slot_rule cfg b)"
        using sc Inr x None by (auto simp: slots_of_def)
      ultimately show thesis using that[of "view s1"] sc s0 r zset_exec[OF laws ex] by fastforce
    next
      case (Some d)
      obtain r2 s2 where ex: "zo_exec ops [] s1 = (r2, s2)" by fastforce
      have "s0 = s2" and "\<And>d'. r0 = Inr d' \<Longrightarrow> d' = d"
        using eval scan Inr x Some ex
        by (auto simp: redis_evaluate_def bindS_def liftS_def split: sum.splits)
      moreover have "\<not> rd_allowed d" using sc Inr x Some by auto
      ultimately show thesis using that[of "view s1"] sc s0 r zset_exec[OF laws ex] by auto
    qed
  qed
qed

text \<open>The checks as a client sees them, with the random members drawn from a sequence.\<close>

definition redis_check :: "limiter_config \<Rightarrow> ustr \<Rightarrow> 's zset_ops \<Rightarrow> (nat \<Rightarrow> ustr) \<Rightarrow> int \<Rightarrow> principal \<Rightarrow>
    's \<times> nat \<Rightarrow> bool \<times> ('s \<times> nat)" where
  "redis_check cfg pre ops hex now p st =
     (let (r, s') = redis_acquire cfg pre ops now (hex (snd st)) p (fst st)
      in (case r of Inl _ \<Rightarrow> False | Inr d \<Rightarrow> rd_allowed d, (s', Suc (snd st))))"

definition token_hex_ok :: "(nat \<Rightarrow> ustr) \<Rightarrow> bool" where
  "token_hex_ok hex \<longleftrightarrow> inj hex \<and> (\<forall>i. length (hex i) = 16)"

definition redis_limiter_ok :: "limiter_config \<Rightarrow> (nat \<Rightarrow> ustr) \<Rightarrow> ('s \<Rightarrow> zsets) \<Rightarrow> 's \<times> nat \<Rightarrow> bool" where
  "redis_limiter_ok cfg hex view st \<longleftrightarrow> \<not> lc_fail_open cfg \<and>
     (\<forall>k. \<forall>x \<in> set (view (fst st) k). \<exists>t j. j < snd st \<and> fst x = new_member t (hex j))"

lemma new_member_inj:
  assumes "token_hex_ok hex" "new_member t (hex i) = new_member t' (hex j)"
  shows "i = j"
proof -
  have "take 16 (rev (new_member t (hex i))) = rev (hex i)" for t i
    using assms(1) by (simp add: new_member_def token_hex_ok_def)
  then have "hex i = hex j" using assms(2) by (metis rev_rev_ident)
  then show ?thesis using assms(1) by (simp add: token_hex_ok_def inj_def)
qed

lemma image_live_members:
  "image_mset snd (live_members cfg pre now v b) =
     mset (filter (\<lambda>t. now - window_ms (slot_rule cfg b) < t) (map snd (v (slot_key pre b))))"
  by (simp add: live_members_def flip: mset_filter mset_map) (simp add: filter_map comp_def)

lemma redis_sliding_window:
  assumes laws: "zset_laws ops view" and hex: "token_hex_ok hex"
  shows "sliding_window (redis_check cfg pre ops hex) slots_of
    (\<lambda>st b. map snd (view (fst st) (slot_key pre b))) (\<lambda>b. rl_limit (slot_rule cfg b))
    (\<lambda>b. window_ms (slot_rule cfg b)) (redis_limiter_ok cfg hex view)"
proof
  fix st st' :: "'a \<times> nat" and now p a
  assume ok: "redis_limiter_ok cfg hex view st" and check: "redis_check cfg pre ops hex now p st = (a, st')"
  let ?m = "new_member now (hex (snd st))"
  let ?run = "fold run_command (admit_commands now ?m (redis_buckets cfg pre p))"
  obtain r s' where step: "redis_acquire cfg pre ops now (hex (snd st)) p (fst st) = (r, s')" by fastforce
  have st': "st' = (s', Suc (snd st))" and a: "a \<Longrightarrow> \<exists>d. r = Inr d \<and> rd_allowed d"
    using check step by (auto simp: redis_check_def split: sum.splits)
  have closed: "\<not> lc_fail_open cfg" using ok by (simp add: redis_limiter_ok_def)
  obtain v where v: "forgets cfg pre now (view (fst st)) v"
      "same_members (view s') v \<or> same_members (view s') (?run v)"
      "\<And>d. r = Inr d \<Longrightarrow> rd_allowed d \<Longrightarrow> same_members (view s') (?run v) \<and>
         (\<forall>b \<in> slots_of p. size (live_members cfg pre now (view (fst st)) b) < rl_limit (slot_rule cfg b))"
    using redis_acquire_effect[OF laws closed step] by metis
  have fresh: "fst x \<noteq> ?m" if "x \<in> set (v k)" for k x
  proof
    assume "fst x = ?m"
    moreover have "x \<in> set (view (fst st) k)" using v(1) that unfolding forgets_def by blast
    ultimately show False using ok new_member_inj[OF hex] unfolding redis_limiter_ok_def by (metis less_irrefl)
  qed
  have run: "?run v k = v k @ (if k \<in> slot_key pre ` slots_of p then [(?m, now)] else [])" for k
    by (rule admit_commands_run) (rule fresh)
  show "redis_limiter_ok cfg hex view st'"
  proof -
    have "\<exists>t j. j < Suc (snd st) \<and> fst x = new_member t (hex j)" if "x \<in> set (view s' k)" for k x
    proof -
      have "x \<in> set (v k) \<or> fst x = ?m"
        using v(2) that same_members_set[of "view s'" _ k] run[of k] by (auto split: if_splits)
      moreover have "\<exists>t j. j < snd st \<and> fst x = new_member t (hex j)" if "x \<in> set (v k)"
        using that v(1) ok unfolding forgets_def redis_limiter_ok_def by blast
      ultimately show ?thesis using less_Suc_eq by blast
    qed
    then show ?thesis using closed st' by (simp add: redis_limiter_ok_def)
  qed
  fix b
  let ?live = "filter (\<lambda>t. now - window_ms (slot_rule cfg b) < t)"
  have live: "mset (?live (map snd (view (fst st) (slot_key pre b)))) \<subseteq># mset (map snd (v (slot_key pre b)))"
  proof -
    have "mset (?live (map snd (view (fst st) (slot_key pre b)))) = mset (?live (map snd (v (slot_key pre b))))"
      using forgets_live[OF v(1), of b] image_live_members by metis
    then show ?thesis by simp
  qed
  show "mset (?live (map snd (view (fst st) (slot_key pre b)))) + (if a \<and> b \<in> slots_of p then {#now#} else {#})
      \<subseteq># mset (map snd (view (fst st') (slot_key pre b)))"
  proof (cases "a \<and> b \<in> slots_of p")
    case True
    then have "same_members (view s') (?run v)" using a v(3) by blast
    then have "mset (view s' (slot_key pre b)) = mset (?run v (slot_key pre b))" unfolding same_members_def by blast
    also have "\<dots> = mset (v (slot_key pre b)) + {#(?m, now)#}" using run[of "slot_key pre b"] True by auto
    finally show ?thesis using live True st' by simp
  next
    case False
    have "mset (v (slot_key pre b)) \<subseteq># mset (view s' (slot_key pre b))"
      using v(2) run[of "slot_key pre b"] unfolding same_members_def by auto
    then have "mset (map snd (v (slot_key pre b))) \<subseteq># mset (map snd (view s' (slot_key pre b)))"
      by (simp add: image_mset_subseteq_mono)
    then show ?thesis using live False st' by (auto intro: subset_mset.order_trans)
  qed
next
  fix st st' :: "'a \<times> nat" and now p b
  assume ok: "redis_limiter_ok cfg hex view st" and check: "redis_check cfg pre ops hex now p st = (True, st')"
    and b: "b \<in> slots_of p"
  obtain r s' where step: "redis_acquire cfg pre ops now (hex (snd st)) p (fst st) = (r, s')" by fastforce
  obtain d where d: "r = Inr d" "rd_allowed d"
    using check step by (auto simp: redis_check_def split: sum.splits)
  have closed: "\<not> lc_fail_open cfg" using ok by (simp add: redis_limiter_ok_def)
  have "size (live_members cfg pre now (view (fst st)) b) < rl_limit (slot_rule cfg b)"
    using redis_acquire_effect[OF laws closed step] d b by metis
  then have "size (image_mset snd (live_members cfg pre now (view (fst st)) b)) < rl_limit (slot_rule cfg b)" by simp
  then show "length (filter (\<lambda>t. now - window_ms (slot_rule cfg b) < t) (map snd (view (fst st) (slot_key pre b))))
      < rl_limit (slot_rule cfg b)"
    by (simp only: image_live_members size_mset)
qed

section \<open>Properties\<close>

text \<open>
  The in-memory limiter never admits more than the limit of a bucket (a key's, or a
  tenant's over all its keys) in any window of the configured length, wherever the window
  starts and however requests of different principals interleave, as long as the clock does
  not run backwards and a failing store does not fail open.
\<close>

theorem memory_rate_limit:
  assumes "memory_limiter_ok cfg s" "sorted (map fst reqs)"
    and "serve (memory_check cfg) reqs s = (as, s')"
  shows "length (filter (\<lambda>t. x < t \<and> t \<le> x + of_nat (rl_window_seconds (slot_rule cfg b)))
      (admitted_at slots_of b reqs as)) \<le> rl_limit (slot_rule cfg b)"
  by (rule mem_limiter.never_over_limit[OF assms])

definition sample_limits :: limiter_config where
  "sample_limits = \<lparr>lc_tenant_rule = \<lparr>rl_limit = 3, rl_window_seconds = 10\<rparr>,
     lc_api_key_rule = \<lparr>rl_limit = 1, rl_window_seconds = 10\<rparr>, lc_fail_open = False\<rparr>"

definition idle_limiter :: memory_limiter where
  "idle_limiter = \<lparr>ml_hits = Map.empty, ml_failing = False\<rparr>"

definition sample_reqs :: "(rat \<times> principal) list" where
  "sample_reqs = [(1, sample_principal), (2, sample_principal), (11, sample_principal)]"

theorem memory_rate_limit_witness:
  "fst (serve (memory_check sample_limits) sample_reqs idle_limiter) = [True, False, True] \<and>
   length (filter (\<lambda>t. 1 < t \<and> t \<le> 1 + of_nat (rl_window_seconds (slot_rule sample_limits (BUCKET_API_KEY, 2))))
     (admitted_at slots_of (BUCKET_API_KEY, 2) sample_reqs
        (fst (serve (memory_check sample_limits) sample_reqs idle_limiter))))
     \<le> rl_limit (slot_rule sample_limits (BUCKET_API_KEY, 2))"
proof
  show "fst (serve (memory_check sample_limits) sample_reqs idle_limiter) = [True, False, True]"
    by code_simp
  have "memory_limiter_ok sample_limits idle_limiter" "sorted (map fst sample_reqs)"
    by (simp_all add: memory_limiter_ok_def idle_limiter_def sample_reqs_def)
  then show "length (filter (\<lambda>t. 1 < t \<and> t \<le> 1 + of_nat (rl_window_seconds (slot_rule sample_limits (BUCKET_API_KEY, 2))))
     (admitted_at slots_of (BUCKET_API_KEY, 2) sample_reqs
        (fst (serve (memory_check sample_limits) sample_reqs idle_limiter))))
     \<le> rl_limit (slot_rule sample_limits (BUCKET_API_KEY, 2))"
    by (rule memory_rate_limit[OF _ _ prod.collapse[symmetric]])
qed


definition plain_zsets :: "zsets zset_ops" where
  "plain_zsets =
     \<lparr>zo_remrangebyscore = (\<lambda>k lo hi v. (Inr (length (filter (\<lambda>x. lo \<le> snd x \<and> snd x \<le> hi) (v k))), trimmed v k lo hi)),
      zo_card = (\<lambda>k v. (Inr (length (v k)), v)),
      zo_range_first = (\<lambda>k v. (Inr (case sort_key snd (v k) of [] \<Rightarrow> None | x # _ \<Rightarrow> Some x), v)),
      zo_exec = (\<lambda>cs v. (Inr (), fold run_command cs v))\<rparr>"

lemma plain_zsets_laws: "zset_laws plain_zsets id"
proof -
  have "range_first_law plain_zsets id"
    unfolding range_first_law_def
  proof (intro allI impI)
    fix k s r s'
    assume step: "zo_range_first plain_zsets k s = (r, s')"
    have "sort_key snd (s k) = y # ys \<Longrightarrow> y \<in> set (s k) \<and> (\<forall>z \<in> set (s k). snd y \<le> snd z)" for y ys
      using sorted_sort_key[of snd "s k"] set_sort[of snd "s k"]
      by (metis (no_types, lifting) list.simps(9) list.set_intros(1) set_ConsD sorted_simps(2) image_eqI list.set_map order_refl)
    moreover have "sort_key snd (s k) = [] \<Longrightarrow> s k = []" by (metis length_0_conv length_sort)
    ultimately show "same_members (id s') (id s) \<and> (\<forall>x. r = Inr x \<longrightarrow> (case x of None \<Rightarrow> id s k = []
        | Some y \<Rightarrow> y \<in> set (id s k) \<and> (\<forall>z \<in> set (id s k). snd y \<le> snd z)))"
      using step by (auto simp: plain_zsets_def same_members_def split: list.splits)
  qed
  then show ?thesis
    by (auto simp: zset_laws_def remrange_law_def card_law_def exec_law_def same_members_def plain_zsets_def)
qed

definition sample_hex :: "nat \<Rightarrow> ustr" where
  "sample_hex i = replicate 15 48 @ [i]"

definition sample_reqs_ms :: "(int \<times> principal) list" where
  "sample_reqs_ms = [(1000, sample_principal), (2000, sample_principal), (11000, sample_principal)]"


text \<open>
  The wait a throttled caller is told is at least a second, is long enough for the oldest
  logged request to have left the window, and exceeds what is needed by less than a second.
\<close>

theorem retry_after_exact:
  "1 \<le> retry_after (Some t) now r
   \<and> t \<le> (now + 1000 * retry_after (Some t) now r) - window_ms r
   \<and> (retry_after (Some t) now r = 1 \<or> (now + 1000 * (retry_after (Some t) now r - 1)) - window_ms r < t)"
proof -
  obtain x q where x: "x = t + window_ms r - now" and q: "q = - ((- x) div 1000)" by blast
  have "x \<le> q * 1000" "(q - 1) * 1000 < x" using ceil_div_bounds[of x] by (simp_all only: q)
  moreover have "retry_after (Some t) now r = max 1 q" by (simp add: retry_after_def q x)
  ultimately show ?thesis using x by (cases "1 \<le> q") (simp_all add: max_def)
qed

end
