(* ===== verification/Auth.thy ===== *)
theory Auth
  imports Api_Keys Rate_Limit
begin

text \<open>
  Authentication and authorization: parsing the credential and building the principal
  (\<^verbatim>\<open>app/auth/principal.py\<close>), the bounded writes of \<open>last_used_at\<close> (\<^verbatim>\<open>app/auth/last_used.py\<close>), and
  the dependency every endpoint asks for, which authenticates, charges the rate limit and
  checks the scope in that order (\<^verbatim>\<open>app/auth/dependencies.py\<close>). Metrics and log records are left out;
  the log context keeps its reason.
\<close>

section \<open>The presented credential\<close>

definition MAX_CREDENTIAL_CHARS :: nat where
  "MAX_CREDENTIAL_CHARS = 512"

definition auth_failure :: "string \<Rightarrow> exn" where
  "auth_failure reason = GatewayError AUTHENTICATION_FAILED reason"

definition is_token :: "ustr \<Rightarrow> bool" where
  "is_token value \<longleftrightarrow> (\<forall>c \<in> set value. 0x21 \<le> c \<and> c \<le> 0x7E)"

text \<open>\<open>s.partition(" ")\<close>.\<close>

fun partition_at :: "uchar \<Rightarrow> ustr \<Rightarrow> ustr \<times> bool \<times> ustr" where
  "partition_at c [] = ([], False, [])"
| "partition_at c (x # xs) = (if x = c then ([], True, xs)
     else (let (a, found, b) = partition_at c xs in (x # a, found, b)))"

definition parse_bearer_credential :: "ucd \<Rightarrow> ustr option \<Rightarrow> ustr res" where
  "parse_bearer_credential U header =
     (case header of
        None \<Rightarrow> Inl (GatewayError AUTHENTICATION_REQUIRED ''missing_authorization_header'')
      | Some h \<Rightarrow>
          if strip U h = [] then Inl (GatewayError AUTHENTICATION_REQUIRED ''missing_authorization_header'')
          else (let (scheme, found, remainder) = partition_at 32 (strip U h) in
                if \<not> found \<or> ud_lower U scheme \<noteq> lit ''bearer'' then Inl (auth_failure ''unsupported_scheme'')
                else (let candidate = strip U remainder in
                      if candidate = [] \<or> MAX_CREDENTIAL_CHARS < length candidate \<or> \<not> is_token candidate
                      then Inl (auth_failure ''malformed_credential'')
                      else Inr candidate)))"

section \<open>The principal\<close>

definition parse_scopes :: "ustr list \<Rightarrow> scope list" where
  "parse_scopes raw = remdups (concat (map (\<lambda>v. case scope_of v of Inl _ \<Rightarrow> [] | Inr sc \<Rightarrow> [sc]) raw))"

definition build_principal :: "api_key \<Rightarrow> principal" where
  "build_principal k = \<lparr>p_tenant_id = ak_tenant_id k, p_api_key_id = ak_id k,
     p_api_key_prefix = ak_prefix k, p_scopes = parse_scopes (ak_scopes k)\<rparr>"

type_synonym 's authenticator = "ustr \<Rightarrow> ustr \<Rightarrow> ('s, api_key option) op"

definition resolve_principal :: "'s authenticator \<Rightarrow> ustr \<Rightarrow> int \<Rightarrow> ustr \<Rightarrow> ('s, principal) op" where
  "resolve_principal authenticate pepper moment credential =
     bindS (catchS (authenticate credential pepper)
              (\<lambda>e. if db_error e then Some (liftS (Inl (auth_failure ''key_store_unavailable''))) else None))
       (\<lambda>record. case record of
           None \<Rightarrow> liftS (Inl (auth_failure ''invalid_credential''))
         | Some k \<Rightarrow>
             if ak_status k \<noteq> KEY_ACTIVE then liftS (Inl (auth_failure ''invalid_credential''))
             else if (case ak_expires_at k of None \<Rightarrow> False | Some t \<Rightarrow> t \<le> moment)
             then liftS (Inl (auth_failure ''invalid_credential''))
             else liftS (Inr (build_principal k)))"

definition authenticate_bearer ::
    "ucd \<Rightarrow> 's authenticator \<Rightarrow> ustr \<Rightarrow> int \<Rightarrow> ustr option \<Rightarrow> ('s, principal) op" where
  "authenticate_bearer U authenticate pepper moment header =
     bindS (liftS (parse_bearer_credential U header)) (resolve_principal authenticate pepper moment)"

section \<open>Bounded writes of the last use\<close>

text \<open>The ordered dictionary \<open>_seen\<close>, oldest write first.\<close>

type_synonym seen = "(uuid \<times> rat) list"

definition mk_tracker :: "rat \<Rightarrow> int \<Rightarrow> seen res" where
  "mk_tracker interval max_tracked =
     (if interval \<le> 0 then Inl ValueError else if max_tracked < 1 then Inl ValueError else Inr [])"

definition should_update :: "rat \<Rightarrow> nat \<Rightarrow> rat \<Rightarrow> uuid \<Rightarrow> seen \<Rightarrow> bool \<times> seen" where
  "should_update interval max_tracked now key seen =
     (if (case dict_get seen key of None \<Rightarrow> False | Some previous \<Rightarrow> now - previous < interval)
      then (False, seen)
      else (let seen' = filter (\<lambda>x. fst x \<noteq> key) seen @ [(key, now)]
            in (True, drop (length seen' - max_tracked) seen')))"

type_synonym 'd writer = "uuid \<Rightarrow> uuid \<Rightarrow> py_datetime \<Rightarrow> ('d, unit) op"

definition record_use :: "rat \<Rightarrow> nat \<Rightarrow> rat \<Rightarrow> 'd writer option \<Rightarrow> int \<Rightarrow> principal \<Rightarrow> ('d \<times> seen, bool) op" where
  "record_use interval max_tracked now writer moment p = (\<lambda>(d, seen).
     case writer of
       None \<Rightarrow> (Inr False, (d, seen))
     | Some touch \<Rightarrow>
         (let (due, seen') = should_update interval max_tracked now (p_api_key_id p) seen in
          if \<not> due then (Inr False, (d, seen'))
          else (case touch (p_tenant_id p) (p_api_key_id p) (Aware moment) d of
                  (Inr _, d') \<Rightarrow> (Inr True, (d', seen'))
                | (Inl e, d') \<Rightarrow> if db_error e then (Inr False, (d', seen')) else (Inl e, (d', seen')))))"

section \<open>The dependencies of an endpoint\<close>

text \<open>What one request reads: the wired collaborators, the header and the clocks.\<close>

record ('d, 'l) gate =
  gt_ucd :: ucd
  gt_authenticate :: "'d authenticator option"
  gt_pepper :: ustr
  gt_acquire :: "(principal \<Rightarrow> 'l \<Rightarrow> rate_decision \<times> 'l) option"
  gt_writer :: "'d writer option"
  gt_interval :: rat
  gt_max_tracked :: nat

record request_env =
  re_header :: "ustr option"
  re_moment :: int
  re_monotonic :: rat

record ('d, 'l) gate_state =
  gs_db :: 'd
  gs_limiter :: 'l
  gs_seen :: seen

definition unconfigured_acquire :: "principal \<Rightarrow> 'l \<Rightarrow> rate_decision \<times> 'l" where
  "unconfigured_acquire p l = (not_configured_decision, l)"

text \<open>What the request's application state wires; nothing wired means nobody is served.\<close>

definition get_api_key_authenticator :: "('d, 'l) gate \<Rightarrow> 'd authenticator res" where
  "get_api_key_authenticator g =
     (case gt_authenticate g of
        None \<Rightarrow> Inl (auth_failure ''authenticator_not_configured'')
      | Some a \<Rightarrow> Inr a)"

definition get_rate_limiter :: "('d, 'l) gate \<Rightarrow> principal \<Rightarrow> 'l \<Rightarrow> rate_decision \<times> 'l" where
  "get_rate_limiter g = (case gt_acquire g of None \<Rightarrow> unconfigured_acquire | Some a \<Rightarrow> a)"

definition on_db :: "('d, 'a) op \<Rightarrow> (('d, 'l) gate_state, 'a) op" where
  "on_db f st = (let (r, d) = f (gs_db st) in (r, st\<lparr>gs_db := d\<rparr>))"

definition on_limiter :: "('l, 'a) op \<Rightarrow> (('d, 'l) gate_state, 'a) op" where
  "on_limiter f st = (let (r, l) = f (gs_limiter st) in (r, st\<lparr>gs_limiter := l\<rparr>))"

definition on_tracker :: "('d \<times> seen, 'a) op \<Rightarrow> (('d, 'l) gate_state, 'a) op" where
  "on_tracker f st = (let (r, (d, seen)) = f (gs_db st, gs_seen st) in (r, st\<lparr>gs_db := d, gs_seen := seen\<rparr>))"

definition get_principal :: "('d, 'l) gate \<Rightarrow> request_env \<Rightarrow> (('d, 'l) gate_state, principal) op" where
  "get_principal g env =
     bindS (liftS (get_api_key_authenticator g)) (\<lambda>authenticate.
     bindS (on_db (authenticate_bearer (gt_ucd g) authenticate (gt_pepper g) (re_moment env) (re_header env))) (\<lambda>p.
     bindS (on_limiter (enforce (get_rate_limiter g) p)) (\<lambda>_.
     bindS (on_tracker (record_use (gt_interval g) (gt_max_tracked g) (re_monotonic env)
              (gt_writer g) (re_moment env) p)) (\<lambda>_.
     liftS (Inr p)))))"

definition require_scope :: "scope \<Rightarrow> ('d, 'l) gate \<Rightarrow> request_env \<Rightarrow> (('d, 'l) gate_state, principal) op" where
  "require_scope sc g env =
     bindS (get_principal g env) (\<lambda>p.
       if \<not> has_scope p sc then liftS (Inl (GatewayError AUTHORIZATION_FAILED ''missing_scope''))
       else liftS (Inr p))"

section \<open>Lemmas\<close>

lemma is_token_ascii: "is_token v \<Longrightarrow> utf8_encode v = Inr v"
  by (rule utf8_encode_ascii) (auto simp: is_token_def)

lemma parse_bearer_Inr:
  "parse_bearer_credential U header = Inr c \<Longrightarrow> is_token c \<and> c \<noteq> [] \<and> length c \<le> MAX_CREDENTIAL_CHARS"
  by (auto simp: parse_bearer_credential_def Let_def split: option.splits if_splits prod.splits)

lemma parse_bearer_Inl:
  "parse_bearer_credential U header = Inl e \<Longrightarrow>
     e = GatewayError AUTHENTICATION_REQUIRED ''missing_authorization_header'' \<and>
       (header = None \<or> (\<exists>h. header = Some h \<and> strip U h = [])) \<or>
     (\<exists>reason. e = GatewayError AUTHENTICATION_FAILED reason)"
  by (auto simp: parse_bearer_credential_def Let_def auth_failure_def split: option.splits if_splits prod.splits)

lemma resolve_principal_Inr:
  assumes "resolve_principal auth pepper moment c s = (Inr p, s')"
  shows "\<exists>k. auth c pepper s = (Inr (Some k), s') \<and> p = build_principal k \<and> ak_status k = KEY_ACTIVE \<and>
      (\<forall>t. ak_expires_at k = Some t \<longrightarrow> moment < t)"
  using assms
  by (auto simp: resolve_principal_def bindS_def catchS_def liftS_def
      split: prod.splits sum.splits option.splits if_splits)

lemma resolve_principal_Inl:
  assumes "\<And>e s1. auth c pepper s = (Inl e, s1) \<Longrightarrow> db_error e"
    and "resolve_principal auth pepper moment c s = (Inl e, s')"
  shows "\<exists>reason. e = GatewayError AUTHENTICATION_FAILED reason"
  using assms
  by (auto simp: resolve_principal_def bindS_def catchS_def liftS_def auth_failure_def
      split: prod.splits sum.splits option.splits if_splits)

text \<open>
  Once a caller has sent a non-blank header, every failure of authentication -- scheme,
  malformed value, unknown prefix, wrong secret, revoked or expired key, or an outage of the key
  store -- raises the one error code, so the response is the same 401 in every case.
\<close>

theorem authentication_failures_uniform:
  assumes "table_errors tb" "utf8_encode pepper = Inr kb" "header = Some h" "strip U h \<noteq> []"
    and "authenticate_bearer U (key_authenticate hmac tb now) pepper moment header s = (Inl e, s')"
  shows "\<exists>reason. e = GatewayError AUTHENTICATION_FAILED reason"
proof (cases "parse_bearer_credential U header")
  case (Inl e')
  then show ?thesis using assms(3,4,5) parse_bearer_Inl[OF Inl]
    by (auto simp: authenticate_bearer_def bindS_def liftS_def)
next
  case (Inr c)
  have "hash_api_key hmac c pepper = Inr (hexdigest (hmac kb c))"
    using is_token_ascii[of c] parse_bearer_Inr[OF Inr] assms(2) by (auto simp: hash_api_key_def)
  then have "db_error e1" if "key_authenticate hmac tb now c pepper s = (Inl e1, s1)" for e1 s1
    using key_authenticate_error[OF assms(1) _ that] by blast
  moreover have "resolve_principal (key_authenticate hmac tb now) pepper moment c s = (Inl e, s')"
    using assms(5) Inr by (simp add: authenticate_bearer_def)
  ultimately show ?thesis by (rule resolve_principal_Inl)
qed

definition down_table :: "('r list, 'r) table_ops" where
  "down_table = plain_table\<lparr>tb_select := (\<lambda>P s. (Inl OSError, s))\<rparr>"

theorem authentication_failures_uniform_witness:
  "\<exists>e s'. authenticate_bearer ascii_ucd (key_authenticate zero_hmac down_table 5) [] 5
       (Some (lit ''Bearer sgw_live_abc'')) [] = (Inl e, s') \<and>
     (\<exists>reason. e = GatewayError AUTHENTICATION_FAILED reason)"
proof -
  have run: "authenticate_bearer ascii_ucd (key_authenticate zero_hmac down_table 5) [] 5
       (Some (lit ''Bearer sgw_live_abc'')) [] = (Inl (auth_failure ''key_store_unavailable''), [])"
    by code_simp
  have "table_errors (down_table :: (api_key list, api_key) table_ops)"
    by (simp add: table_errors_def down_table_def db_error_def plain_table_def)
  moreover have "strip ascii_ucd (lit ''Bearer sgw_live_abc'') \<noteq> []" by code_simp
  ultimately have "\<exists>reason. auth_failure ''key_store_unavailable'' = GatewayError AUTHENTICATION_FAILED reason"
    using run by (intro authentication_failures_uniform[of down_table "[]" "[]"]) simp_all
  then show ?thesis using run by blast
qed

lemma set_parse_scopes: "sc \<in> set (parse_scopes raw) \<longleftrightarrow> scope_value sc \<in> set raw"
proof -
  have "sc \<in> set (case scope_of v of Inl _ \<Rightarrow> [] | Inr sc' \<Rightarrow> [sc']) \<longleftrightarrow> v = scope_value sc" for v
    by (cases "scope_of v") (auto simp: scope_of_Inr dest: scope_value_inj)
  then show ?thesis by (auto simp: parse_scopes_def)
qed

lemma on_db_eq: "on_db f st = (r, st') \<longleftrightarrow> (\<exists>d. f (gs_db st) = (r, d) \<and> st' = st\<lparr>gs_db := d\<rparr>)"
  by (auto simp: on_db_def split: prod.splits)

lemma on_limiter_enforce:
  "on_limiter (enforce acquire p) st = (Inr d, st') \<Longrightarrow> rd_allowed (fst (acquire p (gs_limiter st)))"
  "on_limiter (enforce acquire p) st = (r, st') \<Longrightarrow> gs_db st' = gs_db st \<and> gs_seen st' = gs_seen st"
  "on_limiter (enforce acquire p) st = (Inl e, st') \<Longrightarrow> \<exists>reason. e = GatewayError RATE_LIMIT_EXCEEDED reason"
  by (auto simp: on_limiter_def enforce_def split: prod.splits if_splits)

text \<open>The three stages of an admitted request.\<close>

lemma get_principal_Inr:
  assumes "get_principal g env st = (Inr p, st')"
  shows "\<exists>auth d. gt_authenticate g = Some auth \<and>
      authenticate_bearer (gt_ucd g) auth (gt_pepper g) (re_moment env) (re_header env) (gs_db st) = (Inr p, d) \<and>
      rd_allowed (fst (get_rate_limiter g p (gs_limiter st)))"
  using assms on_limiter_enforce(1)
  by (fastforce simp: get_principal_def get_api_key_authenticator_def bindS_Inr liftS_eq on_db_eq
      split: option.splits)

text \<open>
  C29. A request that passes the gate of an endpoint presented a well-formed credential whose keyed
  digest is the one stored in a row of the key table with the credential's prefix; that key is
  active and unexpired, lists the endpoint's scope, and is where the principal's tenant comes
  from; and the limiter admitted the request.
\<close>

theorem gate_sound:
  assumes "table_laws tb rows" "gt_authenticate g = Some (key_authenticate hmac tb now)"
    and "require_scope sc g env st = (Inr p, st')"
  shows "\<exists>k c. k \<in> set (rows (gs_db st)) \<and>
      parse_bearer_credential (gt_ucd g) (re_header env) = Inr c \<and>
      ak_prefix k = prefix_of c \<and> hash_api_key hmac c (gt_pepper g) = Inr (ak_key_hash k) \<and>
      is_usable now k \<and> is_usable (re_moment env) k \<and> p = build_principal k \<and>
      scope_value sc \<in> set (ak_scopes k) \<and>
      rd_allowed (fst (get_rate_limiter g p (gs_limiter st)))"
proof -
  obtain st1 where gp: "get_principal g env st = (Inr p, st1)" and sc: "has_scope p sc"
    using assms(3) by (auto simp: require_scope_def bindS_Inr liftS_eq split: if_splits)
  obtain d where auth: "authenticate_bearer (gt_ucd g) (key_authenticate hmac tb now) (gt_pepper g)
        (re_moment env) (re_header env) (gs_db st) = (Inr p, d)"
    and allowed: "rd_allowed (fst (get_rate_limiter g p (gs_limiter st)))"
    using get_principal_Inr[OF gp] assms(2) by auto
  obtain c where c: "parse_bearer_credential (gt_ucd g) (re_header env) = Inr c"
    and res: "resolve_principal (key_authenticate hmac tb now) (gt_pepper g) (re_moment env) c (gs_db st) = (Inr p, d)"
    using auth by (auto simp: authenticate_bearer_def bindS_Inr liftS_eq)
  obtain k where k: "key_authenticate hmac tb now c (gt_pepper g) (gs_db st) = (Inr (Some k), d)"
      "p = build_principal k" "ak_status k = KEY_ACTIVE" "\<forall>t. ak_expires_at k = Some t \<longrightarrow> re_moment env < t"
    using resolve_principal_Inr[OF res] by blast
  have "scope_value sc \<in> set (ak_scopes k)"
    using sc k(2) by (simp add: has_scope_def build_principal_def set_parse_scopes)
  moreover have "is_usable (re_moment env) k" using k(3,4) by (auto simp: is_usable_def split: option.splits)
  ultimately show ?thesis
    using key_authenticate_Some(1-4)[OF assms(1) k(1)] c k(2) allowed by blast
qed

definition sample_key :: api_key where
  "sample_key = \<lparr>ak_id = 2, ak_tenant_id = 1, ak_name = [], ak_prefix = lit ''sgw_live_abcdefgh'',
     ak_key_hash = hexdigest (replicate 32 0), ak_scopes = [lit ''chat:invoke'', lit ''future:scope''],
     ak_status = KEY_ACTIVE, ak_expires_at = Some 100, ak_last_used_at = None, ak_created_at = 0\<rparr>"

definition sample_gate :: "(api_key list, memory_limiter) gate" where
  "sample_gate = \<lparr>gt_ucd = ascii_ucd, gt_authenticate = Some (key_authenticate zero_hmac plain_table 5),
     gt_pepper = [], gt_acquire = Some (\<lambda>p. memory_acquire sample_limits 1 p),
     gt_writer = None, gt_interval = 300, gt_max_tracked = 10000\<rparr>"

definition sample_env :: request_env where
  "sample_env = \<lparr>re_header = Some (lit ''Bearer sgw_live_abcdefghijk''), re_moment = 5, re_monotonic = 0\<rparr>"

definition sample_gate_state :: "(api_key list, memory_limiter) gate_state" where
  "sample_gate_state = \<lparr>gs_db = [sample_key], gs_limiter = idle_limiter, gs_seen = []\<rparr>"

lemma sample_gate_runs:
  "fst (require_scope CHAT_INVOKE sample_gate sample_env sample_gate_state) = Inr (build_principal sample_key)"
  by code_simp

theorem gate_sound_witness:
  "\<exists>k c. k \<in> set (id (gs_db sample_gate_state)) \<and>
      parse_bearer_credential (gt_ucd sample_gate) (re_header sample_env) = Inr c \<and>
      ak_prefix k = prefix_of c \<and> hash_api_key zero_hmac c (gt_pepper sample_gate) = Inr (ak_key_hash k) \<and>
      is_usable 5 k \<and> is_usable (re_moment sample_env) k \<and> build_principal sample_key = build_principal k \<and>
      scope_value CHAT_INVOKE \<in> set (ak_scopes k) \<and>
      rd_allowed (fst (get_rate_limiter sample_gate (build_principal sample_key) (gs_limiter sample_gate_state)))"
proof (rule gate_sound[OF plain_table_laws(1)])
  show "gt_authenticate sample_gate = Some (key_authenticate zero_hmac plain_table 5)" by (simp add: sample_gate_def)
  show "require_scope CHAT_INVOKE sample_gate sample_env sample_gate_state =
      (Inr (build_principal sample_key), snd (require_scope CHAT_INVOKE sample_gate sample_env sample_gate_state))"
    using sample_gate_runs by (metis prod.collapse)
qed

text \<open>
  A request refused for its credential costs nobody: no limiter budget is spent and no use is
  recorded; and a request refused by the limiter records no use and writes no row.
\<close>

theorem gate_order:
  assumes "gt_authenticate g = Some auth"
    and "authenticate_bearer (gt_ucd g) auth (gt_pepper g) (re_moment env) (re_header env) (gs_db st) = (r, d)"
  shows "(case r of
       Inl e \<Rightarrow> require_scope sc g env st = (Inl e, st\<lparr>gs_db := d\<rparr>)
     | Inr p \<Rightarrow> (let (decision, l) = get_rate_limiter g p (gs_limiter st) in
         (if rd_allowed decision then gs_limiter (snd (require_scope sc g env st)) = l
          else require_scope sc g env st =
            (Inl (GatewayError RATE_LIMIT_EXCEEDED (limit_reason_value (rd_reason decision))),
             st\<lparr>gs_db := d, gs_limiter := l\<rparr>))))"
  using assms
  by (auto simp: require_scope_def get_principal_def get_api_key_authenticator_def bindS_def liftS_def
      on_db_def on_limiter_def on_tracker_def enforce_def Let_def split: sum.splits prod.splits)

theorem gate_order_witness:
  "require_scope CHAT_INVOKE sample_gate (sample_env\<lparr>re_header := None\<rparr>) sample_gate_state =
     (Inl (GatewayError AUTHENTICATION_REQUIRED ''missing_authorization_header''), sample_gate_state)"
  using gate_order[of sample_gate "key_authenticate zero_hmac plain_table 5" "sample_env\<lparr>re_header := None\<rparr>"
      sample_gate_state "Inl (GatewayError AUTHENTICATION_REQUIRED ''missing_authorization_header'')" "[sample_key]"
      CHAT_INVOKE]
  by (simp add: sample_gate_def sample_gate_state_def authenticate_bearer_def parse_bearer_credential_def)

lemma strip_id: "s \<noteq> [] \<Longrightarrow> \<not> ud_isspace U (hd s) \<Longrightarrow> \<not> ud_isspace U (last s) \<Longrightarrow> strip U s = s"
proof -
  assume s: "s \<noteq> []" "\<not> ud_isspace U (hd s)" "\<not> ud_isspace U (last s)"
  then have "lstrip U s = s" by (cases s) (simp_all add: lstrip_def)
  moreover have "lstrip U (rev s) = rev s" using s by (cases "rev s") (auto simp: lstrip_def)
  ultimately show ?thesis by (simp add: strip_def)
qed

lemma partition_at_append: "c \<notin> set a \<Longrightarrow> partition_at c (a @ c # b) = (a, True, b)"
  by (induction a) auto

definition ascii_compatible :: "ucd \<Rightarrow> bool" where
  "ascii_compatible U \<longleftrightarrow> (\<forall>c < 128. ud_isspace U c = ascii_space c) \<and>
     (\<forall>s. (\<forall>c \<in> set s. c < 128) \<longrightarrow> ud_lower U s = map to_lower s)"

lemma parse_bearer_key:
  assumes U: "ascii_compatible U" and raw: "raw \<noteq> []" "length raw \<le> MAX_CREDENTIAL_CHARS"
      "\<forall>c \<in> set raw. 45 \<le> c \<and> c < 123"
  shows "parse_bearer_credential U (Some (lit ''Bearer '' @ raw)) = Inr raw"
proof -
  have sp: "ud_isspace U c = ascii_space c" if "c < 128" for c using U that by (simp add: ascii_compatible_def)
  have ends: "\<not> ud_isspace U (hd raw)" "\<not> ud_isspace U (last raw)"
  proof -
    have "45 \<le> hd raw \<and> hd raw < 123" "45 \<le> last raw \<and> last raw < 123" using raw(1,3) by simp_all
    then show "\<not> ud_isspace U (hd raw)" "\<not> ud_isspace U (last raw)"
      using sp[of "hd raw"] sp[of "last raw"] by (simp_all add: ascii_space_def)
  qed
  have "strip U raw = raw" using raw(1) ends by (rule strip_id)
  moreover have "strip U (lit ''Bearer '' @ raw) = lit ''Bearer '' @ raw"
    using raw(1) ends(2) sp[of 66] by (intro strip_id) (simp_all add: ascii_space_def)
  moreover have "partition_at 32 (lit ''Bearer'' @ 32 # raw) = (lit ''Bearer'', True, raw)"
    by (rule partition_at_append) simp
  moreover have "ud_lower U (lit ''Bearer'') = lit ''bearer''"
    using U by (simp add: ascii_compatible_def to_lower_def ascii_upper_def)
  moreover have "is_token raw" using raw(3) by (fastforce simp: is_token_def)
  ultimately show ?thesis
    using raw(1,2) by (simp add: parse_bearer_credential_def Let_def)
qed

text \<open>
  C35. A key that has just been issued authenticates: presented as a bearer credential before it
  expires, to a store where no other row has its prefix, it yields exactly the principal of the
  row that was written.
\<close>

theorem issued_key_authenticates:
  assumes laws: "table_laws tb rows" and U: "ascii_compatible U"
    and random: "\<forall>x \<in> set random. x < 256" "length random = 32"
    and created: "key_create hmac tb new_id created random tenant_id name scopes pepper expires_at s = (Inr (record, raw), s1)"
    and unique: "\<forall>r \<in> set (rows s). ak_prefix r \<noteq> ak_prefix record"
    and live: "\<forall>t. expires_at = Some t \<longrightarrow> moment < instant t \<and> now < instant t"
    and reachable: "tb_select tb (\<lambda>k. ak_prefix k = prefix_of raw) s1 = (Inr found, s2)"
  shows "authenticate_bearer U (key_authenticate hmac tb now) pepper moment (Some (lit ''Bearer '' @ raw)) s1
    = (Inr (build_principal record), s2)"
proof -
  obtain g where g: "generate_api_key hmac random pepper = Inr g" "raw = gk_raw_key g"
      "ak_prefix record = gk_prefix g" "ak_key_hash record = gk_key_hash g" "ak_status record = KEY_ACTIVE"
      "ak_expires_at record = map_option instant expires_at"
    and ins: "tb_insert tb record s = (Inr (), s1)"
    using created by (auto simp: key_create_def bindS_Inr liftS_eq Let_def split: if_splits)
  note gen = generated_prefix[OF g(1)]
  have rows1: "rows s1 = rows s @ [record]" using table_insert[OF laws ins] by simp
  have "found = [record]"
    using table_select(2)[OF laws reachable refl] rows1 unique g(2,3) gen(1) by simp
  moreover have "hash_api_key hmac raw pepper = Inr (ak_key_hash record)" using gen(3) g(2,4) by simp
  moreover have usable: "is_usable now record" "is_usable moment record"
    using live g(5,6) by (auto simp: is_usable_def split: option.splits)
  ultimately have auth: "key_authenticate hmac tb now raw pepper s1 = (Inr (Some record), s2)"
    using reachable by (simp add: key_authenticate_def select_one_def bindS_def liftS_def verify_api_key_def)
  have raw: "raw = KEY_LABEL @ encode_body random" using gen(2) g(2) by simp
  have "length (encode_body random) = 43" using random(2) by (simp add: encode_body_def length_base64)
  moreover have "\<forall>c \<in> set raw. 45 \<le> c \<and> c < 123"
    using raw encode_body_ascii[OF random(1)] by (auto simp: KEY_LABEL_def)
  ultimately have "parse_bearer_credential U (Some (lit ''Bearer '' @ raw)) = Inr raw"
    using U raw by (intro parse_bearer_key) (simp_all add: KEY_LABEL_def MAX_CREDENTIAL_CHARS_def)
  then show ?thesis
    using auth usable(2) g(5)
    by (simp add: authenticate_bearer_def resolve_principal_def bindS_def catchS_def liftS_def is_usable_def
        split: option.splits)
qed

definition sample_created :: "(api_key \<times> ustr) res \<times> api_key list" where
  "sample_created = key_create zero_hmac plain_table 7 0 (replicate 32 200) 1 [] [] [] (Some (Aware 50)) []"

lemma sample_created_ok: "\<exists>row raw. sample_created = (Inr (row, raw), [row])"
proof -
  have "\<not> isl (fst sample_created)" by code_simp
  then show ?thesis
    by (auto simp: sample_created_def key_create_def bindS_def liftS_def Let_def plain_table_def
        split: sum.splits prod.splits)
qed

theorem issued_key_authenticates_witness:
  "\<exists>row raw s1. sample_created = (Inr (row, raw), s1) \<and>
     authenticate_bearer ascii_ucd (key_authenticate zero_hmac plain_table 5) [] 5 (Some (lit ''Bearer '' @ raw)) s1
       = (Inr (build_principal row), s1)"
proof -
  obtain row raw where c: "sample_created = (Inr (row, raw), [row])" using sample_created_ok by blast
  have "ascii_compatible ascii_ucd" by (simp add: ascii_compatible_def ascii_ucd_def)
  then have "authenticate_bearer ascii_ucd (key_authenticate zero_hmac plain_table 5) [] 5
      (Some (lit ''Bearer '' @ raw)) [row] = (Inr (build_principal row), [row])"
    by (rule issued_key_authenticates[OF plain_table_laws(1) _ _ _ c[unfolded sample_created_def]])
      (simp_all add: plain_table_def)
  then show ?thesis using c by blast
qed

section \<open>The bound on writes\<close>

fun track :: "rat \<Rightarrow> nat \<Rightarrow> (rat \<times> uuid) list \<Rightarrow> seen \<Rightarrow> bool list \<times> seen" where
  "track interval max_tracked [] seen = ([], seen)"
| "track interval max_tracked ((now, key) # cs) seen =
     (let (due, seen1) = should_update interval max_tracked now key seen;
          (answers, seen2) = track interval max_tracked cs seen1
      in (due # answers, seen2))"

definition remembers :: "uuid \<Rightarrow> rat \<Rightarrow> nat \<Rightarrow> seen \<Rightarrow> bool" where
  "remembers k t n seen \<longleftrightarrow> (\<exists>xs ys. seen = xs @ (k, t) # ys \<and> length ys \<le> n
     \<and> k \<notin> fst ` set xs \<and> k \<notin> fst ` set ys)"

lemma remembers_get: "remembers k t n seen \<Longrightarrow> dict_get seen k = Some t"
  by (auto simp: remembers_def map_add_def map_of_eq_None_iff[THEN iffD2] split: option.splits)

lemma should_update_length:
  "length seen \<le> max_tracked \<Longrightarrow> length (snd (should_update i max_tracked now key seen)) \<le> max_tracked"
  by (auto simp: should_update_def Let_def)

lemma track_length:
  "length seen \<le> max_tracked \<Longrightarrow> length (snd (track i max_tracked cs seen)) \<le> max_tracked"
proof (induction cs arbitrary: seen)
  case (Cons c cs)
  obtain now key where c: "c = (now, key)" by (cases c)
  have "length (snd (should_update i max_tracked now key seen)) \<le> max_tracked"
    by (rule should_update_length[OF Cons.prems])
  then show ?case using Cons.IH[of "snd (should_update i max_tracked now key seen)"] c
    by (auto simp: Let_def split: prod.splits)
qed simp

lemma written_remembered:
  assumes "should_update i max_tracked t k seen = (True, seen')" "0 < max_tracked"
  shows "remembers k t 0 seen'"
proof -
  let ?f = "filter (\<lambda>x. fst x \<noteq> k) seen"
  have "seen' = drop (length ?f + 1 - max_tracked) ?f @ [(k, t)]"
    using assms by (auto simp: should_update_def Let_def split: if_splits)
  moreover have "k \<notin> fst ` set (drop n ?f)" for n by (auto dest: in_set_dropD)
  ultimately show ?thesis by (auto simp: remembers_def)
qed

lemma other_write_remembered:
  assumes "remembers k t n seen" "key \<noteq> k" "Suc n < max_tracked"
    and "should_update i max_tracked now key seen = (due, seen')"
  shows "remembers k t (if due then Suc n else n) seen'"
proof (cases due)
  case True
  obtain xs ys where s: "seen = xs @ (k, t) # ys" "length ys \<le> n" "k \<notin> fst ` set xs" "k \<notin> fst ` set ys"
    using assms(1) by (auto simp: remembers_def)
  let ?f = "filter (\<lambda>x. fst x \<noteq> key)"
  let ?d = "length (?f xs) + Suc (Suc (length (?f ys))) - max_tracked"
  have "seen' = drop ?d (?f xs @ (k, t) # ?f ys @ [(key, now)])"
    using assms(2,4) s(1) True by (auto simp: should_update_def Let_def split: if_splits)
  moreover have "?d \<le> length (?f xs)"
    using assms(3) s(2) length_filter_le[of "\<lambda>x. fst x \<noteq> key" ys] by linarith
  ultimately have "seen' = drop ?d (?f xs) @ (k, t) # (?f ys @ [(key, now)])" by simp
  moreover have "length (?f ys @ [(key, now)]) \<le> Suc n"
    using order_trans[OF length_filter_le s(2)] by simp
  moreover have "k \<notin> fst ` set (drop ?d (?f xs))" using s(3) set_drop_subset[of ?d "?f xs"] by auto
  moreover have "k \<notin> fst ` set (?f ys @ [(key, now)])" using s(4) assms(2) by auto
  ultimately have "\<exists>xs ys. seen' = xs @ (k, t) # ys \<and> length ys \<le> Suc n \<and> k \<notin> fst ` set xs \<and> k \<notin> fst ` set ys"
    by blast
  then show ?thesis using True by (simp add: remembers_def)
next
  case False
  then show ?thesis using assms(1,4) by (auto simp: should_update_def Let_def split: if_splits)
qed

lemma track_remembers:
  assumes "remembers k t n seen" "\<forall>(now, key) \<in> set cs. now - t < i"
    and "track i max_tracked cs seen = (answers, seen')"
    and "n + length (filter (\<lambda>a. a) answers) < max_tracked"
  shows "remembers k t (n + length (filter (\<lambda>a. a) answers)) seen'"
  using assms
proof (induction cs arbitrary: n seen answers)
  case (Cons c cs)
  obtain now key where c: "c = (now, key)" by (cases c)
  obtain due seen1 where u: "should_update i max_tracked now key seen = (due, seen1)" by fastforce
  obtain rest where r: "track i max_tracked cs seen1 = (rest, seen')" and a: "answers = due # rest"
    using Cons.prems(3) c u by (auto split: prod.splits)
  have "remembers k t (if due then Suc n else n) seen1"
  proof (cases "key = k")
    case True
    then have "\<not> due" "seen1 = seen"
      using u remembers_get[OF Cons.prems(1)] Cons.prems(2) c by (auto simp: should_update_def)
    then show ?thesis using Cons.prems(1) by simp
  next
    case False
    show ?thesis
    proof (cases due)
      case True
      then have "Suc n < max_tracked \<or> Suc n = max_tracked" using Cons.prems(4) a by auto
      then show ?thesis using other_write_remembered[OF Cons.prems(1) False _ u] Cons.prems(4) a True by auto
    next
      case nd: False
      then show ?thesis using u Cons.prems(1) by (auto simp: should_update_def Let_def split: if_splits)
    qed
  qed
  moreover have "(if due then Suc n else n) + length (filter (\<lambda>a. a) rest) < max_tracked"
    using Cons.prems(4) a by (cases due) simp_all
  moreover have "\<forall>(now, key) \<in> set cs. now - t < i" using Cons.prems(2) by simp
  ultimately have "remembers k t ((if due then Suc n else n) + length (filter (\<lambda>a. a) rest)) seen'"
    using Cons.IH[OF _ _ r] by blast
  then show ?case using a by (simp split: if_splits)
qed simp

text \<open>
  The tracker remembers at most \<open>max_tracked\<close> keys, and within one interval a key is written
  once: after a write at \<open>t\<close>, unless \<open>max_tracked\<close> other writes have evicted it, every request
  of that key before \<open>t + interval\<close> is answered without a write.
\<close>

theorem last_used_bounded:
  assumes "should_update interval max_tracked t k seen = (True, seen1)" "length seen \<le> max_tracked"
    and "track interval max_tracked cs seen1 = (answers, seen2)"
    and "\<forall>(now, key) \<in> set cs. now - t < interval" "length (filter (\<lambda>a. a) answers) < max_tracked"
    and "now - t < interval"
  shows "should_update interval max_tracked now k seen2 = (False, seen2) \<and> length seen2 \<le> max_tracked"
proof -
  have "0 < max_tracked" using assms(5) by simp
  then have "remembers k t (0 + length (filter (\<lambda>a. a) answers)) seen2"
    using track_remembers[OF written_remembered[OF assms(1)] assms(4,3)] assms(5) by simp
  then have "should_update interval max_tracked now k seen2 = (False, seen2)"
    using assms(6) by (simp add: remembers_get should_update_def)
  moreover have "length seen1 \<le> max_tracked"
    using should_update_length[OF assms(2), of interval t k] assms(1) by simp
  ultimately show ?thesis using track_length[of seen1 max_tracked interval cs] assms(3) by simp
qed

theorem last_used_bounded_witness:
  "should_update 300 3 299 7 [(7, 0), (8, 2), (9, 5)] = (False, [(7, 0), (8, 2), (9, 5)])
   \<and> length [(7::uuid, 0::rat), (8, 2), (9, 5)] \<le> 3"
proof (rule last_used_bounded)
  show "should_update 300 3 0 7 [] = (True, [(7, 0)])" by (simp add: should_update_def)
  show "track 300 3 [(2, 8), (4, 7), (5, 9)] [(7, 0)] = ([True, False, True], [(7, 0), (8, 2), (9, 5)])"
    by (simp add: should_update_def)
qed simp_all

end
