(* ===== verification/Codec.thy ===== *)
theory Codec
  imports Framing
begin

text \<open>
  Encodings the gateway takes from elsewhere. JSON values are a datatype; \<open>orjson\<close>, which is not
  part of the repository, is a pair of functions (numbers are integers: the gateway writes no
  other), as are the textual forms of times and UUIDs
  that the standard library reads back. \<open>codec_laws\<close> states that what is written is read back.
\<close>

datatype json =
    JNull
  | JBool bool
  | JInt int
  | JStr ustr
  | JArr "json list"
  | JObj "(ustr \<times> json) list"

record codec =
  cd_dumps :: "json \<Rightarrow> bytes res"
  cd_loads :: "bytes \<Rightarrow> json option"
  cd_isoformat :: "int \<Rightarrow> ustr"
  cd_fromisoformat :: "ustr \<Rightarrow> int res"
  cd_uuid :: "ustr \<Rightarrow> nat res"
  cd_repr :: "json \<Rightarrow> ustr"

text \<open>An object as \<open>OPT_SORT_KEYS\<close> writes it; the values are scalars in every record the code writes.\<close>

definition json_scalar :: "json \<Rightarrow> bool" where
  "json_scalar j \<longleftrightarrow> (case j of JArr _ \<Rightarrow> False | JObj _ \<Rightarrow> False | _ \<Rightarrow> True)"

definition flat_object :: "json \<Rightarrow> bool" where
  "flat_object j \<longleftrightarrow> (case j of
       JObj kvs \<Rightarrow> sorted (map fst kvs) \<and> distinct (map fst kvs) \<and> (\<forall>(k, v) \<in> set kvs. json_scalar v)
     | _ \<Rightarrow> False)"

definition codec_laws :: "codec \<Rightarrow> bool" where
  "codec_laws C \<longleftrightarrow>
     (\<forall>j b. flat_object j \<longrightarrow> cd_dumps C j = Inr b \<longrightarrow> cd_loads C b = Some j) \<and>
     (\<forall>t. cd_fromisoformat C (cd_isoformat C t) = Inr t) \<and>
     (\<forall>u. valid_uuid u \<longrightarrow> cd_uuid C (uuid_str u) = Inr u)"

fun json_get :: "json \<Rightarrow> ustr \<Rightarrow> json option" where
  "json_get (JObj kvs) k = dict_get kvs k"
| "json_get _ k = None"

text \<open>\<open>str(value)\<close>, \<open>UUID(value)\<close> and \<open>datetime.fromisoformat(value)\<close> on a decoded value.\<close>

fun py_str :: "codec \<Rightarrow> json \<Rightarrow> ustr" where
  "py_str C (JStr s) = s"
| "py_str C (JInt i) = int_str i"
| "py_str C JNull = lit ''None''"
| "py_str C (JBool b) = (if b then lit ''True'' else lit ''False'')"
| "py_str C j = cd_repr C j"

fun py_uuid :: "codec \<Rightarrow> json \<Rightarrow> nat res" where
  "py_uuid C (JStr s) = cd_uuid C s"
| "py_uuid C JNull = Inl TypeError"
| "py_uuid C j = Inl AttributeError"

fun py_fromisoformat :: "codec \<Rightarrow> json \<Rightarrow> int res" where
  "py_fromisoformat C (JStr s) = cd_fromisoformat C s"
| "py_fromisoformat C j = Inl TypeError"

text \<open>\<open>value == n\<close>: a boolean equals its number.\<close>

fun json_equals_int :: "json \<Rightarrow> int \<Rightarrow> bool" where
  "json_equals_int (JInt i) n = (i = n)"
| "json_equals_int (JBool b) n = (of_bool b = n)"
| "json_equals_int _ n = False"

text \<open>\<open>payload[key]\<close>.\<close>

definition json_field :: "json \<Rightarrow> ustr \<Rightarrow> json res" where
  "json_field j k = (case json_get j k of None \<Rightarrow> Inl KeyError | Some v \<Rightarrow> Inr v)"

text \<open>
  An instance for worked examples: scalars in a made-up length-prefixed notation, times and UUIDs
  as their decimal or canonical text.
\<close>

fun plain_scalar :: "json \<Rightarrow> bytes" where
  "plain_scalar JNull = [0]"
| "plain_scalar (JBool b) = [1, of_bool b]"
| "plain_scalar (JInt i) = [2, of_bool (i < 0), nat \<bar>i\<bar>]"
| "plain_scalar (JStr s) = 3 # length s # s"
| "plain_scalar _ = [4]"

fun read_scalar :: "bytes \<Rightarrow> (json \<times> bytes) option" where
  "read_scalar (t # r) =
     (if t = 0 then Some (JNull, r)
      else case r of [] \<Rightarrow> None | x # r' \<Rightarrow>
        if t = 1 then Some (JBool (x = 1), r')
        else if t = 2 then (case r' of [] \<Rightarrow> None | n # r'' \<Rightarrow> Some (JInt (if x = 1 then - int n else int n), r''))
        else if t = 3 then Some (JStr (take x r'), drop x r')
        else None)"
| "read_scalar [] = None"

fun plain_fields :: "(ustr \<times> json) list \<Rightarrow> bytes" where
  "plain_fields [] = []"
| "plain_fields ((k, v) # kvs) = length k # k @ plain_scalar v @ plain_fields kvs"

fun read_fields :: "nat \<Rightarrow> bytes \<Rightarrow> (ustr \<times> json) list option" where
  "read_fields 0 b = Some []"
| "read_fields (Suc n) b = (case b of [] \<Rightarrow> None | l # r \<Rightarrow>
     (case read_scalar (drop l r) of None \<Rightarrow> None | Some (v, r') \<Rightarrow>
        map_option (\<lambda>kvs. (take l r, v) # kvs) (read_fields n r')))"

lemma read_plain_scalar: "json_scalar v \<Longrightarrow> read_scalar (plain_scalar v @ r) = Some (v, r)"
  by (cases v) (auto simp: json_scalar_def)

lemma read_plain_fields:
  "\<forall>(k, v) \<in> set kvs. json_scalar v \<Longrightarrow> read_fields (length kvs) (plain_fields kvs) = Some kvs"
  by (induction kvs) (auto simp: read_plain_scalar)

definition plain_dumps :: "json \<Rightarrow> bytes res" where
  "plain_dumps j = (case j of JObj kvs \<Rightarrow> Inr (length kvs # plain_fields kvs) | _ \<Rightarrow> Inl TypeError)"

definition plain_loads :: "bytes \<Rightarrow> json option" where
  "plain_loads b = (case b of [] \<Rightarrow> None | n # r \<Rightarrow> map_option JObj (read_fields n r))"

definition plain_iso :: "int \<Rightarrow> ustr" where
  "plain_iso t = [of_bool (t < 0), nat \<bar>t\<bar>]"

definition plain_from_iso :: "ustr \<Rightarrow> int res" where
  "plain_from_iso s = (case s of [x, n] \<Rightarrow> Inr (if x = 1 then - int n else int n) | _ \<Rightarrow> Inl ValueError)"

text \<open>\<open>UUID(s)\<close> on the canonical form: the digits without the dashes.\<close>

definition unhex :: "uchar \<Rightarrow> nat" where
  "unhex c = (if c < 58 then c - 48 else c - 87)"

definition plain_uuid :: "ustr \<Rightarrow> nat res" where
  "plain_uuid s = (let h = filter (\<lambda>c. c \<noteq> 45) s in
     if length h \<noteq> 32 then Inl ValueError else Inr (dec_be 16 (map unhex h)))"

definition plain_codec :: codec where
  "plain_codec = \<lparr>cd_dumps = plain_dumps, cd_loads = plain_loads, cd_isoformat = plain_iso,
     cd_fromisoformat = plain_from_iso, cd_uuid = plain_uuid, cd_repr = (\<lambda>_. [])\<rparr>"

lemma unhex_hex_digit: "d < 16 \<Longrightarrow> unhex (hex_digit d) = d"
  by (auto simp: unhex_def hex_digit_def)

lemma plain_uuid_str: "valid_uuid u \<Longrightarrow> plain_uuid (uuid_str u) = Inr u"
proof -
  assume "valid_uuid u"
  moreover have "map unhex (map hex_digit (enc_be 16 32 u)) = enc_be 16 32 u"
    by (simp add: unhex_hex_digit enc_be_bound map_idI)
  ultimately show ?thesis
    by (simp add: plain_uuid_def uuid_str_hex Let_def dec_enc_be[OF _ valid_uuid_pow] del: map_map)
qed

lemma plain_codec_laws: "codec_laws plain_codec"
proof -
  have "plain_loads b = Some j" if j: "flat_object j" "plain_dumps j = Inr b" for j b
  proof -
    obtain kvs where kvs: "j = JObj kvs" "b = length kvs # plain_fields kvs"
      using j by (cases j) (auto simp: flat_object_def plain_dumps_def)
    moreover have "read_fields (length kvs) (plain_fields kvs) = Some kvs"
      using j(1) kvs(1) by (intro read_plain_fields) (simp add: flat_object_def)
    ultimately show ?thesis by (simp add: plain_loads_def)
  qed
  then show ?thesis
    by (auto simp: codec_laws_def plain_codec_def plain_uuid_str plain_iso_def plain_from_iso_def)
qed

end
