(* ===== verification/Detection.thy ===== *)
theory Detection
  imports Domain
begin

text \<open>
  Detection, \<^verbatim>\<open>app/detection\<close>: the entity types and their tuning tables (\<open>entities.py\<close>), the
  configuration (\<open>config.py\<close>), the checksum validators (\<open>checksums.py\<close>), severity-first
  overlap resolution (\<open>overlap.py\<close>) and the post-processing every detector funnels through
  (\<open>postprocess.py\<close>). The recognizers produce the candidates: here a candidate list is an
  argument, the custom recognizers are in \<open>Recognizers\<close>, the engine in \<open>Detection_Engine\<close>.
\<close>

section \<open>Entity types and tables\<close>

definition PERSON :: ustr where "PERSON = lit ''PERSON''"
definition EMAIL_ADDRESS :: ustr where "EMAIL_ADDRESS = lit ''EMAIL_ADDRESS''"
definition PHONE_NUMBER :: ustr where "PHONE_NUMBER = lit ''PHONE_NUMBER''"
definition US_SSN :: ustr where "US_SSN = lit ''US_SSN''"
definition CREDIT_CARD :: ustr where "CREDIT_CARD = lit ''CREDIT_CARD''"
definition IP_ADDRESS :: ustr where "IP_ADDRESS = lit ''IP_ADDRESS''"
definition LOCATION :: ustr where "LOCATION = lit ''LOCATION''"
definition DATE_TIME :: ustr where "DATE_TIME = lit ''DATE_TIME''"
definition US_DRIVER_LICENSE :: ustr where "US_DRIVER_LICENSE = lit ''US_DRIVER_LICENSE''"
definition US_PASSPORT :: ustr where "US_PASSPORT = lit ''US_PASSPORT''"
definition MEDICAL_RECORD_NUMBER :: ustr where "MEDICAL_RECORD_NUMBER = lit ''MEDICAL_RECORD_NUMBER''"
definition HEALTH_PLAN_ID :: ustr where "HEALTH_PLAN_ID = lit ''HEALTH_PLAN_ID''"
definition ACCOUNT_NUMBER :: ustr where "ACCOUNT_NUMBER = lit ''ACCOUNT_NUMBER''"
definition API_KEY :: ustr where "API_KEY = lit ''API_KEY''"
definition ACCESS_TOKEN :: ustr where "ACCESS_TOKEN = lit ''ACCESS_TOKEN''"
definition CUSTOM_IDENTIFIER :: ustr where "CUSTOM_IDENTIFIER = lit ''CUSTOM_IDENTIFIER''"

definition SUPPORTED_ENTITY_TYPES :: "ustr list" where
  "SUPPORTED_ENTITY_TYPES =
     [PERSON, EMAIL_ADDRESS, PHONE_NUMBER, US_SSN, CREDIT_CARD, IP_ADDRESS, LOCATION, DATE_TIME,
      US_DRIVER_LICENSE, US_PASSPORT, MEDICAL_RECORD_NUMBER, HEALTH_PLAN_ID, ACCOUNT_NUMBER,
      API_KEY, ACCESS_TOKEN, CUSTOM_IDENTIFIER]"

definition DEFAULT_MIN_SCORE :: rat where "DEFAULT_MIN_SCORE = 35 / 100"

definition DEFAULT_ENTITY_THRESHOLDS :: "(ustr \<times> rat) list" where
  "DEFAULT_ENTITY_THRESHOLDS =
     [(EMAIL_ADDRESS, 5/10), (CREDIT_CARD, 5/10), (US_SSN, 5/10), (IP_ADDRESS, 5/10),
      (API_KEY, 5/10), (ACCESS_TOKEN, 5/10), (MEDICAL_RECORD_NUMBER, 5/10), (HEALTH_PLAN_ID, 5/10),
      (ACCOUNT_NUMBER, 5/10), (CUSTOM_IDENTIFIER, 5/10),
      (PHONE_NUMBER, 4/10), (US_DRIVER_LICENSE, 4/10), (US_PASSPORT, 4/10),
      (PERSON, 6/10), (LOCATION, 6/10), (DATE_TIME, 6/10)]"

definition SEVERITY_CRITICAL :: int where "SEVERITY_CRITICAL = 40"
definition SEVERITY_HIGH :: int where "SEVERITY_HIGH = 30"
definition SEVERITY_MEDIUM :: int where "SEVERITY_MEDIUM = 20"
definition SEVERITY_LOW :: int where "SEVERITY_LOW = 10"
definition SEVERITY_UNKNOWN :: int where "SEVERITY_UNKNOWN = 0"

definition ENTITY_PRIORITY :: "(ustr \<times> int) list" where
  "ENTITY_PRIORITY =
     [(API_KEY, SEVERITY_CRITICAL), (ACCESS_TOKEN, SEVERITY_CRITICAL),
      (US_SSN, SEVERITY_HIGH), (CREDIT_CARD, SEVERITY_HIGH), (US_PASSPORT, SEVERITY_HIGH),
      (US_DRIVER_LICENSE, SEVERITY_HIGH), (MEDICAL_RECORD_NUMBER, SEVERITY_HIGH),
      (HEALTH_PLAN_ID, SEVERITY_HIGH), (ACCOUNT_NUMBER, SEVERITY_HIGH),
      (EMAIL_ADDRESS, SEVERITY_MEDIUM), (PHONE_NUMBER, SEVERITY_MEDIUM),
      (IP_ADDRESS, SEVERITY_MEDIUM), (CUSTOM_IDENTIFIER, SEVERITY_MEDIUM),
      (PERSON, SEVERITY_LOW), (LOCATION, SEVERITY_LOW), (DATE_TIME, SEVERITY_LOW)]"

lemmas entity_type_defs = PERSON_def EMAIL_ADDRESS_def PHONE_NUMBER_def US_SSN_def CREDIT_CARD_def
  IP_ADDRESS_def LOCATION_def DATE_TIME_def US_DRIVER_LICENSE_def US_PASSPORT_def
  MEDICAL_RECORD_NUMBER_def HEALTH_PLAN_ID_def ACCOUNT_NUMBER_def API_KEY_def ACCESS_TOKEN_def
  CUSTOM_IDENTIFIER_def

lemmas severity_defs = SEVERITY_CRITICAL_def SEVERITY_HIGH_def SEVERITY_MEDIUM_def SEVERITY_LOW_def
  SEVERITY_UNKNOWN_def

lemma supported_types_valid: "list_all is_valid_entity_type SUPPORTED_ENTITY_TYPES"
  by (simp add: SUPPORTED_ENTITY_TYPES_def entity_type_defs is_valid_entity_type_def
      MAX_ENTITY_TYPE_LENGTH_def REDACTED_MARKER_def is_entity_char_def ascii_upper_def ascii_digit_def)

section \<open>Configuration\<close>

record detection_config =
  dc_supported_languages :: "ustr list"
  dc_enabled_entities :: "ustr list"
  dc_entity_thresholds :: "(ustr \<times> rat) list"
  dc_entity_priority :: "(ustr \<times> int) list"
  dc_min_score :: rat
  dc_allowlist :: "ustr list"
  dc_max_entities :: int
  dc_spacy_model :: ustr

definition normalize_allowlist_value :: "ucd \<Rightarrow> ustr \<Rightarrow> ustr" where
  "normalize_allowlist_value U value = ud_casefold U (strip U value)"

text \<open>\<open>DetectionConfig.__post_init__\<close>.\<close>

definition mk_detection_config :: "ucd \<Rightarrow> detection_config \<Rightarrow> detection_config res" where
  "mk_detection_config U c =
     (if \<not> (0 \<le> dc_min_score c \<and> dc_min_score c \<le> 1) then Inl ValueError
      else if dc_max_entities c < 1 then Inl ValueError
      else if dc_supported_languages c = [] then Inl ValueError
      else Inr (c\<lparr>dc_allowlist :=
                    filter (\<lambda>v. v \<noteq> []) (map (normalize_allowlist_value U) (dc_allowlist c))\<rparr>))"

definition threshold_for :: "detection_config \<Rightarrow> ustr \<Rightarrow> rat" where
  "threshold_for c entity_type =
     max (dc_min_score c)
         (case dict_get (dc_entity_thresholds c) entity_type of None \<Rightarrow> dc_min_score c | Some t \<Rightarrow> t)"

definition is_allowlisted :: "ucd \<Rightarrow> detection_config \<Rightarrow> ustr \<Rightarrow> bool" where
  "is_allowlisted U c value =
     (if dc_allowlist c = [] then False
      else normalize_allowlist_value U value \<in> set (dc_allowlist c))"

definition supports_language :: "detection_config \<Rightarrow> ustr \<Rightarrow> bool" where
  "supports_language c language \<longleftrightarrow> language \<in> set (dc_supported_languages c)"

definition with_allowlist :: "ucd \<Rightarrow> detection_config \<Rightarrow> ustr list \<Rightarrow> detection_config res" where
  "with_allowlist U c values = mk_detection_config U (c\<lparr>dc_allowlist := values\<rparr>)"

definition default_detection_config :: detection_config where
  "default_detection_config =
     \<lparr>dc_supported_languages = [lit ''en''], dc_enabled_entities = SUPPORTED_ENTITY_TYPES,
      dc_entity_thresholds = DEFAULT_ENTITY_THRESHOLDS, dc_entity_priority = ENTITY_PRIORITY,
      dc_min_score = DEFAULT_MIN_SCORE, dc_allowlist = [], dc_max_entities = 500,
      dc_spacy_model = lit ''en_core_web_lg''\<rparr>"

section \<open>Checksums\<close>

definition digits_only :: "ucd \<Rightarrow> ustr \<Rightarrow> ustr" where
  "digits_only U value = filter (ud_isdigit U) value"

fun luhn_total :: "nat \<Rightarrow> ustr \<Rightarrow> int" where
  "luhn_total position [] = 0"
| "luhn_total position (c # cs) =
     (let digit = int c - 48;
          digit = (if position mod 2 = 1
                   then (if digit * 2 > 9 then digit * 2 - 9 else digit * 2) else digit)
      in digit + luhn_total (Suc position) cs)"

definition luhn_is_valid :: "ucd \<Rightarrow> ustr \<Rightarrow> bool" where
  "luhn_is_valid U value =
     (let digits = digits_only U value
      in if length digits < 2 then False else luhn_total 0 (rev digits) mod 10 = 0)"

definition MIN_CARD_DIGITS :: nat where "MIN_CARD_DIGITS = 13"
definition MAX_CARD_DIGITS :: nat where "MAX_CARD_DIGITS = 19"

definition is_valid_credit_card :: "ucd \<Rightarrow> ustr \<Rightarrow> bool" where
  "is_valid_credit_card U value =
     (let digits = digits_only U value
      in if \<not> (MIN_CARD_DIGITS \<le> length digits \<and> length digits \<le> MAX_CARD_DIGITS) then False
         else luhn_is_valid U digits)"

definition has_low_character_variety :: "ucd \<Rightarrow> ustr \<Rightarrow> nat \<Rightarrow> bool" where
  "has_low_character_variety U value minimum_distinct \<longleftrightarrow>
     card (set (ud_casefold U value)) < minimum_distinct"

definition VALUE_VALIDATORS :: "ucd \<Rightarrow> (ustr \<times> (ustr \<Rightarrow> bool)) list" where
  "VALUE_VALIDATORS U = [(CREDIT_CARD, is_valid_credit_card U)]"

section \<open>Overlap resolution\<close>

definition dominance_key ::
    "(ustr \<times> int) list \<Rightarrow> detected_entity \<Rightarrow> int \<times> rat \<times> int \<times> int \<times> ustr \<times> ustr" where
  "dominance_key priority e =
     (let severity = (case dict_get priority (de_entity_type e) of
                        None \<Rightarrow> SEVERITY_UNKNOWN | Some s \<Rightarrow> s)
      in (- severity, - de_score e, - int (de_length e), int (de_start e), de_entity_type e,
          (case de_recognizer e of None \<Rightarrow> [] | Some r \<Rightarrow> r)))"

fun keep_dominant :: "detected_entity list \<Rightarrow> detected_entity list \<Rightarrow> detected_entity list" where
  "keep_dominant kept [] = kept"
| "keep_dominant kept (candidate # rest) =
     (if list_ex (overlaps candidate) kept then keep_dominant kept rest
      else keep_dominant (kept @ [candidate]) rest)"

definition resolve_overlaps :: "(ustr \<times> int) list \<Rightarrow> detected_entity list \<Rightarrow> detected_entity list" where
  "resolve_overlaps priority entities =
     sort_key (\<lambda>e. (de_start e, de_end e, de_entity_type e))
       (keep_dominant [] (sort_key (dominance_key priority) entities))"

section \<open>Post-processing\<close>

record candidate =
  ca_entity_type :: ustr
  ca_start :: int
  ca_end :: int
  ca_score :: rat
  ca_recognizer :: "ustr option"

definition span_is_valid :: "candidate \<Rightarrow> nat \<Rightarrow> bool" where
  "span_is_valid c text_length \<longleftrightarrow>
     0 \<le> ca_start c \<and> ca_start c < ca_end c \<and> ca_end c \<le> int text_length"

definition score_is_reportable :: "candidate \<Rightarrow> detection_config \<Rightarrow> bool" where
  "score_is_reportable c config \<longleftrightarrow> threshold_for config (ca_entity_type c) \<le> ca_score c"

definition value_is_valid :: "ucd \<Rightarrow> candidate \<Rightarrow> ustr \<Rightarrow> bool" where
  "value_is_valid U c value =
     (case dict_get (VALUE_VALIDATORS U) (ca_entity_type c) of
        None \<Rightarrow> True | Some validator \<Rightarrow> validator value)"

definition candidate_survives ::
    "ucd \<Rightarrow> ustr \<Rightarrow> detection_config \<Rightarrow> ustr list option \<Rightarrow> candidate \<Rightarrow> bool" where
  "candidate_survives U txt config requested c =
     (let value = slice txt (nat (ca_start c)) (nat (ca_end c))
      in if \<not> (ca_entity_type c \<in> set (dc_enabled_entities config)
               \<and> (case requested of None \<Rightarrow> True | Some r \<Rightarrow> ca_entity_type c \<in> set r)) then False
         else if \<not> span_is_valid c (length txt) then False
         else if \<not> value_is_valid U c value then False
         else if is_allowlisted U config value then False
         else if \<not> score_is_reportable c config then False
         else True)"

definition clamp_score :: "rat \<Rightarrow> rat" where
  "clamp_score s = min (max s 0) 1"

definition strip_recognizer :: "detected_entity \<Rightarrow> detected_entity" where
  "strip_recognizer e = e\<lparr>de_recognizer := None\<rparr>"

definition finalize :: "ucd \<Rightarrow> candidate list \<Rightarrow> ustr \<Rightarrow> detection_config \<Rightarrow> ustr list option \<Rightarrow> bool \<Rightarrow>
    detected_entity list res" where
  "finalize U candidates txt config requested diagnostic =
     bindR (traverseR (\<lambda>c. mk_entity (ca_entity_type c) (ca_start c) (ca_end c)
                             (clamp_score (ca_score c)) (ca_recognizer c))
              (filter (candidate_survives U txt config requested) candidates))
       (\<lambda>kept. let resolved = resolve_overlaps (dc_entity_priority config) kept
               in if int (length resolved) > dc_max_entities config
                  then Inl (GatewayError ENTITY_LIMIT_EXCEEDED '''')
                  else if diagnostic then Inr resolved
                  else Inr (map strip_recognizer resolved))"

section \<open>Properties of overlap resolution\<close>

lemma keep_dominant_subset: "set (keep_dominant kept cs) \<subseteq> set kept \<union> set cs"
  by (induction kept cs rule: keep_dominant.induct) auto

lemma keep_dominant_keeps: "set kept \<subseteq> set (keep_dominant kept cs)"
  by (induction kept cs rule: keep_dominant.induct) auto

definition pairwise_free :: "detected_entity list \<Rightarrow> bool" where
  "pairwise_free es \<longleftrightarrow> distinct es \<and> (\<forall>a \<in> set es. \<forall>b \<in> set es. a \<noteq> b \<longrightarrow> \<not> overlaps a b)"

lemma keep_dominant_pairwise:
  "pairwise_free kept \<Longrightarrow> \<forall>e \<in> set cs. wf_entity e \<Longrightarrow> pairwise_free (keep_dominant kept cs)"
proof (induction kept cs rule: keep_dominant.induct)
  case (2 kept c rest)
  show ?case
  proof (cases "list_ex (overlaps c) kept")
    case True
    then show ?thesis using 2 by simp
  next
    case False
    then have "pairwise_free (kept @ [c])"
      using 2(3,4) overlaps_refl[of c] overlaps_sym by (auto simp: pairwise_free_def list_ex_iff)
    then show ?thesis using 2 False by simp
  qed
qed simp

lemma keep_dominant_dominates:
  "sorted (map f cs) \<Longrightarrow> \<forall>k \<in> set kept. \<forall>c \<in> set cs. f k \<le> f c \<Longrightarrow> e \<in> set cs \<Longrightarrow>
     \<exists>k \<in> set (keep_dominant kept cs). (k = e \<or> overlaps e k) \<and> f k \<le> f e"
proof (induction kept cs arbitrary: e rule: keep_dominant.induct)
  case (2 kept c rest)
  show ?case
  proof (cases "list_ex (overlaps c) kept")
    case True
    then obtain k where "k \<in> set kept" "overlaps c k" by (auto simp: list_ex_iff)
    then show ?thesis using 2 True keep_dominant_keeps by (cases "e = c") (force, auto)
  next
    case False
    have "c \<in> set (keep_dominant (kept @ [c]) rest)" using keep_dominant_keeps[of "kept @ [c]"] by auto
    then show ?thesis using 2 False by (cases "e = c") auto
  qed
qed simp

lemma free_sorted_disjoint:
  assumes "pairwise_free es" "sorted (map (\<lambda>e. (de_start e, de_end e, de_entity_type e)) es)"
    "\<forall>e \<in> set es. wf_entity e"
  shows "disjoint_ordered es"
  using assms
proof (induction es)
  case (Cons e es)
  have "de_end e \<le> de_start x" if x: "x \<in> set es" for x
  proof -
    have "\<not> overlaps e x" "de_start e \<le> de_start x" "wf_entity e" "wf_entity x"
      using Cons.prems x by (auto simp: pairwise_free_def less_eq_prod_def)
    then show ?thesis by (auto simp: overlaps_def wf_entity_def)
  qed
  then show ?case using Cons by (auto simp: pairwise_free_def)
qed simp

lemma resolve_overlaps_set:
  "set (resolve_overlaps p es) = set (keep_dominant [] (sort_key (dominance_key p) es))"
  by (simp add: resolve_overlaps_def)

lemma resolve_overlaps_subset: "set (resolve_overlaps p es) \<subseteq> set es"
  using keep_dominant_subset[of "[]" "sort_key (dominance_key p) es"]
  by (auto simp: resolve_overlaps_set)

lemma resolve_overlaps_disjoint:
  assumes "\<forall>e \<in> set es. wf_entity e"
  shows "disjoint_ordered (resolve_overlaps p es)"
proof -
  let ?k = "keep_dominant [] (sort_key (dominance_key p) es)"
  have "pairwise_free ?k" using assms by (intro keep_dominant_pairwise) (auto simp: pairwise_free_def)
  then have "pairwise_free (resolve_overlaps p es)" by (simp add: resolve_overlaps_def pairwise_free_def)
  moreover have "sorted (map (\<lambda>e. (de_start e, de_end e, de_entity_type e)) (resolve_overlaps p es))"
    unfolding resolve_overlaps_def by (rule sorted_sort_key)
  moreover have "\<forall>e \<in> set (resolve_overlaps p es). wf_entity e"
    using assms resolve_overlaps_subset by blast
  ultimately show ?thesis by (rule free_sorted_disjoint)
qed

lemma resolve_overlaps_dominates:
  "e \<in> set es \<Longrightarrow>
     \<exists>k \<in> set (resolve_overlaps p es). (k = e \<or> overlaps e k) \<and> dominance_key p k \<le> dominance_key p e"
  unfolding resolve_overlaps_set by (rule keep_dominant_dominates) auto

interpretation det: span_resolver "resolve_overlaps p" for p
proof
  fix p and es :: "detected_entity list"
  show "set (resolve_overlaps p es) \<subseteq> set es" by (rule resolve_overlaps_subset)
next
  fix p and es :: "detected_entity list"
  assume "\<forall>e \<in> set es. wf_entity e"
  then show "disjoint_ordered (resolve_overlaps p es)" by (rule resolve_overlaps_disjoint)
next
  fix p e and es :: "detected_entity list"
  assume "\<forall>e \<in> set es. wf_entity e" "e \<in> set es"
  then show "\<exists>k \<in> set (resolve_overlaps p es). k = e \<or> overlaps e k"
    using resolve_overlaps_dominates by meson
qed

text \<open>
  Severity-first resolution keeps exactly one interpretation per character: the spans
  kept are candidates, ordered and disjoint; and a candidate is dropped only for a kept span
  that overlaps it and stands no lower in the dominance order (severity, confidence, length).
\<close>

theorem resolve_overlaps_dominant:
  assumes "\<forall>e \<in> set es. wf_entity e"
  shows "set (resolve_overlaps p es) \<subseteq> set es \<and> disjoint_ordered (resolve_overlaps p es)
    \<and> (\<forall>e \<in> set es. \<exists>k \<in> set (resolve_overlaps p es).
          (k = e \<or> overlaps e k) \<and> dominance_key p k \<le> dominance_key p e)"
  by (intro conjI ballI det.keeps_candidates det.keeps_disjoint assms resolve_overlaps_dominates)

lemma dominance_key_inj:
  "inj_on (dominance_key p) {e. wf_entity e \<and> de_recognizer e \<noteq> Some []}"
proof (rule inj_onI)
  fix x y
  assume "x \<in> {e. wf_entity e \<and> de_recognizer e \<noteq> Some []}" "y \<in> {e. wf_entity e \<and> de_recognizer e \<noteq> Some []}"
    and "dominance_key p x = dominance_key p y"
  then show "x = y"
    by (intro detected_entity.equality)
      (auto simp: dominance_key_def Let_def de_length_def wf_entity_def split: option.splits)
qed

text \<open>
  The order in which recognizers reported their hits does not matter: two permutations
  of the same candidates resolve to the same list.
\<close>

theorem resolve_overlaps_permutation:
  assumes "mset es = mset es'" "\<forall>e \<in> set es. wf_entity e \<and> de_recognizer e \<noteq> Some []"
  shows "resolve_overlaps p es = resolve_overlaps p es'"
proof -
  have "inj_on (dominance_key p) (set es)"
    using assms(2) by (intro inj_on_subset[OF dominance_key_inj]) auto
  then have "sort_key (dominance_key p) es = sort_key (dominance_key p) es'"
    using assms(1) by (intro sort_key_eq_sort_key)
  then show ?thesis by (simp add: resolve_overlaps_def)
qed

theorem resolve_overlaps_dominant_witness:
  "let es = [sample_span DATE_TIME 2 9, sample_span US_SSN 4 15]
   in set (resolve_overlaps ENTITY_PRIORITY es) \<subseteq> set es
      \<and> disjoint_ordered (resolve_overlaps ENTITY_PRIORITY es)
      \<and> (\<forall>e \<in> set es. \<exists>k \<in> set (resolve_overlaps ENTITY_PRIORITY es).
            (k = e \<or> overlaps e k) \<and> dominance_key ENTITY_PRIORITY k \<le> dominance_key ENTITY_PRIORITY e)"
  unfolding Let_def by (rule resolve_overlaps_dominant) (simp add: sample_span_def wf_entity_def)

theorem resolve_overlaps_permutation_witness:
  "resolve_overlaps ENTITY_PRIORITY [sample_span DATE_TIME 2 9, sample_span US_SSN 4 15]
   = resolve_overlaps ENTITY_PRIORITY [sample_span US_SSN 4 15, sample_span DATE_TIME 2 9]"
  by (rule resolve_overlaps_permutation) (simp_all add: sample_span_def wf_entity_def)

section \<open>Properties of the Luhn checksum\<close>

lemma luhn_total_append: "luhn_total n (xs @ ys) = luhn_total n xs + luhn_total (n + length xs) ys"
  by (induction xs arbitrary: n) (auto simp: Let_def)

lemma digits_cong_mod_10: "0 \<le> a \<and> a \<le> 9 \<Longrightarrow> 0 \<le> b \<and> b \<le> 9 \<Longrightarrow>
    (s + a + r) mod 10 = (s + b + r) mod 10 \<Longrightarrow> a = b" for a b :: int
proof -
  assume "0 \<le> a \<and> a \<le> 9" "0 \<le> b \<and> b \<le> 9" "(s + a + r) mod 10 = (s + b + r) mod 10"
  moreover from this(3) have "10 dvd (s + a + r) - (s + b + r)" by (simp only: mod_eq_dvd_iff)
  then have "10 dvd a - b" by (simp add: algebra_simps)
  then obtain k where k: "a - b = 10 * k" by (auto simp: dvd_def)
  ultimately have "k < 1" "- 1 < k" by linarith+
  then have "k = 0" by simp
  with k show "a = b" by simp
qed

lemma luhn_total_change:
  assumes "ascii_digit c" "ascii_digit d"
    and "luhn_total n (xs @ c # ys) mod 10 = 0" "luhn_total n (xs @ d # ys) mod 10 = 0"
  shows "c = d"
proof -
  define k where "k = n + length xs"
  define v where "v x = (if k mod 2 = 1 then (if (int x - 48) * 2 > 9 then (int x - 48) * 2 - 9
     else (int x - 48) * 2) else int x - 48)" for x
  have total: "luhn_total n (xs @ x # ys) = luhn_total n xs + v x + luhn_total (Suc k) ys" for x
    by (simp add: luhn_total_append v_def k_def Let_def)
  then have "(luhn_total n xs + v c + luhn_total (Suc k) ys) mod 10
      = (luhn_total n xs + v d + luhn_total (Suc k) ys) mod 10"
    using assms(3,4) by simp
  moreover have bound: "0 \<le> v x \<and> v x \<le> 9" if "ascii_digit x" for x
    using that by (auto simp: v_def ascii_digit_def)
  ultimately have "v c = v d" using digits_cong_mod_10 bound[OF assms(1)] bound[OF assms(2)] by blast
  then show "c = d" using assms(1,2)
    by (auto simp: v_def ascii_digit_def split: if_splits; presburger)
qed

lemma digits_only_digits:
  "\<forall>c \<in> set s. ascii_digit c \<Longrightarrow> \<forall>c. ascii_digit c \<longrightarrow> ud_isdigit U c \<Longrightarrow> digits_only U s = s"
  by (auto simp: digits_only_def filter_id_conv)

text \<open>
  The checksum detects every single-digit error: replacing one digit of a string of
  ASCII digits that passes by a different digit gives a string that fails.
\<close>

theorem luhn_detects_single_error:
  assumes dig: "\<forall>c \<in> set (xs @ c # ys). ascii_digit c" "ascii_digit d"
    and U: "\<forall>c. ascii_digit c \<longrightarrow> ud_isdigit U c"
    and valid: "luhn_is_valid U (xs @ c # ys)" and "c \<noteq> d"
  shows "\<not> luhn_is_valid U (xs @ d # ys)"
proof
  assume valid2: "luhn_is_valid U (xs @ d # ys)"
  have "luhn_total 0 (rev ys @ c # rev xs) mod 10 = 0"
    if "luhn_is_valid U (xs @ c # ys)" "\<forall>x \<in> set (xs @ c # ys). ascii_digit x" for c
    using that digits_only_digits[OF that(2) U] by (simp add: luhn_is_valid_def Let_def split: if_splits)
  from this[OF valid dig(1)] this[OF valid2] dig have "c = d"
    by (intro luhn_total_change[of c d 0 "rev ys" "rev xs"]) auto
  with \<open>c \<noteq> d\<close> show False by simp
qed

theorem luhn_detects_single_error_witness:
  "\<not> luhn_is_valid ascii_ucd (lit ''7992739871'' @ 52 # [])"
  by (rule luhn_detects_single_error[where c = 51])
    (simp_all add: ascii_defs luhn_is_valid_def digits_only_def Let_def)

section \<open>Properties of post-processing\<close>

definition entity_of :: "candidate \<Rightarrow> detected_entity" where
  "entity_of c = \<lparr>de_entity_type = ca_entity_type c, de_start = nat (ca_start c),
     de_end = nat (ca_end c), de_score = clamp_score (ca_score c), de_recognizer = ca_recognizer c\<rparr>"

lemma survives_valid: "candidate_survives U txt config req c \<Longrightarrow> span_is_valid c (length txt)"
  by (auto simp: candidate_survives_def Let_def split: if_splits)

lemma clamp_score_bounds: "0 \<le> clamp_score s \<and> clamp_score s \<le> 1"
  by (simp add: clamp_score_def)

lemma mk_entity_of:
  "span_is_valid c n \<Longrightarrow>
     mk_entity (ca_entity_type c) (ca_start c) (ca_end c) (clamp_score (ca_score c)) (ca_recognizer c)
       = Inr (entity_of c)"
  using clamp_score_bounds[of "ca_score c"] by (auto simp: mk_entity_def entity_of_def span_is_valid_def)

lemma wf_entity_of: "span_is_valid c n \<Longrightarrow> wf_entity (entity_of c) \<and> de_end (entity_of c) \<le> n"
  using clamp_score_bounds[of "ca_score c"] by (auto simp: wf_entity_def entity_of_def span_is_valid_def)

definition survivors ::
    "ucd \<Rightarrow> ustr \<Rightarrow> detection_config \<Rightarrow> ustr list option \<Rightarrow> candidate list \<Rightarrow> detected_entity list" where
  "survivors U txt config req cs = map entity_of (filter (candidate_survives U txt config req) cs)"

lemma finalize_survivors:
  "finalize U cs txt config req diagnostic =
     (let resolved = resolve_overlaps (dc_entity_priority config) (survivors U txt config req cs)
      in if int (length resolved) > dc_max_entities config
         then Inl (GatewayError ENTITY_LIMIT_EXCEEDED '''')
         else Inr (if diagnostic then resolved else map strip_recognizer resolved))"
proof -
  have "traverseR (\<lambda>c. mk_entity (ca_entity_type c) (ca_start c) (ca_end c) (clamp_score (ca_score c)) (ca_recognizer c))
          (filter (candidate_survives U txt config req) cs) = Inr (survivors U txt config req cs)"
    unfolding survivors_def by (rule traverseR_total) (auto intro!: mk_entity_of dest: survives_valid)
  then show ?thesis by (simp add: finalize_def Let_def)
qed

lemma strip_recognizer_sel [simp]:
  "de_start (strip_recognizer e) = de_start e" "de_end (strip_recognizer e) = de_end e"
  "de_entity_type (strip_recognizer e) = de_entity_type e" "de_score (strip_recognizer e) = de_score e"
  "wf_entity (strip_recognizer e) = wf_entity e" "de_recognizer (strip_recognizer e) = None"
  by (simp_all add: strip_recognizer_def wf_entity_def)

lemma disjoint_ordered_strip [simp]:
  "disjoint_ordered (map strip_recognizer es) = disjoint_ordered es"
  by (simp add: disjoint_ordered_def sorted_wrt_map)

lemma finalize_ok:
  assumes "finalize U cs txt config req diagnostic = Inr es"
  obtains resolved where
    "resolved = resolve_overlaps (dc_entity_priority config) (survivors U txt config req cs)"
    "es = (if diagnostic then resolved else map strip_recognizer resolved)"
    "int (length resolved) \<le> dc_max_entities config"
  using assms by (auto simp: finalize_survivors Let_def split: if_splits)

lemma survivors_wf: "\<forall>e \<in> set (survivors U txt config req cs). wf_entity e \<and> de_end e \<le> length txt"
  using wf_entity_of survives_valid by (fastforce simp: survivors_def)

text \<open>What C8 promises of one reported span, for the candidate it stems from.\<close>

definition reported_ok ::
    "ucd \<Rightarrow> ustr \<Rightarrow> detection_config \<Rightarrow> ustr list option \<Rightarrow> candidate list \<Rightarrow> detected_entity \<Rightarrow> bool" where
  "reported_ok U txt config req cs e \<longleftrightarrow>
     wf_entity e \<and> de_end e \<le> length txt
     \<and> de_entity_type e \<in> set (dc_enabled_entities config)
     \<and> (\<forall>r. req = Some r \<longrightarrow> de_entity_type e \<in> set r)
     \<and> \<not> is_allowlisted U config (slice txt (de_start e) (de_end e))
     \<and> (de_entity_type e = CREDIT_CARD \<longrightarrow> is_valid_credit_card U (slice txt (de_start e) (de_end e)))
     \<and> (\<exists>c \<in> set cs. ca_entity_type c = de_entity_type e \<and> int (de_start e) = ca_start c
          \<and> int (de_end e) = ca_end c \<and> threshold_for config (ca_entity_type c) \<le> ca_score c)"

lemma survivor_reported_ok:
  assumes "d \<in> set (survivors U txt config req cs)"
  shows "reported_ok U txt config req cs d"
proof -
  from assms obtain c where c: "c \<in> set cs" "candidate_survives U txt config req c" "d = entity_of c"
    by (auto simp: survivors_def)
  have "wf_entity d \<and> de_end d \<le> length txt" using survivors_wf assms by blast
  moreover have "ca_entity_type c \<in> set (dc_enabled_entities config)"
    "\<forall>r. req = Some r \<longrightarrow> ca_entity_type c \<in> set r"
    "\<not> is_allowlisted U config (slice txt (de_start d) (de_end d))"
    "ca_entity_type c = CREDIT_CARD \<longrightarrow> is_valid_credit_card U (slice txt (de_start d) (de_end d))"
    "threshold_for config (ca_entity_type c) \<le> ca_score c"
    "int (de_start d) = ca_start c" "int (de_end d) = ca_end c" "de_entity_type d = ca_entity_type c"
    using c(2,3) by (auto simp: candidate_survives_def entity_of_def Let_def value_is_valid_def
        VALUE_VALIDATORS_def score_is_reportable_def span_is_valid_def split: if_splits option.splits)
  ultimately show ?thesis using c(1) unfolding reported_ok_def by metis
qed

lemma reported_ok_strip: "reported_ok U txt config req cs (strip_recognizer e) = reported_ok U txt config req cs e"
  by (simp add: reported_ok_def)

text \<open>
  C33. Whatever the recognizers report, a detector's result is safe to splice and respects the
  configuration: the spans are ordered, disjoint and inside the text, at most
  \<open>max_entities\<close> many, each stems from a candidate of an enabled and requested type whose
  score reaches the threshold, covers no allowlisted value, and a reported card passes the
  checksum. Recognizer names are absent outside diagnostic mode.
\<close>

theorem finalize_sound:
  assumes "finalize U cs txt config req diagnostic = Inr es"
  shows "disjoint_ordered es \<and> int (length es) \<le> dc_max_entities config
    \<and> (\<forall>e \<in> set es. reported_ok U txt config req cs e \<and> (diagnostic \<or> de_recognizer e = None))"
proof -
  let ?S = "survivors U txt config req cs"
  from assms obtain resolved where r: "resolved = resolve_overlaps (dc_entity_priority config) ?S"
    and es: "es = (if diagnostic then resolved else map strip_recognizer resolved)"
    and len: "int (length resolved) \<le> dc_max_entities config" by (rule finalize_ok)
  have "\<forall>e \<in> set resolved. reported_ok U txt config req cs e"
    unfolding r using det.keeps_candidates survivor_reported_ok by blast
  moreover have "disjoint_ordered resolved" unfolding r using survivors_wf by (intro det.keeps_disjoint) blast
  ultimately show ?thesis using es len by (auto simp: reported_ok_strip)
qed

text \<open>
  Post-processing drops nothing silently: it either refuses the text for having more
  entities than allowed, or every candidate that passes the filters shares a character with
  a reported span. No other error is possible.
\<close>

theorem finalize_complete:
  "case finalize U cs txt config req diagnostic of
     Inl x \<Rightarrow> x = GatewayError ENTITY_LIMIT_EXCEEDED ''''
   | Inr es \<Rightarrow> list_all (\<lambda>c. list_ex (\<lambda>e. overlaps (entity_of c) e) es)
                 (filter (candidate_survives U txt config req) cs)"
proof (cases "finalize U cs txt config req diagnostic")
  case (Inl x)
  then show ?thesis by (auto simp: finalize_survivors Let_def split: if_splits)
next
  case (Inr es)
  have "list_ex (\<lambda>e. overlaps (entity_of c) e) es"
    if "c \<in> set cs" "candidate_survives U txt config req c" for c
  proof -
    let ?S = "survivors U txt config req cs"
    have c: "entity_of c \<in> set ?S" using that by (simp add: survivors_def)
    then have "wf_entity (entity_of c)" using survivors_wf by blast
    then obtain k where k: "k \<in> set (resolve_overlaps (dc_entity_priority config) ?S)" "overlaps (entity_of c) k"
      using det.drops_overlapped[OF _ c] survivors_wf overlaps_refl by metis
    moreover have "overlaps (entity_of c) (strip_recognizer k) = overlaps (entity_of c) k"
      by (simp add: overlaps_def)
    ultimately show ?thesis
      using Inr by (auto simp: finalize_survivors Let_def list_ex_iff split: if_splits)
  qed
  then show ?thesis using Inr by (simp add: list_all_iff)
qed


definition sample_candidate :: candidate where
  "sample_candidate = \<lparr>ca_entity_type = US_SSN, ca_start = 4, ca_end = 7, ca_score = 1,
     ca_recognizer = Some (lit ''ssn'')\<rparr>"

lemma sample_finalize:
  "finalize ascii_ucd [sample_candidate] (lit ''ssn 123'') default_detection_config None False
   = Inr [\<lparr>de_entity_type = US_SSN, de_start = 4, de_end = 7, de_score = 1, de_recognizer = None\<rparr>]"
  by (simp add: finalize_def sample_candidate_def candidate_survives_def default_detection_config_def
      SUPPORTED_ENTITY_TYPES_def span_is_valid_def value_is_valid_def VALUE_VALIDATORS_def
      is_allowlisted_def score_is_reportable_def threshold_for_def DEFAULT_ENTITY_THRESHOLDS_def
      DEFAULT_MIN_SCORE_def entity_type_defs mk_entity_def clamp_score_def resolve_overlaps_def
      strip_recognizer_def Let_def)

theorem finalize_sound_witness:
  "let es = [\<lparr>de_entity_type = US_SSN, de_start = 4, de_end = 7, de_score = 1, de_recognizer = None\<rparr>]
   in disjoint_ordered es \<and> int (length es) \<le> dc_max_entities default_detection_config
    \<and> (\<forall>e \<in> set es. reported_ok ascii_ucd (lit ''ssn 123'') default_detection_config None [sample_candidate] e
          \<and> (False \<or> de_recognizer e = None))"
  unfolding Let_def by (rule finalize_sound[OF sample_finalize])

end
