(* ===== verification/Recognizers.thy ===== *)
theory Recognizers
  imports Detection
begin

text \<open>
  The gateway's own recognizers, \<^verbatim>\<open>app/detection/recognizers.py\<close>: what \<open>re\<close> does with the
  constructs their patterns use (a backtracking matcher that lists the matches at a position in
  the order Python tries them, and \<open>finditer\<close> over it), the compiled patterns, and
  \<open>RegexRecognizer.analyze\<close>. The engine that calls them is in \<open>Detection_Engine\<close>.
\<close>

section \<open>Regular expressions\<close>

text \<open>
  The constructs of the patterns: a character class, \<open>\b\<close>, greedy repetition of a class between
  bounds, the greedy \<open>+\<close> of a group, \<open>?\<close>, alternation in order, and the named group \<open>value\<close>.
\<close>

datatype regex =
    Eps
  | Chars "uchar \<Rightarrow> bool"
  | Word_Boundary
  | Seq regex regex
  | Alt regex regex
  | Opt regex
  | Repeat "uchar \<Rightarrow> bool" nat "nat option"
  | Plus regex
  | Group regex

text \<open>A state of the matcher: the position and the span of the group, \<open>(-1, -1)\<close> being \<open>None\<close>.\<close>

type_synonym match_state = "nat \<times> (nat \<times> nat) option"

definition word_char :: "ucd \<Rightarrow> uchar \<Rightarrow> bool" where
  "word_char U c \<longleftrightarrow> ud_isalnum U c \<or> c = 95"

definition word_at :: "ucd \<Rightarrow> ustr \<Rightarrow> nat \<Rightarrow> bool" where
  "word_at U s i \<longleftrightarrow> i < length s \<and> word_char U (s ! i)"

definition at_boundary :: "ucd \<Rightarrow> ustr \<Rightarrow> nat \<Rightarrow> bool" where
  "at_boundary U s i \<longleftrightarrow> word_at U s i \<noteq> (0 < i \<and> word_at U s (i - 1))"

definition run_length :: "(uchar \<Rightarrow> bool) \<Rightarrow> ustr \<Rightarrow> nat \<Rightarrow> nat option \<Rightarrow> nat" where
  "run_length P s i hi =
     (let n = length (takeWhile P (drop i s)) in case hi of None \<Rightarrow> n | Some m \<Rightarrow> min n m)"

text \<open>The further rounds of a repeated group; each consumes a character, so fuel never runs out.\<close>

fun rounds :: "nat \<Rightarrow> (match_state \<Rightarrow> match_state list) \<Rightarrow> match_state \<Rightarrow> match_state list" where
  "rounds 0 body st = [st]"
| "rounds (Suc fuel) body st = concat (map (rounds fuel body) (body st)) @ [st]"

primrec runs :: "ucd \<Rightarrow> regex \<Rightarrow> ustr \<Rightarrow> match_state \<Rightarrow> match_state list" where
  "runs U Eps s st = [st]"
| "runs U (Chars P) s st = (if fst st < length s \<and> P (s ! fst st) then [(Suc (fst st), snd st)] else [])"
| "runs U Word_Boundary s st = (if at_boundary U s (fst st) then [st] else [])"
| "runs U (Seq a b) s st = concat (map (runs U b s) (runs U a s st))"
| "runs U (Alt a b) s st = runs U a s st @ runs U b s st"
| "runs U (Opt a) s st = runs U a s st @ [st]"
| "runs U (Repeat P lo hi) s st =
     map (\<lambda>k. (fst st + k, snd st)) (rev [lo ..< Suc (run_length P s (fst st) hi)])"
| "runs U (Plus a) s st = concat (map (rounds (length s) (runs U a s)) (runs U a s st))"
| "runs U (Group a) s st = map (\<lambda>r. (fst r, Some (fst st, fst r))) (runs U a s st)"

text \<open>The match object: the whole span and that of the group.\<close>

record re_match =
  rm_start :: nat
  rm_end :: nat
  rm_group :: "(nat \<times> nat) option"

definition match_at :: "ucd \<Rightarrow> regex \<Rightarrow> ustr \<Rightarrow> nat \<Rightarrow> re_match option" where
  "match_at U r s i = (case runs U r s (i, None) of
       [] \<Rightarrow> None
     | st # _ \<Rightarrow> Some \<lparr>rm_start = i, rm_end = fst st, rm_group = snd st\<rparr>)"

text \<open>
  \<open>finditer\<close>: the leftmost match from the position, then on from its end. No pattern matches
  the empty string (\<open>patterns_consume\<close>), so what Python does after an empty match is not needed.
\<close>

function finditer :: "ucd \<Rightarrow> regex \<Rightarrow> ustr \<Rightarrow> nat \<Rightarrow> re_match list" where
  "finditer U r s i =
     (if length s < i then []
      else case match_at U r s i of
        None \<Rightarrow> finditer U r s (Suc i)
      | Some m \<Rightarrow> m # finditer U r s (max (rm_end m) (Suc i)))"
  by pat_completeness auto
termination by (relation "measure (\<lambda>(U, r, s, i). Suc (length s) - i)") auto

declare finditer.simps [simp del]

section \<open>Case-insensitive patterns\<close>

text \<open>
  \<open>re.IGNORECASE\<close> on a pattern of ASCII letters: the letters of the other case, and the four
  characters outside ASCII that the documentation of \<open>re\<close> names.
\<close>

definition case_fold :: "uchar \<Rightarrow> uchar" where
  "case_fold c = (if ascii_upper c then c + 32
     else if c = 304 \<or> c = 305 then 105
     else if c = 383 then 115
     else if c = 8490 then 107
     else c)"

definition either_case :: "(uchar \<Rightarrow> bool) \<Rightarrow> uchar \<Rightarrow> bool" where
  "either_case P c \<longleftrightarrow> P c \<or> P (case_fold c) \<or> (ascii_lower (case_fold c) \<and> P (case_fold c - 32))"

primrec ignorecase :: "regex \<Rightarrow> regex" where
  "ignorecase Eps = Eps"
| "ignorecase (Chars P) = Chars (either_case P)"
| "ignorecase Word_Boundary = Word_Boundary"
| "ignorecase (Seq a b) = Seq (ignorecase a) (ignorecase b)"
| "ignorecase (Alt a b) = Alt (ignorecase a) (ignorecase b)"
| "ignorecase (Opt a) = Opt (ignorecase a)"
| "ignorecase (Repeat P lo hi) = Repeat (either_case P) lo hi"
| "ignorecase (Plus a) = Plus (ignorecase a)"
| "ignorecase (Group a) = Group (ignorecase a)"

section \<open>Building blocks of the patterns\<close>

definition one_of :: "string \<Rightarrow> uchar \<Rightarrow> bool" where
  "one_of cs c \<longleftrightarrow> c \<in> set (lit cs)"

definition alnum :: "uchar \<Rightarrow> bool" where
  "alnum c \<longleftrightarrow> ascii_upper c \<or> ascii_lower c \<or> ascii_digit c"

definition upper_alnum :: "uchar \<Rightarrow> bool" where
  "upper_alnum c \<longleftrightarrow> ascii_upper c \<or> ascii_digit c"

definition alpha :: "uchar \<Rightarrow> bool" where
  "alpha c \<longleftrightarrow> ascii_upper c \<or> ascii_lower c"

primrec letters :: "ustr \<Rightarrow> regex" where
  "letters [] = Eps"
| "letters (c # cs) = Seq (Chars ((=) c)) (letters cs)"

definition word :: "string \<Rightarrow> regex" where
  "word w = letters (lit w)"

primrec seqs :: "regex list \<Rightarrow> regex" where
  "seqs [] = Eps"
| "seqs (r # rs) = Seq r (seqs rs)"

fun alts :: "regex list \<Rightarrow> regex" where
  "alts [] = Eps"
| "alts [r] = r"
| "alts (r # rs) = Alt r (alts rs)"

definition exactly :: "(uchar \<Rightarrow> bool) \<Rightarrow> nat \<Rightarrow> regex" where
  "exactly P n = Repeat P n (Some n)"

definition at_least :: "(uchar \<Rightarrow> bool) \<Rightarrow> nat \<Rightarrow> regex" where
  "at_least P n = Repeat P n None"

definition spaces :: "ucd \<Rightarrow> regex" where
  "spaces U = Repeat (ud_isspace U) 0 None"

definition maybe :: "string \<Rightarrow> regex" where
  "maybe cs = Opt (Chars (one_of cs))"

definition dashed :: "uchar \<Rightarrow> bool" where
  "dashed c \<longleftrightarrow> alnum c \<or> one_of ''_-'' c"

section \<open>The patterns\<close>

datatype span_group = Whole_Match | Value_Group

record compiled_pattern =
  cp_name :: ustr
  cp_regex :: regex
  cp_score :: rat
  cp_group :: span_group

definition mk_pattern :: "string \<Rightarrow> regex \<Rightarrow> rat \<Rightarrow> span_group \<Rightarrow> compiled_pattern" where
  "mk_pattern name r score g = \<lparr>cp_name = lit name, cp_regex = r, cp_score = score, cp_group = g\<rparr>"

record recognizer =
  rc_name :: ustr
  rc_entity :: ustr
  rc_context :: "ustr list"
  rc_patterns :: "compiled_pattern list"
  rc_language :: ustr

definition openai_key :: regex where
  "openai_key = seqs [Word_Boundary, word ''sk-'', at_least dashed 16, Word_Boundary]"

definition aws_key :: regex where
  "aws_key = seqs [Word_Boundary, word ''AKIA'', exactly upper_alnum 16, Word_Boundary]"

definition github_token :: regex where
  "github_token = seqs [Word_Boundary, word ''gh'', Chars (one_of ''pousr''), word ''_'',
     at_least alnum 20, Word_Boundary]"

definition slack_token :: regex where
  "slack_token = seqs [Word_Boundary, word ''xox'', Chars (one_of ''baprs''), word ''-'',
     at_least (\<lambda>c. alnum c \<or> one_of ''-'' c) 10, Word_Boundary]"

definition google_key :: regex where
  "google_key = seqs [Word_Boundary, word ''AIza'', exactly dashed 35, Word_Boundary]"

definition quotes :: string where "quotes = [CHR 0x22, CHR 0x27]"

definition secret_label :: regex where
  "secret_label = alts
     [seqs [word ''api'', maybe ''_-'', word ''key''], word ''apikey'',
      seqs [word ''secret'', maybe ''_-'', word ''key''],
      seqs [word ''client'', maybe ''_-'', word ''secret''],
      seqs [word ''access'', maybe ''_-'', word ''key''],
      seqs [word ''private'', maybe ''_-'', word ''key''], word ''password'']"

definition labelled_secret :: "ucd \<Rightarrow> regex" where
  "labelled_secret U = ignorecase (seqs
     [secret_label, maybe quotes, spaces U, Chars (one_of '':=''), spaces U, maybe quotes,
      Group (at_least (\<lambda>c. alnum c \<or> one_of ''_-./+'' c) 16)])"

definition API_KEY_CONTEXT :: "ustr list" where
  "API_KEY_CONTEXT = [lit ''api'', lit ''key'', lit ''secret'', lit ''credential'', lit ''token'',
     lit ''authorization'']"

definition ApiKeyRecognizer :: "ucd \<Rightarrow> ustr \<Rightarrow> recognizer" where
  "ApiKeyRecognizer U language =
     \<lparr>rc_name = lit ''ApiKeyRecognizer'', rc_entity = API_KEY, rc_context = API_KEY_CONTEXT,
      rc_patterns =
        [mk_pattern ''openai style key'' openai_key (9/10) Whole_Match,
         mk_pattern ''aws access key id'' aws_key (9/10) Whole_Match,
         mk_pattern ''github token'' github_token (9/10) Whole_Match,
         mk_pattern ''slack token'' slack_token (85/100) Whole_Match,
         mk_pattern ''google api key'' google_key (9/10) Whole_Match,
         mk_pattern ''labelled secret assignment'' (labelled_secret U) (7/10) Value_Group],
      rc_language = language\<rparr>"

definition bearer :: "ucd \<Rightarrow> regex" where
  "bearer U = ignorecase (seqs
     [Word_Boundary, word ''bearer'', Repeat (ud_isspace U) 1 None,
      Group (Seq (at_least (\<lambda>c. alnum c \<or> one_of ''-._~+/'' c) 20)
                 (Repeat (one_of ''='') 0 (Some 2)))])"

definition json_web_token :: regex where
  "json_web_token = seqs [Word_Boundary, word ''eyJ'', at_least dashed 8, word ''.'',
     at_least dashed 8, word ''.'', at_least dashed 8]"

definition BearerTokenRecognizer :: "ucd \<Rightarrow> ustr \<Rightarrow> recognizer" where
  "BearerTokenRecognizer U language =
     \<lparr>rc_name = lit ''BearerTokenRecognizer'', rc_entity = ACCESS_TOKEN,
      rc_context = [lit ''authorization'', lit ''bearer'', lit ''token'', lit ''jwt'', lit ''auth''],
      rc_patterns =
        [mk_pattern ''authorization bearer'' (bearer U) (85/100) Value_Group,
         mk_pattern ''json web token'' json_web_token (9/10) Whole_Match],
      rc_language = language\<rparr>"

definition mrn_prefixed :: "ucd \<Rightarrow> regex" where
  "mrn_prefixed U = seqs [Word_Boundary, word ''MRN-'', exactly (ud_isdecimal U) 8, Word_Boundary]"

definition mrn_labelled :: "ucd \<Rightarrow> regex" where
  "mrn_labelled U = ignorecase (seqs
     [Word_Boundary, word ''MRN'', spaces U, maybe '':#'', spaces U,
      Group (exactly (ud_isdecimal U) 8), Word_Boundary])"

definition MedicalRecordNumberRecognizer :: "ucd \<Rightarrow> ustr \<Rightarrow> recognizer" where
  "MedicalRecordNumberRecognizer U language =
     \<lparr>rc_name = lit ''MedicalRecordNumberRecognizer'', rc_entity = MEDICAL_RECORD_NUMBER,
      rc_context = [lit ''mrn'', lit ''medical'', lit ''record'', lit ''patient'', lit ''chart'',
        lit ''hospital'', lit ''admission''],
      rc_patterns =
        [mk_pattern ''mrn prefixed'' (mrn_prefixed U) (85/100) Whole_Match,
         mk_pattern ''mrn labelled'' (mrn_labelled U) (6/10) Value_Group],
      rc_language = language\<rparr>"

definition hpid_prefixed :: regex where
  "hpid_prefixed = seqs [Word_Boundary, word ''HPID-'', exactly upper_alnum 10, Word_Boundary]"

definition number_label :: regex where
  "number_label = Seq (word ''no'') (maybe ''.'')"

definition health_plan_labelled :: "ucd \<Rightarrow> regex" where
  "health_plan_labelled U = ignorecase (seqs
     [Word_Boundary,
      alts [seqs [word ''health'', Repeat (ud_isspace U) 1 None, word ''plan''], word ''member'',
        word ''subscriber'', word ''policy''],
      spaces U, alts [word ''id'', word ''number'', number_label, word ''#''], spaces U,
      maybe '':#'', spaces U, Group (Repeat upper_alnum 9 (Some 12)), Word_Boundary])"

definition HealthPlanIdRecognizer :: "ucd \<Rightarrow> ustr \<Rightarrow> recognizer" where
  "HealthPlanIdRecognizer U language =
     \<lparr>rc_name = lit ''HealthPlanIdRecognizer'', rc_entity = HEALTH_PLAN_ID,
      rc_context = [lit ''health'', lit ''plan'', lit ''member'', lit ''insurance'', lit ''policy'',
        lit ''subscriber'', lit ''coverage'', lit ''hpid''],
      rc_patterns =
        [mk_pattern ''hpid prefixed'' hpid_prefixed (85/100) Whole_Match,
         mk_pattern ''health plan labelled'' (health_plan_labelled U) (6/10) Value_Group],
      rc_language = language\<rparr>"

definition acct_prefixed :: "ucd \<Rightarrow> regex" where
  "acct_prefixed U = seqs [Word_Boundary, word ''ACCT-'', exactly (ud_isdecimal U) 4, word ''-'',
     exactly (ud_isdecimal U) 6, Word_Boundary]"

definition account_labelled :: "ucd \<Rightarrow> regex" where
  "account_labelled U = ignorecase (seqs
     [Word_Boundary, word ''acc'', Opt (word ''oun''), word ''t'', spaces U,
      alts [word ''number'', number_label, word ''#'', word ''id''], spaces U, maybe '':#'',
      spaces U, Group (Repeat (ud_isdecimal U) 8 (Some 12)), Word_Boundary])"

definition EnterpriseAccountNumberRecognizer :: "ucd \<Rightarrow> ustr \<Rightarrow> recognizer" where
  "EnterpriseAccountNumberRecognizer U language =
     \<lparr>rc_name = lit ''EnterpriseAccountNumberRecognizer'', rc_entity = ACCOUNT_NUMBER,
      rc_context = [lit ''account'', lit ''acct'', lit ''customer'', lit ''billing'', lit ''invoice'',
        lit ''contract''],
      rc_patterns =
        [mk_pattern ''acct prefixed'' (acct_prefixed U) (85/100) Whole_Match,
         mk_pattern ''account labelled'' (account_labelled U) (55/100) Value_Group],
      rc_language = language\<rparr>"

definition email_any_tld :: regex where
  "email_any_tld = seqs
     [Word_Boundary, at_least (\<lambda>c. alnum c \<or> one_of ''._%+-'' c) 1, word ''@'',
      Plus (seqs [Chars alnum,
        Opt (Seq (at_least (\<lambda>c. alnum c \<or> one_of ''-'' c) 0) (Chars alnum)), word ''.'']),
      at_least alpha 2, Word_Boundary]"

definition InternalEmailRecognizer :: "ustr \<Rightarrow> recognizer" where
  "InternalEmailRecognizer language =
     \<lparr>rc_name = lit ''InternalEmailRecognizer'', rc_entity = EMAIL_ADDRESS,
      rc_context = [lit ''email'', lit ''e-mail'', lit ''mail'', lit ''contact'', lit ''address''],
      rc_patterns = [mk_pattern ''email any tld'' email_any_tld (9/10) Whole_Match],
      rc_language = language\<rparr>"

definition build_custom_recognizers :: "ucd \<Rightarrow> ustr \<Rightarrow> recognizer list" where
  "build_custom_recognizers U language =
     [ApiKeyRecognizer U language, BearerTokenRecognizer U language,
      MedicalRecordNumberRecognizer U language, HealthPlanIdRecognizer U language,
      EnterpriseAccountNumberRecognizer U language, InternalEmailRecognizer language]"

section \<open>Analysis\<close>

record recognizer_result =
  rr_entity_type :: ustr
  rr_start :: int
  rr_end :: int
  rr_score :: rat
  rr_pattern :: ustr
  rr_recognizer :: "ustr option"

text \<open>\<open>is_valid\<close>: filler is judged by the part after the last hyphen.\<close>

definition is_valid_value :: "ucd \<Rightarrow> ustr \<Rightarrow> bool" where
  "is_valid_value U value \<longleftrightarrow> \<not> has_low_character_variety U (last (split_on 45 value)) 2"

definition match_span :: "re_match \<Rightarrow> span_group \<Rightarrow> int \<times> int" where
  "match_span m g = (case g of
       Whole_Match \<Rightarrow> (int (rm_start m), int (rm_end m))
     | Value_Group \<Rightarrow> (case rm_group m of None \<Rightarrow> (-1, -1) | Some (a, b) \<Rightarrow> (int a, int b)))"

definition hit_result :: "recognizer \<Rightarrow> compiled_pattern \<Rightarrow> int \<times> int \<Rightarrow> recognizer_result" where
  "hit_result R p sp = \<lparr>rr_entity_type = rc_entity R, rr_start = fst sp, rr_end = snd sp,
     rr_score = cp_score p, rr_pattern = cp_name p, rr_recognizer = Some (rc_name R)\<rparr>"

definition hit_kept :: "ucd \<Rightarrow> ustr \<Rightarrow> int \<times> int \<Rightarrow> bool" where
  "hit_kept U txt sp =
     (if fst sp < 0 \<or> snd sp \<le> fst sp then False
      else if \<not> is_valid_value U (slice txt (nat (fst sp)) (nat (snd sp))) then False
      else True)"

definition pattern_hits :: "ucd \<Rightarrow> recognizer \<Rightarrow> ustr \<Rightarrow> compiled_pattern \<Rightarrow> recognizer_result list" where
  "pattern_hits U R txt p =
     map (hit_result R p)
       (filter (hit_kept U txt)
         (map (\<lambda>m. match_span m (cp_group p)) (finditer U (cp_regex p) txt 0)))"

definition recognizer_analyze :: "ucd \<Rightarrow> recognizer \<Rightarrow> ustr \<Rightarrow> ustr list \<Rightarrow> recognizer_result list" where
  "recognizer_analyze U R txt entities =
     (if rc_entity R \<notin> set entities then []
      else concat (map (pattern_hits U R txt) (rc_patterns R)))"


section \<open>Properties of the matcher\<close>

definition group_ok :: "nat \<Rightarrow> match_state \<Rightarrow> match_state \<Rightarrow> bool" where
  "group_ok n st r \<longleftrightarrow> fst st \<le> fst r \<and> fst r \<le> n
     \<and> (snd r = snd st \<or> (\<exists>a b. snd r = Some (a, b) \<and> fst st \<le> a \<and> a \<le> b \<and> b \<le> fst r))"

lemma group_ok_trans: "group_ok n st r \<Longrightarrow> group_ok n r q \<Longrightarrow> group_ok n st q"
  by (auto simp: group_ok_def)

lemma run_length_bound: "i \<le> length s \<Longrightarrow> i + run_length P s i hi \<le> length s"
  using length_takeWhile_le[of P "drop i s"] by (auto simp: run_length_def Let_def split: option.split)

lemma rounds_ok:
  assumes "\<And>st r. fst st \<le> n \<Longrightarrow> r \<in> set (body st) \<Longrightarrow> group_ok n st r" "fst st \<le> n"
    and "r \<in> set (rounds fuel body st)"
  shows "group_ok n st r"
  using assms(2,3)
proof (induction fuel arbitrary: st)
  case 0
  then show ?case by (simp add: group_ok_def)
next
  case (Suc fuel)
  then consider "r = st" | q where "q \<in> set (body st)" "r \<in> set (rounds fuel body q)" by auto
  then show ?case
  proof cases
    case 1
    then show ?thesis using Suc.prems by (simp add: group_ok_def)
  next
    case 2
    have "group_ok n st q" using assms(1) Suc.prems 2 by blast
    then show ?thesis using Suc.IH[OF _ 2(2)] group_ok_trans by (auto simp: group_ok_def)
  qed
qed

lemma runs_ok: "fst st \<le> length s \<Longrightarrow> r \<in> set (runs U re s st) \<Longrightarrow> group_ok (length s) st r"
proof (induction re arbitrary: st r)
  case (Seq a b)
  then obtain q where q: "q \<in> set (runs U a s st)" "r \<in> set (runs U b s q)" by auto
  with Seq have "group_ok (length s) st q" by blast
  with Seq q show ?case by (metis group_ok_def group_ok_trans)
next
  case (Repeat P lo hi)
  then show ?case using run_length_bound[of "fst st" s P hi] by (auto simp: group_ok_def)
next
  case (Plus a)
  then obtain q where q: "q \<in> set (runs U a s st)" "r \<in> set (rounds (length s) (runs U a s) q)" by auto
  with Plus have "group_ok (length s) st q" by blast
  moreover from this have "fst q \<le> length s" by (simp add: group_ok_def)
  from rounds_ok[OF Plus.IH this q(2)] have "group_ok (length s) q r" .
  ultimately show ?case by (rule group_ok_trans)
next
  case (Group a)
  then obtain q where q: "q \<in> set (runs U a s st)" "r = (fst q, Some (fst st, fst q))" by auto
  then have "group_ok (length s) st q" using Group by blast
  with q(2) show ?case by (simp add: group_ok_def)
next
  case (Alt a b)
  then have "r \<in> set (runs U a s st) \<or> r \<in> set (runs U b s st)" by simp
  with Alt show ?case by blast
next
  case (Opt a)
  then have "r \<in> set (runs U a s st) \<or> r = st" by auto
  moreover have "group_ok (length s) st st" using Opt.prems by (simp add: group_ok_def)
  ultimately show ?case using Opt by blast
qed (simp_all add: group_ok_def split: if_splits)

text \<open>The expressions that match no empty string.\<close>

primrec consuming :: "regex \<Rightarrow> bool" where
  "consuming Eps = False"
| "consuming (Chars P) = True"
| "consuming Word_Boundary = False"
| "consuming (Seq a b) = (consuming a \<or> consuming b)"
| "consuming (Alt a b) = (consuming a \<and> consuming b)"
| "consuming (Opt a) = False"
| "consuming (Repeat P lo hi) = (0 < lo)"
| "consuming (Plus a) = consuming a"
| "consuming (Group a) = consuming a"

lemma runs_consume:
  "consuming re \<Longrightarrow> fst st \<le> length s \<Longrightarrow> r \<in> set (runs U re s st) \<Longrightarrow> fst st < fst r"
proof (induction re arbitrary: st r)
  case (Seq a b)
  then obtain q where q: "q \<in> set (runs U a s st)" "r \<in> set (runs U b s q)" by auto
  then have "group_ok (length s) st q" using Seq.prems runs_ok by blast
  moreover from this have "group_ok (length s) q r" using q runs_ok by (metis group_ok_def)
  ultimately have le: "fst st \<le> fst q" "fst q \<le> fst r" "fst q \<le> length s"
    by (simp_all add: group_ok_def)
  from Seq.prems(1) consider "consuming a" | "consuming b" by auto
  then show ?case
  proof cases
    case 1
    then have "fst st < fst q" using Seq.IH(1) Seq.prems(2) q(1) by blast
    with le show ?thesis by simp
  next
    case 2
    then have "fst q < fst r" using Seq.IH(2) le(3) q(2) by blast
    with le show ?thesis by simp
  qed
next
  case (Plus a)
  then obtain q where q: "q \<in> set (runs U a s st)" "r \<in> set (rounds (length s) (runs U a s) q)" by auto
  with Plus have "fst st < fst q" by simp
  moreover have "fst q \<le> length s" using q Plus.prems runs_ok by (metis group_ok_def)
  from rounds_ok[OF runs_ok this q(2)] have "group_ok (length s) q r" .
  ultimately show ?case by (auto simp: group_ok_def)
next
  case (Group a)
  then obtain q where "q \<in> set (runs U a s st)" "fst r = fst q" by auto
  with Group show ?case by simp
qed (auto split: if_splits)

text \<open>The fuel of \<open>rounds\<close> suffices: past the end of the text a round finds nothing more.\<close>

lemma rounds_fuel:
  assumes "\<And>st r. fst st \<le> n \<Longrightarrow> r \<in> set (body st) \<Longrightarrow> fst st < fst r \<and> fst r \<le> n"
    and "fst st \<le> n" "n - fst st \<le> fuel"
  shows "rounds (Suc fuel) body st = rounds fuel body st"
  using assms(2,3)
proof (induction fuel arbitrary: st)
  case 0
  then have "fst st = n" by simp
  then have "body st = []" using assms(1)[of st "hd (body st)"] by (metis hd_in_set leD order_refl)
  then show ?case by simp
next
  case (Suc fuel)
  have "map (rounds (Suc fuel) body) (body st) = map (rounds fuel body) (body st)"
  proof (intro map_cong refl)
    fix q assume "q \<in> set (body st)"
    then have "fst st < fst q \<and> fst q \<le> n" using assms(1) Suc.prems by blast
    then show "rounds (Suc fuel) body q = rounds fuel body q" using Suc.prems by (intro Suc.IH) auto
  qed
  then show ?case by (metis rounds.simps(2))
qed

lemma match_at_span:
  assumes "match_at U re s i = Some m" "consuming re" "i \<le> length s"
  shows "rm_start m = i \<and> i < rm_end m \<and> rm_end m \<le> length s
    \<and> (case rm_group m of None \<Rightarrow> True | Some (a, b) \<Rightarrow> i \<le> a \<and> a \<le> b \<and> b \<le> rm_end m)"
proof -
  from assms(1) obtain st where st: "st \<in> set (runs U re s (i, None))"
    "m = \<lparr>rm_start = i, rm_end = fst st, rm_group = snd st\<rparr>"
    by (auto simp: match_at_def split: list.splits)
  with runs_ok[of "(i, None)" s st U re] runs_consume[of re "(i, None)" s st U] assms
  show ?thesis by (auto simp: group_ok_def)
qed

lemma finditer_Some:
  assumes "match_at U re s i = Some m" "consuming re" "i \<le> length s"
  shows "finditer U re s i = m # finditer U re s (rm_end m)"
proof -
  have "max (rm_end m) (Suc i) = rm_end m" using match_at_span[OF assms] by simp
  then show ?thesis using assms(1,3) by (subst finditer.simps) (simp del: max_def)
qed

lemma finditer_None:
  "match_at U re s i = None \<Longrightarrow> i \<le> length s \<Longrightarrow> finditer U re s i = finditer U re s (Suc i)"
  by (subst finditer.simps) simp

lemma finditer_past: "length s < i \<Longrightarrow> finditer U re s i = []"
  by (subst finditer.simps) simp

text \<open>\<open>finditer\<close> by induction: what it finds from a position, for a pattern that consumes.\<close>

lemma finditer_induct [consumes 1, case_names past none found]:
  assumes "consuming re"
    and past: "\<And>i. length s < i \<Longrightarrow> Q i"
    and none: "\<And>i. i \<le> length s \<Longrightarrow> match_at U re s i = None \<Longrightarrow> Q (Suc i) \<Longrightarrow> Q i"
    and found: "\<And>i m. i \<le> length s \<Longrightarrow> match_at U re s i = Some m \<Longrightarrow> rm_start m = i \<Longrightarrow>
      i < rm_end m \<Longrightarrow> Q (rm_end m) \<Longrightarrow> Q i"
  shows "Q i"
proof (induction i rule: measure_induct_rule[where f = "\<lambda>i. Suc (length s) - i"])
  case (less i)
  show ?case
  proof (cases "length s < i")
    case True
    then show ?thesis by (rule past)
  next
    case False
    show ?thesis
    proof (cases "match_at U re s i")
      case None
      have "Q (Suc i)" by (rule less) (use False in simp)
      with None False show ?thesis using none[of i] by simp
    next
      case (Some m)
      have "i \<le> length s" using False by simp
      with Some match_at_span[OF Some assms(1)] have m: "rm_start m = i" "i < rm_end m" by simp_all
      have "Q (rm_end m)" by (rule less.IH) (use False m(2) in simp)
      with \<open>i \<le> length s\<close> Some m show ?thesis by (rule found)
    qed
  qed
qed


lemma finditer_matches:
  assumes "consuming re"
  shows "\<forall>m \<in> set (finditer U re s i). i \<le> rm_start m \<and> rm_start m < rm_end m \<and> rm_end m \<le> length s
    \<and> match_at U re s (rm_start m) = Some m"
  using assms
proof (induction i rule: finditer_induct[where re = re and U = U and s = s])
  case (past i)
  then show ?case by (simp add: finditer_past)
next
  case (none i)
  then show ?case by (auto simp: finditer_None)
next
  case (found i m)
  then have "rm_end m \<le> length s" using match_at_span[OF found(2) assms] by simp
  with found finditer_Some[OF found(2) assms found(1)] show ?case by fastforce
qed

lemma finditer_ordered:
  assumes "consuming re"
  shows "sorted_wrt (\<lambda>a b. rm_end a \<le> rm_start b) (finditer U re s i)"
  using assms
proof (induction i rule: finditer_induct[where re = re and U = U and s = s])
  case (past i)
  then show ?case by (simp add: finditer_past)
next
  case (none i)
  then show ?case by (simp add: finditer_None)
next
  case (found i m)
  then show ?case using finditer_Some[OF found(2) assms found(1)] finditer_matches[OF assms] by simp
qed

text \<open>Nothing is stepped over: a match that is not reported begins inside one that is.\<close>

lemma finditer_covers:
  assumes "consuming re" "match_at U re s k = Some m" "i \<le> k" "k \<le> length s"
  shows "\<exists>n \<in> set (finditer U re s i). rm_start n \<le> k \<and> k < rm_end n \<and> (rm_start n = k \<longrightarrow> n = m)"
  using assms(1,3)
proof (induction i rule: finditer_induct[where re = re and U = U and s = s])
  case (past i)
  then show ?case using assms(4) by simp
next
  case (none i)
  then have "i \<noteq> k" using assms(2) by auto
  with none show ?case by (simp add: finditer_None)
next
  case (found i n)
  show ?case
  proof (cases "k < rm_end n")
    case True
    then have "rm_start n \<le> k \<and> k < rm_end n \<and> (rm_start n = k \<longrightarrow> n = m)" using found assms(2) by auto
    then show ?thesis using finditer_Some[OF found(2) assms(1) found(1)] by auto
  next
    case False
    with found show ?thesis using finditer_Some[OF found(2) assms(1) found(1)] by simp
  qed
qed

section \<open>Every pattern consumes text\<close>

lemma consuming_seqs: "consuming (seqs rs) \<longleftrightarrow> list_ex consuming rs"
  by (induction rs) simp_all

lemma consuming_ignorecase: "consuming (ignorecase re) = consuming re"
  by (induction re) simp_all

lemma consuming_letters: "consuming (letters w) \<longleftrightarrow> w \<noteq> []"
  by (cases w) simp_all

lemmas pattern_defs = openai_key_def aws_key_def github_token_def slack_token_def google_key_def
  labelled_secret_def bearer_def json_web_token_def mrn_prefixed_def mrn_labelled_def
  hpid_prefixed_def health_plan_labelled_def acct_prefixed_def account_labelled_def email_any_tld_def

lemmas recognizer_defs = ApiKeyRecognizer_def BearerTokenRecognizer_def
  MedicalRecordNumberRecognizer_def HealthPlanIdRecognizer_def EnterpriseAccountNumberRecognizer_def
  InternalEmailRecognizer_def

lemma patterns_consume:
  "R \<in> set (build_custom_recognizers U language) \<Longrightarrow> p \<in> set (rc_patterns R) \<Longrightarrow> consuming (cp_regex p)"
  by (auto simp: build_custom_recognizers_def recognizer_defs pattern_defs mk_pattern_def
      consuming_seqs consuming_ignorecase consuming_letters word_def at_least_def exactly_def)


section \<open>What a recognizer reports\<close>

lemma pattern_hit:
  assumes "r \<in> set (pattern_hits U R txt p)" "consuming (cp_regex p)"
  shows "rr_entity_type r = rc_entity R \<and> 0 \<le> rr_start r \<and> rr_start r < rr_end r
    \<and> rr_end r \<le> int (length txt) \<and> rr_score r = cp_score p
    \<and> is_valid_value U (slice txt (nat (rr_start r)) (nat (rr_end r)))"
proof -
  from assms(1) obtain m where m: "m \<in> set (finditer U (cp_regex p) txt 0)"
    "hit_kept U txt (match_span m (cp_group p))" "r = hit_result R p (match_span m (cp_group p))"
    by (auto simp: pattern_hits_def)
  from finditer_matches[OF assms(2)] m(1)
  have found: "rm_start m < rm_end m" "rm_end m \<le> length txt"
    and at: "match_at U (cp_regex p) txt (rm_start m) = Some m" by blast+
  from match_at_span[OF at assms(2)] found
  have "case rm_group m of None \<Rightarrow> True | Some (a, b) \<Rightarrow> a \<le> b \<and> b \<le> length txt"
    by (auto split: option.splits)
  with found have "snd (match_span m (cp_group p)) \<le> int (length txt)"
    by (auto simp: match_span_def split: span_group.split option.split)
  with m(2,3) show ?thesis by (auto simp: hit_kept_def hit_result_def split: if_splits)
qed

text \<open>
  A custom recognizer reports only its own entity type and only when it was asked for; every
  span is non-empty, lies inside the text, and its value is not placeholder filler.
\<close>

lemma custom_recognizers_sound:
  assumes "R \<in> set (build_custom_recognizers U language)"
    and "r \<in> set (recognizer_analyze U R txt entities)"
  shows "rr_entity_type r = rc_entity R \<and> rc_entity R \<in> set entities
    \<and> 0 \<le> rr_start r \<and> rr_start r < rr_end r \<and> rr_end r \<le> int (length txt)
    \<and> is_valid_value U (slice txt (nat (rr_start r)) (nat (rr_end r)))"
  using assms pattern_hit patterns_consume
  by (fastforce simp: recognizer_analyze_def split: if_splits)

section \<open>The prefixed medical record number\<close>

lemma slice_Cons:
  "slice s i (i + Suc (length w)) = c # w \<longleftrightarrow> i < length s \<and> s ! i = c \<and> slice s (Suc i) (Suc i + length w) = w"
proof (cases "i < length s")
  case True
  then have "drop i s = s ! i # drop (Suc i) s" by (simp add: Cons_nth_drop_Suc)
  with True show ?thesis by (simp add: slice_def)
next
  case False
  then show ?thesis by (simp add: slice_def)
qed

lemma runs_letters:
  "runs U (letters w) s st =
     (if slice s (fst st) (fst st + length w) = w then [(fst st + length w, snd st)] else [])"
proof (induction w arbitrary: st)
  case (Cons c w)
  then show ?case using slice_Cons[of s "fst st" w c] by auto
qed simp

lemma runs_exactly:
  "runs U (exactly P n) s st =
     (if fst st + n \<le> length s \<and> list_all P (slice s (fst st) (fst st + n)) then [(fst st + n, snd st)]
      else [])" if "0 < n"
proof -
  let ?t = "drop (fst st) s"
  have "n \<le> length (takeWhile P ?t) \<longleftrightarrow> n \<le> length ?t \<and> list_all P (take n ?t)"
  proof
    assume n: "n \<le> length (takeWhile P ?t)"
    then have "take n ?t = take n (takeWhile P ?t)" by (metis takeWhile_eq_take take_take min.absorb1)
    with n show "n \<le> length ?t \<and> list_all P (take n ?t)"
      using length_takeWhile_le[of P ?t] by (auto simp: list_all_iff dest!: in_set_takeD dest: set_takeWhileD)
  next
    assume n: "n \<le> length ?t \<and> list_all P (take n ?t)"
    then have "takeWhile P (take n ?t @ drop n ?t) = take n ?t @ takeWhile P (drop n ?t)"
      by (intro takeWhile_append2) (auto simp: list_all_iff)
    then have "takeWhile P ?t = take n ?t @ takeWhile P (drop n ?t)" by (simp only: append_take_drop_id)
    with n show "n \<le> length (takeWhile P ?t)" by (simp del: length_drop)
  qed
  then have fits: "n \<le> length (takeWhile P ?t) \<longleftrightarrow>
      fst st + n \<le> length s \<and> list_all P (slice s (fst st) (fst st + n))"
    using that by (auto simp: slice_def)
  show ?thesis
  proof (cases "n \<le> length (takeWhile P ?t)")
    case True
    then have "run_length P s (fst st) (Some n) = n" by (simp add: run_length_def Let_def)
    with True fits show ?thesis by (simp add: exactly_def)
  next
    case False
    then have "run_length P s (fst st) (Some n) < n" by (simp add: run_length_def Let_def)
    with False fits show ?thesis by (simp add: exactly_def del: upt_Suc)
  qed
qed

text \<open>A fixed prefix and a number of characters of one class, on word boundaries.\<close>

definition delimited :: "ucd \<Rightarrow> (uchar \<Rightarrow> bool) \<Rightarrow> ustr \<Rightarrow> nat \<Rightarrow> ustr \<Rightarrow> nat \<Rightarrow> bool" where
  "delimited U P w n s k \<longleftrightarrow> at_boundary U s k \<and> slice s k (k + length w) = w
     \<and> k + length w + n \<le> length s \<and> list_all P (slice s (k + length w) (k + length w + n))
     \<and> at_boundary U s (k + length w + n)"

lemma match_delimited:
  assumes "0 < n"
  shows "match_at U (seqs [Word_Boundary, letters w, exactly P n, Word_Boundary]) s k =
     (if delimited U P w n s k
      then Some \<lparr>rm_start = k, rm_end = k + length w + n, rm_group = None\<rparr> else None)"
proof (cases "at_boundary U s k \<and> slice s k (k + length w) = w")
  case True
  then show ?thesis
    by (cases "k + length w + n \<le> length s \<and> list_all P (slice s (k + length w) (k + length w + n))";
        cases "at_boundary U s (k + length w + n)")
      (simp_all add: match_at_def delimited_def runs_letters runs_exactly[OF assms])
next
  case False
  then show ?thesis
    by (cases "at_boundary U s k") (simp_all add: match_at_def delimited_def runs_letters)
qed

lemma delimited_nth:
  assumes "delimited U P w n s k"
  shows "j < length w \<Longrightarrow> s ! (k + j) = w ! j"
    and "length w \<le> j \<Longrightarrow> j < length w + n \<Longrightarrow> P (s ! (k + j))"
proof -
  from assms have w: "slice s k (k + length w) = w" and len: "k + length w + n \<le> length s"
    and P: "list_all P (slice s (k + length w) (k + length w + n))" by (simp_all add: delimited_def)
  show "s ! (k + j) = w ! j" if "j < length w"
  proof -
    have "slice s k (k + length w) ! j = s ! (k + j)" using that len by (simp add: slice_def)
    then show ?thesis using w by simp
  qed
  show "P (s ! (k + j))" if "length w \<le> j" "j < length w + n"
  proof -
    have "slice s (k + length w) (k + length w + n) ! (j - length w) = s ! (k + j)"
      using that len by (simp add: slice_def)
    moreover have "j - length w < length (slice s (k + length w) (k + length w + n))"
      using that len by (simp add: length_slice)
    ultimately show ?thesis using P by (metis list_all_length)
  qed
qed


text \<open>What the model needs of the Unicode tables, all of it documented behaviour of \<open>str\<close>.\<close>

definition tables_ok :: "ucd \<Rightarrow> bool" where
  "tables_ok U \<longleftrightarrow> (\<forall>c. ud_isdecimal U c \<longrightarrow> ud_isalnum U c) \<and> (\<forall>c. alnum c \<longrightarrow> ud_isalnum U c)
     \<and> (\<forall>c. c < 128 \<longrightarrow> ud_isdecimal U c = ascii_digit c \<and> ud_isspace U c = ascii_space c)"

lemma ascii_tables_ok: "tables_ok ascii_ucd"
  by (auto simp: tables_ok_def ascii_defs alnum_def)

definition MRN_PREFIX :: ustr where "MRN_PREFIX = lit ''MRN-''"

lemma MRN_PREFIX_simps [simp]: "length MRN_PREFIX = 4" "MRN_PREFIX ! 0 = 77" "MRN_PREFIX \<noteq> []"
  "77 \<notin> set (tl MRN_PREFIX)" "set MRN_PREFIX = {77, 82, 78, 45}" "hd MRN_PREFIX = 77"
  by (auto simp: MRN_PREFIX_def)

definition starts_word :: "ucd \<Rightarrow> ustr \<Rightarrow> bool" where
  "starts_word U a \<longleftrightarrow> a = [] \<or> \<not> word_char U (last a)"

definition ends_word :: "ucd \<Rightarrow> ustr \<Rightarrow> bool" where
  "ends_word U b \<longleftrightarrow> b = [] \<or> \<not> word_char U (hd b)"

lemma boundary_before:
  "starts_word U a \<Longrightarrow> w \<noteq> [] \<Longrightarrow> word_char U (hd w) \<Longrightarrow> at_boundary U (a @ w @ b) (length a)"
  by (cases w; cases a rule: rev_cases) (auto simp: at_boundary_def word_at_def starts_word_def nth_append)

lemma boundary_after:
  "ends_word U b \<Longrightarrow> w \<noteq> [] \<Longrightarrow> word_char U (last w) \<Longrightarrow> at_boundary U (w @ b) (length w)"
  by (cases w rule: rev_cases; cases b) (auto simp: at_boundary_def word_at_def ends_word_def nth_append)

lemma delimited_in_text:
  assumes "starts_word U a" "ends_word U b" "w \<noteq> []" "ds \<noteq> []" "list_all P ds"
    and "word_char U (hd w)" "word_char U (last ds)"
  shows "delimited U P w (length ds) (a @ w @ ds @ b) (length a)"
proof -
  have "at_boundary U (a @ (w @ ds) @ b) (length a)"
    using assms by (intro boundary_before) auto
  moreover have "at_boundary U ((a @ w @ ds) @ b) (length (a @ w @ ds))"
    using assms by (intro boundary_after) auto
  ultimately show ?thesis using assms(5) by (simp add: delimited_def slice_def add.assoc)
qed

lemma no_overlap:
  assumes "delimited U P w n s j" "delimited U P w n s i" "j < i"
    and "w \<noteq> []" "\<not> P (hd w)" "hd w \<notin> set (tl w)"
  shows "j + length w + n \<le> i"
proof (rule ccontr)
  assume "\<not> ?thesis"
  then have i: "i - j < length w + n" "s ! (j + (i - j)) = s ! i" using assms(3) by auto
  have "s ! (i + 0) = w ! 0" using assms(2,4) by (intro delimited_nth(1)) auto
  then have h: "s ! i = hd w" using assms(4) by (simp add: hd_conv_nth)
  show False
  proof (cases "i - j < length w")
    case True
    then have "hd w = w ! (i - j)" using delimited_nth(1)[OF assms(1) True] h i(2) by simp
    moreover have "w ! (i - j) \<in> set (tl w)"
      using True assms(3,4) by (cases w) (auto simp: nth_Cons split: nat.split)
    ultimately show False using assms(6) by simp
  next
    case False
    then have "P (s ! i)" using delimited_nth(2)[OF assms(1), of "i - j"] i by simp
    with h assms(5) show False by simp
  qed
qed

lemma delimited_found:
  assumes "delimited U P w n s i" "0 < n" "w \<noteq> []" "\<not> P (hd w)" "hd w \<notin> set (tl w)"
    and "re = seqs [Word_Boundary, letters w, exactly P n, Word_Boundary]"
  shows "\<lparr>rm_start = i, rm_end = i + length w + n, rm_group = None\<rparr> \<in> set (finditer U re s 0)"
proof -
  let ?m = "\<lambda>k. \<lparr>rm_start = k, rm_end = k + length w + n, rm_group = None\<rparr>"
  have at: "match_at U re s k = (if delimited U P w n s k then Some (?m k) else None)" for k
    unfolding assms(6) by (rule match_delimited[OF assms(2)])
  have re: "consuming re" using assms(3) by (simp add: assms(6) consuming_letters)
  have "i \<le> length s" using assms(1) by (simp add: delimited_def)
  with finditer_covers[OF re, of U s i "?m i" 0] at assms(1) obtain n' where
    n: "n' \<in> set (finditer U re s 0)" "rm_start n' \<le> i" "i < rm_end n'" "rm_start n' = i \<longrightarrow> n' = ?m i"
    by auto
  then have "match_at U re s (rm_start n') = Some n'" using finditer_matches[OF re] by blast
  then have d: "delimited U P w n s (rm_start n')" and e: "n' = ?m (rm_start n')"
    by (simp_all add: at split: if_splits)
  have "\<not> rm_start n' < i"
    using no_overlap[OF d assms(1) _ assms(3-5)] n(3) e by (metis not_less re_match.select_convs(2))
  with n show ?thesis by auto
qed


text \<open>A medical record number in a text: on word boundaries, its eight digits not all the same.\<close>

definition mrn_at :: "ucd \<Rightarrow> ustr \<Rightarrow> ustr \<Rightarrow> ustr \<Rightarrow> bool" where
  "mrn_at U a ds b \<longleftrightarrow> starts_word U a \<and> ends_word U b \<and> length ds = 8 \<and> list_all (ud_isdecimal U) ds
     \<and> 2 \<le> card (set (ud_casefold U ds))"

definition mrn_result :: "nat \<Rightarrow> recognizer_result" where
  "mrn_result i = \<lparr>rr_entity_type = MEDICAL_RECORD_NUMBER, rr_start = int i, rr_end = int (i + 12),
     rr_score = 85/100, rr_pattern = lit ''mrn prefixed'',
     rr_recognizer = Some (lit ''MedicalRecordNumberRecognizer'')\<rparr>"

lemma mrn_is_reported:
  assumes U: "tables_ok U" and "mrn_at U a ds b" and E: "MEDICAL_RECORD_NUMBER \<in> set entities"
  shows "mrn_result (length a)
    \<in> set (recognizer_analyze U (MedicalRecordNumberRecognizer U language) (a @ MRN_PREFIX @ ds @ b) entities)"
proof -
  let ?s = "a @ MRN_PREFIX @ ds @ b"
  let ?R = "MedicalRecordNumberRecognizer U language"
  let ?p = "mk_pattern ''mrn prefixed'' (mrn_prefixed U) (85/100) Whole_Match"
  from assms(2) have ds: "starts_word U a" "ends_word U b" "length ds = 8" "list_all (ud_isdecimal U) ds"
    "2 \<le> card (set (ud_casefold U ds))" by (simp_all add: mrn_at_def)
  have dec: "\<not> ud_isdecimal U 77" "\<not> ud_isdecimal U 45" using U by (simp_all add: tables_ok_def ascii_digit_def)
  have "ds \<noteq> []" using ds(3) by auto
  then have "word_char U (last ds)" "word_char U (hd MRN_PREFIX)"
    using U ds(4) by (auto simp: word_char_def tables_ok_def list_all_iff alnum_def ascii_upper_def)
  with ds(1,2,4) \<open>ds \<noteq> []\<close> have "delimited U (ud_isdecimal U) MRN_PREFIX (length ds) ?s (length a)"
    by (intro delimited_in_text) auto
  then have d: "delimited U (ud_isdecimal U) MRN_PREFIX 8 ?s (length a)" by (simp only: ds(3))
  have re: "mrn_prefixed U = seqs [Word_Boundary, letters MRN_PREFIX, exactly (ud_isdecimal U) 8, Word_Boundary]"
    by (simp only: mrn_prefixed_def word_def MRN_PREFIX_def)
  have "\<lparr>rm_start = length a, rm_end = length a + length MRN_PREFIX + 8, rm_group = None\<rparr>
      \<in> set (finditer U (mrn_prefixed U) ?s 0)"
    using d dec(1) re by (intro delimited_found) auto
  then have found: "(int (length a), int (length a + 12))
      \<in> (\<lambda>m. match_span m Whole_Match) ` set (finditer U (mrn_prefixed U) ?s 0)"
    by (force simp: match_span_def)
  have "45 \<notin> set ds" using ds(4) dec(2) by (auto simp: list_all_iff)
  then have "split_on 45 (MRN_PREFIX @ ds) = [lit ''MRN'', ds]"
    using split_on_append_sep[of 45 "lit ''MRN''" ds] by (simp add: MRN_PREFIX_def split_on_no_sep)
  then have "is_valid_value U (MRN_PREFIX @ ds)"
    using ds(5) by (simp add: is_valid_value_def has_low_character_variety_def)
  moreover have "slice ?s (length a) (length a + 12) = MRN_PREFIX @ ds"
    using ds(3) by (simp add: slice_def)
  ultimately have "hit_kept U ?s (int (length a), int (length a + 12))"
    by (simp add: hit_kept_def nat_add_distrib)
  moreover have "cp_regex ?p = mrn_prefixed U" "cp_group ?p = Whole_Match"
    by (simp_all only: mk_pattern_def compiled_pattern.select_convs)
  ultimately have "hit_result ?R ?p (int (length a), int (length a + 12)) \<in> set (pattern_hits U ?R ?s ?p)"
    unfolding pattern_hits_def using found by (simp only: set_map set_filter) blast
  moreover have "hit_result ?R ?p (int (length a), int (length a + 12)) = mrn_result (length a)"
    by (simp only: hit_result_def mrn_result_def mk_pattern_def MedicalRecordNumberRecognizer_def
        compiled_pattern.select_convs recognizer.select_convs fst_conv snd_conv)
  moreover have "?p \<in> set (rc_patterns ?R)" "rc_entity ?R = MEDICAL_RECORD_NUMBER"
    by (simp_all add: MedicalRecordNumberRecognizer_def)
  ultimately show ?thesis using E by (auto simp: recognizer_analyze_def)
qed

section \<open>How long a reported medical record number is\<close>

text \<open>The expressions whose group is always \<open>n\<close> characters long.\<close>

definition fixed_repeat :: "nat \<Rightarrow> regex \<Rightarrow> bool" where
  "fixed_repeat n r \<longleftrightarrow> (case r of Repeat P lo hi \<Rightarrow> lo = n \<and> hi = Some n | _ \<Rightarrow> False)"

primrec fixed_group :: "nat \<Rightarrow> regex \<Rightarrow> bool" where
  "fixed_group n Eps = True"
| "fixed_group n (Chars P) = True"
| "fixed_group n Word_Boundary = True"
| "fixed_group n (Seq a b) = (fixed_group n a \<and> fixed_group n b)"
| "fixed_group n (Alt a b) = (fixed_group n a \<and> fixed_group n b)"
| "fixed_group n (Opt a) = fixed_group n a"
| "fixed_group n (Repeat P lo hi) = True"
| "fixed_group n (Plus a) = False"
| "fixed_group n (Group a) = fixed_repeat n a"

definition group_has :: "nat \<Rightarrow> match_state \<Rightarrow> bool" where
  "group_has n st \<longleftrightarrow> (case snd st of None \<Rightarrow> True | Some (a, b) \<Rightarrow> b = a + n)"

lemma runs_fixed_group:
  "fixed_group n re \<Longrightarrow> group_has n st \<Longrightarrow> r \<in> set (runs U re s st) \<Longrightarrow> group_has n r"
proof (induction re arbitrary: st r)
  case (Seq a b)
  from Seq.prems(3) obtain q where q: "q \<in> set (runs U a s st)" "r \<in> set (runs U b s q)" by auto
  from Seq.prems(1) have fixed: "fixed_group n a" "fixed_group n b" by simp_all
  from Seq.IH(2)[OF fixed(2) Seq.IH(1)[OF fixed(1) Seq.prems(2) q(1)] q(2)] show ?case .
next
  case (Alt a b)
  from Alt.prems(3) have "r \<in> set (runs U a s st) \<or> r \<in> set (runs U b s st)" by simp
  moreover from Alt.prems(1) have "fixed_group n a" "fixed_group n b" by simp_all
  ultimately show ?case using Alt.IH Alt.prems(2) by blast
next
  case (Opt a)
  from Opt.prems(3) have "r \<in> set (runs U a s st) \<or> r = st" by auto
  moreover from Opt.prems(1) have "fixed_group n a" by simp
  ultimately show ?case using Opt.IH Opt.prems(2) by blast
next
  case (Group a)
  from Group.prems(1) obtain P where "a = Repeat P n (Some n)" by (auto simp: fixed_repeat_def split: regex.splits)
  with Group.prems show ?case by (auto simp: group_has_def run_length_def Let_def)
qed (auto simp: group_has_def split: if_splits)

lemma fixed_group_letters: "fixed_group n (letters w)"
  by (induction w) simp_all

lemma fixed_group_ignorecase: "fixed_group n re \<Longrightarrow> fixed_group n (ignorecase re)"
  by (induction re) (auto simp: fixed_repeat_def split: regex.splits)

lemma match_fixed_group:
  assumes "match_at U re s i = Some m" "fixed_group n re" "rm_group m = Some (a, b)"
  shows "b = a + n"
proof -
  let ?st = "hd (runs U re s (i, None))"
  from assms(1) have "?st \<in> set (runs U re s (i, None))" "rm_group m = snd ?st"
    by (auto simp: match_at_def split: list.splits)
  with runs_fixed_group[OF assms(2), of "(i, None)" ?st U s] assms(3)
  show ?thesis by (simp add: group_has_def)
qed

text \<open>Every hit of the recognizer is the twelve characters of the one pattern or the eight of the other.\<close>

lemma mrn_hit_length:
  assumes "r \<in> set (recognizer_analyze U (MedicalRecordNumberRecognizer U language) txt entities)"
  shows "rr_end r - rr_start r \<le> 12"
proof -
  let ?R = "MedicalRecordNumberRecognizer U language"
  from assms consider
      "r \<in> set (pattern_hits U ?R txt (mk_pattern ''mrn prefixed'' (mrn_prefixed U) (85/100) Whole_Match))"
    | "r \<in> set (pattern_hits U ?R txt (mk_pattern ''mrn labelled'' (mrn_labelled U) (6/10) Value_Group))"
    by (auto simp: recognizer_analyze_def MedicalRecordNumberRecognizer_def split: if_splits)
  then show ?thesis
  proof cases
    case 1
    then obtain m where m: "m \<in> set (finditer U (mrn_prefixed U) txt 0)"
      "r = hit_result ?R (mk_pattern ''mrn prefixed'' (mrn_prefixed U) (85/100) Whole_Match)
            (match_span m Whole_Match)"
      by (auto simp: pattern_hits_def mk_pattern_def)
    have re: "mrn_prefixed U = seqs [Word_Boundary, letters MRN_PREFIX, exactly (ud_isdecimal U) 8, Word_Boundary]"
      by (simp only: mrn_prefixed_def word_def MRN_PREFIX_def)
    have "consuming (mrn_prefixed U)" by (simp add: re consuming_letters)
    then have "match_at U (mrn_prefixed U) txt (rm_start m) = Some m" using finditer_matches m(1) by blast
    then have "\<lparr>rm_start = rm_start m, rm_end = rm_start m + length MRN_PREFIX + 8, rm_group = None\<rparr> = m"
      by (simp only: re match_delimited[OF zero_less_numeral] option.inject option.distinct split: if_splits)
    then have "rm_end m = rm_start m + length MRN_PREFIX + 8" by (metis re_match.select_convs(2))
    with m(2) show ?thesis by (simp add: hit_result_def match_span_def)
  next
    case 2
    then obtain m where m: "m \<in> set (finditer U (mrn_labelled U) txt 0)" "hit_kept U txt (match_span m Value_Group)"
      "r = hit_result ?R (mk_pattern ''mrn labelled'' (mrn_labelled U) (6/10) Value_Group)
            (match_span m Value_Group)"
      by (auto simp: pattern_hits_def mk_pattern_def)
    have "consuming (mrn_labelled U)"
      by (simp add: mrn_labelled_def consuming_ignorecase consuming_letters word_def)
    then have at: "match_at U (mrn_labelled U) txt (rm_start m) = Some m" using finditer_matches m(1) by blast
    have fixed: "fixed_group 8 (mrn_labelled U)"
      unfolding mrn_labelled_def
      by (intro fixed_group_ignorecase)
        (simp add: word_def fixed_group_letters spaces_def maybe_def exactly_def fixed_repeat_def)
    from m(2) obtain a b where g: "rm_group m = Some (a, b)"
      by (cases "rm_group m") (auto simp: match_span_def hit_kept_def)
    with match_fixed_group[OF at fixed] m(3) show ?thesis
      by (simp add: hit_result_def match_span_def)
  qed
qed


section \<open>Secrets taken for filler\<close>

lemma split_on_append: "split_on c (v @ c # w) = split_on c v @ split_on c w"
  by (induction v) (auto split: list.splits)

lemma last_split_on: "c \<notin> set w \<Longrightarrow> last (split_on c (v @ c # w)) = w"
  by (simp add: split_on_append split_on_no_sep)

text \<open>
  Only the part after the last hyphen is judged, and the hyphen is also a character of the
  tokens: whatever precedes it, a value with at most one character behind its last hyphen is
  filler, and so a secret of the base64url alphabet that happens to end so is not reported.
\<close>

lemma hyphenated_tail_is_filler:
  assumes "45 \<notin> set w" "card (set (ud_casefold U w)) < 2"
  shows "\<not> is_valid_value U (v @ 45 # w)"
  using assms by (simp add: is_valid_value_def has_low_character_variety_def last_split_on)

definition HYPHENATED_JWT :: ustr where
  "HYPHENATED_JWT = lit ''eyJhbGciOiJI.eyJzdWIiOiIx.dBjftJeZ4CV-P''"

lemma hyphenated_jwt_matches:
  "match_at ascii_ucd json_web_token HYPHENATED_JWT 0
     = Some \<lparr>rm_start = 0, rm_end = length HYPHENATED_JWT, rm_group = None\<rparr>"
  by (simp add: HYPHENATED_JWT_def match_at_def json_web_token_def word_def at_least_def run_length_def
      dashed_def alnum_def ascii_defs one_of_def at_boundary_def word_at_def word_char_def upt_rec)


text \<open>A JSON web token that its pattern matches whole and that no recognizer of tokens reports.\<close>

lemma hyphenated_jwt_unreported:
  "recognizer_analyze ascii_ucd (BearerTokenRecognizer ascii_ucd language) HYPHENATED_JWT entities = []"
proof -
  have past: "match_at ascii_ucd json_web_token HYPHENATED_JWT 39 = None"
    by (simp add: HYPHENATED_JWT_def match_at_def json_web_token_def word_def at_boundary_def word_at_def
        word_char_def ascii_defs)
  have len: "length HYPHENATED_JWT = 39" by (simp add: HYPHENATED_JWT_def)
  have "finditer ascii_ucd json_web_token HYPHENATED_JWT 39 = []"
    using past len by (simp add: finditer_None finditer_past)
  then have jwt: "finditer ascii_ucd json_web_token HYPHENATED_JWT 0
      = [\<lparr>rm_start = 0, rm_end = 39, rm_group = None\<rparr>]"
    by (subst finditer.simps) (simp add: hyphenated_jwt_matches len)
  have bearer: "finditer ascii_ucd (bearer ascii_ucd) HYPHENATED_JWT 0 = []"
    by (simp add: HYPHENATED_JWT_def match_at_def bearer_def word_def at_boundary_def word_at_def
        word_char_def ascii_defs either_case_def case_fold_def finditer.simps)
  have split: "HYPHENATED_JWT = lit ''eyJhbGciOiJI.eyJzdWIiOiIx.dBjftJeZ4CV'' @ 45 # [80]"
    by (simp add: HYPHENATED_JWT_def)
  have "\<not> is_valid_value ascii_ucd HYPHENATED_JWT"
    unfolding split by (rule hyphenated_tail_is_filler) (simp_all add: ascii_ucd_def)
  then have "\<not> hit_kept ascii_ucd HYPHENATED_JWT (0, 39)"
    by (simp add: hit_kept_def slice_def len)
  then show ?thesis
    by (simp add: recognizer_analyze_def BearerTokenRecognizer_def pattern_hits_def mk_pattern_def jwt bearer
        match_span_def)
qed

end
