(* ===== verification/Detection_Engine.thy ===== *)
theory Detection_Engine
  imports Recognizers Effects
begin

text \<open>
  The production detector, \<^verbatim>\<open>app/detection/engine.py\<close> and \<open>analyzer.py\<close>: building the analyzer
  engine and caching it per model and languages, and \<open>PresidioDetector.detect\<close>. Presidio and
  spaCy are the parameter \<open>presidio\<close>; what is relied on of the engine they build is stated as
  \<open>engine_keeps_hits\<close>.
\<close>

section \<open>The analyzer\<close>

record analyzer_engine =
  ae_supported :: "ustr \<Rightarrow> ustr list res"
  ae_analyze :: "ustr \<Rightarrow> ustr \<Rightarrow> ustr list \<Rightarrow> recognizer_result list res"

text \<open>The calls into the two libraries, each of which may raise.\<close>

record ('n, 'p) presidio =
  ps_import :: "unit res"
  ps_installed_models :: "ustr list res"
  ps_create_engine :: "(ustr \<times> ustr) list \<Rightarrow> 'n res"
  ps_predefined :: "ustr list \<Rightarrow> 'n \<Rightarrow> 'p list res"
  ps_analyzer :: "'n \<Rightarrow> ('p + recognizer) list \<Rightarrow> ustr list \<Rightarrow> analyzer_engine res"

type_synonym engine_key = "ustr \<times> ustr list"

text \<open>The module's cache, and the levels of the loggers by name.\<close>

record analyzer_state =
  as_cache :: "(engine_key \<times> analyzer_engine) list"
  as_levels :: "(ustr \<times> int) list"

definition ANALYZER_LOGGER_NAMES :: "ustr list" where
  "ANALYZER_LOGGER_NAMES = [lit ''presidio-analyzer'', lit ''presidio_analyzer'']"

definition MIN_ANALYZER_LOG_LEVEL :: int where "MIN_ANALYZER_LOG_LEVEL = 20"
definition NOTSET :: int where "NOTSET = 0"

definition logger_level :: "(ustr \<times> int) list \<Rightarrow> ustr \<Rightarrow> int" where
  "logger_level levels name = (case dict_get levels name of None \<Rightarrow> NOTSET | Some l \<Rightarrow> l)"

definition silence_analyzer_logging :: "(ustr \<times> int) list \<Rightarrow> (ustr \<times> int) list" where
  "silence_analyzer_logging levels =
     fold (\<lambda>name ls.
        (let level = logger_level ls name
         in if level = NOTSET \<or> level < MIN_ANALYZER_LOG_LEVEL
            then dict_put name MIN_ANALYZER_LOG_LEVEL ls else ls))
      ANALYZER_LOGGER_NAMES levels"

definition cache_key :: "detection_config \<Rightarrow> engine_key" where
  "cache_key config = (dc_spacy_model config, sort (remdups (dc_supported_languages config)))"

definition detector_unavailable :: "string \<Rightarrow> exn" where
  "detector_unavailable reason = GatewayError PRIVACY_DETECTOR_UNAVAILABLE reason"

fun is_detector_unavailable :: "exn \<Rightarrow> bool" where
  "is_detector_unavailable (GatewayError code reason) \<longleftrightarrow> code = PRIVACY_DETECTOR_UNAVAILABLE"
| "is_detector_unavailable e \<longleftrightarrow> False"

text \<open>The body of the \<open>try\<close> of \<open>build_analyzer_engine\<close>.\<close>

definition assemble_engine ::
    "ucd \<Rightarrow> ('n, 'p) presidio \<Rightarrow> detection_config \<Rightarrow> ustr list \<Rightarrow> analyzer_engine res" where
  "assemble_engine U S config languages =
     bindR (ps_import S) (\<lambda>_.
     bindR (ps_installed_models S) (\<lambda>installed.
       if dc_spacy_model config \<notin> set installed then Inl (detector_unavailable ''model_missing'')
       else
         bindR (ps_create_engine S (map (\<lambda>language. (language, dc_spacy_model config)) languages)) (\<lambda>nlp.
         bindR (ps_predefined S languages nlp) (\<lambda>predefined.
           let registry = map Inl predefined
                 @ concat (map (\<lambda>language. map Inr (build_custom_recognizers U language)) languages)
           in ps_analyzer S nlp registry languages))))"

definition build_analyzer_engine ::
    "ucd \<Rightarrow> ('n, 'p) presidio \<Rightarrow> detection_config \<Rightarrow> (analyzer_state, analyzer_engine) op" where
  "build_analyzer_engine U S config st =
     (let languages = sort (remdups (dc_supported_languages config));
          st = st\<lparr>as_levels := silence_analyzer_logging (as_levels st)\<rparr>
      in case assemble_engine U S config languages of
           Inl e \<Rightarrow> (Inl (if is_detector_unavailable e then e else detector_unavailable ''analyzer_build''), st)
         | Inr engine \<Rightarrow> (Inr engine, st))"

text \<open>What \<open>get_analyzer_engine\<close> does holding the lock: look again, then build and store.\<close>

definition get_locked ::
    "ucd \<Rightarrow> ('n, 'p) presidio \<Rightarrow> detection_config \<Rightarrow> (analyzer_state, analyzer_engine) op" where
  "get_locked U S config st =
     (case dict_get (as_cache st) (cache_key config) of
        Some engine \<Rightarrow> (Inr engine, st)
      | None \<Rightarrow> bindS (build_analyzer_engine U S config) (\<lambda>engine st.
          (Inr engine, st\<lparr>as_cache := dict_put (cache_key config) engine (as_cache st)\<rparr>)) st)"

definition get_analyzer_engine ::
    "ucd \<Rightarrow> ('n, 'p) presidio \<Rightarrow> detection_config \<Rightarrow> (analyzer_state, analyzer_engine) op" where
  "get_analyzer_engine U S config st =
     (case dict_get (as_cache st) (cache_key config) of
        Some engine \<Rightarrow> (Inr engine, st)
      | None \<Rightarrow> get_locked U S config st)"

definition reset_analyzer_cache :: "analyzer_state \<Rightarrow> analyzer_state" where
  "reset_analyzer_cache st = st\<lparr>as_cache := []\<rparr>"

section \<open>The detector\<close>

definition recognizer_name :: "recognizer_result \<Rightarrow> ustr option" where
  "recognizer_name r = (case rr_recognizer r of
       None \<Rightarrow> None | Some name \<Rightarrow> if name = [] then None else Some name)"

definition candidate_of :: "recognizer_result \<Rightarrow> candidate" where
  "candidate_of r = \<lparr>ca_entity_type = rr_entity_type r, ca_start = rr_start r, ca_end = rr_end r,
     ca_score = rr_score r, ca_recognizer = recognizer_name r\<rparr>"

definition run_analyzer :: "analyzer_engine \<Rightarrow> ustr \<Rightarrow> ustr \<Rightarrow> ustr list \<Rightarrow> candidate list res" where
  "run_analyzer engine txt language target_types =
     bindR (ae_supported engine language) (\<lambda>available.
       let entities = sort (remdups (filter (\<lambda>t. t \<in> set available) target_types))
       in if entities = [] then Inr []
          else case ae_analyze engine txt language entities of
                 Inl e \<Rightarrow> Inl (detector_unavailable ''analyze'')
               | Inr results \<Rightarrow> Inr (map candidate_of results))"

definition presidio_analyze ::
    "ucd \<Rightarrow> ('n, 'p) presidio \<Rightarrow> detection_config \<Rightarrow> ustr \<Rightarrow> ustr \<Rightarrow> ustr list \<Rightarrow> (analyzer_state, candidate list) op" where
  "presidio_analyze U S config txt language target_types =
     bindS (get_analyzer_engine U S config) (\<lambda>engine. liftS (run_analyzer engine txt language target_types))"

definition warm_up :: "ucd \<Rightarrow> ('n, 'p) presidio \<Rightarrow> detection_config \<Rightarrow> (analyzer_state, unit) op" where
  "warm_up U S config = bindS (get_analyzer_engine U S config) (\<lambda>_. liftS (Inr ()))"

definition target_types :: "detection_config \<Rightarrow> ustr list option \<Rightarrow> ustr list" where
  "target_types config requested = (case requested of
       None \<Rightarrow> dc_enabled_entities config
     | Some r \<Rightarrow> filter (\<lambda>t. t \<in> set r) (dc_enabled_entities config))"

definition detect ::
    "ucd \<Rightarrow> ('n, 'p) presidio \<Rightarrow> detection_config \<Rightarrow> ustr \<Rightarrow> ustr \<Rightarrow> ustr list option \<Rightarrow> bool \<Rightarrow>
     (analyzer_state, detected_entity list) op" where
  "detect U S config txt language requested diagnostic =
     (if \<not> supports_language config language then liftS (Inl (GatewayError UNSUPPORTED_LANGUAGE ''''))
      else if strip U txt = [] then liftS (Inr [])
      else if target_types config requested = [] then liftS (Inr [])
      else bindS (presidio_analyze U S config txt language (target_types config requested)) (\<lambda>candidates.
             liftS (finalize U candidates txt config requested diagnostic)))"


section \<open>What is relied on of the analyzer\<close>

text \<open>The sample types, for which Presidio ships no recognizer of its own.\<close>

definition OWN_TYPES :: "ustr list" where
  "OWN_TYPES = [MEDICAL_RECORD_NUMBER, HEALTH_PLAN_ID, ACCOUNT_NUMBER]"

definition custom_hits :: "ucd \<Rightarrow> ustr \<Rightarrow> ustr \<Rightarrow> ustr list \<Rightarrow> recognizer_result list" where
  "custom_hits U language txt entities =
     concat (map (\<lambda>R. recognizer_analyze U R txt entities) (build_custom_recognizers U language))"

definition strictly_contains :: "recognizer_result \<Rightarrow> recognizer_result \<Rightarrow> bool" where
  "strictly_contains r' r \<longleftrightarrow> rr_entity_type r' = rr_entity_type r \<and> rr_start r' \<le> rr_start r
     \<and> rr_end r \<le> rr_end r' \<and> rr_end r - rr_start r < rr_end r' - rr_start r'"

text \<open>
  The documented behaviour of \<open>AnalyzerEngine\<close>: it supports the types of its recognizers, runs
  each of them, lets context only raise a score, and drops as a duplicate only a result that
  another of the same type contains.
\<close>

definition engine_keeps_hits :: "ucd \<Rightarrow> analyzer_engine \<Rightarrow> ustr \<Rightarrow> bool" where
  "engine_keeps_hits U engine language \<longleftrightarrow>
     (\<exists>available. ae_supported engine language = Inr available \<and> set OWN_TYPES \<subseteq> set available)
     \<and> (\<forall>txt entities results. ae_analyze engine txt language entities = Inr results \<longrightarrow>
          (\<forall>r \<in> set (custom_hits U language txt entities). rr_entity_type r \<in> set OWN_TYPES \<longrightarrow>
             (\<exists>y \<in> set results. rr_entity_type y = rr_entity_type r \<and> rr_start y = rr_start r
                \<and> rr_end y = rr_end r \<and> rr_score r \<le> rr_score y)
             \<or> (\<exists>r' \<in> set (custom_hits U language txt entities). strictly_contains r' r)))"

definition presidio_ok :: "ucd \<Rightarrow> ('n, 'p) presidio \<Rightarrow> bool" where
  "presidio_ok U S \<longleftrightarrow>
     (\<forall>nlp registry languages engine language.
        ps_analyzer S nlp registry languages = Inr engine \<longrightarrow> language \<in> set languages \<longrightarrow>
        Inr ` set (build_custom_recognizers U language) \<subseteq> set registry \<longrightarrow>
        engine_keeps_hits U engine language)"

section \<open>The cache\<close>

definition engines_ok :: "ucd \<Rightarrow> analyzer_state \<Rightarrow> bool" where
  "engines_ok U st \<longleftrightarrow>
     (\<forall>key engine. dict_get (as_cache st) key = Some engine \<longrightarrow>
        (\<forall>language \<in> set (snd key). engine_keeps_hits U engine language))"

lemma assemble_engine_ok:
  assumes "presidio_ok U S" "assemble_engine U S config languages = Inr engine" "language \<in> set languages"
  shows "engine_keeps_hits U engine language"
proof -
  from assms(2) obtain nlp predefined where
    "ps_analyzer S nlp (map Inl predefined
       @ concat (map (\<lambda>language. map Inr (build_custom_recognizers U language)) languages)) languages = Inr engine"
    by (auto simp: assemble_engine_def result_simps Let_def split: if_splits)
  moreover have "Inr ` set (build_custom_recognizers U language) \<subseteq> set (map Inl predefined
       @ concat (map (\<lambda>language. map Inr (build_custom_recognizers U language)) languages))"
    using assms(3) by auto
  ultimately show ?thesis using assms(1,3) unfolding presidio_ok_def by blast
qed

lemma build_analyzer_engine_cases:
  obtains (built) engine st' where "build_analyzer_engine U S config st = (Inr engine, st')"
      "as_cache st' = as_cache st"
      "assemble_engine U S config (sort (remdups (dc_supported_languages config))) = Inr engine"
    | (failed) reason st' where
      "build_analyzer_engine U S config st = (Inl (GatewayError PRIVACY_DETECTOR_UNAVAILABLE reason), st')"
      "as_cache st' = as_cache st"
proof (cases "assemble_engine U S config (sort (remdups (dc_supported_languages config)))")
  case (Inl e)
  have "\<exists>reason. (if is_detector_unavailable e then e else detector_unavailable ''analyzer_build'')
      = GatewayError PRIVACY_DETECTOR_UNAVAILABLE reason"
    by (cases e) (auto simp: detector_unavailable_def)
  with Inl show thesis using failed by (auto simp: build_analyzer_engine_def Let_def)
next
  case (Inr engine)
  then show thesis using built by (simp add: build_analyzer_engine_def)
qed

lemma engines_ok_put:
  assumes "engines_ok U st" "\<forall>language \<in> set (snd key). engine_keeps_hits U engine language"
  shows "engines_ok U (st\<lparr>as_cache := dict_put key engine (as_cache st)\<rparr>)"
  unfolding engines_ok_def
proof (intro allI impI)
  fix k e assume "dict_get (as_cache (st\<lparr>as_cache := dict_put key engine (as_cache st)\<rparr>)) k = Some e"
  then have e: "(if k = key then Some engine else dict_get (as_cache st) k) = Some e" by simp
  show "\<forall>language \<in> set (snd k). engine_keeps_hits U e language"
  proof (cases "k = key")
    case True
    with e assms(2) show ?thesis by simp
  next
    case False
    with e have "dict_get (as_cache st) k = Some e" by simp
    with assms(1) show ?thesis unfolding engines_ok_def by blast
  qed
qed

lemma engines_ok_same: "as_cache st' = as_cache st \<Longrightarrow> engines_ok U st' = engines_ok U st"
  by (simp add: engines_ok_def)

lemma get_analyzer_engine_cases:
  assumes "get_analyzer_engine U S config st = (res, st')" "engines_ok U st" "presidio_ok U S"
  shows "engines_ok U st' \<and> (case res of
      Inl e \<Rightarrow> as_cache st' = as_cache st \<and> (\<exists>reason. e = GatewayError PRIVACY_DETECTOR_UNAVAILABLE reason)
    | Inr engine \<Rightarrow> dict_get (as_cache st') (cache_key config) = Some engine)"
proof (cases "dict_get (as_cache st) (cache_key config)")
  case (Some engine)
  then show ?thesis using assms(1,2) by (auto simp: get_analyzer_engine_def)
next
  case None
  show ?thesis
  proof (cases rule: build_analyzer_engine_cases[of U S config st])
    case (built engine s)
    have kept: "\<forall>language \<in> set (snd (cache_key config)). engine_keeps_hits U engine language"
      using assemble_engine_ok[OF assms(3) built(3)] by (simp add: cache_key_def)
    have "engines_ok U s" using assms(2) engines_ok_same[OF built(2)] by blast
    then have "engines_ok U (s\<lparr>as_cache := dict_put (cache_key config) engine (as_cache s)\<rparr>)"
      using kept by (rule engines_ok_put)
    moreover have "get_analyzer_engine U S config st
        = (Inr engine, s\<lparr>as_cache := dict_put (cache_key config) engine (as_cache s)\<rparr>)"
      using None built(1) by (simp add: get_analyzer_engine_def get_locked_def bindS_def)
    ultimately show ?thesis using assms(1) by (simp split: sum.split)
  next
    case (failed reason s)
    have "engines_ok U s" using assms(2) engines_ok_same[OF failed(2)] by blast
    moreover have "get_analyzer_engine U S config st = (Inl (GatewayError PRIVACY_DETECTOR_UNAVAILABLE reason), s)"
      using None failed(1) by (simp add: get_analyzer_engine_def get_locked_def bindS_def)
    ultimately show ?thesis using assms(1) failed(2) by auto
  qed
qed

text \<open>The engine is built once: with one in the cache neither path builds or changes anything.\<close>

lemma engine_is_cached:
  assumes "get_analyzer_engine U S config st = (Inr engine, st')"
  shows "get_analyzer_engine U S' config st' = (Inr engine, st') \<and> get_locked U S' config st' = (Inr engine, st')"
  using assms
  by (auto simp: get_analyzer_engine_def get_locked_def bindS_def split: option.splits sum.splits prod.splits)


section \<open>A medical record number is never missed\<close>

lemma strip_empty: "strip U s = [] \<Longrightarrow> c \<in> set s \<Longrightarrow> ud_isspace U c"
proof -
  assume "strip U s = []" "c \<in> set s"
  then have "\<forall>x \<in> set (dropWhile (ud_isspace U) s). ud_isspace U x"
    by (simp add: strip_def lstrip_def dropWhile_eq_Nil_conv)
  then have "dropWhile (ud_isspace U) s = []" by (metis hd_dropWhile hd_in_set)
  with \<open>c \<in> set s\<close> show ?thesis by (simp add: dropWhile_eq_Nil_conv)
qed

lemma recognizer_entities:
  "rc_entity (ApiKeyRecognizer U l) = API_KEY" "rc_entity (BearerTokenRecognizer U l) = ACCESS_TOKEN"
  "rc_entity (MedicalRecordNumberRecognizer U l) = MEDICAL_RECORD_NUMBER"
  "rc_entity (HealthPlanIdRecognizer U l) = HEALTH_PLAN_ID"
  "rc_entity (EnterpriseAccountNumberRecognizer U l) = ACCOUNT_NUMBER"
  "rc_entity (InternalEmailRecognizer l) = EMAIL_ADDRESS"
  by (simp_all only: recognizer_defs recognizer.select_convs)

lemma own_type_distinct:
  "API_KEY \<noteq> MEDICAL_RECORD_NUMBER" "ACCESS_TOKEN \<noteq> MEDICAL_RECORD_NUMBER"
  "HEALTH_PLAN_ID \<noteq> MEDICAL_RECORD_NUMBER" "ACCOUNT_NUMBER \<noteq> MEDICAL_RECORD_NUMBER"
  "EMAIL_ADDRESS \<noteq> MEDICAL_RECORD_NUMBER" "MEDICAL_RECORD_NUMBER \<noteq> CREDIT_CARD"
  by (simp_all add: entity_type_defs)

lemma mrn_hit_kept:
  assumes "tables_ok U" "mrn_at U a ds b" "engine_keeps_hits U engine language"
    and "ae_analyze engine (a @ MRN_PREFIX @ ds @ b) language entities = Inr results"
    and "MEDICAL_RECORD_NUMBER \<in> set entities"
  shows "\<exists>y \<in> set results. rr_entity_type y = MEDICAL_RECORD_NUMBER \<and> rr_start y = int (length a)
    \<and> rr_end y = int (length a + 12) \<and> 85/100 \<le> rr_score y"
proof -
  let ?r = "mrn_result (length a)" and ?hits = "custom_hits U language (a @ MRN_PREFIX @ ds @ b) entities"
  have r: "rr_entity_type ?r = MEDICAL_RECORD_NUMBER" "rr_start ?r = int (length a)"
    "rr_end ?r = int (length a + 12)" "rr_score ?r = 85/100" by (simp_all add: mrn_result_def)
  have "?r \<in> set ?hits"
    using mrn_is_reported[OF assms(1,2,5)] by (auto simp: custom_hits_def build_custom_recognizers_def)
  moreover have "\<not> strictly_contains r' ?r" if "r' \<in> set ?hits" for r'
  proof
    assume c: "strictly_contains r' ?r"
    from that obtain R where R: "R \<in> set (build_custom_recognizers U language)"
      "r' \<in> set (recognizer_analyze U R (a @ MRN_PREFIX @ ds @ b) entities)" by (auto simp: custom_hits_def)
    with c r custom_recognizers_sound[OF this] have "rc_entity R = MEDICAL_RECORD_NUMBER"
      by (simp add: strictly_contains_def)
    with R(1) have "R = MedicalRecordNumberRecognizer U language"
      by (auto simp: build_custom_recognizers_def recognizer_entities own_type_distinct)
    with mrn_hit_length R(2) have "rr_end r' - rr_start r' \<le> 12" by blast
    with c r show False by (simp add: strictly_contains_def)
  qed
  moreover have "rr_entity_type ?r \<in> set OWN_TYPES" by (simp add: r OWN_TYPES_def)
  ultimately have "\<exists>y \<in> set results. rr_entity_type y = rr_entity_type ?r \<and> rr_start y = rr_start ?r
      \<and> rr_end y = rr_end ?r \<and> rr_score ?r \<le> rr_score y"
    using assms(3,4) unfolding engine_keeps_hits_def by blast
  then show ?thesis by (simp only: r)
qed

text \<open>A configuration that looks for the number and neither allows it nor asks for more.\<close>

definition looks_for_mrn :: "ucd \<Rightarrow> detection_config \<Rightarrow> ustr list option \<Rightarrow> ustr \<Rightarrow> bool" where
  "looks_for_mrn U config requested value \<longleftrightarrow>
     MEDICAL_RECORD_NUMBER \<in> set (dc_enabled_entities config)
     \<and> (case requested of None \<Rightarrow> True | Some r \<Rightarrow> MEDICAL_RECORD_NUMBER \<in> set r)
     \<and> \<not> is_allowlisted U config value
     \<and> threshold_for config MEDICAL_RECORD_NUMBER \<le> 85/100"

lemma mrn_candidate_survives:
  assumes "looks_for_mrn U config requested (MRN_PREFIX @ ds)" "length ds = 8"
    and "ca_entity_type c = MEDICAL_RECORD_NUMBER" "ca_start c = int (length a)"
    and "ca_end c = int (length a + 12)" "85/100 \<le> ca_score c"
  shows "candidate_survives U (a @ MRN_PREFIX @ ds @ b) config requested c"
proof -
  have "slice (a @ MRN_PREFIX @ ds @ b) (length a) (length a + 12) = MRN_PREFIX @ ds"
    using assms(2) by (simp add: slice_def)
  moreover have "threshold_for config MEDICAL_RECORD_NUMBER \<le> ca_score c"
    using assms(1,6) unfolding looks_for_mrn_def by linarith
  ultimately show ?thesis
    using assms own_type_distinct(6) unfolding candidate_survives_def Let_def looks_for_mrn_def
      span_is_valid_def value_is_valid_def score_is_reportable_def VALUE_VALIDATORS_def
    by (cases requested) (simp_all add: nat_add_distrib)
qed


text \<open>Past its guards, \<open>detect\<close> gets an engine, runs it and post-processes.\<close>

lemma detect_run:
  assumes "supports_language config language" "strip U txt \<noteq> []" "target_types config requested \<noteq> []"
    and "get_analyzer_engine U S config st = (got, s)"
  shows "detect U S config txt language requested diagnostic st =
    (bindR got (\<lambda>engine. bindR (run_analyzer engine txt language (target_types config requested))
       (\<lambda>cs. finalize U cs txt config requested diagnostic)), s)"
  using assms
  by (cases got; cases "run_analyzer (projr got) txt language (target_types config requested)")
    (simp_all add: detect_def presidio_analyze_def bindS_def liftS_def)

lemma mrn_survives_engine:
  assumes "tables_ok U" "mrn_at U a ds b" "engine_keeps_hits U engine language"
    and "looks_for_mrn U config requested (MRN_PREFIX @ ds)"
    and "run_analyzer engine (a @ MRN_PREFIX @ ds @ b) language (target_types config requested) = Inr cs"
  shows "\<exists>c \<in> set cs. ca_start c = int (length a) \<and> ca_end c = int (length a + 12)
    \<and> candidate_survives U (a @ MRN_PREFIX @ ds @ b) config requested c"
proof -
  let ?txt = "a @ MRN_PREFIX @ ds @ b"
  obtain available where av: "ae_supported engine language = Inr available" "set OWN_TYPES \<subseteq> set available"
    using assms(3) unfolding engine_keeps_hits_def by blast
  define entities where
    "entities = sort (remdups (filter (\<lambda>t. t \<in> set available) (target_types config requested)))"
  have "MEDICAL_RECORD_NUMBER \<in> set (target_types config requested)"
    using assms(4) by (auto simp: looks_for_mrn_def target_types_def split: option.splits)
  with av(2) have E: "MEDICAL_RECORD_NUMBER \<in> set entities" by (simp add: entities_def OWN_TYPES_def)
  then have "entities \<noteq> []" by auto
  with assms(5) av(1) obtain results where results: "ae_analyze engine ?txt language entities = Inr results"
    "cs = map candidate_of results"
    by (auto simp: run_analyzer_def entities_def[symmetric] Let_def split: sum.splits)
  from mrn_hit_kept[OF assms(1,2,3) results(1) E] obtain y where y: "y \<in> set results"
    "rr_entity_type y = MEDICAL_RECORD_NUMBER" "rr_start y = int (length a)"
    "rr_end y = int (length a + 12)" "85/100 \<le> rr_score y" by blast
  have "candidate_survives U ?txt config requested (candidate_of y)"
    using y assms(2,4) by (intro mrn_candidate_survives) (simp_all add: candidate_of_def mrn_at_def)
  with y results(2) show ?thesis by (auto simp: candidate_of_def)
qed



text \<open>An analyzer that runs the recognizers it is given, for the witnesses.\<close>

definition registered :: "('p + recognizer) list \<Rightarrow> ustr \<Rightarrow> recognizer list" where
  "registered registry language =
     concat (map (\<lambda>x. case x of Inl _ \<Rightarrow> [] | Inr R \<Rightarrow> if rc_language R = language then [R] else []) registry)"

definition plain_analyzer :: "ucd \<Rightarrow> (unit, unit) presidio" where
  "plain_analyzer U =
     \<lparr>ps_import = Inr (), ps_installed_models = Inr [lit ''en_core_web_lg''],
      ps_create_engine = (\<lambda>models. Inr ()), ps_predefined = (\<lambda>languages nlp. Inr []),
      ps_analyzer = (\<lambda>nlp registry languages. Inr
        \<lparr>ae_supported = (\<lambda>language. Inr (map rc_entity (registered registry language))),
         ae_analyze = (\<lambda>txt language entities. Inr (concat (map (\<lambda>R. recognizer_analyze U R txt entities)
           (registered registry language))))\<rparr>)\<rparr>"

lemma custom_language: "R \<in> set (build_custom_recognizers U language) \<Longrightarrow> rc_language R = language"
  by (auto simp: build_custom_recognizers_def recognizer_defs)

lemma plain_analyzer_ok: "presidio_ok U (plain_analyzer U)"
  unfolding presidio_ok_def
proof (intro allI impI)
  fix nlp registry languages engine language
  assume e: "ps_analyzer (plain_analyzer U) nlp registry languages = Inr engine"
    and sub: "Inr ` set (build_custom_recognizers U language) \<subseteq> set registry"
  have reg: "set (build_custom_recognizers U language) \<subseteq> set (registered registry language)"
    using sub custom_language by (force simp: registered_def)
  then have own: "set OWN_TYPES \<subseteq> rc_entity ` set (registered registry language)"
    by (force simp: OWN_TYPES_def build_custom_recognizers_def recognizer_entities)
  have hits: "set (custom_hits U language t entities)
      \<subseteq> set (concat (map (\<lambda>R. recognizer_analyze U R t entities) (registered registry language)))"
    for t entities using reg by (auto simp: custom_hits_def)
  have engine: "ae_supported engine language = Inr (map rc_entity (registered registry language))"
    "ae_analyze engine t language entities
       = Inr (concat (map (\<lambda>R. recognizer_analyze U R t entities) (registered registry language)))"
    for t entities using e by (auto simp: plain_analyzer_def)
  show "engine_keeps_hits U engine language"
    unfolding engine_keeps_hits_def
  proof (intro conjI allI impI ballI)
    show "\<exists>available. ae_supported engine language = Inr available \<and> set OWN_TYPES \<subseteq> set available"
      using own by (simp add: engine(1))
  next
    fix t entities results r
    assume "ae_analyze engine t language entities = Inr results"
      and r: "r \<in> set (custom_hits U language t entities)"
    then have "results = concat (map (\<lambda>R. recognizer_analyze U R t entities) (registered registry language))"
      by (simp add: engine(2))
    then have "r \<in> set results" using r hits by blast
    then show "(\<exists>y \<in> set results. rr_entity_type y = rr_entity_type r \<and> rr_start y = rr_start r
        \<and> rr_end y = rr_end r \<and> rr_score r \<le> rr_score y)
      \<or> (\<exists>r' \<in> set (custom_hits U language t entities). strictly_contains r' r)" by blast
  qed
qed

definition MRN_BEFORE :: ustr where "MRN_BEFORE = lit ''chart ''"
definition MRN_DIGITS :: ustr where "MRN_DIGITS = lit ''40217788''"
definition MRN_AFTER :: ustr where "MRN_AFTER = lit '', seen''"
definition no_engines :: analyzer_state where "no_engines = \<lparr>as_cache = [], as_levels = []\<rparr>"

lemma mrn_sample:
  "mrn_at ascii_ucd MRN_BEFORE MRN_DIGITS MRN_AFTER"
  "looks_for_mrn ascii_ucd default_detection_config None (MRN_PREFIX @ MRN_DIGITS)"
  "supports_language default_detection_config (lit ''en'')"
  "engines_ok ascii_ucd no_engines"
  by (simp_all add: mrn_at_def starts_word_def ends_word_def MRN_BEFORE_def MRN_DIGITS_def MRN_AFTER_def
      word_char_def ascii_defs looks_for_mrn_def default_detection_config_def is_allowlisted_def
      threshold_for_def DEFAULT_ENTITY_THRESHOLDS_def DEFAULT_MIN_SCORE_def SUPPORTED_ENTITY_TYPES_def
      entity_type_defs supports_language_def engines_ok_def no_engines_def)


section \<open>Two types for which nothing can be found\<close>

text \<open>
  When the engine supports none of the types asked for, the answer is the empty list, which the
  protocol of the detectors reserves for a text with nothing sensitive in it.
\<close>

lemma unsupported_types_read_as_clean:
  assumes "get_analyzer_engine U S config st = (Inr engine, st')"
    and "ae_supported engine language = Inr available" "set available \<inter> set requested = {}"
    and "supports_language config language" "0 \<le> dc_max_entities config"
  shows "detect U S config txt language (Some requested) diagnostic st = (Inr [], st')
    \<or> detect U S config txt language (Some requested) diagnostic st = (Inr [], st)"
proof (cases "strip U txt = [] \<or> target_types config (Some requested) = []")
  case True
  then show ?thesis using assms(4) by (auto simp: detect_def liftS_def)
next
  case False
  have "filter (\<lambda>t. t \<in> set available) (target_types config (Some requested)) = []"
    using assms(3) by (auto simp: target_types_def filter_empty_conv)
  then have "run_analyzer engine txt language (target_types config (Some requested)) = Inr []"
    by (simp add: run_analyzer_def assms(2))
  moreover have "finalize U [] txt config (Some requested) diagnostic = Inr []"
    using assms(5) by (simp add: finalize_def resolve_overlaps_def)
  ultimately show ?thesis using detect_run[OF assms(4) _ _ assms(1)] False by simp
qed

end
