(* ===== verification/Segmentation.thy ===== *)
theory Segmentation
  imports Domain Effects
begin

text \<open>
  Documents as text: the extracted document and its pages (\<^verbatim>\<open>app/documents/extraction/models.py\<close>)
  and the cutting into overlapping segments (\<^verbatim>\<open>app/documents/segmentation.py\<close>). Offsets are
  natural numbers once the constructors have checked the integers they are given.
\<close>

definition extraction_error :: "string \<Rightarrow> exn" where
  "extraction_error reason = GatewayError DOCUMENT_EXTRACTION_FAILED reason"

section \<open>Extracted documents\<close>

record page_ref =
  pg_number :: nat
  pg_start :: nat
  pg_end :: nat

definition mk_page_ref :: "int \<Rightarrow> int \<Rightarrow> int \<Rightarrow> page_ref res" where
  "mk_page_ref number start stop =
     (if number < 1 then Inl (extraction_error ''page_number_invalid'')
      else if start < 0 \<or> stop < start then Inl (extraction_error ''page_range_invalid'')
      else Inr \<lparr>pg_number = nat number, pg_start = nat start, pg_end = nat stop\<rparr>)"

record extracted_document =
  xd_text :: ustr
  xd_pages :: "page_ref list"

text \<open>The loop of \<open>__post_init__\<close>, with its variable \<open>expected\<close>.\<close>

fun contiguous :: "nat \<Rightarrow> page_ref list \<Rightarrow> nat res" where
  "contiguous expected [] = Inr expected"
| "contiguous expected (page # pages) =
     (if pg_start page \<noteq> expected then Inl (extraction_error ''pages_not_contiguous'')
      else contiguous (pg_end page) pages)"

definition mk_extracted_document :: "ustr \<Rightarrow> page_ref list \<Rightarrow> extracted_document res" where
  "mk_extracted_document txt pages =
     (if pages = [] then Inl (extraction_error ''no_pages'')
      else bindR (contiguous 0 pages) (\<lambda>expected.
        if expected \<noteq> length txt then Inl (extraction_error ''pages_do_not_cover_text'')
        else Inr \<lparr>xd_text = txt, xd_pages = pages\<rparr>))"

definition page_text :: "extracted_document \<Rightarrow> page_ref \<Rightarrow> ustr" where
  "page_text doc page = slice (xd_text doc) (pg_start page) (pg_end page)"

definition pages_covering :: "extracted_document \<Rightarrow> int \<Rightarrow> int \<Rightarrow> nat list res" where
  "pages_covering doc start stop =
     (if start < 0 \<or> stop < start then Inl (extraction_error ''span_invalid'')
      else if start = stop
      then Inr (map pg_number (filter (\<lambda>p. int (pg_start p) \<le> start \<and> start < int (pg_end p)) (xd_pages doc)))
      else Inr (map pg_number (filter (\<lambda>p. int (pg_start p) < stop \<and> start < int (pg_end p)) (xd_pages doc))))"

text \<open>The loop of \<open>build_extracted_document\<close>, over the pages still to place.\<close>

fun place_pages :: "ustr \<Rightarrow> nat \<Rightarrow> nat \<Rightarrow> ustr list \<Rightarrow> (ustr list \<times> page_ref list) res" where
  "place_pages separator index cursor [] = Inr ([], [])"
| "place_pages separator index cursor (txt # rest) =
     (let piece = (if rest = [] then txt else txt @ separator) in
      bindR (mk_page_ref (int index + 1) (int cursor) (int cursor + int (length piece))) (\<lambda>page.
        bindR (place_pages separator (Suc index) (cursor + length piece) rest) (\<lambda>(parts, pages).
          Inr (piece # parts, page # pages))))"

definition build_extracted_document :: "ustr list \<Rightarrow> ustr \<Rightarrow> extracted_document res" where
  "build_extracted_document page_texts separator =
     (if page_texts = [] then Inl (extraction_error ''no_pages'')
      else bindR (place_pages separator 0 0 page_texts) (\<lambda>(parts, pages).
        mk_extracted_document (concat parts) pages))"

definition total_characters :: "ustr list \<Rightarrow> nat" where
  "total_characters page_texts = sum_list (map length page_texts)"

section \<open>Segments\<close>

definition DEFAULT_MAX_CHARACTERS :: int where "DEFAULT_MAX_CHARACTERS = 12000"
definition DEFAULT_OVERLAP_CHARACTERS :: int where "DEFAULT_OVERLAP_CHARACTERS = 256"

definition BREAK_PATTERNS :: "ustr list" where
  "BREAK_PATTERNS = [[10, 10], [10], [46, 32], [32]]"

record text_segment =
  sg_index :: nat
  sg_start :: nat
  sg_end :: nat
  sg_pages :: "nat list"

definition mk_segment :: "int \<Rightarrow> int \<Rightarrow> int \<Rightarrow> nat list \<Rightarrow> text_segment res" where
  "mk_segment index start stop pages =
     (if index < 0 then Inl (extraction_error ''segment_index_invalid'')
      else if start < 0 \<or> stop \<le> start then Inl (extraction_error ''segment_range_invalid'')
      else Inr \<lparr>sg_index = nat index, sg_start = nat start, sg_end = nat stop, sg_pages = pages\<rparr>)"

definition segment_length :: "text_segment \<Rightarrow> nat" where
  "segment_length s = sg_end s - sg_start s"

definition segment_to_global :: "text_segment \<Rightarrow> int \<Rightarrow> nat res" where
  "segment_to_global s offset =
     (if offset < 0 \<or> int (segment_length s) < offset then Inl (extraction_error ''offset_out_of_segment'')
      else Inr (sg_start s + nat offset))"

record segmented_document =
  sd_document :: extracted_document
  sd_segments :: "text_segment list"

definition segment_text :: "segmented_document \<Rightarrow> text_segment \<Rightarrow> ustr" where
  "segment_text sd s = slice (xd_text (sd_document sd)) (sg_start s) (sg_end s)"

record segmenter =
  sm_max_characters :: nat
  sm_overlap :: nat

definition mk_segmenter :: "int \<Rightarrow> int \<Rightarrow> segmenter res" where
  "mk_segmenter max_characters overlap_characters =
     (if max_characters < 1 then Inl ValueError
      else if overlap_characters < 0 then Inl ValueError
      else if max_characters \<le> overlap_characters then Inl ValueError
      else Inr \<lparr>sm_max_characters = nat max_characters, sm_overlap = nat overlap_characters\<rparr>)"

text \<open>
  The loop over the break patterns of \<open>_end_of_segment\<close>. The floor is exact: 0.75 is a binary
  fraction, so \<open>int(m * (1 - 0.25))\<close> is \<open>3 * m div 4\<close> for every size a float represents.
\<close>

fun first_break :: "ustr \<Rightarrow> nat \<Rightarrow> nat \<Rightarrow> nat \<Rightarrow> ustr list \<Rightarrow> nat" where
  "first_break txt lo limit minimum_end [] = limit"
| "first_break txt lo limit minimum_end (pattern # patterns) =
     (case py_rfind txt pattern lo limit of
        None \<Rightarrow> first_break txt lo limit minimum_end patterns
      | Some found \<Rightarrow>
          if minimum_end < found + length pattern then found + length pattern
          else first_break txt lo limit minimum_end patterns)"

definition end_of_segment :: "segmenter \<Rightarrow> ustr \<Rightarrow> nat \<Rightarrow> nat \<Rightarrow> nat" where
  "end_of_segment S txt start minimum_end =
     (let limit = start + sm_max_characters S in
      if length txt \<le> limit then length txt
      else first_break txt (start + max 1 (3 * sm_max_characters S div 4)) limit minimum_end BREAK_PATTERNS)"

text \<open>The loop of \<open>segment\<close>: every round starts strictly later.\<close>

function segment_loop :: "segmenter \<Rightarrow> extracted_document \<Rightarrow> nat \<Rightarrow> nat \<Rightarrow> nat \<Rightarrow> text_segment list res" where
  "segment_loop S doc index start previous_end =
     (if length (xd_text doc) \<le> start then Inr []
      else let stop = end_of_segment S (xd_text doc) start previous_end in
        bindR (pages_covering doc (int start) (int stop)) (\<lambda>pages.
          bindR (mk_segment (int index) (int start) (int stop) pages) (\<lambda>s.
            if length (xd_text doc) \<le> stop then Inr [s]
            else bindR (segment_loop S doc (Suc index) (max (stop - sm_overlap S) (start + 1)) stop)
                   (\<lambda>rest. Inr (s # rest)))))"
  by pat_completeness auto
termination
  by (relation "measure (\<lambda>(S, doc, index, start, previous_end). length (xd_text doc) - start)") auto

declare segment_loop.simps [simp del]

definition segment_document :: "segmenter \<Rightarrow> extracted_document \<Rightarrow> segmented_document res" where
  "segment_document S doc =
     (if xd_text doc = [] then Inl (extraction_error ''no_extractable_text'')
      else bindR (segment_loop S doc 0 0 0) (\<lambda>segments.
        Inr \<lparr>sd_document = doc, sd_segments = segments\<rparr>))"

section \<open>Where a segment ends\<close>

lemma first_break_bounds:
  assumes "lo < limit" "minimum_end < limit" "[] \<notin> set ps"
  shows "lo < first_break txt lo limit minimum_end ps \<and> first_break txt lo limit minimum_end ps \<le> limit
    \<and> minimum_end < first_break txt lo limit minimum_end ps"
  using assms(3)
proof (induction ps)
  case (Cons p ps)
  show ?case
  proof (cases "py_rfind txt p lo limit")
    case (Some found)
    then show ?thesis using py_rfind_Some[OF Some] Cons by (cases p) auto
  qed (use Cons in auto)
qed (use assms in simp)

lemma py_rfind_empty: "p \<noteq> [] \<Longrightarrow> py_rfind txt p k k = None"
  using py_rfind_Some(1)[of "txt" p k k] py_rfind_Some(2)[of "txt" p k k] by (cases p; cases "py_rfind txt p k k") auto

definition wf_segmenter :: "segmenter \<Rightarrow> bool" where
  "wf_segmenter S \<longleftrightarrow> sm_overlap S < sm_max_characters S"

lemma mk_segmenter_wf: "mk_segmenter m ov = Inr S \<Longrightarrow> wf_segmenter S"
  by (auto simp: mk_segmenter_def wf_segmenter_def split: if_splits)

lemma end_of_segment_bounds:
  assumes "wf_segmenter S" "start < length txt" "minimum_end < start + sm_max_characters S" "minimum_end < length txt"
  defines "stop \<equiv> end_of_segment S txt start minimum_end"
  shows "start < stop" "minimum_end < stop" "stop \<le> length txt" "stop \<le> start + sm_max_characters S"
    "stop < length txt \<Longrightarrow> start + 3 * sm_max_characters S div 4 < stop"
proof -
  let ?m = "sm_max_characters S" and ?lo = "start + max 1 (3 * sm_max_characters S div 4)"
  have m: "1 \<le> ?m" "3 * ?m div 4 < ?m" using assms(1) by (auto simp: wf_segmenter_def)
  have "start < stop \<and> minimum_end < stop \<and> stop \<le> length txt \<and> stop \<le> start + ?m
      \<and> (stop < length txt \<longrightarrow> start + 3 * ?m div 4 < stop)"
  proof (cases "length txt \<le> start + ?m")
    case True
    then show ?thesis using assms by (simp add: stop_def end_of_segment_def)
  next
    case False
    then have eq: "stop = first_break txt ?lo (start + ?m) minimum_end BREAK_PATTERNS"
      by (simp add: stop_def end_of_segment_def)
    show ?thesis
    proof (cases "?m = 1")
      case True
      then have "stop = start + 1" by (simp add: eq BREAK_PATTERNS_def py_rfind_empty)
      then show ?thesis using True False assms(3) by simp
    next
      case other: False
      then have "?lo < start + ?m" using m by auto
      moreover have "[] \<notin> set BREAK_PATTERNS" by (simp add: BREAK_PATTERNS_def)
      ultimately show ?thesis using first_break_bounds[OF _ assms(3), of ?lo BREAK_PATTERNS "txt"] eq False m
        by (auto simp: max_def split: if_splits)
    qed
  qed
  then show "start < stop" "minimum_end < stop" "stop \<le> length txt" "stop \<le> start + ?m"
    "stop < length txt \<Longrightarrow> start + 3 * ?m div 4 < stop" by auto
qed

section \<open>What the segments are\<close>

text \<open>The segments from one start on, for a text of \<open>n\<close> characters.\<close>

fun segments_from :: "segmenter \<Rightarrow> nat \<Rightarrow> nat \<Rightarrow> nat \<Rightarrow> nat \<Rightarrow> text_segment list \<Rightarrow> bool" where
  "segments_from S n index start previous_end [] \<longleftrightarrow> False"
| "segments_from S n index start previous_end (s # ss) \<longleftrightarrow>
     sg_index s = index \<and> sg_start s = start \<and> start < sg_end s \<and> previous_end < sg_end s \<and> sg_end s \<le> n
     \<and> sg_end s \<le> start + sm_max_characters S
     \<and> (if ss = [] then sg_end s = n
        else sg_end s < n \<and> start + 3 * sm_max_characters S div 4 < sg_end s
          \<and> segments_from S n (Suc index) (max (sg_end s - sm_overlap S) (start + 1)) (sg_end s) ss)"

lemma pages_covering_Inr: "0 \<le> start \<Longrightarrow> start \<le> stop \<Longrightarrow> \<exists>pages. pages_covering doc start stop = Inr pages"
  by (simp add: pages_covering_def)

lemma segment_loop_ok:
  assumes "wf_segmenter S" "start < length (xd_text doc)" "previous_end < start + sm_max_characters S"
    "previous_end < length (xd_text doc)"
  shows "\<exists>ss. segment_loop S doc index start previous_end = Inr ss
    \<and> segments_from S (length (xd_text doc)) index start previous_end ss"
  using assms
proof (induction S doc index start previous_end rule: segment_loop.induct)
  case (1 S doc index start previous_end)
  let ?n = "length (xd_text doc)"
  define stop where "stop = end_of_segment S (xd_text doc) start previous_end"
  note b = end_of_segment_bounds[OF 1(2-5), folded stop_def]
  obtain pages where pages: "pages_covering doc (int start) (int stop) = Inr pages"
    using pages_covering_Inr[of "int start" "int stop" doc] b(1) by auto
  define s where "s = \<lparr>sg_index = index, sg_start = start, sg_end = stop, sg_pages = pages\<rparr>"
  have mk: "mk_segment (int index) (int start) (int stop) pages = Inr s"
    using b(1) by (simp add: mk_segment_def s_def)
  show ?case
  proof (cases "?n \<le> stop")
    case True
    then show ?thesis using 1(3) b pages mk
      by (intro exI[of _ "[s]"]) (simp add: segment_loop.simps[of S doc] stop_def[symmetric] s_def)
  next
    case False
    have ov: "sm_overlap S < sm_max_characters S" using 1(2) by (simp add: wf_segmenter_def)
    have "\<exists>ss. segment_loop S doc (Suc index) (max (stop - sm_overlap S) (start + 1)) stop = Inr ss
        \<and> segments_from S ?n (Suc index) (max (stop - sm_overlap S) (start + 1)) stop ss"
      by (rule 1(1)) (use 1(2,3) b False pages mk ov in \<open>auto simp: stop_def[symmetric]\<close>)
    then obtain ss where ss: "segment_loop S doc (Suc index) (max (stop - sm_overlap S) (start + 1)) stop = Inr ss"
      "segments_from S ?n (Suc index) (max (stop - sm_overlap S) (start + 1)) stop ss" by blast
    then have "ss \<noteq> []" by auto
    then show ?thesis using 1(3) b pages mk ss False
      by (intro exI[of _ "s # ss"]) (simp add: segment_loop.simps[of S doc index] stop_def[symmetric] s_def)
  qed
qed


lemma segments_from_nth:
  "segments_from S n index start prev ss \<Longrightarrow> i < length ss \<Longrightarrow>
     sg_index (ss ! i) = index + i \<and> sg_start (ss ! i) < sg_end (ss ! i) \<and> sg_end (ss ! i) \<le> n
     \<and> sg_end (ss ! i) \<le> sg_start (ss ! i) + sm_max_characters S
     \<and> (Suc i < length ss \<longrightarrow> sg_start (ss ! i) < sg_start (ss ! Suc i)
          \<and> sg_start (ss ! Suc i) \<le> sg_end (ss ! i) \<and> sg_end (ss ! i) < sg_end (ss ! Suc i))"
proof (induction S n index start prev ss arbitrary: i rule: segments_from.induct)
  case (2 S n index start prev s ss)
  show ?case
  proof (cases i)
    case 0
    then show ?thesis using 2(2) by (cases ss) auto
  next
    case (Suc j)
    then have "ss \<noteq> []" using 2(3) by auto
    then show ?thesis using 2(1)[of j] 2(2,3) Suc by simp
  qed
qed simp

lemma segments_from_ends:
  "segments_from S n index start prev ss \<Longrightarrow> ss \<noteq> [] \<and> sg_start (hd ss) = start \<and> sg_end (last ss) = n"
  by (induction S n index start prev ss rule: segments_from.induct) (auto split: if_splits)

text \<open>
  A value that crosses the end of a segment lies in the next one, which starts a whole overlap
  before that end; this is where the overlap must not exceed three quarters of the segment.
\<close>

lemma segments_from_whole:
  "segments_from S n index start prev ss \<Longrightarrow> 4 * sm_overlap S \<le> 3 * sm_max_characters S \<Longrightarrow>
     start \<le> a \<Longrightarrow> a < b \<Longrightarrow> b \<le> n \<Longrightarrow> b \<le> a + sm_overlap S \<Longrightarrow> \<exists>s \<in> set ss. sg_start s \<le> a \<and> b \<le> sg_end s"
proof (induction S n index start prev ss rule: segments_from.induct)
  case (2 S n index start prev s ss)
  show ?case
  proof (cases "b \<le> sg_end s")
    case True
    then show ?thesis using 2(2,4) by auto
  next
    case False
    then have ss: "ss \<noteq> []" using 2(2,6) by auto
    then have "segments_from S n (Suc index) (max (sg_end s - sm_overlap S) (start + 1)) (sg_end s) ss"
      and long: "start + 3 * sm_max_characters S div 4 < sg_end s" using 2(2) by auto
    moreover have "max (sg_end s - sm_overlap S) (start + 1) \<le> a" using long 2(3,7) False by auto
    ultimately have "\<exists>s \<in> set ss. sg_start s \<le> a \<and> b \<le> sg_end s" using 2(1)[OF ss] 2(3,5-7) by blast
    then show ?thesis by auto
  qed
qed simp

lemma segment_document_ok:
  assumes "wf_segmenter S" "xd_text doc \<noteq> []"
  shows "\<exists>ss. segment_document S doc = Inr \<lparr>sd_document = doc, sd_segments = ss\<rparr> \<and> segments_from S (length (xd_text doc)) 0 0 0 ss"
proof -
  have "0 < sm_max_characters S" using assms(1) by (simp add: wf_segmenter_def)
  then show ?thesis using segment_loop_ok[OF assms(1), of 0 doc 0 0] assms(2) by (auto simp: segment_document_def)
qed

text \<open>
  C20. Cutting a document always succeeds on text, terminates, and hides nothing between segments:
  the segments run from the first character to the last, each starts later than the one before
  and no later than it ends, and none is empty or longer than the limit. When the overlap is at
  most three quarters of the limit, as with the defaults, every stretch of text no longer than the
  overlap lies whole in some segment, so that the detector sees it whole.
\<close>

theorem segments_cover_document:
  assumes "mk_segmenter m ov = Inr S" "xd_text doc \<noteq> []"
  shows "\<exists>ss. segment_document S doc = Inr \<lparr>sd_document = doc, sd_segments = ss\<rparr> \<and> ss \<noteq> []
    \<and> sg_start (hd ss) = 0 \<and> sg_end (last ss) = length (xd_text doc)
    \<and> (\<forall>s \<in> set ss. sg_start s < sg_end s \<and> int (sg_end s) \<le> int (sg_start s) + m \<and> sg_end s \<le> length (xd_text doc))
    \<and> (\<forall>i. Suc i < length ss \<longrightarrow> sg_start (ss ! i) < sg_start (ss ! Suc i)
          \<and> sg_start (ss ! Suc i) \<le> sg_end (ss ! i) \<and> sg_end (ss ! i) < sg_end (ss ! Suc i))
    \<and> (4 * ov \<le> 3 * m \<longrightarrow> (\<forall>a b. a < b \<and> b \<le> length (xd_text doc) \<and> int b \<le> int a + ov \<longrightarrow>
          (\<exists>s \<in> set ss. sg_start s \<le> a \<and> b \<le> sg_end s)))"
proof -
  have S: "wf_segmenter S" "int (sm_max_characters S) = m" "int (sm_overlap S) = ov"
    using assms(1) by (auto simp: mk_segmenter_def wf_segmenter_def split: if_splits)
  obtain ss where ss: "segment_document S doc = Inr \<lparr>sd_document = doc, sd_segments = ss\<rparr>"
    "segments_from S (length (xd_text doc)) 0 0 0 ss" using segment_document_ok[OF S(1) assms(2)] by blast
  have "\<forall>s \<in> set ss. sg_start s < sg_end s \<and> int (sg_end s) \<le> int (sg_start s) + m \<and> sg_end s \<le> length (xd_text doc)"
    using segments_from_nth[OF ss(2)] S(2) by (fastforce simp: in_set_conv_nth)
  moreover have "\<forall>i. Suc i < length ss \<longrightarrow> sg_start (ss ! i) < sg_start (ss ! Suc i)
          \<and> sg_start (ss ! Suc i) \<le> sg_end (ss ! i) \<and> sg_end (ss ! i) < sg_end (ss ! Suc i)"
    using segments_from_nth[OF ss(2)] by (simp add: Suc_lessD)
  moreover have "4 * ov \<le> 3 * m \<longrightarrow> (\<forall>a b. a < b \<and> b \<le> length (xd_text doc) \<and> int b \<le> int a + ov \<longrightarrow>
          (\<exists>s \<in> set ss. sg_start s \<le> a \<and> b \<le> sg_end s))"
  proof (intro impI allI)
    fix a b assume ov: "4 * ov \<le> 3 * m" and ab: "a < b \<and> b \<le> length (xd_text doc) \<and> int b \<le> int a + ov"
    have "4 * sm_overlap S \<le> 3 * sm_max_characters S" "b \<le> a + sm_overlap S" using ov ab S(2,3) by linarith+
    then show "\<exists>s \<in> set ss. sg_start s \<le> a \<and> b \<le> sg_end s" using segments_from_whole[OF ss(2)] ab by blast
  qed
  ultimately show ?thesis using ss segments_from_ends[OF ss(2)] by blast
qed

definition sample_document :: "nat \<Rightarrow> extracted_document" where
  "sample_document n = \<lparr>xd_text = replicate 12 97 @ [32] @ replicate n 97, xd_pages = [\<lparr>pg_number = 1, pg_start = 0, pg_end = n + 13\<rparr>]\<rparr>"

theorem segments_cover_document_witness:
  "\<exists>ss. segment_document \<lparr>sm_max_characters = 16, sm_overlap = 12\<rparr> (sample_document 20)
      = Inr \<lparr>sd_document = sample_document 20, sd_segments = ss\<rparr>
    \<and> (\<exists>s \<in> set ss. sg_start s \<le> 8 \<and> 20 \<le> sg_end s)"
proof -
  have "mk_segmenter 16 12 = Inr \<lparr>sm_max_characters = 16, sm_overlap = 12\<rparr>" by (simp add: mk_segmenter_def)
  from segments_cover_document[OF this, of "sample_document 20"]
  have "\<exists>ss. segment_document \<lparr>sm_max_characters = 16, sm_overlap = 12\<rparr> (sample_document 20)
      = Inr \<lparr>sd_document = sample_document 20, sd_segments = ss\<rparr>
    \<and> (\<forall>a b. a < b \<and> b \<le> length (xd_text (sample_document 20)) \<and> int b \<le> int a + 12 \<longrightarrow>
          (\<exists>s \<in> set ss. sg_start s \<le> a \<and> b \<le> sg_end s))" by (auto simp: sample_document_def)
  moreover have "(8::nat) < 20 \<and> 20 \<le> length (xd_text (sample_document 20)) \<and> int 20 \<le> int 8 + 12"
    by (simp add: sample_document_def)
  ultimately show ?thesis by blast
qed

text \<open>
  The bound on the overlap is needed: with 15 of 16 characters the constructor accepts, and a value
  of 14 characters at the start of this text is whole in no segment.
\<close>

lemma wide_overlap_cuts:
  "(\<exists>S. mk_segmenter 16 15 = Inr S) \<and>
   (case segment_document \<lparr>sm_max_characters = 16, sm_overlap = 15\<rparr> (sample_document 10) of
      Inl _ \<Rightarrow> False | Inr sd \<Rightarrow> list_all (\<lambda>s. \<not> (sg_start s \<le> 0 \<and> 14 \<le> sg_end s)) (sd_segments sd))"
  by (rule conjI, simp add: mk_segmenter_def, code_simp)


section \<open>Pages\<close>

lemma mk_page_ref_ok: "mk_page_ref (int i + 1) (int a) (int a + int n) = Inr \<lparr>pg_number = Suc i, pg_start = a, pg_end = a + n\<rparr>"
  by (simp add: mk_page_ref_def nat_add_distrib)

lemma place_pages_ok:
  "length before = cursor \<Longrightarrow> \<exists>parts pages. place_pages sep index cursor texts = Inr (parts, pages)
     \<and> length parts = length texts \<and> length pages = length texts
     \<and> contiguous cursor pages = Inr (cursor + length (concat parts))
     \<and> (\<forall>i < length texts. pg_number (pages ! i) = index + i + 1
          \<and> slice (before @ concat parts) (pg_start (pages ! i)) (pg_end (pages ! i))
              = (if Suc i < length texts then texts ! i @ sep else texts ! i))"
proof (induction sep index cursor texts arbitrary: before rule: place_pages.induct)
  case (2 sep index cursor t rest)
  define piece where "piece = (if rest = [] then t else t @ sep)"
  obtain parts pages where ih: "place_pages sep (Suc index) (cursor + length piece) rest = Inr (parts, pages)"
    "length parts = length rest" "length pages = length rest"
    "contiguous (cursor + length piece) pages = Inr (cursor + length piece + length (concat parts))"
    "\<forall>i < length rest. pg_number (pages ! i) = Suc index + i + 1
          \<and> slice ((before @ piece) @ concat parts) (pg_start (pages ! i)) (pg_end (pages ! i))
              = (if Suc i < length rest then rest ! i @ sep else rest ! i)"
    using 2(1)[OF piece_def, of "before @ piece"] 2(2) by auto
  let ?p = "\<lparr>pg_number = Suc index, pg_start = cursor, pg_end = cursor + length piece\<rparr>"
  have "place_pages sep index cursor (t # rest) = Inr (piece # parts, ?p # pages)"
    using ih(1) by (simp add: Let_def piece_def[symmetric] mk_page_ref_ok)
  moreover have "slice (before @ concat (piece # parts)) cursor (cursor + length piece) = piece"
    using 2(2) by (simp add: slice_def)
  ultimately show ?case using ih(2-) by (auto simp: nth_Cons piece_def split: nat.splits)
qed simp

text \<open>
  Joining loses no page: each page of the joined document is the text given for it (with the
  separator, except on the last), under its own number, and the pages cover the buffer.
\<close>

lemma build_extracted_document_pages:
  assumes "texts \<noteq> []"
  shows "\<exists>doc. build_extracted_document texts sep = Inr doc \<and> length (xd_pages doc) = length texts
    \<and> (\<forall>i < length texts. pg_number (xd_pages doc ! i) = i + 1
          \<and> page_text doc (xd_pages doc ! i) = (if Suc i < length texts then texts ! i @ sep else texts ! i))"
proof -
  obtain parts pages where p: "place_pages sep 0 0 texts = Inr (parts, pages)" "length pages = length texts"
    "contiguous 0 pages = Inr (length (concat parts))"
    "\<forall>i < length texts. pg_number (pages ! i) = i + 1
          \<and> slice (concat parts) (pg_start (pages ! i)) (pg_end (pages ! i))
              = (if Suc i < length texts then texts ! i @ sep else texts ! i)"
    using place_pages_ok[of "[]" 0 sep 0 texts] by auto
  then have "pages \<noteq> []" using assms by auto
  with p assms show ?thesis by (simp add: build_extracted_document_def mk_extracted_document_def page_text_def)
qed

end
