(* ===== verification/Policy.thy ===== *)
theory Policy
  imports Domain Effects Detection
begin

text \<open>
  Policies: the validated document and the immutable snapshot (\<^verbatim>\<open>app/policy/models.py\<close>), the door
  every document passes (\<^verbatim>\<open>app/policy/validation.py\<close>), the caching service that resolves and
  authorizes (\<^verbatim>\<open>app/policy/service.py\<close>), the detector catalog (\<^verbatim>\<open>app/policy/catalog.py\<close>), the
  authoring checks and the diff (\<^verbatim>\<open>app/policy/authoring.py\<close>), and the default document
  (\<^verbatim>\<open>app/policy/defaults.py\<close>). Pydantic, which decodes raw JSON into typed fields, is not part of
  the repository: \<open>decode\<close> is an argument that answers the typed fields, and the paths reported
  for a rejected document; the constraints the models declare on the fields are checked here.
\<close>

section \<open>The document\<close>

definition POLICY_SCHEMA_VERSION :: int where "POLICY_SCHEMA_VERSION = 1"
definition UNKNOWN_ENTITY_ACTION :: entity_action where "UNKNOWN_ENTITY_ACTION = TOKENIZE"
definition UNKNOWN_ENTITY_MIN_SCORE :: rat where "UNKNOWN_ENTITY_MIN_SCORE = 0"
definition MAX_ENTITY_TYPE_CHARS :: nat where "MAX_ENTITY_TYPE_CHARS = 64"
definition MAX_PROVIDER_ALIAS_CHARS :: nat where "MAX_PROVIDER_ALIAS_CHARS = 64"
definition MAX_MODEL_ALIAS_CHARS :: nat where "MAX_MODEL_ALIAS_CHARS = 128"
definition MAX_POLICY_NAME_CHARS :: nat where "MAX_POLICY_NAME_CHARS = 64"
definition MAX_RECOGNIZER_CHARS :: nat where "MAX_RECOGNIZER_CHARS = 64"
definition MAX_DESCRIPTION_CHARS :: nat where "MAX_DESCRIPTION_CHARS = 280"
definition MAX_SESSION_TTL_SECONDS :: int where "MAX_SESSION_TTL_SECONDS = 86400"
definition MAX_POLICY_ENTITY_BUDGET :: int where "MAX_POLICY_ENTITY_BUDGET = 10000"

record entity_rule =
  er_action :: entity_action
  er_min_score :: rat
  er_enabled :: bool
  er_priority :: "int option"
  er_recognizer :: "ustr option"
  er_description :: "ustr option"

type_synonym provider_rule = "ustr list"

record policy_document =
  pd_schema_version :: int
  pd_name :: ustr
  pd_session_ttl_seconds :: int
  pd_max_entities :: int
  pd_providers :: "(ustr \<times> provider_rule) list"
  pd_entities :: "(ustr \<times> entity_rule) list"
  pd_unknown_output_token_action :: unknown_token_action

definition bounded_str :: "nat \<Rightarrow> ustr \<Rightarrow> bool" where
  "bounded_str n s \<longleftrightarrow> s \<noteq> [] \<and> length s \<le> n"

definition optional_str :: "nat \<Rightarrow> ustr option \<Rightarrow> bool" where
  "optional_str n s \<longleftrightarrow> (case s of None \<Rightarrow> True | Some x \<Rightarrow> length x \<le> n)"

definition entity_rule_ok :: "entity_rule \<Rightarrow> bool" where
  "entity_rule_ok r \<longleftrightarrow> 0 \<le> er_min_score r \<and> er_min_score r \<le> 1 \<and>
     (case er_priority r of None \<Rightarrow> True | Some p \<Rightarrow> 0 \<le> p \<and> p \<le> 1000) \<and>
     optional_str MAX_RECOGNIZER_CHARS (er_recognizer r) \<and>
     optional_str MAX_DESCRIPTION_CHARS (er_description r)"

definition provider_rule_ok :: "provider_rule \<Rightarrow> bool" where
  "provider_rule_ok models \<longleftrightarrow> models \<noteq> [] \<and> list_all (bounded_str MAX_MODEL_ALIAS_CHARS) models"

text \<open>A JSON object's keys are distinct; that is part of a decoded document.\<close>

definition policy_document_ok :: "policy_document \<Rightarrow> bool" where
  "policy_document_ok d \<longleftrightarrow>
     pd_schema_version d = POLICY_SCHEMA_VERSION \<and>
     bounded_str MAX_POLICY_NAME_CHARS (pd_name d) \<and>
     0 < pd_session_ttl_seconds d \<and> pd_session_ttl_seconds d \<le> MAX_SESSION_TTL_SECONDS \<and>
     0 < pd_max_entities d \<and> pd_max_entities d \<le> MAX_POLICY_ENTITY_BUDGET \<and>
     pd_providers d \<noteq> [] \<and> distinct (map fst (pd_providers d)) \<and>
     list_all (\<lambda>(alias, rule). bounded_str MAX_PROVIDER_ALIAS_CHARS alias \<and> provider_rule_ok rule) (pd_providers d) \<and>
     pd_entities d \<noteq> [] \<and> distinct (map fst (pd_entities d)) \<and>
     list_all (\<lambda>(name, rule). bounded_str MAX_ENTITY_TYPE_CHARS name \<and> entity_rule_ok rule) (pd_entities d)"

record 'raw decoder =
  dc_fields :: "'raw \<Rightarrow> policy_document option"
  dc_paths :: "'raw \<Rightarrow> ustr list"

definition validate_policy_document :: "'raw decoder \<Rightarrow> 'raw \<Rightarrow> policy_document res" where
  "validate_policy_document decode raw =
     (case dc_fields decode raw of
        None \<Rightarrow> Inl (GatewayError INVALID_REQUEST ''problems'')
      | Some d \<Rightarrow> if policy_document_ok d then Inr d else Inl (GatewayError INVALID_REQUEST ''problems''))"

record 'raw stored_policy =
  sp_policy_id :: uuid
  sp_tenant_id :: "uuid option"
  sp_version :: nat
  sp_document :: 'raw

section \<open>The snapshot\<close>

record policy_snapshot =
  sn_policy_id :: uuid
  sn_tenant_id :: uuid
  sn_version :: nat
  sn_name :: ustr
  sn_session_ttl_seconds :: int
  sn_max_entities :: int
  sn_unknown_output_token_action :: unknown_token_action
  sn_entities :: "(ustr \<times> entity_rule) list"
  sn_providers :: "(ustr \<times> ustr list) list"

definition snapshot_from_document :: "policy_document \<Rightarrow> uuid \<Rightarrow> uuid \<Rightarrow> nat \<Rightarrow> policy_snapshot" where
  "snapshot_from_document d policy_id tenant_id version =
     \<lparr>sn_policy_id = policy_id, sn_tenant_id = tenant_id, sn_version = version, sn_name = pd_name d,
      sn_session_ttl_seconds = pd_session_ttl_seconds d, sn_max_entities = pd_max_entities d,
      sn_unknown_output_token_action = pd_unknown_output_token_action d,
      sn_entities = sort_key fst (filter (\<lambda>(name, rule). er_enabled rule) (pd_entities d)),
      sn_providers = sort_key fst (pd_providers d)\<rparr>"

definition entity_types :: "policy_snapshot \<Rightarrow> ustr list" where
  "entity_types s = map fst (sn_entities s)"

definition action_for :: "policy_snapshot \<Rightarrow> ustr \<Rightarrow> entity_action" where
  "action_for s entity_type =
     (case dict_get (sn_entities s) entity_type of None \<Rightarrow> UNKNOWN_ENTITY_ACTION | Some r \<Rightarrow> er_action r)"

definition min_score_for :: "policy_snapshot \<Rightarrow> ustr \<Rightarrow> rat" where
  "min_score_for s entity_type =
     (case dict_get (sn_entities s) entity_type of None \<Rightarrow> UNKNOWN_ENTITY_MIN_SCORE | Some r \<Rightarrow> er_min_score r)"

definition allows_provider :: "policy_snapshot \<Rightarrow> ustr \<Rightarrow> bool" where
  "allows_provider s alias \<longleftrightarrow> alias \<in> set (map fst (sn_providers s))"

definition allows_model :: "policy_snapshot \<Rightarrow> ustr \<Rightarrow> ustr \<Rightarrow> bool" where
  "allows_model s alias model \<longleftrightarrow>
     model \<in> set (case dict_get (sn_providers s) alias of None \<Rightarrow> [] | Some models \<Rightarrow> models)"

text \<open>The policy as the tokenizer and the detector see it.\<close>

definition policy_view :: "policy_snapshot \<Rightarrow> policy_like" where
  "policy_view s = \<lparr>pl_max_entities = sn_max_entities s, pl_session_ttl_seconds = sn_session_ttl_seconds s,
     pl_action_for = action_for s, pl_min_score_for = min_score_for s\<rparr>"

section \<open>Resolution\<close>

definition POLICY_CACHE_TTL_SECONDS :: rat where
  "POLICY_CACHE_TTL_SECONDS = 30"

record cache_entry =
  ca_snapshot :: policy_snapshot
  ca_expires_at :: rat

record 's policy_service =
  sv_entries :: "uuid \<Rightarrow> cache_entry option"
  sv_repository :: 's

type_synonym ('s, 'raw) active_policy_source = "uuid \<Rightarrow> ('s, 'raw stored_policy option) op"

definition validated_document :: "'raw decoder \<Rightarrow> 'raw stored_policy \<Rightarrow> policy_document res" where
  "validated_document decode stored =
     (case validate_policy_document decode (sp_document stored) of
        Inr d \<Rightarrow> Inr d
      | Inl e \<Rightarrow> Inl (GatewayError POLICY_NOT_FOUND ''stored_document_invalid''))"

definition load_snapshot :: "'raw decoder \<Rightarrow> ('s, 'raw) active_policy_source \<Rightarrow> rat \<Rightarrow> rat \<Rightarrow> uuid \<Rightarrow>
    ('s policy_service, policy_snapshot) op" where
  "load_snapshot decode get_active ttl now tenant_id st =
     (case get_active tenant_id (sv_repository st) of
        (Inl e, s) \<Rightarrow> (Inl e, st\<lparr>sv_repository := s\<rparr>)
      | (Inr None, s) \<Rightarrow>
          (Inl (GatewayError POLICY_NOT_FOUND ''no_active_policy''),
           st\<lparr>sv_repository := s, sv_entries := (sv_entries st)(tenant_id := None)\<rparr>)
      | (Inr (Some stored), s) \<Rightarrow>
          (case validated_document decode stored of
             Inl e \<Rightarrow> (Inl e, st\<lparr>sv_repository := s\<rparr>)
           | Inr d \<Rightarrow>
               (let snapshot = snapshot_from_document d (sp_policy_id stored) tenant_id (sp_version stored)
                in (Inr snapshot, st\<lparr>sv_repository := s,
                      sv_entries := (sv_entries st)(tenant_id \<mapsto>
                        \<lparr>ca_snapshot = snapshot, ca_expires_at = now + ttl\<rparr>)\<rparr>))))"

definition active_snapshot :: "'raw decoder \<Rightarrow> ('s, 'raw) active_policy_source \<Rightarrow> rat \<Rightarrow> rat \<Rightarrow> uuid \<Rightarrow>
    ('s policy_service, policy_snapshot) op" where
  "active_snapshot decode get_active ttl now tenant_id st =
     (case sv_entries st tenant_id of
        Some entry \<Rightarrow> if now < ca_expires_at entry then (Inr (ca_snapshot entry), st)
                      else load_snapshot decode get_active ttl now tenant_id st
      | None \<Rightarrow> load_snapshot decode get_active ttl now tenant_id st)"

definition resolve_policy :: "'raw decoder \<Rightarrow> ('s, 'raw) active_policy_source \<Rightarrow> rat \<Rightarrow> rat \<Rightarrow> uuid \<Rightarrow> ustr \<Rightarrow> ustr \<Rightarrow>
    ('s policy_service, policy_snapshot) op" where
  "resolve_policy decode get_active ttl now tenant_id provider model =
     bindS (active_snapshot decode get_active ttl now tenant_id) (\<lambda>snapshot.
       if \<not> allows_provider snapshot provider then liftS (Inl (GatewayError PROVIDER_NOT_ALLOWED []))
       else if \<not> allows_model snapshot provider model then liftS (Inl (GatewayError MODEL_NOT_ALLOWED []))
       else liftS (Inr snapshot))"

definition invalidate :: "uuid \<Rightarrow> 's policy_service \<Rightarrow> 's policy_service" where
  "invalidate tenant_id st = st\<lparr>sv_entries := (sv_entries st)(tenant_id := None)\<rparr>"

definition clear_cache :: "'s policy_service \<Rightarrow> 's policy_service" where
  "clear_cache st = st\<lparr>sv_entries := Map.empty\<rparr>"

section \<open>The catalog\<close>

definition RECOGNIZER_CUSTOM :: ustr where "RECOGNIZER_CUSTOM = lit ''custom-regex''"
definition RECOGNIZER_BUILTIN :: ustr where "RECOGNIZER_BUILTIN = lit ''presidio-builtin''"

definition CUSTOM_RECOGNIZER_TYPES :: "ustr list" where
  "CUSTOM_RECOGNIZER_TYPES =
     [API_KEY, ACCESS_TOKEN, MEDICAL_RECORD_NUMBER, HEALTH_PLAN_ID, ACCOUNT_NUMBER, CUSTOM_IDENTIFIER]"

record catalog_entry =
  ct_entity_type :: ustr
  ct_recognizer_type :: ustr
  ct_default_threshold :: rat
  ct_severity :: int
  ct_supported_actions :: "entity_action list"

definition supported_actions :: "entity_action list" where
  "supported_actions = [ALLOW, TOKENIZE, REDACT, PSEUDONYMIZE, BLOCK]"

definition detector_catalog :: "catalog_entry list" where
  "detector_catalog = sort_key (\<lambda>e. (- ct_severity e, ct_entity_type e))
     (map (\<lambda>t. \<lparr>ct_entity_type = t,
          ct_recognizer_type = (if t \<in> set CUSTOM_RECOGNIZER_TYPES then RECOGNIZER_CUSTOM else RECOGNIZER_BUILTIN),
          ct_default_threshold = (case dict_get DEFAULT_ENTITY_THRESHOLDS t of None \<Rightarrow> DEFAULT_MIN_SCORE | Some x \<Rightarrow> x),
          ct_severity = (case dict_get ENTITY_PRIORITY t of None \<Rightarrow> 0 | Some x \<Rightarrow> x),
          ct_supported_actions = supported_actions\<rparr>) SUPPORTED_ENTITY_TYPES)"

definition known_entity_types :: "ustr list" where
  "known_entity_types = SUPPORTED_ENTITY_TYPES"

definition known_recognizers :: "ustr list" where
  "known_recognizers = [RECOGNIZER_CUSTOM, RECOGNIZER_BUILTIN]"

section \<open>Authoring\<close>

definition MAX_REPORTED_PROBLEMS :: nat where
  "MAX_REPORTED_PROBLEMS = 20"

record validation_problem =
  vp_field :: ustr
  vp_code :: ustr

record validation_result =
  vl_valid :: bool
  vl_problems :: "validation_problem list"
  vl_warnings :: "validation_problem list"

text \<open>\<open>str(path).split(":", 1)\<close>: the first piece, and the last.\<close>

definition split_problem :: "ustr \<Rightarrow> validation_problem" where
  "split_problem p = (case find_at [58] p of
       None \<Rightarrow> \<lparr>vp_field = p, vp_code = p\<rparr>
     | Some i \<Rightarrow> \<lparr>vp_field = take i p, vp_code = drop (Suc i) p\<rparr>)"

definition unknown_entities :: "policy_document \<Rightarrow> validation_problem list" where
  "unknown_entities d =
     map (\<lambda>name. \<lparr>vp_field = lit ''entities.'' @ name, vp_code = lit ''unsupported_entity''\<rparr>)
       (filter (\<lambda>name. name \<notin> set known_entity_types) (sort (map fst (pd_entities d))))"

definition unknown_recognizers :: "policy_document \<Rightarrow> validation_problem list" where
  "unknown_recognizers d =
     map (\<lambda>(name, r). \<lparr>vp_field = lit ''entities.'' @ name @ lit ''.recognizer'', vp_code = lit ''unsupported_recognizer''\<rparr>)
       (filter (\<lambda>(name, r). case er_recognizer r of None \<Rightarrow> False | Some x \<Rightarrow> x \<notin> set known_recognizers)
         (sort_key fst (pd_entities d)))"

definition HIGH_RISK_ENTITIES :: "ustr list" where
  "HIGH_RISK_ENTITIES = [US_SSN, CREDIT_CARD, API_KEY, ACCESS_TOKEN, US_PASSPORT]"

definition policy_warnings :: "policy_document \<Rightarrow> validation_problem list" where
  "policy_warnings d = concat (map (\<lambda>(name, r).
       if name \<notin> set HIGH_RISK_ENTITIES then []
       else if \<not> er_enabled r
       then [\<lparr>vp_field = lit ''entities.'' @ name @ lit ''.enabled'', vp_code = lit ''high_risk_disabled''\<rparr>]
       else if er_action r = ALLOW
       then [\<lparr>vp_field = lit ''entities.'' @ name @ lit ''.action'', vp_code = lit ''high_risk_allowed''\<rparr>]
       else []) (sort_key fst (pd_entities d)))"

definition validate_draft :: "'raw decoder \<Rightarrow> 'raw \<Rightarrow> validation_result" where
  "validate_draft decode raw =
     (case validate_policy_document decode raw of
        Inl e \<Rightarrow>
          (let paths = (if dc_paths decode raw = [] then [lit ''document:invalid''] else dc_paths decode raw)
           in \<lparr>vl_valid = False, vl_problems = map split_problem (take MAX_REPORTED_PROBLEMS paths), vl_warnings = []\<rparr>)
      | Inr d \<Rightarrow>
          (let problems = unknown_entities d @ unknown_recognizers d
           in \<lparr>vl_valid = (problems = []), vl_problems = take MAX_REPORTED_PROBLEMS problems,
               vl_warnings = policy_warnings d\<rparr>))"

section \<open>The diff\<close>

datatype change_kind = ADDED | REMOVED | CHANGED

record field_change =
  fc_path :: ustr
  fc_before :: "ustr option"
  fc_after :: "ustr option"
  fc_kind :: change_kind

record policy_diff =
  df_from_version :: nat
  df_to_version :: nat
  df_entity_changes :: "field_change list"
  df_setting_changes :: "field_change list"

definition diff_total :: "policy_diff \<Rightarrow> nat" where
  "diff_total d = length (df_entity_changes d) + length (df_setting_changes d)"

fun action_value :: "entity_action \<Rightarrow> ustr" where
  "action_value ALLOW = lit ''allow''"
| "action_value TOKENIZE = lit ''tokenize''"
| "action_value REDACT = lit ''redact''"
| "action_value PSEUDONYMIZE = lit ''pseudonymize''"
| "action_value BLOCK = lit ''block''"

fun unknown_action_value :: "unknown_token_action \<Rightarrow> ustr" where
  "unknown_action_value UPRESERVE = lit ''preserve''"
| "unknown_action_value UREDACT = lit ''redact''"
| "unknown_action_value UFAIL = lit ''fail''"

text \<open>\<open>format(x, "g")\<close> rounds a float to six digits; it is the argument \<open>fmt\<close>.\<close>

definition rule_fields :: "(rat \<Rightarrow> ustr) \<Rightarrow> entity_rule \<Rightarrow> (ustr \<times> ustr) list" where
  "rule_fields fmt r =
     [(lit ''action'', action_value (er_action r)),
      (lit ''min_score'', fmt (er_min_score r)),
      (lit ''enabled'', if er_enabled r then lit ''true'' else lit ''false''),
      (lit ''priority'', case er_priority r of None \<Rightarrow> [0x2014] | Some p \<Rightarrow> int_str p),
      (lit ''recognizer'', case er_recognizer r of None \<Rightarrow> [0x2014] | Some x \<Rightarrow> if x = [] then [0x2014] else x)]"

definition rule_summary :: "(rat \<Rightarrow> ustr) \<Rightarrow> entity_rule \<Rightarrow> ustr" where
  "rule_summary fmt r = action_value (er_action r) @ lit '' @ '' @ fmt (er_min_score r)"

definition changed_fields :: "(rat \<Rightarrow> ustr) \<Rightarrow> ustr \<Rightarrow> entity_rule \<Rightarrow> entity_rule \<Rightarrow> field_change list" where
  "changed_fields fmt name old new =
     map (\<lambda>((f, a), (_, b)). \<lparr>fc_path = name @ lit ''.'' @ f, fc_before = Some a, fc_after = Some b, fc_kind = CHANGED\<rparr>)
       (filter (\<lambda>((_, a), (_, b)). a \<noteq> b) (zip (rule_fields fmt old) (rule_fields fmt new)))"

definition entity_change :: "(rat \<Rightarrow> ustr) \<Rightarrow> ustr \<Rightarrow> entity_rule option \<Rightarrow> entity_rule option \<Rightarrow> field_change list" where
  "entity_change fmt name old new =
     (case (old, new) of
        (None, Some n) \<Rightarrow> [\<lparr>fc_path = name, fc_before = None, fc_after = Some (rule_summary fmt n), fc_kind = ADDED\<rparr>]
      | (Some x, None) \<Rightarrow> [\<lparr>fc_path = name, fc_before = Some (rule_summary fmt x), fc_after = None, fc_kind = REMOVED\<rparr>]
      | (Some x, Some n) \<Rightarrow> changed_fields fmt name x n
      | (None, None) \<Rightarrow> [])"

definition providers_text :: "policy_document \<Rightarrow> ustr" where
  "providers_text d = join_with (lit ''; '')
     (map (\<lambda>(alias, models). alias @ lit '': '' @ join_with (lit '', '') (sort models)) (sort_key fst (pd_providers d)))"

definition setting_changes :: "policy_document \<Rightarrow> policy_document \<Rightarrow> field_change list" where
  "setting_changes before after =
     map (\<lambda>(path, old, new). \<lparr>fc_path = path, fc_before = Some old, fc_after = Some new, fc_kind = CHANGED\<rparr>)
       (filter (\<lambda>(path, old, new). old \<noteq> new)
         [(lit ''session_ttl_seconds'', int_str (pd_session_ttl_seconds before), int_str (pd_session_ttl_seconds after)),
          (lit ''max_entities'', int_str (pd_max_entities before), int_str (pd_max_entities after)),
          (lit ''unknown_output_token_action'', unknown_action_value (pd_unknown_output_token_action before),
             unknown_action_value (pd_unknown_output_token_action after)),
          (lit ''providers'', providers_text before, providers_text after)])"

definition diff_documents :: "(rat \<Rightarrow> ustr) \<Rightarrow> policy_document \<Rightarrow> policy_document \<Rightarrow> nat \<Rightarrow> nat \<Rightarrow> policy_diff" where
  "diff_documents fmt before after from_version to_version =
     \<lparr>df_from_version = from_version, df_to_version = to_version,
      df_entity_changes = concat (map (\<lambda>name. entity_change fmt name
          (dict_get (pd_entities before) name) (dict_get (pd_entities after) name))
        (sorted_list_of_set (set (map fst (pd_entities before)) \<union> set (map fst (pd_entities after))))),
      df_setting_changes = setting_changes before after\<rparr>"

section \<open>The default policy\<close>

definition default_rule :: "entity_action \<Rightarrow> rat \<Rightarrow> entity_rule" where
  "default_rule action min_score = \<lparr>er_action = action, er_min_score = min_score, er_enabled = True,
     er_priority = None, er_recognizer = None, er_description = None\<rparr>"

definition DEFAULT_POLICY :: policy_document where
  "DEFAULT_POLICY =
     \<lparr>pd_schema_version = POLICY_SCHEMA_VERSION, pd_name = lit ''default'', pd_session_ttl_seconds = 1800,
      pd_max_entities = 500, pd_providers = [(lit ''openai-primary'', [lit ''general-chat''])],
      pd_entities =
        [(EMAIL_ADDRESS, default_rule TOKENIZE (7 / 10)),
         (PHONE_NUMBER, default_rule TOKENIZE (4 / 10)),
         (US_SSN, default_rule BLOCK (5 / 10)),
         (CREDIT_CARD, default_rule BLOCK (5 / 10)),
         (PERSON, default_rule TOKENIZE (75 / 100)),
         (LOCATION, default_rule TOKENIZE (8 / 10))],
      pd_unknown_output_token_action = UPRESERVE\<rparr>"

section \<open>Lemmas\<close>

lemma map_of_sort_key: "distinct (map fst xs) \<Longrightarrow> map_of (sort_key f xs) = map_of xs"
proof -
  assume d: "distinct (map fst xs)"
  have "mset (map fst (sort_key f xs)) = mset (map fst xs)" by simp
  then have "distinct (map fst (sort_key f xs))" using d by (metis mset_eq_imp_distinct_iff)
  then show ?thesis using d by (intro map_of_inject_set[THEN iffD2]) simp_all
qed

lemma map_of_filter: "distinct (map fst xs) \<Longrightarrow>
    map_of (filter (\<lambda>(k, v). P v) xs) k = (case map_of xs k of None \<Rightarrow> None | Some v \<Rightarrow> if P v then Some v else None)"
  by (induction xs) (auto split: option.splits simp: map_of_eq_None_iff dest: map_of_SomeD)

lemma document_distinct:
  "policy_document_ok d \<Longrightarrow> distinct (map fst (pd_entities d)) \<and> distinct (map fst (pd_providers d))"
  by (simp add: policy_document_ok_def)

lemma snapshot_entities:
  assumes "policy_document_ok d"
  shows "dict_get (sn_entities (snapshot_from_document d p t v)) ty =
    (case dict_get (pd_entities d) ty of None \<Rightarrow> None | Some r \<Rightarrow> if er_enabled r then Some r else None)"
proof -
  let ?es = "filter (\<lambda>(name, rule). er_enabled rule) (pd_entities d)"
  have "distinct (map fst ?es)" using document_distinct[OF assms] by (simp add: distinct_map_filter)
  then show ?thesis
    using document_distinct[OF assms]
    by (simp add: snapshot_from_document_def map_of_sort_key map_of_filter)
qed

lemma snapshot_providers:
  "policy_document_ok d \<Longrightarrow>
     dict_get (sn_providers (snapshot_from_document d p t v)) alias = dict_get (pd_providers d) alias"
  using document_distinct by (simp add: snapshot_from_document_def map_of_sort_key)

lemma validate_policy_Inr: "validate_policy_document decode raw = Inr d \<Longrightarrow> policy_document_ok d"
  by (auto simp: validate_policy_document_def split: option.splits if_splits)

lemma validated_document_Inr:
  "validated_document decode stored = Inr d \<Longrightarrow> validate_policy_document decode (sp_document stored) = Inr d"
  by (auto simp: validated_document_def split: sum.splits)

lemma default_policy_ok: "policy_document_ok DEFAULT_POLICY"
  by (simp add: policy_document_ok_def DEFAULT_POLICY_def POLICY_SCHEMA_VERSION_def bounded_str_def
      MAX_POLICY_NAME_CHARS_def MAX_SESSION_TTL_SECONDS_def MAX_POLICY_ENTITY_BUDGET_def MAX_PROVIDER_ALIAS_CHARS_def
      provider_rule_ok_def MAX_MODEL_ALIAS_CHARS_def MAX_ENTITY_TYPE_CHARS_def entity_rule_ok_def default_rule_def
      optional_str_def entity_type_defs)

text \<open>
  A value is protected unless the policy says otherwise: the snapshot gives a type the action of
  its rule when the document has one that is enabled, and TOKENIZE with threshold 0 when the rule
  is disabled or absent, so only an enabled ALLOW rule lets a type through unchanged.
\<close>

theorem snapshot_action:
  assumes "policy_document_ok d"
  shows "action_for (snapshot_from_document d p t v) ty =
      (case dict_get (pd_entities d) ty of
         None \<Rightarrow> TOKENIZE | Some r \<Rightarrow> if er_enabled r then er_action r else TOKENIZE)
    \<and> min_score_for (snapshot_from_document d p t v) ty =
      (case dict_get (pd_entities d) ty of
         None \<Rightarrow> 0 | Some r \<Rightarrow> if er_enabled r then er_min_score r else 0)"
  using snapshot_entities[OF assms, of p t v ty]
  by (auto simp: action_for_def min_score_for_def UNKNOWN_ENTITY_ACTION_def UNKNOWN_ENTITY_MIN_SCORE_def
      split: option.splits)

theorem snapshot_action_witness:
  "action_for (snapshot_from_document DEFAULT_POLICY 1 2 3) US_SSN = BLOCK \<and>
   action_for (snapshot_from_document DEFAULT_POLICY 1 2 3) API_KEY = TOKENIZE"
  using snapshot_action[OF default_policy_ok, of 1 2 3 US_SSN] snapshot_action[OF default_policy_ok, of 1 2 3 API_KEY]
  by (simp add: DEFAULT_POLICY_def default_rule_def entity_type_defs)

section \<open>How stale a policy can be\<close>

text \<open>
  \<open>active_at t tenant\<close> is the row the repository would return at time \<open>t\<close>; the calls resolve
  at the times of a monotonic clock.
\<close>

definition repository_at :: "(rat \<Rightarrow> uuid \<Rightarrow> 'raw stored_policy option) \<Rightarrow> rat \<Rightarrow> (unit, 'raw) active_policy_source" where
  "repository_at active_at now tenant_id s = (Inr (active_at now tenant_id), s)"

fun resolve_all :: "'raw decoder \<Rightarrow> (rat \<Rightarrow> uuid \<Rightarrow> 'raw stored_policy option) \<Rightarrow> rat \<Rightarrow>
    (rat \<times> uuid \<times> ustr \<times> ustr) list \<Rightarrow> unit policy_service \<Rightarrow> policy_snapshot res list \<times> unit policy_service" where
  "resolve_all decode active_at ttl [] st = ([], st)"
| "resolve_all decode active_at ttl ((now, tenant, provider, model) # calls) st =
     (let (r, st1) = resolve_policy decode (repository_at active_at now) ttl now tenant provider model st;
          (rs, st2) = resolve_all decode active_at ttl calls st1
      in (r # rs, st2))"

definition built_at :: "'raw decoder \<Rightarrow> (rat \<Rightarrow> uuid \<Rightarrow> 'raw stored_policy option) \<Rightarrow> rat \<Rightarrow> uuid \<Rightarrow> policy_snapshot \<Rightarrow> bool" where
  "built_at decode active_at t tenant sn \<longleftrightarrow> (\<exists>stored d. active_at t tenant = Some stored \<and>
     validate_policy_document decode (sp_document stored) = Inr d \<and>
     sn = snapshot_from_document d (sp_policy_id stored) tenant (sp_version stored))"

definition cache_ok :: "'raw decoder \<Rightarrow> (rat \<Rightarrow> uuid \<Rightarrow> 'raw stored_policy option) \<Rightarrow> rat \<Rightarrow> rat \<Rightarrow> unit policy_service \<Rightarrow> bool" where
  "cache_ok decode active_at ttl now st \<longleftrightarrow> (\<forall>tenant e. sv_entries st tenant = Some e \<longrightarrow>
     (\<exists>t \<le> now. ca_expires_at e = t + ttl \<and> built_at decode active_at t tenant (ca_snapshot e)))"

definition fresh_within :: "'raw decoder \<Rightarrow> (rat \<Rightarrow> uuid \<Rightarrow> 'raw stored_policy option) \<Rightarrow> rat \<Rightarrow> rat \<Rightarrow> uuid \<Rightarrow> policy_snapshot \<Rightarrow> bool" where
  "fresh_within decode active_at ttl now tenant sn \<longleftrightarrow>
     (\<exists>t. t \<le> now \<and> now - ttl < t \<and> built_at decode active_at t tenant sn)"

lemma active_snapshot_step:
  assumes "cache_ok decode active_at ttl now st" "0 < ttl"
    and "active_snapshot decode (repository_at active_at now) ttl now tenant st = (r, st')"
  shows "cache_ok decode active_at ttl now st'"
    and "r = Inr sn \<Longrightarrow> fresh_within decode active_at ttl now tenant sn"
proof -
  have load: "cache_ok decode active_at ttl now st' \<and> (\<forall>sn. r = Inr sn \<longrightarrow> fresh_within decode active_at ttl now tenant sn)"
    if "load_snapshot decode (repository_at active_at now) ttl now tenant st = (r, st')"
  proof (cases "active_at now tenant")
    case None
    then show ?thesis using that assms(1)
      by (auto simp: load_snapshot_def repository_at_def cache_ok_def split: if_splits)
  next
    case (Some stored)
    show ?thesis
    proof (cases "validated_document decode stored")
      case (Inl e)
      then show ?thesis using that Some assms(1) by (auto simp: load_snapshot_def repository_at_def cache_ok_def)
    next
      case (Inr d)
      let ?sn = "snapshot_from_document d (sp_policy_id stored) tenant (sp_version stored)"
      have built: "built_at decode active_at now tenant ?sn"
        using Some validated_document_Inr[OF Inr] by (auto simp: built_at_def)
      then have "fresh_within decode active_at ttl now tenant ?sn" using assms(2) by (auto simp: fresh_within_def)
      moreover have "r = Inr ?sn"
        "sv_entries st' = (sv_entries st)(tenant \<mapsto> \<lparr>ca_snapshot = ?sn, ca_expires_at = now + ttl\<rparr>)"
        using that Some Inr by (auto simp: load_snapshot_def repository_at_def Let_def)
      ultimately show ?thesis using assms(1) built by (auto simp: cache_ok_def)
    qed
  qed
  have both: "cache_ok decode active_at ttl now st' \<and> (\<forall>sn. r = Inr sn \<longrightarrow> fresh_within decode active_at ttl now tenant sn)"
  proof (cases "\<exists>e. sv_entries st tenant = Some e \<and> now < ca_expires_at e")
    case True
    then obtain e where e: "sv_entries st tenant = Some e" "now < ca_expires_at e" by blast
    then obtain t where t: "t \<le> now" "ca_expires_at e = t + ttl" "built_at decode active_at t tenant (ca_snapshot e)"
      using assms(1) by (auto simp: cache_ok_def)
    have "r = Inr (ca_snapshot e)" "st' = st" using assms(3) e by (auto simp: active_snapshot_def)
    moreover have "fresh_within decode active_at ttl now tenant (ca_snapshot e)"
      using t e(2) by (auto simp: fresh_within_def)
    ultimately show ?thesis using assms(1) by simp
  next
    case False
    then have "load_snapshot decode (repository_at active_at now) ttl now tenant st = (r, st')"
      using assms(3) by (auto simp: active_snapshot_def split: option.splits)
    then show ?thesis by (rule load)
  qed
  then show "cache_ok decode active_at ttl now st'" "r = Inr sn \<Longrightarrow> fresh_within decode active_at ttl now tenant sn"
    by blast+
qed

lemma resolve_policy_step:
  assumes "resolve_policy decode get_active ttl now tenant provider model st = (r, st')"
  shows "\<exists>r0. active_snapshot decode get_active ttl now tenant st = (r0, st')
    \<and> (\<forall>sn. r = Inr sn \<longrightarrow> r0 = Inr sn \<and> allows_provider sn provider \<and> allows_model sn provider model)"
proof -
  obtain r0 s0 where "active_snapshot decode get_active ttl now tenant st = (r0, s0)" by fastforce
  then show ?thesis
    using assms by (auto simp: resolve_policy_def bindS_def liftS_def split: sum.splits if_splits)
qed

lemma cache_ok_later: "cache_ok decode active_at ttl now st \<Longrightarrow> now \<le> now' \<Longrightarrow> cache_ok decode active_at ttl now' st"
  unfolding cache_ok_def by (meson order_trans)

lemma resolve_all_fresh:
  assumes "0 < ttl" "cache_ok decode active_at ttl start st" "sorted (start # map fst calls)"
    and "resolve_all decode active_at ttl calls st = (rs, st')" "i < length calls" "rs ! i = Inr sn"
    and "calls ! i = (now, tenant, provider, model)"
  shows "fresh_within decode active_at ttl now tenant sn \<and> allows_provider sn provider \<and> allows_model sn provider model"
  using assms(2-)
proof (induction calls arbitrary: start st rs i st')
  case (Cons c calls)
  obtain now1 tenant1 provider1 model1 where c: "c = (now1, tenant1, provider1, model1)" by (cases c)
  obtain r1 st1 where one: "resolve_policy decode (repository_at active_at now1) ttl now1 tenant1 provider1 model1 st = (r1, st1)"
    by fastforce
  obtain rest st2 where rest: "resolve_all decode active_at ttl calls st1 = (rest, st2)" by fastforce
  have rs: "rs = r1 # rest" using Cons.prems(3) c one rest by (auto split: prod.splits)
  have le: "start \<le> now1" "sorted (now1 # map fst calls)" using Cons.prems(2) c by auto
  obtain r0 where act: "active_snapshot decode (repository_at active_at now1) ttl now1 tenant1 st = (r0, st1)"
    and r0: "\<And>sn. r1 = Inr sn \<Longrightarrow> r0 = Inr sn \<and> allows_provider sn provider1 \<and> allows_model sn provider1 model1"
    using resolve_policy_step[OF one] by blast
  note step = active_snapshot_step[OF cache_ok_later[OF Cons.prems(1) le(1)] assms(1) act]
  show ?case
  proof (cases i)
    case 0
    then show ?thesis using Cons.prems(5,6) rs c step(2) r0 by auto
  next
    case (Suc j)
    then show ?thesis using Cons.IH[OF step(1) le(2) rest, of j] Cons.prems(4-6) rs by simp
  qed
qed simp

text \<open>
  Whatever the repository does in between, a request resolved at time \<open>now\<close> runs under a
  policy that was the tenant's own active, valid row at some time less than the cache lifetime
  ago, and that lists the requested provider and model.
\<close>

theorem policy_staleness_bounded:
  assumes "0 < ttl" "sorted (map fst calls)"
    and "resolve_all decode active_at ttl calls \<lparr>sv_entries = Map.empty, sv_repository = ()\<rparr> = (rs, st')"
    and "i < length calls" "calls ! i = (now, tenant, provider, model)" "rs ! i = Inr sn"
  shows "fresh_within decode active_at ttl now tenant sn \<and> allows_provider sn provider \<and> allows_model sn provider model"
proof -
  have "cache_ok decode active_at ttl (fst (hd calls)) \<lparr>sv_entries = Map.empty, sv_repository = ()\<rparr>"
    by (simp add: cache_ok_def)
  then show ?thesis
    using resolve_all_fresh[OF assms(1) _ _ assms(3,4,6,5)] assms(2,4) by (cases calls) auto
qed

definition sample_decoder :: "policy_document decoder" where
  "sample_decoder = \<lparr>dc_fields = Some, dc_paths = (\<lambda>_. [])\<rparr>"

definition sample_history :: "rat \<Rightarrow> uuid \<Rightarrow> policy_document stored_policy option" where
  "sample_history t tenant = (if t < 20
     then Some \<lparr>sp_policy_id = 1, sp_tenant_id = Some tenant, sp_version = 1, sp_document = DEFAULT_POLICY\<rparr> else None)"

definition sample_calls :: "(rat \<times> uuid \<times> ustr \<times> ustr) list" where
  "sample_calls = [(0, 5, lit ''openai-primary'', lit ''general-chat''),
     (25, 5, lit ''openai-primary'', lit ''general-chat''), (40, 5, lit ''openai-primary'', lit ''general-chat'')]"

lemma sample_served:
  "fst (resolve_all sample_decoder sample_history 30 sample_calls \<lparr>sv_entries = Map.empty, sv_repository = ()\<rparr>) =
     [Inr (snapshot_from_document DEFAULT_POLICY 1 5 1), Inr (snapshot_from_document DEFAULT_POLICY 1 5 1),
      Inl (GatewayError POLICY_NOT_FOUND ''no_active_policy'')]"
  by (simp add: sample_calls_def resolve_policy_def active_snapshot_def load_snapshot_def repository_at_def
      sample_history_def validated_document_def validate_policy_document_def sample_decoder_def default_policy_ok
      bindS_def liftS_def Let_def allows_provider_def allows_model_def snapshot_from_document_def)
     (simp add: DEFAULT_POLICY_def)

theorem policy_staleness_bounded_witness:
  "fresh_within sample_decoder sample_history 30 25 5 (snapshot_from_document DEFAULT_POLICY 1 5 1)"
proof -
  let ?run = "resolve_all sample_decoder sample_history 30 sample_calls \<lparr>sv_entries = Map.empty, sv_repository = ()\<rparr>"
  have "?run = (fst ?run, snd ?run)" by simp
  moreover have "fst ?run ! 1 = Inr (snapshot_from_document DEFAULT_POLICY 1 5 1)" by (simp add: sample_served)
  ultimately show ?thesis
    using policy_staleness_bounded[of 30 sample_calls sample_decoder sample_history "fst ?run" "snd ?run" 1 25 5]
    by (simp add: sample_calls_def)
qed

section \<open>What an empty diff means\<close>

lemma entity_change_Nil:
  "entity_change fmt name old new = [] \<Longrightarrow>
     (old = None \<longleftrightarrow> new = None) \<and>
     (\<forall>x n. old = Some x \<longrightarrow> new = Some n \<longrightarrow>
        er_action x = er_action n \<and> er_enabled x = er_enabled n \<and> fmt (er_min_score x) = fmt (er_min_score n))"
proof (cases old; cases new)
  fix x n
  assume e: "entity_change fmt name old new = []" "old = Some x" "new = Some n"
  then have all: "\<forall>p \<in> set (zip (rule_fields fmt x) (rule_fields fmt n)). snd (fst p) = snd (snd p)"
    by (auto simp: entity_change_def changed_fields_def filter_empty_conv)
  then have f: "action_value (er_action x) = action_value (er_action n)"
    "fmt (er_min_score x) = fmt (er_min_score n)"
    "(if er_enabled x then lit ''true'' else lit ''false'') = (if er_enabled n then lit ''true'' else lit ''false'')"
    by (simp_all add: rule_fields_def)
  have "er_action x = er_action n" using f(1) by (cases "er_action x"; cases "er_action n") simp_all
  moreover have "er_enabled x = er_enabled n" using f(3) by (cases "er_enabled x"; cases "er_enabled n") simp_all
  ultimately show ?thesis using e(2,3) f(2) by simp
qed (auto simp: entity_change_def)

lemma setting_changes_Nil:
  assumes "setting_changes a b = []"
  shows "pd_session_ttl_seconds a = pd_session_ttl_seconds b \<and> pd_max_entities a = pd_max_entities b \<and>
    pd_unknown_output_token_action a = pd_unknown_output_token_action b \<and> providers_text a = providers_text b"
proof -
  have "int_str (pd_session_ttl_seconds a) = int_str (pd_session_ttl_seconds b)"
    "int_str (pd_max_entities a) = int_str (pd_max_entities b)"
    "unknown_action_value (pd_unknown_output_token_action a) = unknown_action_value (pd_unknown_output_token_action b)"
    "providers_text a = providers_text b"
    using assms by (auto simp: setting_changes_def split: if_splits)
  moreover have "unknown_action_value x = unknown_action_value y \<Longrightarrow> x = y" for x y
    by (cases x; cases y) simp_all
  ultimately show ?thesis by (auto dest: int_str_inj)
qed

text \<open>
  A diff that reports nothing means nothing that is enforced has changed: the two documents
  configure the same types with the same action, the same enabled flag and thresholds that print
  alike, and have the same lifetime, entity budget and treatment of unknown tokens.
\<close>

theorem empty_diff_same_enforcement:
  assumes "diff_total (diff_documents fmt a b m n) = 0"
  shows "(\<forall>name. dict_get (pd_entities a) name = None \<longleftrightarrow> dict_get (pd_entities b) name = None) \<and>
    (\<forall>name x y. dict_get (pd_entities a) name = Some x \<longrightarrow> dict_get (pd_entities b) name = Some y \<longrightarrow>
       er_action x = er_action y \<and> er_enabled x = er_enabled y \<and> fmt (er_min_score x) = fmt (er_min_score y)) \<and>
    pd_session_ttl_seconds a = pd_session_ttl_seconds b \<and> pd_max_entities a = pd_max_entities b \<and>
    pd_unknown_output_token_action a = pd_unknown_output_token_action b"
proof -
  let ?names = "set (map fst (pd_entities a)) \<union> set (map fst (pd_entities b))"
  have "set (sorted_list_of_set ?names) = ?names" by (rule set_sorted_list_of_set) simp
  moreover have "concat (map (\<lambda>name. entity_change fmt name
      (dict_get (pd_entities a) name) (dict_get (pd_entities b) name)) (sorted_list_of_set ?names)) = []"
    using assms by (simp add: diff_total_def diff_documents_def)
  ultimately have chg: "entity_change fmt name (dict_get (pd_entities a) name) (dict_get (pd_entities b) name) = []"
    if "name \<in> ?names" for name
    using that by (simp only: concat_eq_Nil_conv set_map) blast
  have settings: "setting_changes a b = []" using assms by (simp add: diff_total_def diff_documents_def)
  have none: "dict_get (pd_entities a) name = None \<and> dict_get (pd_entities b) name = None" if "name \<notin> ?names" for name
    using that by (simp add: map_of_eq_None_iff)
  show ?thesis
    using setting_changes_Nil[OF settings] entity_change_Nil[OF chg] none by (metis option.distinct(1))
qed

theorem empty_diff_same_enforcement_witness:
  "diff_total (diff_documents (\<lambda>x. lit ''0.7'') DEFAULT_POLICY (DEFAULT_POLICY\<lparr>pd_name := lit ''renamed''\<rparr>) 1 2) = 0 \<and>
   pd_max_entities (DEFAULT_POLICY\<lparr>pd_name := lit ''renamed''\<rparr>) = pd_max_entities DEFAULT_POLICY"
proof
  have same: "entity_change fmt name x x = []" for fmt name x
    by (cases x) (auto simp: entity_change_def changed_fields_def rule_fields_def)
  show zero: "diff_total (diff_documents (\<lambda>x. lit ''0.7'') DEFAULT_POLICY (DEFAULT_POLICY\<lparr>pd_name := lit ''renamed''\<rparr>) 1 2) = 0"
    by (simp add: diff_total_def diff_documents_def same setting_changes_def providers_text_def)
  show "pd_max_entities (DEFAULT_POLICY\<lparr>pd_name := lit ''renamed''\<rparr>) = pd_max_entities DEFAULT_POLICY"
    using empty_diff_same_enforcement[OF zero] by simp
qed

end
