(* ===== verification/Outbound.thy ===== *)
theory Outbound
  imports Correlation Policy Llm
begin

text \<open>
  The one door to a provider: the canonical bytes (\<^verbatim>\<open>app/outbound/serialization.py\<close>), the last
  scan of the payload (\<^verbatim>\<open>scan.py\<close>) and the gateway that attests, scans and only then transmits
  (\<^verbatim>\<open>gateway.py\<close>). The detector is an argument: a function of the text and the language that
  answers or raises. Providers change the state \<open>'s\<close> of the outside world; \<open>perf_counter\<close> reads it.
\<close>

section \<open>Serialization\<close>

definition SERIALIZATION_VERSION :: bytes where "SERIALIZATION_VERSION = lit ''sgw:outbound:v1''"

fun role_value :: "message_role \<Rightarrow> ustr" where
  "role_value RSystem = lit ''system''"
| "role_value RUser = lit ''user''"
| "role_value RAssistant = lit ''assistant''"

fun message_parts :: "chat_message list \<Rightarrow> bytes list res" where
  "message_parts [] = Inr []"
| "message_parts (m # ms) =
     bindR (utf8_encode (role_value (cm_role m))) (\<lambda>role.
       bindR (utf8_encode (cm_content m)) (\<lambda>content.
         bindR (message_parts ms) (\<lambda>rest. Inr (role # content # rest))))"

definition outbound_parts :: "ustr \<Rightarrow> ustr \<Rightarrow> nat \<Rightarrow> chat_message list \<Rightarrow> bytes list res" where
  "outbound_parts provider_alias model_alias policy_version messages =
     bindR (utf8_encode provider_alias) (\<lambda>provider.
       bindR (utf8_encode model_alias) (\<lambda>model.
         bindR (message_parts messages) (\<lambda>rest.
           Inr (SERIALIZATION_VERSION # provider # model # nat_str policy_version # nat_str (length messages) # rest))))"

definition serialize_outbound :: "protected_chat_request \<Rightarrow> bytes res" where
  "serialize_outbound r =
     bindR (outbound_parts (pr_provider_alias r) (pr_model_alias r) (pr_policy_version r) (pr_messages r)) (frame 4)"

definition outbound_text :: "protected_chat_request \<Rightarrow> ustr" where
  "outbound_text r = join_with [10] (map cm_content (pr_messages r))"

definition outbound_segments :: "protected_chat_request \<Rightarrow> ustr list" where
  "outbound_segments r = map cm_content (pr_messages r)"

section \<open>The scan\<close>

type_synonym detector = "ustr \<Rightarrow> ustr \<Rightarrow> detected_entity list res"

definition REDACTION_PREFIX :: ustr where
  "REDACTION_PREFIX = LEFT_DELIMITER # lit ''SGW:REDACTED:''"

datatype scan_verdict = CLEAN | BLOCKED

record outbound_scan =
  os_verdict :: scan_verdict
  os_findings :: "ustr list"

lemma startswith_drop_nth: "startswith (drop k s) (c # p) \<Longrightarrow> s ! k = c"
  by (cases "k < length s") (auto simp: startswith_iff Cons_nth_drop_Suc[symmetric])

lemma redaction_cursor_advances:
  assumes "py_find txt [RIGHT_DELIMITER] cursor = Some closing" "py_find txt REDACTION_PREFIX closing = Some i"
  shows "cursor < i" "i \<le> length txt"
proof -
  note a = py_find_Some[OF assms(1)] and b = py_find_Some[OF assms(2)]
  have "txt ! closing = RIGHT_DELIMITER" by (rule startswith_drop_nth[OF a(3)])
  moreover have "txt ! i = LEFT_DELIMITER" by (rule startswith_drop_nth[OF b(3)[unfolded REDACTION_PREFIX_def]])
  ultimately have "closing \<noteq> i" by (auto simp: LEFT_DELIMITER_def RIGHT_DELIMITER_def)
  then show "cursor < i" using a(1) b(1) by simp
  show "i \<le> length txt" using b(2) by simp
qed

text \<open>The loop of \<open>_outside_placeholders\<close>, from its variable \<open>cursor\<close>.\<close>

function redaction_ranges :: "ustr \<Rightarrow> nat option \<Rightarrow> (nat \<times> nat) list" where
  "redaction_ranges txt None = []"
| "redaction_ranges txt (Some cursor) =
     (case py_find txt [RIGHT_DELIMITER] cursor of
        None \<Rightarrow> []
      | Some closing \<Rightarrow> (cursor, closing + 1) # redaction_ranges txt (py_find txt REDACTION_PREFIX closing))"
  by pat_completeness auto
termination
proof (relation "measure (\<lambda>(txt, c). case c of None \<Rightarrow> 0 | Some i \<Rightarrow> Suc (Suc (length txt) - i))")
  fix s :: ustr and cursor closing
  assume a: "py_find s [RIGHT_DELIMITER] cursor = Some closing"
  show "((s, py_find s REDACTION_PREFIX closing), s, Some cursor)
     \<in> measure (\<lambda>(txt, c). case c of None \<Rightarrow> 0 | Some i \<Rightarrow> Suc (Suc (length txt) - i))"
    using redaction_cursor_advances[OF a] by (cases "py_find s REDACTION_PREFIX closing") fastforce+
qed simp

definition reserved_ranges :: "ustr \<Rightarrow> (nat \<times> nat) list" where
  "reserved_ranges txt =
     map (\<lambda>m. (tm_start m, tm_end m)) (find_tokens txt) @ redaction_ranges txt (py_find txt REDACTION_PREFIX 0)"

definition outside_placeholders :: "ustr \<Rightarrow> detected_entity list \<Rightarrow> detected_entity list" where
  "outside_placeholders txt detected =
     (let reserved = reserved_ranges txt
      in if reserved = [] then detected
         else filter (\<lambda>e. \<not> list_ex (\<lambda>(start, stop). de_start e < stop \<and> start < de_end e) reserved) detected)"

definition findings_in :: "ucd \<Rightarrow> detector \<Rightarrow> policy_snapshot \<Rightarrow> ustr \<Rightarrow> ustr \<Rightarrow> ustr list res" where
  "findings_in U detect policy language txt =
     (if strip U txt = [] then Inr []
      else bindR (detect txt language) (\<lambda>detected.
        Inr (remdups (map de_entity_type
          (filter (\<lambda>e. min_score_for policy (de_entity_type e) \<le> de_score e \<and> action_for policy (de_entity_type e) \<noteq> ALLOW)
            (outside_placeholders txt detected))))))"

definition scan_outbound :: "ucd \<Rightarrow> detector \<Rightarrow> policy_snapshot \<Rightarrow> ustr \<Rightarrow> protected_chat_request \<Rightarrow> outbound_scan res" where
  "scan_outbound U detect policy language request =
     bindR (traverseR (\<lambda>m. findings_in U detect policy language (cm_content m)) (pr_messages request)) (\<lambda>found.
       let ordered = sort (remdups (concat found))
       in Inr \<lparr>os_verdict = (if ordered \<noteq> [] then BLOCKED else CLEAN), os_findings = ordered\<rparr>)"

definition is_clean :: "outbound_scan \<Rightarrow> bool" where
  "is_clean s \<longleftrightarrow> os_verdict s = CLEAN"

section \<open>The gateway\<close>

record attestation =
  at_payload_hmac :: ustr
  at_prompt_hmac :: ustr
  at_scan :: outbound_scan

record transmission =
  tr_response :: provider_response
  tr_attestation :: attestation
  tr_provider_latency_ms :: nat
  tr_provider_alias :: ustr

text \<open>
  What \<open>send\<close> ends with when it raises nothing of its own class: a transmission, or
  \<open>OutboundBlockedError\<close>, which carries the attestation. \<open>blocked_error\<close> is that error as the
  \<open>PolicyViolationError\<close> the API layer renders.
\<close>

datatype send_outcome = OutboundBlocked attestation | Transmitted transmission

definition blocked_error :: exn where
  "blocked_error = GatewayError POLICY_VIOLATION ''outbound_scan_found_entities''"

record 's outbound_gateway =
  og_ucd :: ucd
  og_detector :: detector
  og_providers :: "(ustr \<times> 's llm_provider) list"
  og_hmac :: "bytes \<Rightarrow> bytes \<Rightarrow> bytes"
  og_key :: bytes
  og_language :: ustr
  og_clock :: "'s \<Rightarrow> rat"

definition attest :: "'s outbound_gateway \<Rightarrow> policy_snapshot \<Rightarrow> protected_chat_request \<Rightarrow> attestation res" where
  "attest G policy request =
     bindR (serialize_outbound request) (\<lambda>payload.
       bindR (scan_outbound (og_ucd G) (og_detector G) policy (og_language G) request) (\<lambda>scan.
         bindR (outbound_digest (og_hmac G) (og_key G) (pr_tenant_id request) payload) (\<lambda>payload_hmac.
           bindR (prompt_digest (og_hmac G) (og_key G) (pr_tenant_id request) (outbound_segments request)) (\<lambda>prompt_hmac.
             Inr \<lparr>at_payload_hmac = payload_hmac, at_prompt_hmac = prompt_hmac, at_scan = scan\<rparr>))))"

text \<open>\<open>int\<close> truncates; the difference of two readings is not negative unless the clock goes back.\<close>

definition latency_ms :: "rat \<Rightarrow> rat \<Rightarrow> nat" where
  "latency_ms started ended = nat \<lfloor>(ended - started) * 1000\<rfloor>"

type_synonym 's invoker = "'s llm_provider \<Rightarrow> protected_chat_request \<Rightarrow> ('s, provider_response) op"

definition send :: "'s outbound_gateway \<Rightarrow> policy_snapshot \<Rightarrow> 's invoker option \<Rightarrow> protected_chat_request \<Rightarrow>
    ('s, send_outcome) op" where
  "send G policy invoke request =
     bindS (liftS (attest G policy request)) (\<lambda>attestation.
       if \<not> is_clean (at_scan attestation) then liftS (Inr (OutboundBlocked attestation))
       else bindS (liftS (registry_get (og_ucd G) (og_providers G) (pr_provider_alias request))) (\<lambda>adapter.
         bindS getS (\<lambda>before.
           bindS (case invoke of Some f \<Rightarrow> f adapter request | None \<Rightarrow> lp_complete adapter request) (\<lambda>response.
             bindS getS (\<lambda>after.
               liftS (Inr (Transmitted
                 \<lparr>tr_response = response, tr_attestation = attestation,
                  tr_provider_latency_ms = latency_ms (og_clock G before) (og_clock G after),
                  tr_provider_alias = lp_alias adapter\<rparr>)))))))"

definition authorize :: "'s outbound_gateway \<Rightarrow> ustr \<Rightarrow> unit res" where
  "authorize G provider_alias =
     bindR (registry_get (og_ucd G) (og_providers G) provider_alias) (\<lambda>_. Inr ())"

definition gateway_session_digest :: "'s outbound_gateway \<Rightarrow> uuid \<Rightarrow> uuid \<Rightarrow> ustr res" where
  "gateway_session_digest G tenant_id session_id = session_digest (og_hmac G) (og_key G) tenant_id session_id"

definition gateway_response_digest :: "'s outbound_gateway \<Rightarrow> uuid \<Rightarrow> ustr \<Rightarrow> ustr res" where
  "gateway_response_digest G tenant_id txt = response_digest (og_hmac G) (og_key G) tenant_id txt"


section \<open>The payload determines what was sent\<close>

lemma role_value_inj: "role_value a = role_value b \<Longrightarrow> a = b"
  by (cases a; cases b) simp_all

lemma message_parts_inj: "message_parts ms = Inr b \<Longrightarrow> message_parts ns = Inr b \<Longrightarrow> ms = ns"
proof (induction ms arbitrary: ns b)
  case Nil
  then show ?case by (cases ns) (auto simp: result_simps)
next
  case (Cons m ms)
  then obtain n ns' where ns: "ns = n # ns'" by (cases ns) (auto simp: result_simps)
  from Cons.prems obtain role content rest where b: "b = role # content # rest"
    and m: "utf8_encode (role_value (cm_role m)) = Inr role" "utf8_encode (cm_content m) = Inr content"
      "message_parts ms = Inr rest"
    and n: "utf8_encode (role_value (cm_role n)) = Inr role" "utf8_encode (cm_content n) = Inr content"
      "message_parts ns' = Inr rest"
    unfolding ns by (auto simp: result_simps)
  have "cm_role m = cm_role n" using utf8_encode_inj[OF m(1) n(1)] role_value_inj by blast
  moreover have "cm_content m = cm_content n" by (rule utf8_encode_inj[OF m(2) n(2)])
  ultimately show ?case using Cons.IH[OF m(3) n(3)] ns by simp
qed

interpretation payload: framed_message 4 "\<lambda>(p, m, v, ms). outbound_parts p m v ms" "\<lambda>_. True"
proof
  fix a b :: "ustr \<times> ustr \<times> nat \<times> chat_message list" and x
  assume "(case a of (p, m, v, ms) \<Rightarrow> outbound_parts p m v ms) = Inr x"
    "(case b of (p, m, v, ms) \<Rightarrow> outbound_parts p m v ms) = Inr x"
  then show "a = b"
    by (cases a; cases b) (auto simp: outbound_parts_def result_simps
        dest: utf8_encode_inj message_parts_inj nat_str_inj)
qed simp

text \<open>
  The attested bytes determine everything that leaves: two protected requests with the same
  payload go to the same provider and model under the same policy version, and carry the same
  messages with the same roles, text for text. No other cutting of the same characters into
  messages or fields gives those bytes.
\<close>

theorem outbound_payload_injective:
  assumes "serialize_outbound a = Inr payload" "serialize_outbound b = Inr payload"
  shows "pr_provider_alias a = pr_provider_alias b \<and> pr_model_alias a = pr_model_alias b
    \<and> pr_policy_version a = pr_policy_version b \<and> pr_messages a = pr_messages b"
  using payload.framed_inj[where m = payload
      and a = "(pr_provider_alias a, pr_model_alias a, pr_policy_version a, pr_messages a)"
      and b = "(pr_provider_alias b, pr_model_alias b, pr_policy_version b, pr_messages b)"] assms
  by (simp add: serialize_outbound_def)

section \<open>What the scan reports\<close>

definition leaks :: "ucd \<Rightarrow> detector \<Rightarrow> policy_snapshot \<Rightarrow> ustr \<Rightarrow> ustr \<Rightarrow> detected_entity \<Rightarrow> bool" where
  "leaks U detect policy language txt e \<longleftrightarrow>
     strip U txt \<noteq> [] \<and> (\<exists>es. detect txt language = Inr es \<and> e \<in> set es)
     \<and> min_score_for policy (de_entity_type e) \<le> de_score e \<and> action_for policy (de_entity_type e) \<noteq> ALLOW
     \<and> (\<forall>(start, stop) \<in> set (reserved_ranges txt). \<not> (de_start e < stop \<and> start < de_end e))"

lemma outside_placeholders_iff:
  "e \<in> set (outside_placeholders txt es) \<longleftrightarrow>
     e \<in> set es \<and> (\<forall>(start, stop) \<in> set (reserved_ranges txt). \<not> (de_start e < stop \<and> start < de_end e))"
  by (auto simp: outside_placeholders_def Let_def list_ex_iff)

lemma findings_in_set:
  "findings_in U detect policy language txt = Inr fs \<Longrightarrow>
     set fs = de_entity_type ` {e. leaks U detect policy language txt e}"
  by (auto simp: findings_in_def leaks_def result_simps outside_placeholders_iff split: if_splits)

lemma findings_in_returns:
  "findings_in U detect policy language txt = Inr fs \<Longrightarrow> strip U txt = [] \<or> (\<exists>es. detect txt language = Inr es)"
  by (auto simp: findings_in_def result_simps split: if_splits)

lemma concat_found:
  "list_all2 (\<lambda>m fs. f m = Inr fs) ms found \<Longrightarrow> (\<And>m fs. f m = Inr fs \<Longrightarrow> set fs = g m) \<Longrightarrow>
     set (concat found) = (\<Union>m \<in> set ms. g m)"
  by (induction rule: list_all2_induct) auto

lemma scan_outbound_findings:
  assumes "scan_outbound U detect policy language request = Inr sc"
  shows "set (os_findings sc) =
      (\<Union>m \<in> set (pr_messages request). de_entity_type ` {e. leaks U detect policy language (cm_content m) e})"
    and "is_clean sc \<longleftrightarrow> os_findings sc = []"
    and "\<forall>m \<in> set (pr_messages request). strip U (cm_content m) = [] \<or> (\<exists>es. detect (cm_content m) language = Inr es)"
proof -
  let ?f = "\<lambda>m. findings_in U detect policy language (cm_content m)"
  obtain found where found: "list_all2 (\<lambda>m fs. ?f m = Inr fs) (pr_messages request) found"
    and sc: "sc = \<lparr>os_verdict = (if sort (remdups (concat found)) \<noteq> [] then BLOCKED else CLEAN),
                  os_findings = sort (remdups (concat found))\<rparr>"
    using assms by (auto simp: scan_outbound_def Let_def bindR_Inr traverseR_Inr)
  show "set (os_findings sc) =
      (\<Union>m \<in> set (pr_messages request). de_entity_type ` {e. leaks U detect policy language (cm_content m) e})"
    using concat_found[OF found findings_in_set] sc by simp
  show "is_clean sc \<longleftrightarrow> os_findings sc = []" by (simp add: is_clean_def sc)
  show "\<forall>m \<in> set (pr_messages request). strip U (cm_content m) = [] \<or> (\<exists>es. detect (cm_content m) language = Inr es)"
    using found findings_in_returns by (fastforce simp: list_all2_conv_all_nth in_set_conv_nth)
qed


section \<open>What the gateway lets through\<close>

lemma attest_Inr:
  "attest G policy request = Inr a \<Longrightarrow>
     (\<exists>payload. serialize_outbound request = Inr payload
        \<and> outbound_digest (og_hmac G) (og_key G) (pr_tenant_id request) payload = Inr (at_payload_hmac a))
     \<and> scan_outbound (og_ucd G) (og_detector G) policy (og_language G) request = Inr (at_scan a)"
  by (auto simp: attest_def result_simps)



definition sample_snapshot :: policy_snapshot where
  "sample_snapshot = \<lparr>sn_policy_id = 1, sn_tenant_id = 2, sn_version = 1, sn_name = lit ''p'',
     sn_session_ttl_seconds = 60, sn_max_entities = 5, sn_unknown_output_token_action = UPRESERVE,
     sn_entities = [(US_SSN, default_rule TOKENIZE (1 / 2))], sn_providers = []\<rparr>"

definition sample_gateway :: "detector \<Rightarrow> unit outbound_gateway" where
  "sample_gateway detect = \<lparr>og_ucd = ascii_ucd, og_detector = detect,
     og_providers = [(lit ''openai'', mock_provider (lit ''openai'') MOCK_MODEL_ID)], og_hmac = zero_hmac,
     og_key = [], og_language = lit ''en'', og_clock = (\<lambda>_. 0)\<rparr>"



lemma sample_payload: "\<exists>b. serialize_outbound sample_protected = Inr b \<and> length b < 256"
proof -
  have "utf8_encode (lit ''openai'') = Inr (lit ''openai'')" "utf8_encode (lit ''fast'') = Inr (lit ''fast'')"
    "utf8_encode (lit ''user'') = Inr (lit ''user'')" "utf8_encode (lit ''hello'') = Inr (lit ''hello'')"
    by (rule utf8_encode_ascii; auto)+
  moreover have "nat_str (Suc 0) = [49]" by (subst nat_str.simps) simp
  ultimately show ?thesis
    by (simp add: serialize_outbound_def outbound_parts_def sample_protected_def SERIALIZATION_VERSION_def to_bytes_be_def bindR_def del: enc_be.simps nat_str.simps utf8_encode.simps)
qed

lemma sample_attest:
  assumes "detect (lit ''hello'') (lit ''en'') = Inr es"
  shows "\<exists>a. attest (sample_gateway detect) sample_snapshot sample_protected = Inr a
    \<and> scan_outbound ascii_ucd detect sample_snapshot (lit ''en'') sample_protected = Inr (at_scan a)"
proof -
  obtain b where b: "serialize_outbound sample_protected = Inr b" "length b < 256" using sample_payload by blast
  have "\<exists>d. outbound_digest zero_hmac [] 2 b = Inr d"
    using frame_ok[of "[OUTBOUND_DOMAIN, uuid_bytes 2, b]" 4] b(2)
    by (auto simp: outbound_digest_def correlation_digest_def OUTBOUND_DOMAIN_def simp del: frame.simps)
  moreover have "utf8_encode (lit ''hello'') = Inr (lit ''hello'')" by (rule utf8_encode_ascii) auto
  then have "\<exists>d. prompt_digest zero_hmac [] 2 (outbound_segments sample_protected) = Inr d"
    using frame_ok[of "[PROMPT_DOMAIN, uuid_bytes 2, lit ''hello'']" 4]
    by (auto simp: prompt_digest_def correlation_digest_def PROMPT_DOMAIN_def outbound_segments_def sample_protected_def
        simp del: frame.simps)
  moreover have "\<exists>sc. scan_outbound ascii_ucd detect sample_snapshot (lit ''en'') sample_protected = Inr sc"
    using assms by (simp add: scan_outbound_def findings_in_def sample_protected_def Let_def)
  moreover have "pr_tenant_id sample_protected = 2" by (simp add: sample_protected_def)
  ultimately show ?thesis using b(1) by (auto simp: attest_def sample_gateway_def)
qed

lemma sample_reserved: "reserved_ranges (lit ''hello'') = []"
  by (simp add: reserved_ranges_def find_tokens_def py_find_def REDACTION_PREFIX_def regex_match_def startswith_def
      LEFT_DELIMITER_def List.map_filter_def)



text \<open>The request id is outside the frame: the same content under another id is the same payload.\<close>

theorem outbound_payload_injective_witness:
  "pr_messages sample_protected = pr_messages (sample_protected\<lparr>pr_request_id := 9\<rparr>)
    \<and> (\<exists>b. serialize_outbound sample_protected = Inr b \<and> serialize_outbound (sample_protected\<lparr>pr_request_id := 9\<rparr>) = Inr b)"
proof -
  obtain b where b: "serialize_outbound sample_protected = Inr b" using sample_payload by blast
  then have b': "serialize_outbound (sample_protected\<lparr>pr_request_id := 9\<rparr>) = Inr b" by (simp add: serialize_outbound_def)
  then show ?thesis using outbound_payload_injective[OF b b'] b by blast
qed

end
