(* ===== verification/Document_Analysis.thy ===== *)
theory Document_Analysis
  imports Segmentation Detection Policy Outbound
begin

text \<open>
  From segments to labelled spans (\<^verbatim>\<open>app/documents/analysis\<close>): the merging of per-segment
  detections (\<^verbatim>\<open>spans.py\<close>), the result types with their invariants (\<^verbatim>\<open>models.py\<close>) and the
  analyzer (\<^verbatim>\<open>analyzer.py\<close>). The semaphore bounds how many detections run at once and has no
  effect on their results.
\<close>

section \<open>Detections on the document's coordinates\<close>

record global_detection =
  gd_entity :: detected_entity
  gd_segments :: "nat list"

type_synonym span_key = "ustr \<times> nat \<times> nat"

definition detection_key :: "global_detection \<Rightarrow> span_key" where
  "detection_key d = (de_entity_type (gd_entity d), de_start (gd_entity d), de_end (gd_entity d))"

definition to_global :: "text_segment \<Rightarrow> detected_entity list \<Rightarrow> global_detection list res" where
  "to_global s entities = traverseR (\<lambda>e.
     bindR (segment_to_global s (int (de_start e))) (\<lambda>start.
       bindR (segment_to_global s (int (de_end e))) (\<lambda>stop.
         bindR (mk_entity (de_entity_type e) (int start) (int stop) (de_score e) None) (\<lambda>entity.
           Inr \<lparr>gd_entity = entity, gd_segments = [sg_index s]\<rparr>)))) entities"

text \<open>The loop of \<open>coalesce\<close>, with its dictionary \<open>merged\<close>.\<close>

fun merge_detections :: "global_detection list \<Rightarrow> (span_key \<times> global_detection) list \<Rightarrow>
    (span_key \<times> global_detection) list res" where
  "merge_detections [] merged = Inr merged"
| "merge_detections (d # ds) merged =
     (case dict_get merged (detection_key d) of
        None \<Rightarrow> merge_detections ds (dict_put (detection_key d) d merged)
      | Some existing \<Rightarrow>
          bindR (mk_entity (de_entity_type (gd_entity d)) (int (de_start (gd_entity d))) (int (de_end (gd_entity d)))
                   (max (de_score (gd_entity existing)) (de_score (gd_entity d))) None) (\<lambda>entity.
            merge_detections ds (dict_put (detection_key d)
              \<lparr>gd_entity = entity, gd_segments = sort (remdups (gd_segments existing @ gd_segments d))\<rparr> merged)))"

definition coalesce :: "global_detection list \<Rightarrow> global_detection list res" where
  "coalesce detections =
     bindR (merge_detections detections []) (\<lambda>merged.
       Inr (sort_key (\<lambda>d. (de_start (gd_entity d), de_end (gd_entity d), de_entity_type (gd_entity d)))
              (map snd merged)))"

definition select_confident :: "policy_snapshot \<Rightarrow> global_detection list \<Rightarrow> global_detection list" where
  "select_confident policy detections =
     filter (\<lambda>d. min_score_for policy (de_entity_type (gd_entity d)) \<le> de_score (gd_entity d)) detections"

text \<open>The lookup of \<open>provenance\<close> is by subscript: an absent key is a \<open>KeyError\<close>.\<close>

definition resolve_detections :: "global_detection list \<Rightarrow> global_detection list res" where
  "resolve_detections detections =
     (let provenance = fold (\<lambda>d p. dict_put (detection_key d) (gd_segments d) p) detections [];
          kept = resolve_overlaps ENTITY_PRIORITY (map gd_entity detections)
      in traverseR (\<lambda>e. case dict_get provenance (de_entity_type e, de_start e, de_end e) of
             None \<Rightarrow> Inl KeyError
           | Some segments \<Rightarrow> Inr \<lparr>gd_entity = e, gd_segments = segments\<rparr>) kept)"

definition blocked_entity_type :: "policy_snapshot \<Rightarrow> global_detection list \<Rightarrow> ustr option" where
  "blocked_entity_type policy detections =
     map_option (\<lambda>d. de_entity_type (gd_entity d))
       (List.find (\<lambda>d. action_for policy (de_entity_type (gd_entity d)) = BLOCK) detections)"

section \<open>Labelled spans and analysed documents\<close>

record labeled_span =
  ls_entity_type :: ustr
  ls_start :: nat
  ls_end :: nat
  ls_score :: rat
  ls_action :: entity_action
  ls_pages :: "nat list"
  ls_segments :: "nat list"

definition mk_labeled_span :: "ustr \<Rightarrow> int \<Rightarrow> int \<Rightarrow> rat \<Rightarrow> entity_action \<Rightarrow> nat list \<Rightarrow> nat list \<Rightarrow> labeled_span res" where
  "mk_labeled_span entity_type start stop score action pages segments =
     (if start < 0 \<or> stop \<le> start then Inl ValueError
      else if \<not> (0 \<le> score \<and> score \<le> 1) then Inl ValueError
      else if action = BLOCK then Inl ValueError
      else if pages = [] then Inl ValueError
      else if segments = [] then Inl ValueError
      else Inr \<lparr>ls_entity_type = entity_type, ls_start = nat start, ls_end = nat stop, ls_score = score,
                ls_action = action, ls_pages = pages, ls_segments = segments\<rparr>)"

definition label_spans :: "extracted_document \<Rightarrow> policy_snapshot \<Rightarrow> global_detection list \<Rightarrow> labeled_span list res" where
  "label_spans doc policy detections = traverseR (\<lambda>d. let e = gd_entity d in
     bindR (pages_covering doc (int (de_start e)) (int (de_end e))) (\<lambda>pages.
       mk_labeled_span (de_entity_type e) (int (de_start e)) (int (de_end e)) (de_score e)
         (action_for policy (de_entity_type e)) pages (gd_segments d))) detections"

record analyzed_document =
  an_tenant_id :: uuid
  an_document_id :: uuid
  an_segmented :: segmented_document
  an_spans :: "labeled_span list"
  an_policy :: policy_snapshot

text \<open>The loop of \<open>__post_init__\<close>, with its variable \<open>previous_end\<close>.\<close>

fun check_spans :: "nat \<Rightarrow> nat \<Rightarrow> labeled_span list \<Rightarrow> unit res" where
  "check_spans limit previous_end [] = Inr ()"
| "check_spans limit previous_end (s # ss) =
     (if ls_start s < previous_end then Inl ValueError
      else if limit < ls_end s then Inl ValueError
      else check_spans limit (ls_end s) ss)"

definition mk_analyzed_document :: "analyzed_document \<Rightarrow> analyzed_document res" where
  "mk_analyzed_document a =
     bindR (check_spans (length (xd_text (sd_document (an_segmented a)))) 0 (an_spans a)) (\<lambda>_. Inr a)"

definition span_text :: "analyzed_document \<Rightarrow> labeled_span \<Rightarrow> ustr" where
  "span_text a s = slice (xd_text (sd_document (an_segmented a))) (ls_start s) (ls_end s)"

definition counts_by_action :: "analyzed_document \<Rightarrow> (entity_action \<times> nat) list" where
  "counts_by_action a = fold (\<lambda>s d. dict_incr (ls_action s) 1 d) (an_spans a) []"

definition counts_by_entity_type :: "analyzed_document \<Rightarrow> (ustr \<times> nat) list" where
  "counts_by_entity_type a = fold (\<lambda>s d. dict_incr (ls_entity_type s) 1 d) (an_spans a) []"

section \<open>The analyzer\<close>

definition DEFAULT_DOCUMENT_MAX_ENTITIES :: int where "DEFAULT_DOCUMENT_MAX_ENTITIES = 10000"
definition DEFAULT_CONCURRENCY :: int where "DEFAULT_CONCURRENCY = 4"

text \<open>
  \<open>_first_failure\<close> over the flattened group. Which of the failing segments the task group gathers
  before it cancels the others, and in which order, is up to the event loop: \<open>az_gathered\<close>.
\<close>

fun first_failure :: "exn list \<Rightarrow> exn" where
  "first_failure [] = GatewayError PRIVACY_DETECTOR_UNAVAILABLE ''stage_failed''"
| "first_failure (e # es) = (case e of GatewayError c r \<Rightarrow> e | _ \<Rightarrow> first_failure es)"

record 's document_analyzer =
  az_segment :: "uuid \<Rightarrow> uuid \<Rightarrow> uuid \<Rightarrow> ('s, segmented_document) op"
  az_detector :: detector
  az_snapshot_for :: "uuid \<Rightarrow> ('s, policy_snapshot) op"
  az_gathered :: "exn list \<Rightarrow> exn list"
  az_max_entities :: int

definition mk_document_analyzer :: "'s document_analyzer \<Rightarrow> int \<Rightarrow> 's document_analyzer res" where
  "mk_document_analyzer A concurrency =
     (if az_max_entities A < 1 then Inl ValueError else if concurrency < 1 then Inl ValueError else Inr A)"

definition detect_segments :: "'s document_analyzer \<Rightarrow> segmented_document \<Rightarrow> global_detection list res" where
  "detect_segments A sd =
     (let results = map (\<lambda>s. az_detector A (segment_text sd s) (lit ''en'')) (sd_segments sd);
          failures = List.map_filter (\<lambda>r. case r of Inl e \<Rightarrow> Some e | Inr _ \<Rightarrow> None) results
      in if failures \<noteq> [] then Inl (first_failure (az_gathered A failures))
         else bindR (traverseR (\<lambda>(s, r). bindR r (to_global s)) (zip (sd_segments sd) results))
                (\<lambda>promoted. Inr (concat promoted)))"

definition enforce_document_budget :: "'s document_analyzer \<Rightarrow> global_detection list \<Rightarrow> unit res" where
  "enforce_document_budget A detections =
     (if az_max_entities A < int (length detections)
      then Inl (GatewayError ENTITY_LIMIT_EXCEEDED ''document_entity_budget_exceeded'') else Inr ())"

definition reject_blocked_document :: "policy_snapshot \<Rightarrow> global_detection list \<Rightarrow> unit res" where
  "reject_blocked_document policy detections =
     (case blocked_entity_type policy detections of
        Some _ \<Rightarrow> Inl (GatewayError POLICY_VIOLATION ''policy_blocked_entity'') | None \<Rightarrow> Inr ())"

definition analyze :: "'s document_analyzer \<Rightarrow> uuid \<Rightarrow> uuid \<Rightarrow> uuid \<Rightarrow> ('s, analyzed_document) op" where
  "analyze A tenant_id user_id document_id =
     bindS (az_snapshot_for A tenant_id) (\<lambda>policy.
     bindS (az_segment A tenant_id user_id document_id) (\<lambda>segmented.
     bindS (liftS (detect_segments A segmented)) (\<lambda>detections.
     bindS (liftS (coalesce detections)) (\<lambda>merged.
     bindS (liftS (resolve_detections (select_confident policy merged))) (\<lambda>resolved.
     bindS (liftS (enforce_document_budget A resolved)) (\<lambda>_.
     bindS (liftS (reject_blocked_document policy resolved)) (\<lambda>_.
     bindS (liftS (label_spans (sd_document segmented) policy resolved)) (\<lambda>spans.
       liftS (mk_analyzed_document
         \<lparr>an_tenant_id = tenant_id, an_document_id = document_id, an_segmented = segmented,
          an_spans = spans, an_policy = policy\<rparr>)))))))))"

section \<open>Merging\<close>

text \<open>What a merged dictionary keeps of the detections seen so far.\<close>

definition merged_ok :: "global_detection list \<Rightarrow> (span_key \<times> global_detection) list \<Rightarrow> bool" where
  "merged_ok seen merged \<longleftrightarrow>
     distinct (map fst merged)
     \<and> (\<forall>k d. dict_get merged k = Some d \<longrightarrow> detection_key d = k \<and> wf_entity (gd_entity d) \<and> gd_segments d \<noteq> []
          \<and> (\<exists>x \<in> set seen. detection_key x = k))
     \<and> (\<forall>x \<in> set seen. \<exists>d. dict_get merged (detection_key x) = Some d \<and> de_score (gd_entity x) \<le> de_score (gd_entity d))"

definition wf_detection :: "global_detection \<Rightarrow> bool" where
  "wf_detection d \<longleftrightarrow> wf_entity (gd_entity d) \<and> gd_segments d \<noteq> []"

lemma mk_entity_ok:
  "a < b \<Longrightarrow> 0 \<le> sc \<Longrightarrow> sc \<le> 1 \<Longrightarrow> mk_entity t (int a) (int b) sc r
     = Inr \<lparr>de_entity_type = t, de_start = a, de_end = b, de_score = sc, de_recognizer = r\<rparr>"
  by (simp add: mk_entity_def)

lemma merged_ok_put:
  assumes "merged_ok seen merged" "wf_detection d'" "detection_key d' = detection_key d"
    "de_score (gd_entity d) \<le> de_score (gd_entity d')"
    "\<forall>d0. dict_get merged (detection_key d) = Some d0 \<longrightarrow> de_score (gd_entity d0) \<le> de_score (gd_entity d')"
  shows "merged_ok (seen @ [d]) (dict_put (detection_key d) d' merged)"
proof -
  note m = assms(1)[unfolded merged_ok_def]
  have "distinct (map fst (dict_put (detection_key d) d' merged))" using m by (simp add: distinct_update)
  moreover have "\<exists>y. dict_get (dict_put (detection_key d) d' merged) (detection_key x) = Some y
      \<and> de_score (gd_entity x) \<le> de_score (gd_entity y)" if "x \<in> set (seen @ [d])" for x
  proof (cases "detection_key x = detection_key d")
    case True
    have "de_score (gd_entity x) \<le> de_score (gd_entity d')"
    proof (cases "x \<in> set seen")
      case True
      then obtain y where "dict_get merged (detection_key d) = Some y" "de_score (gd_entity x) \<le> de_score (gd_entity y)"
        using m \<open>detection_key x = detection_key d\<close> by metis
      then show ?thesis using assms(5) order_trans by blast
    qed (use that assms(4) in simp)
    then show ?thesis using True by simp
  qed (use that m in auto)
  moreover have "detection_key y = k \<and> wf_entity (gd_entity y) \<and> gd_segments y \<noteq> [] \<and> (\<exists>x \<in> set (seen @ [d]). detection_key x = k)"
    if "dict_get (dict_put (detection_key d) d' merged) k = Some y" for k y
  proof (cases "k = detection_key d")
    case True
    then have "y = d'" using that by simp
    then show ?thesis using True assms(2,3) by (auto simp: wf_detection_def)
  next
    case False
    then have "dict_get merged k = Some y" using that by simp
    with m show ?thesis unfolding set_append by blast
  qed
  ultimately show ?thesis unfolding merged_ok_def by blast
qed

lemma merge_detections_ok:
  "\<forall>d \<in> set ds. wf_detection d \<Longrightarrow> merged_ok seen merged \<Longrightarrow>
     \<exists>m. merge_detections ds merged = Inr m \<and> merged_ok (seen @ ds) m"
proof (induction ds arbitrary: seen merged)
  case (Cons d ds)
  have wf: "wf_detection d" using Cons.prems(1) by simp
  show ?case
  proof (cases "dict_get merged (detection_key d)")
    case None
    have "merged_ok (seen @ [d]) (dict_put (detection_key d) d merged)"
      using merged_ok_put[OF Cons.prems(2) wf refl] None by simp
    from Cons.IH[OF _ this] Cons.prems(1) None show ?thesis by simp
  next
    case (Some d0)
    have d0: "wf_entity (gd_entity d0)" using Cons.prems(2) Some unfolding merged_ok_def by blast
    let ?sc = "max (de_score (gd_entity d0)) (de_score (gd_entity d))"
    let ?e = "\<lparr>de_entity_type = de_entity_type (gd_entity d), de_start = de_start (gd_entity d),
        de_end = de_end (gd_entity d), de_score = ?sc, de_recognizer = None\<rparr>"
    let ?d = "\<lparr>gd_entity = ?e, gd_segments = sort (remdups (gd_segments d0 @ gd_segments d))\<rparr>"
    have mk: "mk_entity (de_entity_type (gd_entity d)) (int (de_start (gd_entity d))) (int (de_end (gd_entity d))) ?sc None = Inr ?e"
      using wf d0 by (intro mk_entity_ok) (auto simp: wf_detection_def wf_entity_def)
    have "sort (remdups (gd_segments d0 @ gd_segments d)) \<noteq> []"
      using wf by (metis append_is_Nil_conv remdups_eq_nil_iff set_empty set_sort wf_detection_def)
    then have "wf_detection ?d" using wf d0 by (auto simp: wf_detection_def wf_entity_def)
    then have "merged_ok (seen @ [d]) (dict_put (detection_key d) ?d merged)"
      by (rule merged_ok_put[OF Cons.prems(2)]) (simp_all add: detection_key_def Some[unfolded detection_key_def])
    from Cons.IH[OF _ this] Cons.prems(1) Some mk show ?thesis by simp
  qed
qed simp

lemma coalesce_ok:
  assumes "\<forall>d \<in> set ds. wf_detection d"
  obtains cs where "coalesce ds = Inr cs" "distinct (map detection_key cs)" "\<forall>c \<in> set cs. wf_detection c"
    "\<forall>c \<in> set cs. \<exists>d \<in> set ds. detection_key d = detection_key c"
    "\<forall>d \<in> set ds. \<exists>c \<in> set cs. detection_key c = detection_key d \<and> de_score (gd_entity d) \<le> de_score (gd_entity c)"
proof -
  obtain m where m: "merge_detections ds [] = Inr m" "merged_ok ds m"
    using merge_detections_ok[OF assms, of "[]" "[]"] by (auto simp: merged_ok_def)
  define cs where "cs = sort_key (\<lambda>d. (de_start (gd_entity d), de_end (gd_entity d), de_entity_type (gd_entity d))) (map snd m)"
  have dist: "distinct (map fst m)" using m(2) by (simp add: merged_ok_def)
  have get: "dict_get m k = Some d \<longleftrightarrow> (k, d) \<in> set m" for k d using dist by simp
  have keys: "\<forall>(k, d) \<in> set m. detection_key d = k" using m(2) unfolding merged_ok_def get by fast
  then have "map detection_key (map snd m) = map fst m" by (auto simp: case_prod_beta)
  then have "distinct (map detection_key (map snd m))" using dist by (simp only:)
  then have A: "distinct (map detection_key cs)" unfolding cs_def by (simp only: distinct_map distinct_sort set_sort)
  have set_cs: "set cs = snd ` set m" by (simp add: cs_def)
  have B: "\<forall>d \<in> snd ` set m. wf_detection d \<and> (\<exists>x \<in> set ds. detection_key x = detection_key d)"
    using m(2) keys unfolding merged_ok_def get wf_detection_def by fastforce
  have C: "\<forall>d \<in> set ds. \<exists>c \<in> snd ` set m. detection_key c = detection_key d \<and> de_score (gd_entity d) \<le> de_score (gd_entity c)"
  proof
    fix d assume "d \<in> set ds"
    then obtain c where c: "dict_get m (detection_key d) = Some c" "de_score (gd_entity d) \<le> de_score (gd_entity c)"
      using m(2) unfolding merged_ok_def by blast
    then have "(detection_key d, c) \<in> set m" by (simp only: get)
    then show "\<exists>c \<in> snd ` set m. detection_key c = detection_key d \<and> de_score (gd_entity d) \<le> de_score (gd_entity c)"
      using keys c(2) by (intro bexI[of _ c]) force+
  qed
  have "coalesce ds = Inr cs" by (simp add: coalesce_def m(1) cs_def)
  then show thesis using that[of cs] A B C unfolding set_cs by blast
qed


section \<open>What each stage leaves\<close>

text \<open>A detection carries a detector's finding over to the document.\<close>

definition carries :: "text_segment \<Rightarrow> detected_entity \<Rightarrow> global_detection \<Rightarrow> bool" where
  "carries s e d \<longleftrightarrow> detection_key d = (de_entity_type e, sg_start s + de_start e, sg_start s + de_end e)
     \<and> de_score (gd_entity d) = de_score e \<and> wf_detection d"

lemma to_global_Inr: "to_global s es = Inr ds \<Longrightarrow> list_all2 (carries s) es ds"
  unfolding to_global_def traverseR_Inr
  by (erule list_all2_mono) (auto simp: result_simps carries_def detection_key_def wf_detection_def wf_entity_def
      mk_entity_def segment_to_global_def split: if_splits)

lemma list_all2_left: "list_all2 P xs ys \<Longrightarrow> x \<in> set xs \<Longrightarrow> \<exists>y \<in> set ys. P x y"
  by (induction rule: list_all2_induct) auto

lemma list_all2_right: "list_all2 P xs ys \<Longrightarrow> y \<in> set ys \<Longrightarrow> \<exists>x \<in> set xs. P x y"
  by (induction rule: list_all2_induct) auto

lemma list_all2_map_eq: "list_all2 (\<lambda>x y. f y = x) xs ys \<Longrightarrow> map f ys = xs"
  by (induction rule: list_all2_induct) auto

lemma detect_segments_Inr:
  assumes "detect_segments A sd = Inr ds"
  shows "\<forall>d \<in> set ds. wf_detection d"
    and "\<forall>s \<in> set (sd_segments sd). \<exists>es. az_detector A (segment_text sd s) (lit ''en'') = Inr es
      \<and> (\<forall>e \<in> set es. \<exists>d \<in> set ds. carries s e d)"
proof -
  let ?ss = "sd_segments sd" and ?f = "\<lambda>s. az_detector A (segment_text sd s) (lit ''en'')"
  obtain dss where dss: "traverseR (\<lambda>(s, r). bindR r (to_global s)) (zip ?ss (map ?f ?ss)) = Inr dss" and ds: "ds = concat dss"
    using assms by (auto simp: detect_segments_def Let_def result_simps split: if_splits)
  have all2: "list_all2 (\<lambda>s es'. \<exists>es. ?f s = Inr es \<and> list_all2 (carries s) es es') ?ss dss"
    using dss unfolding traverseR_Inr list_all2_conv_all_nth
    by (auto simp: bindR_Inr dest!: to_global_Inr simp: list_all2_conv_all_nth[symmetric])
  show "\<forall>d \<in> set ds. wf_detection d"
  proof
    fix d assume "d \<in> set ds"
    then obtain es' where es': "es' \<in> set dss" "d \<in> set es'" by (auto simp: ds)
    then obtain s es where "list_all2 (carries s) es es'" using list_all2_right[OF all2] by blast
    then show "wf_detection d" using list_all2_right es'(2) by (fastforce simp: carries_def)
  qed
  show "\<forall>s \<in> set ?ss. \<exists>es. ?f s = Inr es \<and> (\<forall>e \<in> set es. \<exists>d \<in> set ds. carries s e d)"
  proof
    fix s assume "s \<in> set ?ss"
    then obtain es es' where es: "es' \<in> set dss" "?f s = Inr es" "list_all2 (carries s) es es'"
      using list_all2_left[OF all2] by blast
    then have "\<forall>e \<in> set es. \<exists>d \<in> set ds. carries s e d" using list_all2_left[OF es(3)] by (fastforce simp: ds)
    with es(2) show "\<exists>es. ?f s = Inr es \<and> (\<forall>e \<in> set es. \<exists>d \<in> set ds. carries s e d)" by blast
  qed
qed

lemma resolve_detections_Inr:
  "resolve_detections ds = Inr rs \<Longrightarrow> map gd_entity rs = resolve_overlaps ENTITY_PRIORITY (map gd_entity ds)"
  unfolding resolve_detections_def Let_def traverseR_Inr
  by (rule list_all2_map_eq, erule list_all2_mono) (auto split: option.splits)

lemma label_spans_Inr:
  "label_spans doc policy ds = Inr ls \<Longrightarrow> list_all2 (\<lambda>d l. ls_entity_type l = de_entity_type (gd_entity d)
     \<and> ls_start l = de_start (gd_entity d) \<and> ls_end l = de_end (gd_entity d) \<and> ls_start l < ls_end l
     \<and> ls_score l = de_score (gd_entity d) \<and> ls_action l = action_for policy (ls_entity_type l) \<and> ls_action l \<noteq> BLOCK
     \<and> pages_covering doc (int (ls_start l)) (int (ls_end l)) = Inr (ls_pages l) \<and> ls_pages l \<noteq> []
     \<and> ls_segments l = gd_segments d) ds ls"
  unfolding label_spans_def traverseR_Inr
  by (erule list_all2_mono) (auto simp: Let_def result_simps mk_labeled_span_def split: if_splits)

lemma check_spans_Inr:
  "check_spans limit previous ss = Inr u \<Longrightarrow> \<forall>s \<in> set ss. ls_start s < ls_end s \<Longrightarrow>
     sorted_wrt (\<lambda>x y. ls_end x \<le> ls_start y) ss \<and> (\<forall>s \<in> set ss. previous \<le> ls_start s \<and> ls_end s \<le> limit)"
proof (induction ss arbitrary: previous)
  case (Cons s ss)
  then have "previous \<le> ls_start s" "ls_end s \<le> limit" "check_spans limit (ls_end s) ss = Inr u" "ls_start s < ls_end s"
    by (auto split: if_splits)
  with Cons.IH[of "ls_end s"] Cons.prems(2) show ?case by fastforce
qed simp

lemma analyze_Inr:
  assumes "analyze A tenant_id user_id document_id s = (Inr a, s')"
  obtains ds cs rs where "detect_segments A (an_segmented a) = Inr ds" "coalesce ds = Inr cs"
    "resolve_detections (select_confident (an_policy a) cs) = Inr rs" "int (length rs) \<le> az_max_entities A"
    "label_spans (sd_document (an_segmented a)) (an_policy a) rs = Inr (an_spans a)"
    "check_spans (length (xd_text (sd_document (an_segmented a)))) 0 (an_spans a) = Inr ()"
    "an_tenant_id a = tenant_id" "an_document_id a = document_id"
    "\<exists>s1 s2. az_snapshot_for A tenant_id s = (Inr (an_policy a), s1)
       \<and> az_segment A tenant_id user_id document_id s1 = (Inr (an_segmented a), s2)"
  using assms by (auto simp: analyze_def state_simps mk_analyzed_document_def result_simps enforce_document_budget_def
      split: if_splits)

text \<open>
  C23. An analysed document protects everything the policy asks for: its spans are in order and
  disjoint, lie inside the text, name a page and carry the action of the very policy they travel
  with, never \<open>BLOCK\<close>, and do not exceed the budget. The detector has answered for every segment;
  and every finding of every segment that meets the policy's threshold is overlapped by a
  labelled span at its place in the document, however many segments saw it.
\<close>

theorem analysis_sound:
  assumes "analyze A tenant_id user_id document_id s = (Inr a, s')"
  shows "sorted_wrt (\<lambda>x y. ls_end x \<le> ls_start y) (an_spans a) \<and> int (length (an_spans a)) \<le> az_max_entities A
    \<and> (\<forall>l \<in> set (an_spans a). ls_start l < ls_end l \<and> ls_end l \<le> length (xd_text (sd_document (an_segmented a)))
          \<and> ls_pages l \<noteq> [] \<and> ls_action l = action_for (an_policy a) (ls_entity_type l) \<and> ls_action l \<noteq> BLOCK)
    \<and> (\<forall>sg \<in> set (sd_segments (an_segmented a)). \<exists>es. az_detector A (segment_text (an_segmented a) sg) (lit ''en'') = Inr es
          \<and> (\<forall>e \<in> set es. min_score_for (an_policy a) (de_entity_type e) \<le> de_score e \<longrightarrow>
               (\<exists>l \<in> set (an_spans a). ls_start l < sg_start sg + de_end e \<and> sg_start sg + de_start e < ls_end l)))"
proof -
  from assms obtain ds cs rs where d: "detect_segments A (an_segmented a) = Inr ds" "coalesce ds = Inr cs"
    "resolve_detections (select_confident (an_policy a) cs) = Inr rs" "int (length rs) \<le> az_max_entities A"
    "label_spans (sd_document (an_segmented a)) (an_policy a) rs = Inr (an_spans a)"
    "check_spans (length (xd_text (sd_document (an_segmented a)))) 0 (an_spans a) = Inr ()"
    by (rule analyze_Inr)
  note det = detect_segments_Inr[OF d(1)] and lab = label_spans_Inr[OF d(5)] and res = resolve_detections_Inr[OF d(3)]
  have cs: "\<forall>c \<in> set cs. wf_detection c"
    "\<forall>x \<in> set ds. \<exists>c \<in> set cs. detection_key c = detection_key x \<and> de_score (gd_entity x) \<le> de_score (gd_entity c)"
    using coalesce_ok[OF det(1)] d(2) by (metis Inr_inject)+
  have spans: "\<forall>l \<in> set (an_spans a). ls_start l < ls_end l \<and> ls_pages l \<noteq> []
      \<and> ls_action l = action_for (an_policy a) (ls_entity_type l) \<and> ls_action l \<noteq> BLOCK"
    using lab by (auto simp: list_all2_conv_all_nth in_set_conv_nth)
  note check = check_spans_Inr[OF d(6)]
  have covered: "\<exists>l \<in> set (an_spans a). ls_start l < sg_start sg + de_end e \<and> sg_start sg + de_start e < ls_end l"
    if x: "x \<in> set ds" and carr: "carries sg e x" and conf: "min_score_for (an_policy a) (de_entity_type e) \<le> de_score e" for sg e x
  proof -
    obtain c where c: "c \<in> set cs" "detection_key c = detection_key x" "de_score (gd_entity x) \<le> de_score (gd_entity c)"
      using cs(2) x by blast
    then have "c \<in> set (select_confident (an_policy a) cs)"
      using carr conf by (auto simp: select_confident_def carries_def detection_key_def)
    then obtain k where k: "k \<in> set (map gd_entity rs)" "k = gd_entity c \<or> overlaps (gd_entity c) k"
      unfolding res using resolve_overlaps_dominates[of "gd_entity c" "map gd_entity (select_confident (an_policy a) cs)"] by force
    have "overlaps (gd_entity c) k"
      using k(2) overlaps_refl cs(1) c(1) by (auto simp: wf_detection_def)
    moreover obtain r where r: "r \<in> set rs" "k = gd_entity r" using k(1) by auto
    then obtain l where "l \<in> set (an_spans a)" "ls_start l = de_start k" "ls_end l = de_end k"
      using list_all2_left[OF lab] by auto
    ultimately show ?thesis using c(2) carr
      by (intro bexI[of _ l]) (auto simp: overlaps_def carries_def detection_key_def)
  qed
  have "int (length (an_spans a)) \<le> az_max_entities A" using d(4) lab by (simp add: list_all2_lengthD)
  moreover have "sorted_wrt (\<lambda>x y. ls_end x \<le> ls_start y) (an_spans a)
      \<and> (\<forall>l \<in> set (an_spans a). ls_end l \<le> length (xd_text (sd_document (an_segmented a))))"
    using check spans by blast
  ultimately show ?thesis using spans det(2) covered by blast
qed


definition sample_analyzer :: "unit document_analyzer" where
  "sample_analyzer = \<lparr>az_segment = (\<lambda>_ _ _. liftS (segment_document \<lparr>sm_max_characters = 16, sm_overlap = 12\<rparr> (sample_document 2))),
     az_detector = (\<lambda>_ _. Inr [sample_span PERSON 0 3]), az_snapshot_for = (\<lambda>_. liftS (Inr sample_snapshot)),
     az_gathered = (\<lambda>es. es), az_max_entities = 5\<rparr>"

lemma sample_analyzed:
  "case analyze sample_analyzer 1 2 3 () of (Inl _, _) \<Rightarrow> False
   | (Inr a, _) \<Rightarrow> map (\<lambda>l. (ls_start l, ls_end l, ls_pages l)) (an_spans a) = [(0, 3, [1])] \<and> length (sd_segments (an_segmented a)) = 1
       \<and> min_score_for (an_policy a) PERSON \<le> 1"
  by code_simp

theorem analysis_sound_witness:
  "\<exists>a. analyze sample_analyzer 1 2 3 () = (Inr a, ()) \<and> (\<forall>sg \<in> set (sd_segments (an_segmented a)).
     \<exists>l \<in> set (an_spans a). ls_start l < sg_start sg + 3 \<and> sg_start sg < ls_end l)"
proof -
  obtain a where a: "analyze sample_analyzer 1 2 3 () = (Inr a, ())" "min_score_for (an_policy a) PERSON \<le> 1"
    using sample_analyzed by (cases "analyze sample_analyzer 1 2 3 ()") (auto split: sum.splits)
  have "az_detector sample_analyzer t n = Inr [sample_span PERSON 0 3]" for t n by (simp add: sample_analyzer_def)
  moreover have "de_score (sample_span PERSON 0 3) = 1" by (simp add: sample_span_def)
  ultimately show ?thesis using analysis_sound[OF a(1)] a by (auto simp: sample_span_def)
qed

end
