(* ===== verification/Vault_Crypto.thy ===== *)
theory Vault_Crypto
  imports Codec
begin

text \<open>
  Envelope encryption of vault records: the key rings (\<^verbatim>\<open>app/vault/keys.py\<close>), the associated data,
  the stored envelope and the cipher (\<^verbatim>\<open>app/vault/crypto.py\<close>), and the plaintext record
  (\<^verbatim>\<open>app/vault/records.py\<close>). AES-GCM is not part of the repository: it is a pair of functions,
  and \<open>aead_laws\<close> states that decryption inverts encryption, that the ciphertext is the plaintext
  and a 16-byte tag, and that the associated data decides whether decryption succeeds and
  never what it returns. The nonce is an argument.
\<close>

section \<open>Key rings\<close>

definition VAULT_KEY_BYTES :: nat where
  "VAULT_KEY_BYTES = 32"

abbreviation vault_failure :: "string \<Rightarrow> exn" where
  "vault_failure \<equiv> GatewayError VAULT_ENCRYPTION_FAILED"

definition validated_key :: "bytes \<Rightarrow> bytes res" where
  "validated_key key =
     (if length key \<noteq> VAULT_KEY_BYTES then Inl (vault_failure ''key_length_invalid'') else Inr key)"

record key_ring =
  kr_active_key_id :: ustr
  kr_key :: "ustr \<Rightarrow> bytes res"

definition static_key_ring :: "(ustr \<times> bytes) list \<Rightarrow> ustr \<Rightarrow> key_ring res" where
  "static_key_ring keys active_key_id =
     (if dict_get keys active_key_id = None then Inl ValueError
      else bindR (traverseR (\<lambda>(k, v). bindR (validated_key v) (\<lambda>v. Inr (k, v))) keys) (\<lambda>ks. Inr
        \<lparr>kr_active_key_id = active_key_id,
         kr_key = (\<lambda>key_id. case dict_get ks key_id of
             None \<Rightarrow> Inl (vault_failure ''unknown_key_id'') | Some k \<Rightarrow> Inr k)\<rparr>))"

text \<open>\<open>SettingsKeyRing\<close> and \<open>DocumentSettingsKeyRing\<close>: one shape over two lookups in the settings.\<close>

definition settings_key_ring :: "ucd \<Rightarrow> ustr \<Rightarrow> (ustr \<Rightarrow> bytes res) \<Rightarrow> key_ring" where
  "settings_key_ring U active lookup =
     \<lparr>kr_active_key_id = ud_lower U active,
      kr_key = (\<lambda>key_id. case lookup key_id of
          Inr raw \<Rightarrow> validated_key raw
        | Inl e \<Rightarrow> if e = ValueError then Inl (vault_failure ''unknown_key_id'') else Inl e)\<rparr>"

section \<open>Associated data\<close>

definition AAD_DOMAIN :: bytes where
  "AAD_DOMAIN = lit ''sgw.vault.aad.v1''"

definition ENVELOPE_VERSION :: nat where
  "ENVELOPE_VERSION = 1"

record vault_aad =
  va_tenant_id :: nat
  va_session_id :: nat
  va_entity_type :: ustr
  va_token_id :: ustr

definition vault_aad_fields :: "vault_aad \<Rightarrow> bytes list res" where
  "vault_aad_fields a =
     bindR (utf8_encode (uuid_str (va_tenant_id a))) (\<lambda>tenant.
     bindR (utf8_encode (uuid_str (va_session_id a))) (\<lambda>session.
     bindR (utf8_encode (va_entity_type a)) (\<lambda>entity.
     bindR (utf8_encode (va_token_id a)) (\<lambda>token.
       Inr [AAD_DOMAIN, [ENVELOPE_VERSION], tenant, session, entity, token]))))"

definition vault_aad_bytes :: "vault_aad \<Rightarrow> bytes res" where
  "vault_aad_bytes a = bindR (vault_aad_fields a) (frame 2)"

definition vault_aad_valid :: "vault_aad \<Rightarrow> bool" where
  "vault_aad_valid a \<longleftrightarrow> valid_uuid (va_tenant_id a) \<and> valid_uuid (va_session_id a)"

lemma vault_aad_bytes_total:
  assumes "\<forall>c \<in> set (va_entity_type a). c < 128" "\<forall>c \<in> set (va_token_id a). c < 128"
    and "length (va_entity_type a) < 65536" "length (va_token_id a) < 65536"
  shows "\<exists>m. vault_aad_bytes a = Inr m"
proof -
  have "utf8_encode (va_entity_type a) = Inr (va_entity_type a)" "utf8_encode (va_token_id a) = Inr (va_token_id a)"
    using assms(1,2) by (auto intro: utf8_encode_ascii)
  then show ?thesis using assms(3,4)
    by (simp add: vault_aad_bytes_def vault_aad_fields_def AAD_DOMAIN_def del: frame.simps) (rule frame_ok, simp)
qed

interpretation vault_aad: framed_message 2 vault_aad_fields vault_aad_valid
proof
  fix a b x
  assume v: "vault_aad_valid a" "vault_aad_valid b"
    and x: "vault_aad_fields a = Inr x" "vault_aad_fields b = Inr x"
  have "va_tenant_id a = va_tenant_id b" "va_session_id a = va_session_id b"
    using v x uuid_str_inj by (auto simp: vault_aad_fields_def vault_aad_valid_def result_simps)
  moreover have "va_entity_type a = va_entity_type b" "va_token_id a = va_token_id b"
    using x utf8_encode_inj by (auto simp: vault_aad_fields_def result_simps)
  ultimately show "a = b" by simp
qed simp

section \<open>The envelope\<close>

definition ENVELOPE_MAGIC :: bytes where
  "ENVELOPE_MAGIC = lit ''SGWV''"

definition NONCE_BYTES :: nat where
  "NONCE_BYTES = 12"

definition GCM_TAG_BYTES :: nat where
  "GCM_TAG_BYTES = 16"

definition MAX_KEY_ID_BYTES :: nat where
  "MAX_KEY_ID_BYTES = 255"

text \<open>The size of \<open>struct.Struct("!4sBB")\<close>: four bytes of magic, a version byte, a length byte.\<close>

definition HEADER_SIZE :: nat where
  "HEADER_SIZE = 6"

record envelope =
  ev_version :: nat
  ev_key_id :: ustr
  ev_nonce :: bytes
  ev_ciphertext :: bytes

definition envelope_to_bytes :: "envelope \<Rightarrow> bytes res" where
  "envelope_to_bytes e =
     bindR (utf8_encode (ev_key_id e)) (\<lambda>key_id.
       if \<not> (0 < length key_id \<and> length key_id \<le> MAX_KEY_ID_BYTES)
       then Inl (vault_failure ''key_id_length_invalid'')
       else Inr (ENVELOPE_MAGIC @ [ev_version e, length key_id] @ key_id @ ev_nonce e @ ev_ciphertext e))"

definition envelope_from_bytes :: "bytes \<Rightarrow> envelope res" where
  "envelope_from_bytes raw =
     (if length raw < HEADER_SIZE then Inl (vault_failure ''envelope_truncated'')
      else if take 4 raw \<noteq> ENVELOPE_MAGIC then Inl (vault_failure ''envelope_magic_mismatch'')
      else if raw ! 4 \<noteq> ENVELOPE_VERSION then Inl (vault_failure ''envelope_version_unsupported'')
      else if raw ! 5 = 0 then Inl (vault_failure ''envelope_key_id_missing'')
      else (let key_id_end = HEADER_SIZE + raw ! 5; nonce_end = key_id_end + NONCE_BYTES in
            if length raw < nonce_end + GCM_TAG_BYTES then Inl (vault_failure ''envelope_truncated'')
            else (case utf8_decode (slice raw HEADER_SIZE key_id_end) of
                    Inl e \<Rightarrow> Inl (vault_failure ''envelope_key_id_invalid'')
                  | Inr key_id \<Rightarrow> Inr \<lparr>ev_version = raw ! 4, ev_key_id = key_id,
                      ev_nonce = slice raw key_id_end nonce_end, ev_ciphertext = drop nonce_end raw\<rparr>)))"

definition wf_envelope :: "envelope \<Rightarrow> bool" where
  "wf_envelope e \<longleftrightarrow> ev_version e = ENVELOPE_VERSION \<and> length (ev_nonce e) = NONCE_BYTES
     \<and> GCM_TAG_BYTES \<le> length (ev_ciphertext e)"

lemma envelope_round_trip:
  assumes "wf_envelope e" "envelope_to_bytes e = Inr raw"
  shows "envelope_from_bytes raw = Inr e"
proof -
  obtain k where k: "utf8_encode (ev_key_id e) = Inr k" "0 < length k"
    and raw: "raw = ENVELOPE_MAGIC @ [ev_version e, length k] @ k @ ev_nonce e @ ev_ciphertext e"
    using assms(2) by (auto simp: envelope_to_bytes_def result_simps split: if_splits)
  have m: "length ENVELOPE_MAGIC = 4" by (simp add: ENVELOPE_MAGIC_def)
  have w: "ev_version e = 1" "length (ev_nonce e) = 12" "16 \<le> length (ev_ciphertext e)"
    using assms(1) by (simp_all add: wf_envelope_def ENVELOPE_VERSION_def NONCE_BYTES_def GCM_TAG_BYTES_def)
  have "length raw = 6 + length k + 12 + length (ev_ciphertext e)" using raw m w(2) by simp
  moreover have "take 4 raw = ENVELOPE_MAGIC" "raw ! 4 = 1" "raw ! 5 = length k"
    using raw m w(1) by (simp_all add: nth_append)
  moreover define h where "h = ENVELOPE_MAGIC @ [ev_version e, length k]"
  then have "raw = h @ k @ ev_nonce e @ ev_ciphertext e" "length h = 6" using raw m by simp_all
  then have "slice raw 6 (6 + length k) = k" "slice raw (6 + length k) (6 + length k + 12) = ev_nonce e"
    "drop (6 + length k + 12) raw = ev_ciphertext e"
    using w(2) by (simp_all add: slice_def)
  moreover have "utf8_decode k = Inr (ev_key_id e)" by (rule utf8_roundtrip[OF k(1)])
  ultimately show ?thesis
    using w k(2)
    by (simp add: envelope_from_bytes_def HEADER_SIZE_def ENVELOPE_VERSION_def NONCE_BYTES_def GCM_TAG_BYTES_def Let_def)
qed

text \<open>Every refusal is the one vault error, whatever the stored bytes are.\<close>

lemma envelope_from_bytes_Inl: "envelope_from_bytes raw = Inl e \<Longrightarrow> \<exists>reason. e = vault_failure reason"
  by (auto simp: envelope_from_bytes_def Let_def split: if_splits sum.splits)

section \<open>The cipher\<close>

record aead =
  ae_encrypt :: "bytes \<Rightarrow> bytes \<Rightarrow> bytes \<Rightarrow> bytes \<Rightarrow> bytes res"
  ae_decrypt :: "bytes \<Rightarrow> bytes \<Rightarrow> bytes \<Rightarrow> bytes \<Rightarrow> bytes res"

definition aead_laws :: "aead \<Rightarrow> bool" where
  "aead_laws A \<longleftrightarrow>
     (\<forall>key nonce pt aad ct. ae_encrypt A key nonce pt aad = Inr ct \<longrightarrow>
        length ct = length pt + GCM_TAG_BYTES \<and> ae_decrypt A key nonce ct aad = Inr pt) \<and>
     (\<forall>key nonce pt aad ct aad' pt'. ae_encrypt A key nonce pt aad = Inr ct \<longrightarrow>
        ae_decrypt A key nonce ct aad' = Inr pt' \<longrightarrow> pt' = pt) \<and>
     (\<forall>key nonce ct aad e. ae_decrypt A key nonce ct aad = Inl e \<longrightarrow> e = CryptoError \<or> e = ValueError)"

definition seal :: "aead \<Rightarrow> key_ring \<Rightarrow> bytes \<Rightarrow> bytes \<Rightarrow> bytes res \<Rightarrow> bytes res" where
  "seal A ring nonce plaintext aad =
     bindR (kr_key ring (kr_active_key_id ring)) (\<lambda>key.
       case bindR aad (ae_encrypt A key nonce plaintext) of
         Inl e \<Rightarrow> Inl (vault_failure ''seal_failed'')
       | Inr ciphertext \<Rightarrow> envelope_to_bytes
           \<lparr>ev_version = ENVELOPE_VERSION, ev_key_id = kr_active_key_id ring, ev_nonce = nonce,
            ev_ciphertext = ciphertext\<rparr>)"

definition is_value_error :: "exn \<Rightarrow> bool" where
  "is_value_error e \<longleftrightarrow> e = ValueError \<or> e = UnicodeEncodeError \<or> e = UnicodeDecodeError"

definition unseal :: "aead \<Rightarrow> key_ring \<Rightarrow> bytes \<Rightarrow> bytes res \<Rightarrow> bytes res" where
  "unseal A ring raw aad =
     bindR (envelope_from_bytes raw) (\<lambda>envelope.
     bindR (kr_key ring (ev_key_id envelope)) (\<lambda>key.
       case bindR aad (ae_decrypt A key (ev_nonce envelope) (ev_ciphertext envelope)) of
         Inr plaintext \<Rightarrow> Inr plaintext
       | Inl e \<Rightarrow> Inl (if e = CryptoError then vault_failure ''authentication_failed''
                      else if is_value_error e then vault_failure ''unseal_failed'' else e)))"

lemma aead_decrypt: "aead_laws A \<Longrightarrow> ae_encrypt A key nonce pt aad = Inr ct \<Longrightarrow> ae_decrypt A key nonce ct aad = Inr pt"
  by (simp add: aead_laws_def)

lemma aead_length: "aead_laws A \<Longrightarrow> ae_encrypt A key nonce pt aad = Inr ct \<Longrightarrow> length ct = length pt + GCM_TAG_BYTES"
  by (simp add: aead_laws_def)

lemma aead_other: "aead_laws A \<Longrightarrow> ae_encrypt A key nonce pt aad = Inr ct \<Longrightarrow>
    ae_decrypt A key nonce ct aad' = Inr pt' \<Longrightarrow> pt' = pt"
  unfolding aead_laws_def by blast

lemma seal_Inr:
  assumes "seal A ring nonce pt aad = Inr raw"
  shows "\<exists>key a ct. kr_key ring (kr_active_key_id ring) = Inr key \<and> aad = Inr a \<and>
     ae_encrypt A key nonce pt a = Inr ct \<and> envelope_to_bytes
       \<lparr>ev_version = ENVELOPE_VERSION, ev_key_id = kr_active_key_id ring, ev_nonce = nonce, ev_ciphertext = ct\<rparr> = Inr raw"
  using assms by (auto simp: seal_def bindR_def split: sum.splits)

lemma seal_total:
  assumes "kr_key ring (kr_active_key_id ring) = Inr key" "aad = Inr a" "ae_encrypt A key nonce pt a = Inr ct"
    and "utf8_encode (kr_active_key_id ring) = Inr k" "0 < length k" "length k \<le> MAX_KEY_ID_BYTES"
  shows "\<exists>raw. seal A ring nonce pt aad = Inr raw"
  using assms by (simp add: seal_def envelope_to_bytes_def)

text \<open>Opening a sealed envelope: the same plaintext, or an error of the associated data.\<close>

lemma unseal_sealed:
  assumes laws: "aead_laws A" and nonce: "length nonce = NONCE_BYTES"
    and sealed: "seal A ring nonce pt aad = Inr raw"
  shows "unseal A ring raw aad = Inr pt" "unseal A ring raw aad' = Inr pt' \<Longrightarrow> pt' = pt"
proof -
  obtain key a ct where s: "kr_key ring (kr_active_key_id ring) = Inr key" "aad = Inr a"
      "ae_encrypt A key nonce pt a = Inr ct"
    and raw: "envelope_to_bytes \<lparr>ev_version = ENVELOPE_VERSION, ev_key_id = kr_active_key_id ring,
        ev_nonce = nonce, ev_ciphertext = ct\<rparr> = Inr raw"
    using seal_Inr[OF sealed] by blast
  have "envelope_from_bytes raw = Inr \<lparr>ev_version = ENVELOPE_VERSION, ev_key_id = kr_active_key_id ring,
        ev_nonce = nonce, ev_ciphertext = ct\<rparr>"
    using aead_length[OF laws s(3)] nonce by (intro envelope_round_trip[OF _ raw]) (simp add: wf_envelope_def)
  then have un: "unseal A ring raw x = (case bindR x (ae_decrypt A key nonce ct) of
         Inr plaintext \<Rightarrow> Inr plaintext
       | Inl e \<Rightarrow> Inl (if e = CryptoError then vault_failure ''authentication_failed''
                      else if is_value_error e then vault_failure ''unseal_failed'' else e))" for x
    using s(1) by (simp add: unseal_def)
  show "unseal A ring raw aad = Inr pt" using un s(2) aead_decrypt[OF laws s(3)] by simp
  show "unseal A ring raw aad' = Inr pt' \<Longrightarrow> pt' = pt"
    using un aead_other[OF laws s(3)] by (auto simp: result_simps split: sum.splits)
qed

section \<open>The record\<close>

definition RECORD_SCHEMA_VERSION :: int where
  "RECORD_SCHEMA_VERSION = 1"

record vault_record =
  vr_tenant_id :: nat
  vr_session_id :: nat
  vr_token :: ustr
  vr_entity_type :: ustr
  vr_original_value :: ustr
  vr_created_at :: int
  vr_expires_at :: int

text \<open>The payload, in the key order \<open>OPT_SORT_KEYS\<close> gives it.\<close>

definition vault_record_payload :: "codec \<Rightarrow> vault_record \<Rightarrow> json" where
  "vault_record_payload C r = JObj
     [(lit ''created_at'', JStr (cd_isoformat C (vr_created_at r))),
      (lit ''entity_type'', JStr (vr_entity_type r)),
      (lit ''expires_at'', JStr (cd_isoformat C (vr_expires_at r))),
      (lit ''original_value'', JStr (vr_original_value r)),
      (lit ''schema_version'', JInt RECORD_SCHEMA_VERSION),
      (lit ''session_id'', JStr (uuid_str (vr_session_id r))),
      (lit ''tenant_id'', JStr (uuid_str (vr_tenant_id r))),
      (lit ''token'', JStr (vr_token r))]"

definition vault_record_to_bytes :: "codec \<Rightarrow> vault_record \<Rightarrow> bytes res" where
  "vault_record_to_bytes C r = cd_dumps C (vault_record_payload C r)"

definition vault_record_fields :: "codec \<Rightarrow> json \<Rightarrow> vault_record res" where
  "vault_record_fields C payload =
     bindR (bindR (json_field payload (lit ''tenant_id'')) (py_uuid C)) (\<lambda>tenant.
     bindR (bindR (json_field payload (lit ''session_id'')) (py_uuid C)) (\<lambda>session.
     bindR (json_field payload (lit ''token'')) (\<lambda>token.
     bindR (json_field payload (lit ''entity_type'')) (\<lambda>entity.
     bindR (json_field payload (lit ''original_value'')) (\<lambda>value.
     bindR (bindR (json_field payload (lit ''created_at'')) (py_fromisoformat C)) (\<lambda>created.
     bindR (bindR (json_field payload (lit ''expires_at'')) (py_fromisoformat C)) (\<lambda>expires.
       Inr \<lparr>vr_tenant_id = tenant, vr_session_id = session, vr_token = py_str C token,
            vr_entity_type = py_str C entity, vr_original_value = py_str C value,
            vr_created_at = created, vr_expires_at = expires\<rparr>)))))))"

definition vault_record_from_bytes :: "codec \<Rightarrow> bytes \<Rightarrow> vault_record res" where
  "vault_record_from_bytes C raw =
     (case cd_loads C raw of
        None \<Rightarrow> Inl (vault_failure ''record_not_json'')
      | Some payload \<Rightarrow>
          (case payload of JObj kvs \<Rightarrow>
             (if \<not> (case json_get payload (lit ''schema_version'') of None \<Rightarrow> False
                    | Some v \<Rightarrow> json_equals_int v RECORD_SCHEMA_VERSION)
              then Inl (vault_failure ''record_schema_unsupported'')
              else (case vault_record_fields C payload of
                      Inr r \<Rightarrow> Inr r
                    | Inl e \<Rightarrow> Inl (if e = KeyError \<or> e = TypeError \<or> is_value_error e
                                   then vault_failure ''record_fields_invalid'' else e)))
           | _ \<Rightarrow> Inl (vault_failure ''record_not_object'')))"

lemma vault_record_round_trip:
  assumes "codec_laws C" "valid_uuid (vr_tenant_id r)" "valid_uuid (vr_session_id r)"
    and "vault_record_to_bytes C r = Inr raw"
  shows "vault_record_from_bytes C raw = Inr r"
proof -
  have "flat_object (vault_record_payload C r)"
    by (simp add: flat_object_def vault_record_payload_def json_scalar_def)
  then have "cd_loads C raw = Some (vault_record_payload C r)"
    using assms(1,4) by (simp add: codec_laws_def vault_record_to_bytes_def)
  then show ?thesis
    using assms(1-3)
    by (simp add: vault_record_from_bytes_def vault_record_fields_def vault_record_payload_def json_field_def
        codec_laws_def RECORD_SCHEMA_VERSION_def)
qed

section \<open>Properties\<close>

text \<open>
  The associated data of a vault record determines the tenant, the session, the entity type
  and the token it was made for: two records share it only when all four agree, whatever bytes
  the entity type and token contain.
\<close>

theorem vault_aad_injective:
  assumes "vault_aad_valid a" "vault_aad_valid b"
    and "vault_aad_bytes a = Inr m" "vault_aad_bytes b = Inr m"
  shows "a = b"
  using vault_aad.framed_inj[OF assms(1,2)] assms(3,4) by (simp add: vault_aad_bytes_def)

definition sample_aad :: vault_aad where
  "sample_aad = \<lparr>va_tenant_id = 1, va_session_id = 2, va_entity_type = lit ''PERSON'', va_token_id = lit ''A''\<rparr>"

lemma sample_aad_bytes: "\<exists>m. vault_aad_bytes sample_aad = Inr m"
  by (rule vault_aad_bytes_total) (simp_all add: sample_aad_def)

theorem vault_aad_injective_witness:
  "\<exists>m. vault_aad_bytes sample_aad = Inr m \<and> sample_aad = sample_aad"
proof -
  obtain m where "vault_aad_bytes sample_aad = Inr m" using sample_aad_bytes by blast
  moreover have "vault_aad_valid sample_aad" by (simp add: vault_aad_valid_def sample_aad_def valid_uuid_def)
  ultimately show ?thesis using vault_aad_injective by blast
qed

text \<open>
  C36. A sealed record opens to exactly what was sealed: encrypting a record under the active key
  for its own tenant, session, type and token, and opening the envelope for the same four with
  the same ring, returns the record, field for field, after JSON, framing and encryption.
\<close>

theorem vault_record_sealed_round_trip:
  assumes "aead_laws A" "codec_laws C" "length nonce = NONCE_BYTES"
    and "valid_uuid (vr_tenant_id r)" "valid_uuid (vr_session_id r)"
    and "bindR (vault_record_to_bytes C r) (\<lambda>pt. seal A ring nonce pt (vault_aad_bytes a)) = Inr raw"
  shows "bindR (unseal A ring raw (vault_aad_bytes a)) (vault_record_from_bytes C) = Inr r"
proof -
  obtain pt where pt: "vault_record_to_bytes C r = Inr pt" "seal A ring nonce pt (vault_aad_bytes a) = Inr raw"
    using assms(6) by (auto simp: bindR_Inr)
  show ?thesis
    using unseal_sealed(1)[OF assms(1,3) pt(2)] vault_record_round_trip[OF assms(2,4,5) pt(1)] by simp
qed

text \<open>A toy cipher for worked instances: the plaintext, and a tag that is the start of the data.\<close>

definition toy_tag :: "bytes \<Rightarrow> bytes" where
  "toy_tag aad = take 16 (rev aad @ replicate 16 0)"

definition toy_aead :: aead where
  "toy_aead =
     \<lparr>ae_encrypt = (\<lambda>key nonce pt aad. Inr (pt @ toy_tag aad)),
      ae_decrypt = (\<lambda>key nonce ct aad. if drop (length ct - 16) ct = toy_tag aad
        then Inr (take (length ct - 16) ct) else Inl CryptoError)\<rparr>"

lemma length_toy_tag [simp]: "length (toy_tag aad) = 16"
  by (simp add: toy_tag_def)

lemma toy_aead_laws: "aead_laws toy_aead"
  by (auto simp: aead_laws_def toy_aead_def GCM_TAG_BYTES_def split: if_splits)

definition sample_ring :: key_ring where
  "sample_ring = \<lparr>kr_active_key_id = lit ''k1'', kr_key = (\<lambda>_. Inr (replicate 32 7))\<rparr>"

definition sample_record :: vault_record where
  "sample_record = \<lparr>vr_tenant_id = 1, vr_session_id = 2, vr_token = lit ''T'', vr_entity_type = lit ''PERSON'',
     vr_original_value = lit ''Ada'', vr_created_at = 5, vr_expires_at = 65\<rparr>"

definition sample_sealed :: "bytes res" where
  "sample_sealed = bindR (vault_record_to_bytes plain_codec sample_record)
     (\<lambda>pt. seal toy_aead sample_ring (replicate 12 9) pt (vault_aad_bytes sample_aad))"

theorem vault_record_sealed_round_trip_witness:
  "\<exists>raw. sample_sealed = Inr raw \<and>
     bindR (unseal toy_aead sample_ring raw (vault_aad_bytes sample_aad)) (vault_record_from_bytes plain_codec)
       = Inr sample_record"
proof -
  obtain a where a: "vault_aad_bytes sample_aad = Inr a" using sample_aad_bytes by blast
  obtain pt where pt: "vault_record_to_bytes plain_codec sample_record = Inr pt"
    by (simp add: vault_record_to_bytes_def plain_codec_def plain_dumps_def vault_record_payload_def)
  have "kr_active_key_id sample_ring = lit ''k1''" by (simp add: sample_ring_def)
  moreover have "utf8_encode (lit ''k1'') = Inr (lit ''k1'')" by (rule utf8_encode_ascii) auto
  ultimately have k: "utf8_encode (kr_active_key_id sample_ring) = Inr (lit ''k1'')" by (simp only:)
  have "\<exists>raw. seal toy_aead sample_ring (replicate 12 9) pt (vault_aad_bytes sample_aad) = Inr raw"
    by (rule seal_total[OF _ a _ k]) (simp_all add: sample_ring_def toy_aead_def MAX_KEY_ID_BYTES_def)
  then obtain raw where raw: "sample_sealed = Inr raw" using pt by (auto simp: sample_sealed_def)
  then have "bindR (unseal toy_aead sample_ring raw (vault_aad_bytes sample_aad)) (vault_record_from_bytes plain_codec)
      = Inr sample_record"
    by (intro vault_record_sealed_round_trip[OF toy_aead_laws plain_codec_laws, of "replicate 12 9"])
      (simp_all add: NONCE_BYTES_def sample_record_def valid_uuid_def sample_sealed_def)
  with raw show ?thesis by blast
qed

end
