(* ===== verification/Document_Crypto.thy ===== *)
theory Document_Crypto
  imports Vault_Crypto Domain Effects
begin

text \<open>
  Chunked encryption of stored documents (\<^verbatim>\<open>app/documents/crypto.py\<close>). AES-GCM and HKDF are not
  part of the repository: the first is the \<open>aead\<close> of the vault, the second a function of salt,
  info and master key. Salt and nonces are arguments.

  An asynchronous generator is what it yields and how it ends: a list of blocks and, if it
  raised, the exception. A consumer sees the blocks before it sees the exception.
\<close>

section \<open>Generators\<close>

type_synonym 'a gen = "'a list \<times> exn option"

definition gen_done :: "'a gen" where
  "gen_done = ([], None)"

definition gen_fail :: "exn \<Rightarrow> 'a gen" where
  "gen_fail e = ([], Some e)"

definition gen_emit :: "'a \<Rightarrow> 'a gen \<Rightarrow> 'a gen" where
  "gen_emit x g = (x # fst g, snd g)"

definition gen_try :: "'b res \<Rightarrow> ('b \<Rightarrow> 'a gen) \<Rightarrow> 'a gen" where
  "gen_try r f = (case r of Inl e \<Rightarrow> gen_fail e | Inr x \<Rightarrow> f x)"

lemma gen_simps [simp]:
  "gen_try (Inl e) f = gen_fail e" "gen_try (Inr x) f = f x"
  "fst (gen_emit x g) = x # fst g" "snd (gen_emit x g) = snd g"
  "fst gen_done = []" "snd gen_done = None" "fst (gen_fail e) = []" "snd (gen_fail e) = Some e"
  by (simp_all add: gen_try_def gen_emit_def gen_done_def gen_fail_def)

lemma gen_try_returns: "snd (gen_try r f) = None \<longleftrightarrow> (\<exists>x. r = Inr x \<and> snd (f x) = None)"
  by (cases r) auto

section \<open>Identity and header\<close>

definition DOCUMENT_MAGIC :: bytes where "DOCUMENT_MAGIC = lit ''SGWD''"
definition DOCUMENT_FORMAT_VERSION :: nat where "DOCUMENT_FORMAT_VERSION = 1"
definition SALT_BYTES :: nat where "SALT_BYTES = 16"
definition PURPOSE_BODY :: ustr where "PURPOSE_BODY = lit ''body''"
definition PURPOSE_FILENAME :: ustr where "PURPOSE_FILENAME = lit ''filename''"
definition DOCUMENT_AAD_DOMAIN :: bytes where "DOCUMENT_AAD_DOMAIN = lit ''sgw.document.aad.v1''"
definition HKDF_DOMAIN :: bytes where "HKDF_DOMAIN = lit ''sgw.document.datakey.v1''"
definition MAX_CHUNK_BYTES :: nat where "MAX_CHUNK_BYTES = 67108864"

text \<open>The sizes of \<open>struct.Struct("!4sBB")\<close> and \<open>struct.Struct("!I")\<close>.\<close>

definition HEADER_PREFIX_SIZE :: nat where "HEADER_PREFIX_SIZE = 6"
definition HEADER_SUFFIX_SIZE :: nat where "HEADER_SUFFIX_SIZE = 4"

abbreviation document_failure :: "string \<Rightarrow> exn" where
  "document_failure \<equiv> GatewayError DOCUMENT_ENCRYPTION_FAILED"

record document_identity =
  di_tenant_id :: uuid
  di_user_id :: uuid
  di_document_id :: uuid
  di_content_type :: ustr
  di_schema_version :: nat

definition identity_info :: "document_identity \<Rightarrow> bytes res" where
  "identity_info d = frame 2 [HKDF_DOMAIN, uuid_str (di_tenant_id d), uuid_str (di_user_id d), uuid_str (di_document_id d)]"

definition chunk_aad_fields :: "document_identity \<times> ustr \<times> nat \<times> bool \<Rightarrow> bytes list res" where
  "chunk_aad_fields = (\<lambda>(d, purpose, chunk_index, final).
     bindR (utf8_encode (di_content_type d)) (\<lambda>content_type.
     bindR (utf8_encode purpose) (\<lambda>purpose.
       Inr [DOCUMENT_AAD_DOMAIN, [DOCUMENT_FORMAT_VERSION], uuid_str (di_tenant_id d), uuid_str (di_user_id d),
            uuid_str (di_document_id d), content_type, nat_str (di_schema_version d), purpose,
            nat_str chunk_index, if final then lit ''1'' else lit ''0''])))"

definition chunk_aad :: "document_identity \<Rightarrow> ustr \<Rightarrow> nat \<Rightarrow> bool \<Rightarrow> bytes res" where
  "chunk_aad d purpose chunk_index final = bindR (chunk_aad_fields (d, purpose, chunk_index, final)) (frame 2)"

record document_header =
  dh_version :: nat
  dh_key_id :: ustr
  dh_salt :: bytes
  dh_chunk_bytes :: nat

definition header_to_bytes :: "document_header \<Rightarrow> bytes res" where
  "header_to_bytes h =
     bindR (utf8_encode (dh_key_id h)) (\<lambda>key_id.
       if \<not> (0 < length key_id \<and> length key_id \<le> MAX_KEY_ID_BYTES)
       then Inl (document_failure ''key_id_length_invalid'')
       else if \<not> (dh_version h < 256 \<and> dh_chunk_bytes h < 256 ^ 4) then Inl StructError
       else Inr (DOCUMENT_MAGIC @ [dh_version h, length key_id] @ key_id @ dh_salt h @ enc_be 256 4 (dh_chunk_bytes h)))"

definition parse_header :: "bytes \<Rightarrow> (document_header \<times> nat) res" where
  "parse_header raw =
     (if length raw < HEADER_PREFIX_SIZE then Inl (document_failure ''header_truncated'')
      else if take 4 raw \<noteq> DOCUMENT_MAGIC then Inl (document_failure ''header_magic_mismatch'')
      else if raw ! 4 \<noteq> DOCUMENT_FORMAT_VERSION then Inl (document_failure ''header_version_unsupported'')
      else if raw ! 5 = 0 then Inl (document_failure ''header_key_id_missing'')
      else (let key_id_end = HEADER_PREFIX_SIZE + raw ! 5; salt_end = key_id_end + SALT_BYTES;
                total = salt_end + HEADER_SUFFIX_SIZE in
            if length raw < total then Inl (document_failure ''header_truncated'')
            else (case utf8_decode (slice raw HEADER_PREFIX_SIZE key_id_end) of
                    Inl e \<Rightarrow> Inl (document_failure ''header_key_id_invalid'')
                  | Inr key_id \<Rightarrow>
                      (let chunk_bytes = dec_be 256 (slice raw salt_end total) in
                       if \<not> (0 < chunk_bytes \<and> chunk_bytes \<le> MAX_CHUNK_BYTES)
                       then Inl (document_failure ''header_chunk_size_invalid'')
                       else Inr (\<lparr>dh_version = raw ! 4, dh_key_id = key_id, dh_salt = slice raw key_id_end salt_end,
                                  dh_chunk_bytes = chunk_bytes\<rparr>, total)))))"

definition minimum_header_size :: nat where
  "minimum_header_size = HEADER_PREFIX_SIZE + 1 + SALT_BYTES + HEADER_SUFFIX_SIZE"

section \<open>The cipher\<close>

record document_cipher =
  dc_aead :: aead
  dc_hkdf :: "bytes \<Rightarrow> bytes \<Rightarrow> bytes \<Rightarrow> bytes"
  dc_ring :: key_ring
  dc_chunk_bytes :: nat

definition mk_document_cipher :: "aead \<Rightarrow> (bytes \<Rightarrow> bytes \<Rightarrow> bytes \<Rightarrow> bytes) \<Rightarrow> key_ring \<Rightarrow> int \<Rightarrow> document_cipher res" where
  "mk_document_cipher A hkdf ring chunk_bytes =
     (if \<not> (0 < chunk_bytes \<and> chunk_bytes \<le> int MAX_CHUNK_BYTES) then Inl ValueError
      else Inr \<lparr>dc_aead = A, dc_hkdf = hkdf, dc_ring = ring, dc_chunk_bytes = nat chunk_bytes\<rparr>)"

definition derive_data_key :: "document_cipher \<Rightarrow> ustr \<Rightarrow> bytes \<Rightarrow> document_identity \<Rightarrow> bytes res" where
  "derive_data_key C key_id salt d =
     (case kr_key (dc_ring C) key_id of
        Inl e \<Rightarrow> Inl (case e of GatewayError c reason \<Rightarrow> document_failure reason | _ \<Rightarrow> document_failure ''key_unavailable'')
      | Inr master \<Rightarrow> bindR (identity_info d) (\<lambda>info. Inr (dc_hkdf C salt info master)))"

definition seal_chunk :: "document_cipher \<Rightarrow> bytes \<Rightarrow> bytes \<Rightarrow> bytes \<Rightarrow> bytes \<Rightarrow> bytes res" where
  "seal_chunk C data_key nonce plaintext aad =
     (case ae_encrypt (dc_aead C) data_key nonce plaintext aad of
        Inl e \<Rightarrow> Inl (document_failure ''seal_failed'')
      | Inr ciphertext \<Rightarrow> Inr (nonce @ ciphertext))"

definition open_chunk :: "document_cipher \<Rightarrow> bytes \<Rightarrow> bytes \<Rightarrow> bytes \<Rightarrow> bytes res" where
  "open_chunk C data_key chunk aad =
     (if length chunk < NONCE_BYTES + GCM_TAG_BYTES then Inl (document_failure ''chunk_truncated'')
      else (case ae_decrypt (dc_aead C) data_key (take NONCE_BYTES chunk) (drop NONCE_BYTES chunk) aad of
              Inr plaintext \<Rightarrow> Inr plaintext
            | Inl e \<Rightarrow> Inl (if e = CryptoError then document_failure ''authentication_failed''
                           else if is_value_error e then document_failure ''open_failed'' else e)))"

definition seal_bytes :: "document_cipher \<Rightarrow> bytes \<Rightarrow> bytes \<Rightarrow> document_identity \<Rightarrow> ustr \<Rightarrow> bytes \<Rightarrow> bytes res" where
  "seal_bytes C salt nonce d purpose plaintext =
     (let key_id = kr_active_key_id (dc_ring C) in
      bindR (derive_data_key C key_id salt d) (\<lambda>data_key.
      bindR (chunk_aad d purpose 0 True) (\<lambda>aad.
      bindR (seal_chunk C data_key nonce plaintext aad) (\<lambda>chunk.
      bindR (header_to_bytes \<lparr>dh_version = DOCUMENT_FORMAT_VERSION, dh_key_id = key_id, dh_salt = salt,
               dh_chunk_bytes = max (length plaintext) 1\<rparr>) (\<lambda>header.
        Inr (header @ chunk))))))"

definition open_bytes :: "document_cipher \<Rightarrow> document_identity \<Rightarrow> ustr \<Rightarrow> bytes \<Rightarrow> bytes res" where
  "open_bytes C d purpose raw =
     bindR (parse_header raw) (\<lambda>(header, consumed).
     bindR (derive_data_key C (dh_key_id header) (dh_salt header) d) (\<lambda>data_key.
     bindR (chunk_aad d purpose 0 True) (open_chunk C data_key (drop consumed raw))))"

section \<open>Streams\<close>

text \<open>\<open>_rechunk\<close>: the inner loop, then the loop over the source with its \<open>buffer\<close>.\<close>

function full_blocks :: "nat \<Rightarrow> bytes \<Rightarrow> bytes list \<times> bytes" where
  "full_blocks n buffer =
     (if 0 < n \<and> n \<le> length buffer
      then (case full_blocks n (drop n buffer) of (blocks, rest) \<Rightarrow> (take n buffer # blocks, rest))
      else ([], buffer))"
  by pat_completeness auto
termination by (relation "measure (\<lambda>(n, buffer). length buffer)") auto

declare full_blocks.simps [simp del]

fun rechunk_loop :: "nat \<Rightarrow> bytes \<Rightarrow> bytes list \<Rightarrow> exn option \<Rightarrow> bytes gen" where
  "rechunk_loop n buffer [] err =
     (case err of Some e \<Rightarrow> gen_fail e | None \<Rightarrow> if buffer = [] then gen_done else gen_emit buffer gen_done)"
| "rechunk_loop n buffer (block # blocks) err =
     (case full_blocks n (buffer @ block) of (full, rest) \<Rightarrow>
        (case rechunk_loop n rest blocks err of (out, e) \<Rightarrow> (full @ out, e)))"

definition rechunk :: "bytes gen \<Rightarrow> nat \<Rightarrow> bytes gen" where
  "rechunk source n = rechunk_loop n [] (fst source) (snd source)"

text \<open>The loop of \<open>seal_stream\<close> over the rechunked blocks, with \<open>index\<close> and \<open>pending\<close>.\<close>

fun seal_loop :: "document_cipher \<Rightarrow> document_identity \<Rightarrow> bytes \<Rightarrow> (nat \<Rightarrow> bytes) \<Rightarrow> exn option \<Rightarrow>
    nat \<Rightarrow> bytes option \<Rightarrow> bytes list \<Rightarrow> bytes gen" where
  "seal_loop C d data_key nonces err index pending [] =
     (case err of
        Some e \<Rightarrow> gen_fail e
      | None \<Rightarrow> gen_try (bindR (chunk_aad d PURPOSE_BODY index True)
                   (seal_chunk C data_key (nonces index) (case pending of Some p \<Rightarrow> p | None \<Rightarrow> [])))
                 (\<lambda>chunk. gen_emit chunk gen_done))"
| "seal_loop C d data_key nonces err index None (block # blocks) =
     seal_loop C d data_key nonces err index (Some block) blocks"
| "seal_loop C d data_key nonces err index (Some p) (block # blocks) =
     gen_try (bindR (chunk_aad d PURPOSE_BODY index False) (seal_chunk C data_key (nonces index) p))
       (\<lambda>chunk. gen_emit chunk (seal_loop C d data_key nonces err (Suc index) (Some block) blocks))"

definition seal_stream :: "document_cipher \<Rightarrow> bytes \<Rightarrow> (nat \<Rightarrow> bytes) \<Rightarrow> document_identity \<Rightarrow> bytes gen \<Rightarrow> bytes gen" where
  "seal_stream C salt nonces d plaintext =
     (let key_id = kr_active_key_id (dc_ring C); blocks = rechunk plaintext (dc_chunk_bytes C) in
      gen_try (derive_data_key C key_id salt d) (\<lambda>data_key.
      gen_try (header_to_bytes \<lparr>dh_version = DOCUMENT_FORMAT_VERSION, dh_key_id = key_id, dh_salt = salt,
                 dh_chunk_bytes = dc_chunk_bytes C\<rparr>) (\<lambda>header.
        gen_emit header (seal_loop C d data_key nonces (snd blocks) 0 None (fst blocks)))))"

text \<open>The inner loop of \<open>open_stream\<close>; \<open>next\<close> is what follows it.\<close>

function open_frames :: "document_cipher \<Rightarrow> document_identity \<Rightarrow> bytes \<Rightarrow> nat \<Rightarrow> nat \<Rightarrow> bytes \<Rightarrow>
    (nat \<Rightarrow> bytes \<Rightarrow> bytes gen) \<Rightarrow> bytes gen" where
  "open_frames C d data_key chunk_bytes index buffer continue =
     (let frame_size = NONCE_BYTES + chunk_bytes + GCM_TAG_BYTES in
      if frame_size < length buffer
      then gen_try (bindR (chunk_aad d PURPOSE_BODY index False) (open_chunk C data_key (take frame_size buffer)))
             (\<lambda>plaintext. gen_emit plaintext
                (open_frames C d data_key chunk_bytes (Suc index) (drop frame_size buffer) continue))
      else continue index buffer)"
  by pat_completeness auto
termination
  by (relation "measure (\<lambda>(C, d, k, n, i, buffer, c). length buffer)") (auto simp: NONCE_BYTES_def)

declare open_frames.simps [simp del]

text \<open>The loop of \<open>open_stream\<close>, with the header and the data key once they are known.\<close>

fun open_loop :: "document_cipher \<Rightarrow> document_identity \<Rightarrow> exn option \<Rightarrow> (document_header \<times> bytes) option \<Rightarrow>
    bytes list \<Rightarrow> nat \<Rightarrow> bytes \<Rightarrow> bytes gen" where
  "open_loop C d err known [] index buffer =
     (case err of
        Some e \<Rightarrow> gen_fail e
      | None \<Rightarrow> (case known of
            None \<Rightarrow> gen_fail (document_failure ''header_truncated'')
          | Some (header, data_key) \<Rightarrow>
              gen_try (bindR (chunk_aad d PURPOSE_BODY index True) (open_chunk C data_key buffer))
                (\<lambda>plaintext. gen_emit plaintext gen_done)))"
| "open_loop C d err known (block # blocks) index buffer =
     (let buffer = buffer @ block in
      case known of
        Some (header, data_key) \<Rightarrow>
          open_frames C d data_key (dh_chunk_bytes header) index buffer (open_loop C d err known blocks)
      | None \<Rightarrow>
          if length buffer < minimum_header_size then open_loop C d err None blocks index buffer
          else gen_try (parse_header buffer) (\<lambda>(header, consumed).
                 gen_try (derive_data_key C (dh_key_id header) (dh_salt header) d) (\<lambda>data_key.
                   open_frames C d data_key (dh_chunk_bytes header) index (drop consumed buffer)
                     (open_loop C d err (Some (header, data_key)) blocks))))"

definition open_stream :: "document_cipher \<Rightarrow> document_identity \<Rightarrow> bytes gen \<Rightarrow> bytes gen" where
  "open_stream C d ciphertext = open_loop C d (snd ciphertext) None (fst ciphertext) 0 []"


section \<open>What the associated data determines\<close>

lemma nat_str_eq [simp]: "nat_str a = nat_str b \<longleftrightarrow> a = b"
  using nat_str_inj by blast

interpretation chunk_aad: framed_message 2 chunk_aad_fields
  "\<lambda>(d, purpose, i, final). valid_uuid (di_tenant_id d) \<and> valid_uuid (di_user_id d) \<and> valid_uuid (di_document_id d)"
proof
  fix a b :: "document_identity \<times> ustr \<times> nat \<times> bool" and x
  obtain d p i f d' p' i' f' where ab: "a = (d, p, i, f)" "b = (d', p', i', f')" by (metis prod.exhaust)
  assume v: "case a of (d, purpose, i, final) \<Rightarrow> valid_uuid (di_tenant_id d) \<and> valid_uuid (di_user_id d) \<and> valid_uuid (di_document_id d)"
    "case b of (d, purpose, i, final) \<Rightarrow> valid_uuid (di_tenant_id d) \<and> valid_uuid (di_user_id d) \<and> valid_uuid (di_document_id d)"
    and x: "chunk_aad_fields a = Inr x" "chunk_aad_fields b = Inr x"
  have ids: "di_tenant_id d = di_tenant_id d'" "di_user_id d = di_user_id d'" "di_document_id d = di_document_id d'"
    using v x uuid_str_inj by (auto simp: ab chunk_aad_fields_def result_simps)
  have "di_content_type d = di_content_type d'" "p = p'"
    using x utf8_encode_inj by (auto simp: ab chunk_aad_fields_def result_simps)
  moreover have "di_schema_version d = di_schema_version d'" "i = i'" "f = f'"
    using x by (auto simp: ab chunk_aad_fields_def result_simps split: if_splits)
  ultimately show "a = b" using ids by (simp add: ab)
qed simp

lemma chunk_aad_inj:
  assumes "valid_uuid (di_tenant_id d)" "valid_uuid (di_user_id d)" "valid_uuid (di_document_id d)"
    "chunk_aad d p i f = Inr a" "chunk_aad d p j g = Inr a"
  shows "i = j \<and> f = g"
  using chunk_aad.framed_inj[of "(d, p, i, f)" "(d, p, j, g)" a] assms by (simp add: chunk_aad_def)

section \<open>Headers\<close>

lemma header_round_trip:
  assumes "dh_version h = DOCUMENT_FORMAT_VERSION" "length (dh_salt h) = SALT_BYTES" "0 < dh_chunk_bytes h"
    "dh_chunk_bytes h \<le> MAX_CHUNK_BYTES" "header_to_bytes h = Inr raw"
  shows "parse_header (raw @ rest) = Inr (h, length raw)" "minimum_header_size \<le> length raw"
proof -
  obtain k where k: "utf8_encode (dh_key_id h) = Inr k" "0 < length k"
    and raw: "raw = (DOCUMENT_MAGIC @ [dh_version h, length k]) @ k @ dh_salt h @ enc_be 256 4 (dh_chunk_bytes h)"
    using assms(5) by (auto simp: header_to_bytes_def result_simps split: if_splits)
  have w: "dh_version h = 1" "length (dh_salt h) = 16" "dh_chunk_bytes h \<le> 67108864"
    using assms(1,2,4) by (simp_all add: DOCUMENT_FORMAT_VERSION_def SALT_BYTES_def MAX_CHUNK_BYTES_def)
  define p where "p = DOCUMENT_MAGIC @ [dh_version h, length k]"
  have p: "length p = 6" "take 4 p = DOCUMENT_MAGIC" "p ! 4 = 1" "p ! 5 = length k"
    by (simp_all add: p_def DOCUMENT_MAGIC_def w(1))
  have all: "raw @ rest = p @ k @ dh_salt h @ enc_be 256 4 (dh_chunk_bytes h) @ rest" by (simp add: raw p_def)
  have len: "length raw = 6 + length k + 16 + 4" by (simp add: raw DOCUMENT_MAGIC_def w)
  have "take 4 (raw @ rest) = DOCUMENT_MAGIC" "(raw @ rest) ! 4 = 1" "(raw @ rest) ! 5 = length k"
    using p by (simp_all add: all nth_append)
  moreover have "slice (raw @ rest) 6 (6 + length k) = k" "slice (raw @ rest) (6 + length k) (6 + length k + 16) = dh_salt h"
    "slice (raw @ rest) (6 + length k + 16) (6 + length k + 16 + 4) = enc_be 256 4 (dh_chunk_bytes h)"
    using p(1) w(2) by (simp_all add: all slice_def)
  moreover have "utf8_decode k = Inr (dh_key_id h)" by (rule utf8_roundtrip[OF k(1)])
  moreover have "dec_be 256 (enc_be 256 4 (dh_chunk_bytes h)) = dh_chunk_bytes h"
    using w(3) by (intro dec_enc_be) simp_all
  ultimately show "parse_header (raw @ rest) = Inr (h, length raw)"
    using len k(2) assms(3,4) w(1)
    by (simp add: parse_header_def HEADER_PREFIX_SIZE_def DOCUMENT_FORMAT_VERSION_def SALT_BYTES_def HEADER_SUFFIX_SIZE_def
        Let_def del: enc_be.simps)
  show "minimum_header_size \<le> length raw"
    using len k(2) by (simp add: minimum_header_size_def HEADER_PREFIX_SIZE_def SALT_BYTES_def HEADER_SUFFIX_SIZE_def Suc_le_eq)
qed

section \<open>Regrouping\<close>

lemma full_blocks_ok:
  "full_blocks n buffer = (bs, rest) \<Longrightarrow> 0 < n \<Longrightarrow>
     concat bs @ rest = buffer \<and> (\<forall>b \<in> set bs. length b = n) \<and> length rest < n"
proof (induction n buffer arbitrary: bs rest rule: full_blocks.induct)
  case (1 n buffer)
  show ?case
  proof (cases "n \<le> length buffer")
    case True
    obtain bs' rest' where r: "full_blocks n (drop n buffer) = (bs', rest')" by fastforce
    then have "bs = take n buffer # bs'" "rest = rest'" using 1(2,3) True by (auto simp: full_blocks.simps[of n buffer])
    then show ?thesis using 1(1)[OF _ r] 1(3) True by auto
  next
    case False
    then show ?thesis using 1(2,3) by (auto simp: full_blocks.simps[of n buffer])
  qed
qed

text \<open>Blocks of a rechunked stream: none is empty, all but the last are full.\<close>

definition regular :: "nat \<Rightarrow> bytes list \<Rightarrow> bool" where
  "regular n bs \<longleftrightarrow> (\<forall>b \<in> set bs. b \<noteq> [] \<and> length b \<le> n) \<and> (\<forall>b \<in> set (butlast bs). length b = n)"

lemma regular_full: "0 < n \<Longrightarrow> \<forall>b \<in> set bs. length b = n \<Longrightarrow> regular n cs \<Longrightarrow> regular n (bs @ cs)"
  by (auto simp: regular_def butlast_append dest: in_set_butlastD)

lemma rechunk_loop_ok:
  "0 < n \<Longrightarrow> length buffer < n \<Longrightarrow>
     snd (rechunk_loop n buffer bs None) = None
     \<and> concat (fst (rechunk_loop n buffer bs None)) = buffer @ concat bs \<and> regular n (fst (rechunk_loop n buffer bs None))"
proof (induction bs arbitrary: buffer)
  case Nil
  then show ?case by (auto simp: regular_def)
next
  case (Cons b bs)
  obtain full rest where fb: "full_blocks n (buffer @ b) = (full, rest)" by fastforce
  note f = full_blocks_ok[OF fb Cons.prems(1)]
  obtain out e where r: "rechunk_loop n rest bs None = (out, e)" by fastforce
  from Cons.IH[OF Cons.prems(1), of rest] f r have "e = None" "concat out = rest @ concat bs" "regular n out" by auto
  then show ?case using f fb r regular_full[OF Cons.prems(1)] by (auto simp flip: append_assoc)
qed

lemma rechunk_ok:
  assumes "0 < n"
  obtains out where "rechunk (bs, None) n = (out, None)" "concat out = concat bs" "regular n out"
  using rechunk_loop_ok[OF assms, of "[]" bs] assms by (cases "rechunk_loop n [] bs None") (auto simp: rechunk_def)


section \<open>What sealing writes\<close>

definition sealed_chunk :: "document_cipher \<Rightarrow> document_identity \<Rightarrow> bytes \<Rightarrow> bytes \<Rightarrow> nat \<Rightarrow> bool \<Rightarrow> bytes \<Rightarrow> bytes \<Rightarrow> bool" where
  "sealed_chunk C d data_key nonce index final p chunk \<longleftrightarrow>
     (\<exists>aad ct. chunk_aad d PURPOSE_BODY index final = Inr aad
        \<and> ae_encrypt (dc_aead C) data_key nonce p aad = Inr ct \<and> chunk = nonce @ ct)"

fun sealed_frames :: "document_cipher \<Rightarrow> document_identity \<Rightarrow> bytes \<Rightarrow> (nat \<Rightarrow> bytes) \<Rightarrow> nat \<Rightarrow> bytes list \<Rightarrow> bytes list \<Rightarrow> bool" where
  "sealed_frames C d k ns index (p # q # ps) (f # fs) \<longleftrightarrow>
     sealed_chunk C d k (ns index) index False p f \<and> sealed_frames C d k ns (Suc index) (q # ps) fs"
| "sealed_frames C d k ns index [p] fs \<longleftrightarrow> (\<exists>f. fs = [f] \<and> sealed_chunk C d k (ns index) index True p f)"
| "sealed_frames C d k ns index _ _ \<longleftrightarrow> False"

lemma seal_chunk_returns: "seal_chunk C k nonce p aad = Inr f \<longleftrightarrow> (\<exists>ct. ae_encrypt (dc_aead C) k nonce p aad = Inr ct \<and> f = nonce @ ct)"
  by (cases "ae_encrypt (dc_aead C) k nonce p aad") (auto simp: seal_chunk_def)

lemma seal_chunk_Inr:
  "bindR (chunk_aad d PURPOSE_BODY i final) (seal_chunk C k nonce p) = Inr f \<longleftrightarrow> sealed_chunk C d k nonce i final p f"
  by (auto simp: bindR_Inr seal_chunk_returns sealed_chunk_def)

lemma seal_loop_frames:
  "snd (seal_loop C d k ns None index (Some p) bs) = None \<Longrightarrow>
     sealed_frames C d k ns index (p # bs) (fst (seal_loop C d k ns None index (Some p) bs))"
proof (induction bs arbitrary: index p)
  case Nil
  then obtain f where f: "bindR (chunk_aad d PURPOSE_BODY index True) (seal_chunk C k (ns index) p) = Inr f"
    by (auto simp: gen_try_returns)
  then have "sealed_chunk C d k (ns index) index True p f" using seal_chunk_Inr by blast
  with f show ?case by simp
next
  case (Cons b bs)
  from Cons.prems obtain f where f: "bindR (chunk_aad d PURPOSE_BODY index False) (seal_chunk C k (ns index) p) = Inr f"
    and r: "snd (seal_loop C d k ns None (Suc index) (Some b) bs) = None"
    by (auto simp: gen_try_returns)
  have "sealed_chunk C d k (ns index) index False p f" using f seal_chunk_Inr by blast
  with f Cons.IH[OF r] show ?case by simp
qed

text \<open>An empty document has one chunk all the same.\<close>

definition chunks_of :: "bytes list \<Rightarrow> bytes list" where
  "chunks_of blocks = (if blocks = [] then [[]] else blocks)"

lemma seal_stream_frames:
  assumes "mk_document_cipher A hkdf ring n = Inr C" "seal_stream C salt ns d (source, None) = (sealed, None)"
  obtains blocks key header frames where "concat blocks = concat source" "regular (dc_chunk_bytes C) blocks"
    "derive_data_key C (kr_active_key_id ring) salt d = Inr key"
    "header_to_bytes \<lparr>dh_version = DOCUMENT_FORMAT_VERSION, dh_key_id = kr_active_key_id ring, dh_salt = salt,
       dh_chunk_bytes = dc_chunk_bytes C\<rparr> = Inr header"
    "sealed = header # frames" "sealed_frames C d key ns 0 (chunks_of blocks) frames"
proof -
  have C: "0 < dc_chunk_bytes C" "dc_ring C = ring" using assms(1) by (auto simp: mk_document_cipher_def split: if_splits)
  obtain blocks where blocks: "rechunk (source, None) (dc_chunk_bytes C) = (blocks, None)" "concat blocks = concat source"
    "regular (dc_chunk_bytes C) blocks" using rechunk_ok[OF C(1)] by metis
  have r: "snd (seal_stream C salt ns d (source, None)) = None" and s: "sealed = fst (seal_stream C salt ns d (source, None))"
    using assms(2) by simp_all
  from r obtain key header where k: "derive_data_key C (kr_active_key_id ring) salt d = Inr key"
    and h: "header_to_bytes \<lparr>dh_version = DOCUMENT_FORMAT_VERSION, dh_key_id = kr_active_key_id ring, dh_salt = salt,
       dh_chunk_bytes = dc_chunk_bytes C\<rparr> = Inr header"
    and l: "snd (seal_loop C d key ns None 0 None blocks) = None"
    by (auto simp: seal_stream_def Let_def gen_try_returns blocks(1) C(2))
  have "sealed = header # fst (seal_loop C d key ns None 0 None blocks)"
    using s k h by (simp add: seal_stream_def Let_def blocks(1) C(2))
  moreover have "sealed_frames C d key ns 0 (chunks_of blocks) (fst (seal_loop C d key ns None 0 None blocks))"
  proof (cases blocks)
    case Nil
    then obtain f where f: "bindR (chunk_aad d PURPOSE_BODY 0 True) (seal_chunk C key (ns 0) []) = Inr f"
      using l by (auto simp: gen_try_returns)
    then have "sealed_chunk C d key (ns 0) 0 True [] f" using seal_chunk_Inr by blast
    with f Nil show ?thesis by (simp add: chunks_of_def)
  next
    case (Cons b bs)
    then show ?thesis using l seal_loop_frames[of C d key ns 0 b bs] by (simp add: chunks_of_def)
  qed
  ultimately show thesis using that blocks(2,3) k h by blast
qed

section \<open>Opening what was sealed\<close>

lemma sealed_chunk_open:
  assumes "aead_laws (dc_aead C)" "length nonce = NONCE_BYTES" "sealed_chunk C d k nonce i final p f"
  shows "bindR (chunk_aad d PURPOSE_BODY i final) (open_chunk C k f) = Inr p"
    and "length f = NONCE_BYTES + length p + GCM_TAG_BYTES"
proof -
  obtain aad ct where s: "chunk_aad d PURPOSE_BODY i final = Inr aad" "ae_encrypt (dc_aead C) k nonce p aad = Inr ct" "f = nonce @ ct"
    using assms(3) by (auto simp: sealed_chunk_def)
  note ct = aead_length[OF assms(1) s(2)] aead_decrypt[OF assms(1) s(2)]
  show "length f = NONCE_BYTES + length p + GCM_TAG_BYTES" using s(3) assms(2) ct(1) by simp
  show "bindR (chunk_aad d PURPOSE_BODY i final) (open_chunk C k f) = Inr p"
    using s(1,3) assms(2) ct by (simp add: open_chunk_def)
qed

lemma sealed_frames_nonempty: "sealed_frames C d k ns i ps fs \<Longrightarrow> ps \<noteq> [] \<and> fs \<noteq> []"
  by (induction C d k ns i ps fs rule: sealed_frames.induct) auto

lemma regular_Cons: "regular n (p # q # ps) \<Longrightarrow> length p = n \<and> regular n (q # ps)"
  by (auto simp: regular_def)

text \<open>Chunk lengths as the format needs them: only the last may be short.\<close>

definition chunk_sizes :: "nat \<Rightarrow> bytes list \<Rightarrow> bool" where
  "chunk_sizes n ps \<longleftrightarrow> (\<forall>p \<in> set ps. length p \<le> n) \<and> (\<forall>p \<in> set (butlast ps). length p = n)"

lemma chunk_sizes_Cons: "chunk_sizes n (p # q # ps) \<Longrightarrow> length p = n \<and> chunk_sizes n (q # ps)"
  by (auto simp: chunk_sizes_def)

lemma open_frames_sealed:
  assumes laws: "aead_laws (dc_aead C)" and nonces: "\<And>i. length (ns i) = NONCE_BYTES"
    and continue: "\<And>i ps fs buffer. sealed_frames C d k ns i ps fs \<Longrightarrow> chunk_sizes n ps \<Longrightarrow> buffer @ rest = concat fs \<Longrightarrow>
       length buffer \<le> NONCE_BYTES + n + GCM_TAG_BYTES \<Longrightarrow> continue i buffer = (ps, None)"
    and prems: "sealed_frames C d k ns i ps fs" "chunk_sizes n ps" "buffer @ rest = concat fs"
  shows "open_frames C d k n i buffer continue = (ps, None)"
  using prems
proof (induction ps arbitrary: i fs buffer)
  case Nil
  then show ?case by simp
next
  case (Cons p ps)
  let ?fs = "NONCE_BYTES + n + GCM_TAG_BYTES"
  show ?case
  proof (cases "?fs < length buffer")
    case False
    then show ?thesis using continue[OF Cons.prems] by (simp add: open_frames.simps[of C d k n i buffer] Let_def)
  next
    case True
    have "length buffer \<le> length (concat fs)" using Cons.prems(3) by (metis length_append le_add1)
    then have "ps \<noteq> []"
      using True Cons.prems(1,2) sealed_chunk_open(2)[OF laws nonces] by (cases ps) (fastforce simp: chunk_sizes_def)+
    then obtain q ps' f fs' where ps: "ps = q # ps'" "fs = f # fs'"
      using Cons.prems(1) by (cases ps; cases fs) auto
    have f: "sealed_chunk C d k (ns i) i False p f" "sealed_frames C d k ns (Suc i) ps fs'" using Cons.prems(1) ps by auto
    have sz: "length p = n" "chunk_sizes n ps" using Cons.prems(2) ps chunk_sizes_Cons by auto
    note o = sealed_chunk_open[OF laws nonces f(1)]
    have buf: "take ?fs buffer = f" "drop ?fs buffer @ rest = concat fs'"
      using Cons.prems(3) True o(2) sz(1) ps(2) by (auto simp: append_eq_append_conv_if split: if_splits)
    show ?thesis
      using True Cons.IH[OF f(2) sz(2) buf(2)] o(1) buf(1)
      by (simp add: open_frames.simps[of C d k n i buffer] Let_def gen_emit_def)
  qed
qed


lemma sealed_frames_length:
  assumes "aead_laws (dc_aead C)" "\<And>i. length (ns i) = NONCE_BYTES" "sealed_frames C d k ns i ps fs"
  shows "0 < length (concat fs)"
proof -
  have "\<exists>p f. f \<in> set fs \<and> (\<exists>final. sealed_chunk C d k (ns i) i final p f)"
    using assms(3) by (cases "(C, d, k, ns, i, ps, fs)" rule: sealed_frames.cases) (simp_all, (metis list.set_intros(1))+)
  then obtain p f where "f \<in> set fs" "\<exists>final. sealed_chunk C d k (ns i) i final p f" by blast
  then have f: "f \<in> set fs" "length f = NONCE_BYTES + length p + GCM_TAG_BYTES"
    using sealed_chunk_open(2)[OF assms(1,2)] by blast+
  then have "f \<noteq> []" by (auto simp: NONCE_BYTES_def)
  with f(1) show ?thesis by auto
qed

lemma open_loop_sealed:
  assumes laws: "aead_laws (dc_aead C)" and nonces: "\<And>i. length (ns i) = NONCE_BYTES"
    and "sealed_frames C d k ns i ps fs" "chunk_sizes (dh_chunk_bytes h) ps" "buffer @ concat cs = concat fs"
    "length buffer \<le> NONCE_BYTES + dh_chunk_bytes h + GCM_TAG_BYTES"
  shows "open_loop C d None (Some (h, k)) cs i buffer = (ps, None)"
  using assms(3-)
proof (induction cs arbitrary: i ps fs buffer)
  case Nil
  obtain p ps' where ps: "ps = p # ps'" using Nil.prems(1) by (cases ps) auto
  have "ps' = []"
  proof (rule ccontr)
    assume "ps' \<noteq> []"
    then obtain q ps'' f fs' where more: "ps' = q # ps''" "fs = f # fs'" using Nil.prems(1) ps by (cases ps'; cases fs) auto
    then have f: "sealed_chunk C d k (ns i) i False p f" "sealed_frames C d k ns (Suc i) ps' fs'"
      using Nil.prems(1) ps by auto
    have "length p = dh_chunk_bytes h" using Nil.prems(2) chunk_sizes_Cons ps more(1) by blast
    then have "length f = NONCE_BYTES + dh_chunk_bytes h + GCM_TAG_BYTES" using sealed_chunk_open(2)[OF laws nonces f(1)] by simp
    moreover have "0 < length (concat fs')" by (rule sealed_frames_length[OF laws nonces f(2)])
    moreover have "buffer = f @ concat fs'" using Nil.prems(3) more(2) by simp
    ultimately show False using Nil.prems(4) by simp
  qed
  then obtain f where "fs = [f]" "sealed_chunk C d k (ns i) i True p f" using Nil.prems(1) ps by auto
  then show ?case using Nil.prems(3) sealed_chunk_open(1)[OF laws nonces] ps \<open>ps' = []\<close>
    by (simp add: gen_emit_def gen_done_def)
next
  case (Cons c cs)
  have "open_frames C d k (dh_chunk_bytes h) i (buffer @ c) (open_loop C d None (Some (h, k)) cs) = (ps, None)"
    by (rule open_frames_sealed[OF laws nonces, where rest = "concat cs"]) (use Cons in auto)
  then show ?case by (simp add: Let_def)
qed

text \<open>Before the header is known the buffer is shorter than any header.\<close>

lemma open_loop_header:
  assumes laws: "aead_laws (dc_aead C)" and nonces: "\<And>i. length (ns i) = NONCE_BYTES"
    and h: "dh_version h = DOCUMENT_FORMAT_VERSION" "length (dh_salt h) = SALT_BYTES" "0 < dh_chunk_bytes h"
      "dh_chunk_bytes h \<le> MAX_CHUNK_BYTES" "header_to_bytes h = Inr header"
    and key: "derive_data_key C (dh_key_id h) (dh_salt h) d = Inr k"
    and frames: "sealed_frames C d k ns 0 ps fs" "chunk_sizes (dh_chunk_bytes h) ps"
    and "length buffer < minimum_header_size" "buffer @ concat cs = header @ concat fs"
      "\<forall>j \<le> length cs. let l = length buffer + length (concat (take j cs)) in l < minimum_header_size \<or> length header \<le> l"
  shows "open_loop C d None None cs 0 buffer = (ps, None)"
  using assms(11-)
proof (induction cs arbitrary: buffer)
  case Nil
  then have "length header \<le> length buffer" by simp
  then show ?case using Nil.prems(1) header_round_trip(2)[OF h] by simp
next
  case (Cons c cs)
  let ?buffer = "buffer @ c"
  have safe: "\<forall>j \<le> length cs. let l = length ?buffer + length (concat (take j cs)) in l < minimum_header_size \<or> length header \<le> l"
  proof (intro allI impI)
    fix j assume "j \<le> length cs"
    then show "let l = length ?buffer + length (concat (take j cs)) in l < minimum_header_size \<or> length header \<le> l"
      using Cons.prems(3)[rule_format, of "Suc j"] by (simp add: Let_def add.assoc)
  qed
  show ?case
  proof (cases "length ?buffer < minimum_header_size")
    case True
    then show ?thesis using Cons.IH[OF True _ safe] Cons.prems(2) by (simp add: Let_def)
  next
    case False
    then have "length header \<le> length ?buffer" using safe[rule_format, of 0] by (simp add: Let_def)
    have eq: "?buffer @ concat cs = header @ concat fs" using Cons.prems(2) by simp
    have "take (length header) ?buffer = header"
      using arg_cong[OF eq, of "take (length header)"] \<open>length header \<le> length ?buffer\<close> by simp
    moreover have "drop (length header) ?buffer @ concat cs = concat fs"
      using arg_cong[OF eq, of "drop (length header)"] \<open>length header \<le> length ?buffer\<close> by simp
    ultimately obtain rest where rest: "?buffer = header @ rest" "rest @ concat cs = concat fs"
      by (metis append_take_drop_id)
    have parse: "parse_header ?buffer = Inr (h, length header)" unfolding rest(1) by (rule header_round_trip(1)[OF h])
    have "open_frames C d k (dh_chunk_bytes h) 0 (drop (length header) ?buffer) (open_loop C d None (Some (h, k)) cs) = (ps, None)"
    proof (rule open_frames_sealed[OF laws nonces _ frames])
      show "drop (length header) ?buffer @ concat cs = concat fs" using rest by simp
    qed (rule open_loop_sealed[OF laws nonces], assumption+)
    then show ?thesis using False parse key by (simp add: Let_def)
  qed
qed

lemma regular_sizes: "regular n bs \<Longrightarrow> chunk_sizes n (chunks_of bs)"
  by (auto simp: regular_def chunk_sizes_def chunks_of_def)

lemma open_sealed_stream:
  assumes "mk_document_cipher A hkdf ring n = Inr C" "aead_laws A" "length salt = SALT_BYTES"
    "\<And>i. length (ns i) = NONCE_BYTES"
    "seal_stream C salt ns d (source, None) = (sealed, None)" "concat received = concat sealed"
    "\<forall>j \<le> length received. let l = length (concat (take j received)) in l < minimum_header_size \<or> length (hd sealed) \<le> l"
  shows "\<exists>out. open_stream C d (received, None) = (out, None) \<and> concat out = concat source
    \<and> (\<forall>b \<in> set out. int (length b) \<le> n)"
proof -
  have C: "dc_aead C = A" "dc_ring C = ring" "0 < dc_chunk_bytes C" "dc_chunk_bytes C \<le> MAX_CHUNK_BYTES"
    "int (dc_chunk_bytes C) = n"
    using assms(1) by (auto simp: mk_document_cipher_def split: if_splits)
  from assms(1,5) obtain blocks key header frames where s: "concat blocks = concat source" "regular (dc_chunk_bytes C) blocks"
    "derive_data_key C (kr_active_key_id ring) salt d = Inr key"
    "header_to_bytes \<lparr>dh_version = DOCUMENT_FORMAT_VERSION, dh_key_id = kr_active_key_id ring, dh_salt = salt,
       dh_chunk_bytes = dc_chunk_bytes C\<rparr> = Inr header"
    "sealed = header # frames" "sealed_frames C d key ns 0 (chunks_of blocks) frames"
    by (rule seal_stream_frames)
  let ?h = "\<lparr>dh_version = DOCUMENT_FORMAT_VERSION, dh_key_id = kr_active_key_id ring, dh_salt = salt,
       dh_chunk_bytes = dc_chunk_bytes C\<rparr>"
  have "open_loop C d None None received 0 [] = (chunks_of blocks, None)"
  proof (rule open_loop_header[where h = ?h and header = header and k = key and ns = ns and fs = frames])
    show "aead_laws (dc_aead C)" using assms(2) C(1) by simp
    show "length ([]::bytes) < minimum_header_size" by (simp add: minimum_header_size_def)
  qed (use assms s C regular_sizes in \<open>auto\<close>)
  moreover have "concat (chunks_of blocks) = concat source" using s(1) by (auto simp: chunks_of_def)
  moreover have "\<forall>b \<in> set (chunks_of blocks). int (length b) \<le> n"
    using regular_sizes[OF s(2)] C(5) by (auto simp: chunk_sizes_def)
  ultimately show ?thesis by (auto simp: open_stream_def)
qed

text \<open>
  C21. A stored document opens to the bytes that were uploaded: whatever blocks the upload came in,
  and whatever blocks the object store hands the ciphertext back in, provided none of the first
  blocks ends inside the header once its first 27 bytes are there. At no time is more than one
  chunk of plaintext handed out.
\<close>

theorem document_round_trip:
  assumes "mk_document_cipher A hkdf ring n = Inr C" "aead_laws A" "length salt = SALT_BYTES"
    "\<And>i. length (ns i) = NONCE_BYTES"
    "seal_stream C salt ns d (source, None) = (sealed, None)" "concat received = concat sealed"
    "\<forall>j \<le> length received. let l = length (concat (take j received)) in l < minimum_header_size \<or> length (hd sealed) \<le> l"
  shows "\<exists>out. open_stream C d (received, None) = (out, None) \<and> concat out = concat source
    \<and> (\<forall>b \<in> set out. int (length b) \<le> n)"
  by (rule open_sealed_stream[OF assms])


section \<open>Opening what anyone may have written\<close>

text \<open>What a stream that ends without an error has yielded: chunks that opened, in order, the last as final.\<close>

definition opened_chunk :: "document_cipher \<Rightarrow> document_identity \<Rightarrow> nat \<Rightarrow> bool \<Rightarrow> bytes \<Rightarrow> bool" where
  "opened_chunk C d index final p \<longleftrightarrow>
     (\<exists>key nonce ct aad. chunk_aad d PURPOSE_BODY index final = Inr aad \<and> ae_decrypt (dc_aead C) key nonce ct aad = Inr p)"

fun opened :: "document_cipher \<Rightarrow> document_identity \<Rightarrow> nat \<Rightarrow> bytes list \<Rightarrow> bool" where
  "opened C d index (p # q # ps) \<longleftrightarrow> opened_chunk C d index False p \<and> opened C d (Suc index) (q # ps)"
| "opened C d index [p] \<longleftrightarrow> opened_chunk C d index True p"
| "opened C d index [] \<longleftrightarrow> False"

lemma open_chunk_opened:
  "bindR (chunk_aad d PURPOSE_BODY i final) (open_chunk C k f) = Inr p \<Longrightarrow> opened_chunk C d i final p"
  by (auto simp: bindR_Inr open_chunk_def opened_chunk_def split: if_splits sum.splits)

lemma opened_Cons: "opened_chunk C d i False p \<Longrightarrow> opened C d (Suc i) ps \<Longrightarrow> opened C d i (p # ps)"
  by (cases ps) auto

lemma gen_emit_eq: "gen_emit x g = (xs, e) \<longleftrightarrow> (\<exists>ys. xs = x # ys \<and> g = (ys, e))"
  by (cases g) (auto simp: gen_emit_def)

lemma gen_try_eq_returns: "gen_try r f = (xs, None) \<longleftrightarrow> (\<exists>x. r = Inr x \<and> f x = (xs, None))"
  by (cases r) (auto simp: gen_try_def gen_fail_def)

lemma open_frames_opened:
  assumes "\<And>i buffer out. continue i buffer = (out, None) \<Longrightarrow> opened C d i out"
    "open_frames C d k n i buffer continue = (out, None)"
  shows "opened C d i out"
  using assms
proof (induction C d k n i buffer continue arbitrary: out rule: open_frames.induct)
  case (1 C d k n i buffer continue)
  let ?fs = "NONCE_BYTES + n + GCM_TAG_BYTES"
  show ?case
  proof (cases "?fs < length buffer")
    case True
    then obtain p out' where p: "bindR (chunk_aad d PURPOSE_BODY i False) (open_chunk C k (take ?fs buffer)) = Inr p"
      and out: "out = p # out'" "open_frames C d k n (Suc i) (drop ?fs buffer) continue = (out', None)"
      using "1.prems"(2) by (auto simp: open_frames.simps[of C d k n i buffer] Let_def gen_try_eq_returns gen_emit_eq)
    show ?thesis unfolding out(1)
      by (rule opened_Cons[OF open_chunk_opened[OF p] "1.IH"[OF refl True "1.prems"(1) out(2)]])
  next
    case False
    then show ?thesis using "1.prems" by (simp add: open_frames.simps[of C d k n i buffer] Let_def)
  qed
qed

lemma open_loop_opened: "open_loop C d None known cs i buffer = (out, None) \<Longrightarrow> opened C d i out"
proof (induction cs arbitrary: known i buffer out)
  case Nil
  then obtain h k p where "bindR (chunk_aad d PURPOSE_BODY i True) (open_chunk C k buffer) = Inr p" "out = [p]"
    by (auto simp: gen_try_eq_returns gen_emit_eq gen_done_def gen_fail_def split: option.splits)
  then show ?case using open_chunk_opened by auto
next
  case (Cons c cs)
  show ?case
  proof (cases known)
    case None
    then consider "open_loop C d None None cs i (buffer @ c) = (out, None)"
      | h m k where "open_frames C d k (dh_chunk_bytes h) i (drop m (buffer @ c)) (open_loop C d None (Some (h, k)) cs) = (out, None)"
      using Cons.prems by (auto simp: Let_def gen_try_eq_returns split: if_splits prod.splits)
    then show ?thesis using Cons.IH open_frames_opened by cases blast+
  next
    case (Some hk)
    then show ?thesis using Cons.prems Cons.IH open_frames_opened by (cases hk) (simp add: Let_def, blast)
  qed
qed

text \<open>
  What AES-GCM promises, for one sealed document: whatever opens under associated data of this
  document's body is a chunk that was sealed under the same associated data.
\<close>

definition authentic :: "document_cipher \<Rightarrow> document_identity \<Rightarrow> bytes list \<Rightarrow> bool" where
  "authentic C d ps \<longleftrightarrow>
     (\<forall>i final p. opened_chunk C d i final p \<longrightarrow>
        (\<exists>j < length ps. chunk_aad d PURPOSE_BODY j (Suc j = length ps) = chunk_aad d PURPOSE_BODY i final \<and> p = ps ! j))"

lemma opened_chunk_authentic:
  assumes "valid_uuid (di_tenant_id d)" "valid_uuid (di_user_id d)" "valid_uuid (di_document_id d)"
    "authentic C d ps" "opened_chunk C d i final p"
  shows "i < length ps \<and> p = ps ! i \<and> final = (Suc i = length ps)"
proof -
  obtain aad where aad: "chunk_aad d PURPOSE_BODY i final = Inr aad" using assms(5) by (auto simp: opened_chunk_def)
  obtain j where j: "j < length ps" "chunk_aad d PURPOSE_BODY j (Suc j = length ps) = Inr aad" "p = ps ! j"
    using assms(4,5) aad unfolding authentic_def by metis
  from chunk_aad_inj[OF assms(1-3) j(2) aad] j show ?thesis by auto
qed

lemma opened_authentic:
  assumes "valid_uuid (di_tenant_id d)" "valid_uuid (di_user_id d)" "valid_uuid (di_document_id d)" "authentic C d ps"
  shows "opened C d i out \<Longrightarrow> out = drop i ps"
proof (induction out arbitrary: i)
  case (Cons p out)
  note a = opened_chunk_authentic[OF assms]
  show ?case
  proof (cases out)
    case Nil
    then show ?thesis using Cons.prems a[of i True p] by (simp add: Cons_nth_drop_Suc[symmetric])
  next
    case more: (Cons q qs)
    then have "out = drop (Suc i) ps" "opened_chunk C d i False p" using Cons by auto
    then show ?thesis using a[of i False p] by (simp add: Cons_nth_drop_Suc[symmetric])
  qed
qed simp


text \<open>
  The proviso of the round trip is needed: a first block that ends between the 27th byte and the
  end of the header is parsed at once and refused, although the rest of the header would follow.
\<close>

lemma early_block_refused:
  assumes "header_to_bytes h = Inr header" "dh_version h = DOCUMENT_FORMAT_VERSION" "length (dh_salt h) = SALT_BYTES"
    "minimum_header_size \<le> m" "m < length header"
  shows "open_stream C d (take m header # rest, err) = ([], Some (document_failure ''header_truncated''))"
proof -
  obtain k where k: "utf8_encode (dh_key_id h) = Inr k" "0 < length k"
    and header: "header = DOCUMENT_MAGIC @ [dh_version h, length k] @ k @ dh_salt h @ enc_be 256 4 (dh_chunk_bytes h)"
    using assms(1) by (auto simp: header_to_bytes_def result_simps split: if_splits)
  have m: "27 \<le> m" using assms(4) by (simp add: minimum_header_size_def HEADER_PREFIX_SIZE_def SALT_BYTES_def HEADER_SUFFIX_SIZE_def)
  have len: "length header = 6 + length k + 16 + 4" using assms(3) by (simp add: header DOCUMENT_MAGIC_def SALT_BYTES_def)
  have "take 4 header = DOCUMENT_MAGIC" "header ! 4 = 1" "header ! 5 = length k"
    using assms(2) by (simp_all add: header DOCUMENT_MAGIC_def DOCUMENT_FORMAT_VERSION_def nth_append)
  then have "take 4 (take m header) = DOCUMENT_MAGIC" "take m header ! 4 = 1" "take m header ! 5 = length k"
    using m by simp_all
  then have "parse_header (take m header) = Inl (document_failure ''header_truncated'')"
    using m len k(2) assms(5)
    by (simp add: parse_header_def HEADER_PREFIX_SIZE_def DOCUMENT_FORMAT_VERSION_def SALT_BYTES_def HEADER_SUFFIX_SIZE_def Let_def)
  then show ?thesis using assms(4,5) by (simp add: open_stream_def Let_def gen_fail_def)
qed


section \<open>Worked instances\<close>

lemma seal_loop_returns:
  "\<forall>j \<le> length bs. \<exists>f. sealed_chunk C d k (ns (i + j)) (i + j) (j = length bs) ((p # bs) ! j) f \<Longrightarrow>
     snd (seal_loop C d k ns None i (Some p) bs) = None"
proof (induction bs arbitrary: i p)
  case Nil
  then obtain f where "sealed_chunk C d k (ns i) i True p f" by auto
  then have "bindR (chunk_aad d PURPOSE_BODY i True) (seal_chunk C k (ns i) p) = Inr f" using seal_chunk_Inr by blast
  then show ?case by simp
next
  case (Cons b bs)
  obtain f where "sealed_chunk C d k (ns i) i False p f" using Cons.prems[rule_format, of 0] by auto
  then have f: "bindR (chunk_aad d PURPOSE_BODY i False) (seal_chunk C k (ns i) p) = Inr f" using seal_chunk_Inr by blast
  have "\<forall>j \<le> length bs. \<exists>f. sealed_chunk C d k (ns (Suc i + j)) (Suc i + j) (j = length bs) ((b # bs) ! j) f"
  proof (intro allI impI)
    fix j assume "j \<le> length bs"
    then show "\<exists>f. sealed_chunk C d k (ns (Suc i + j)) (Suc i + j) (j = length bs) ((b # bs) ! j) f"
      using Cons.prems[rule_format, of "Suc j"] by simp
  qed
  from Cons.IH[OF this] f show ?case by simp
qed

text \<open>Sealing returns when the key, the header and the encryption of each chunk do.\<close>

lemma seal_stream_returns:
  assumes "rechunk (source, None) (dc_chunk_bytes C) = (blocks, None)"
    "derive_data_key C (kr_active_key_id (dc_ring C)) salt d = Inr key"
    "header_to_bytes \<lparr>dh_version = DOCUMENT_FORMAT_VERSION, dh_key_id = kr_active_key_id (dc_ring C), dh_salt = salt,
       dh_chunk_bytes = dc_chunk_bytes C\<rparr> = Inr header"
    "\<forall>j < length (chunks_of blocks). \<exists>f. sealed_chunk C d key (ns j) j (Suc j = length (chunks_of blocks)) (chunks_of blocks ! j) f"
  shows "\<exists>frames. seal_stream C salt ns d (source, None) = (header # frames, None)"
proof -
  have "snd (seal_loop C d key ns None 0 None blocks) = None"
  proof (cases blocks)
    case Nil
    then obtain f where "sealed_chunk C d key (ns 0) 0 True [] f" using assms(4) by (auto simp: chunks_of_def)
    then have "bindR (chunk_aad d PURPOSE_BODY 0 True) (seal_chunk C key (ns 0) []) = Inr f" using seal_chunk_Inr by blast
    then show ?thesis using Nil by simp
  next
    case (Cons b bs)
    then have "\<forall>j \<le> length bs. \<exists>f. sealed_chunk C d key (ns (0 + j)) (0 + j) (j = length bs) ((b # bs) ! j) f"
      using assms(4) by (auto simp: chunks_of_def less_Suc_eq_le)
    from seal_loop_returns[OF this] Cons show ?thesis by simp
  qed
  then show ?thesis using assms(1-3)
    by (cases "seal_loop C d key ns None 0 None blocks") (simp add: seal_stream_def Let_def gen_emit_def)
qed

lemma chunk_aad_returns:
  assumes "\<forall>c \<in> set (di_content_type d). c < 128" "length (di_content_type d) < 65536"
    "length (nat_str (di_schema_version d)) < 65536" "length (nat_str i) < 65536"
  shows "\<exists>a. chunk_aad d PURPOSE_BODY i final = Inr a"
proof -
  have "utf8_encode (di_content_type d) = Inr (di_content_type d)" using assms(1) by (intro utf8_encode_ascii) auto
  moreover have "utf8_encode (lit ''body'') = Inr (lit ''body'')" by (rule utf8_encode_ascii) auto
  then have "utf8_encode PURPOSE_BODY = Inr PURPOSE_BODY" by (simp add: PURPOSE_BODY_def del: utf8_encode.simps)
  ultimately show ?thesis using assms(2-)
    by (cases final) (simp_all add: chunk_aad_def chunk_aad_fields_def frame_ok DOCUMENT_AAD_DOMAIN_def PURPOSE_BODY_def del: frame.simps)
qed

definition sample_identity :: document_identity where
  "sample_identity = \<lparr>di_tenant_id = 1, di_user_id = 2, di_document_id = 3, di_content_type = lit ''text/plain'',
     di_schema_version = 1\<rparr>"

definition sample_cipher :: "aead \<Rightarrow> document_cipher" where
  "sample_cipher A = \<lparr>dc_aead = A, dc_hkdf = (\<lambda>salt info master. master), dc_ring = sample_ring, dc_chunk_bytes = 4\<rparr>"

lemma sample_cipher_ok: "mk_document_cipher A (\<lambda>salt info master. master) sample_ring 4 = Inr (sample_cipher A)"
  by (simp add: mk_document_cipher_def sample_cipher_def MAX_CHUNK_BYTES_def)

lemma sample_key: "derive_data_key (sample_cipher A) (kr_active_key_id sample_ring) salt sample_identity = Inr (replicate 32 7)"
proof -
  obtain info where "identity_info sample_identity = Inr info"
    using frame_ok[of "[HKDF_DOMAIN, uuid_str 1, uuid_str 2, uuid_str 3]" 2]
    by (auto simp: identity_info_def sample_identity_def HKDF_DOMAIN_def simp del: frame.simps)
  then show ?thesis by (simp add: derive_data_key_def sample_cipher_def sample_ring_def)
qed

lemma sample_header:
  "length salt = SALT_BYTES \<Longrightarrow> \<exists>header. header_to_bytes \<lparr>dh_version = DOCUMENT_FORMAT_VERSION,
     dh_key_id = kr_active_key_id sample_ring, dh_salt = salt, dh_chunk_bytes = 4\<rparr> = Inr header"
proof -
  have "utf8_encode (lit ''k1'') = Inr (lit ''k1'')" by (rule utf8_encode_ascii) auto
  then have "utf8_encode (kr_active_key_id sample_ring) = Inr (lit ''k1'')" by (simp add: sample_ring_def del: utf8_encode.simps)
  then show ?thesis by (simp add: header_to_bytes_def DOCUMENT_FORMAT_VERSION_def MAX_KEY_ID_BYTES_def)
qed

lemma sample_aads: "i < 10 \<Longrightarrow> \<exists>a. chunk_aad sample_identity PURPOSE_BODY i final = Inr a"
  by (rule chunk_aad_returns) (auto simp: sample_identity_def nat_str.simps)

lemma sample_rechunk:
  "rechunk ([[1, 2, 3], [4, 5]], None) 4 = ([[1, 2, 3, 4], [5]], None)" "rechunk ([[1, 2, 3]], None) 4 = ([[1, 2, 3]], None)"
  by code_simp+

lemma sample_sealed_document:
  assumes "rechunk (source, None) 4 = (blocks, None)"
    "\<And>j. j < length (chunks_of blocks) \<Longrightarrow> \<exists>f. sealed_chunk (sample_cipher A) sample_identity (replicate 32 7) (replicate 12 j) j
       (Suc j = length (chunks_of blocks)) (chunks_of blocks ! j) f"
  obtains header frames where
    "seal_stream (sample_cipher A) (replicate 16 0) (\<lambda>i. replicate 12 i) sample_identity (source, None) = (header # frames, None)"
proof -
  obtain header where header: "header_to_bytes \<lparr>dh_version = DOCUMENT_FORMAT_VERSION,
     dh_key_id = kr_active_key_id sample_ring, dh_salt = replicate 16 0, dh_chunk_bytes = 4\<rparr> = Inr header"
    using sample_header[of "replicate 16 0"] by (auto simp: SALT_BYTES_def)
  have C: "dc_chunk_bytes (sample_cipher A) = 4" "dc_ring (sample_cipher A) = sample_ring" by (simp_all add: sample_cipher_def)
  have "\<exists>frames. seal_stream (sample_cipher A) (replicate 16 0) (\<lambda>i. replicate 12 i) sample_identity (source, None) = (header # frames, None)"
    by (rule seal_stream_returns[of _ _ blocks]) (use assms header in \<open>auto simp: C sample_key\<close>)
  with that show thesis by blast
qed

text \<open>A stream delivered block by block as it was sealed meets the proviso on the header.\<close>

lemma header_block_safe:
  "\<forall>j \<le> length (header # frames). let l = length (concat (take j (header # frames))) in
     l < minimum_header_size \<or> length (hd (header # frames)) \<le> l"
proof (intro allI impI)
  fix j assume "j \<le> length (header # frames)"
  then show "let l = length (concat (take j (header # frames))) in l < minimum_header_size \<or> length (hd (header # frames)) \<le> l"
    by (cases j) (simp_all add: minimum_header_size_def HEADER_PREFIX_SIZE_def)
qed

theorem document_round_trip_witness:
  "\<exists>sealed out. seal_stream (sample_cipher toy_aead) (replicate 16 0) (\<lambda>i. replicate 12 i) sample_identity ([[1, 2, 3], [4, 5]], None)
       = (sealed, None)
     \<and> open_stream (sample_cipher toy_aead) sample_identity (sealed, None) = (out, None) \<and> concat out = [1, 2, 3, 4, 5]"
proof -
  have sealed: "\<exists>f. sealed_chunk (sample_cipher toy_aead) sample_identity (replicate 32 7) (replicate 12 j) j fin p f" if "j < 10" for j fin p
    using sample_aads[OF that, of fin] by (auto simp: sealed_chunk_def sample_cipher_def toy_aead_def)
  obtain header frames where s: "seal_stream (sample_cipher toy_aead) (replicate 16 0) (\<lambda>i. replicate 12 i) sample_identity
      ([[1, 2, 3], [4, 5]], None) = (header # frames, None)"
    by (rule sample_sealed_document[OF sample_rechunk(1)]) (use sealed in \<open>auto simp: chunks_of_def\<close>)
  from document_round_trip[OF sample_cipher_ok toy_aead_laws _ _ s refl header_block_safe] s show ?thesis
    by (auto simp: SALT_BYTES_def NONCE_BYTES_def)
qed

text \<open>A cipher for one chunk: it seals and opens nothing else.\<close>

definition ledger_aead :: "document_identity \<Rightarrow> bytes \<Rightarrow> aead" where
  "ledger_aead d p =
     \<lparr>ae_encrypt = (\<lambda>key nonce pt aad. if pt = p \<and> chunk_aad d PURPOSE_BODY 0 True = Inr aad
        then Inr (pt @ replicate 16 0) else Inl CryptoError),
      ae_decrypt = (\<lambda>key nonce ct aad. if ct = p @ replicate 16 0 \<and> chunk_aad d PURPOSE_BODY 0 True = Inr aad
        then Inr p else Inl CryptoError)\<rparr>"

lemma ledger_aead_laws: "aead_laws (ledger_aead d p)"
  by (auto simp: aead_laws_def ledger_aead_def GCM_TAG_BYTES_def split: if_splits)

lemma ledger_authentic:
  "dc_aead C = ledger_aead d p \<Longrightarrow> authentic C d [p]"
  by (auto simp: authentic_def opened_chunk_def ledger_aead_def split: if_splits)


end
