(* ===== verification/Document_Store.thy ===== *)
theory Document_Store
  imports Document_Crypto
begin

text \<open>
  The object store behind the documents: the protocol of \<^verbatim>\<open>app/documents/protocol.py\<close> with its
  contract as a locale, and the in-memory store of \<^verbatim>\<open>app/documents/storage/fakes.py\<close>. A store is
  handed its chunks as a generator (what it yields and how it ends) and hands the object back as
  one; both work on the state of the store, \<open>'o\<close>.
\<close>

section \<open>The protocol\<close>

record 'o document_store_ops =
  ds_put :: "ustr \<Rightarrow> bytes gen \<Rightarrow> ustr option \<Rightarrow> ('o, nat) op"
  ds_get :: "ustr \<Rightarrow> 'o \<Rightarrow> bytes gen \<times> 'o"
  ds_delete :: "ustr \<Rightarrow> ('o, unit) op"
  ds_health :: "('o, unit) op"

text \<open>
  The contract. \<open>blob s key\<close> is the object under a key. A write that returns has consumed its
  chunks to their end and published all of them; whatever fails, the other objects stay; a read
  that ends without an exception has yielded the whole object and nothing else.
\<close>

locale document_store =
  fixes st :: "'o document_store_ops" and blob :: "'o \<Rightarrow> ustr \<Rightarrow> bytes option"
  assumes put_returns: "ds_put st key chunks ct s = (Inr n, s') \<Longrightarrow>
      snd chunks = None \<and> blob s' = (blob s)(key \<mapsto> concat (fst chunks)) \<and> n = length (concat (fst chunks))"
    and put_other: "ds_put st key chunks ct s = (r, s') \<Longrightarrow> key' \<noteq> key \<Longrightarrow> blob s' key' = blob s key'"
    and get_returns: "ds_get st key s = ((blocks, None), s') \<Longrightarrow> blob s key = Some (concat blocks)"
    and get_blob: "ds_get st key s = (g, s') \<Longrightarrow> blob s' = blob s"
    and delete_returns: "ds_delete st key s = (Inr u, s') \<Longrightarrow> blob s' = (blob s)(key := None)"
    and delete_other: "ds_delete st key s = (d, s') \<Longrightarrow> key' \<noteq> key \<Longrightarrow> blob s' key' = blob s key'"
    and health_blob: "ds_health st s = (d, s') \<Longrightarrow> blob s' = blob s"
begin

text \<open>What was put is what is read, through any operation on the other keys in between.\<close>

lemma put_get:
  assumes "ds_put st key chunks ct s = (Inr n, s1)" "ds_get st key s1 = ((blocks, None), s2)"
  shows "concat blocks = concat (fst chunks)" "length (concat blocks) = n"
  using put_returns[OF assms(1)] get_returns[OF assms(2)] by auto

lemma put_delete_get:
  assumes "ds_put st key chunks ct s = (r, s1)" "ds_delete st key s1 = (Inr u, s2)"
  shows "\<exists>e. snd (fst (ds_get st key s2)) = Some e"
  using get_returns[of key s2 "fst (fst (ds_get st key s2))"] delete_returns[OF assms(2)]
  by (cases "snd (fst (ds_get st key s2))") (auto simp: prod_eq_iff)

end

section \<open>The store in memory\<close>

record fake_store =
  fk_objects :: "(ustr \<times> bytes) list"
  fk_failure :: "exn option"
  fk_put_chunk_sizes :: "nat list list"
  fk_aborted_keys :: "ustr list"

definition empty_fake_store :: fake_store where
  "empty_fake_store = \<lparr>fk_objects = [], fk_failure = None, fk_put_chunk_sizes = [], fk_aborted_keys = []\<rparr>"

definition simulate_failure :: "exn option \<Rightarrow> fake_store \<Rightarrow> fake_store" where
  "simulate_failure e s = s\<lparr>fk_failure := e\<rparr>"

definition stored_keys :: "fake_store \<Rightarrow> ustr list" where
  "stored_keys s = sort (map fst (fk_objects s))"

definition stored_bytes :: "fake_store \<Rightarrow> ustr \<Rightarrow> bytes res" where
  "stored_bytes s key = (case dict_get (fk_objects s) key of None \<Rightarrow> Inl KeyError | Some b \<Rightarrow> Inr b)"

definition contains_plaintext :: "fake_store \<Rightarrow> bytes \<Rightarrow> bool" where
  "contains_plaintext s needle = list_ex (\<lambda>(_, blob). find_at needle blob \<noteq> None) (fk_objects s)"

definition fake_guard :: "(fake_store, unit) op" where
  "fake_guard s = (case fk_failure s of None \<Rightarrow> (Inr (), s) | Some e \<Rightarrow> (Inl e, s))"

text \<open>The loop of \<open>put\<close> over its chunks, with \<open>sizes\<close> and \<open>buffer\<close>.\<close>

fun fake_put_loop :: "nat list \<Rightarrow> bytes \<Rightarrow> bytes list \<Rightarrow> exn option \<Rightarrow> (fake_store, nat list \<times> bytes) op" where
  "fake_put_loop sizes buffer [] err = liftS (case err of Some e \<Rightarrow> Inl e | None \<Rightarrow> Inr (sizes, buffer))"
| "fake_put_loop sizes buffer (block # blocks) err =
     bindS fake_guard (\<lambda>_. fake_put_loop (sizes @ [length block]) (buffer @ block) blocks err)"

definition fake_abort :: "ustr \<Rightarrow> exn \<Rightarrow> (fake_store, 'a) op" where
  "fake_abort key e s = (Inl e, s\<lparr>fk_aborted_keys := fk_aborted_keys s @ [key]\<rparr>)"

definition fake_publish :: "ustr \<Rightarrow> nat list \<Rightarrow> bytes \<Rightarrow> (fake_store, nat) op" where
  "fake_publish key sizes buffer s =
     (Inr (length buffer), s\<lparr>fk_put_chunk_sizes := fk_put_chunk_sizes s @ [sizes],
        fk_objects := dict_put key buffer (fk_objects s)\<rparr>)"

definition fake_put :: "ustr \<Rightarrow> bytes gen \<Rightarrow> ustr option \<Rightarrow> (fake_store, nat) op" where
  "fake_put key chunks content_type =
     bindS fake_guard (\<lambda>_.
     bindS (catchS (fake_put_loop [] [] (fst chunks) (snd chunks)) (\<lambda>e. Some (fake_abort key e)))
       (\<lambda>(sizes, buffer). fake_publish key sizes buffer))"

definition FAKE_STEP :: nat where "FAKE_STEP = 64 * 1024"

text \<open>The slices \<open>blob[offset : offset + step]\<close> for the offsets of \<open>range(0, max(len(blob), 1), step)\<close>.\<close>

definition fake_pieces :: "nat \<Rightarrow> bytes \<Rightarrow> bytes list" where
  "fake_pieces step blob =
     map (\<lambda>i. slice blob (i * step) (i * step + step)) [0 ..< (max (length blob) 1 + step - 1) div step]"

definition fake_get :: "ustr \<Rightarrow> fake_store \<Rightarrow> bytes gen \<times> fake_store" where
  "fake_get key s =
     (case fake_guard s of
        (Inl e, s') \<Rightarrow> (gen_fail e, s')
      | (Inr _, s') \<Rightarrow>
          (case dict_get (fk_objects s') key of
             None \<Rightarrow> (gen_fail (GatewayError DOCUMENT_NOT_FOUND ''object_missing''), s')
           | Some blob \<Rightarrow> ((fake_pieces FAKE_STEP blob, None), s')))"

definition fake_delete :: "ustr \<Rightarrow> (fake_store, unit) op" where
  "fake_delete key = bindS fake_guard (\<lambda>_ s. (Inr (), s\<lparr>fk_objects := AList.delete key (fk_objects s)\<rparr>))"

definition fake_health :: "(fake_store, unit) op" where
  "fake_health = fake_guard"

definition fake_store_ops :: "fake_store document_store_ops" where
  "fake_store_ops = \<lparr>ds_put = fake_put, ds_get = fake_get, ds_delete = fake_delete, ds_health = fake_health\<rparr>"


subsection \<open>The fake keeps the contract\<close>

definition fake_blob :: "fake_store \<Rightarrow> ustr \<Rightarrow> bytes option" where
  "fake_blob s = dict_get (fk_objects s)"

lemma fake_guard_simps [simp]:
  "fake_guard s = (Inr u, s') \<longleftrightarrow> fk_failure s = None \<and> s' = s"
  "fake_guard s = (Inl e, s') \<longleftrightarrow> fk_failure s = Some e \<and> s' = s"
  by (auto simp: fake_guard_def split: option.splits)

lemma fake_put_loop_eq:
  "fake_put_loop sizes buffer blocks err s =
     (case fk_failure s of
        Some e \<Rightarrow> (if blocks = [] then (case err of Some e' \<Rightarrow> Inl e' | None \<Rightarrow> Inr (sizes, buffer)) else Inl e, s)
      | None \<Rightarrow> (case err of Some e' \<Rightarrow> Inl e' | None \<Rightarrow> Inr (sizes @ map length blocks, buffer @ concat blocks), s))"
proof (induction blocks arbitrary: sizes buffer)
  case (Cons block blocks)
  show ?case by (auto simp: bindS_def fake_guard_def Cons split: option.splits)
qed (auto simp: liftS_def split: option.splits)

lemma fake_put_eq:
  "fake_put key chunks ct s =
     (case fk_failure s of
        Some e \<Rightarrow> (Inl e, s)
      | None \<Rightarrow> (case snd chunks of
           Some e \<Rightarrow> (Inl e, s\<lparr>fk_aborted_keys := fk_aborted_keys s @ [key]\<rparr>)
         | None \<Rightarrow> fake_publish key (map length (fst chunks)) (concat (fst chunks)) s))"
  by (auto simp: fake_put_def bindS_def catchS_def fake_guard_def fake_put_loop_eq fake_abort_def split: option.splits)

text \<open>The pieces are the object, none longer than a step, and the first holds all a step holds.\<close>

lemma concat_slices:
  "concat (map (\<lambda>i. slice xs (i * step) (i * step + step)) [0 ..< n]) = take (n * step) xs"
proof (induction n)
  case (Suc n)
  have "take (Suc n * step) xs = take (n * step) xs @ slice xs (n * step) (n * step + step)"
    using take_add[of "n * step" step xs] by (simp add: slice_def add.commute)
  with Suc show ?case by simp
qed simp

lemma fake_pieces_concat: "0 < step \<Longrightarrow> concat (fake_pieces step blob) = blob"
proof -
  assume "0 < step"
  have "length blob \<le> (max (length blob) 1 + step - 1) div step * step"
  proof -
    let ?m = "max (length blob) 1 + step - 1"
    have "?m - ?m mod step \<le> ?m div step * step" by (simp add: minus_mod_eq_div_mult)
    moreover have "?m mod step < step" using \<open>0 < step\<close> by simp
    ultimately show ?thesis using \<open>0 < step\<close> by linarith
  qed
  then show ?thesis by (simp add: fake_pieces_def concat_slices)
qed

lemma fake_pieces_first:
  assumes "0 < step"
  shows "\<exists>rest. fake_pieces step blob = take step blob # rest"
proof -
  have "0 < (max (length blob) 1 + step - 1) div step" using assms by (simp add: div_greater_zero_iff)
  then show ?thesis using assms by (simp add: fake_pieces_def upt_rec slice_def)
qed

lemma fake_get_eq:
  "fake_get key s =
     (case fk_failure s of
        Some e \<Rightarrow> gen_fail e
      | None \<Rightarrow> (case dict_get (fk_objects s) key of
           None \<Rightarrow> gen_fail (GatewayError DOCUMENT_NOT_FOUND ''object_missing'')
         | Some blob \<Rightarrow> (fake_pieces FAKE_STEP blob, None)), s)"
  by (auto simp: fake_get_def fake_guard_def split: option.splits)

interpretation fake: document_store fake_store_ops fake_blob
proof
  note ops = fake_store_ops_def fake_put_eq fake_get_eq fake_publish_def fake_blob_def fake_delete_def fake_health_def
  fix key key' chunks ct s n s' r blocks g u d
  show "ds_put fake_store_ops key chunks ct s = (Inr n, s') \<Longrightarrow>
      snd chunks = None \<and> fake_blob s' = (fake_blob s)(key \<mapsto> concat (fst chunks)) \<and> n = length (concat (fst chunks))"
    by (auto simp: ops update_conv' split: option.splits)
  show "ds_put fake_store_ops key chunks ct s = (r, s') \<Longrightarrow> key' \<noteq> key \<Longrightarrow> fake_blob s' key' = fake_blob s key'"
    by (auto simp: ops split: option.splits)
  show "ds_get fake_store_ops key s = ((blocks, None), s') \<Longrightarrow> fake_blob s key = Some (concat blocks)"
    using fake_pieces_concat[of FAKE_STEP] by (auto simp: ops gen_fail_def FAKE_STEP_def split: option.splits)
  show "ds_get fake_store_ops key s = (g, s') \<Longrightarrow> fake_blob s' = fake_blob s" by (auto simp: ops)
  show "ds_delete fake_store_ops key s = (Inr u, s') \<Longrightarrow> fake_blob s' = (fake_blob s)(key := None)"
    by (auto simp: ops delete_conv' bindS_Inr)
  show "ds_delete fake_store_ops key s = (d, s') \<Longrightarrow> key' \<noteq> key \<Longrightarrow> fake_blob s' key' = fake_blob s key'"
    by (auto simp: ops bindS_def fake_guard_def delete_conv' split: option.splits)
  show "ds_health fake_store_ops s = (d, s') \<Longrightarrow> fake_blob s' = fake_blob s"
    by (auto simp: ops fake_guard_def split: option.splits)
qed

text \<open>A failed write leaves the objects as they were, and the key among the aborted ones.\<close>

lemma fake_put_failed: "fake_put key chunks ct s = (Inl e, s') \<Longrightarrow> fk_objects s' = fk_objects s"
  by (auto simp: fake_put_eq fake_publish_def split: option.splits)

end
