(* ===== verification/Document_Validation.thy ===== *)
theory Document_Validation
  imports Text
begin

text \<open>
  \<^verbatim>\<open>app/documents/validation.py\<close> with the document types of \<^verbatim>\<open>app/documents/models.py\<close>: what is
  checked of an upload before a byte of it is sealed. The case mapping, the normal form and the
  control-character class of the Unicode database are arguments; the two path classes of the
  standard library are modelled on names without separators, which is all that reaches them.
\<close>

section \<open>Document types\<close>

definition CONTENT_TYPE_TXT :: ustr where "CONTENT_TYPE_TXT = lit ''text/plain''"
definition CONTENT_TYPE_PDF :: ustr where "CONTENT_TYPE_PDF = lit ''application/pdf''"
definition CONTENT_TYPE_DOCX :: ustr where
  "CONTENT_TYPE_DOCX = lit ''application/vnd.openxmlformats-officedocument.wordprocessingml.document''"

datatype document_status = RECEIVING | STORED | FAILED

fun document_status_value :: "document_status \<Rightarrow> ustr" where
  "document_status_value RECEIVING = lit ''receiving''"
| "document_status_value STORED = lit ''stored''"
| "document_status_value FAILED = lit ''failed''"

record supported_type =
  st_content_type :: ustr
  st_extensions :: "ustr list"
  st_magic :: "bytes list"

definition SUPPORTED_TYPES :: "(ustr \<times> supported_type) list" where
  "SUPPORTED_TYPES =
     [(CONTENT_TYPE_TXT, \<lparr>st_content_type = CONTENT_TYPE_TXT, st_extensions = [lit ''.txt''], st_magic = []\<rparr>),
      (CONTENT_TYPE_PDF, \<lparr>st_content_type = CONTENT_TYPE_PDF, st_extensions = [lit ''.pdf''], st_magic = [lit ''%PDF-'']\<rparr>),
      (CONTENT_TYPE_DOCX, \<lparr>st_content_type = CONTENT_TYPE_DOCX, st_extensions = [lit ''.docx''],
         st_magic = [[80, 75, 3, 4], [80, 75, 5, 6], [80, 75, 7, 8]]\<rparr>)]"

definition EXTENSION_TO_CONTENT_TYPE :: "(ustr \<times> ustr) list" where
  "EXTENSION_TO_CONTENT_TYPE =
     concat (map (\<lambda>(_, t). map (\<lambda>e. (e, st_content_type t)) (st_extensions t)) SUPPORTED_TYPES)"


section \<open>Filenames\<close>

definition MAX_FILENAME_CHARS :: nat where "MAX_FILENAME_CHARS = 255"
definition MAGIC_SNIFF_BYTES :: nat where "MAGIC_SNIFF_BYTES = 8"

definition RESERVED_WINDOWS_NAMES :: "ustr list" where
  "RESERVED_WINDOWS_NAMES = [lit ''con'', lit ''prn'', lit ''aux'', lit ''nul'']
     @ map (\<lambda>d. lit ''com'' @ nat_str d) [1 ..< 10] @ map (\<lambda>d. lit ''lpt'' @ nat_str d) [1 ..< 10]"

definition BIDI_CONTROLS :: "uchar list" where
  "BIDI_CONTROLS = [0x061C, 0x200E, 0x200F, 0x202A, 0x202B, 0x202C, 0x202D, 0x202E, 0x2066, 0x2067, 0x2068, 0x2069]"

text \<open>
  \<open>PurePosixPath(s).name\<close> and \<open>PureWindowsPath(s).name\<close>, for a name without separators: a path
  drops a part that is empty or \<open>.\<close>, and on Windows a letter and a colon are the drive.
\<close>

definition posix_name :: "ustr \<Rightarrow> ustr" where
  "posix_name s = (if s = lit ''.'' then [] else s)"

definition windows_name :: "ustr \<Rightarrow> ustr" where
  "windows_name s = posix_name (if 2 \<le> length s \<and> s ! 1 = 58 then drop 2 s else s)"

definition invalid_document :: "string \<Rightarrow> exn" where
  "invalid_document = GatewayError DOCUMENT_INVALID"

definition normalize_filename :: "ucd \<Rightarrow> ustr \<Rightarrow> ustr res" where
  "normalize_filename U raw =
     (if raw = [] \<or> strip U raw = [] then Inl (invalid_document ''filename_empty'')
      else let candidate = strip U (ud_nfc U raw) in
        if MAX_FILENAME_CHARS < length candidate then Inl (invalid_document ''filename_too_long'')
        else if 0 \<in> set candidate then Inl (invalid_document ''filename_null_byte'')
        else if list_ex (ud_iscntrl U) candidate then Inl (invalid_document ''filename_control_character'')
        else if list_ex (\<lambda>c. c \<in> set BIDI_CONTROLS) candidate then Inl (invalid_document ''filename_bidi_control'')
        else if 47 \<in> set candidate \<or> 92 \<in> set candidate then Inl (invalid_document ''filename_contains_separator'')
        else if posix_name candidate \<noteq> candidate \<or> windows_name candidate \<noteq> candidate
          then Inl (invalid_document ''filename_not_a_bare_name'')
        else if candidate = lit ''.'' \<or> candidate = lit ''..'' then Inl (invalid_document ''filename_relative'')
        else if ud_lower U (hd (split_on 46 candidate)) \<in> set RESERVED_WINDOWS_NAMES
          then Inl (invalid_document ''filename_reserved'')
        else Inr candidate)"


section \<open>Types\<close>

definition unsupported :: "string \<Rightarrow> exn" where
  "unsupported = GatewayError DOCUMENT_TYPE_UNSUPPORTED"

text \<open>\<open>PurePosixPath(s).suffix\<close>: from the last dot on, unless it is the first or the last character.\<close>

definition path_suffix :: "ustr \<Rightarrow> ustr" where
  "path_suffix s =
     (let name = posix_name s in
      case py_rfind name [46] 0 (length name) of
        None \<Rightarrow> []
      | Some i \<Rightarrow> if 0 < i \<and> i < length name - 1 then drop i name else [])"

definition extension_of :: "ucd \<Rightarrow> ustr \<Rightarrow> ustr res" where
  "extension_of U filename =
     (let suffix = ud_lower U (path_suffix filename)
      in if suffix = [] then Inl (unsupported ''filename_has_no_extension'') else Inr suffix)"

definition resolve_content_type :: "ucd \<Rightarrow> ustr \<Rightarrow> ustr option \<Rightarrow> ustr res" where
  "resolve_content_type U filename declared =
     bindR (extension_of U filename) (\<lambda>extension.
       case dict_get EXTENSION_TO_CONTENT_TYPE extension of
         None \<Rightarrow> Inl (unsupported ''extension_not_supported'')
       | Some from_extension \<Rightarrow>
           (case declared of
              None \<Rightarrow> Inr from_extension
            | Some d \<Rightarrow>
                let normalized = ud_lower U (strip U (hd (split_on 59 d))) in
                if dict_get SUPPORTED_TYPES normalized = None then Inl (unsupported ''content_type_not_supported'')
                else if normalized \<noteq> from_extension then Inl (unsupported ''content_type_extension_mismatch'')
                else Inr normalized))"

text \<open>
  The incremental UTF-8 decoder on the first bytes of a file: what follows the characters it can
  decode may be the beginning of one more, cut off by the end of the bytes.
\<close>

fun begins_character :: "bytes \<Rightarrow> bool" where
  "begins_character [] \<longleftrightarrow> True"
| "begins_character [a] \<longleftrightarrow> 0xC2 \<le> a \<and> a < 0xF5"
| "begins_character [a, b] \<longleftrightarrow> continuation b \<and>
     (0xE0 \<le> a \<and> a < 0xF0 \<and> (a = 0xE0 \<longrightarrow> 0xA0 \<le> b) \<and> (a = 0xED \<longrightarrow> b < 0xA0)
      \<or> 0xF0 \<le> a \<and> a < 0xF5 \<and> (a = 0xF0 \<longrightarrow> 0x90 \<le> b) \<and> (a = 0xF4 \<longrightarrow> b < 0x90))"
| "begins_character [a, b, c] \<longleftrightarrow> continuation b \<and> continuation c
     \<and> 0xF0 \<le> a \<and> a < 0xF5 \<and> (a = 0xF0 \<longrightarrow> 0x90 \<le> b) \<and> (a = 0xF4 \<longrightarrow> b < 0x90)"
| "begins_character _ \<longleftrightarrow> False"

definition decodes_incrementally :: "bytes \<Rightarrow> bool" where
  "decodes_incrementally head \<longleftrightarrow>
     list_ex (\<lambda>k. k \<le> length head \<and> \<not> isl (utf8_decode (take (length head - k) head))
        \<and> begins_character (drop (length head - k) head)) [0 ..< 4]"

definition verify_magic :: "ustr \<Rightarrow> bytes \<Rightarrow> unit res" where
  "verify_magic content_type head =
     (case dict_get SUPPORTED_TYPES content_type of
        None \<Rightarrow> Inl (unsupported ''content_type_not_supported'')
      | Some supported \<Rightarrow>
          if st_magic supported \<noteq> []
          then (if list_ex (startswith head) (st_magic supported) then Inr ()
                else Inl (unsupported ''magic_bytes_mismatch''))
          else if list_ex (\<lambda>(_, other). st_content_type other \<noteq> content_type \<and> list_ex (startswith head) (st_magic other)) SUPPORTED_TYPES
          then Inl (unsupported ''magic_bytes_match_another_type'')
          else if content_type = CONTENT_TYPE_TXT \<and> \<not> decodes_incrementally head
          then Inl (invalid_document ''text_not_utf8'')
          else Inr ())"


section \<open>Lengths\<close>

definition too_large :: "string \<Rightarrow> exn" where
  "too_large = GatewayError DOCUMENT_TOO_LARGE"

definition enforce_declared_length :: "int option \<Rightarrow> int \<Rightarrow> unit res" where
  "enforce_declared_length declared limit =
     (case declared of
        None \<Rightarrow> Inr ()
      | Some n \<Rightarrow> if n < 0 then Inl (invalid_document ''content_length_negative'')
                  else if limit < n then Inl (too_large ''declared_length_over_limit'') else Inr ())"

definition enforce_streamed_length :: "nat \<Rightarrow> int \<Rightarrow> unit res" where
  "enforce_streamed_length received limit =
     (if limit < int received then Inl (too_large ''streamed_length_over_limit'') else Inr ())"


section \<open>What the checks accept\<close>

abbreviation valid_utf8 :: "bytes \<Rightarrow> bool" where
  "valid_utf8 b \<equiv> \<not> isl (utf8_decode b)"

lemma isl_bindR: "isl (bindR r (\<lambda>x. Inr (f x))) \<longleftrightarrow> isl r"
  by (cases r) auto

lemma base64_le:
  fixes m x z :: nat
  assumes "z < 64"
  shows "m * 64 \<le> x * 64 + z \<longleftrightarrow> m \<le> x" "x * 64 + z < m * 64 \<longleftrightarrow> x < m"
  using assms by (cases "m \<le> x"; linarith)+

lemma three_digits:
  fixes x y z :: nat
  assumes "y < 64" "z < 64"
  shows "0x800 \<le> x * 4096 + y * 64 + z \<and> \<not> (0xD800 \<le> x * 4096 + y * 64 + z \<and> x * 4096 + y * 64 + z < 0xE000)
    \<longleftrightarrow> (x = 0 \<longrightarrow> 0x20 \<le> y) \<and> (x = 13 \<longrightarrow> y < 0x20)"
proof -
  have n: "x * 4096 + y * 64 + z = (x * 64 + y) * 64 + z" by (simp add: algebra_simps)
  have "0x800 \<le> x * 4096 + y * 64 + z \<longleftrightarrow> 32 \<le> x * 64 + y"
    "0xD800 \<le> x * 4096 + y * 64 + z \<longleftrightarrow> 864 \<le> x * 64 + y"
    "x * 4096 + y * 64 + z < 0xE000 \<longleftrightarrow> x * 64 + y < 896"
    using base64_le(1)[OF assms(2), of 32 "x * 64 + y"] base64_le(1)[OF assms(2), of 864 "x * 64 + y"]
      base64_le(2)[OF assms(2), of "x * 64 + y" 896] unfolding n by simp_all
  moreover have "32 \<le> x * 64 + y \<longleftrightarrow> (x = 0 \<longrightarrow> 32 \<le> y)" using assms(1) by (cases x) auto
  moreover have "864 \<le> x * 64 + y \<and> x * 64 + y < 896 \<longleftrightarrow> x = 13 \<and> 32 \<le> y"
  proof -
    consider "x < 13" | "x = 13" | "14 \<le> x" by linarith
    then show ?thesis using assms(1) by cases linarith+
  qed
  ultimately show ?thesis by (metis linorder_not_le)
qed

lemma four_digits:
  fixes x y z w :: nat
  assumes "y < 64" "z < 64" "w < 64"
  shows "0x10000 \<le> x * 262144 + y * 4096 + z * 64 + w \<and> x * 262144 + y * 4096 + z * 64 + w < 0x110000
    \<longleftrightarrow> x < 5 \<and> (x = 0 \<longrightarrow> 0x10 \<le> y) \<and> (x = 4 \<longrightarrow> y < 0x10)"
proof -
  have n: "x * 262144 + y * 4096 + z * 64 + w = ((x * 64 + y) * 64 + z) * 64 + w" by (simp add: algebra_simps)
  have "0x10000 \<le> x * 262144 + y * 4096 + z * 64 + w \<longleftrightarrow> 16 \<le> x * 64 + y"
    using base64_le(1)[OF assms(3), of 1024 "(x * 64 + y) * 64 + z"] base64_le(1)[OF assms(2), of 16 "x * 64 + y"] unfolding n by simp
  moreover have "x * 262144 + y * 4096 + z * 64 + w < 0x110000 \<longleftrightarrow> x * 64 + y < 272"
    using base64_le(2)[OF assms(3), of "(x * 64 + y) * 64 + z" 17408] base64_le(2)[OF assms(2), of "x * 64 + y" 272] unfolding n by simp
  moreover have "16 \<le> x * 64 + y \<longleftrightarrow> (x = 0 \<longrightarrow> 16 \<le> y)" using assms(1) by (cases x) auto
  moreover have "x * 64 + y < 272 \<longleftrightarrow> x < 5 \<and> (x = 4 \<longrightarrow> y < 16)"
  proof -
    consider "x < 4" | "x = 4" | "5 \<le> x" by linarith
    then show ?thesis using assms(1) by cases linarith+
  qed
  ultimately show ?thesis by metis
qed

lemma continuation_offset: "continuation b \<longleftrightarrow> (\<exists>y < 64. b = 0x80 + y)"
proof
  assume "continuation b"
  then show "\<exists>y < 64. b = 0x80 + y" by (intro exI[of _ "b - 0x80"]) (auto simp: continuation_def)
qed (auto simp: continuation_def)

lemma three_bytes:
  assumes "0xE0 \<le> a" "a < 0xF0"
  shows "(continuation b \<and> continuation c \<and> 0x800 \<le> (a - 0xE0) * 4096 + (b - 0x80) * 64 + (c - 0x80)
      \<and> \<not> (0xD800 \<le> (a - 0xE0) * 4096 + (b - 0x80) * 64 + (c - 0x80) \<and> (a - 0xE0) * 4096 + (b - 0x80) * 64 + (c - 0x80) < 0xE000))
    \<longleftrightarrow> begins_character [a, b] \<and> continuation c"
proof (cases "continuation b \<and> continuation c")
  case True
  then obtain y z where y: "y < 64" "b = 0x80 + y" and z: "z < 64" "c = 0x80 + z" by (auto simp: continuation_offset)
  obtain x where x: "a = 0xE0 + x" using assms(1) le_Suc_ex by blast
  show ?thesis using three_digits[OF y(1) z(1), of x] True assms(2) unfolding y(2) z(2) x by auto
qed auto

lemma four_bytes:
  assumes "0xF0 \<le> a" "a < 0xF8"
  shows "(continuation b \<and> continuation c \<and> continuation d
      \<and> 0x10000 \<le> (a - 0xF0) * 262144 + (b - 0x80) * 4096 + (c - 0x80) * 64 + (d - 0x80)
      \<and> (a - 0xF0) * 262144 + (b - 0x80) * 4096 + (c - 0x80) * 64 + (d - 0x80) < 0x110000)
    \<longleftrightarrow> begins_character [a, b, c] \<and> continuation d"
proof (cases "continuation b \<and> continuation c \<and> continuation d")
  case True
  then obtain y z w where y: "y < 64" "b = 0x80 + y" and z: "z < 64" "c = 0x80 + z" and w: "w < 64" "d = 0x80 + w"
    by (auto simp: continuation_offset)
  obtain x where x: "a = 0xF0 + x" using assms(1) le_Suc_ex by blast
  show ?thesis using four_digits[OF y(1) z(1) w(1), of x] True assms(2) unfolding y(2) z(2) w(2) x by auto
qed auto

lemma valid_utf8_Cons:
  "valid_utf8 (a # bs) \<longleftrightarrow>
     a < 0x80 \<and> valid_utf8 bs
     \<or> (\<exists>b bs'. bs = b # bs' \<and> 0xC2 \<le> a \<and> a < 0xE0 \<and> continuation b \<and> valid_utf8 bs')
     \<or> (\<exists>b c bs'. bs = b # c # bs' \<and> a < 0xF0 \<and> begins_character [a, b] \<and> continuation c \<and> valid_utf8 bs')
     \<or> (\<exists>b c d bs'. bs = b # c # d # bs' \<and> begins_character [a, b, c] \<and> continuation d \<and> valid_utf8 bs')"
proof -
  have begins: "begins_character [a, b, c] \<Longrightarrow> 0xF0 \<le> a \<and> a < 0xF8" "begins_character [a, b] \<Longrightarrow> 0xE0 \<le> a" for b c
    by auto
  consider "a < 0x80" | "0x80 \<le> a" "a < 0xC0" | "0xC0 \<le> a" "a < 0xE0" | "0xE0 \<le> a" "a < 0xF0" | "0xF0 \<le> a" "a < 0xF8" | "0xF8 \<le> a"
    by linarith
  then show ?thesis
  proof cases
    case 3
    then show ?thesis by (auto simp: isl_bindR continuation_def Let_def split: list.splits)
  next
    case 4
    consider b c rest where "bs = b # c # rest" | "length bs < 2" by (cases bs; cases "tl bs") auto
    then show ?thesis
    proof cases
      case 1
      have "\<not> begins_character [a, b, c]" using 4 by simp
      then show ?thesis unfolding 1 using three_bytes[OF 4, of b c] 4
        by (subst utf8_decode.simps(2)) (auto simp: Let_def isl_bindR del: utf8_decode.simps begins_character.simps)
    qed (use 4 in \<open>auto split: list.splits\<close>)
  next
    case 5
    consider b c d rest where "bs = b # c # d # rest" | "length bs < 3" by (cases bs; cases "tl bs"; cases "tl (tl bs)") auto
    then show ?thesis
    proof cases
      case 1
      show ?thesis unfolding 1 using four_bytes[OF 5, of b c d] 5
        by (subst utf8_decode.simps(2)) (auto simp: Let_def isl_bindR del: utf8_decode.simps begins_character.simps)
    qed (use 5 in \<open>auto split: list.splits\<close>)
  qed (auto simp: isl_bindR dest: begins)
qed


lemma valid_utf8_whole:
  "a < 0x80 \<Longrightarrow> valid_utf8 (a # bs) = valid_utf8 bs"
  "0xC2 \<le> a \<Longrightarrow> a < 0xE0 \<Longrightarrow> continuation b \<Longrightarrow> valid_utf8 (a # b # bs) = valid_utf8 bs"
  "begins_character [a, b] \<Longrightarrow> a < 0xF0 \<Longrightarrow> continuation c \<Longrightarrow> valid_utf8 (a # b # c # bs) = valid_utf8 bs"
  "begins_character [a, b, c] \<Longrightarrow> continuation d \<Longrightarrow> valid_utf8 (a # b # c # d # bs) = valid_utf8 bs"
  unfolding valid_utf8_Cons[of a] by (auto simp: continuation_def)

lemma valid_utf8_cases:
  assumes "valid_utf8 (a # bs)"
  obtains "a < 0x80" "valid_utf8 bs"
  | b bs' where "bs = b # bs'" "0xC2 \<le> a" "a < 0xE0" "continuation b" "valid_utf8 bs'"
  | b c bs' where "bs = b # c # bs'" "begins_character [a, b]" "a < 0xF0" "continuation c" "valid_utf8 bs'"
  | b c d bs' where "bs = b # c # d # bs'" "begins_character [a, b, c]" "continuation d" "valid_utf8 bs'"
  using assms[unfolded valid_utf8_Cons] by blast

lemma valid_utf8_append: "valid_utf8 u \<Longrightarrow> valid_utf8 (u @ v) = valid_utf8 v"
proof (induction u rule: length_induct)
  case (1 u)
  show ?case
  proof (cases u)
    case (Cons a bs)
    from "1.prems"[unfolded Cons] show ?thesis
      by (cases rule: valid_utf8_cases)
        (use "1.IH" Cons in \<open>auto simp: valid_utf8_whole simp del: utf8_decode.simps(2) begins_character.simps\<close>)
  qed simp
qed

text \<open>The whole characters of a beginning of valid text, and the beginning of one more.\<close>

lemma valid_beginning_split:
  "valid_utf8 (h @ t) \<Longrightarrow> \<exists>u v. h = u @ v \<and> valid_utf8 u \<and> begins_character v"
proof (induction h rule: length_induct)
  case (1 h)
  have whole: "\<exists>u v. h = u @ v \<and> valid_utf8 u \<and> begins_character v"
    if "h = w @ bs" "w \<noteq> []" "valid_utf8 (bs @ t)" "valid_utf8 w" for w bs
  proof -
    have "length bs < length h" using that(1,2) by simp
    from "1.IH"[rule_format, OF this that(3)] obtain u v where "bs = u @ v" "valid_utf8 u" "begins_character v" by blast
    then show ?thesis using that by (intro exI[of _ "w @ u"] exI[of _ v]) (simp add: valid_utf8_append)
  qed
  show ?case
  proof (cases "begins_character h")
    case True
    then show ?thesis by (intro exI[of _ "[]"] exI[of _ h]) simp
  next
    case False
    then obtain a bs where h: "h = a # bs" by (cases h) auto
    from "1.prems"[unfolded h append_Cons] show ?thesis
    proof (cases rule: valid_utf8_cases)
      case 1
      then show ?thesis by (intro whole[of "[a]" bs]) (auto simp: h)
    next
      case (2 b bs')
      then obtain r where "bs = b # r" "bs' = r @ t" using False h by (auto simp: Cons_eq_append_conv append_eq_Cons_conv)
      with 2 show ?thesis by (intro whole[of "[a, b]" r]) (auto simp: h valid_utf8_whole simp del: utf8_decode.simps(2))
    next
      case (3 b c bs')
      then obtain r where "bs = b # c # r" "bs' = r @ t" using False h by (auto simp: append_eq_Cons_conv)
      with 3 show ?thesis by (intro whole[of "[a, b, c]" r]) (auto simp: h valid_utf8_whole simp del: utf8_decode.simps(2) begins_character.simps)
    next
      case (4 b c d bs')
      then obtain r where "bs = b # c # d # r" "bs' = r @ t" using False h by (auto simp: append_eq_Cons_conv)
      with 4 show ?thesis by (intro whole[of "[a, b, c, d]" r]) (auto simp: h valid_utf8_whole simp del: utf8_decode.simps(2) begins_character.simps)
    qed
  qed
qed

lemma valid_utf8_padded:
  "begins_character [a, b] \<Longrightarrow> a < 0xF0 \<Longrightarrow> valid_utf8 [a, b, 0x80]"
  "begins_character [a, b, c] \<Longrightarrow> valid_utf8 [a, b, c, 0x80]"
  by (subst valid_utf8_whole; simp add: continuation_def del: begins_character.simps)+

lemma two_bytes_complete:
  assumes "begins_character [a, b]"
  shows "\<exists>t. valid_utf8 ([a, b] @ t)"
proof (cases "a < 0xF0")
  case True
  then show ?thesis using valid_utf8_padded(1)[OF assms] by (metis append_Cons append_Nil)
next
  case False
  then have "begins_character [a, b, 0x80]" using assms by (auto simp: continuation_def)
  then show ?thesis using valid_utf8_padded(2) by (metis append_Cons append_Nil)
qed

lemma begins_character_completes: "begins_character v \<Longrightarrow> \<exists>t. valid_utf8 (v @ t)"
proof (induction v rule: begins_character.induct)
  case (2 a)
  show ?case
  proof (cases "a < 0xE0")
    case True
    with 2 show ?thesis by (intro exI[of _ "[0x80]"]) (simp add: continuation_def)
  next
    case False
    define b where "b = (if a = 0xE0 then 0xA0 else if a = 0xF0 then 0x90 else (0x80 :: nat))"
    have "begins_character [a, b]" using 2 False by (auto simp: b_def continuation_def)
    then show ?thesis using two_bytes_complete by (metis append_Cons append_Nil)
  qed
next
  case (3 a b)
  then show ?case by (rule two_bytes_complete)
next
  case (4 a b c)
  then show ?case using valid_utf8_padded(2) by (metis append_Cons append_Nil)
qed (auto intro: exI[of _ "[]"])

lemma begins_character_length: "begins_character v \<Longrightarrow> length v < 4"
  by (cases v rule: begins_character.cases) auto

lemma decodes_incrementally_iff: "decodes_incrementally h \<longleftrightarrow> (\<exists>t. valid_utf8 (h @ t))"
proof
  assume "decodes_incrementally h"
  then obtain k where "k \<le> length h" "valid_utf8 (take (length h - k) h)" "begins_character (drop (length h - k) h)"
    by (auto simp: decodes_incrementally_def list_ex_iff)
  then obtain t where "valid_utf8 (take (length h - k) h @ drop (length h - k) h @ t)"
    using begins_character_completes valid_utf8_append by blast
  then show "\<exists>t. valid_utf8 (h @ t)" by (metis append_assoc append_take_drop_id)
next
  assume "\<exists>t. valid_utf8 (h @ t)"
  then obtain u v where "h = u @ v" "valid_utf8 u" "begins_character v" using valid_beginning_split by blast
  moreover from this have "length v < 4" by (blast intro: begins_character_length)
  ultimately show "decodes_incrementally h"
    unfolding decodes_incrementally_def list_ex_iff by (intro bexI[of _ "length v"]) auto
qed


lemma magic_of:
  "dict_get SUPPORTED_TYPES CONTENT_TYPE_TXT = Some \<lparr>st_content_type = CONTENT_TYPE_TXT, st_extensions = [lit ''.txt''], st_magic = []\<rparr>"
  "dict_get SUPPORTED_TYPES CONTENT_TYPE_PDF = Some \<lparr>st_content_type = CONTENT_TYPE_PDF, st_extensions = [lit ''.pdf''], st_magic = [lit ''%PDF-'']\<rparr>"
  "dict_get SUPPORTED_TYPES CONTENT_TYPE_DOCX = Some \<lparr>st_content_type = CONTENT_TYPE_DOCX, st_extensions = [lit ''.docx''],
     st_magic = [[80, 75, 3, 4], [80, 75, 5, 6], [80, 75, 7, 8]]\<rparr>"
  by code_simp+


text \<open>No body passes for two types.\<close>

lemma body_has_one_type:
  assumes "verify_magic a head = Inr ()" "verify_magic b head = Inr ()"
  shows "a = b"
proof -
  have types: "a \<in> {CONTENT_TYPE_TXT, CONTENT_TYPE_PDF, CONTENT_TYPE_DOCX}" if "verify_magic a head = Inr ()" for a
    using that by (auto simp: verify_magic_def SUPPORTED_TYPES_def split: if_splits)
  show ?thesis using types[OF assms(1)] types[OF assms(2)] assms unfolding startswith_iff
    by (auto simp: verify_magic_def magic_of startswith_iff SUPPORTED_TYPES_def split: if_splits)
qed

text \<open>
  A name that is reserved on Windows but for a space before its extension is let through; Windows
  strips the space and opens the device.
\<close>

lemma reserved_name_with_space_accepted:
  "normalize_filename ascii_ucd (lit ''con .txt'') = Inr (lit ''con .txt'')"
proof -
  have reserved: "lit ''con '' \<notin> set RESERVED_WINDOWS_NAMES" by code_simp
  have "hd (split_on 46 (lit ''con .txt'')) = lit ''con ''" by code_simp
  then show ?thesis using reserved
    by (simp add: normalize_filename_def ascii_defs strip_def lstrip_def MAX_FILENAME_CHARS_def BIDI_CONTROLS_def
        posix_name_def windows_name_def)
qed

end
