(* ===== verification/Token_Ids.thy ===== *)
theory Token_Ids
  imports Grammar
begin

text \<open>
  Token identifiers, \<^verbatim>\<open>app/tokenization/ids.py\<close>: 128 random bits as 26 Crockford base-32
  characters. The random bytes of \<open>secrets.token_bytes\<close> are an argument.
\<close>

definition TOKEN_ID_BYTES :: nat where "TOKEN_ID_BYTES = 16"

definition encode_crockford :: "bytes \<Rightarrow> ustr res" where
  "encode_crockford raw =
     (if length raw \<noteq> TOKEN_ID_BYTES then Inl ValueError
      else (let value = dec_be 256 raw
            in Inr (map (\<lambda>shift. CROCKFORD_ALPHABET ! (drop_bit shift value AND 0x1F))
                      (rev (map ((*) 5) [0 ..< TOKEN_ID_LENGTH])))))"

text \<open>\<open>new_token_id\<close>, with the bytes \<open>secrets.token_bytes\<close> returned.\<close>

definition new_token_id :: "bytes \<Rightarrow> ustr res" where
  "new_token_id random_bytes = encode_crockford random_bytes"

definition valid_bytes :: "bytes \<Rightarrow> bool" where
  "valid_bytes b \<longleftrightarrow> (\<forall>x \<in> set b. x < 256)"

lemma length_crockford [simp]: "length CROCKFORD_ALPHABET = 32"
  by (simp add: CROCKFORD_ALPHABET_def)

lemma distinct_crockford: "distinct CROCKFORD_ALPHABET"
  by (simp add: CROCKFORD_ALPHABET_def)

lemma shift_mask: "drop_bit (5 * k) v AND 0x1F = v div 32 ^ k mod 32" for v :: nat
proof -
  have "(0x1F :: nat) = mask 5" by (simp add: mask_eq_exp_minus_1)
  then have "drop_bit (5 * k) v AND 0x1F = take_bit 5 (drop_bit (5 * k) v)"
    by (simp only: take_bit_eq_mask)
  also have "\<dots> = v div 2 ^ (5 * k) mod 2 ^ 5" by (simp only: take_bit_eq_mod drop_bit_eq_div)
  also have "(2 :: nat) ^ (5 * k) = 32 ^ k" by (simp add: power_mult)
  finally show ?thesis by simp
qed

lemma shift_digits:
  "map (\<lambda>shift. drop_bit shift v AND 0x1F) (rev (map ((*) 5) [0 ..< n])) = enc_be 32 n (v :: nat)"
proof (rule nth_equalityI)
  fix i assume "i < length (map (\<lambda>shift. drop_bit shift v AND 0x1F) (rev (map ((*) 5) [0 ..< n])))"
  then have i: "i < n" by simp
  then show "map (\<lambda>shift. drop_bit shift v AND 0x1F) (rev (map ((*) 5) [0 ..< n])) ! i = enc_be 32 n v ! i"
    by (simp add: nth_enc_be rev_nth shift_mask)
qed simp

lemma encode_crockford_digits:
  "length raw = 16 \<Longrightarrow>
     encode_crockford raw = Inr (map ((!) CROCKFORD_ALPHABET) (enc_be 32 26 (dec_be 256 raw)))"
  by (simp add: encode_crockford_def TOKEN_ID_BYTES_def TOKEN_ID_LENGTH_def Let_def
      shift_digits [symmetric] comp_def del: upt_Suc)

lemma encode_crockford_valid: "encode_crockford raw = Inr t \<Longrightarrow> is_valid_token_id t"
proof -
  assume a: "encode_crockford raw = Inr t"
  then have "length raw = 16" by (auto simp: encode_crockford_def TOKEN_ID_BYTES_def split: if_splits)
  with a have "t = map ((!) CROCKFORD_ALPHABET) (enc_be 32 26 (dec_be 256 raw))"
    by (simp add: encode_crockford_digits)
  then show "is_valid_token_id t"
    by (auto simp: is_valid_token_id_def TOKEN_ID_LENGTH_def list_all_iff enc_be_bound)
qed

lemma dec_16_bytes_bound: "length raw = 16 \<Longrightarrow> valid_bytes raw \<Longrightarrow> dec_be 256 raw < 32 ^ 26"
proof -
  assume a: "length raw = 16" "valid_bytes raw"
  then have "dec_be 256 raw < 256 ^ 16" using dec_be_bound[of raw 256] by (simp only: valid_bytes_def)
  also have "(256 :: nat) ^ 16 < 32 ^ 26" by simp
  finally show ?thesis .
qed

lemma enc_dec_256: "length raw = 16 \<Longrightarrow> valid_bytes raw \<Longrightarrow> enc_be 256 16 (dec_be 256 raw) = raw"
  using enc_dec_be[of raw 256] by (simp only: valid_bytes_def)

lemma encode_crockford_inj:
  assumes "length raw = 16" "length raw' = 16" "valid_bytes raw" "valid_bytes raw'"
  shows "(\<exists>t. encode_crockford raw = Inr t \<and> is_valid_token_id t)
    \<and> (encode_crockford raw = encode_crockford raw' \<longleftrightarrow> raw = raw')"
proof (intro conjI iffI)
  show "\<exists>t. encode_crockford raw = Inr t \<and> is_valid_token_id t"
    using encode_crockford_valid encode_crockford_digits[OF assms(1)] by blast
next
  assume e: "encode_crockford raw = encode_crockford raw'"
  let ?v = "dec_be 256 raw" and ?v' = "dec_be 256 raw'"
  have b: "?v < 32 ^ 26" "?v' < 32 ^ 26"
    using dec_16_bytes_bound assms by blast+
  have "inj_on ((!) CROCKFORD_ALPHABET) {..<32}"
    using distinct_crockford inj_on_nth[of CROCKFORD_ALPHABET "{..<32}"] by auto
  moreover have "set (enc_be 32 26 ?v) \<union> set (enc_be 32 26 ?v') \<subseteq> {..<32}"
    by (auto simp: enc_be_bound)
  ultimately have inj: "inj_on ((!) CROCKFORD_ALPHABET) (set (enc_be 32 26 ?v) \<union> set (enc_be 32 26 ?v'))"
    by (rule inj_on_subset)
  have "map ((!) CROCKFORD_ALPHABET) (enc_be 32 26 ?v) = map ((!) CROCKFORD_ALPHABET) (enc_be 32 26 ?v')"
    using e assms by (simp add: encode_crockford_digits)
  then have "enc_be 32 26 ?v = enc_be 32 26 ?v'" using inj by (rule map_inj_on)
  then have "?v = ?v'" by (rule enc_be_inj[OF zero_less_numeral b])
  then show "raw = raw'"
    using enc_dec_256[OF assms(1,3)] enc_dec_256[OF assms(2,4)] by metis
qed simp

text \<open>
  Every 16-byte value is encoded as a valid token identifier, and no two of them as the
  same one: the 26 characters keep all 128 bits. Any other length is refused.
\<close>

theorem encode_crockford_injective:
  assumes "length raw = 16" "length raw' = 16" "valid_bytes raw" "valid_bytes raw'"
  shows "(\<exists>t. encode_crockford raw = Inr t \<and> is_valid_token_id t)
    \<and> (encode_crockford raw = encode_crockford raw' \<longleftrightarrow> raw = raw')"
  using encode_crockford_inj[OF assms] .

theorem encode_crockford_injective_witness:
  "(\<exists>t. encode_crockford (replicate 16 7) = Inr t \<and> is_valid_token_id t)
   \<and> (encode_crockford (replicate 16 7) = encode_crockford (replicate 16 8)
        \<longleftrightarrow> replicate 16 7 = replicate 16 (8::nat))"
  by (rule encode_crockford_injective) (simp_all add: valid_bytes_def)

end
