(* ===== verification/Document_Service.thy ===== *)
theory Document_Service
  imports Document_Store Document_Validation Database Token_Ids Fingerprint
begin

text \<open>
  Secure document storage: the metadata repository (\<^verbatim>\<open>app/documents/repository.py\<close>, with the table of
  \<^verbatim>\<open>app/db/models.py\<close>) and the service over it and the object store (\<^verbatim>\<open>app/documents/service.py\<close>).
  The state is that of the database and that of the store. What the service draws at random
  (identifiers, salts, nonces) and the clock are arguments; log lines are left out.
\<close>

section \<open>The repository\<close>

record document_row =
  rw_id :: uuid
  rw_tenant_id :: uuid
  rw_user_id :: uuid
  rw_storage_key :: ustr
  rw_filename_ciphertext :: bytes
  rw_content_type :: ustr
  rw_byte_size :: nat
  rw_sha256_hex :: ustr
  rw_status :: ustr
  rw_created_at :: int
  rw_updated_at :: int

type_synonym 's document_table = "('s, document_row) table_ops"

text \<open>The triple every method takes and every statement is scoped by.\<close>

record document_key =
  dk_document_id :: uuid
  dk_tenant_id :: uuid
  dk_user_id :: uuid

definition owned :: "document_key \<Rightarrow> document_row \<Rightarrow> bool" where
  "owned k r \<longleftrightarrow> rw_id r = dk_document_id k \<and> rw_tenant_id r = dk_tenant_id k \<and> rw_user_id r = dk_user_id k"

definition new_document :: "int \<Rightarrow> document_key \<Rightarrow> ustr \<Rightarrow> bytes \<Rightarrow> ustr \<Rightarrow> document_status \<Rightarrow> document_row" where
  "new_document now k storage_key filename_ciphertext content_type status =
     \<lparr>rw_id = dk_document_id k, rw_tenant_id = dk_tenant_id k, rw_user_id = dk_user_id k,
      rw_storage_key = storage_key, rw_filename_ciphertext = filename_ciphertext, rw_content_type = content_type,
      rw_byte_size = 0, rw_sha256_hex = [], rw_status = document_status_value status,
      rw_created_at = now, rw_updated_at = now\<rparr>"

definition document_create :: "'s document_table \<Rightarrow> int \<Rightarrow> document_key \<Rightarrow> ustr \<Rightarrow> bytes \<Rightarrow> ustr \<Rightarrow> document_status \<Rightarrow>
    ('s, document_row) op" where
  "document_create tb now k storage_key filename_ciphertext content_type status =
     (let document = new_document now k storage_key filename_ciphertext content_type status
      in bindS (tb_insert tb document) (\<lambda>_. liftS (Inr document)))"

definition document_get :: "'s document_table \<Rightarrow> document_key \<Rightarrow> ('s, document_row option) op" where
  "document_get tb k = select_one tb (owned k)"

text \<open>\<open>updated_at\<close> is set by every update, as the column declares.\<close>

definition mark_stored :: "'s document_table \<Rightarrow> int \<Rightarrow> document_key \<Rightarrow> nat \<Rightarrow> ustr \<Rightarrow> ('s, document_row option) op" where
  "mark_stored tb now k byte_size sha256_hex =
     bindS (tb_update tb (owned k) (\<lambda>r. r\<lparr>rw_byte_size := byte_size, rw_sha256_hex := sha256_hex,
              rw_status := document_status_value STORED, rw_updated_at := now\<rparr>))
       (\<lambda>_. document_get tb k)"

definition mark_failed :: "'s document_table \<Rightarrow> int \<Rightarrow> document_key \<Rightarrow> ('s, unit) op" where
  "mark_failed tb now k =
     tb_update tb (owned k) (\<lambda>r. r\<lparr>rw_status := document_status_value FAILED, rw_updated_at := now\<rparr>)"

text \<open>The row count of the statement is that of the rows it matched.\<close>

definition document_delete :: "'s document_table \<Rightarrow> ('s \<Rightarrow> document_row list) \<Rightarrow> document_key \<Rightarrow> ('s, bool) op" where
  "document_delete tb rows k s =
     (case tb_delete tb (owned k) s of
        (Inl e, s') \<Rightarrow> (Inl e, s')
      | (Inr _, s') \<Rightarrow> (Inr (filter (owned k) (rows s) \<noteq> []), s'))"

section \<open>Sessions\<close>

text \<open>
  A session scope runs its statements in one transaction: leaving it with an exception rolls the
  transaction back, and a commit may fail. Both are the database's, so they are arguments.
\<close>

record 's database =
  db_table :: "'s document_table"
  db_rows :: "'s \<Rightarrow> document_row list"
  db_commit :: "('s, unit) op"
  db_rollback :: "'s \<Rightarrow> 's \<Rightarrow> 's"

definition database_laws :: "'s database \<Rightarrow> bool" where
  "database_laws D \<longleftrightarrow> table_laws (db_table D) (db_rows D)
     \<and> (\<forall>s r s'. db_commit D s = (r, s') \<longrightarrow> db_rows D s' = db_rows D s)
     \<and> (\<forall>s s'. db_rows D (db_rollback D s s') = db_rows D s)"

definition session_scope :: "'s database \<Rightarrow> ('s, 'a) op \<Rightarrow> ('s, 'a) op" where
  "session_scope D body s =
     (case body s of (Inl e, s') \<Rightarrow> (Inl e, db_rollback D s s') | (Inr x, s') \<Rightarrow> (Inr x, s'))"

definition committed :: "'s database \<Rightarrow> ('s, 'a) op \<Rightarrow> ('s, 'a) op" where
  "committed D body = session_scope D (bindS body (\<lambda>x. bindS (db_commit D) (\<lambda>_. liftS (Inr x))))"

section \<open>Documents\<close>

record document_metadata =
  dm_id :: uuid
  dm_tenant_id :: uuid
  dm_user_id :: uuid
  dm_storage_key :: ustr
  dm_content_type :: ustr
  dm_byte_size :: nat
  dm_sha256_hex :: ustr
  dm_status :: document_status
  dm_created_at :: int
  dm_updated_at :: int

record stored_document =
  so_metadata :: document_metadata
  so_filename :: ustr

definition mk_document_status :: "ustr \<Rightarrow> document_status res" where
  "mk_document_status value =
     (case filter (\<lambda>d. document_status_value d = value) [RECEIVING, STORED, FAILED] of
        [] \<Rightarrow> Inl ValueError | d # _ \<Rightarrow> Inr d)"

definition to_metadata :: "document_row \<Rightarrow> document_metadata res" where
  "to_metadata row =
     bindR (mk_document_status (rw_status row)) (\<lambda>status.
       Inr \<lparr>dm_id = rw_id row, dm_tenant_id = rw_tenant_id row, dm_user_id = rw_user_id row,
         dm_storage_key = rw_storage_key row, dm_content_type = rw_content_type row, dm_byte_size = rw_byte_size row,
         dm_sha256_hex = rw_sha256_hex row, dm_status = status, dm_created_at = rw_created_at row,
         dm_updated_at = rw_updated_at row\<rparr>)"

section \<open>The service\<close>

definition STORAGE_KEY_PREFIX :: ustr where "STORAGE_KEY_PREFIX = lit ''documents/''"
definition OPAQUE_OBJECT_CONTENT_TYPE :: ustr where "OPAQUE_OBJECT_CONTENT_TYPE = lit ''application/octet-stream''"

record ('s, 'o) document_service =
  dv_store :: "'o document_store_ops"
  dv_cipher :: document_cipher
  dv_database :: "'s database"
  dv_max_bytes :: int
  dv_ucd :: ucd
  dv_sha256 :: "bytes \<Rightarrow> bytes"

record ('s, 'o) document_state =
  dx_database :: 's
  dx_objects :: 'o

definition on_database :: "('s, 'a) op \<Rightarrow> (('s, 'o) document_state, 'a) op" where
  "on_database f w = (case f (dx_database w) of (r, s) \<Rightarrow> (r, w\<lparr>dx_database := s\<rparr>))"

definition on_objects :: "('o, 'a) op \<Rightarrow> (('s, 'o) document_state, 'a) op" where
  "on_objects f w = (case f (dx_objects w) of (r, o') \<Rightarrow> (r, w\<lparr>dx_objects := o'\<rparr>))"

text \<open>What one upload draws: identifiers, salts, nonces and the readings of the clock.\<close>

record upload_entropy =
  ue_document_id :: uuid
  ue_token_bytes :: bytes
  ue_name_salt :: bytes
  ue_name_nonce :: bytes
  ue_salt :: bytes
  ue_nonces :: "nat \<Rightarrow> bytes"
  ue_created :: int
  ue_updated :: int

record upload =
  up_tenant_id :: uuid
  up_user_id :: uuid
  up_filename :: ustr
  up_declared_content_type :: "ustr option"
  up_declared_length :: "int option"
  up_source :: "bytes gen"

text \<open>
  \<open>_measure\<close>: the stream that is sealed, and what the counter and the digest have seen when it
  ends. \<open>head\<close>, \<open>checked\<close>, the total and the bytes fed to the digest are its variables.
\<close>

fun measure_loop :: "int \<Rightarrow> ustr \<Rightarrow> bytes \<Rightarrow> bool \<Rightarrow> nat \<Rightarrow> bytes \<Rightarrow> bytes list \<Rightarrow> exn option \<Rightarrow> bytes gen \<times> nat \<times> bytes" where
  "measure_loop limit content_type head checked received digest [] err =
     (case err of
        Some e \<Rightarrow> gen_fail e
      | None \<Rightarrow>
          if received = 0 then gen_fail (invalid_document ''document_empty'')
          else if \<not> checked then gen_try (verify_magic content_type head) (\<lambda>_. gen_done)
          else gen_done, received, digest)"
| "measure_loop limit content_type head checked received digest (block # blocks) err =
     (let received = received + length block in
      case enforce_streamed_length received limit of
        Inl e \<Rightarrow> (gen_fail e, received, digest)
      | Inr _ \<Rightarrow>
          (let digest = digest @ block; head = (if checked then head else head @ block);
               check = (\<not> checked \<and> MAGIC_SNIFF_BYTES \<le> length head) in
           case (if check then verify_magic content_type head else Inr ()) of
             Inl e \<Rightarrow> (gen_fail e, received, digest)
           | Inr _ \<Rightarrow> (case measure_loop limit content_type head (checked \<or> check) received digest blocks err of
                 (g, seen) \<Rightarrow> (gen_emit block g, seen))))"

definition measure_upload :: "int \<Rightarrow> ustr \<Rightarrow> bytes gen \<Rightarrow> bytes gen \<times> nat \<times> bytes" where
  "measure_upload limit content_type source = measure_loop limit content_type [] False 0 [] (fst source) (snd source)"

text \<open>\<open>_abandon\<close>: neither failure of the cleanup replaces the exception being raised.\<close>

definition suppressed :: "('s, unit) op \<Rightarrow> ('s, unit) op" where
  "suppressed m = catchS m (\<lambda>_. Some (liftS (Inr ())))"

definition abandon :: "('s, 'o) document_service \<Rightarrow> int \<Rightarrow> document_key \<Rightarrow> ustr \<Rightarrow> (('s, 'o) document_state, unit) op" where
  "abandon V now k storage_key =
     bindS (suppressed (on_objects (ds_delete (dv_store V) storage_key))) (\<lambda>_.
     suppressed (on_database (committed (dv_database V) (mark_failed (db_table (dv_database V)) now k))))"

definition identity_of :: "document_key \<Rightarrow> ustr \<Rightarrow> document_identity" where
  "identity_of k content_type =
     \<lparr>di_tenant_id = dk_tenant_id k, di_user_id = dk_user_id k, di_document_id = dk_document_id k,
      di_content_type = content_type, di_schema_version = DOCUMENT_FORMAT_VERSION\<rparr>"

definition put_document :: "('s, 'o) document_service \<Rightarrow> upload_entropy \<Rightarrow> document_key \<Rightarrow> ustr \<Rightarrow> ustr \<Rightarrow> bytes gen \<Rightarrow>
    (('s, 'o) document_state, unit) op" where
  "put_document V E k storage_key content_type measured =
     catchS (bindS (on_objects (ds_put (dv_store V) storage_key
                (seal_stream (dv_cipher V) (ue_salt E) (ue_nonces E) (identity_of k content_type) measured)
                (Some OPAQUE_OBJECT_CONTENT_TYPE)))
              (\<lambda>_. liftS (Inr ())))
       (\<lambda>e. Some (bindS (abandon V (ue_updated E) k storage_key) (\<lambda>_. liftS (Inl e))))"

text \<open>The last step of \<open>store\<close>: the row becomes \<open>stored\<close>.\<close>

definition record_stored :: "('s, 'o) document_service \<Rightarrow> int \<Rightarrow> document_key \<Rightarrow> ustr \<Rightarrow> nat \<Rightarrow> bytes \<Rightarrow>
    (('s, 'o) document_state, stored_document) op" where
  "record_stored V now k safe_name received digest =
     bindS (on_database (committed (dv_database V)
              (mark_stored (db_table (dv_database V)) now k received (hexdigest (dv_sha256 V digest))))) (\<lambda>found.
       case found of
         None \<Rightarrow> liftS (Inl (GatewayError DOCUMENT_NOT_FOUND ''row_vanished_during_upload''))
       | Some row \<Rightarrow> liftS (bindR (to_metadata row) (\<lambda>m. Inr \<lparr>so_metadata = m, so_filename = safe_name\<rparr>)))"

definition key_of_upload :: "upload_entropy \<Rightarrow> upload \<Rightarrow> document_key" where
  "key_of_upload E u = \<lparr>dk_document_id = ue_document_id E, dk_tenant_id = up_tenant_id u, dk_user_id = up_user_id u\<rparr>"

definition seal_filename :: "('s, 'o) document_service \<Rightarrow> upload_entropy \<Rightarrow> document_identity \<Rightarrow> ustr \<Rightarrow> bytes res" where
  "seal_filename V E d safe_name =
     bindR (utf8_encode safe_name) (seal_bytes (dv_cipher V) (ue_name_salt E) (ue_name_nonce E) d PURPOSE_FILENAME)"

definition store_document :: "('s, 'o) document_service \<Rightarrow> upload_entropy \<Rightarrow> upload \<Rightarrow> (('s, 'o) document_state, stored_document) op" where
  "store_document V E u =
     bindS (liftS (normalize_filename (dv_ucd V) (up_filename u))) (\<lambda>safe_name.
     bindS (liftS (resolve_content_type (dv_ucd V) safe_name (up_declared_content_type u))) (\<lambda>content_type.
     bindS (liftS (enforce_declared_length (up_declared_length u) (dv_max_bytes V))) (\<lambda>_.
     bindS (liftS (new_token_id (ue_token_bytes E))) (\<lambda>token_id.
     let k = key_of_upload E u; storage_key = STORAGE_KEY_PREFIX @ token_id;
         (measured, received, digest) = measure_upload (dv_max_bytes V) content_type (up_source u) in
     bindS (liftS (seal_filename V E (identity_of k content_type) safe_name)) (\<lambda>filename_ciphertext.
     bindS (on_database (committed (dv_database V) (document_create (db_table (dv_database V)) (ue_created E) k
              storage_key filename_ciphertext content_type RECEIVING))) (\<lambda>_.
     bindS (put_document V E k storage_key content_type measured) (\<lambda>_.
     record_stored V (ue_updated E) k safe_name received digest)))))))"

definition find_document :: "('s, 'o) document_service \<Rightarrow> document_key \<Rightarrow> (('s, 'o) document_state, document_row option) op" where
  "find_document V k = on_database (session_scope (dv_database V) (document_get (db_table (dv_database V)) k))"

definition delete_document :: "('s, 'o) document_service \<Rightarrow> document_key \<Rightarrow> (('s, 'o) document_state, bool) op" where
  "delete_document V k =
     bindS (find_document V k) (\<lambda>row.
       case row of
         None \<Rightarrow> liftS (Inr False)
       | Some row \<Rightarrow>
           bindS (on_objects (ds_delete (dv_store V) (rw_storage_key row))) (\<lambda>_.
           on_database (committed (dv_database V)
             (document_delete (db_table (dv_database V)) (db_rows (dv_database V)) k))))"

definition document_status_of :: "('s, 'o) document_service \<Rightarrow> document_key \<Rightarrow> (('s, 'o) document_state, document_metadata) op" where
  "document_status_of V k =
     bindS (find_document V k) (\<lambda>row.
       case row of
         None \<Rightarrow> liftS (Inl (GatewayError DOCUMENT_NOT_FOUND ''no_such_document''))
       | Some row \<Rightarrow> liftS (to_metadata row))"

text \<open>\<open>_read\<close>: the plaintext as it opens, and the checksum as the last act.\<close>

definition read_document :: "('s, 'o) document_service \<Rightarrow> document_identity \<Rightarrow> document_metadata \<Rightarrow> ustr \<Rightarrow>
    ('s, 'o) document_state \<Rightarrow> bytes gen \<times> ('s, 'o) document_state" where
  "read_document V d m storage_key w =
     (case ds_get (dv_store V) storage_key (dx_objects w) of
        (ciphertext, o') \<Rightarrow>
          (case open_stream (dv_cipher V) d ciphertext of
             (blocks, Some e) \<Rightarrow> ((blocks, Some e), w\<lparr>dx_objects := o'\<rparr>)
           | (blocks, None) \<Rightarrow>
               ((blocks, if length (concat blocks) \<noteq> dm_byte_size m
                            \<or> hexdigest (dv_sha256 V (concat blocks)) \<noteq> dm_sha256_hex m
                         then Some (GatewayError DOCUMENT_ENCRYPTION_FAILED ''checksum_mismatch'') else None),
                w\<lparr>dx_objects := o'\<rparr>)))"

definition open_document :: "('s, 'o) document_service \<Rightarrow> document_key \<Rightarrow>
    (('s, 'o) document_state, stored_document \<times> (('s, 'o) document_state \<Rightarrow> bytes gen \<times> ('s, 'o) document_state)) op" where
  "open_document V k =
     bindS (find_document V k) (\<lambda>row.
       case row of
         None \<Rightarrow> liftS (Inl (GatewayError DOCUMENT_NOT_FOUND ''no_such_document''))
       | Some row \<Rightarrow>
           bindS (liftS (to_metadata row)) (\<lambda>m.
             if dm_status m \<noteq> STORED then liftS (Inl (GatewayError DOCUMENT_NOT_FOUND ''document_not_stored''))
             else let d = identity_of k (dm_content_type m) in
               bindS (liftS (bindR (open_bytes (dv_cipher V) d PURPOSE_FILENAME (rw_filename_ciphertext row)) utf8_decode))
                 (\<lambda>filename. liftS (Inr (\<lparr>so_metadata = m, so_filename = filename\<rparr>,
                    read_document V d m (rw_storage_key row))))))"

definition service_health :: "('s, 'o) document_service \<Rightarrow> (('s, 'o) document_state, unit) op" where
  "service_health V = on_objects (ds_health (dv_store V))"


section \<open>What a session leaves\<close>

lemma table_laws_of: "database_laws D \<Longrightarrow> table_laws (db_table D) (db_rows D)"
  by (simp add: database_laws_def)

lemma session_scope_rows:
  assumes "database_laws D" "session_scope D m s = (r, s')"
  shows "isl r \<Longrightarrow> db_rows D s' = db_rows D s" "r = Inr x \<Longrightarrow> m s = (Inr x, s')"
  using assms by (auto simp: session_scope_def database_laws_def split: prod.splits sum.splits)

lemma committed_rows:
  assumes "database_laws D" "committed D m s = (r, s')"
  shows "isl r \<Longrightarrow> db_rows D s' = db_rows D s"
    and "r = Inr x \<Longrightarrow> \<exists>s1. m s = (Inr x, s1) \<and> db_rows D s' = db_rows D s1"
proof -
  show "isl r \<Longrightarrow> db_rows D s' = db_rows D s" using session_scope_rows(1)[OF assms(1)] assms(2) by (auto simp: committed_def)
  assume "r = Inr x"
  from session_scope_rows(2)[OF assms(1) assms(2)[unfolded committed_def] this] obtain s1 u where
    "m s = (Inr x, s1)" "db_commit D s1 = (Inr u, s')"
    by (auto simp: bindS_Inr liftS_def)
  then show "\<exists>s1. m s = (Inr x, s1) \<and> db_rows D s' = db_rows D s1" using assms(1) by (auto simp: database_laws_def)
qed

lemma find_document_rows:
  assumes "database_laws (dv_database V)" "find_document V k w = (r, w')"
  shows "db_rows (dv_database V) (dx_database w') = db_rows (dv_database V) (dx_database w)" "dx_objects w' = dx_objects w"
    and "r = Inr (Some row) \<Longrightarrow> filter (owned k) (db_rows (dv_database V) (dx_database w)) = [row]"
    and "r = Inr None \<Longrightarrow> filter (owned k) (db_rows (dv_database V) (dx_database w)) = []"
proof -
  obtain s' where s: "session_scope (dv_database V) (document_get (db_table (dv_database V)) k) (dx_database w) = (r, s')"
    and w': "w' = w\<lparr>dx_database := s'\<rparr>"
    using assms(2) by (auto simp: find_document_def on_database_def split: prod.splits)
  note sc = session_scope_rows[OF assms(1) s]
  note sel = select_one_rows[OF table_laws_of[OF assms(1)], of "owned k" "dx_database w"]
  show "dx_objects w' = dx_objects w" by (simp add: w')
  show "db_rows (dv_database V) (dx_database w') = db_rows (dv_database V) (dx_database w)"
    using sc sel(1) by (cases r) (auto simp: w' document_get_def)
  show "r = Inr (Some row) \<Longrightarrow> filter (owned k) (db_rows (dv_database V) (dx_database w)) = [row]"
    "r = Inr None \<Longrightarrow> filter (owned k) (db_rows (dv_database V) (dx_database w)) = []"
    using sc(2) sel(2,3) by (auto simp: document_get_def)
qed

text \<open>The rows of everyone but one principal.\<close>

definition rows_of_others :: "uuid \<Rightarrow> uuid \<Rightarrow> document_row list \<Rightarrow> document_row list" where
  "rows_of_others tenant_id user_id = filter (\<lambda>r. \<not> (rw_tenant_id r = tenant_id \<and> rw_user_id r = user_id))"

lemma rows_of_others_update:
  assumes "\<And>r. owned k r \<Longrightarrow> rw_tenant_id (f r) = rw_tenant_id r \<and> rw_user_id (f r) = rw_user_id r"
  shows "rows_of_others (dk_tenant_id k) (dk_user_id k) (update_where (owned k) f rs) = rows_of_others (dk_tenant_id k) (dk_user_id k) rs"
  using assms by (induction rs) (auto simp: rows_of_others_def update_where_def owned_def)

lemma rows_of_others_delete:
  "rows_of_others (dk_tenant_id k) (dk_user_id k) (filter (\<lambda>r. \<not> owned k r) rs) = rows_of_others (dk_tenant_id k) (dk_user_id k) rs"
  by (auto simp: rows_of_others_def owned_def intro!: filter_cong)

lemma document_create_rows:
  assumes "table_laws tb rows" "document_create tb now k key c t status s = (r, s')"
  shows "r = Inr row \<Longrightarrow> row = new_document now k key c t status \<and> rows s' = rows s @ [row]"
    and "isl r \<Longrightarrow> rows s' = rows s"
  using assms(2) table_insert[OF assms(1), of "new_document now k key c t status" s]
  by (auto simp: document_create_def Let_def bindS_def liftS_def split: prod.splits sum.splits)

lemma rows_of_others_append:
  "owned k row \<Longrightarrow> rows_of_others (dk_tenant_id k) (dk_user_id k) (rs @ [row]) = rows_of_others (dk_tenant_id k) (dk_user_id k) rs"
  by (simp add: rows_of_others_def owned_def)

lemma new_document_owned [simp]: "owned k (new_document now k key c t status)"
  by (simp add: owned_def new_document_def)

lemma mark_stored_rows:
  assumes "table_laws tb rows" "mark_stored tb now k n h s = (Inr found, s')"
  shows "rows s' = update_where (owned k) (\<lambda>r. r\<lparr>rw_byte_size := n, rw_sha256_hex := h,
      rw_status := document_status_value STORED, rw_updated_at := now\<rparr>) (rows s)"
    and "found = Some row \<Longrightarrow> filter (owned k) (rows s') = [row]"
proof -
  obtain s1 where up: "tb_update tb (owned k) (\<lambda>r. r\<lparr>rw_byte_size := n, rw_sha256_hex := h,
      rw_status := document_status_value STORED, rw_updated_at := now\<rparr>) s = (Inr (), s1)" "document_get tb k s1 = (Inr found, s')"
    using assms(2) by (auto simp: mark_stored_def bindS_Inr)
  note sel = select_one_rows[OF assms(1) up(2)[unfolded document_get_def]]
  show "rows s' = update_where (owned k) (\<lambda>r. r\<lparr>rw_byte_size := n, rw_sha256_hex := h,
      rw_status := document_status_value STORED, rw_updated_at := now\<rparr>) (rows s)"
    using sel(1) table_update[OF assms(1) up(1)] by simp
  show "found = Some row \<Longrightarrow> filter (owned k) (rows s') = [row]" using sel by simp
qed


section \<open>One principal's requests\<close>

lemma on_database_eq: "on_database f w = (r, w') \<longleftrightarrow> (\<exists>s. f (dx_database w) = (r, s) \<and> w' = w\<lparr>dx_database := s\<rparr>)"
  by (auto simp: on_database_def split: prod.splits)

lemma on_objects_eq: "on_objects f w = (r, w') \<longleftrightarrow> (\<exists>o'. f (dx_objects w) = (r, o') \<and> w' = w\<lparr>dx_objects := o'\<rparr>)"
  by (auto simp: on_objects_def split: prod.splits)

text \<open>
  What an operation of the principal of \<open>k\<close> may change: only rows of that principal, and only
  objects under the keys of a set.
\<close>

definition keeps_others :: "('s, 'o) document_service \<Rightarrow> ('o \<Rightarrow> ustr \<Rightarrow> bytes option) \<Rightarrow> document_key \<Rightarrow> ustr set \<Rightarrow>
    ('s, 'o) document_state \<Rightarrow> ('s, 'o) document_state \<Rightarrow> bool" where
  "keeps_others V blob k keys w w' \<longleftrightarrow>
     rows_of_others (dk_tenant_id k) (dk_user_id k) (db_rows (dv_database V) (dx_database w'))
       = rows_of_others (dk_tenant_id k) (dk_user_id k) (db_rows (dv_database V) (dx_database w))
     \<and> (\<forall>key. key \<notin> keys \<longrightarrow> blob (dx_objects w') key = blob (dx_objects w) key)"

lemma keeps_others_refl [simp]: "keeps_others V blob k keys w w"
  by (simp add: keeps_others_def)

lemma keeps_others_trans: "keeps_others V blob k keys w w1 \<Longrightarrow> keeps_others V blob k keys w1 w2 \<Longrightarrow> keeps_others V blob k keys w w2"
  by (simp add: keeps_others_def)

definition keeping :: "('s, 'o) document_service \<Rightarrow> ('o \<Rightarrow> ustr \<Rightarrow> bytes option) \<Rightarrow> document_key \<Rightarrow> ustr set \<Rightarrow>
    (('s, 'o) document_state, 'a) op \<Rightarrow> bool" where
  "keeping V blob k keys m \<longleftrightarrow> (\<forall>w r w'. m w = (r, w') \<longrightarrow> keeps_others V blob k keys w w')"

lemma keeping_lift [intro, simp]: "keeping V blob k keys (liftS r)"
  by (auto simp: keeping_def liftS_def)

lemma keeping_bind [intro]:
  assumes "keeping V blob k keys m" "\<And>x. keeping V blob k keys (f x)"
  shows "keeping V blob k keys (bindS m f)"
  unfolding keeping_def
proof (intro allI impI)
  fix w r w' assume "bindS m f w = (r, w')"
  then consider e where "m w = (Inl e, w')" | x w1 where "m w = (Inr x, w1)" "f x w1 = (r, w')"
    by (auto simp: bindS_def split: prod.splits sum.splits)
  then show "keeps_others V blob k keys w w'"
    by cases (use assms keeps_others_trans in \<open>unfold keeping_def, blast+\<close>)
qed

lemma bindS_value: "bindS (liftS (Inr x)) f = f x"
  by (rule ext) simp

lemma keeping_catch [intro]:
  assumes "keeping V blob k keys m" "\<And>e h. handler e = Some h \<Longrightarrow> keeping V blob k keys h"
  shows "keeping V blob k keys (catchS m handler)"
  using assms unfolding keeping_def catchS_def
  by (auto split: prod.splits sum.splits option.splits intro: keeps_others_trans) (meson keeps_others_trans)

lemma keeping_suppressed [intro]: "keeping V blob k keys m \<Longrightarrow> keeping V blob k keys (suppressed m)"
  unfolding suppressed_def by (rule keeping_catch) auto

lemma keeping_delete_object:
  assumes "document_store (dv_store V) blob"
  shows "keeping V blob k {key} (on_objects (ds_delete (dv_store V) key))"
  by (auto simp: keeping_def on_objects_eq keeps_others_def dest: document_store.delete_other[OF assms])

lemma keeping_put_object:
  assumes "document_store (dv_store V) blob"
  shows "keeping V blob k {key} (on_objects (ds_put (dv_store V) key chunks ct))"
  by (auto simp: keeping_def on_objects_eq keeps_others_def dest: document_store.put_other[OF assms])

lemma keeping_committed:
  fixes V :: "('s, 'o) document_service"
  assumes "database_laws (dv_database V)"
    "\<And>s x s'. body s = (Inr x, s') \<Longrightarrow> rows_of_others (dk_tenant_id k) (dk_user_id k) (db_rows (dv_database V) s')
        = rows_of_others (dk_tenant_id k) (dk_user_id k) (db_rows (dv_database V) s)"
  shows "keeping V blob k keys (on_database (committed (dv_database V) body))"
  unfolding keeping_def on_database_eq
proof (intro allI impI, elim exE conjE)
  fix w w' :: "('s, 'o) document_state" and r s
  assume "committed (dv_database V) body (dx_database w) = (r, s)" "w' = w\<lparr>dx_database := s\<rparr>"
  then show "keeps_others V blob k keys w w'"
    using committed_rows[OF assms(1), of body "dx_database w" r s] assms(2)
    by (cases r) (fastforce simp: keeps_others_def)+
qed

lemma keeping_find:
  "database_laws (dv_database V) \<Longrightarrow> keeping V blob k keys (find_document V k)"
  using find_document_rows(1,2) by (fastforce simp: keeping_def keeps_others_def)

lemma keeping_abandon:
  assumes "document_store (dv_store V) blob" "database_laws (dv_database V)"
  shows "keeping V blob k {key} (abandon V now k key)"
  unfolding abandon_def
proof (intro keeping_bind keeping_suppressed keeping_delete_object[OF assms(1)] keeping_committed[OF assms(2)])
  fix s x s' assume "mark_failed (db_table (dv_database V)) now k s = (Inr x, s')"
  from table_update[OF table_laws_of[OF assms(2)] this[unfolded mark_failed_def]]
  show "rows_of_others (dk_tenant_id k) (dk_user_id k) (db_rows (dv_database V) s') = rows_of_others (dk_tenant_id k) (dk_user_id k) (db_rows (dv_database V) s)"
    by (simp add: rows_of_others_update)
qed

lemma keeping_store:
  assumes "document_store (dv_store V) blob" "database_laws (dv_database V)" "new_token_id (ue_token_bytes E) = Inr t"
  shows "keeping V blob (key_of_upload E u) {STORAGE_KEY_PREFIX @ t} (store_document V E u)"
proof -
  note laws = table_laws_of[OF assms(2)]
  have create: "keeping V blob k keys (on_database (committed (dv_database V) (document_create (db_table (dv_database V)) now k key c ct st)))"
    for now k keys key c ct st
    by (rule keeping_committed[OF assms(2)])
      (auto dest!: document_create_rows(1)[OF laws, OF _ refl] simp: rows_of_others_append)
  have stored: "keeping V blob k keys (on_database (committed (dv_database V) (mark_stored (db_table (dv_database V)) now k n h)))"
    for now k keys n h
    by (rule keeping_committed[OF assms(2)])
      (auto dest!: mark_stored_rows(1)[OF laws] simp: rows_of_others_update)
  have recorded: "keeping V blob k keys (record_stored V now k name n d)" for now k keys name n d
    unfolding record_stored_def by (intro keeping_bind stored) (auto split: option.splits)
  have put: "keeping V blob k {key} (put_document V E k key ct m)" for k key ct m
    unfolding put_document_def
    by (intro keeping_catch keeping_bind keeping_put_object[OF assms(1)])
      (auto intro!: keeping_bind keeping_abandon[OF assms(1,2)])
  show ?thesis
    unfolding store_document_def assms(3) bindS_value Let_def
    by (intro keeping_bind) (auto intro!: keeping_bind create put recorded split: prod.splits)
qed

lemma keeping_delete:
  assumes "document_store (dv_store V) blob" "database_laws (dv_database V)" "delete_document V k w = (r, w')"
  shows "keeps_others V blob k (rw_storage_key ` set (filter (owned k) (db_rows (dv_database V) (dx_database w)))) w w'"
proof -
  obtain r1 w1 where f: "find_document V k w = (r1, w1)" by fastforce
  note found = find_document_rows[OF assms(2) f]
  have w1: "keeps_others V blob k keys w w1" for keys using keeping_find[OF assms(2)] f by (auto simp: keeping_def)
  have drop: "keeping V blob k keys (on_database (committed (dv_database V)
      (document_delete (db_table (dv_database V)) (db_rows (dv_database V)) k)))" for keys
  proof (rule keeping_committed[OF assms(2)])
    fix s x s' assume "document_delete (db_table (dv_database V)) (db_rows (dv_database V)) k s = (Inr x, s')"
    then obtain u where "tb_delete (db_table (dv_database V)) (owned k) s = (Inr u, s')"
      by (auto simp: document_delete_def split: prod.splits sum.splits)
    from table_delete[OF table_laws_of[OF assms(2)] this]
    show "rows_of_others (dk_tenant_id k) (dk_user_id k) (db_rows (dv_database V) s') = rows_of_others (dk_tenant_id k) (dk_user_id k) (db_rows (dv_database V) s)"
      by (simp add: rows_of_others_delete)
  qed
  show ?thesis
  proof (cases "\<exists>row. r1 = Inr (Some row)")
    case True
    then obtain row where row: "r1 = Inr (Some row)" by blast
    have "keeping V blob k {rw_storage_key row} (bindS (on_objects (ds_delete (dv_store V) (rw_storage_key row))) (\<lambda>_.
        on_database (committed (dv_database V) (document_delete (db_table (dv_database V)) (db_rows (dv_database V)) k))))"
      by (intro keeping_bind keeping_delete_object[OF assms(1)] drop)
    moreover have "bindS (on_objects (ds_delete (dv_store V) (rw_storage_key row))) (\<lambda>_.
        on_database (committed (dv_database V) (document_delete (db_table (dv_database V)) (db_rows (dv_database V)) k))) w1 = (r, w')"
      using assms(3) f row by (simp add: delete_document_def bindS_def)
    ultimately have "keeps_others V blob k {rw_storage_key row} w1 w'" by (auto simp: keeping_def)
    then show ?thesis using w1 found(3)[OF row] keeps_others_trans by fastforce
  next
    case False
    then have "w' = w1" using assms(3) f by (auto simp: delete_document_def bindS_def liftS_def split: sum.splits option.splits)
    then show ?thesis using w1 by simp
  qed
qed


text \<open>A key that is nobody's, or somebody else's: the answer is the same, and nothing has happened.\<close>

lemma unowned_document:
  assumes "database_laws (dv_database V)" "filter (owned k) (db_rows (dv_database V) (dx_database w)) = []"
    "find_document V k w = (Inr found, w1)"
  shows "found = None" "delete_document V k w = (Inr False, w1)"
    "document_status_of V k w = (Inl (GatewayError DOCUMENT_NOT_FOUND ''no_such_document''), w1)"
    "open_document V k w = (Inl (GatewayError DOCUMENT_NOT_FOUND ''no_such_document''), w1)"
proof -
  show "found = None" using find_document_rows(3)[OF assms(1,3)] assms(2) by (cases found) auto
  then show "delete_document V k w = (Inr False, w1)"
    "document_status_of V k w = (Inl (GatewayError DOCUMENT_NOT_FOUND ''no_such_document''), w1)"
    "open_document V k w = (Inl (GatewayError DOCUMENT_NOT_FOUND ''no_such_document''), w1)"
    using assms(3) by (simp_all add: delete_document_def document_status_of_def open_document_def bindS_def liftS_def)
qed

text \<open>
  C12. A request touches nothing of another tenant or user, whatever fails on the way: an upload
  writes rows of its own principal and the object it has just named, a deletion removes at most a
  row of that principal and the object the row points at. A document of someone else is answered
  exactly as one that never existed, by every operation, without an effect.
\<close>

theorem principals_are_isolated:
  assumes "document_store (dv_store V) blob" "database_laws (dv_database V)" "new_token_id (ue_token_bytes E) = Inr t"
    "store_document V E u w = (r, w1)" "delete_document V k w = (d, w2)"
  shows "keeps_others V blob (key_of_upload E u) {STORAGE_KEY_PREFIX @ t} w w1
    \<and> keeps_others V blob k (rw_storage_key ` set (filter (owned k) (db_rows (dv_database V) (dx_database w)))) w w2
    \<and> (filter (owned k) (db_rows (dv_database V) (dx_database w)) = [] \<and> \<not> isl (fst (find_document V k w)) \<longrightarrow>
         d = Inr False \<and> db_rows (dv_database V) (dx_database w2) = db_rows (dv_database V) (dx_database w)
         \<and> dx_objects w2 = dx_objects w
         \<and> fst (document_status_of V k w) = Inl (GatewayError DOCUMENT_NOT_FOUND ''no_such_document'')
         \<and> fst (open_document V k w) = Inl (GatewayError DOCUMENT_NOT_FOUND ''no_such_document''))"
proof (intro conjI impI)
  show "keeps_others V blob (key_of_upload E u) {STORAGE_KEY_PREFIX @ t} w w1"
    using keeping_store[where V = V and u = u, OF assms(1-3)] assms(4) unfolding keeping_def by blast
  show "keeps_others V blob k (rw_storage_key ` set (filter (owned k) (db_rows (dv_database V) (dx_database w)))) w w2"
    by (rule keeping_delete[OF assms(1,2,5)])
  assume unowned: "filter (owned k) (db_rows (dv_database V) (dx_database w)) = [] \<and> \<not> isl (fst (find_document V k w))"
  then obtain found w3 where f: "find_document V k w = (Inr found, w3)"
    by (cases "find_document V k w"; cases "fst (find_document V k w)") auto
  note u = unowned_document[OF assms(2) conjunct1[OF unowned] f]
  show "d = Inr False" "db_rows (dv_database V) (dx_database w2) = db_rows (dv_database V) (dx_database w)"
    "dx_objects w2 = dx_objects w"
    "fst (document_status_of V k w) = Inl (GatewayError DOCUMENT_NOT_FOUND ''no_such_document'')"
    "fst (open_document V k w) = Inl (GatewayError DOCUMENT_NOT_FOUND ''no_such_document'')"
    using u assms(5) find_document_rows(1,2)[OF assms(2) f] by simp_all
qed


section \<open>Uploads that end, and what is sealed of them\<close>

lemma measure_loop_ends:
  "measure_loop limit ct head checked n digest blocks err = (g, n', digest') \<Longrightarrow> snd g = None \<Longrightarrow>
     err = None \<and> fst g = blocks \<and> n' = n + length (concat blocks) \<and> digest' = digest @ concat blocks
       \<and> 0 < n' \<and> (n = 0 \<or> int n \<le> limit \<longrightarrow> int n' \<le> limit \<or> n' = 0)"
proof (induction blocks arbitrary: head checked n digest g n' digest')
  case Nil
  then show ?case by (auto simp: gen_try_def split: option.splits if_splits sum.splits)
next
  case (Cons block blocks)
  then show ?case
    by (fastforce simp: Let_def enforce_streamed_length_def split: sum.splits if_splits prod.splits)
qed

lemma rechunk_loop_raises: "snd (rechunk_loop n buffer blocks (Some e)) = Some e"
proof (induction blocks arbitrary: buffer)
  case (Cons block blocks)
  obtain full rest where "full_blocks n (buffer @ block) = (full, rest)" by fastforce
  then show ?case using Cons.IH[of rest] by (cases "rechunk_loop n rest blocks (Some e)") simp
qed simp

lemma seal_loop_raises: "snd (seal_loop C d key ns (Some e) index pending blocks) \<noteq> None"
proof (induction blocks arbitrary: index pending)
  case (Cons b bs)
  then show ?case by (cases pending) (auto simp: gen_try_returns)
qed simp

lemma seal_stream_source_ends: "seal_stream C salt ns d source = (sealed, None) \<Longrightarrow> snd source = None"
proof (rule ccontr)
  assume s: "seal_stream C salt ns d source = (sealed, None)" and "snd source \<noteq> None"
  then obtain e where "snd (rechunk source (dc_chunk_bytes C)) = Some e" by (auto simp: rechunk_def rechunk_loop_raises)
  then have "snd (seal_stream C salt ns d source) \<noteq> None"
    using seal_loop_raises by (auto simp: seal_stream_def Let_def gen_try_returns)
  with s show False by simp
qed

lemma header_length:
  assumes "header_to_bytes h = Inr raw"
  shows "length raw \<le> 6 + MAX_KEY_ID_BYTES + length (dh_salt h) + 4"
  using assms by (auto simp: header_to_bytes_def result_simps DOCUMENT_MAGIC_def split: if_splits)

text \<open>A short value opens to what was sealed, under the same identity and purpose.\<close>

lemma short_round_trip:
  assumes "aead_laws (dc_aead C)" "length salt = SALT_BYTES" "length nonce = NONCE_BYTES"
    "length plaintext \<le> MAX_CHUNK_BYTES" "seal_bytes C salt nonce d purpose plaintext = Inr raw"
  shows "open_bytes C d purpose raw = Inr plaintext"
proof -
  from assms(5) obtain key aad ct header where
    s: "derive_data_key C (kr_active_key_id (dc_ring C)) salt d = Inr key" "chunk_aad d purpose 0 True = Inr aad"
      "ae_encrypt (dc_aead C) key nonce plaintext aad = Inr ct"
    and h: "header_to_bytes \<lparr>dh_version = DOCUMENT_FORMAT_VERSION, dh_key_id = kr_active_key_id (dc_ring C), dh_salt = salt,
               dh_chunk_bytes = max (length plaintext) 1\<rparr> = Inr header"
    and raw: "raw = header @ nonce @ ct"
    by (auto simp: seal_bytes_def Let_def bindR_Inr seal_chunk_returns)
  have "0 < max (length plaintext) 1" "max (length plaintext) 1 \<le> MAX_CHUNK_BYTES" using assms(4) by (simp_all add: MAX_CHUNK_BYTES_def)
  then have parse: "parse_header raw = Inr (\<lparr>dh_version = DOCUMENT_FORMAT_VERSION, dh_key_id = kr_active_key_id (dc_ring C), dh_salt = salt,
               dh_chunk_bytes = max (length plaintext) 1\<rparr>, length header)"
    using header_round_trip(1)[OF _ _ _ _ h, of "nonce @ ct"] assms(2) by (simp add: raw)
  have "drop (length header) raw = nonce @ ct" by (simp add: raw)
  moreover have "open_chunk C key (nonce @ ct) aad = Inr plaintext"
    using aead_length[OF assms(1) s(3)] aead_decrypt[OF assms(1) s(3)] assms(3) by (simp add: open_chunk_def)
  ultimately show ?thesis using s(1,2) by (simp add: open_bytes_def parse)
qed

lemma utf8_encode_length: "utf8_encode s = Inr b \<Longrightarrow> length b \<le> 4 * length s"
proof (induction s arbitrary: b)
  case (Cons c cs)
  then obtain x y where "utf8_char c = Some x" "utf8_encode cs = Inr y" "b = x @ y"
    by (auto simp: result_simps split: option.splits)
  moreover from this have "length x \<le> 4" by (auto simp: utf8_char_def split: if_splits)
  ultimately show ?case using Cons.IH by fastforce
qed simp

lemma filename_round_trip:
  assumes "normalize_filename U raw = Inr safe_name" "aead_laws (dc_aead (dv_cipher V))" "length (ue_name_salt E) = SALT_BYTES"
    "length (ue_name_nonce E) = NONCE_BYTES" "seal_filename V E d safe_name = Inr sealed"
  shows "bindR (open_bytes (dv_cipher V) d PURPOSE_FILENAME sealed) utf8_decode = Inr safe_name"
proof -
  obtain b where b: "utf8_encode safe_name = Inr b"
    "seal_bytes (dv_cipher V) (ue_name_salt E) (ue_name_nonce E) d PURPOSE_FILENAME b = Inr sealed"
    using assms(5) by (auto simp: seal_filename_def bindR_Inr)
  have "length safe_name \<le> MAX_FILENAME_CHARS" using assms(1) by (auto simp: normalize_filename_def Let_def split: if_splits)
  then have "length b \<le> MAX_CHUNK_BYTES"
    using utf8_encode_length[OF b(1)] by (simp add: MAX_FILENAME_CHARS_def MAX_CHUNK_BYTES_def)
  from short_round_trip[OF assms(2-4) this b(2)] show ?thesis using utf8_roundtrip[OF b(1)] by simp
qed

text \<open>The pieces of the fake store never end inside a header.\<close>

lemma fake_pieces_header_safe:
  assumes "blob = header @ rest" "length header \<le> FAKE_STEP"
  shows "\<forall>j \<le> length (fake_pieces FAKE_STEP blob). let l = length (concat (take j (fake_pieces FAKE_STEP blob))) in
     l < minimum_header_size \<or> length header \<le> l"
proof (intro allI impI)
  fix j
  obtain ps where ps: "fake_pieces FAKE_STEP blob = take FAKE_STEP blob # ps"
    using fake_pieces_first[of FAKE_STEP blob] by (auto simp: FAKE_STEP_def)
  show "let l = length (concat (take j (fake_pieces FAKE_STEP blob))) in l < minimum_header_size \<or> length header \<le> l"
  proof (cases j)
    case (Suc i)
    have "length header \<le> length (take FAKE_STEP blob)" using assms by simp
    then show ?thesis by (simp add: Suc ps del: length_take)
  qed (simp add: minimum_header_size_def HEADER_PREFIX_SIZE_def)
qed


section \<open>The service over the in-memory store\<close>

text \<open>A database that never fails, and the service over it and over the fake store.\<close>

definition plain_database :: "document_row list database" where
  "plain_database = \<lparr>db_table = plain_table, db_rows = id, db_commit = (\<lambda>s. (Inr (), s)), db_rollback = (\<lambda>s s'. s)\<rparr>"

lemma plain_database_laws: "database_laws plain_database"
  using plain_table_laws(1) by (simp add: database_laws_def plain_database_def)

lemma plain_database_table: "db_table plain_database = plain_table"
  by (simp add: plain_database_def)

definition in_memory :: "(document_row list, fake_store) document_service \<Rightarrow> bool" where
  "in_memory V \<longleftrightarrow> dv_store V = fake_store_ops \<and> dv_database V = plain_database"

lemma committed_plain:
  "committed plain_database m s = (case m s of (Inl e, s') \<Rightarrow> (Inl e, s) | (Inr x, s') \<Rightarrow> (Inr x, s'))"
  by (auto simp: committed_def session_scope_def bindS_def liftS_def plain_database_def split: prod.splits sum.splits)

definition stored_row :: "int \<Rightarrow> nat \<Rightarrow> ustr \<Rightarrow> document_row \<Rightarrow> document_row" where
  "stored_row now n h r = r\<lparr>rw_byte_size := n, rw_sha256_hex := h, rw_status := document_status_value STORED, rw_updated_at := now\<rparr>"

lemma owned_stored_row [simp]: "owned k (stored_row now n h r) = owned k r"
  by (simp add: stored_row_def owned_def)

lemma update_last_row:
  "filter (owned k) rs = [] \<Longrightarrow> owned k row \<Longrightarrow> update_where (owned k) f (rs @ [row]) = rs @ [f row]"
  by (induction rs) (auto simp: update_where_def split: if_splits)

lemma document_status_value_inj [simp]: "document_status_value a = document_status_value b \<longleftrightarrow> a = b"
  by (cases a; cases b; simp)

lemma mk_document_status_value: "mk_document_status (document_status_value d) = Inr d"
  by (cases d) (simp_all add: mk_document_status_def del: document_status_value.simps)

definition metadata_of :: "document_row \<Rightarrow> document_status \<Rightarrow> document_metadata" where
  "metadata_of row status = \<lparr>dm_id = rw_id row, dm_tenant_id = rw_tenant_id row, dm_user_id = rw_user_id row,
     dm_storage_key = rw_storage_key row, dm_content_type = rw_content_type row, dm_byte_size = rw_byte_size row,
     dm_sha256_hex = rw_sha256_hex row, dm_status = status, dm_created_at = rw_created_at row, dm_updated_at = rw_updated_at row\<rparr>"

lemma to_metadata_status: "rw_status row = document_status_value d \<Longrightarrow> to_metadata row = Inr (metadata_of row d)"
  by (simp add: to_metadata_def metadata_of_def mk_document_status_value del: document_status_value.simps)

lemma record_stored_plain:
  assumes "in_memory V" "dx_database w = rs @ [row]" "filter (owned k) rs = []" "owned k row"
  shows "record_stored V now k safe_name n digest w =
    (let row' = stored_row now n (hexdigest (dv_sha256 V digest)) row in
      (Inr \<lparr>so_metadata = metadata_of row' STORED, so_filename = safe_name\<rparr>, w\<lparr>dx_database := rs @ [row']\<rparr>))"
proof -
  define row' where "row' = stored_row now n (hexdigest (dv_sha256 V digest)) row"
  have "owned k row'" using assms(4) by (simp add: row'_def)
  then have "filter (owned k) (rs @ [row']) = [row']" using assms(3) by simp
  moreover have "update_where (owned k) (stored_row now n (hexdigest (dv_sha256 V digest))) (rs @ [row]) = rs @ [row']"
    unfolding row'_def by (rule update_last_row[OF assms(3,4)])
  ultimately have "mark_stored plain_table now k n (hexdigest (dv_sha256 V digest)) (rs @ [row]) = (Inr (Some row'), rs @ [row'])"
    by (simp add: mark_stored_def document_get_def select_one_def plain_table_def bindS_def liftS_def stored_row_def[abs_def]
        del: document_status_value.simps)
  moreover have "to_metadata row' = Inr (metadata_of row' STORED)"
    by (rule to_metadata_status) (simp add: row'_def stored_row_def)
  moreover have "db_table (dv_database V) = plain_table" using assms(1) by (simp add: in_memory_def plain_database_def)
  ultimately show ?thesis using assms(1,2)
    by (simp add: record_stored_def on_database_def in_memory_def committed_plain bindS_def liftS_def flip: row'_def)
qed

text \<open>Where an upload stands once its row is there: what it sealed and what it measured.\<close>

lemma store_document_steps:
  assumes "in_memory V" "filter (owned (key_of_upload E u)) (dx_database w) = []" "store_document V E u w = (r, w')"
  obtains (refused) e where "r = Inl e" "w' = w"
  | (received) safe_name content_type token_id name_sealed measured n digest row where
      "normalize_filename (dv_ucd V) (up_filename u) = Inr safe_name"
      "new_token_id (ue_token_bytes E) = Inr token_id"
      "seal_filename V E (identity_of (key_of_upload E u) content_type) safe_name = Inr name_sealed"
      "measure_upload (dv_max_bytes V) content_type (up_source u) = (measured, n, digest)"
      "row = new_document (ue_created E) (key_of_upload E u) (STORAGE_KEY_PREFIX @ token_id) name_sealed content_type RECEIVING"
      "bindS (put_document V E (key_of_upload E u) (STORAGE_KEY_PREFIX @ token_id) content_type measured)
         (\<lambda>_. record_stored V (ue_updated E) (key_of_upload E u) safe_name n digest)
         (w\<lparr>dx_database := dx_database w @ [row]\<rparr>) = (r, w')"
proof -
  have db: "dv_database V = plain_database" using assms(1) by (simp add: in_memory_def)
  have create: "on_database (committed plain_database (document_create (db_table plain_database) now k key c ct st)) w =
      (Inr (new_document now k key c ct st), w\<lparr>dx_database := dx_database w @ [new_document now k key c ct st]\<rparr>)"
    for now k key c ct st
    by (simp add: on_database_def committed_plain document_create_def plain_table_def plain_database_table bindS_def liftS_def Let_def)
  note s = assms(3)[unfolded store_document_def]
  show thesis
  proof (cases "normalize_filename (dv_ucd V) (up_filename u)")
    case (Inl e)
    then show ?thesis using s refused by (simp, blast)
  next
    case name: (Inr safe_name)
    show ?thesis
    proof (cases "resolve_content_type (dv_ucd V) safe_name (up_declared_content_type u)")
      case (Inl e)
      then show ?thesis using s name refused by (simp, blast)
    next
      case ct: (Inr content_type)
      obtain measured n digest where m: "measure_upload (dv_max_bytes V) content_type (up_source u) = (measured, n, digest)"
        by (metis prod_cases3)
      consider e where "enforce_declared_length (up_declared_length u) (dv_max_bytes V) = Inl e"
        | e where "enforce_declared_length (up_declared_length u) (dv_max_bytes V) = Inr ()" "new_token_id (ue_token_bytes E) = Inl e"
        | e t where "enforce_declared_length (up_declared_length u) (dv_max_bytes V) = Inr ()" "new_token_id (ue_token_bytes E) = Inr t"
            "seal_filename V E (identity_of (key_of_upload E u) content_type) safe_name = Inl e"
        | t sealed where "enforce_declared_length (up_declared_length u) (dv_max_bytes V) = Inr ()" "new_token_id (ue_token_bytes E) = Inr t"
            "seal_filename V E (identity_of (key_of_upload E u) content_type) safe_name = Inr sealed"
        by (metis old.sum.exhaust old.unit.exhaust)
      then show ?thesis
      proof cases
        case (4 t sealed)
        from s name ct 4(1,2) m 4(3) create show ?thesis
          by (intro received[OF name 4(2,3) m refl]) (simp add: Let_def db bindS_def[of "on_database _"])
      qed (use s name ct m refused in \<open>simp add: Let_def; blast\<close>)+
    qed
  qed
qed


lemma abandon_plain:
  assumes "in_memory V" "fk_failure (dx_objects w) = None"
  shows "abandon V now k key w = (Inr (),
     w\<lparr>dx_objects := (dx_objects w)\<lparr>fk_objects := AList.delete key (fk_objects (dx_objects w))\<rparr>,
       dx_database := update_where (owned k) (\<lambda>r. r\<lparr>rw_status := document_status_value FAILED, rw_updated_at := now\<rparr>) (dx_database w)\<rparr>)"
proof -
  have "fake_delete key (dx_objects w) = (Inr (), (dx_objects w)\<lparr>fk_objects := AList.delete key (fk_objects (dx_objects w))\<rparr>)"
    using assms(2) by (simp add: fake_delete_def bindS_def fake_guard_def)
  then show ?thesis using assms(1)
    by (simp add: abandon_def suppressed_def in_memory_def fake_store_ops_def on_objects_def on_database_def committed_plain
        mark_failed_def plain_database_table plain_table_def bindS_def catchS_def del: document_status_value.simps)
qed

text \<open>\<open>put\<close> and what is done when it fails, on a store that is up.\<close>

lemma put_document_plain:
  assumes "in_memory V" "fk_failure (dx_objects w) = None"
    "seal_stream (dv_cipher V) (ue_salt E) (ue_nonces E) (identity_of k ct) measured = (sealed, ending)"
  shows "put_document V E k key ct measured w = (case ending of
      None \<Rightarrow> (Inr (), w\<lparr>dx_objects := (dx_objects w)\<lparr>fk_put_chunk_sizes := fk_put_chunk_sizes (dx_objects w) @ [map length sealed],
                 fk_objects := dict_put key (concat sealed) (fk_objects (dx_objects w))\<rparr>\<rparr>)
    | Some e \<Rightarrow> (Inl e, w\<lparr>dx_objects := (dx_objects w)\<lparr>fk_aborted_keys := fk_aborted_keys (dx_objects w) @ [key],
                 fk_objects := AList.delete key (fk_objects (dx_objects w))\<rparr>,
               dx_database := update_where (owned k) (\<lambda>r. r\<lparr>rw_status := document_status_value FAILED,
                 rw_updated_at := ue_updated E\<rparr>) (dx_database w)\<rparr>))"
proof (cases ending)
  case None
  then show ?thesis using assms
    by (simp add: put_document_def in_memory_def fake_store_ops_def on_objects_def fake_put_eq fake_publish_def bindS_def catchS_def liftS_def)
next
  case (Some e)
  let ?w = "w\<lparr>dx_objects := (dx_objects w)\<lparr>fk_aborted_keys := fk_aborted_keys (dx_objects w) @ [key]\<rparr>\<rparr>"
  have "on_objects (ds_put (dv_store V) key (sealed, ending) (Some OPAQUE_OBJECT_CONTENT_TYPE)) w = (Inl e, ?w)"
    using assms Some by (simp add: in_memory_def fake_store_ops_def on_objects_def fake_put_eq)
  moreover have "fk_failure (dx_objects ?w) = None" using assms(2) by simp
  ultimately show ?thesis using Some assms(3) abandon_plain[OF assms(1), of ?w "ue_updated E" k key]
    by (simp add: put_document_def bindS_def catchS_def liftS_def del: document_status_value.simps)
qed



text \<open>What a stored upload leaves behind: its row, and its sealed stream under the row's key.\<close>

lemma store_document_returns:
  assumes "in_memory V" "fk_failure (dx_objects w) = None" "filter (owned (key_of_upload E u)) (dx_database w) = []"
    "store_document V E u w = (Inr doc, w1)"
  obtains ct name_sealed sealed row where
    "seal_filename V E (identity_of (key_of_upload E u) ct) (so_filename doc) = Inr name_sealed"
    "normalize_filename (dv_ucd V) (up_filename u) = Inr (so_filename doc)"
    "seal_stream (dv_cipher V) (ue_salt E) (ue_nonces E) (identity_of (key_of_upload E u) ct) (fst (up_source u), None) = (sealed, None)"
    "filter (owned (key_of_upload E u)) (dx_database w1) = [row]" "fake_blob (dx_objects w1) (rw_storage_key row) = Some (concat sealed)"
    "rw_content_type row = ct" "rw_filename_ciphertext row = name_sealed" "rw_byte_size row = length (concat (fst (up_source u)))"
    "rw_sha256_hex row = hexdigest (dv_sha256 V (concat (fst (up_source u))))"
    "rw_status row = document_status_value STORED" "so_metadata doc = metadata_of row STORED"
    "snd (up_source u) = None" "0 < length (concat (fst (up_source u)))" "int (length (concat (fst (up_source u)))) \<le> dv_max_bytes V"
  using assms(1,3,4)
proof (cases rule: store_document_steps)
  case (received safe_name ct t name_sealed measured n digest row)
  let ?k = "key_of_upload E u" and ?w = "w\<lparr>dx_database := dx_database w @ [row]\<rparr>" and ?source = "fst (up_source u)"
  obtain sealed ending where s: "seal_stream (dv_cipher V) (ue_salt E) (ue_nonces E) (identity_of ?k ct) measured = (sealed, ending)"
    by fastforce
  have up: "fk_failure (dx_objects ?w) = None" using assms(2) by simp
  note put = put_document_plain[where w = ?w and key = "STORAGE_KEY_PREFIX @ t", OF assms(1) up s]
  have row: "owned ?k row" by (simp add: received(5))
  have "ending = None" using put received(6) by (cases ending) (auto simp: bindS_def)
  with put received(6) have stored: "so_filename doc = safe_name"
    "so_metadata doc = metadata_of (stored_row (ue_updated E) n (hexdigest (dv_sha256 V digest)) row) STORED"
    "dx_database w1 = dx_database w @ [stored_row (ue_updated E) n (hexdigest (dv_sha256 V digest)) row]"
    "fake_blob (dx_objects w1) (STORAGE_KEY_PREFIX @ t) = Some (concat sealed)"
    using record_stored_plain[OF assms(1) _ assms(3) row] by (auto simp: bindS_def Let_def fake_blob_def)
  have "snd measured = None" using seal_stream_source_ends s \<open>ending = None\<close> by blast
  from measure_loop_ends[OF received(4)[unfolded measure_upload_def] this]
  have m: "snd (up_source u) = None" "fst measured = ?source" "n = length (concat ?source)" "digest = concat ?source"
    "0 < length (concat ?source)" "int (length (concat ?source)) \<le> dv_max_bytes V" by auto
  have "measured = (?source, None)" using m(2) \<open>snd measured = None\<close> by (simp add: prod_eq_iff)
  then show thesis
    using received(1,3,5) s \<open>ending = None\<close> stored m assms(3) row
    by (intro that[of ct name_sealed sealed "stored_row (ue_updated E) n (hexdigest (dv_sha256 V digest)) row"])
      (simp_all add: stored_row_def new_document_def owned_def)
qed simp

lemma cipher_aead: "mk_document_cipher A hkdf ring n = Inr C \<Longrightarrow> dc_aead C = A"
  by (auto simp: mk_document_cipher_def split: if_splits)

lemma stored_document_readable:
  assumes "in_memory V" "mk_document_cipher A hkdf ring chunk_bytes = Inr (dv_cipher V)" "aead_laws A"
    "length (ue_name_salt E) = SALT_BYTES" "length (ue_name_nonce E) = NONCE_BYTES" "length (ue_salt E) = SALT_BYTES"
    "\<And>i. length (ue_nonces E i) = NONCE_BYTES"
    "fk_failure (dx_objects w) = None" "filter (owned (key_of_upload E u)) (dx_database w) = []"
    "store_document V E u w = (Inr doc, w1)"
    "filter (owned (key_of_upload E u)) (dx_database w2) = filter (owned (key_of_upload E u)) (dx_database w1)"
    "fake_blob (dx_objects w2) (dm_storage_key (so_metadata doc)) = fake_blob (dx_objects w1) (dm_storage_key (so_metadata doc))"
    "fk_failure (dx_objects w2) = None"
  shows "\<exists>stream out. open_document V (key_of_upload E u) w2 = (Inr (doc, stream), w2) \<and> stream w2 = ((out, None), w2)
    \<and> concat out = concat (fst (up_source u)) \<and> snd (up_source u) = None
    \<and> 0 < length (concat out) \<and> int (length (concat out)) \<le> dv_max_bytes V"
  using assms(1,8-10)
proof (rule store_document_returns)
  let ?k = "key_of_upload E u" and ?source = "fst (up_source u)"
  fix ct name_sealed sealed row
  assume name: "seal_filename V E (identity_of ?k ct) (so_filename doc) = Inr name_sealed"
      "normalize_filename (dv_ucd V) (up_filename u) = Inr (so_filename doc)"
    and sealed: "seal_stream (dv_cipher V) (ue_salt E) (ue_nonces E) (identity_of ?k ct) (?source, None) = (sealed, None)"
    and row: "filter (owned ?k) (dx_database w1) = [row]" and blob: "fake_blob (dx_objects w1) (rw_storage_key row) = Some (concat sealed)"
    and cols: "rw_content_type row = ct" "rw_filename_ciphertext row = name_sealed" "rw_byte_size row = length (concat ?source)"
      "rw_sha256_hex row = hexdigest (dv_sha256 V (concat ?source))" "rw_status row = document_status_value STORED"
    and doc: "so_metadata doc = metadata_of row STORED"
    and source: "snd (up_source u) = None" "0 < length (concat ?source)" "int (length (concat ?source)) \<le> dv_max_bytes V"
  have aead: "dc_aead (dv_cipher V) = A" by (rule cipher_aead[OF assms(2)])
  obtain header frames where h: "sealed = header # frames"
      "header_to_bytes \<lparr>dh_version = DOCUMENT_FORMAT_VERSION, dh_key_id = kr_active_key_id ring, dh_salt = ue_salt E,
         dh_chunk_bytes = dc_chunk_bytes (dv_cipher V)\<rparr> = Inr header"
    using seal_stream_frames[OF assms(2) sealed] by metis
  have "length header \<le> FAKE_STEP"
    using header_length[OF h(2)] assms(6) by (simp add: MAX_KEY_ID_BYTES_def SALT_BYTES_def FAKE_STEP_def)
  then have safe: "\<forall>j \<le> length (fake_pieces FAKE_STEP (concat sealed)). let l = length (concat (take j (fake_pieces FAKE_STEP (concat sealed)))) in
     l < minimum_header_size \<or> length (hd sealed) \<le> l"
    using fake_pieces_header_safe[of "concat sealed" header "concat frames"] h(1) by simp
  have pieces: "concat (fake_pieces FAKE_STEP (concat sealed)) = concat sealed"
    by (rule fake_pieces_concat) (simp add: FAKE_STEP_def)
  from open_sealed_stream[OF assms(2,3,6,7) sealed pieces safe] obtain out where
    out: "open_stream (dv_cipher V) (identity_of ?k ct) (fake_pieces FAKE_STEP (concat sealed), None) = (out, None)" "concat out = concat ?source"
    by blast
  have "find_document V ?k w2 = (Inr (Some row), w2)"
    using assms(1,11) row by (simp add: find_document_def on_database_def session_scope_def document_get_def select_one_def in_memory_def
        plain_database_table plain_table_def bindS_def liftS_def)
  moreover have meta: "to_metadata row = Inr (so_metadata doc)" using doc cols(5) to_metadata_status[of row STORED] by simp
  moreover have "dm_status (so_metadata doc) = STORED" "dm_content_type (so_metadata doc) = ct" using cols doc by (simp_all add: metadata_of_def)
  moreover have "bindR (open_bytes (dv_cipher V) (identity_of ?k ct) PURPOSE_FILENAME (rw_filename_ciphertext row)) utf8_decode = Inr (so_filename doc)"
    using filename_round_trip[OF name(2) _ assms(4,5) name(1)] aead assms(3) cols(2) by simp
  ultimately have opens: "open_document V ?k w2 = (Inr (doc, read_document V (identity_of ?k ct) (so_metadata doc) (rw_storage_key row)), w2)"
    by (simp add: open_document_def bindS_def liftS_def)
  have "ds_get (dv_store V) (rw_storage_key row) (dx_objects w2) = ((fake_pieces FAKE_STEP (concat sealed), None), dx_objects w2)"
    using assms(1,12,13) blob doc by (simp add: in_memory_def fake_store_ops_def fake_get_eq fake_blob_def metadata_of_def)
  then have "read_document V (identity_of ?k ct) (so_metadata doc) (rw_storage_key row) w2 = ((out, None), w2)"
    using out cols doc by (simp add: read_document_def metadata_of_def)
  moreover have "0 < length (concat out)" "int (length (concat out)) \<le> dv_max_bytes V" using source out(2) by simp_all
  ultimately show ?thesis using opens out(2) source(1) by blast
qed



section \<open>Worked instances\<close>

definition sample_service :: "(document_row list, fake_store) document_service" where
  "sample_service = \<lparr>dv_store = fake_store_ops, dv_cipher = sample_cipher toy_aead, dv_database = plain_database,
     dv_max_bytes = 100, dv_ucd = ascii_ucd, dv_sha256 = (\<lambda>_. replicate 32 0)\<rparr>"

definition sample_draws :: upload_entropy where
  "sample_draws = \<lparr>ue_document_id = 3, ue_token_bytes = replicate 16 0, ue_name_salt = replicate 16 1, ue_name_nonce = replicate 12 1,
     ue_salt = replicate 16 0, ue_nonces = (\<lambda>i. replicate 12 i), ue_created = 5, ue_updated = 6\<rparr>"

definition sample_filename :: ustr where "sample_filename = lit ''a.txt''"

definition sample_upload :: "bytes gen \<Rightarrow> upload" where
  "sample_upload source = \<lparr>up_tenant_id = 1, up_user_id = 2, up_filename = sample_filename, up_declared_content_type = None,
     up_declared_length = None, up_source = source\<rparr>"

definition sample_documents :: "(document_row list, fake_store) document_state" where
  "sample_documents = \<lparr>dx_database = [], dx_objects = empty_fake_store\<rparr>"

lemma sample_in_memory: "in_memory sample_service"
  by (simp add: in_memory_def sample_service_def)

lemma sample_identity_of: "identity_of (key_of_upload sample_draws (sample_upload source)) CONTENT_TYPE_TXT = sample_identity"
  by (simp add: CONTENT_TYPE_TXT_def identity_of_def key_of_upload_def sample_draws_def sample_upload_def sample_identity_def DOCUMENT_FORMAT_VERSION_def)

lemma sample_name: "normalize_filename ascii_ucd sample_filename = Inr sample_filename"
proof -
  have reserved: "lit ''a'' \<notin> set RESERVED_WINDOWS_NAMES" by code_simp
  have "hd (split_on 46 (lit ''a.txt'')) = lit ''a''" by code_simp
  then show ?thesis using reserved
    by (simp add: sample_filename_def normalize_filename_def ascii_defs strip_def lstrip_def MAX_FILENAME_CHARS_def BIDI_CONTROLS_def
        posix_name_def windows_name_def)
qed

lemma sample_type: "resolve_content_type ascii_ucd sample_filename None = Inr CONTENT_TYPE_TXT"
  by code_simp

lemma sample_token: "\<exists>t. new_token_id (ue_token_bytes sample_draws) = Inr t"
  by (simp add: new_token_id_def encode_crockford_def sample_draws_def TOKEN_ID_BYTES_def Let_def)

lemma sample_sealed_name: "\<exists>sealed. seal_filename sample_service sample_draws sample_identity sample_filename = Inr sealed"
proof -
  have name: "utf8_encode (lit ''a.txt'') = Inr (lit ''a.txt'')" "utf8_encode (lit ''k1'') = Inr (lit ''k1'')"
    "utf8_encode (lit ''filename'') = Inr (lit ''filename'')" "utf8_encode (lit ''text/plain'') = Inr (lit ''text/plain'')"
    by (rule utf8_encode_ascii; auto)+
  obtain aad where aad: "chunk_aad sample_identity PURPOSE_FILENAME 0 True = Inr aad"
    using name(3,4) frame_ok[of "[DOCUMENT_AAD_DOMAIN, [DOCUMENT_FORMAT_VERSION], uuid_str 1, uuid_str 2, uuid_str 3,
        lit ''text/plain'', nat_str 1, lit ''filename'', nat_str 0, lit ''1'']" 2]
    by (auto simp: chunk_aad_def chunk_aad_fields_def sample_identity_def PURPOSE_FILENAME_def
        DOCUMENT_AAD_DOMAIN_def nat_str.simps simp del: utf8_encode.simps frame.simps)
  have "\<exists>header. header_to_bytes \<lparr>dh_version = DOCUMENT_FORMAT_VERSION, dh_key_id = lit ''k1'', dh_salt = replicate 16 1,
      dh_chunk_bytes = max (length (lit ''a.txt'')) 1\<rparr> = Inr header"
    using name(2) by (simp add: header_to_bytes_def DOCUMENT_FORMAT_VERSION_def MAX_KEY_ID_BYTES_def del: utf8_encode.simps)
  moreover have "kr_active_key_id sample_ring = lit ''k1''" by (simp add: sample_ring_def)
  ultimately show ?thesis
    using aad name(1) sample_key[of toy_aead "replicate 16 1"]
    by (auto simp: sample_filename_def seal_filename_def seal_bytes_def sample_service_def sample_draws_def Let_def seal_chunk_def toy_aead_def
        sample_cipher_def simp del: utf8_encode.simps)
qed

lemma sample_measured:
  "measure_upload 100 CONTENT_TYPE_TXT ([[1, 2, 3], [4, 5]], None) = (([[1, 2, 3], [4, 5]], None), 5, [1, 2, 3, 4, 5])"
  by code_simp

lemma sample_measured_empty:
  "measure_upload 100 CONTENT_TYPE_TXT ([], None) = (([], Some (invalid_document ''document_empty'')), 0, [])"
  by code_simp


text \<open>An upload of five bytes is stored; an empty one is refused when its end is reached.\<close>

lemma sample_steps:
  assumes "measure_upload 100 CONTENT_TYPE_TXT source = (measured, n, digest)"
  obtains t name_sealed where "new_token_id (ue_token_bytes sample_draws) = Inr t"
    "store_document sample_service sample_draws (sample_upload source) sample_documents =
      bindS (put_document sample_service sample_draws (key_of_upload sample_draws (sample_upload source)) (STORAGE_KEY_PREFIX @ t) CONTENT_TYPE_TXT measured)
        (\<lambda>_. record_stored sample_service 6 (key_of_upload sample_draws (sample_upload source)) sample_filename n digest)
        (sample_documents\<lparr>dx_database := [new_document 5 (key_of_upload sample_draws (sample_upload source)) (STORAGE_KEY_PREFIX @ t)
           name_sealed CONTENT_TYPE_TXT RECEIVING]\<rparr>)"
proof -
  obtain t where t: "new_token_id (ue_token_bytes sample_draws) = Inr t" using sample_token by blast
  obtain name_sealed where n: "seal_filename sample_service sample_draws sample_identity sample_filename = Inr name_sealed"
    using sample_sealed_name by blast
  have fields: "dv_ucd sample_service = ascii_ucd" "dv_max_bytes sample_service = 100" "dv_database sample_service = plain_database"
    "up_filename (sample_upload source) = sample_filename" "up_declared_content_type (sample_upload source) = None"
    "up_declared_length (sample_upload source) = None" "up_source (sample_upload source) = source"
    "ue_created sample_draws = 5" "ue_updated sample_draws = 6" "dx_database sample_documents = []"
    by (simp_all add: sample_service_def sample_upload_def sample_draws_def sample_documents_def)
  have create: "on_database (committed plain_database (document_create plain_table 5 k key c ct RECEIVING)) sample_documents =
      (Inr (new_document 5 k key c ct RECEIVING), sample_documents\<lparr>dx_database := [new_document 5 k key c ct RECEIVING]\<rparr>)" for k key c ct
    by (simp add: on_database_def committed_plain document_create_def plain_table_def bindS_def liftS_def Let_def fields)
  show thesis
  proof (rule that[OF t, of name_sealed])
    show "store_document sample_service sample_draws (sample_upload source) sample_documents =
      bindS (put_document sample_service sample_draws (key_of_upload sample_draws (sample_upload source)) (STORAGE_KEY_PREFIX @ t) CONTENT_TYPE_TXT measured)
        (\<lambda>_. record_stored sample_service 6 (key_of_upload sample_draws (sample_upload source)) sample_filename n digest)
        (sample_documents\<lparr>dx_database := [new_document 5 (key_of_upload sample_draws (sample_upload source)) (STORAGE_KEY_PREFIX @ t)
           name_sealed CONTENT_TYPE_TXT RECEIVING]\<rparr>)"
      unfolding store_document_def fields sample_name sample_type enforce_declared_length_def bindS_value t assms sample_identity_of
        n Let_def option.case prod.case plain_database_table
      by (subst bindS_def) (simp add: create)
  qed
qed


lemma upload_fields:
  "fk_failure (dx_objects sample_documents) = None" "dx_database sample_documents = []"
  "dv_cipher sample_service = sample_cipher toy_aead" "ue_salt sample_draws = replicate 16 0" "ue_nonces sample_draws = (\<lambda>i. replicate 12 i)"
  "ue_updated sample_draws = 6" "up_source (sample_upload source) = source" "dv_max_bytes sample_service = 100"
  "length (ue_name_salt sample_draws) = SALT_BYTES" "length (ue_name_nonce sample_draws) = NONCE_BYTES"
  by (simp_all add: sample_documents_def empty_fake_store_def sample_service_def sample_draws_def sample_upload_def SALT_BYTES_def NONCE_BYTES_def)

lemma stored_content_type:
  "dm_content_type (metadata_of (stored_row now n h (new_document created k key c ct status)) STORED) = ct"
  by (simp add: metadata_of_def stored_row_def new_document_def)

lemma sample_stored:
  obtains doc w1 where "store_document sample_service sample_draws (sample_upload ([[1, 2, 3], [4, 5]], None)) sample_documents = (Inr doc, w1)"
    "fk_failure (dx_objects w1) = None" "dm_content_type (so_metadata doc) = CONTENT_TYPE_TXT"
proof -
  let ?k = "key_of_upload sample_draws (sample_upload ([[1, 2, 3], [4, 5]], None))"
  obtain t name_sealed where steps: "store_document sample_service sample_draws (sample_upload ([[1, 2, 3], [4, 5]], None)) sample_documents =
      bindS (put_document sample_service sample_draws ?k (STORAGE_KEY_PREFIX @ t) CONTENT_TYPE_TXT ([[1, 2, 3], [4, 5]], None))
        (\<lambda>_. record_stored sample_service 6 ?k sample_filename 5 [1, 2, 3, 4, 5])
        (sample_documents\<lparr>dx_database := [new_document 5 ?k (STORAGE_KEY_PREFIX @ t) name_sealed CONTENT_TYPE_TXT RECEIVING]\<rparr>)"
    by (rule sample_steps[OF sample_measured])
  have sealed: "\<exists>f. sealed_chunk (sample_cipher toy_aead) sample_identity (replicate 32 7) (replicate 12 j) j fin p f" if "j < 10" for j fin p
    using sample_aads[OF that, of fin] by (auto simp: sealed_chunk_def sample_cipher_def toy_aead_def)
  obtain header frames where s: "seal_stream (sample_cipher toy_aead) (replicate 16 0) (\<lambda>i. replicate 12 i) sample_identity
      ([[1, 2, 3], [4, 5]], None) = (header # frames, None)"
    by (rule sample_sealed_document[OF sample_rechunk(1)]) (use sealed in \<open>auto simp: chunks_of_def\<close>)
  let ?w = "sample_documents\<lparr>dx_database := [new_document 5 ?k (STORAGE_KEY_PREFIX @ t) name_sealed CONTENT_TYPE_TXT RECEIVING]\<rparr>"
  have up: "fk_failure (dx_objects ?w) = None" by (simp add: upload_fields)
  have "seal_stream (dv_cipher sample_service) (ue_salt sample_draws) (ue_nonces sample_draws) (identity_of ?k CONTENT_TYPE_TXT)
      ([[1, 2, 3], [4, 5]], None) = (header # frames, None)"
    using s by (simp add: upload_fields sample_identity_of)
  note put = put_document_plain[OF sample_in_memory up this, of "STORAGE_KEY_PREFIX @ t", simplified option.case]
  define w2 where "w2 = ?w\<lparr>dx_objects := (dx_objects ?w)\<lparr>fk_put_chunk_sizes := fk_put_chunk_sizes (dx_objects ?w) @ [map length (header # frames)],
      fk_objects := dict_put (STORAGE_KEY_PREFIX @ t) (concat (header # frames)) (fk_objects (dx_objects ?w))\<rparr>\<rparr>"
  have w2: "dx_database w2 = [] @ [new_document 5 ?k (STORAGE_KEY_PREFIX @ t) name_sealed CONTENT_TYPE_TXT RECEIVING]"
    "fk_failure (dx_objects w2) = None" by (simp_all add: w2_def upload_fields)
  have "store_document sample_service sample_draws (sample_upload ([[1, 2, 3], [4, 5]], None)) sample_documents
      = record_stored sample_service 6 ?k sample_filename 5 [1, 2, 3, 4, 5] w2"
    unfolding steps by (rule bindS_step(1)) (unfold w2_def, rule put)
  moreover obtain doc w1 where "record_stored sample_service 6 ?k sample_filename 5 [1, 2, 3, 4, 5] w2 = (Inr doc, w1)"
    "dx_objects w1 = dx_objects w2" "dm_content_type (so_metadata doc) = CONTENT_TYPE_TXT"
    using record_stored_plain[OF sample_in_memory w2(1), of ?k 6 sample_filename 5 "[1, 2, 3, 4, 5]"]
    by (simp add: Let_def stored_content_type)
  ultimately show thesis using that w2(2) by simp
qed



theorem principals_are_isolated_witness:
  "\<exists>w2. delete_document sample_service \<lparr>dk_document_id = 3, dk_tenant_id = 9, dk_user_id = 2\<rparr> sample_documents = (Inr False, w2)
     \<and> dx_objects w2 = dx_objects sample_documents
     \<and> fst (open_document sample_service \<lparr>dk_document_id = 3, dk_tenant_id = 9, dk_user_id = 2\<rparr> sample_documents)
       = Inl (GatewayError DOCUMENT_NOT_FOUND ''no_such_document'')"
proof -
  let ?k = "\<lparr>dk_document_id = 3, dk_tenant_id = 9, dk_user_id = 2\<rparr>"
  have store: "document_store (dv_store sample_service) fake_blob" using fake.document_store_axioms by (simp add: sample_service_def)
  have laws: "database_laws (dv_database sample_service)" using plain_database_laws by (simp add: sample_service_def)
  obtain t where t: "new_token_id (ue_token_bytes sample_draws) = Inr t" using sample_token by blast
  obtain r w1 where s: "store_document sample_service sample_draws (sample_upload ([], None)) sample_documents = (r, w1)" by fastforce
  obtain d w2 where d: "delete_document sample_service ?k sample_documents = (d, w2)" by fastforce
  have f: "filter (owned ?k) (db_rows (dv_database sample_service) (dx_database sample_documents)) = []"
    "\<not> isl (fst (find_document sample_service ?k sample_documents))"
    by (simp_all add: upload_fields find_document_def on_database_def session_scope_def document_get_def select_one_def sample_service_def
        plain_database_def plain_table_def bindS_def liftS_def)
  from principals_are_isolated[OF store laws t s d] f d show ?thesis by auto
qed


section \<open>Where the two stores part\<close>

definition failing_delete :: "document_row list database" where
  "failing_delete = plain_database\<lparr>db_table := plain_table\<lparr>tb_delete := (\<lambda>P s. (Inl OSError, s))\<rparr>\<rparr>"

definition failing_update :: "document_row list database" where
  "failing_update = plain_database\<lparr>db_table := plain_table\<lparr>tb_update := (\<lambda>P f s. (Inl OSError, s))\<rparr>\<rparr>"

lemma failing_laws: "database_laws failing_delete" "database_laws failing_update"
  using plain_table_laws(1)
  by (auto simp: database_laws_def failing_delete_def failing_update_def plain_database_def table_laws_def select_law_def
      insert_law_def update_law_def delete_law_def plain_table_def)

text \<open>A deletion whose second half fails leaves a row that still says \<open>stored\<close>, of an object that is gone.\<close>

lemma interrupted_deletion:
  assumes "dv_store V = fake_store_ops" "dv_database V = failing_delete" "fk_failure (dx_objects w) = None"
    "filter (owned k) (dx_database w) = [row]" "rw_status row = document_status_value STORED"
  shows "\<exists>w'. delete_document V k w = (Inl OSError, w') \<and> document_status_of V k w' = (Inr (metadata_of row STORED), w')
    \<and> fake_blob (dx_objects w') (rw_storage_key row) = None"
proof -
  have found: "find_document V k w' = (Inr (Some row), w')" if "dx_database w' = dx_database w" for w'
    using assms(2,4) that by (simp add: find_document_def on_database_def session_scope_def document_get_def select_one_def
        failing_delete_def plain_database_def plain_table_def bindS_def liftS_def)
  let ?w = "w\<lparr>dx_objects := (dx_objects w)\<lparr>fk_objects := AList.delete (rw_storage_key row) (fk_objects (dx_objects w))\<rparr>\<rparr>"
  have "delete_document V k w = (Inl OSError, ?w)"
    using found[OF refl] assms(1-3)
    by (simp add: delete_document_def bindS_def on_objects_def on_database_def fake_store_ops_def fake_delete_def fake_guard_def
        committed_def session_scope_def document_delete_def failing_delete_def plain_database_def)
  moreover have "document_status_of V k ?w = (Inr (metadata_of row STORED), ?w)"
    using found[of ?w] assms(5) by (simp add: document_status_of_def bindS_def liftS_def to_metadata_status del: document_status_value.simps)
  ultimately show ?thesis by (auto simp: fake_blob_def delete_conv')
qed

text \<open>An upload whose last statement fails keeps its object, and its row says \<open>receiving\<close> for ever.\<close>

lemma unrecorded_upload:
  assumes "dv_database V = failing_update" "dx_database w = rs @ [row]" "rw_status row = document_status_value RECEIVING"
  shows "record_stored V now k safe_name n digest w = (Inl OSError, w)"
  using assms by (simp add: record_stored_def on_database_def committed_def session_scope_def mark_stored_def failing_update_def
      plain_database_def bindS_def)

end
