(* ===== verification/Document_Extraction.thy ===== *)
theory Document_Extraction
  imports Document_Service Segmentation
begin

text \<open>
  From stored bytes to segments: the extractors (\<^verbatim>\<open>app/documents/extraction/extractors.py\<close>), the runner
  that keeps them in a process of their own (\<^verbatim>\<open>app/documents/extraction/runner.py\<close>) and the
  processor that joins them to the storage (\<^verbatim>\<open>app/documents/processing.py\<close>). The parsers of PDF,
  DOCX and ZIP are libraries: a parser is a function from the bytes to what the code reads of its
  result, any part of which may raise. Processes and pipes are the operating system's: what
  becomes of a child is an argument.
\<close>

section \<open>What the parsers return\<close>

text \<open>Pages and children are iterated over, and the iteration itself may raise.\<close>

record pdf_reader =
  pr_is_encrypted :: bool
  pr_pages :: "ustr option res gen"

datatype docx_child =
    ParagraphChild "ustr res"
  | TableChild "ustr list list res"
  | OtherChild

datatype 'a parse_error = DeclaredError | UndeclaredError 'a

text \<open>
  \<open>DeclaredError\<close> is the library's own exception for a file of the wrong shape (\<open>PdfReadError\<close>,
  \<open>BadZipFile\<close>). An entry of an archive is its size and its compressed size.
\<close>

record parsers =
  pa_pdf :: "bytes \<Rightarrow> exn parse_error + pdf_reader"
  pa_docx :: "bytes \<Rightarrow> docx_child gen res"
  pa_zip :: "bytes \<Rightarrow> exn parse_error + (nat \<times> nat) list"

section \<open>Extractors\<close>

definition MAX_ZIP_EXPANSION_RATIO :: nat where "MAX_ZIP_EXPANSION_RATIO = 200"
definition MAX_ZIP_ENTRIES :: nat where "MAX_ZIP_ENTRIES = 2048"
definition PDF_PAGE_SEPARATOR :: ustr where "PDF_PAGE_SEPARATOR = [10]"
definition DOCX_PARAGRAPH_SEPARATOR :: ustr where "DOCX_PARAGRAPH_SEPARATOR = [10]"

text \<open>\<open>sep.join(xs)\<close>.\<close>

fun join_with :: "'a list \<Rightarrow> 'a list list \<Rightarrow> 'a list" where
  "join_with sep [] = []"
| "join_with sep [x] = x"
| "join_with sep (x # y # xs) = x @ sep @ join_with sep (y # xs)"

definition guard_length :: "nat \<Rightarrow> int \<Rightarrow> unit res" where
  "guard_length n limit = (if limit < int n then Inl (extraction_error ''extracted_text_over_limit'') else Inr ())"

definition extract_txt :: "bytes \<Rightarrow> int \<Rightarrow> ustr list res" where
  "extract_txt data max_characters =
     bindR (guard_length (length data) max_characters) (\<lambda>_.
     case utf8_decode data of
       Inl e \<Rightarrow> Inl (extraction_error ''text_not_utf8'')
     | Inr txt \<Rightarrow> bindR (guard_length (length txt) max_characters) (\<lambda>_. Inr [txt]))"

text \<open>The loop over the pages, with \<open>running\<close>; a page without text is the empty page.\<close>

fun pdf_pages :: "int \<Rightarrow> nat \<Rightarrow> ustr option res list \<Rightarrow> exn option \<Rightarrow> ustr list res" where
  "pdf_pages limit running [] err = (case err of Some e \<Rightarrow> Inl e | None \<Rightarrow> Inr [])"
| "pdf_pages limit running (page # rest) err =
     (case page of
        Inl e \<Rightarrow> Inl (extraction_error ''pdf_page_unreadable'')
      | Inr found \<Rightarrow>
          (let txt = (case found of None \<Rightarrow> [] | Some t \<Rightarrow> t); running = running + length txt in
           bindR (guard_length running limit) (\<lambda>_.
           bindR (pdf_pages limit running rest err) (\<lambda>pages. Inr (txt # pages)))))"

definition extract_pdf :: "parsers \<Rightarrow> bytes \<Rightarrow> int \<Rightarrow> ustr list res" where
  "extract_pdf P data max_characters =
     (case pa_pdf P data of
        Inl DeclaredError \<Rightarrow> Inl (extraction_error ''pdf_unreadable'')
      | Inl (UndeclaredError e) \<Rightarrow> Inl (extraction_error ''pdf_malformed'')
      | Inr reader \<Rightarrow>
          if pr_is_encrypted reader then Inl (extraction_error ''pdf_encrypted'')
          else bindR (pdf_pages max_characters 0 (fst (pr_pages reader)) (snd (pr_pages reader))) (\<lambda>pages.
            if pages = [] then Inl (extraction_error ''pdf_no_pages'') else Inr pages))"

text \<open>
  \<open>_guard_zip\<close>. The quotient of the two sums is a float in the code; the comparison is written
  over the integers, which is what the float compares as for sums below \<open>2 ^ 45\<close>.
\<close>

definition guard_zip :: "parsers \<Rightarrow> bytes \<Rightarrow> unit res" where
  "guard_zip P data =
     (case pa_zip P data of
        Inl DeclaredError \<Rightarrow> Inl (extraction_error ''docx_not_a_zip'')
      | Inl (UndeclaredError e) \<Rightarrow> Inl e
      | Inr entries \<Rightarrow>
          if MAX_ZIP_ENTRIES < length entries then Inl (extraction_error ''docx_too_many_entries'')
          else (let uncompressed = sum_list (map fst entries); compressed = sum_list (map snd entries) in
            if 0 < compressed \<and> MAX_ZIP_EXPANSION_RATIO * compressed < uncompressed
            then Inl (extraction_error ''docx_expansion_ratio_exceeded'') else Inr ()))"

definition table_text :: "ucd \<Rightarrow> ustr list list \<Rightarrow> ustr" where
  "table_text U rows =
     join_with [10] (map (join_with [9]) (filter (list_ex (\<lambda>cell. cell \<noteq> [])) (map (map (strip U)) rows)))"

text \<open>The loop over the children of the body; everything but the length guard becomes \<open>docx_malformed\<close>.\<close>

fun docx_blocks :: "ucd \<Rightarrow> int \<Rightarrow> nat \<Rightarrow> docx_child list \<Rightarrow> exn option \<Rightarrow> ustr list res" where
  "docx_blocks U limit running [] err = (case err of Some e \<Rightarrow> Inl (extraction_error ''docx_malformed'') | None \<Rightarrow> Inr [])"
| "docx_blocks U limit running (child # rest) err =
     (case (case child of ParagraphChild t \<Rightarrow> t | TableChild t \<Rightarrow> bindR t (\<lambda>rows. Inr (table_text U rows)) | OtherChild \<Rightarrow> Inr []) of
        Inl e \<Rightarrow> Inl (extraction_error ''docx_malformed'')
      | Inr txt \<Rightarrow>
          if txt = [] then docx_blocks U limit running rest err
          else (let running = running + length txt + length DOCX_PARAGRAPH_SEPARATOR in
            bindR (guard_length running limit) (\<lambda>_.
            bindR (docx_blocks U limit running rest err) (\<lambda>blocks. Inr (txt # blocks)))))"

definition extract_docx :: "ucd \<Rightarrow> parsers \<Rightarrow> bytes \<Rightarrow> int \<Rightarrow> ustr list res" where
  "extract_docx U P data max_characters =
     bindR (guard_zip P data) (\<lambda>_.
     case pa_docx P data of
       Inl e \<Rightarrow> Inl (extraction_error ''docx_unreadable'')
     | Inr children \<Rightarrow>
         bindR (docx_blocks U max_characters 0 (fst children) (snd children)) (\<lambda>blocks.
           Inr [join_with DOCX_PARAGRAPH_SEPARATOR blocks]))"

definition extract_text :: "ucd \<Rightarrow> parsers \<Rightarrow> bytes \<Rightarrow> ustr \<Rightarrow> int \<Rightarrow> ustr list res" where
  "extract_text U P data content_type max_characters =
     (if content_type \<notin> {CONTENT_TYPE_TXT, CONTENT_TYPE_PDF, CONTENT_TYPE_DOCX}
      then Inl (extraction_error ''content_type_not_extractable'')
      else if max_characters \<le> 0 then Inl (extraction_error ''character_limit_invalid'')
      else if content_type = CONTENT_TYPE_TXT then extract_txt data max_characters
      else if content_type = CONTENT_TYPE_PDF then extract_pdf P data max_characters
      else extract_docx U P data max_characters)"

section \<open>The runner\<close>

text \<open>What crosses the pipe: a tag and a reason, or a tag and the pages.\<close>

datatype worker_message = WorkerError string | WorkerOk "ustr list"

definition worker :: "ucd \<Rightarrow> parsers \<Rightarrow> bytes \<Rightarrow> ustr \<Rightarrow> int \<Rightarrow> worker_message" where
  "worker U P data content_type limit =
     (case extract_text U P data content_type limit of
        Inl (GatewayError code reason) \<Rightarrow> WorkerError (if reason = [] then ''extraction_failed'' else reason)
      | Inl _ \<Rightarrow> WorkerError ''extraction_crashed''
      | Inr pages \<Rightarrow> WorkerOk pages)"

text \<open>
  What becomes of the child within the budget of the parent: it answers, it dies without a word,
  or it is still at work. \<open>_reap\<close> ends it on every path and is the operating system's.
\<close>

datatype child_fate = Answers | Dies | StillWorking

record extraction_runner =
  er_max_workers :: int
  er_timeout :: int
  er_limit :: int

definition mk_extraction_runner :: "int \<Rightarrow> int \<Rightarrow> int \<Rightarrow> extraction_runner res" where
  "mk_extraction_runner max_workers timeout max_characters =
     (if max_workers < 1 then Inl ValueError
      else if timeout \<le> 0 then Inl ValueError
      else if max_characters < 1 then Inl ValueError
      else Inr \<lparr>er_max_workers = max_workers, er_timeout = timeout, er_limit = max_characters\<rparr>)"

definition await_result :: "child_fate \<Rightarrow> worker_message \<Rightarrow> ustr list res" where
  "await_result fate message =
     (case fate of
        StillWorking \<Rightarrow> Inl (GatewayError DOCUMENT_EXTRACTION_TIMEOUT ''timeout'')
      | Dies \<Rightarrow> Inl (extraction_error ''worker_died'')
      | Answers \<Rightarrow> (case message of WorkerError reason \<Rightarrow> Inl (extraction_error reason) | WorkerOk pages \<Rightarrow> Inr pages))"

definition run_extraction :: "ucd \<Rightarrow> parsers \<Rightarrow> extraction_runner \<Rightarrow> child_fate \<Rightarrow> bytes \<Rightarrow> ustr \<Rightarrow> extracted_document res" where
  "run_extraction U P R fate data content_type =
     bindR (await_result fate (worker U P data content_type (er_limit R))) (\<lambda>pages.
       build_extracted_document pages PDF_PAGE_SEPARATOR)"

definition run_inline :: "ucd \<Rightarrow> parsers \<Rightarrow> int \<Rightarrow> bytes \<Rightarrow> ustr \<Rightarrow> extracted_document res" where
  "run_inline U P limit data content_type =
     bindR (extract_text U P data content_type limit) (\<lambda>pages. build_extracted_document pages PDF_PAGE_SEPARATOR)"

definition pages_of :: "extracted_document \<Rightarrow> ustr list" where
  "pages_of doc = map (page_text doc) (xd_pages doc)"

section \<open>The processor\<close>

record document_processor =
  dp_max_bytes :: int
  dp_segmenter :: segmenter

text \<open>The loop of \<open>_collect\<close>, with its buffer.\<close>

fun collect :: "int \<Rightarrow> bytes \<Rightarrow> bytes list \<Rightarrow> exn option \<Rightarrow> bytes res" where
  "collect limit buffer [] err = (case err of Some e \<Rightarrow> Inl e | None \<Rightarrow> Inr buffer)"
| "collect limit buffer (block # blocks) err =
     (let buffer = buffer @ block in
      if limit < int (length buffer) then Inl (GatewayError DOCUMENT_TOO_LARGE ''decrypted_length_over_limit'')
      else collect limit buffer blocks err)"

text \<open>
  \<open>segment\<close>, over a source that opens documents and a runner; a source is an operation on the
  state of the storage that returns the document and its stream, which is read from that state.
\<close>

definition process_document :: "document_processor \<Rightarrow> (document_key \<Rightarrow> ('w, stored_document \<times> ('w \<Rightarrow> bytes gen \<times> 'w)) op) \<Rightarrow>
    (bytes \<Rightarrow> ustr \<Rightarrow> extracted_document res) \<Rightarrow> document_key \<Rightarrow> ('w, segmented_document) op" where
  "process_document P source run k =
     bindS (source k) (\<lambda>(document, stream) w.
       case stream w of (chunks, w') \<Rightarrow>
         (bindR (collect (dp_max_bytes P) [] (fst chunks) (snd chunks)) (\<lambda>data.
          bindR (run data (dm_content_type (so_metadata document))) (segment_document (dp_segmenter P))), w'))"

section \<open>The ceiling, and what a hostile file can do\<close>

lemma guard_length_Inr [result_simps]: "guard_length n limit = Inr u \<longleftrightarrow> int n \<le> limit"
  by (auto simp: guard_length_def)

lemma pdf_pages_total: "pdf_pages limit n ps err = Inr out \<Longrightarrow> int n \<le> limit \<Longrightarrow> int (n + total_characters out) \<le> limit"
  by (induction ps arbitrary: n out)
    (fastforce simp: total_characters_def bindR_Inr guard_length_Inr Let_def split: option.splits sum.splits)+

lemma length_join_with: "length (join_with sep xs) \<le> sum_list (map (\<lambda>x. length x + length sep) xs)"
  by (induction sep xs rule: join_with.induct) auto

lemma docx_blocks_total: "docx_blocks U limit n cs err = Inr out \<Longrightarrow> int n \<le> limit \<Longrightarrow>
    int (n + sum_list (map (\<lambda>x. length x + length DOCX_PARAGRAPH_SEPARATOR) out)) \<le> limit"
  by (induction cs arbitrary: n out)
    (fastforce simp: bindR_Inr guard_length_Inr Let_def split: option.splits sum.splits if_splits)+

lemma extract_text_bounded:
  assumes "extract_text U P data ct limit = Inr pages"
  shows "int (total_characters pages) \<le> limit" "pages \<noteq> []"
proof -
  have "int (total_characters pages) \<le> limit \<and> pages \<noteq> []"
  proof -
    from assms consider "extract_txt data limit = Inr pages" | "extract_pdf P data limit = Inr pages" | "extract_docx U P data limit = Inr pages"
      by (auto simp: extract_text_def split: if_splits)
    moreover have "0 < limit" using assms by (auto simp: extract_text_def split: if_splits)
    ultimately show ?thesis
    proof cases
      case 1
      then show ?thesis by (auto simp: extract_txt_def bindR_Inr guard_length_Inr total_characters_def split: sum.splits)
    next
      case 2
      then show ?thesis using pdf_pages_total[of limit 0] \<open>0 < limit\<close>
        by (auto simp: extract_pdf_def bindR_Inr split: sum.splits parse_error.splits if_splits)
    next
      case 3
      then obtain blocks cs where b: "docx_blocks U limit 0 (fst cs) (snd cs) = Inr blocks" "pages = [join_with DOCX_PARAGRAPH_SEPARATOR blocks]"
        by (auto simp: extract_docx_def bindR_Inr split: sum.splits)
      then show ?thesis using docx_blocks_total[OF b(1)] length_join_with[of DOCX_PARAGRAPH_SEPARATOR blocks] \<open>0 < limit\<close>
        by (auto simp: total_characters_def)
    qed
  qed
  then show "int (total_characters pages) \<le> limit" "pages \<noteq> []" by simp_all
qed

lemma place_pages_length:
  "place_pages sep i c texts = Inr (parts, pages) \<Longrightarrow> length (concat parts) = total_characters texts + (length texts - 1) * length sep"
proof (induction sep i c texts arbitrary: parts pages rule: place_pages.induct)
  case (2 sep i c t rest)
  then show ?case by (cases rest) (fastforce simp: bindR_Inr Let_def total_characters_def)+
qed (simp add: total_characters_def)

lemma build_extracted_length:
  assumes "build_extracted_document texts sep = Inr doc"
  shows "length (xd_text doc) = total_characters texts + (length texts - 1) * length sep" "length (xd_pages doc) = length texts"
proof -
  obtain parts pages where p: "texts \<noteq> []" "place_pages sep 0 0 texts = Inr (parts, pages)" "mk_extracted_document (concat parts) pages = Inr doc"
    using assms by (auto simp: build_extracted_document_def bindR_Inr split: if_splits)
  have "xd_text doc = concat parts" "xd_pages doc = pages" using p(3) by (auto simp: mk_extracted_document_def bindR_Inr split: if_splits)
  then show "length (xd_text doc) = total_characters texts + (length texts - 1) * length sep" "length (xd_pages doc) = length texts"
    using place_pages_length[OF p(2)] place_pages_ok[of "[]" 0 sep 0 texts] p(2) by auto
qed

lemma build_extracted_single: "build_extracted_document [t] sep = Inr \<lparr>xd_text = t, xd_pages = [\<lparr>pg_number = 1, pg_start = 0, pg_end = length t\<rparr>]\<rparr>"
  using mk_page_ref_ok[of 0 0 "length t"] by (simp add: build_extracted_document_def mk_extracted_document_def)


text \<open>
  The ceiling is not one on the text that is joined: pages without a character each bring a
  separator, so a file of blank pages exceeds it.
\<close>

definition blank_pages :: "nat \<Rightarrow> parsers" where
  "blank_pages n = \<lparr>pa_pdf = (\<lambda>_. Inr \<lparr>pr_is_encrypted = False, pr_pages = (replicate n (Inr None), None)\<rparr>),
     pa_docx = (\<lambda>_. Inl ValueError), pa_zip = (\<lambda>_. Inl DeclaredError)\<rparr>"

lemma blank_pages_exceed:
  assumes "0 < limit" "0 < n"
  shows "\<exists>doc. run_inline U (blank_pages n) limit data CONTENT_TYPE_PDF = Inr doc \<and> length (xd_text doc) = n - 1"
proof -
  have pages: "pdf_pages limit 0 (replicate n (Inr None)) None = Inr (replicate n [])" for n
    using assms(1) by (induction n) (simp_all add: guard_length_def)
  have types: "CONTENT_TYPE_PDF \<noteq> CONTENT_TYPE_TXT" by code_simp
  have "extract_text U (blank_pages n) data CONTENT_TYPE_PDF limit = Inr (replicate n [])"
    using assms types by (simp add: extract_text_def extract_pdf_def blank_pages_def pages)
  moreover obtain doc where "build_extracted_document (replicate n []) PDF_PAGE_SEPARATOR = Inr doc"
    using build_extracted_document_pages[of "replicate n []" PDF_PAGE_SEPARATOR] assms(2) by auto
  moreover from this have "length (xd_text doc) = n - 1"
    using build_extracted_length by (fastforce simp: total_characters_def PDF_PAGE_SEPARATOR_def sum_list_replicate)
  ultimately show ?thesis by (simp add: run_inline_def)
qed

text \<open>An archive that declares no compressed bytes passes the ratio whatever it declares to expand to.\<close>

lemma undeclared_compression_passes:
  "pa_zip P data = Inr [(n, 0)] \<Longrightarrow> guard_zip P data = Inr ()"
  by (simp add: guard_zip_def MAX_ZIP_ENTRIES_def)

section \<open>From an upload to its segments\<close>

lemma collect_all:
  "int (length buffer + length (concat blocks)) \<le> limit \<Longrightarrow> collect limit buffer blocks None = Inr (buffer @ concat blocks)"
  by (induction blocks arbitrary: buffer) (auto simp: Let_def)


section \<open>Worked instances\<close>



end
