(* ===== verification/Vault_Interface.thy ===== *)
theory Vault_Interface
  imports Domain Effects
begin

text \<open>
  The vault seam, \<^verbatim>\<open>app/vault/protocol.py\<close> and the two \<open>VaultLike\<close> protocols of its clients.
\<close>

section \<open>The protocol\<close>

text \<open>
  \<open>TokenVault\<close>. A Python set of tokens is passed as a list, a dict comes back as an
  association list; their order is immaterial to the clients.
\<close>

record 's vault_ops =
  vo_get_or_create_many :: "uuid \<Rightarrow> uuid \<Rightarrow> vault_write_request list \<Rightarrow> int \<Rightarrow> ('s, ustr list) op"
  vo_resolve_many :: "uuid \<Rightarrow> uuid \<Rightarrow> ustr list \<Rightarrow> ('s, (ustr \<times> ustr) list) op"
  vo_delete_session :: "uuid \<Rightarrow> uuid \<Rightarrow> ('s, nat) op"

type_synonym vault_key = "ustr \<times> ustr"

definition vault_key_of :: "vault_write_request \<Rightarrow> vault_key" where
  "vault_key_of w = (vw_entity_type w, vw_normalized_hmac w)"

text \<open>
  The contract of the docstrings. \<open>stored s tenant session\<close> maps the key of an entry (type and
  fingerprint) to its token and its original value, for the live entries of one session;
  \<open>ok n s\<close> is the invariant of the state, with room for \<open>n\<close> fresh identifiers.
\<close>

locale token_vault =
  fixes ops :: "'s vault_ops"
    and ok :: "nat \<Rightarrow> 's \<Rightarrow> bool"
    and stored :: "'s \<Rightarrow> uuid \<Rightarrow> uuid \<Rightarrow> vault_key \<Rightarrow> (ustr \<times> ustr) option"
  assumes ok_mono: "ok n s \<Longrightarrow> m \<le> n \<Longrightarrow> ok m s"
    and stored_token: "ok n s \<Longrightarrow> stored s t u k = Some (tok, v) \<Longrightarrow>
      (\<exists>tk. parse_token tok = Some tk \<and> tk_entity_type tk = fst k)"
    and stored_inj: "ok n s \<Longrightarrow> stored s t u k = Some (tok, v) \<Longrightarrow>
      stored s t u k' = Some (tok, v') \<Longrightarrow> k = k'"
    and create_ok: "ok (n + length es) s \<Longrightarrow>
      vo_get_or_create_many ops t u es ttl s = (Inr toks, s') \<Longrightarrow> ok n s'"
    and create_length: "ok (length es) s \<Longrightarrow>
      vo_get_or_create_many ops t u es ttl s = (Inr toks, s') \<Longrightarrow> length toks = length es"
    and create_stored: "ok (length es) s \<Longrightarrow>
      vo_get_or_create_many ops t u es ttl s = (Inr toks, s') \<Longrightarrow> i < length es \<Longrightarrow>
      \<exists>v. stored s' t u (vault_key_of (es ! i)) = Some (toks ! i, v)"
    and create_origin: "ok (length es) s \<Longrightarrow>
      vo_get_or_create_many ops t u es ttl s = (Inr toks, s') \<Longrightarrow> stored s' t u k = Some (tok, v) \<Longrightarrow>
      stored s t u k = Some (tok, v) \<or> (\<exists>w \<in> set es. vault_key_of w = k \<and> vw_original_value w = v)"
    and create_keeps: "ok (length es) s \<Longrightarrow>
      vo_get_or_create_many ops t u es ttl s = (Inr toks, s') \<Longrightarrow> stored s t u k = Some x \<Longrightarrow>
      stored s' t u k = Some x"
    and create_other: "ok (length es) s \<Longrightarrow>
      vo_get_or_create_many ops t u es ttl s = (r, s') \<Longrightarrow> (t', u') \<noteq> (t, u) \<Longrightarrow>
      stored s' t' u' = stored s t' u'"
    and resolve_ok: "ok n s \<Longrightarrow> vo_resolve_many ops t u toks s = (answer, s') \<Longrightarrow> ok n s' \<and> stored s' = stored s"
    and resolve_exact: "ok n s \<Longrightarrow> vo_resolve_many ops t u toks s = (Inr d, s') \<Longrightarrow>
      dict_get d tok = Some v \<longleftrightarrow> tok \<in> set toks \<and> (\<exists>k. stored s t u k = Some (tok, v))"
    and delete_stored: "ok n s \<Longrightarrow> vo_delete_session ops t u s = (Inr c, s') \<Longrightarrow>
      ok n s' \<and> stored s' = (stored s)(t := (stored s t)(u := Map.empty))"

end
