(* ===== verification/Selection.thy ===== *)
theory Selection
  imports Domain
begin

text \<open>
  Which detected spans the tokenizer acts on, \<^verbatim>\<open>app/tokenization/selection.py\<close>: bounds,
  thresholds and the leftmost-longest resolution of overlaps.
\<close>

definition ordering_key :: "detected_entity \<Rightarrow> int \<times> int \<times> rat \<times> ustr" where
  "ordering_key e = (int (de_start e), - int (de_length e), - de_score e, de_entity_type e)"

fun validate_spans :: "ustr \<Rightarrow> detected_entity list \<Rightarrow> unit res" where
  "validate_spans txt [] = Inr ()"
| "validate_spans txt (e # es) =
     (if de_end e > length txt
      then Inl (GatewayError INVALID_REQUEST ''entity span outside text bounds'')
      else validate_spans txt es)"

fun keep_leftmost :: "nat \<Rightarrow> detected_entity list \<Rightarrow> detected_entity list" where
  "keep_leftmost boundary [] = []"
| "keep_leftmost boundary (e # es) =
     (if de_start e < boundary then keep_leftmost boundary es
      else e # keep_leftmost (de_end e) es)"

definition select_leftmost :: "detected_entity list \<Rightarrow> detected_entity list" where
  "select_leftmost entities = keep_leftmost 0 (sort_key ordering_key entities)"

definition select_entities :: "ustr \<Rightarrow> detected_entity list \<Rightarrow> policy_like \<Rightarrow> detected_entity list res" where
  "select_entities txt entities policy =
     bindR (validate_spans txt entities)
       (\<lambda>_. let confident = filter (\<lambda>e. de_score e \<ge> pl_min_score_for policy (de_entity_type e)) entities
            in Inr (select_leftmost confident))"

section \<open>Properties\<close>

lemma validate_spans_iff:
  "validate_spans txt es = Inr () \<longleftrightarrow> (\<forall>e \<in> set es. de_end e \<le> length txt)"
  by (induction es) auto

lemma validate_spans_error:
  "validate_spans txt es = Inl x \<Longrightarrow> x = GatewayError INVALID_REQUEST ''entity span outside text bounds''"
  by (induction es) (auto split: if_splits)

lemma keep_leftmost_subset: "set (keep_leftmost b es) \<subseteq> set es"
  by (induction b es rule: keep_leftmost.induct) auto

lemma keep_leftmost_lower: "e \<in> set (keep_leftmost b es) \<Longrightarrow> \<forall>x \<in> set es. wf_entity x \<Longrightarrow> b \<le> de_start e"
  by (induction b es rule: keep_leftmost.induct) (fastforce simp: wf_entity_def split: if_splits)+

lemma keep_leftmost_disjoint:
  "\<forall>x \<in> set es. wf_entity x \<Longrightarrow> disjoint_ordered (keep_leftmost b es)"
proof (induction b es rule: keep_leftmost.induct)
  case (2 b e es)
  then show ?case using keep_leftmost_lower[of _ "de_end e" es] by auto
qed simp

text \<open>
  A span is dropped only for a kept one that starts no later and reaches into it.
  \<open>k\<close> is the span whose end is the current boundary.
\<close>

lemma keep_leftmost_covers:
  assumes "sorted (map ordering_key es)" "\<forall>x \<in> set es. wf_entity x" "e \<in> set es"
    and "b = 0 \<or> (\<exists>k. b = de_end k \<and> wf_entity k \<and> (\<forall>x \<in> set es. de_start k \<le> de_start x) \<and> k \<in> S)"
  shows "\<exists>k \<in> set (keep_leftmost b es) \<union> S. k = e \<or> overlaps e k"
  using assms
proof (induction b es arbitrary: S rule: keep_leftmost.induct)
  case (2 b x es)
  have le: "de_start x \<le> de_start y" if "y \<in> set es" for y
    using 2(3) that by (auto simp: ordering_key_def less_eq_prod_def)
  show ?case
  proof (cases "de_start x < b")
    case True
    then obtain k where k: "b = de_end k" "wf_entity k" "de_start k \<le> de_start x" "k \<in> S"
      using 2(6) by auto
    have "overlaps x k" using True k 2(4) by (auto simp: overlaps_def wf_entity_def)
    moreover have "\<exists>k \<in> set (keep_leftmost b es) \<union> S. k = e \<or> overlaps e k" if "e \<noteq> x"
    proof (rule 2(1)[OF True])
      show "b = 0 \<or> (\<exists>k. b = de_end k \<and> wf_entity k \<and> (\<forall>x \<in> set es. de_start k \<le> de_start x) \<and> k \<in> S)"
        using 2(6) by auto
    qed (use that 2(3-5) in auto)
    ultimately show ?thesis using k(4) True by (cases "e = x") auto
  next
    case False
    have "\<exists>k \<in> set (keep_leftmost (de_end x) es) \<union> {x}. k = e \<or> overlaps e k" if "e \<noteq> x"
      using that 2(2)[OF False, of "{x}"] 2(3-5) le by auto
    then show ?thesis using False by (cases "e = x") auto
  qed
qed simp

lemma keep_leftmost_length: "length (keep_leftmost b es) \<le> length es"
  by (induction b es rule: keep_leftmost.induct) auto

lemma select_leftmost_length: "length (select_leftmost es) \<le> length es"
  using keep_leftmost_length[of 0 "sort_key ordering_key es"] by (simp add: select_leftmost_def)

interpretation sel: span_resolver select_leftmost
proof
  fix es show "set (select_leftmost es) \<subseteq> set es"
    using keep_leftmost_subset[of 0 "sort_key ordering_key es"] by (simp add: select_leftmost_def)
next
  fix es :: "detected_entity list" assume "\<forall>e \<in> set es. wf_entity e"
  then show "disjoint_ordered (select_leftmost es)"
    by (simp add: select_leftmost_def keep_leftmost_disjoint)
next
  fix e and es :: "detected_entity list" assume "\<forall>e \<in> set es. wf_entity e" "e \<in> set es"
  then show "\<exists>k \<in> set (select_leftmost es). k = e \<or> overlaps e k"
    using keep_leftmost_covers[of "sort_key ordering_key es" e 0 "{}"]
    by (simp add: select_leftmost_def)
qed

definition confident_for :: "policy_like \<Rightarrow> detected_entity \<Rightarrow> bool" where
  "confident_for policy e \<longleftrightarrow> pl_min_score_for policy (de_entity_type e) \<le> de_score e"

lemma select_entities_Inr:
  "select_entities txt es policy = Inr sel \<longleftrightarrow>
     (\<forall>e \<in> set es. de_end e \<le> length txt) \<and> sel = select_leftmost (filter (confident_for policy) es)"
  by (auto simp: select_entities_def result_simps validate_spans_iff confident_for_def[abs_def])

text \<open>Selection changes nothing on spans that are ordered, disjoint, confident and in bounds.\<close>

lemma select_entities_id:
  assumes "disjoint_ordered es" "\<forall>e \<in> set es. wf_entity e \<and> de_end e \<le> length txt \<and> confident_for policy e"
  shows "select_entities txt es policy = Inr es"
proof -
  have "filter (confident_for policy) es = es" using assms(2) by (simp add: filter_id_conv)
  then show ?thesis using assms sel.resolve_id[of es] by (simp add: select_entities_Inr)
qed

lemma select_entities_spans:
  assumes "select_entities txt es policy = Inr sel" "\<forall>e \<in> set es. wf_entity e"
  shows "disjoint_ordered sel" "\<forall>e \<in> set sel. wf_entity e \<and> de_end e \<le> length txt \<and> confident_for policy e"
    "set sel \<subseteq> set es"
  using assms sel.keeps_candidates[of "filter (confident_for policy) es"]
    sel.keeps_disjoint[of "filter (confident_for policy) es"]
  by (auto simp: select_entities_Inr)

text \<open>
  Selection yields spans that can be spliced: ordered, disjoint, inside the text and
  above their threshold; and every detection above its threshold is kept or shares a
  character with one that is. A detection outside the text refuses the whole request.
\<close>

theorem select_entities_correct:
  assumes "\<forall>e \<in> set es. wf_entity e"
  shows "case select_entities txt es policy of
       Inl x \<Rightarrow> err_code x = INVALID_REQUEST \<and> (\<exists>e \<in> set es. length txt < de_end e)
     | Inr sel \<Rightarrow> disjoint_ordered sel
         \<and> (\<forall>e \<in> set sel. e \<in> set es \<and> de_end e \<le> length txt \<and> confident_for policy e)
         \<and> (\<forall>e \<in> set es. confident_for policy e \<longrightarrow> (\<exists>k \<in> set sel. k = e \<or> overlaps e k))"
proof (cases "select_entities txt es policy")
  case (Inl x)
  then have v: "validate_spans txt es = Inl x" by (auto simp: select_entities_def result_simps)
  then have "\<not> (\<forall>e \<in> set es. de_end e \<le> length txt)" using validate_spans_iff[of "txt" es] by auto
  then show ?thesis using Inl validate_spans_error[OF v] by (auto simp: not_le)
next
  case (Inr sel)
  then have "sel = select_leftmost (filter (confident_for policy) es)"
    by (simp add: select_entities_Inr)
  moreover have "\<forall>e \<in> set (filter (confident_for policy) es). wf_entity e" using assms by simp
  ultimately have "\<forall>e \<in> set es. confident_for policy e \<longrightarrow> (\<exists>k \<in> set sel. k = e \<or> overlaps e k)"
    using sel.drops_overlapped by auto
  then show ?thesis using Inr select_entities_spans[OF Inr assms] by auto
qed

theorem select_entities_correct_witness:
  "case select_entities (lit ''a b c'') [sample_span (lit ''PERSON'') 1 3] sample_policy of
       Inl x \<Rightarrow> err_code x = INVALID_REQUEST
         \<and> (\<exists>e \<in> set [sample_span (lit ''PERSON'') 1 3]. length (lit ''a b c'') < de_end e)
     | Inr sel \<Rightarrow> disjoint_ordered sel
         \<and> (\<forall>e \<in> set sel. e \<in> set [sample_span (lit ''PERSON'') 1 3] \<and> de_end e \<le> length (lit ''a b c'')
              \<and> confident_for sample_policy e)
         \<and> (\<forall>e \<in> set [sample_span (lit ''PERSON'') 1 3]. confident_for sample_policy e \<longrightarrow>
              (\<exists>k \<in> set sel. k = e \<or> overlaps e k))"
  by (rule select_entities_correct) (simp add: sample_span_def wf_entity_def)

end
