(* ===== verification/Normalization.thy ===== *)
theory Normalization
  imports Domain
begin

text \<open>
  Canonical forms used for fingerprint matching, \<^verbatim>\<open>app/tokenization/normalization.py\<close>.
  The Unicode operations come from the character database \<open>U\<close>.
\<close>

definition compatibility_form :: "ucd \<Rightarrow> ustr \<Rightarrow> ustr" where
  "compatibility_form U value = ud_nfkc U value"

definition collapse_whitespace :: "ucd \<Rightarrow> ustr \<Rightarrow> ustr" where
  "collapse_whitespace U value = join_with [32] (split_ws U value)"

definition ascii_digits :: "ucd \<Rightarrow> ustr \<Rightarrow> ustr" where
  "ascii_digits U value = map (\<lambda>c. 48 + ud_decimal U c) (filter (ud_isdecimal U) value)"

definition alphanumeric_upper :: "ucd \<Rightarrow> ustr \<Rightarrow> ustr" where
  "alphanumeric_upper U value = ud_upper U (filter (ud_isalnum U) (compatibility_form U value))"

definition normalize_default :: "ucd \<Rightarrow> ustr \<Rightarrow> ustr" where
  "normalize_default U value = collapse_whitespace U (compatibility_form U value)"

definition normalize_email :: "ucd \<Rightarrow> ustr \<Rightarrow> ustr" where
  "normalize_email U value = ud_lower U (collapse_whitespace U (compatibility_form U value))"

definition normalize_phone :: "ucd \<Rightarrow> ustr \<Rightarrow> ustr" where
  "normalize_phone U value = ascii_digits U (compatibility_form U value)"

definition normalize_person :: "ucd \<Rightarrow> ustr \<Rightarrow> ustr" where
  "normalize_person U value = collapse_whitespace U (compatibility_form U value)"

definition normalize_numeric_identifier :: "ucd \<Rightarrow> ustr \<Rightarrow> ustr" where
  "normalize_numeric_identifier U value = ascii_digits U (compatibility_form U value)"

definition normalize_alphanumeric_identifier :: "ucd \<Rightarrow> ustr \<Rightarrow> ustr" where
  "normalize_alphanumeric_identifier U value = alphanumeric_upper U value"

definition normalize_hostname :: "ucd \<Rightarrow> ustr \<Rightarrow> ustr" where
  "normalize_hostname U value = ud_lower U (collapse_whitespace U (compatibility_form U value))"

definition normalize_case_sensitive :: "ucd \<Rightarrow> ustr \<Rightarrow> ustr" where
  "normalize_case_sensitive U value = strip U (compatibility_form U value)"

definition NORMALIZERS :: "ucd \<Rightarrow> (ustr \<times> (ustr \<Rightarrow> ustr)) list" where
  "NORMALIZERS U =
     [(lit ''EMAIL_ADDRESS'', normalize_email U),
      (lit ''PHONE_NUMBER'', normalize_phone U),
      (lit ''PERSON'', normalize_person U),
      (lit ''LOCATION'', normalize_person U),
      (lit ''ORGANIZATION'', normalize_person U),
      (lit ''NRP'', normalize_person U),
      (lit ''US_SSN'', normalize_numeric_identifier U),
      (lit ''US_ITIN'', normalize_numeric_identifier U),
      (lit ''US_BANK_NUMBER'', normalize_numeric_identifier U),
      (lit ''CREDIT_CARD'', normalize_numeric_identifier U),
      (lit ''UK_NHS'', normalize_numeric_identifier U),
      (lit ''IBAN_CODE'', normalize_alphanumeric_identifier U),
      (lit ''US_PASSPORT'', normalize_alphanumeric_identifier U),
      (lit ''US_DRIVER_LICENSE'', normalize_alphanumeric_identifier U),
      (lit ''MEDICAL_LICENSE'', normalize_alphanumeric_identifier U),
      (lit ''IP_ADDRESS'', normalize_hostname U),
      (lit ''URL'', normalize_hostname U),
      (lit ''DOMAIN_NAME'', normalize_hostname U),
      (lit ''CRYPTO'', normalize_case_sensitive U)]"

definition normalizer_for :: "ucd \<Rightarrow> ustr \<Rightarrow> ustr \<Rightarrow> ustr" where
  "normalizer_for U entity_type =
     (case dict_get (NORMALIZERS U) (ud_upper U entity_type) of
        None \<Rightarrow> normalize_default U | Some f \<Rightarrow> f)"

definition normalize :: "ucd \<Rightarrow> ustr \<Rightarrow> ustr \<Rightarrow> ustr" where
  "normalize U entity_type value = normalizer_for U entity_type value"

section \<open>Properties\<close>

text \<open>Splitting the joined words gives the words back, so collapsing is idempotent.\<close>

lemma words_acc_word: "\<forall>c \<in> set w. \<not> ud_isspace U c \<Longrightarrow> words_acc U a (w @ s) = words_acc U (a @ w) s"
  by (induction w arbitrary: a) auto

lemma words_acc_props:
  "\<forall>c \<in> set a. \<not> ud_isspace U c \<Longrightarrow> w \<in> set (words_acc U a s) \<Longrightarrow>
     w \<noteq> [] \<and> (\<forall>c \<in> set w. \<not> ud_isspace U c)"
proof (induction U a s rule: words_acc.induct)
  case (1 U w)
  then show ?case by (cases "w = []") simp_all
next
  case (2 U a c cs)
  show ?case
  proof (cases "ud_isspace U c")
    case True
    then show ?thesis using 2 by (cases "a = []") fastforce+
  next
    case False
    then show ?thesis using 2 by (cases "a = []") fastforce+
  qed
qed

lemma split_ws_join:
  assumes "ud_isspace U 32" "\<forall>w \<in> set ws. w \<noteq> [] \<and> (\<forall>c \<in> set w. \<not> ud_isspace U c)"
  shows "split_ws U (join_with [32] ws) = ws"
  using assms(2) unfolding split_ws_def
proof (induction ws rule: induct_list012)
  case (2 w)
  then show ?case using words_acc_word[of w U "[]" "[]"] by simp
next
  case (3 w v ws)
  then show ?case using words_acc_word[of w U "[]"] assms(1) by simp
qed simp

lemma collapse_idem:
  "ud_isspace U 32 \<Longrightarrow> collapse_whitespace U (collapse_whitespace U s) = collapse_whitespace U s"
  unfolding collapse_whitespace_def using words_acc_props[of "[]" U]
  by (subst split_ws_join) (auto simp: split_ws_def)

end
