(* ===== verification/Pseudonyms.thy ===== *)
theory Pseudonyms
  imports Framing Domain
begin

text \<open>
  Shape-preserving surrogates, \<^verbatim>\<open>app/tokenization/pseudonyms.py\<close>. The hash \<open>blake2b\<close> with a
  64-byte digest is an argument. The loop of \<open>_keystream\<close> grows by one digest per turn; it is
  run with one unit of fuel per requested byte, and \<open>keystream_returns\<close> shows that this is
  enough whenever the digest has the documented length.
\<close>

fun keystream_loop :: "(bytes \<Rightarrow> bytes) \<Rightarrow> bytes \<Rightarrow> nat \<Rightarrow> nat \<Rightarrow> nat \<Rightarrow> bytes \<Rightarrow> bytes res" where
  "keystream_loop blake seed n 0 counter blocks = (if length blocks < n then Inl Diverges else Inr (take n blocks))"
| "keystream_loop blake seed n (Suc fuel) counter blocks =
     (if length blocks < n
      then bindR (to_bytes_be 4 counter)
             (\<lambda>c. keystream_loop blake seed n fuel (counter + 1) (blocks @ blake (seed @ c)))
      else Inr (take n blocks))"

definition keystream :: "(bytes \<Rightarrow> bytes) \<Rightarrow> bytes \<Rightarrow> nat \<Rightarrow> bytes res" where
  "keystream blake seed n = (if n \<le> 0 then Inr [] else keystream_loop blake seed n n 0 [])"

text \<open>\<open>_substitute\<close>.\<close>

definition substitute_char :: "ucd \<Rightarrow> uchar \<Rightarrow> nat \<Rightarrow> uchar" where
  "substitute_char U source noise =
     (if ud_isdigit U source then 48 + noise mod 10
      else if ud_isalpha U source
        then (if source < 128 \<and> ud_isupper U source then 65 + noise mod 26 else 97 + noise mod 26)
      else source)"

definition surrogate_for :: "ucd \<Rightarrow> (bytes \<Rightarrow> bytes) \<Rightarrow> ustr \<Rightarrow> ustr \<Rightarrow> ustr \<Rightarrow> ustr res" where
  "surrogate_for U blake entity_type original_value fingerprint =
     bindR (utf8_encode (fingerprint @ 58 # entity_type))
       (\<lambda>seed. bindR (keystream blake seed (length original_value))
         (\<lambda>stream. if length original_value \<noteq> length stream then Inl ValueError
                   else Inr (map2 (substitute_char U) original_value stream)))"

section \<open>Properties\<close>

lemma keystream_loop_length:
  "keystream_loop blake seed n fuel c blocks = Inr s \<Longrightarrow> length s = n"
  by (induction blake seed n fuel c blocks rule: keystream_loop.induct)
    (auto simp: result_simps split: if_splits)

lemma keystream_length: "keystream blake seed n = Inr s \<Longrightarrow> length s = n"
  by (auto simp: keystream_def keystream_loop_length split: if_splits)

lemma keystream_loop_returns:
  assumes "\<forall>x. length (blake x) = 64" "n \<le> length blocks + 64 * fuel" "counter + fuel \<le> 256 ^ 4"
  shows "\<exists>s. keystream_loop blake seed n fuel counter blocks = Inr s"
  using assms(2,3)
proof (induction fuel arbitrary: counter blocks)
  case (Suc fuel)
  then have "counter < 256 ^ 4" by simp
  moreover have "\<exists>s. keystream_loop blake seed n fuel (counter + 1) (blocks @ blake (seed @ enc_be 256 4 counter)) = Inr s"
    using Suc.prems assms(1) by (intro Suc.IH) simp_all
  ultimately show ?case by (simp add: to_bytes_be_def)
qed simp

lemma keystream_returns:
  assumes "\<forall>x. length (blake x) = 64" "n \<le> 256 ^ 4"
  shows "\<exists>s. keystream blake seed n = Inr s"
  using keystream_loop_returns[OF assms(1), of n "[]" n 0 seed] assms(2) by (simp add: keystream_def)

definition same_shape :: "ucd \<Rightarrow> uchar \<Rightarrow> uchar \<Rightarrow> bool" where
  "same_shape U a b \<longleftrightarrow>
     (ud_isdigit U a \<longrightarrow> ascii_digit b) \<and>
     (\<not> ud_isdigit U a \<and> ud_isalpha U a \<longrightarrow>
        (if a < 128 \<and> ud_isupper U a then ascii_upper b else ascii_lower b)) \<and>
     (\<not> ud_isdigit U a \<and> \<not> ud_isalpha U a \<longrightarrow> b = a)"

lemma substitute_char_shape: "same_shape U a (substitute_char U a n)"
proof -
  have "n mod 10 < 10" "n mod 26 < 26" by simp_all
  then show ?thesis unfolding same_shape_def substitute_char_def ascii_digit_def ascii_upper_def ascii_lower_def
    by auto
qed

text \<open>
  A surrogate exists for every value and has its shape: the same length, digits for
  digits, letters for letters, and every other character verbatim. With the documented digest
  length the keystream loop returns.
\<close>

theorem surrogate_for_shape:
  assumes blake: "\<forall>x. length (blake x) = 64"
    and "utf8_encode (fingerprint @ 58 # entity_type) = Inr seed" "length original \<le> 256 ^ 4"
  shows "\<exists>s. surrogate_for U blake entity_type original fingerprint = Inr s
    \<and> list_all2 (same_shape U) original s"
proof -
  obtain stream where s: "keystream blake seed (length original) = Inr stream"
    using keystream_returns[OF blake assms(3)] by blast
  have len: "length stream = length original" using keystream_length[OF s] .
  have "list_all2 (same_shape U) original (map2 (substitute_char U) original stream)"
    using len by (auto simp: list_all2_conv_all_nth substitute_char_shape)
  then show ?thesis using assms(2) s len by (simp add: surrogate_for_def)
qed

theorem surrogate_for_shape_witness:
  "\<exists>s. surrogate_for ascii_ucd (\<lambda>x. replicate 64 7) (lit ''PHONE_NUMBER'') (lit ''+1 555'') (lit ''ab'') = Inr s
    \<and> list_all2 (same_shape ascii_ucd) (lit ''+1 555'') s"
proof (rule surrogate_for_shape)
  show "utf8_encode (lit ''ab'' @ 58 # lit ''PHONE_NUMBER'') = Inr (lit ''ab'' @ 58 # lit ''PHONE_NUMBER'')"
    by (rule utf8_encode_ascii) auto
qed simp_all

lemma surrogate_chars:
  assumes "surrogate_for U blake t original f = Inr s" "c \<in> set s" "128 \<le> c"
  shows "c \<in> set original"
proof -
  from assms(1) obtain stream where s: "s = map2 (substitute_char U) original stream"
    by (auto simp: surrogate_for_def result_simps split: if_splits)
  from assms(2) s obtain a n where an: "a \<in> set original" "c = substitute_char U a n"
    by (auto dest: set_zip_leftD)
  have "n mod 10 < 10" "n mod 26 < 26" by simp_all
  then have "c = a" using an(2) assms(3) unfolding substitute_char_def by (auto split: if_splits)
  then show ?thesis using an(1) by simp
qed

lemma surrogate_length: "surrogate_for U blake t original f = Inr s \<Longrightarrow> length s = length original"
  by (auto simp: surrogate_for_def result_simps split: if_splits)

end
