(* ===== verification/Tokenizer.thy ===== *)
theory Tokenizer
  imports Vault_Interface Selection Normalization Fingerprint Pseudonyms
begin

text \<open>
  The tokenizer, \<^verbatim>\<open>app/tokenization/tokenizer.py\<close>: select, enforce the limit, refuse blocked
  spans, mint every mapping in one vault call, then splice from right to left. The vault is
  any record of operations; the Unicode database, HMAC and BLAKE2b come in \<open>tok_env\<close>.
\<close>

record tok_env =
  te_ucd :: ucd
  te_hmac :: "bytes \<Rightarrow> bytes \<Rightarrow> bytes"
  te_blake :: "bytes \<Rightarrow> bytes"
  te_key :: bytes

type_synonym plan = "(detected_entity \<times> entity_action) list"

definition MAPPING_ACTIONS :: "entity_action set" where
  "MAPPING_ACTIONS = {TOKENIZE, PSEUDONYMIZE}"

record pending =
  pe_index :: nat
  pe_original :: ustr
  pe_entity_type :: ustr
  pe_normalized_hmac :: ustr

text \<open>\<open>_enforce_limit\<close> and \<open>_reject_blocked\<close>.\<close>

definition enforce_limit :: "detected_entity list \<Rightarrow> policy_like \<Rightarrow> unit res" where
  "enforce_limit selected policy =
     (if int (length selected) \<le> pl_max_entities policy then Inr ()
      else Inl (GatewayError ENTITY_LIMIT_EXCEEDED []))"

fun reject_blocked :: "plan \<Rightarrow> unit res" where
  "reject_blocked [] = Inr ()"
| "reject_blocked ((entity, action) # plan) =
     (if action = BLOCK then Inl (GatewayError POLICY_VIOLATION []) else reject_blocked plan)"

definition pending_for :: "tok_env \<Rightarrow> uuid \<Rightarrow> uuid \<Rightarrow> nat \<Rightarrow> ustr \<Rightarrow> ustr \<Rightarrow> pending res" where
  "pending_for env tenant_id session_id index original entity_type =
     (let normalized = normalize (te_ucd env) entity_type original
      in bindR (fingerprint (te_hmac env) (te_key env)
                 \<lparr>fi_tenant_id = tenant_id, fi_session_id = session_id,
                  fi_entity_type = entity_type, fi_normalized_value = normalized\<rparr>)
           (\<lambda>hmac. Inr \<lparr>pe_index = index, pe_original = original, pe_entity_type = entity_type,
                        pe_normalized_hmac = hmac\<rparr>))"

definition coerce_vault_token :: "ustr \<Rightarrow> ustr \<Rightarrow> token res" where
  "coerce_vault_token raw_token entity_type =
     (case parse_token raw_token of
        Some parsed \<Rightarrow>
          if tk_entity_type parsed \<noteq> entity_type
          then Inl (GatewayError INTERNAL_ERROR ''vault token entity type does not match the request'')
          else Inr parsed
      | None \<Rightarrow>
          if is_valid_token_id raw_token
          then Inr \<lparr>tk_entity_type = entity_type, tk_token_id = raw_token\<rparr>
          else Inl (GatewayError INTERNAL_ERROR ''vault returned a malformed token''))"

text \<open>\<open>token.text\<close> goes through \<open>format_token\<close>, which raises on a malformed type.\<close>

definition mapping_for :: "pending \<Rightarrow> ustr \<Rightarrow> entity_mapping res" where
  "mapping_for item raw_token =
     bindR (coerce_vault_token raw_token (pe_entity_type item))
       (\<lambda>token. bindR (format_token (tk_entity_type token) (tk_token_id token))
         (\<lambda>txt. Inr \<lparr>em_token = txt, em_token_id = tk_token_id token,
                     em_entity_type = pe_entity_type item, em_original_value = pe_original item,
                     em_normalized_hmac = pe_normalized_hmac item\<rparr>))"

definition pending_of_plan :: "tok_env \<Rightarrow> uuid \<Rightarrow> uuid \<Rightarrow> ustr \<Rightarrow> plan \<Rightarrow> pending list res" where
  "pending_of_plan env tenant_id session_id txt plan =
     traverseR (\<lambda>(index, entity, action).
         pending_for env tenant_id session_id index
           (slice txt (de_start entity) (de_end entity)) (de_entity_type entity))
       (filter (\<lambda>(index, entity, action). action \<in> MAPPING_ACTIONS) (enumerate 0 plan))"

definition write_request_of :: "pending \<Rightarrow> vault_write_request" where
  "write_request_of item = \<lparr>vw_entity_type = pe_entity_type item,
     vw_normalized_hmac = pe_normalized_hmac item, vw_original_value = pe_original item\<rparr>"

definition mint :: "tok_env \<Rightarrow> 's vault_ops \<Rightarrow> uuid \<Rightarrow> uuid \<Rightarrow> ustr \<Rightarrow> plan \<Rightarrow> int \<Rightarrow>
    ('s, (nat \<times> entity_mapping) list) op" where
  "mint env ops tenant_id session_id txt plan ttl_seconds =
     bindS (liftS (pending_of_plan env tenant_id session_id txt plan)) (\<lambda>pending.
       if pending = [] then liftS (Inr [])
       else bindS (vo_get_or_create_many ops tenant_id session_id (map write_request_of pending) ttl_seconds)
         (\<lambda>tokens.
           if length tokens \<noteq> length pending
           then liftS (Inl (GatewayError INTERNAL_ERROR ''vault returned the wrong number of tokens''))
           else liftS (traverseR (\<lambda>(item, raw_token).
                  bindR (mapping_for item raw_token) (\<lambda>m. Inr (pe_index item, m))) (zip pending tokens))))"

text \<open>\<open>_replacement_for\<close>: \<open>None\<close> leaves the span alone.\<close>

definition replacement_for :: "tok_env \<Rightarrow> entity_action \<Rightarrow> ustr \<Rightarrow> entity_mapping option \<Rightarrow> ustr \<Rightarrow>
    ustr option res" where
  "replacement_for env action entity_type mapping original =
     (if action = ALLOW then Inr None
      else if action = REDACT then bindR (format_redaction entity_type) (\<lambda>r. Inr (Some r))
      else (case mapping of
              None \<Rightarrow> Inl AssertionError
            | Some m \<Rightarrow>
                if action = PSEUDONYMIZE
                then bindR (surrogate_for (te_ucd env) (te_blake env) entity_type original (em_normalized_hmac m))
                       (\<lambda>r. Inr (Some r))
                else Inr (Some (em_token m))))"

text \<open>
  The splice loop of \<open>transform\<close> over \<open>(index, entity, action)\<close> in splice order, with its
  variables \<open>pieces\<close>, \<open>mappings\<close> and \<open>cursor\<close>.
\<close>

fun splice_loop :: "tok_env \<Rightarrow> ustr \<Rightarrow> (nat \<times> entity_mapping) list \<Rightarrow> (nat \<times> detected_entity \<times> entity_action) list \<Rightarrow>
    ustr list \<Rightarrow> entity_mapping list \<Rightarrow> nat \<Rightarrow> (ustr list \<times> entity_mapping list \<times> nat) res" where
  "splice_loop env txt minted [] pieces mappings cursor = Inr (pieces, mappings, cursor)"
| "splice_loop env txt minted ((index, entity, action) # order) pieces mappings cursor =
     (let mapping = dict_get minted index;
          mappings = (case mapping of None \<Rightarrow> mappings | Some m \<Rightarrow> mappings @ [m])
      in bindR (replacement_for env action (de_entity_type entity) mapping
                  (slice txt (de_start entity) (de_end entity)))
           (\<lambda>replacement. case replacement of
               None \<Rightarrow> splice_loop env txt minted order pieces mappings cursor
             | Some r \<Rightarrow> splice_loop env txt minted order
                  (pieces @ [slice txt (de_end entity) cursor, r]) mappings (de_start entity)))"

text \<open>\<open>sorted(..., reverse=True)\<close> is stable: it sorts the reversed list and reverses back.\<close>

definition splice_order :: "plan \<Rightarrow> (nat \<times> detected_entity \<times> entity_action) list" where
  "splice_order plan = rev (sort_key (\<lambda>(index, entity, action). de_start entity) (rev (enumerate 0 plan)))"

definition tally :: "entity_action \<Rightarrow> plan \<Rightarrow> nat" where
  "tally a plan = length (filter (\<lambda>(e, b). b = a) plan)"

definition summarize :: "plan \<Rightarrow> privacy_summary" where
  "summarize plan =
     \<lparr>ps_detected = length plan, ps_tokenized = tally TOKENIZE plan, ps_redacted = tally REDACT plan,
      ps_pseudonymized = tally PSEUDONYMIZE plan, ps_blocked = 0, ps_allowed = tally ALLOW plan,
      ps_restored = 0, ps_unknown_tokens = 0,
      ps_entity_types = fold (\<lambda>(e, a) d. dict_incr (de_entity_type e) 1 d) plan []\<rparr>"

definition splice :: "tok_env \<Rightarrow> ustr \<Rightarrow> (nat \<times> entity_mapping) list \<Rightarrow> plan \<Rightarrow> transformed_text res" where
  "splice env txt minted plan =
     bindR (splice_loop env txt minted (splice_order plan) [] [] (length txt))
       (\<lambda>(pieces, mappings, cursor).
          Inr \<lparr>tt_text = concat (rev (pieces @ [slice txt 0 cursor])), tt_mappings = rev mappings,
               tt_summary = summarize plan\<rparr>)"

definition plan_for :: "policy_like \<Rightarrow> detected_entity list \<Rightarrow> plan" where
  "plan_for policy selected = map (\<lambda>e. (e, pl_action_for policy (de_entity_type e))) selected"

definition transform :: "tok_env \<Rightarrow> 's vault_ops \<Rightarrow> uuid \<Rightarrow> uuid \<Rightarrow> ustr \<Rightarrow> detected_entity list \<Rightarrow>
    policy_like \<Rightarrow> ('s, transformed_text) op" where
  "transform env ops tenant_id session_id txt entities policy =
     bindS (liftS (select_entities txt entities policy)) (\<lambda>selected.
     bindS (liftS (enforce_limit selected policy)) (\<lambda>_.
       let plan = plan_for policy selected in
       bindS (liftS (reject_blocked plan)) (\<lambda>_.
       bindS (mint env ops tenant_id session_id txt plan (pl_session_ttl_seconds policy)) (\<lambda>minted.
         liftS (splice env txt minted plan)))))"


section \<open>Splicing right to left is rebuilding left to right\<close>

text \<open>
  What replaces each span, and the edits \<open>(start, end, replacement)\<close> this makes: a span whose
  replacement is \<open>None\<close> stays as it is.
\<close>

definition replacement_at :: "tok_env \<Rightarrow> ustr \<Rightarrow> (nat \<times> entity_mapping) list \<Rightarrow>
    nat \<times> detected_entity \<times> entity_action \<Rightarrow> ustr option res" where
  "replacement_at env txt minted = (\<lambda>(index, entity, action).
     replacement_for env action (de_entity_type entity) (dict_get minted index)
       (slice txt (de_start entity) (de_end entity)))"

fun edits :: "(nat \<times> detected_entity \<times> entity_action) list \<Rightarrow> ustr option list \<Rightarrow> (nat \<times> nat \<times> ustr) list" where
  "edits ((i, e, a) # xs) (Some r # rs) = (de_start e, de_end e, r) # edits xs rs"
| "edits ((i, e, a) # xs) (None # rs) = edits xs rs"
| "edits _ _ = []"

lemma edits_append:
  "length xs = length rs \<Longrightarrow> edits (xs @ ys) (rs @ qs) = edits xs rs @ edits ys qs"
  by (induction xs rs rule: edits.induct) auto

lemma edits_rev: "length xs = length rs \<Longrightarrow> edits (rev xs) (rev rs) = rev (edits xs rs)"
proof (induction xs rs rule: list_induct2)
  case (Cons x xs r rs)
  then show ?case by (cases x; cases r) (auto simp: edits_append)
qed simp

lemma edits_subset: "(s, e', r) \<in> set (edits xs rs) \<Longrightarrow> \<exists>i e a. (i, e, a) \<in> set xs \<and> s = de_start e \<and> e' = de_end e"
  by (induction xs rs rule: edits.induct) auto

lemma splice_loop_Inr:
  "splice_loop env txt minted order pieces mappings cursor = Inr (p, m, c) \<longleftrightarrow>
     (\<exists>rs. list_all2 (\<lambda>x r. replacement_at env txt minted x = Inr r) order rs
        \<and> splice_right txt (edits order rs) (pieces, cursor) = (p, c)
        \<and> m = mappings @ List.map_filter (\<lambda>(i, e, a). dict_get minted i) order)"
proof (induction order arbitrary: pieces mappings cursor)
  case (Cons x order)
  obtain i e a where x: "x = (i, e, a)" by (cases x)
  show ?case
  proof (cases "replacement_at env txt minted x")
    case (Inr r)
    then show ?thesis using x Cons
      by (cases r) (auto simp: replacement_at_def Let_def list_all2_Cons1 map_filter_simps split: option.splits)
  qed (use x in \<open>auto simp: replacement_at_def Let_def list_all2_Cons1\<close>)
qed (auto simp: map_filter_simps)

lemma map_filter_rev: "List.map_filter f (rev xs) = rev (List.map_filter f xs)"
  by (simp add: List.map_filter_def rev_map rev_filter)

lemma splice_order_rev:
  assumes "disjoint_ordered (map fst plan)" "\<forall>(e, a) \<in> set plan. wf_entity e"
  shows "splice_order plan = rev (enumerate 0 plan)"
proof -
  let ?f = "\<lambda>(index::nat, entity, action::entity_action). de_start entity"
  have sorted: "sorted (map ?f (enumerate n plan)) \<and> inj_on ?f (set (enumerate n plan))" for n
    using assms
  proof (induction plan arbitrary: n)
    case (Cons p plan)
    obtain e a where p: "p = (e, a)" by (cases p)
    have "de_start e < de_start e'" if "(j, e', a') \<in> set (enumerate (Suc n) plan)" for j e' a'
    proof -
      have "(e', a') \<in> set plan" using that by (metis enumerate_eq_zip set_zip_rightD)
      then have "de_end e \<le> de_start e'" using Cons.prems(1) p by force
      then show ?thesis using Cons.prems(2) p by (auto simp: wf_entity_def)
    qed
    then have less: "\<forall>y \<in> set (enumerate (Suc n) plan). de_start e < ?f y" by auto
    have ih: "sorted (map ?f (enumerate (Suc n) plan)) \<and> inj_on ?f (set (enumerate (Suc n) plan))"
      using Cons by simp
    have "inj_on ?f (insert (n, e, a) (set (enumerate (Suc n) plan)))"
      using ih less by (subst inj_on_insert) force
    then show ?case using ih less p by (auto intro: less_imp_le)
  qed simp
  have "sort_key ?f (rev (enumerate 0 plan)) = enumerate 0 plan"
    by (rule sort_key_inj_key_eq) (use sorted[of 0] in simp_all)
  then show ?thesis by (simp add: splice_order_def)
qed


lemma spans_ordered_edits:
  assumes "disjoint_ordered (map fst plan)" "\<forall>(e, a) \<in> set plan. wf_entity e \<and> de_end e \<le> length txt"
    and "length rs = length plan"
  shows "spans_ordered (length txt) (edits (enumerate n plan) rs)"
  using assms
proof (induction plan arbitrary: rs n)
  case (Cons p plan)
  obtain e a where p: "p = (e, a)" by (cases p)
  obtain r rs' where rs: "rs = r # rs'" using Cons.prems(3) by (cases rs) auto
  have ih: "spans_ordered (length txt) (edits (enumerate (Suc n) plan) rs')"
    using Cons rs by simp
  have "de_end e \<le> s" if mem: "(s, e', x) \<in> set (edits (enumerate (Suc n) plan) rs')" for s e' x
  proof -
    obtain i e2 a2 where m: "(i, e2, a2) \<in> set (enumerate (Suc n) plan)" "s = de_start e2"
      using edits_subset[OF mem] by blast
    from m(1) have "(e2, a2) \<in> set plan" by (metis enumerate_eq_zip set_zip_rightD)
    then show ?thesis using Cons.prems(1) p m(2) by force
  qed
  then show ?case using ih Cons.prems(2) p rs
    by (cases r) (auto simp: spans_ordered_def wf_entity_def)
qed (simp add: spans_ordered_def)

text \<open>The splice is the reference: one left-to-right copy with the edits put in.\<close>

lemma splice_Inr:
  assumes "disjoint_ordered (map fst plan)" "\<forall>(e, a) \<in> set plan. wf_entity e \<and> de_end e \<le> length txt"
  shows "splice env txt minted plan = Inr out \<longleftrightarrow>
     (\<exists>rs. list_all2 (\<lambda>x r. replacement_at env txt minted x = Inr r) (enumerate 0 plan) rs
        \<and> out = \<lparr>tt_text = rebuild txt 0 (edits (enumerate 0 plan) rs),
                 tt_mappings = List.map_filter (\<lambda>(i, e, a). dict_get minted i) (enumerate 0 plan),
                 tt_summary = summarize plan\<rparr>)"
proof -
  let ?E = "enumerate 0 plan" and ?R = "\<lambda>x r. replacement_at env txt minted x = Inr r"
  have ord: "splice_order plan = rev ?E" using assms by (intro splice_order_rev) auto
  have loop: "splice_loop env txt minted (rev ?E) [] [] (length txt) = Inr (p, m, c) \<longleftrightarrow>
     (\<exists>rs. list_all2 ?R ?E rs \<and> splice_right txt (rev (edits ?E rs)) ([], length txt) = (p, c)
        \<and> m = rev (List.map_filter (\<lambda>(i, e, a). dict_get minted i) ?E))" for p m c
  proof -
    have len: "edits (rev ?E) (rev rs) = rev (edits ?E rs)" if "list_all2 ?R ?E rs" for rs
      using that edits_rev list_all2_lengthD by blast
    have "(\<exists>rs. list_all2 ?R (rev ?E) rs \<and> splice_right txt (edits (rev ?E) rs) ([], length txt) = (p, c)) \<longleftrightarrow>
       (\<exists>rs. list_all2 ?R ?E rs \<and> splice_right txt (edits (rev ?E) (rev rs)) ([], length txt) = (p, c))"
      by (metis list_all2_rev rev_rev_ident)
    then show ?thesis unfolding splice_loop_Inr using len by (auto simp: map_filter_rev)
  qed
  have text_eq: "concat (rev (p @ [slice txt 0 c])) = rebuild txt 0 (edits ?E rs)"
    if "list_all2 ?R ?E rs" "splice_right txt (rev (edits ?E rs)) ([], length txt) = (p, c)" for rs p c
    using splice_right_rebuild(1)[OF spans_ordered_edits[OF assms, of rs 0] that(2), of 0]
      list_all2_lengthD[OF that(1)] by simp
  show ?thesis
  proof
    assume "splice env txt minted plan = Inr out"
    then obtain p m c where l: "splice_loop env txt minted (rev ?E) [] [] (length txt) = Inr (p, m, c)"
      and out: "out = \<lparr>tt_text = concat (rev (p @ [slice txt 0 c])), tt_mappings = rev m,
        tt_summary = summarize plan\<rparr>"
      by (auto simp: splice_def ord bindR_Inr)
    from l obtain rs where rs: "list_all2 ?R ?E rs"
      "splice_right txt (rev (edits ?E rs)) ([], length txt) = (p, c)"
      "m = rev (List.map_filter (\<lambda>(i, e, a). dict_get minted i) ?E)" unfolding loop by blast
    then show "\<exists>rs. list_all2 ?R ?E rs \<and> out = \<lparr>tt_text = rebuild txt 0 (edits ?E rs),
        tt_mappings = List.map_filter (\<lambda>(i, e, a). dict_get minted i) ?E, tt_summary = summarize plan\<rparr>"
      using out text_eq[OF rs(1,2)] by auto
  next
    assume "\<exists>rs. list_all2 ?R ?E rs \<and> out = \<lparr>tt_text = rebuild txt 0 (edits ?E rs),
        tt_mappings = List.map_filter (\<lambda>(i, e, a). dict_get minted i) ?E, tt_summary = summarize plan\<rparr>"
    then obtain rs where rs: "list_all2 ?R ?E rs" and out: "out = \<lparr>tt_text = rebuild txt 0 (edits ?E rs),
        tt_mappings = List.map_filter (\<lambda>(i, e, a). dict_get minted i) ?E, tt_summary = summarize plan\<rparr>"
      by blast
    obtain p c where sp: "splice_right txt (rev (edits ?E rs)) ([], length txt) = (p, c)" by fastforce
    with rs have "splice_loop env txt minted (rev ?E) [] [] (length txt)
        = Inr (p, rev (List.map_filter (\<lambda>(i, e, a). dict_get minted i) ?E), c)" unfolding loop by blast
    then show "splice env txt minted plan = Inr out"
      using out text_eq[OF rs sp] by (simp add: splice_def ord)
  qed
qed

section \<open>What minting puts at each index\<close>

lemma enumerate_mem: "(i, p) \<in> set (enumerate 0 plan) \<longleftrightarrow> i < length plan \<and> p = plan ! i"
  by (auto simp: in_set_enumerate_eq)

lemma pending_of_plan_Inr:
  "pending_of_plan env t u txt plan = Inr ps \<longleftrightarrow>
     list_all2 (\<lambda>(i, e, a) p. pending_for env t u i (slice txt (de_start e) (de_end e)) (de_entity_type e) = Inr p)
       (filter (\<lambda>(i, e, a). a \<in> MAPPING_ACTIONS) (enumerate 0 plan)) ps"
  unfolding pending_of_plan_def traverseR_Inr by (simp add: case_prod_unfold)

lemma pending_for_Inr:
  "pending_for env t u i v ty = Inr p \<longleftrightarrow>
     (\<exists>h. fingerprint (te_hmac env) (te_key env) \<lparr>fi_tenant_id = t, fi_session_id = u,
           fi_entity_type = ty, fi_normalized_value = normalize (te_ucd env) ty v\<rparr> = Inr h
        \<and> p = \<lparr>pe_index = i, pe_original = v, pe_entity_type = ty, pe_normalized_hmac = h\<rparr>)"
  by (auto simp: pending_for_def Let_def result_simps)


definition minted_by :: "pending list \<Rightarrow> ustr list \<Rightarrow> (nat \<times> entity_mapping) list \<Rightarrow> bool" where
  "minted_by ps toks minted \<longleftrightarrow> length toks = length ps
     \<and> list_all2 (\<lambda>(p, raw) (i, m). mapping_for p raw = Inr m \<and> i = pe_index p) (zip ps toks) minted"

text \<open>\<open>_mint\<close> calls the vault once, with one entry per span that needs a mapping, or not at all.\<close>

lemma mint_Inr:
  assumes "mint env ops t u txt plan ttl s = (Inr minted, s')"
  obtains ps toks where "pending_of_plan env t u txt plan = Inr ps" "minted_by ps toks minted"
    "ps = [] \<and> s' = s \<or> ps \<noteq> [] \<and> vo_get_or_create_many ops t u (map write_request_of ps) ttl s = (Inr toks, s')"
proof -
  from assms obtain ps where ps: "pending_of_plan env t u txt plan = Inr ps"
    by (auto simp: mint_def state_simps)
  show thesis
  proof (cases "ps = []")
    case True
    then show thesis using assms ps that[of ps "[]"] by (auto simp: mint_def state_simps minted_by_def)
  next
    case False
    with assms ps obtain toks where v: "vo_get_or_create_many ops t u (map write_request_of ps) ttl s = (Inr toks, s')"
      and len: "length toks = length ps"
      and tr: "traverseR (\<lambda>(item, raw_token). bindR (mapping_for item raw_token)
        (\<lambda>m. Inr (pe_index item, m))) (zip ps toks) = Inr minted"
      by (auto simp: mint_def state_simps split: if_splits)
    from tr have "minted_by ps toks minted"
      unfolding minted_by_def traverseR_Inr using len
      by (auto elim!: list_all2_mono simp: result_simps)
    with v False ps that show thesis by blast
  qed
qed

text \<open>Where the entry of plan index \<open>i\<close> sits in the batch.\<close>

lemma pending_position:
  assumes "pending_of_plan env t u txt plan = Inr ps" "i < length plan" "plan ! i = (e, a)"
    "a \<in> MAPPING_ACTIONS"
  obtains j p where "j < length ps" "ps ! j = p"
    "pending_for env t u i (slice txt (de_start e) (de_end e)) (de_entity_type e) = Inr p"
proof -
  let ?fl = "filter (\<lambda>(i, e, a). a \<in> MAPPING_ACTIONS) (enumerate 0 plan)"
  have "(i, e, a) \<in> set ?fl" using assms(2-4) by (simp add: enumerate_mem)
  then obtain j where j: "j < length ?fl" "?fl ! j = (i, e, a)" by (metis in_set_conv_nth)
  then show thesis using assms(1)[unfolded pending_of_plan_Inr] that[of j "ps ! j"]
    by (auto simp: list_all2_conv_all_nth)
qed

lemma pending_indices:
  assumes "pending_of_plan env t u txt plan = Inr ps"
  shows "map pe_index ps = map fst (filter (\<lambda>(i, e, a). a \<in> MAPPING_ACTIONS) (enumerate 0 plan))"
proof -
  let ?fl = "filter (\<lambda>(i, e, a). a \<in> MAPPING_ACTIONS) (enumerate 0 plan)"
  from assms have "list_all2 (\<lambda>x p. pe_index p = fst x) ?fl ps"
    unfolding pending_of_plan_Inr by (rule list_all2_mono) (auto simp: pending_for_Inr)
  then show ?thesis by (induction rule: list_all2_induct) auto
qed

lemma pending_types:
  assumes "pending_of_plan env t u txt (map (\<lambda>e. (e, f e)) sel) = Inr ps" "p \<in> set ps"
  shows "\<exists>e \<in> set sel. pe_entity_type p = de_entity_type e"
proof -
  let ?fl = "filter (\<lambda>(i, e, a). a \<in> MAPPING_ACTIONS) (enumerate 0 (map (\<lambda>e. (e, f e)) sel))"
  obtain j where j: "j < length ps" "ps ! j = p" using assms(2) by (auto simp: in_set_conv_nth)
  obtain i e a where x: "?fl ! j = (i, e, a)" by (cases "?fl ! j")
  have len: "length ?fl = length ps" and pf: "pending_for env t u i (slice txt (de_start e) (de_end e)) (de_entity_type e) = Inr p"
    using assms(1) j x unfolding pending_of_plan_Inr list_all2_conv_all_nth by fastforce+
  have "(i, e, a) \<in> set ?fl" using x j(1) len by (metis nth_mem)
  then have "e \<in> set sel" by (auto simp: enumerate_mem)
  then show ?thesis using pf by (auto simp: pending_for_Inr)
qed

lemma distinct_pending: "pending_of_plan env t u txt plan = Inr ps \<Longrightarrow> distinct (map pe_index ps)"
  by (simp add: pending_indices distinct_map_filter)

lemma minted_indices: "minted_by ps toks minted \<Longrightarrow> map fst minted = map pe_index ps"
proof -
  assume m: "minted_by ps toks minted"
  then have "list_all2 (\<lambda>x y. fst y = pe_index (fst x)) (zip ps toks) minted"
    unfolding minted_by_def by (auto elim!: list_all2_mono)
  then have "map fst minted = map (pe_index \<circ> fst) (zip ps toks)"
    by (induction rule: list_all2_induct) auto
  then show ?thesis using m by (simp add: minted_by_def flip: map_map)
qed

lemma minted_lookup:
  assumes "minted_by ps toks minted" "distinct (map pe_index ps)" "j < length ps"
  shows "\<exists>m. dict_get minted (pe_index (ps ! j)) = Some m \<and> mapping_for (ps ! j) (toks ! j) = Inr m"
proof -
  from assms(1,3) obtain m where m: "minted ! j = (pe_index (ps ! j), m)" "mapping_for (ps ! j) (toks ! j) = Inr m"
    "j < length minted"
    unfolding minted_by_def list_all2_conv_all_nth by (cases "minted ! j") auto
  then have "(pe_index (ps ! j), m) \<in> set minted" by (metis nth_mem)
  moreover have "distinct (map fst minted)" using minted_indices[OF assms(1)] assms(2) by simp
  ultimately show ?thesis using m(2) by simp
qed

lemma minted_none:
  assumes "pending_of_plan env t u txt plan = Inr ps" "minted_by ps toks minted"
    "i < length plan" "plan ! i = (e, a)" "a \<notin> MAPPING_ACTIONS"
  shows "dict_get minted i = None"
proof -
  have "i \<notin> set (map fst minted)"
    using assms minted_indices[OF assms(2)] pending_indices[OF assms(1)]
    by (auto simp: enumerate_mem)
  then show ?thesis by (simp add: map_of_eq_None_iff)
qed


section \<open>The whole transformation\<close>

lemma reject_blocked_iff: "reject_blocked plan = Inr u \<longleftrightarrow> (\<forall>(e, a) \<in> set plan. a \<noteq> BLOCK)"
  by (induction plan rule: reject_blocked.induct) auto

lemma reject_blocked_Inl: "reject_blocked plan = Inl x \<Longrightarrow> x = GatewayError POLICY_VIOLATION []"
  by (induction plan rule: reject_blocked.induct) (auto split: if_splits)

lemma transform_Inr:
  assumes "transform env ops t u txt es policy s = (Inr out, s')"
  obtains sel minted where "select_entities txt es policy = Inr sel"
    "int (length sel) \<le> pl_max_entities policy"
    "\<forall>e \<in> set sel. pl_action_for policy (de_entity_type e) \<noteq> BLOCK"
    "mint env ops t u txt (plan_for policy sel) (pl_session_ttl_seconds policy) s = (Inr minted, s')"
    "splice env txt minted (plan_for policy sel) = Inr out"
  using assms
  by (fastforce simp: transform_def state_simps Let_def reject_blocked_iff plan_for_def enforce_limit_def
      split: if_splits)

lemma transform_steps:
  assumes "select_entities txt es policy = Inr sel" "enforce_limit sel policy = Inr ()"
    "reject_blocked (plan_for policy sel) = Inr ()"
    "mint env ops t u txt (plan_for policy sel) (pl_session_ttl_seconds policy) s = (Inr minted, s')"
    "splice env txt minted (plan_for policy sel) = Inr out"
  shows "transform env ops t u txt es policy s = (Inr out, s')"
  using assms(4) by (simp add: transform_def Let_def assms(1-3,5) bindS_def liftS_def)

text \<open>
  A request is refused without reaching the vault when a span lies outside the text, when too
  many spans survive selection, and when the policy blocks one of them, in this order.
\<close>

definition refused :: "ustr \<Rightarrow> detected_entity list \<Rightarrow> policy_like \<Rightarrow> exn option" where
  "refused txt es policy =
     (if \<exists>e \<in> set es. length txt < de_end e
      then Some (GatewayError INVALID_REQUEST ''entity span outside text bounds'')
      else let sel = select_leftmost (filter (confident_for policy) es)
        in if pl_max_entities policy < int (length sel) then Some (GatewayError ENTITY_LIMIT_EXCEEDED [])
           else if \<exists>e \<in> set sel. pl_action_for policy (de_entity_type e) = BLOCK
             then Some (GatewayError POLICY_VIOLATION [])
           else None)"

lemma transform_refused_steps:
  "transform env ops t u txt es policy s =
     (case refused txt es policy of
        Some x \<Rightarrow> (Inl x, s)
      | None \<Rightarrow> (let plan = plan_for policy (select_leftmost (filter (confident_for policy) es))
          in bindS (mint env ops t u txt plan (pl_session_ttl_seconds policy))
               (\<lambda>minted. liftS (splice env txt minted plan)) s))"
proof (cases "\<exists>e \<in> set es. length txt < de_end e")
  case True
  then obtain x where "validate_spans txt es = Inl x"
    using validate_spans_iff[of "txt" es] by (cases "validate_spans txt es") auto
  with True show ?thesis
    using validate_spans_error by (auto simp: transform_def select_entities_def refused_def)
next
  case False
  let ?sel = "select_leftmost (filter (confident_for policy) es)"
  have sel: "select_entities txt es policy = Inr ?sel"
    using False by (auto simp: select_entities_Inr not_less)
  show ?thesis
  proof (cases "reject_blocked (plan_for policy ?sel)")
    case (Inl x)
    moreover have "\<exists>e \<in> set ?sel. pl_action_for policy (de_entity_type e) = BLOCK"
      using Inl reject_blocked_iff[of "plan_for policy ?sel"] by (auto simp: plan_for_def)
    ultimately show ?thesis using False sel reject_blocked_Inl
      by (auto simp: transform_def refused_def enforce_limit_def Let_def)
  next
    case (Inr u')
    moreover have "\<not> (\<exists>e \<in> set ?sel. pl_action_for policy (de_entity_type e) = BLOCK)"
      using Inr by (auto simp: reject_blocked_iff plan_for_def)
    ultimately show ?thesis using False sel
      by (auto simp: transform_def refused_def enforce_limit_def Let_def)
  qed
qed

lemma mint_state:
  "snd (mint env ops t u txt plan ttl s) = s
   \<or> (\<exists>ps. pending_of_plan env t u txt plan = Inr ps
        \<and> snd (mint env ops t u txt plan ttl s) = snd (vo_get_or_create_many ops t u (map write_request_of ps) ttl s))"
proof (cases "pending_of_plan env t u txt plan")
  case (Inl x)
  then show ?thesis by (simp add: mint_def liftS_def bindS_def)
next
  case (Inr ps)
  then show ?thesis
    by (auto simp: mint_def liftS_def bindS_def split: prod.splits sum.splits)
qed

lemma bindS_liftS_state: "snd (bindS m (\<lambda>x. liftS (f x)) s) = snd (m s)"
  by (auto simp: bindS_def liftS_def split: prod.splits sum.splits)

text \<open>
  C8. A refused request touches nothing: if a span lies outside the text, or more spans
  survive selection than the policy permits, or the policy blocks a surviving span, then that
  error is returned with the vault's state unchanged, whatever the vault is. Any other request
  reaches the vault in at most one call, which carries one entry per span to be mapped.
\<close>

theorem transform_refuses_before_vault:
  "case refused txt es policy of
     Some x \<Rightarrow> transform env ops t u txt es policy s = (Inl x, s)
   | None \<Rightarrow> snd (transform env ops t u txt es policy s) = s
       \<or> (\<exists>sel ps. select_entities txt es policy = Inr sel
            \<and> pending_of_plan env t u txt (plan_for policy sel) = Inr ps
            \<and> snd (transform env ops t u txt es policy s) =
              snd (vo_get_or_create_many ops t u (map write_request_of ps) (pl_session_ttl_seconds policy) s))"
proof (cases "refused txt es policy")
  case None
  let ?sel = "select_leftmost (filter (confident_for policy) es)"
  from None have "select_entities txt es policy = Inr ?sel"
    by (auto simp: select_entities_Inr refused_def not_less split: if_splits)
  moreover have "snd (transform env ops t u txt es policy s)
      = snd (mint env ops t u txt (plan_for policy ?sel) (pl_session_ttl_seconds policy) s)"
    using None by (simp add: transform_refused_steps Let_def bindS_liftS_state)
  ultimately show ?thesis
    using None mint_state[of env ops t u "txt" "plan_for policy ?sel" "pl_session_ttl_seconds policy" s]
    by auto
qed (simp add: transform_refused_steps)


text \<open>
  What the span of \<open>e\<close> under \<open>action\<close> must have become: the mapping made for it, and its
  replacement.
\<close>

definition mapping_ok :: "tok_env \<Rightarrow> uuid \<Rightarrow> uuid \<Rightarrow> ustr \<Rightarrow> detected_entity \<Rightarrow> entity_mapping \<Rightarrow> bool" where
  "mapping_ok env t u txt e m \<longleftrightarrow>
     em_entity_type m = de_entity_type e \<and> em_original_value m = slice txt (de_start e) (de_end e)
     \<and> parse_token (em_token m) = Some \<lparr>tk_entity_type = de_entity_type e, tk_token_id = em_token_id m\<rparr>
     \<and> fingerprint (te_hmac env) (te_key env) \<lparr>fi_tenant_id = t, fi_session_id = u,
           fi_entity_type = de_entity_type e,
           fi_normalized_value = normalize (te_ucd env) (de_entity_type e) (slice txt (de_start e) (de_end e))\<rparr>
         = Inr (em_normalized_hmac m)"

definition span_result :: "tok_env \<Rightarrow> uuid \<Rightarrow> uuid \<Rightarrow> ustr \<Rightarrow> detected_entity \<times> entity_action \<Rightarrow>
    entity_mapping option \<Rightarrow> ustr option \<Rightarrow> bool" where
  "span_result env t u txt p m r \<longleftrightarrow>
     (case p of (e, action) \<Rightarrow>
        (case action of
           ALLOW \<Rightarrow> m = None \<and> r = None
         | REDACT \<Rightarrow> m = None \<and> (\<exists>x. format_redaction (de_entity_type e) = Inr x \<and> r = Some x)
         | TOKENIZE \<Rightarrow> (\<exists>mp. m = Some mp \<and> mapping_ok env t u txt e mp \<and> r = Some (em_token mp))
         | PSEUDONYMIZE \<Rightarrow> (\<exists>mp x. m = Some mp \<and> mapping_ok env t u txt e mp
              \<and> surrogate_for (te_ucd env) (te_blake env) (de_entity_type e)
                  (slice txt (de_start e) (de_end e)) (em_normalized_hmac mp) = Inr x \<and> r = Some x)
         | BLOCK \<Rightarrow> False))"

lemma mapping_for_Inr:
  "mapping_for p raw = Inr m \<Longrightarrow>
     em_entity_type m = pe_entity_type p \<and> em_original_value m = pe_original p
     \<and> em_normalized_hmac m = pe_normalized_hmac p
     \<and> parse_token (em_token m) = Some \<lparr>tk_entity_type = pe_entity_type p, tk_token_id = em_token_id m\<rparr>"
proof -
  assume "mapping_for p raw = Inr m"
  then obtain tk tx where tk: "coerce_vault_token raw (pe_entity_type p) = Inr tk"
    and tx: "format_token (tk_entity_type tk) (tk_token_id tk) = Inr tx"
    and m: "m = \<lparr>em_token = tx, em_token_id = tk_token_id tk, em_entity_type = pe_entity_type p,
      em_original_value = pe_original p, em_normalized_hmac = pe_normalized_hmac p\<rparr>"
    by (auto simp: mapping_for_def result_simps)
  have "tk_entity_type tk = pe_entity_type p"
    using tk by (auto simp: coerce_vault_token_def split: option.splits if_splits)
  moreover have "parse_token tx = Some tk" using tx by (simp add: parse_token_format)
  ultimately show ?thesis using m by (cases tk) simp
qed

lemma replacement_at_span:
  assumes ps: "pending_of_plan env t u txt plan = Inr ps" and m: "minted_by ps toks minted"
    and i: "i < length plan" "plan ! i = (e, a)" "a \<noteq> BLOCK"
    and r: "replacement_at env txt minted (i, e, a) = Inr r"
  shows "span_result env t u txt (e, a) (dict_get minted i) r"
proof (cases "a \<in> MAPPING_ACTIONS")
  case False
  then have "dict_get minted i = None" using minted_none ps m i by blast
  then show ?thesis using False r i(3)
    by (cases a) (auto simp: span_result_def replacement_at_def replacement_for_def MAPPING_ACTIONS_def
        result_simps)
next
  case True
  obtain j where j: "j < length ps"
    "pending_for env t u i (slice txt (de_start e) (de_end e)) (de_entity_type e) = Inr (ps ! j)"
    using pending_position[OF ps i(1,2) True] by metis
  obtain mp where mp: "dict_get minted (pe_index (ps ! j)) = Some mp" "mapping_for (ps ! j) (toks ! j) = Inr mp"
    using minted_lookup[OF m distinct_pending[OF ps] j(1)] by blast
  have "mapping_ok env t u txt e mp" and ix: "pe_index (ps ! j) = i"
    using j(2) mapping_for_Inr[OF mp(2)] by (auto simp: pending_for_Inr mapping_ok_def)
  then show ?thesis using True mp(1) r i(3)
    by (cases a) (auto simp: span_result_def replacement_at_def replacement_for_def MAPPING_ACTIONS_def
        result_simps)
qed


lemma edits_enumerate_shift: "edits (enumerate n plan) rs = edits (enumerate 0 plan) rs"
proof -
  have "edits (enumerate n plan) rs = edits (enumerate m plan) rs" for m
    by (induction plan arbitrary: n m rs; case_tac rs; case_tac "hd rs") auto
  then show ?thesis by blast
qed

lemma plan_for_props [simp]:
  "length (plan_for policy sel) = length sel" "map fst (plan_for policy sel) = sel"
  by (simp_all add: plan_for_def comp_def)

lemma plan_for_nth [simp]:
  "i < length sel \<Longrightarrow> plan_for policy sel ! i = (sel ! i, pl_action_for policy (de_entity_type (sel ! i)))"
  by (simp add: plan_for_def)

lemma plan_for_spans:
  "disjoint_ordered sel \<Longrightarrow> \<forall>e \<in> set sel. P e \<Longrightarrow>
     disjoint_ordered (map fst (plan_for policy sel)) \<and> (\<forall>(e, a) \<in> set (plan_for policy sel). P e)"
  by (auto simp: plan_for_def comp_def)

text \<open>The mappings that were made, in order.\<close>

definition present :: "'a option list \<Rightarrow> 'a list" where
  "present ms = List.map_filter (\<lambda>m. m) ms"

lemma present_simps [simp]:
  "present [] = []"
  "present (None # ms) = present ms"
  "present (Some m # ms) = m # present ms"
  by (simp_all add: present_def)

text \<open>Everything a successful transformation determines, gathered once for its users.\<close>

lemma transform_facts:
  assumes tr: "transform env ops t u txt es policy s = (Inr out, s')" and wf: "\<forall>e \<in> set es. wf_entity e"
  obtains sel ms rs ps toks where "select_entities txt es policy = Inr sel"
    "int (length sel) \<le> pl_max_entities policy" "length ms = length sel" "length rs = length sel"
    "\<And>i. i < length sel \<Longrightarrow> span_result env t u txt (plan_for policy sel ! i) (ms ! i) (rs ! i)"
    "tt_text out = rebuild txt 0 (edits (enumerate 0 (plan_for policy sel)) rs)"
    "tt_mappings out = present ms" "tt_summary out = summarize (plan_for policy sel)"
    "pending_of_plan env t u txt (plan_for policy sel) = Inr ps"
    "ps = [] \<and> s' = s \<or> ps \<noteq> [] \<and>
       vo_get_or_create_many ops t u (map write_request_of ps) (pl_session_ttl_seconds policy) s = (Inr toks, s')"
    "length toks = length ps"
    "\<And>i m. i < length sel \<Longrightarrow> ms ! i = Some m \<Longrightarrow>
       \<exists>j < length ps. pe_index (ps ! j) = i \<and> mapping_for (ps ! j) (toks ! j) = Inr m"
proof -
  obtain sel minted where sel: "select_entities txt es policy = Inr sel" "int (length sel) \<le> pl_max_entities policy"
    and nb: "\<forall>e \<in> set sel. pl_action_for policy (de_entity_type e) \<noteq> BLOCK"
    and mi: "mint env ops t u txt (plan_for policy sel) (pl_session_ttl_seconds policy) s = (Inr minted, s')"
    and sp: "splice env txt minted (plan_for policy sel) = Inr out"
    using transform_Inr[OF tr] by metis
  let ?plan = "plan_for policy sel"
  obtain ps toks where ps: "pending_of_plan env t u txt ?plan = Inr ps" and mb: "minted_by ps toks minted"
    and call: "ps = [] \<and> s' = s \<or> ps \<noteq> [] \<and>
       vo_get_or_create_many ops t u (map write_request_of ps) (pl_session_ttl_seconds policy) s = (Inr toks, s')"
    using mint_Inr[OF mi] by metis
  note spans = select_entities_spans[OF sel(1) wf]
  have "disjoint_ordered (map fst ?plan)" "\<forall>(e, a) \<in> set ?plan. wf_entity e \<and> de_end e \<le> length txt"
    using spans plan_for_spans[of sel "\<lambda>e. wf_entity e \<and> de_end e \<le> length txt" policy] by auto
  from splice_Inr[OF this] sp obtain rs
    where rs: "list_all2 (\<lambda>x r. replacement_at env txt minted x = Inr r) (enumerate 0 ?plan) rs"
      and out: "out = \<lparr>tt_text = rebuild txt 0 (edits (enumerate 0 ?plan) rs),
        tt_mappings = List.map_filter (\<lambda>(i, e, a). dict_get minted i) (enumerate 0 ?plan),
        tt_summary = summarize ?plan\<rparr>" by auto
  define ms where "ms = map (\<lambda>i. dict_get minted i) [0..<length sel]"
  have "List.map_filter (\<lambda>(i, e, a). dict_get minted i) (enumerate 0 ?plan) = present ms"
  proof -
    have "ms = map (\<lambda>x. dict_get minted (fst x)) (enumerate 0 ?plan)"
      by (auto simp: ms_def enumerate_eq_zip intro!: nth_equalityI)
    then show ?thesis by (simp add: present_def List.map_filter_def filter_map comp_def case_prod_unfold)
  qed
  moreover have "span_result env t u txt (?plan ! i) (ms ! i) (rs ! i)" if i: "i < length sel" for i
  proof -
    have "replacement_at env txt minted (i, ?plan ! i) = Inr (rs ! i)"
      using rs i by (simp add: list_all2_conv_all_nth nth_enumerate_eq)
    then show ?thesis using replacement_at_span[OF ps mb, of i "sel ! i"] i nb by (simp add: ms_def)
  qed
  moreover have "\<exists>j < length ps. pe_index (ps ! j) = i \<and> mapping_for (ps ! j) (toks ! j) = Inr m"
    if i: "i < length sel" "ms ! i = Some m" for i m
  proof -
    have "i \<in> set (map fst minted)" using i by (force simp: ms_def dest: map_of_SomeD)
    then have "i \<in> set (map pe_index ps)" using minted_indices[OF mb] by simp
    then obtain j where "j < length ps" "pe_index (ps ! j) = i" by (auto simp: in_set_conv_nth)
    then show ?thesis using minted_lookup[OF mb distinct_pending[OF ps], of j] i by (auto simp: ms_def)
  qed
  ultimately show thesis
    using that[of sel ms rs ps toks] sel out ps call rs mb
    by (auto simp: ms_def minted_by_def dest: list_all2_lengthD)
qed


text \<open>
  C19. The protected text is the original with exactly the planned replacements: one
  left-to-right copy in which each selected span is kept under ALLOW, becomes the reserved
  placeholder under REDACT, the token of its own mapping under TOKENIZE, and its surrogate
  under PSEUDONYMIZE. Each mapping records the span's own value and fingerprint, its token
  parses, and the mappings are reported in text order.
\<close>

theorem transform_text:
  assumes "transform env ops t u txt es policy s = (Inr out, s')" "\<forall>e \<in> set es. wf_entity e"
  shows "\<exists>sel ms rs. select_entities txt es policy = Inr sel \<and> int (length sel) \<le> pl_max_entities policy
    \<and> length ms = length sel \<and> length rs = length sel
    \<and> (\<forall>i < length sel. span_result env t u txt (plan_for policy sel ! i) (ms ! i) (rs ! i))
    \<and> tt_text out = rebuild txt 0 (edits (enumerate 0 (plan_for policy sel)) rs)
    \<and> tt_mappings out = present ms"
  by (rule transform_facts[OF assms]) blast

lemma dict_count_types:
  "dict_count (fold (\<lambda>(e, a) d. dict_incr (de_entity_type e) 1 d) plan d) ty
     = dict_count d ty + length (filter (\<lambda>(e, a). de_entity_type e = ty) plan)"
  by (induction plan arbitrary: d) auto

lemma tally_sum:
  "\<forall>(e, a) \<in> set plan. a \<noteq> BLOCK \<Longrightarrow>
     tally TOKENIZE plan + tally REDACT plan + tally PSEUDONYMIZE plan + tally ALLOW plan = length plan"
proof (induction plan)
  case (Cons p plan)
  obtain e a where p: "p = (e, a)" by (cases p)
  show ?case using Cons p by (cases a) (simp_all add: tally_def)
qed (simp add: tally_def)

lemma tally_mapping:
  "length (filter (\<lambda>p. snd p \<in> {TOKENIZE, PSEUDONYMIZE}) plan) = tally TOKENIZE plan + tally PSEUDONYMIZE plan"
  by (induction plan) (auto simp: tally_def)

text \<open>
  The summary counts what was done: the four action counts add up to the number of spans
  detected, which is within the policy's limit, the mappings are as many as the tokenized and
  pseudonymized spans, and each type is counted as often as it was selected.
\<close>

theorem transform_summary:
  assumes "transform env ops t u txt es policy s = (Inr out, s')" "\<forall>e \<in> set es. wf_entity e"
  shows "\<exists>sel. select_entities txt es policy = Inr sel
    \<and> ps_detected (tt_summary out) = length sel \<and> int (length sel) \<le> pl_max_entities policy
    \<and> summary_total (tt_summary out) = length sel
    \<and> length (tt_mappings out) = ps_tokenized (tt_summary out) + ps_pseudonymized (tt_summary out)
    \<and> (\<forall>ty. dict_count (ps_entity_types (tt_summary out)) ty = length (filter (\<lambda>e. de_entity_type e = ty) sel))"
proof (rule transform_facts[OF assms])
  fix sel ms rs ps toks
  let ?plan = "plan_for policy sel"
  assume sel: "select_entities txt es policy = Inr sel" "int (length sel) \<le> pl_max_entities policy"
    and len: "length ms = length sel"
    and sr: "\<And>i. i < length sel \<Longrightarrow> span_result env t u txt (?plan ! i) (ms ! i) (rs ! i)"
    and mo: "tt_mappings out = present ms" and sm: "tt_summary out = summarize ?plan"
  have nb: "a \<noteq> BLOCK" if "(e, a) \<in> set ?plan" for e a
    using that sr by (fastforce simp: in_set_conv_nth span_result_def)
  have some: "ms ! i \<noteq> None \<longleftrightarrow> snd (?plan ! i) \<in> {TOKENIZE, PSEUDONYMIZE}" if "i < length sel" for i
    using sr[OF that] that by (auto simp: span_result_def split: entity_action.splits)
  have "length (present ms) = length (filter (\<lambda>m. m \<noteq> None) ms)"
    by (simp add: present_def List.map_filter_def)
  also have "\<dots> = length (filter (\<lambda>p. snd p \<in> {TOKENIZE, PSEUDONYMIZE}) ?plan)"
  proof -
    have "{i. i < length sel \<and> ms ! i \<noteq> None} = {i. i < length sel \<and> snd (?plan ! i) \<in> {TOKENIZE, PSEUDONYMIZE}}"
      using some by blast
    then show ?thesis using len by (simp add: length_filter_conv_card)
  qed
  also have "\<dots> = tally TOKENIZE ?plan + tally PSEUDONYMIZE ?plan"
    by (rule tally_mapping)
  finally show ?thesis
    using sel sm mo tally_sum[of ?plan] nb dict_count_types[of ?plan "[]"]
    by (auto simp: summarize_def summary_total_def plan_for_def filter_map comp_def)
qed


section \<open>Confidentiality of the replaced spans\<close>

lemma rebuild_cong:
  assumes "spans_ordered n xs" "length a = n" "length b = n"
    and "\<forall>i < n. c \<le> i \<and> \<not> (\<exists>(s, e, r) \<in> set xs. s \<le> i \<and> i < e) \<longrightarrow> a ! i = b ! i"
    and "\<forall>(s, e, r) \<in> set xs. c \<le> s"
  shows "rebuild a c xs = rebuild b c xs"
  using assms
proof (induction xs arbitrary: c)
  case Nil
  then show ?case by (auto intro!: nth_equalityI)
next
  case (Cons x xs)
  obtain s e r where x: "x = (s, e, r)" by (cases x)
  have o: "spans_ordered n xs" "s \<le> e" "e \<le> n" "\<forall>y \<in> set xs. e \<le> fst y" "c \<le> s"
    using Cons.prems(1,5) x by (auto simp: spans_ordered_def)
  have "slice a c s = slice b c s"
  proof (rule nth_equalityI)
    fix i assume "i < length (slice a c s)"
    then have i: "c + i < s" "c + i < n" using Cons.prems(2) by (auto simp: slice_simps)
    have "\<not> (\<exists>(s', e', r') \<in> set (x # xs). s' \<le> c + i \<and> c + i < e')"
      using i o(2,4) x by fastforce
    then have "a ! (c + i) = b ! (c + i)" using Cons.prems(4) i by simp
    then show "slice a c s ! i = slice b c s ! i" using i Cons.prems(2,3) by (simp add: slice_def)
  qed (simp add: slice_simps Cons.prems)
  moreover have "rebuild a e xs = rebuild b e xs"
  proof (rule Cons.IH[OF o(1) Cons.prems(2,3)])
    show "\<forall>i < n. e \<le> i \<and> \<not> (\<exists>(s, e, r) \<in> set xs. s \<le> i \<and> i < e) \<longrightarrow> a ! i = b ! i"
      using Cons.prems(4) o(2,5) x by fastforce
  qed (use o(4) in fastforce)
  ultimately show ?case using x by simp
qed

lemma edits_covers:
  "length rs = length xs \<Longrightarrow> j < length xs \<Longrightarrow> xs ! j = (i, e, a) \<Longrightarrow> rs ! j = Some r \<Longrightarrow>
     (de_start e, de_end e, r) \<in> set (edits xs rs)"
proof (induction xs rs arbitrary: j rule: edits.induct)
  case (1 i' e' a' xs r' rs)
  then show ?case by (cases j) auto
next
  case (2 i' e' a' xs rs)
  then show ?case by (cases j) auto
qed auto

text \<open>Where the token of a span comes in the list of mappings determines the span.\<close>

lemma map_filter_tokens:
  assumes "length ms = length ns" "\<forall>i < length ms. (ms ! i = None) = (ns ! i = None)"
    "map f (present ms) = map f (present ns)" "i < length ms"
    "ms ! i = Some m" "ns ! i = Some n"
  shows "f m = f n"
  using assms
proof (induction ms ns arbitrary: i rule: list_induct2)
  case (Cons x xs y ys)
  have xy: "(x = None) = (y = None)" using Cons.prems(1) by auto
  have rest: "\<forall>i < length xs. (xs ! i = None) = (ys ! i = None)" using Cons.prems(1) by auto
  show ?case
  proof (cases i)
    case 0
    then show ?thesis using Cons.prems by auto
  next
    case (Suc k)
    have "map f (present xs) = map f (present ys)"
      using Cons.prems(2) xy by (cases x; cases y) auto
    then show ?thesis using Cons.IH[OF rest, of k] Cons.prems Suc by simp
  qed
qed simp


lemma span_result_none:
  "span_result env t u txt (e, a) m r \<Longrightarrow> (m = None) = (a \<notin> MAPPING_ACTIONS)"
  "span_result env t u txt (e, a) m r \<Longrightarrow> (r = None) = (a = ALLOW)"
  by (auto simp: span_result_def MAPPING_ACTIONS_def split: entity_action.splits)



section \<open>A worked instance\<close>

text \<open>A vault that returns one bare identifier for every entry, and a text with one span.\<close>

definition const_vault :: "unit vault_ops" where
  "const_vault = \<lparr>vo_get_or_create_many = (\<lambda>t u es ttl s. (Inr (map (\<lambda>_. sample_id) es), s)),
     vo_resolve_many = (\<lambda>t u toks s. (Inr [], s)), vo_delete_session = (\<lambda>t u s. (Inr 0, s))\<rparr>"

lemma sample_id_props:
  "parse_token sample_id = None" "is_valid_token_id sample_id"
  "format_token (lit ''PERSON'') sample_id = Inr (render_token (lit ''PERSON'') sample_id)"
  by (simp_all add: parse_token_def format_token_def is_valid_entity_type_def is_valid_token_id_def
      sample_id_def grammar_consts is_entity_char_def ascii_upper_def ascii_digit_def crockford_iff
      is_identifier_char_def list_all_iff)

definition sample_env :: tok_env where
  "sample_env = \<lparr>te_ucd = ascii_ucd, te_hmac = zero_hmac, te_blake = (\<lambda>_. replicate 64 7),
     te_key = replicate 16 0\<rparr>"

definition sample_entities :: "detected_entity list" where
  "sample_entities = [sample_span (lit ''PERSON'') 2 5]"

lemma sample_select:
  "length txt = 6 \<Longrightarrow> select_entities txt sample_entities sample_policy = Inr sample_entities"
  by (rule select_entities_id)
    (simp_all add: sample_entities_def sample_span_def wf_entity_def confident_for_def sample_policy_def)

lemma fingerprint_ascii:
  assumes "\<forall>c \<in> set (fi_entity_type i) \<union> set (fi_normalized_value i). c < 128"
    "length (fi_entity_type i) < 256 ^ 4" "length (fi_normalized_value i) < 256 ^ 4"
  shows "\<exists>h. fingerprint hmac key i = Inr h"
proof -
  have "utf8_encode (fi_entity_type i) = Inr (fi_entity_type i)"
    "utf8_encode (fi_normalized_value i) = Inr (fi_normalized_value i)"
    using assms(1) by (auto intro!: utf8_encode_ascii)
  moreover obtain b where "frame 4 [uuid_bytes (fi_tenant_id i), uuid_bytes (fi_session_id i),
      fi_entity_type i, fi_normalized_value i] = Inr b"
    using frame_ok[of "[uuid_bytes (fi_tenant_id i), uuid_bytes (fi_session_id i),
      fi_entity_type i, fi_normalized_value i]" 4] assms(2,3) by auto
  ultimately show ?thesis by (simp add: fingerprint_def fingerprint_message_def fingerprint_fields_def)
qed

lemma sample_normalize:
  "normalize ascii_ucd (lit ''PERSON'') (lit ''Bob'') = lit ''Bob''"
  "normalize ascii_ucd (lit ''PERSON'') (lit ''Eve'') = lit ''Eve''"
  by (simp_all add: normalize_def normalizer_for_def NORMALIZERS_def normalize_person_def
      collapse_whitespace_def compatibility_form_def split_ws_def ascii_defs)

lemma sample_plan: "plan_for sample_policy sample_entities = [(sample_span (lit ''PERSON'') 2 5, TOKENIZE)]"
  by (simp add: plan_for_def sample_entities_def sample_span_def sample_policy_def)

lemma sample_pending:
  assumes "txt = lit ''a Bob!'' \<or> txt = lit ''a Eve!''"
  shows "\<exists>h. pending_of_plan sample_env 1 2 txt (plan_for sample_policy sample_entities)
    = Inr [\<lparr>pe_index = 0, pe_original = slice txt 2 5, pe_entity_type = lit ''PERSON'', pe_normalized_hmac = h\<rparr>]"
proof -
  have sl: "slice txt 2 5 = lit ''Bob'' \<or> slice txt 2 5 = lit ''Eve''"
    using assms by (auto simp: slice_def)
  have n: "normalize ascii_ucd (lit ''PERSON'') (slice txt 2 5) = slice txt 2 5"
    using sl sample_normalize by metis
  obtain h where h: "fingerprint zero_hmac (replicate 16 0) \<lparr>fi_tenant_id = 1, fi_session_id = 2,
      fi_entity_type = lit ''PERSON'', fi_normalized_value = slice txt 2 5\<rparr> = Inr h"
    using fingerprint_ascii[of "\<lparr>fi_tenant_id = 1, fi_session_id = 2,
      fi_entity_type = lit ''PERSON'', fi_normalized_value = slice txt 2 5\<rparr>"] sl by fastforce
  show ?thesis unfolding sample_plan
    using h n by (simp add: pending_of_plan_def MAPPING_ACTIONS_def pending_for_def sample_span_def sample_env_def)
qed

lemma sample_transform:
  assumes "txt = lit ''a Bob!'' \<or> txt = lit ''a Eve!''"
  shows "\<exists>out. transform sample_env const_vault 1 2 txt sample_entities sample_policy () = (Inr out, ())
    \<and> map em_token (tt_mappings out) = [render_token (lit ''PERSON'') sample_id]"
proof -
  have len: "length txt = 6" using assms by auto
  obtain h where ps: "pending_of_plan sample_env 1 2 txt (plan_for sample_policy sample_entities)
    = Inr [\<lparr>pe_index = 0, pe_original = slice txt 2 5, pe_entity_type = lit ''PERSON'', pe_normalized_hmac = h\<rparr>]"
    using sample_pending[OF assms] by (elim exE)
  let ?p = "\<lparr>pe_index = 0, pe_original = slice txt 2 5, pe_entity_type = lit ''PERSON'', pe_normalized_hmac = h\<rparr>"
  let ?m = "\<lparr>em_token = render_token (lit ''PERSON'') sample_id, em_token_id = sample_id,
    em_entity_type = lit ''PERSON'', em_original_value = slice txt 2 5, em_normalized_hmac = h\<rparr>"
  have mp: "mapping_for ?p sample_id = Inr ?m"
    by (simp add: mapping_for_def coerce_vault_token_def sample_id_props[simplified])
  have "mint sample_env const_vault 1 2 txt (plan_for sample_policy sample_entities) ttl () = (Inr [(0, ?m)], ())" for ttl
    by (simp only: mint_def ps bindS_liftS)
      (simp add: bindS_def liftS_def const_vault_def write_request_of_def mp[simplified])
  moreover have "splice sample_env txt [(0, ?m)] (plan_for sample_policy sample_entities)
      = Inr \<lparr>tt_text = concat [slice txt 0 2, render_token (lit ''PERSON'') sample_id, slice txt 5 6],
             tt_mappings = [?m], tt_summary = summarize (plan_for sample_policy sample_entities)\<rparr>"
    by (simp add: sample_plan splice_def splice_order_def replacement_for_def sample_span_def len)
  moreover have "enforce_limit sample_entities sample_policy = Inr ()"
    by (simp add: enforce_limit_def sample_entities_def sample_policy_def)
  moreover have "reject_blocked (plan_for sample_policy sample_entities) = Inr ()" unfolding sample_plan by simp
  ultimately show ?thesis using transform_steps[OF sample_select[OF len]] by fastforce
qed

lemma sample_entities_wf: "\<forall>e \<in> set sample_entities. wf_entity e"
  by (simp add: sample_entities_def sample_span_def wf_entity_def)

theorem transform_text_witness:
  "\<exists>out. transform sample_env const_vault 1 2 (lit ''a Bob!'') sample_entities sample_policy () = (Inr out, ())
    \<and> (\<exists>sel ms rs. select_entities (lit ''a Bob!'') sample_entities sample_policy = Inr sel
    \<and> int (length sel) \<le> pl_max_entities sample_policy \<and> length ms = length sel \<and> length rs = length sel
    \<and> (\<forall>i < length sel. span_result sample_env 1 2 (lit ''a Bob!'') (plan_for sample_policy sel ! i) (ms ! i) (rs ! i))
    \<and> tt_text out = rebuild (lit ''a Bob!'') 0 (edits (enumerate 0 (plan_for sample_policy sel)) rs)
    \<and> tt_mappings out = present ms)"
proof -
  obtain out where o: "transform sample_env const_vault 1 2 (lit ''a Bob!'') sample_entities sample_policy () = (Inr out, ())"
    using sample_transform by blast
  show ?thesis by (rule exI[of _ out], rule conjI[OF o], rule transform_text[OF o sample_entities_wf])
qed

theorem transform_summary_witness:
  "\<exists>out. transform sample_env const_vault 1 2 (lit ''a Bob!'') sample_entities sample_policy () = (Inr out, ())
    \<and> (\<exists>sel. select_entities (lit ''a Bob!'') sample_entities sample_policy = Inr sel
    \<and> ps_detected (tt_summary out) = length sel \<and> int (length sel) \<le> pl_max_entities sample_policy
    \<and> summary_total (tt_summary out) = length sel
    \<and> length (tt_mappings out) = ps_tokenized (tt_summary out) + ps_pseudonymized (tt_summary out)
    \<and> (\<forall>ty. dict_count (ps_entity_types (tt_summary out)) ty = length (filter (\<lambda>e. de_entity_type e = ty) sel)))"
proof -
  obtain out where o: "transform sample_env const_vault 1 2 (lit ''a Bob!'') sample_entities sample_policy () = (Inr out, ())"
    using sample_transform by blast
  show ?thesis by (rule exI[of _ out], rule conjI[OF o], rule transform_summary[OF o sample_entities_wf])
qed


end
