(* ===== verification/Restoration.thy ===== *)
theory Restoration
  imports Vault_Interface
begin

text \<open>
  The output pipeline, \<^verbatim>\<open>app/restoration/pipeline.py\<close> and \<^verbatim>\<open>results.py\<close>: validate the
  provider's payload, find the tokens, resolve them in one vault call, and substitute in one
  walk over the original text.
\<close>

definition DEFAULT_MAX_OUTPUT_CHARS :: nat where "DEFAULT_MAX_OUTPUT_CHARS = 131072"

record restored_output =
  ro_text :: ustr
  ro_summary :: privacy_summary
  ro_model :: ustr
  ro_usage :: "provider_usage option"

text \<open>\<open>OutputPipeline.__init__\<close>: the state of the stage is its limit.\<close>

definition mk_output_pipeline :: "int \<Rightarrow> nat res" where
  "mk_output_pipeline max_output_chars =
     (if max_output_chars < 1 then Inl ValueError else Inr (nat max_output_chars))"

definition validated_content :: "ucd \<Rightarrow> provider_response \<Rightarrow> nat \<Rightarrow> ustr res" where
  "validated_content U response limit =
     (case pv_content response of
        None \<Rightarrow> Inl (GatewayError PROVIDER_RESPONSE_INVALID ''content_not_text'')
      | Some content \<Rightarrow>
          (case pv_model response of
             None \<Rightarrow> Inl (GatewayError PROVIDER_RESPONSE_INVALID ''missing_model'')
           | Some model \<Rightarrow>
               if strip U model = [] then Inl (GatewayError PROVIDER_RESPONSE_INVALID ''missing_model'')
               else if limit < length content
                 then Inl (GatewayError PROVIDER_RESPONSE_INVALID ''output_too_large'')
               else Inr content))"

definition replacement :: "token_match \<Rightarrow> (ustr \<times> ustr) list \<Rightarrow> unknown_token_action \<Rightarrow> ustr res" where
  "replacement match resolved action =
     (case dict_get resolved (tm_text match) of
        Some original \<Rightarrow> Inr original
      | None \<Rightarrow>
          if action = UREDACT then format_redaction (tk_entity_type (tm_token match))
          else Inr (tm_text match))"

text \<open>\<open>_substitute\<close>: the loop over the matches with its variables \<open>pieces\<close> and \<open>cursor\<close>.\<close>

fun substitute_loop :: "ustr \<Rightarrow> (ustr \<times> ustr) list \<Rightarrow> unknown_token_action \<Rightarrow> token_match list \<Rightarrow>
    ustr list \<Rightarrow> nat \<Rightarrow> ustr res" where
  "substitute_loop txt resolved action [] pieces cursor = Inr (concat (pieces @ [drop cursor txt]))"
| "substitute_loop txt resolved action (m # matches) pieces cursor =
     bindR (replacement m resolved action)
       (\<lambda>r. substitute_loop txt resolved action matches
              (pieces @ [slice txt cursor (tm_start m), r]) (tm_end m))"

definition substitute :: "ustr \<Rightarrow> token_match list \<Rightarrow> (ustr \<times> ustr) list \<Rightarrow> unknown_token_action \<Rightarrow> ustr res" where
  "substitute txt matches resolved action = substitute_loop txt resolved action matches [] 0"

definition passthrough :: "provider_response \<Rightarrow> ustr \<Rightarrow> restored_output" where
  "passthrough response txt =
     \<lparr>ro_text = txt, ro_summary = empty_summary, ro_model = the (pv_model response),
      ro_usage = pv_usage response\<rparr>"

definition restore :: "ucd \<Rightarrow> 's vault_ops \<Rightarrow> nat \<Rightarrow> uuid \<Rightarrow> uuid \<Rightarrow> provider_response \<Rightarrow>
    unknown_token_action \<Rightarrow> ('s, restored_output) op" where
  "restore U ops limit tenant_id session_id response action =
     bindS (liftS (validated_content U response limit)) (\<lambda>txt.
       let matches = find_tokens txt in
       if matches = [] then liftS (Inr (passthrough response txt))
       else let candidates = remdups (map tm_text matches) in
         bindS (vo_resolve_many ops tenant_id session_id candidates) (\<lambda>resolved.
           let unknown = filter (\<lambda>c. dict_get resolved c = None) candidates in
           if unknown \<noteq> [] \<and> action = UFAIL then liftS (Inl (GatewayError RESTORATION_FAILED []))
           else bindS (liftS (substitute txt matches resolved action)) (\<lambda>restored_text.
             liftS (Inr \<lparr>ro_text = restored_text,
               ro_summary = empty_summary\<lparr>ps_restored := length resolved, ps_unknown_tokens := length unknown\<rparr>,
               ro_model = the (pv_model response),
      ro_usage = pv_usage response\<rparr>))))"

section \<open>Properties\<close>

text \<open>The walk is the reference copy with one replacement per match.\<close>

lemma substitute_loop_rebuild:
  "substitute_loop txt resolved action ms pieces cursor = Inr out \<longleftrightarrow>
     (\<exists>rs. list_all2 (\<lambda>m r. replacement m resolved action = Inr r) ms rs
        \<and> out = concat pieces @ rebuild txt cursor (map2 (\<lambda>m r. (tm_start m, tm_end m, r)) ms rs))"
proof (induction ms arbitrary: pieces cursor)
  case (Cons m ms)
  show ?case
  proof (cases "replacement m resolved action")
    case (Inl e)
    then show ?thesis by (auto simp: list_all2_Cons1)
  next
    case (Inr x)
    have "(\<exists>rs. list_all2 (\<lambda>m r. replacement m resolved action = Inr r) (m # ms) rs \<and> P rs) \<longleftrightarrow>
       (\<exists>rs. list_all2 (\<lambda>m r. replacement m resolved action = Inr r) ms rs \<and> P (x # rs))" for P
      using Inr by (auto simp: list_all2_Cons1)
    then show ?thesis using Inr Cons by simp
  qed
qed auto

lemma substitute_rebuild:
  "substitute txt ms resolved action = Inr out \<longleftrightarrow>
     (\<exists>rs. list_all2 (\<lambda>m r. replacement m resolved action = Inr r) ms rs
        \<and> out = rebuild txt 0 (map2 (\<lambda>m r. (tm_start m, tm_end m, r)) ms rs))"
  by (simp add: substitute_def substitute_loop_rebuild)

text \<open>A scanned token has a valid type, so redacting it cannot fail: substitution is total.\<close>

definition replacement_text :: "(ustr \<times> ustr) list \<Rightarrow> unknown_token_action \<Rightarrow> token \<Rightarrow> ustr" where
  "replacement_text resolved action tk =
     (let w = render_token (tk_entity_type tk) (tk_token_id tk)
      in case dict_get resolved w of
           Some original \<Rightarrow> original
         | None \<Rightarrow> if action = UREDACT then render_token REDACTED_MARKER (tk_entity_type tk) else w)"

lemma replacement_total:
  assumes "m \<in> set (find_tokens txt)"
  shows "replacement m resolved action = Inr (replacement_text resolved action (tm_token m))"
proof -
  obtain r where "is_valid_entity_type (tk_entity_type (tm_token m))"
    using find_tokens_regex[OF assms] by metis
  then show ?thesis
    by (auto simp: replacement_def replacement_text_def Let_def tm_text_def format_redaction_def
        split: option.splits)
qed

lemma substitute_total:
  "substitute txt (find_tokens txt) resolved action =
     Inr (rebuild txt 0 (map (\<lambda>m. (tm_start m, tm_end m, replacement_text resolved action (tm_token m)))
            (find_tokens txt)))"
proof -
  have "list_all2 (\<lambda>m r. replacement m resolved action = Inr r) (find_tokens txt)
      (map (\<lambda>m. replacement_text resolved action (tm_token m)) (find_tokens txt))"
    by (auto simp: list_all2_conv_all_nth intro: replacement_total[OF nth_mem])
  moreover have "map2 (\<lambda>m r. (tm_start m, tm_end m, r)) ms (map f ms) = map (\<lambda>m. (tm_start m, tm_end m, f m)) ms"
    for ms and f :: "token_match \<Rightarrow> ustr" by (induction ms) auto
  ultimately show ?thesis
    unfolding substitute_rebuild
    by (intro exI[of _ "map (\<lambda>m. replacement_text resolved action (tm_token m)) (find_tokens txt)"]) simp
qed


lemma validated_content_cases:
  "validated_content U response limit = Inr c \<longleftrightarrow>
     pv_content response = Some c \<and> (\<exists>m. pv_model response = Some m \<and> strip U m \<noteq> []) \<and> length c \<le> limit"
  by (auto simp: validated_content_def split: option.splits if_splits)

lemma validated_content_error:
  "validated_content U response limit = Inl x \<Longrightarrow> err_code x = PROVIDER_RESPONSE_INVALID"
  by (auto simp: validated_content_def split: option.splits if_splits)

lemma find_tokens_empty_candidates: "remdups (map tm_text (find_tokens txt)) = [] \<longleftrightarrow> find_tokens txt = []"
  by simp

text \<open>
  What restoration does with a body \<open>txt\<close> once the vault has answered \<open>resolved\<close>.
\<close>

definition restored_text :: "ustr \<Rightarrow> (ustr \<times> ustr) list \<Rightarrow> unknown_token_action \<Rightarrow> ustr" where
  "restored_text txt resolved action =
     rebuild txt 0 (map (\<lambda>m. (tm_start m, tm_end m, replacement_text resolved action (tm_token m)))
       (find_tokens txt))"

definition unknown_tokens :: "ustr \<Rightarrow> (ustr \<times> ustr) list \<Rightarrow> ustr list" where
  "unknown_tokens txt resolved =
     filter (\<lambda>c. dict_get resolved c = None) (remdups (map tm_text (find_tokens txt)))"

lemma restore_resolved:
  assumes "validated_content U response limit = Inr txt" "find_tokens txt \<noteq> []"
    "vo_resolve_many ops t u (remdups (map tm_text (find_tokens txt))) s = (Inr resolved, s')"
  shows "restore U ops limit t u response action s =
     (if unknown_tokens txt resolved \<noteq> [] \<and> action = UFAIL then (Inl (GatewayError RESTORATION_FAILED []), s')
      else (Inr \<lparr>ro_text = restored_text txt resolved action,
               ro_summary = empty_summary\<lparr>ps_restored := length resolved,
                 ps_unknown_tokens := length (unknown_tokens txt resolved)\<rparr>,
               ro_model = the (pv_model response),
      ro_usage = pv_usage response\<rparr>, s'))"
  using assms
  by (simp add: restore_def bindS_def liftS_def substitute_total restored_text_def unknown_tokens_def Let_def)

text \<open>
  C27. Restoration rewrites the tokens of a response and nothing else, in one pass: after one
  vault call for the distinct tokens, the text is the provider's own text with each token that
  resolves replaced by its original value, and each that does not left alone or redacted as the
  policy says (an unresolvable token under FAIL raises). Values put in are not scanned again.
  Without tokens the response passes through and the vault is not asked; a malformed or
  oversized payload, or a failing vault, raises with nothing restored.
\<close>

theorem restore_correct:
  "restore U ops limit t u response action s =
     (case validated_content U response limit of
        Inl x \<Rightarrow> (Inl x, s)
      | Inr txt \<Rightarrow>
          if find_tokens txt = [] then (Inr (passthrough response txt), s)
          else (case vo_resolve_many ops t u (remdups (map tm_text (find_tokens txt))) s of
              (Inl x, s') \<Rightarrow> (Inl x, s')
            | (Inr resolved, s') \<Rightarrow>
                if unknown_tokens txt resolved \<noteq> [] \<and> action = UFAIL
                then (Inl (GatewayError RESTORATION_FAILED []), s')
                else (Inr \<lparr>ro_text = restored_text txt resolved action,
                       ro_summary = empty_summary\<lparr>ps_restored := length resolved,
                         ps_unknown_tokens := length (unknown_tokens txt resolved)\<rparr>,
                       ro_model = the (pv_model response),
      ro_usage = pv_usage response\<rparr>, s')))"
proof (cases "validated_content U response limit")
  case (Inr "txt")
  show ?thesis
  proof (cases "find_tokens txt = []")
    case True
    then show ?thesis using Inr by (simp add: restore_def liftS_def)
  next
    case False
    obtain r s' where v: "vo_resolve_many ops t u (remdups (map tm_text (find_tokens txt))) s = (r, s')"
      by fastforce
    then show ?thesis
    proof (cases r)
      case (Inl x)
      then show ?thesis using Inr False v by (simp add: restore_def bindS_def liftS_def Let_def)
    next
      case r: (Inr resolved)
      then show ?thesis using restore_resolved[OF Inr False, of ops t u s resolved s' action] Inr False v by simp
    qed
  qed
qed (simp add: restore_def)

section \<open>Scanning a text assembled from segments\<close>

text \<open>
  The scanner on a concatenation: plain text and redaction placeholders yield no token, a
  rendered token yields itself. A segment is a string with the token it is, if it is one.
\<close>

type_synonym segment = "ustr \<times> token option"

definition seg_ok :: "segment \<Rightarrow> bool" where
  "seg_ok g \<longleftrightarrow> (case snd g of
       Some tk \<Rightarrow> parse_token (fst g) = Some tk
     | None \<Rightarrow> LEFT_DELIMITER \<notin> set (fst g) \<or> (\<exists>e. format_redaction e = Inr (fst g)))"

fun seg_matches :: "nat \<Rightarrow> segment list \<Rightarrow> token_match list" where
  "seg_matches p [] = []"
| "seg_matches p ((w, None) # gs) = seg_matches (p + length w) gs"
| "seg_matches p ((w, Some tk) # gs) =
     \<lparr>tm_token = tk, tm_start = p, tm_end = p + length w\<rparr> # seg_matches (p + length w) gs"

definition seg_text :: "segment list \<Rightarrow> ustr" where
  "seg_text gs = concat (map fst gs)"


definition scan_tokens :: "nat \<Rightarrow> ustr \<Rightarrow> token_match list" where
  "scan_tokens pos txt =
     List.map_filter
       (\<lambda>(start, candidate).
          case parse_token candidate of
            None \<Rightarrow> None
          | Some tk \<Rightarrow> Some \<lparr>tm_token = tk, tm_start = start, tm_end = start + length candidate\<rparr>)
       (scan_from pos txt)"

lemma find_tokens_scan: "find_tokens txt = scan_tokens 0 txt"
  by (simp add: find_tokens_def scan_tokens_def)

lemma scan_tokens_Nil [simp]: "scan_tokens pos [] = []"
  by (simp add: scan_tokens_def)

lemma scan_tokens_skip: "regex_match (c # s) = None \<Longrightarrow> scan_tokens pos (c # s) = scan_tokens (Suc pos) s"
  by (simp add: scan_tokens_def)

lemma scan_tokens_plain:
  "LEFT_DELIMITER \<notin> set w \<Longrightarrow> scan_tokens pos (w @ s) = scan_tokens (pos + length w) s"
proof (induction w arbitrary: pos)
  case (Cons c w)
  have "regex_match (c # w @ s) = None"
    using Cons.prems regex_match_hd[of "c # w @ s"] by (cases "regex_match (c # w @ s)") auto
  then show ?case using Cons by (simp add: scan_tokens_skip)
qed simp

lemma scan_tokens_token:
  assumes "parse_token w = Some tk"
  shows "scan_tokens pos (w @ s) =
    \<lparr>tm_token = tk, tm_start = pos, tm_end = pos + length w\<rparr> # scan_tokens (pos + length w) s"
proof -
  from parse_token_Some[OF assms] have w: "w = render_token (tk_entity_type tk) (tk_token_id tk)"
    "render_ok (tk_entity_type tk) (tk_token_id tk)" by (auto intro: valid_render_ok)
  then have r: "regex_match (w @ s) = Some (length w)" using regex_match_render by metis
  obtain c w' where cw: "w = c # w'" using w(1) by (simp add: render_token_def)
  have "scan_from pos (w @ s) = (pos, w) # scan_from (pos + length w) s"
    using r cw by simp
  then show ?thesis using assms by (simp add: scan_tokens_def)
qed

lemma takeWhile_sep: "x \<notin> set a \<Longrightarrow> takeWhile (\<lambda>c. c \<noteq> x) (a @ x # b) = a"
  by (induction a) auto

lemma scan_tokens_redaction:
  assumes "format_redaction e = Inr w"
  shows "scan_tokens pos (w @ s) = scan_tokens (pos + length w) s"
proof -
  from assms have e: "is_valid_entity_type e" and w: "w = render_token REDACTED_MARKER e"
    by (auto simp: format_redaction_def split: if_splits)
  obtain c w' where cw: "w = c # w'" using w by (simp add: render_token_def)
  show ?thesis
  proof (cases "regex_match (w @ s)")
    case None
    have "LEFT_DELIMITER \<notin> set w'"
    proof
      assume "LEFT_DELIMITER \<in> set w'"
      then obtain k where "k < length w'" "w' ! k = LEFT_DELIMITER" by (auto simp: in_set_conv_nth)
      then have "w ! Suc k = LEFT_DELIMITER" "Suc k < length w" using cw by auto
      then show False using redaction_tail_no_left[OF e, of "Suc k"] w by simp
    qed
    then show ?thesis using None cw scan_tokens_plain by (simp add: scan_tokens_skip)
  next
    case (Some n)
    obtain e' t' r where m: "render_ok e' t'" "w @ s = render_token e' t' @ r" "n = length (render_token e' t')"
      using regex_match_Some[OF Some] by metis
    have "FIELD_SEPARATOR \<notin> set e'" using m(1) entity_char_not_special
      by (fastforce simp: render_ok_def list_all_iff)
    then have e': "e' = REDACTED_MARKER"
      using render_token_same_type[of REDACTED_MARKER e s e' t' r] m(2) w redacted_marker_props(1) by metis
    have "e @ RIGHT_DELIMITER # s = t' @ RIGHT_DELIMITER # r"
      using m(2) w e' by (simp add: render_token_def)
    moreover have "RIGHT_DELIMITER \<notin> set e" "RIGHT_DELIMITER \<notin> set t'"
      using valid_entity_typeD[OF e] m(1) entity_char_not_special identifier_char_not_special
      by (fastforce simp: render_ok_def list_all_iff)+
    ultimately have "e = t'" using takeWhile_sep by metis
    then have n: "n = length w" using m(3) w e' by simp
    have "\<not> is_valid_entity_type REDACTED_MARKER" by (simp add: is_valid_entity_type_def)
    then have "parse_token w = None"
      using w parse_token_fields[OF redacted_marker_props(1), of e] valid_entity_type_no_sep[OF e] by simp
    moreover have "scan_from pos (w @ s) = (pos, w) # scan_from (pos + length w) s"
      using Some n cw by simp
    ultimately show ?thesis by (simp add: scan_tokens_def)
  qed
qed

lemma scan_segments:
  "\<forall>g \<in> set gs. seg_ok g \<Longrightarrow> scan_tokens p (seg_text gs) = seg_matches p gs"
proof (induction p gs rule: seg_matches.induct)
  case (2 p w gs)
  then have "LEFT_DELIMITER \<notin> set w \<or> (\<exists>e. format_redaction e = Inr w)" by (simp add: seg_ok_def)
  then show ?case using 2 scan_tokens_plain scan_tokens_redaction by (fastforce simp: seg_text_def)
next
  case (3 p w tk gs)
  then show ?case using scan_tokens_token by (simp add: seg_ok_def seg_text_def)
qed (simp add: seg_text_def)


lemma drop_seg: "drop p txt = w @ concat (map fst gs) \<Longrightarrow> drop (p + length w) txt = seg_text gs"
  by (metis add.commute append_eq_conv_conj drop_drop seg_text_def)

lemma rebuild_segments:
  assumes "drop p txt = seg_text gs" "c \<le> p" "p \<le> length txt"
  shows "rebuild txt c (map (\<lambda>m. (tm_start m, tm_end m, f (tm_token m))) (seg_matches p gs))
    = slice txt c p @ concat (map (\<lambda>(w, k). case k of None \<Rightarrow> w | Some tk \<Rightarrow> f tk) gs)"
  using assms
proof (induction p gs arbitrary: c rule: seg_matches.induct)
  case (1 p)
  then show ?case by (metis append_Nil2 concat.simps(1) drop_eq_Nil list.simps(8) rebuild.simps(1)
      seg_matches.simps(1) seg_text_def slice_drop le_antisym)
next
  case (2 p w gs)
  have w: "take (length w) (drop p txt) = w" "drop (p + length w) txt = seg_text gs"
    "length w \<le> length (drop p txt)"
    using 2(2) drop_seg[of p "txt" w gs] by (auto simp: seg_text_def)
  have "slice txt c p @ w = slice txt c (p + length w)"
    using slice_append[of c p "p + length w" "txt"] w(1) 2(3) by (simp add: slice_def)
  then show ?case using 2(1)[OF w(2), of c] 2(3,4) w(3) by simp
next
  case (3 p w tk gs)
  have w: "drop (p + length w) txt = seg_text gs" "length w \<le> length (drop p txt)"
    using 3(2) drop_seg[of p "txt" w gs] by (auto simp: seg_text_def)
  then show ?case using 3(1)[OF w(1), of "p + length w"] 3(4) by simp
qed

lemma restored_segments:
  assumes "\<forall>g \<in> set gs. seg_ok g"
  shows "restored_text (seg_text gs) resolved action =
    concat (map (\<lambda>(w, k). case k of None \<Rightarrow> w | Some tk \<Rightarrow> replacement_text resolved action tk) gs)"
  using rebuild_segments[of 0 "seg_text gs" gs 0 "replacement_text resolved action"] scan_segments[OF assms, of 0]
  by (simp add: restored_text_def find_tokens_scan)

text \<open>An edited text is such a concatenation: gaps of the original and the replacements.\<close>

fun segments_of :: "ustr \<Rightarrow> nat \<Rightarrow> (nat \<times> nat \<times> segment) list \<Rightarrow> segment list" where
  "segments_of txt c [] = [(drop c txt, None)]"
| "segments_of txt c ((s, e, g) # xs) = (slice txt c s, None) # g # segments_of txt e xs"

lemma seg_text_segments_of:
  "seg_text (segments_of txt c xs) = rebuild txt c (map (\<lambda>(s, e, g). (s, e, fst g)) xs)"
  by (induction "txt" c xs rule: segments_of.induct) (simp_all add: seg_text_def)

lemma concat_segments_of:
  "(\<And>w. h (w, None) = w) \<Longrightarrow>
     concat (map h (segments_of txt c xs)) = rebuild txt c (map (\<lambda>(s, e, g). (s, e, h g)) xs)"
  by (induction "txt" c xs rule: segments_of.induct) simp_all

lemma segments_of_ok:
  "LEFT_DELIMITER \<notin> set txt \<Longrightarrow> \<forall>(s, e, g) \<in> set xs. seg_ok g \<Longrightarrow> g \<in> set (segments_of txt c xs) \<Longrightarrow> seg_ok g"
proof (induction "txt" c xs rule: segments_of.induct)
  case (1 txt' c)
  then show ?case by (auto simp: seg_ok_def dest: in_set_dropD)
next
  case (2 txt' c s e g' xs)
  then show ?case using set_slice_subset[of txt' c s] by (auto simp: seg_ok_def)
qed

text \<open>
  Restoring a text that was edited at some spans: the plain text between the edits and the
  redactions stay, each token becomes what it resolves to.
\<close>

lemma restored_edits:
  assumes "LEFT_DELIMITER \<notin> set txt" "\<forall>(s, e, g) \<in> set xs. seg_ok g"
  shows "restored_text (rebuild txt 0 (map (\<lambda>(s, e, g). (s, e, fst g)) xs)) resolved action =
    rebuild txt 0 (map (\<lambda>(s, e, g). (s, e, case snd g of None \<Rightarrow> fst g
        | Some tk \<Rightarrow> replacement_text resolved action tk)) xs)"
proof -
  let ?h = "\<lambda>(w, k). case k of None \<Rightarrow> w | Some tk \<Rightarrow> replacement_text resolved action tk"
  have "restored_text (seg_text (segments_of txt 0 xs)) resolved action
      = concat (map ?h (segments_of txt 0 xs))"
    using segments_of_ok[OF assms] by (intro restored_segments) blast
  also have "\<dots> = rebuild txt 0 (map (\<lambda>(s, e, g). (s, e, ?h g)) xs)"
    by (rule concat_segments_of) simp
  finally show ?thesis by (simp add: seg_text_segments_of case_prod_unfold)
qed

lemma tokens_of_segments:
  assumes "\<forall>g \<in> set gs. seg_ok g"
  shows "map tm_token (find_tokens (seg_text gs)) = List.map_filter snd gs"
proof -
  have "map tm_token (seg_matches p gs) = List.map_filter snd gs" for p
    by (induction p gs rule: seg_matches.induct) (simp_all add: map_filter_simps)
  then show ?thesis using scan_segments[OF assms, of 0] by (simp add: find_tokens_scan)
qed

end
