(* ===== verification/Round_Trip.thy ===== *)
theory Round_Trip
  imports Tokenizer Restoration
begin

text \<open>
  The gateway's main promise, proved once for every vault that keeps the contract
  \<open>token_vault\<close>: protecting a text, sending it through a provider that returns it, and
  restoring it in the same session gives back the tokenized values, while redacted and
  pseudonymized ones stay as they are. Each vault of the development interprets the contract
  and instantiates these lemmas.
\<close>

text \<open>The edits with the replacement as a segment, and the edits that restoration leaves.\<close>

fun seg_edits :: "(nat \<times> detected_entity \<times> entity_action) list \<Rightarrow> ustr option list \<Rightarrow>
    (nat \<times> nat \<times> segment) list" where
  "seg_edits ((i, e, a) # xs) (Some r # rs) =
     (de_start e, de_end e, r, if a = TOKENIZE then parse_token r else None) # seg_edits xs rs"
| "seg_edits ((i, e, a) # xs) (None # rs) = seg_edits xs rs"
| "seg_edits _ _ = []"

fun irreversible :: "plan \<Rightarrow> ustr option list \<Rightarrow> ustr option list" where
  "irreversible ((e, a) # plan) (r # rs) = (if a = TOKENIZE then None else r) # irreversible plan rs"
| "irreversible _ _ = []"

lemma length_irreversible [simp]: "length plan = length rs \<Longrightarrow> length (irreversible plan rs) = length rs"
  by (induction plan rs rule: irreversible.induct) auto

lemma seg_edits_fst: "map (\<lambda>(s, e, g). (s, e, fst g)) (seg_edits xs rs) = edits xs rs"
  by (induction xs rs rule: seg_edits.induct) auto

lemma rebuild_advance:
  assumes "\<forall>x \<in> set xs. k \<le> fst x" "c \<le> k" "k \<le> length txt"
  shows "rebuild txt c xs = slice txt c k @ rebuild txt k xs"
proof (cases xs)
  case Nil
  then show ?thesis using slice_append[of c k "length txt" "txt"] assms(2,3) by (simp add: slice_drop)
next
  case (Cons x ys)
  then show ?thesis using slice_append[of c k "fst x" "txt"] assms by (cases x) simp
qed

lemma rebuild_restored:
  assumes "length rs = length plan" "disjoint_ordered (map fst plan)"
    "\<forall>(e, a) \<in> set plan. wf_entity e \<and> de_end e \<le> length txt \<and> c \<le> de_start e"
    "\<forall>i < length plan. snd (plan ! i) = TOKENIZE \<longrightarrow> (\<exists>r tk. rs ! i = Some r \<and> parse_token r = Some tk
        \<and> f tk = slice txt (de_start (fst (plan ! i))) (de_end (fst (plan ! i))))"
  shows "rebuild txt c (map (\<lambda>(s, e, g). (s, e, case snd g of None \<Rightarrow> fst g | Some tk \<Rightarrow> f tk))
      (seg_edits (enumerate n plan) rs)) = rebuild txt c (edits (enumerate n plan) (irreversible plan rs))"
  using assms
proof (induction plan arbitrary: rs c n)
  case (Cons p plan)
  obtain e a where p: "p = (e, a)" by (cases p)
  obtain r rs' where rs: "rs = r # rs'" using Cons.prems(1) by (cases rs) auto
  have wf: "de_start e < de_end e" "de_end e \<le> length txt" "c \<le> de_start e"
    using Cons.prems(3) p by (auto simp: wf_entity_def)
  have later: "\<forall>(e', a') \<in> set plan. de_end e \<le> de_start e'" using Cons.prems(2) p by auto
  have ih: "rebuild txt k (map (\<lambda>(s, e, g). (s, e, case snd g of None \<Rightarrow> fst g | Some tk \<Rightarrow> f tk))
      (seg_edits (enumerate (Suc n) plan) rs')) = rebuild txt k (edits (enumerate (Suc n) plan) (irreversible plan rs'))"
    if "k \<le> de_end e" for k
  proof (rule Cons.IH)
    show "\<forall>(e, a) \<in> set plan. wf_entity e \<and> de_end e \<le> length txt \<and> k \<le> de_start e"
      using Cons.prems(3) later that by fastforce
    show "\<forall>i < length plan. snd (plan ! i) = TOKENIZE \<longrightarrow> (\<exists>r tk. rs' ! i = Some r \<and> parse_token r = Some tk
        \<and> f tk = slice txt (de_start (fst (plan ! i))) (de_end (fst (plan ! i))))"
      using Cons.prems(4) rs by fastforce
  qed (use Cons.prems p rs in auto)
  show ?case
  proof (cases "a = TOKENIZE")
    case True
    then obtain w tk where w: "r = Some w" "parse_token w = Some tk" "f tk = slice txt (de_start e) (de_end e)"
      using Cons.prems(4)[rule_format, of 0] p rs by auto
    have "\<forall>x \<in> set (edits (enumerate (Suc n) plan) (irreversible plan rs')). de_end e \<le> fst x"
    proof
      fix x assume "x \<in> set (edits (enumerate (Suc n) plan) (irreversible plan rs'))"
      then obtain i e' a' where m: "(i, e', a') \<in> set (enumerate (Suc n) plan)" "fst x = de_start e'"
        using edits_subset[of "fst x" "fst (snd x)" "snd (snd x)"] by fastforce
      from m(1) have "(e', a') \<in> set plan" by (metis enumerate_eq_zip set_zip_rightD)
      then show "de_end e \<le> fst x" using later m(2) by auto
    qed
    from rebuild_advance[OF this, of c "txt"] wf
    have "rebuild txt c (edits (enumerate (Suc n) plan) (irreversible plan rs'))
        = slice txt c (de_end e) @ rebuild txt (de_end e) (edits (enumerate (Suc n) plan) (irreversible plan rs'))"
      by simp
    then show ?thesis using True w p rs ih[of "de_end e"] wf slice_append[of c "de_start e" "de_end e" "txt"]
      by (simp flip: append_assoc)
  next
    case False
    then show ?thesis using p rs ih[of "de_end e"] ih[of c] wf by (cases r) auto
  qed
qed simp


lemma seg_edits_mem:
  "x \<in> set (seg_edits xs rs) \<Longrightarrow> \<exists>j i e a r. j < length xs \<and> j < length rs \<and> xs ! j = (i, e, a) \<and> rs ! j = Some r
     \<and> x = (de_start e, de_end e, r, if a = TOKENIZE then parse_token r else None)"
proof (induction xs rs rule: seg_edits.induct)
  case (1 i e a xs r rs)
  show ?case
  proof (cases "x = (de_start e, de_end e, r, if a = TOKENIZE then parse_token r else None)")
    case True
    then show ?thesis by - (rule exI[where x = 0], auto)
  next
    case False
    then have "x \<in> set (seg_edits xs rs)" using 1(2) by simp
    from 1(1)[OF this] obtain j i' e' a' r' where "j < length xs" "j < length rs" "xs ! j = (i', e', a')"
      "rs ! j = Some r'" "x = (de_start e', de_end e', r', if a' = TOKENIZE then parse_token r' else None)"
      by blast
    then show ?thesis by - (rule exI[where x = "Suc j"], auto)
  qed
next
  case (2 i e a xs rs)
  then obtain j i' e' a' r' where "j < length xs" "j < length rs" "xs ! j = (i', e', a')" "rs ! j = Some r'"
    "x = (de_start e', de_end e', r', if a' = TOKENIZE then parse_token r' else None)" by auto
  then show ?case by - (rule exI[where x = "Suc j"], auto)
qed auto

lemma seg_edits_nth:
  "j < length xs \<Longrightarrow> length rs = length xs \<Longrightarrow> xs ! j = (i, e, a) \<Longrightarrow> rs ! j = Some r \<Longrightarrow>
     (de_start e, de_end e, r, if a = TOKENIZE then parse_token r else None) \<in> set (seg_edits xs rs)"
proof (induction xs rs arbitrary: j rule: seg_edits.induct)
  case (1 i' e' a' xs r' rs)
  then show ?case by (cases j) auto
next
  case (2 i' e' a' xs rs)
  then show ?case by (cases j) auto
qed auto

lemma left_delimiter_large: "128 \<le> LEFT_DELIMITER"
  by (simp add: LEFT_DELIMITER_def)

lemma span_segments_ok:
  assumes len: "length rs = length plan" "length ms = length plan"
    and sr: "\<And>i. i < length plan \<Longrightarrow> span_result env t u txt (plan ! i) (ms ! i) (rs ! i)"
    and left: "LEFT_DELIMITER \<notin> set txt"
  shows "\<forall>(s, e, g) \<in> set (seg_edits (enumerate 0 plan) rs). seg_ok g"
proof
  fix x assume "x \<in> set (seg_edits (enumerate 0 plan) rs)"
  then obtain j e a r where j: "j < length plan" "plan ! j = (e, a)" "rs ! j = Some r"
    and x: "x = (de_start e, de_end e, r, if a = TOKENIZE then parse_token r else None)"
    by (auto dest!: seg_edits_mem simp: nth_enumerate_eq)
  have sp: "span_result env t u txt (e, a) (ms ! j) (Some r)" using sr[OF j(1)] j by simp
  have "seg_ok (r, if a = TOKENIZE then parse_token r else None)"
  proof (cases a)
    case PSEUDONYMIZE
    then have "\<exists>m :: entity_mapping. surrogate_for (te_ucd env) (te_blake env) (de_entity_type e)
        (slice txt (de_start e) (de_end e)) (em_normalized_hmac m) = Inr r"
      using sp by (auto simp: span_result_def)
    then have "LEFT_DELIMITER \<notin> set r"
      using surrogate_chars[of "te_ucd env" "te_blake env" "de_entity_type e" _ _ r LEFT_DELIMITER]
        left left_delimiter_large set_slice_subset[of "txt"] by blast
    then show ?thesis using PSEUDONYMIZE by (simp add: seg_ok_def)
  qed (use sp in \<open>auto simp: span_result_def seg_ok_def mapping_ok_def\<close>)
  then show "case x of (s, e, g) \<Rightarrow> seg_ok g" using x by simp
qed

text \<open>
  The vault remembers the first spelling of a value per fingerprint. The entries of a batch are
  \<open>faithful\<close> if values that share a fingerprint are equal, also with what is stored already.
\<close>

definition faithful :: "(vault_key \<Rightarrow> (ustr \<times> ustr) option) \<Rightarrow> pending list \<Rightarrow> bool" where
  "faithful st ps \<longleftrightarrow> (\<forall>p \<in> set ps.
     (\<forall>tok v. st (pe_entity_type p, pe_normalized_hmac p) = Some (tok, v) \<longrightarrow> v = pe_original p)
     \<and> (\<forall>q \<in> set ps. pe_entity_type q = pe_entity_type p \<and> pe_normalized_hmac q = pe_normalized_hmac p
          \<longrightarrow> pe_original q = pe_original p))"

context token_vault
begin

lemma minted_token_resolves:
  assumes okn: "ok (length ps) s"
    and call: "vo_get_or_create_many ops t u (map write_request_of ps) ttl s = (Inr toks, s')"
    and f: "faithful (stored s t u) ps" and j: "j < length ps"
    and m: "mapping_for (ps ! j) (toks ! j) = Inr m"
  shows "\<exists>k. stored s' t u k = Some (em_token m, pe_original (ps ! j))" and "em_token m = toks ! j"
proof -
  let ?p = "ps ! j" and ?es = "map write_request_of ps"
  let ?k = "(pe_entity_type ?p, pe_normalized_hmac ?p)"
  have ok': "ok (length ?es) s" using okn by simp
  have key: "vault_key_of (?es ! j) = ?k" using j by (simp add: vault_key_of_def write_request_of_def)
  obtain v where v: "stored s' t u ?k = Some (toks ! j, v)"
    using create_stored[OF ok' call, of j] j key by auto
  have "v = pe_original ?p"
    using create_origin[OF ok' call v]
  proof
    assume "stored s t u ?k = Some (toks ! j, v)"
    then show ?thesis using f j by (auto simp: faithful_def)
  next
    assume "\<exists>w \<in> set ?es. vault_key_of w = ?k \<and> vw_original_value w = v"
    then obtain q where "q \<in> set ps" "pe_entity_type q = pe_entity_type ?p"
      "pe_normalized_hmac q = pe_normalized_hmac ?p" "pe_original q = v"
      by (auto simp: vault_key_of_def write_request_of_def)
    then show ?thesis using f j unfolding faithful_def by (metis nth_mem)
  qed
  have "ok 0 s'" using create_ok[of 0 ?es s t u ttl toks s'] ok' call by simp
  then obtain tk where tk: "parse_token (toks ! j) = Some tk" "tk_entity_type tk = pe_entity_type ?p"
    using stored_token v by fastforce
  then have "coerce_vault_token (toks ! j) (pe_entity_type ?p) = Inr tk" by (simp add: coerce_vault_token_def)
  then show tok: "em_token m = toks ! j"
    using m tk(1) by (auto simp: mapping_for_def result_simps parse_token_format)
  then show "\<exists>k. stored s' t u k = Some (em_token m, pe_original ?p)"
    using v \<open>v = pe_original ?p\<close> by auto
qed

end

lemma segments_of_mem:
  "g \<in> set (segments_of txt c xs) \<Longrightarrow> snd g = None \<or> (\<exists>s e. (s, e, g) \<in> set xs)"
  by (induction "txt" c xs rule: segments_of.induct) auto

lemma mem_segments_of: "(s, e, g) \<in> set xs \<Longrightarrow> g \<in> set (segments_of txt c xs)"
  by (induction "txt" c xs rule: segments_of.induct) auto

lemma set_map_filter: "set (List.map_filter f xs) = {y. \<exists>x \<in> set xs. f x = Some y}"
  by (force simp: List.map_filter_def)

lemma pending_count:
  assumes sel: "select_entities txt es policy = Inr sel"
    and ps: "pending_of_plan env t u txt (plan_for policy sel) = Inr ps"
  shows "length ps \<le> length es"
proof -
  have "length ps \<le> length sel"
    using pending_indices[OF ps] length_filter_le[of _ "enumerate 0 (plan_for policy sel)"]
    by (metis length_enumerate length_map plan_for_props(1))
  also have "\<dots> \<le> length es"
    using sel select_leftmost_length[of "filter (confident_for policy) es"] length_filter_le[of _ es]
    by (auto simp: select_entities_Inr intro: le_trans)
  finally show ?thesis .
qed

context token_vault
begin

lemma restore_after_transform:
  assumes tr: "transform env ops t u txt es policy s = (Inr out, s')" and wf: "\<forall>e \<in> set es. wf_entity e"
    and okn: "ok (length es + n) s" and left: "LEFT_DELIMITER \<notin> set txt"
    and sel: "select_entities txt es policy = Inr sel"
    and faith: "\<forall>ps. pending_of_plan env t u txt (plan_for policy sel) = Inr ps \<longrightarrow> faithful (stored s t u) ps"
    and resp: "validated_content U response limit = Inr (tt_text out)"
    and resolve: "vo_resolve_many ops t u (remdups (map tm_text (find_tokens (tt_text out)))) s' = (Inr d, s'')"
  shows "\<exists>rs r s2. length rs = length sel
    \<and> (\<forall>i < length sel. \<exists>m. span_result env t u txt (plan_for policy sel ! i) m (rs ! i))
    \<and> tt_text out = rebuild txt 0 (edits (enumerate 0 (plan_for policy sel)) rs)
    \<and> restore U ops limit t u response action s' = (Inr r, s2)
    \<and> ro_text r = rebuild txt 0 (edits (enumerate 0 (plan_for policy sel)) (irreversible (plan_for policy sel) rs))
    \<and> ps_unknown_tokens (ro_summary r) = 0"
proof -
  let ?plan = "plan_for policy sel"
  obtain ms rs ps toks where f: "length ms = length sel" "length rs = length sel"
    and sr: "\<And>i. i < length sel \<Longrightarrow> span_result env t u txt (?plan ! i) (ms ! i) (rs ! i)"
    and text_eq: "tt_text out = rebuild txt 0 (edits (enumerate 0 ?plan) rs)"
    and ps: "pending_of_plan env t u txt ?plan = Inr ps"
    and call: "ps = [] \<and> s' = s \<or> ps \<noteq> [] \<and>
       vo_get_or_create_many ops t u (map write_request_of ps) (pl_session_ttl_seconds policy) s = (Inr toks, s')"
    and origin: "\<And>i m. i < length sel \<Longrightarrow> ms ! i = Some m \<Longrightarrow>
       \<exists>j < length ps. pe_index (ps ! j) = i \<and> mapping_for (ps ! j) (toks ! j) = Inr m"
  proof (rule transform_facts[OF tr wf])
    fix sel' ms rs ps toks
    assume "select_entities txt es policy = Inr sel'"
    then have eq: "sel' = sel" using sel by simp
    assume "length ms = length sel'" "length rs = length sel'"
      "\<And>i. i < length sel' \<Longrightarrow> span_result env t u txt (plan_for policy sel' ! i) (ms ! i) (rs ! i)"
      "tt_text out = rebuild txt 0 (edits (enumerate 0 (plan_for policy sel')) rs)"
      "pending_of_plan env t u txt (plan_for policy sel') = Inr ps"
      "ps = [] \<and> s' = s \<or> ps \<noteq> [] \<and>
       vo_get_or_create_many ops t u (map write_request_of ps) (pl_session_ttl_seconds policy) s = (Inr toks, s')"
      "\<And>i m. i < length sel' \<Longrightarrow> ms ! i = Some m \<Longrightarrow>
       \<exists>j < length ps. pe_index (ps ! j) = i \<and> mapping_for (ps ! j) (toks ! j) = Inr m"
    then show thesis unfolding eq by (rule that)
  qed
  note spans = select_entities_spans[OF sel wf]
  let ?segs = "seg_edits (enumerate 0 ?plan) rs"
  have segs_ok: "\<forall>(s, e, g) \<in> set ?segs. seg_ok g"
    using span_segments_ok[of rs ?plan ms env t u "txt"] f sr left by simp
  have txt_segs: "tt_text out = seg_text (segments_of txt 0 ?segs)"
    by (simp add: text_eq seg_text_segments_of seg_edits_fst)
  have all_ok: "\<forall>g \<in> set (segments_of txt 0 ?segs). seg_ok g"
    using segments_of_ok[OF left segs_ok] by blast
  text \<open>every token of the protected text is that of a tokenized span, and resolves to its value\<close>
  have lens: "length ps \<le> length es" by (rule pending_count[OF sel ps])
  have resolves: "parse_token (em_token m) \<noteq> None \<and> rs ! i = Some (em_token m)
      \<and> (\<exists>k. stored s' t u k = Some (em_token m, slice txt (de_start (sel ! i)) (de_end (sel ! i))))"
    if i: "i < length sel" "ms ! i = Some m" "pl_action_for policy (de_entity_type (sel ! i)) = TOKENIZE" for i m
  proof -
    have sp: "span_result env t u txt (sel ! i, TOKENIZE) (Some m) (rs ! i)" using sr[OF i(1)] i by simp
    then have mo: "mapping_ok env t u txt (sel ! i) m" and r: "rs ! i = Some (em_token m)"
      by (auto simp: span_result_def)
    obtain j where j: "j < length ps" "mapping_for (ps ! j) (toks ! j) = Inr m" using origin i by blast
    then have "pe_original (ps ! j) = slice txt (de_start (sel ! i)) (de_end (sel ! i))"
      using mapping_for_Inr[OF j(2)] mo by (simp add: mapping_ok_def)
    moreover have "vo_get_or_create_many ops t u (map write_request_of ps) (pl_session_ttl_seconds policy) s = (Inr toks, s')"
      using call j(1) by auto
    moreover have "ok (length ps) s" using ok_mono[OF okn] lens by simp
    ultimately show ?thesis
      using minted_token_resolves(1)[of ps s t u "pl_session_ttl_seconds policy" toks s' j m] faith ps j r mo
      by (auto simp: mapping_ok_def)
  qed
  have scanned: "set (map tm_token (find_tokens (tt_text out))) = {tk. \<exists>g \<in> set (segments_of txt 0 ?segs). snd g = Some tk}"
    using tokens_of_segments[OF all_ok] by (simp add: txt_segs set_map_filter del: set_map)
  have from_span: "\<exists>i m. i < length sel \<and> ms ! i = Some m \<and> pl_action_for policy (de_entity_type (sel ! i)) = TOKENIZE
      \<and> parse_token (em_token m) = Some tk" if tk: "tk \<in> set (map tm_token (find_tokens (tt_text out)))" for tk
  proof -
    from tk obtain s e g where g: "(s, e, g) \<in> set ?segs" "snd g = Some tk"
      using segments_of_mem unfolding scanned by fastforce
    then obtain j i e' a r where j: "j < length sel" "enumerate 0 ?plan ! j = (i, e', a)" "rs ! j = Some r"
      "g = (r, if a = TOKENIZE then parse_token r else None)"
      using seg_edits_mem[OF g(1)] f by fastforce
    then have a: "a = TOKENIZE" "parse_token r = Some tk" "pl_action_for policy (de_entity_type (sel ! j)) = TOKENIZE"
      using g(2) by (auto simp: nth_enumerate_eq split: if_splits)
    then show ?thesis using sr[OF j(1)] j(1,3) by (auto simp: span_result_def)
  qed
  have in_text: "em_token m \<in> set (map tm_text (find_tokens (tt_text out)))"
    if i: "i < length sel" "ms ! i = Some m" "pl_action_for policy (de_entity_type (sel ! i)) = TOKENIZE" for i m
  proof -
    obtain tk where tk: "parse_token (em_token m) = Some tk" and r: "rs ! i = Some (em_token m)"
      using resolves[OF i] by auto
    have "(de_start (sel ! i), de_end (sel ! i), em_token m, Some tk) \<in> set ?segs"
      using seg_edits_nth[of i "enumerate 0 ?plan" rs i "sel ! i" TOKENIZE "em_token m"] i f r tk
      by (simp add: nth_enumerate_eq)
    from mem_segments_of[OF this, of "txt" 0] have "tk \<in> set (map tm_token (find_tokens (tt_text out)))"
      unfolding scanned by force
    then show ?thesis using parse_token_Some[OF tk] by (force simp: tm_text_def)
  qed
  have "ok 0 s'" using call ok_mono[OF okn, of 0] create_ok[of 0 "map write_request_of ps"] ok_mono[OF okn, of "length ps"] lens
    by auto
  then have found: "dict_get d (em_token m) = Some (slice txt (de_start (sel ! i)) (de_end (sel ! i)))"
    if "i < length sel" "ms ! i = Some m" "pl_action_for policy (de_entity_type (sel ! i)) = TOKENIZE" for i m
    using resolve_exact[OF _ resolve] resolves[OF that] in_text[OF that] by simp
  have none_unknown: "unknown_tokens (tt_text out) d = []"
    unfolding unknown_tokens_def filter_empty_conv
  proof
    fix c assume "c \<in> set (remdups (map tm_text (find_tokens (tt_text out))))"
    then obtain tk where tk: "tk \<in> set (map tm_token (find_tokens (tt_text out)))"
      "c = render_token (tk_entity_type tk) (tk_token_id tk)" by (auto simp: tm_text_def)
    with from_span[OF tk(1)] show "dict_get d c \<noteq> None" using found parse_token_Some by fastforce
  qed
  have restored: "restored_text (tt_text out) d action =
      rebuild txt 0 (edits (enumerate 0 ?plan) (irreversible ?plan rs))"
  proof -
    have "restored_text (tt_text out) d action = rebuild txt 0 (map (\<lambda>(s, e, g). (s, e, case snd g of
        None \<Rightarrow> fst g | Some tk \<Rightarrow> replacement_text d action tk)) ?segs)"
      using restored_edits[OF left segs_ok, of d action] by (simp add: text_eq seg_edits_fst)
    also have "\<dots> = rebuild txt 0 (edits (enumerate 0 ?plan) (irreversible ?plan rs))"
    proof (rule rebuild_restored)
      show "\<forall>i < length ?plan. snd (?plan ! i) = TOKENIZE \<longrightarrow> (\<exists>r tk. rs ! i = Some r \<and> parse_token r = Some tk
        \<and> replacement_text d action tk = slice txt (de_start (fst (?plan ! i))) (de_end (fst (?plan ! i))))"
      proof (intro allI impI)
        fix i assume "i < length ?plan" "snd (?plan ! i) = TOKENIZE"
        then have i: "i < length sel" "pl_action_for policy (de_entity_type (sel ! i)) = TOKENIZE" by simp_all
        obtain m where m: "ms ! i = Some m" using sr[OF i(1)] i by (auto simp: span_result_def)
        obtain tk where tk: "parse_token (em_token m) = Some tk" "rs ! i = Some (em_token m)"
          using resolves[OF i(1) m i(2)] by auto
        have "replacement_text d action tk = slice txt (de_start (sel ! i)) (de_end (sel ! i))"
          using parse_token_Some[OF tk(1)] found[OF i(1) m i(2)] by (simp add: replacement_text_def Let_def)
        then show "\<exists>r tk. rs ! i = Some r \<and> parse_token r = Some tk
          \<and> replacement_text d action tk = slice txt (de_start (fst (?plan ! i))) (de_end (fst (?plan ! i)))"
          using tk i(1) by auto
      qed
    qed (use f spans plan_for_spans[of sel "\<lambda>e. wf_entity e \<and> de_end e \<le> length txt" policy] in auto)
    finally show ?thesis .
  qed
  show ?thesis
  proof (cases "find_tokens (tt_text out) = []")
    case True
    then have "restored_text (tt_text out) d action = tt_text out" by (simp add: restored_text_def)
    moreover have "restore U ops limit t u response action s' = (Inr (passthrough response (tt_text out)), s')"
      using True resp by (simp add: restore_def liftS_def)
    ultimately show ?thesis using restored f(2) sr text_eq
      by (intro exI[of _ rs] exI[of _ "passthrough response (tt_text out)"] exI[of _ s'])
        (auto simp: passthrough_def empty_summary_def)
  next
    case False
    show ?thesis using restore_resolved[OF resp False resolve, of action] none_unknown restored f(2) sr text_eq
      by (intro exI[of _ rs]) (auto simp: empty_summary_def)
  qed
qed

end


lemma edits_none: "\<forall>r \<in> set rs. r = None \<Longrightarrow> edits xs rs = []"
  by (induction xs rs rule: edits.induct) auto

lemma irreversible_none:
  "length rs = length plan \<Longrightarrow> \<forall>i < length plan. snd (plan ! i) \<noteq> TOKENIZE \<longrightarrow> rs ! i = None \<Longrightarrow>
     \<forall>r \<in> set (irreversible plan rs). r = None"
  by (induction plan rs rule: irreversible.induct) (auto simp: All_less_Suc2 split: if_splits)

text \<open>When the policy only tokenizes and allows, nothing irreversible is left.\<close>

lemma irreversible_edits_empty:
  assumes "length rs = length sel" "\<forall>i < length sel. \<exists>m. span_result env t u txt (plan_for policy sel ! i) m (rs ! i)"
    "\<forall>e \<in> set sel. pl_action_for policy (de_entity_type e) \<in> {TOKENIZE, ALLOW}"
  shows "rebuild txt 0 (edits (enumerate 0 (plan_for policy sel)) (irreversible (plan_for policy sel) rs)) = txt"
proof -
  have "rs ! i = None" if i: "i < length sel" "pl_action_for policy (de_entity_type (sel ! i)) \<noteq> TOKENIZE" for i
  proof -
    have "pl_action_for policy (de_entity_type (sel ! i)) = ALLOW" using assms(3) i by (metis insertE nth_mem singletonD)
    then show ?thesis using assms(2)[rule_format, OF i(1)] i(1) by (auto simp: span_result_def)
  qed
  then have "\<forall>r \<in> set (irreversible (plan_for policy sel) rs). r = None"
    using assms(1) by (intro irreversible_none) auto
  then show ?thesis by (simp add: edits_none)
qed


section \<open>When a transformation returns\<close>

lemma traverseR_exists: "(\<And>x. x \<in> set xs \<Longrightarrow> \<exists>y. f x = Inr y) \<Longrightarrow> \<exists>ys. traverseR f xs = Inr ys"
proof (induction xs)
  case (Cons x xs)
  then obtain y ys where "f x = Inr y" "traverseR f xs = Inr ys" by (meson list.set_intros)
  then show ?case by simp
qed simp

text \<open>What the code needs of its surroundings to return: BLAKE2b gives 64 bytes, HMAC gives bytes.\<close>

definition env_ok :: "tok_env \<Rightarrow> bool" where
  "env_ok env \<longleftrightarrow> (\<forall>x. length (te_blake env x) = 64) \<and> (\<forall>k m. \<forall>x \<in> set (te_hmac env k m). x < 256)"

lemma fingerprint_ascii_chars:
  assumes "env_ok env" "fingerprint (te_hmac env) (te_key env) i = Inr h" "c \<in> set h"
  shows "c < 128"
proof -
  from assms(2) obtain m where h: "h = hexdigest (te_hmac env (te_key env) m)"
    by (auto simp: fingerprint_def result_simps)
  with assms(3) obtain x where x: "x \<in> set (te_hmac env (te_key env) m)" "c \<in> {hex_digit (x div 16), hex_digit (x mod 16)}"
    by (auto simp: hexdigest_def)
  then have "x < 256" using assms(1) by (auto simp: env_ok_def)
  then have "x div 16 < 16" "x mod 16 < 16" by (simp_all add: less_mult_imp_div_less)
  then show ?thesis using x(2) hex_digit_ascii by auto
qed

lemma valid_type_ascii: "is_valid_entity_type e \<Longrightarrow> c \<in> set e \<Longrightarrow> c < 128"
  using valid_entity_typeD[of e] by (auto simp: list_all_iff is_entity_char_def ascii_upper_def ascii_digit_def)

lemma surrogate_exists:
  assumes "env_ok env" "fingerprint (te_hmac env) (te_key env) i = Inr h" "is_valid_entity_type ty"
    "length v \<le> 256 ^ 4"
  shows "\<exists>r. surrogate_for (te_ucd env) (te_blake env) ty v h = Inr r"
proof -
  have "utf8_encode (h @ 58 # ty) = Inr (h @ 58 # ty)"
    using fingerprint_ascii_chars[OF assms(1,2)] valid_type_ascii[OF assms(3)] by (intro utf8_encode_ascii) auto
  moreover have "\<forall>x. length (te_blake env x) = 64" using assms(1) by (simp add: env_ok_def)
  then obtain st where st: "keystream (te_blake env) (h @ 58 # ty) (length v) = Inr st"
    using keystream_returns assms(4) by blast
  moreover have "length st = length v" by (rule keystream_length[OF st])
  ultimately show ?thesis by (simp add: surrogate_for_def)
qed

context token_vault
begin

lemma mapping_for_total:
  assumes "ok (length ps) s" "vo_get_or_create_many ops t u (map write_request_of ps) ttl s = (Inr toks, s')" "j < length ps"
  shows "\<exists>m. mapping_for (ps ! j) (toks ! j) = Inr m"
proof -
  let ?es = "map write_request_of ps"
  have key: "vault_key_of (?es ! j) = (pe_entity_type (ps ! j), pe_normalized_hmac (ps ! j))"
    using assms(3) by (simp add: vault_key_of_def write_request_of_def)
  have "ok (length ?es) s" "ok (0 + length ?es) s" using assms(1) by simp_all
  then obtain v where v: "stored s' t u (pe_entity_type (ps ! j), pe_normalized_hmac (ps ! j)) = Some (toks ! j, v)"
    and "ok 0 s'" using create_stored[of ?es s t u ttl toks s' j] create_ok[of 0 ?es] assms(2,3) key by auto
  then obtain tk where tk: "parse_token (toks ! j) = Some tk" "tk_entity_type tk = pe_entity_type (ps ! j)"
    using stored_token by fastforce
  then have "coerce_vault_token (toks ! j) (pe_entity_type (ps ! j)) = Inr tk" by (simp add: coerce_vault_token_def)
  moreover have "format_token (tk_entity_type tk) (tk_token_id tk) = Inr (toks ! j)"
    using tk(1) by (simp add: parse_token_format)
  ultimately show ?thesis by (simp add: mapping_for_def)
qed

lemma minted_total:
  assumes "ok (length ps) s" "vo_get_or_create_many ops t u (map write_request_of ps) ttl s = (Inr toks, s')"
  shows "\<exists>minted. length toks = length ps \<and> traverseR (\<lambda>(item, raw_token). bindR (mapping_for item raw_token)
      (\<lambda>m. Inr (pe_index item, m))) (zip ps toks) = Inr minted"
proof -
  have len: "length toks = length ps" using create_length[of "map write_request_of ps"] assms by simp
  have "\<exists>y. (\<lambda>(item, raw_token). bindR (mapping_for item raw_token) (\<lambda>m. Inr (pe_index item, m))) x = Inr y"
    if "x \<in> set (zip ps toks)" for x
  proof -
    from that len obtain i where "i < length ps" "x = (ps ! i, toks ! i)" by (auto simp: set_zip)
    then show ?thesis using mapping_for_total[OF assms, of i] by auto
  qed
  then show ?thesis using len traverseR_exists by blast
qed

lemma mint_total:
  assumes okp: "ok (length ps) s" and ps: "pending_of_plan env t u txt plan = Inr ps"
    and call: "ps \<noteq> [] \<Longrightarrow> \<exists>toks s'. vo_get_or_create_many ops t u (map write_request_of ps) ttl s = (Inr toks, s')"
  shows "\<exists>minted s'. mint env ops t u txt plan ttl s = (Inr minted, s')"
proof (cases "ps = []")
  case True
  then show ?thesis using ps by (simp add: mint_def liftS_def)
next
  case False
  then obtain toks s' where c: "vo_get_or_create_many ops t u (map write_request_of ps) ttl s = (Inr toks, s')"
    using call by blast
  from minted_total[OF okp c] show ?thesis
    using False ps c by (auto simp: mint_def bindS_def liftS_def)
qed

lemma transform_succeeds:
  assumes env: "env_ok env" and notref: "refused txt es policy = None" and wf: "\<forall>e \<in> set es. wf_entity e"
    and okn: "ok (length es) s" and sel: "select_entities txt es policy = Inr sel"
    and ps: "pending_of_plan env t u txt (plan_for policy sel) = Inr ps"
    and call: "ps \<noteq> [] \<Longrightarrow> \<exists>toks s'. vo_get_or_create_many ops t u (map write_request_of ps)
        (pl_session_ttl_seconds policy) s = (Inr toks, s')"
    and types: "\<forall>e \<in> set sel. is_valid_entity_type (de_entity_type e)" and len: "length txt \<le> 256 ^ 4"
  shows "\<exists>out s'. transform env ops t u txt es policy s = (Inr out, s')"
proof -
  let ?plan = "plan_for policy sel"
  have sel': "sel = select_leftmost (filter (confident_for policy) es)" using sel by (simp add: select_entities_Inr)
  have nb: "pl_action_for policy (de_entity_type e) \<noteq> BLOCK" if "e \<in> set sel" for e
    using notref that unfolding refused_def sel' by (auto simp: Let_def split: if_splits)
  have "ok (length ps) s" using ok_mono[OF okn] pending_count[OF sel ps] by simp
  then obtain minted s' where mi: "mint env ops t u txt ?plan (pl_session_ttl_seconds policy) s = (Inr minted, s')"
    using mint_total[OF _ ps call] by blast
  obtain ps' toks where ps': "pending_of_plan env t u txt ?plan = Inr ps'" and mb: "minted_by ps' toks minted"
    using mint_Inr[OF mi] by metis
  have "\<exists>r. replacement_at env txt minted (i, e, a) = Inr r"
    if i: "i < length sel" "sel ! i = e" "pl_action_for policy (de_entity_type e) = a" for i e a
  proof -
    have e: "e \<in> set sel" using i by auto
    show ?thesis
    proof (cases "a \<in> MAPPING_ACTIONS")
      case False
      then show ?thesis using nb[OF e] types e i(3)
        by (cases a) (auto simp: replacement_at_def replacement_for_def MAPPING_ACTIONS_def format_redaction_def)
    next
      case True
      obtain j where j: "j < length ps'"
        "pending_for env t u i (slice txt (de_start e) (de_end e)) (de_entity_type e) = Inr (ps' ! j)"
        using pending_position[OF ps', of i e a] i True by auto
      then obtain m where m: "dict_get minted i = Some m" "mapping_for (ps' ! j) (toks ! j) = Inr m"
        using minted_lookup[OF mb distinct_pending[OF ps'] j(1)] by (auto simp: pending_for_Inr)
      have "length (slice txt (de_start e) (de_end e)) \<le> 256 ^ 4" using len by (simp add: slice_simps)
      moreover obtain x where "fingerprint (te_hmac env) (te_key env) x = Inr (em_normalized_hmac m)"
        using j(2) mapping_for_Inr[OF m(2)] by (auto simp: pending_for_Inr)
      ultimately obtain w where "surrogate_for (te_ucd env) (te_blake env) (de_entity_type e)
          (slice txt (de_start e) (de_end e)) (em_normalized_hmac m) = Inr w"
        using surrogate_exists[OF env] types e by blast
      then show ?thesis using True m(1)
        by (cases a) (auto simp: replacement_at_def replacement_for_def MAPPING_ACTIONS_def)
    qed
  qed
  then obtain rs where "list_all2 (\<lambda>x r. replacement_at env txt minted x = Inr r) (enumerate 0 ?plan) rs"
    using traverseR_exists[of "enumerate 0 ?plan" "replacement_at env txt minted"]
    by (fastforce simp: traverseR_Inr enumerate_mem)
  moreover note spans = select_entities_spans[OF sel wf]
  ultimately have "\<exists>out. splice env txt minted ?plan = Inr out"
    using splice_Inr[of ?plan "txt"] plan_for_spans[OF spans(1), of "\<lambda>e. wf_entity e \<and> de_end e \<le> length txt" policy] spans(2)
    by auto
  moreover have "enforce_limit sel policy = Inr ()"
    using notref unfolding refused_def sel' by (auto simp: Let_def enforce_limit_def split: if_splits)
  moreover have "reject_blocked ?plan = Inr ()" using nb by (auto simp: reject_blocked_iff plan_for_def)
  ultimately show ?thesis using transform_steps[OF sel _ _ mi] by blast
qed

end

end
