(* ===== verification/Memory_Vault.thy ===== *)
theory Memory_Vault
  imports Round_Trip Token_Ids
begin

text \<open>
  The in-memory vault, \<^verbatim>\<open>app/vault/fakes.py\<close>, and \<^verbatim>\<open>app/vault/tokens.py\<close>. The state holds the
  sessions, the failure a test injects, the reading of the clock, and the random source as the
  sequence of 16-byte draws with the number already taken. The lock makes each operation one
  step. Each dictionary is an association list in insertion order.
\<close>

record vault_entry =
  ve_token :: ustr
  ve_entity_type :: ustr
  ve_original_value :: ustr
  ve_expires_at :: rat

record vault_session =
  vs_records :: "(ustr \<times> vault_entry) list"
  vs_index :: "(vault_key \<times> ustr) list"

record memory_vault =
  mv_sessions :: "((uuid \<times> uuid) \<times> vault_session) list"
  mv_failure :: "exn option"
  mv_now :: rat
  mv_random :: "nat \<Rightarrow> bytes"
  mv_drawn :: nat

definition empty_session :: vault_session where
  "empty_session = \<lparr>vs_records = [], vs_index = []\<rparr>"

text \<open>\<open>validate_entity_type\<close>: raise when the type is not safe as a key segment.\<close>

definition validate_entity_type :: "ustr \<Rightarrow> ustr res" where
  "validate_entity_type entity_type =
     (if is_valid_entity_type entity_type then Inr entity_type else Inl ValueError)"

definition simulate_failure :: "exn option \<Rightarrow> memory_vault \<Rightarrow> memory_vault" where
  "simulate_failure err s = s\<lparr>mv_failure := err\<rparr>"

definition stored_original_values :: "memory_vault \<Rightarrow> ustr list" where
  "stored_original_values s =
     concat (map (\<lambda>(key, session).
         map (\<lambda>(token_id, e). ve_original_value e)
           (filter (\<lambda>(token_id, e). mv_now s < ve_expires_at e) (vs_records session)))
       (mv_sessions s))"

definition guard_failure :: "(memory_vault, unit) op" where
  "guard_failure s = (case mv_failure s of None \<Rightarrow> (Inr (), s) | Some e \<Rightarrow> (Inl e, s))"

text \<open>\<open>_purge\<close>: drop expired records, then index entries whose token is gone.\<close>

definition purge :: "vault_session \<Rightarrow> rat \<Rightarrow> vault_session" where
  "purge session now =
     (let expired = filter (\<lambda>(token_id, e). ve_expires_at e \<le> now) (vs_records session);
          records = filter (\<lambda>(token_id, e). \<not> ve_expires_at e \<le> now) (vs_records session);
          live = map (\<lambda>(token_id, e). ve_token e) records
      in if expired = [] then session
         else \<lparr>vs_records = records, vs_index = filter (\<lambda>(key, token). token \<in> set live) (vs_index session)\<rparr>)"

definition session_at :: "memory_vault \<Rightarrow> uuid \<Rightarrow> uuid \<Rightarrow> vault_session" where
  "session_at s tenant_id session_id =
     (case dict_get (mv_sessions s) (tenant_id, session_id) of None \<Rightarrow> empty_session | Some x \<Rightarrow> x)"

definition put_session :: "uuid \<Rightarrow> uuid \<Rightarrow> vault_session \<Rightarrow> memory_vault \<Rightarrow> memory_vault" where
  "put_session tenant_id session_id session s =
     s\<lparr>mv_sessions := dict_put (tenant_id, session_id) session (mv_sessions s)\<rparr>"

definition draw_token_id :: "(memory_vault, ustr) op" where
  "draw_token_id s = (new_token_id (mv_random s (mv_drawn s)), s\<lparr>mv_drawn := Suc (mv_drawn s)\<rparr>)"

text \<open>The reusable mapping of an entry: its token and identifier, when its record still exists.\<close>

definition existing_mapping :: "vault_session \<Rightarrow> vault_key \<Rightarrow> (ustr \<times> ustr \<times> vault_entry) option" where
  "existing_mapping session key =
     (case dict_get (vs_index session) key of
        None \<Rightarrow> None
      | Some existing \<Rightarrow>
          (case parse_token existing of
             None \<Rightarrow> None
           | Some parsed \<Rightarrow>
               (case dict_get (vs_records session) (tk_token_id parsed) of
                  None \<Rightarrow> None
                | Some e \<Rightarrow> Some (existing, tk_token_id parsed, e))))"

definition get_or_create_locked :: "uuid \<Rightarrow> uuid \<Rightarrow> vault_write_request \<Rightarrow> rat \<Rightarrow> (memory_vault, ustr) op" where
  "get_or_create_locked tenant_id session_id entry expires_at s =
     (let session = session_at s tenant_id session_id in
      case existing_mapping session (vault_key_of entry) of
        Some (existing, token_id, e) \<Rightarrow>
          (Inr existing, put_session tenant_id session_id
             (session\<lparr>vs_records := dict_put token_id (e\<lparr>ve_expires_at := expires_at\<rparr>) (vs_records session)\<rparr>) s)
      | None \<Rightarrow>
          bindS draw_token_id (\<lambda>token_id.
          bindS (liftS (format_token (vw_entity_type entry) token_id)) (\<lambda>token s.
            (Inr token, put_session tenant_id session_id
               (session\<lparr>vs_records := dict_put token_id
                  \<lparr>ve_token = token, ve_entity_type = vw_entity_type entry,
                   ve_original_value = vw_original_value entry, ve_expires_at = expires_at\<rparr>
                  (vs_records session),
                  vs_index := dict_put (vault_key_of entry) token (vs_index session)\<rparr>) s))) s)"

fun create_each :: "uuid \<Rightarrow> uuid \<Rightarrow> vault_write_request list \<Rightarrow> rat \<Rightarrow> (memory_vault, ustr list) op" where
  "create_each tenant_id session_id [] expires_at s = (Inr [], s)"
| "create_each tenant_id session_id (entry # entries) expires_at s =
     bindS (get_or_create_locked tenant_id session_id entry expires_at) (\<lambda>token.
     bindS (create_each tenant_id session_id entries expires_at) (\<lambda>tokens.
       liftS (Inr (token # tokens)))) s"

definition mem_get_or_create_many :: "uuid \<Rightarrow> uuid \<Rightarrow> vault_write_request list \<Rightarrow> int \<Rightarrow>
    (memory_vault, ustr list) op" where
  "mem_get_or_create_many tenant_id session_id entries ttl_seconds =
     bindS guard_failure (\<lambda>_.
     bindS (liftS (traverseR (\<lambda>e. validate_entity_type (vw_entity_type e)) entries)) (\<lambda>_.
       if ttl_seconds < 1 then liftS (Inl ValueError)
       else if entries = [] then liftS (Inr [])
       else (\<lambda>s. let now = mv_now s;
                     expires_at = now + of_int ttl_seconds;
                     session = purge (session_at s tenant_id session_id) now
                 in create_each tenant_id session_id entries expires_at
                      (put_session tenant_id session_id session s))))"

definition mem_resolve_many :: "uuid \<Rightarrow> uuid \<Rightarrow> ustr list \<Rightarrow> (memory_vault, (ustr \<times> ustr) list) op" where
  "mem_resolve_many tenant_id session_id tokens =
     bindS guard_failure (\<lambda>_ s.
       case dict_get (mv_sessions s) (tenant_id, session_id) of
         None \<Rightarrow> (Inr [], s)
       | Some found \<Rightarrow>
           (let session = purge found (mv_now s);
                resolved = fold (\<lambda>token resolved.
                    case parse_token token of
                      None \<Rightarrow> resolved
                    | Some parsed \<Rightarrow>
                        (case dict_get (vs_records session) (tk_token_id parsed) of
                           None \<Rightarrow> resolved
                         | Some e \<Rightarrow>
                             if ve_token e \<noteq> token then resolved
                             else dict_put token (ve_original_value e) resolved)) tokens []
            in (Inr resolved, put_session tenant_id session_id session s)))"

definition mem_delete_session :: "uuid \<Rightarrow> uuid \<Rightarrow> (memory_vault, nat) op" where
  "mem_delete_session tenant_id session_id =
     bindS guard_failure (\<lambda>_ s.
       case dict_get (mv_sessions s) (tenant_id, session_id) of
         None \<Rightarrow> (Inr 0, s)
       | Some session \<Rightarrow>
           (Inr (length (vs_records session)),
            s\<lparr>mv_sessions := AList.delete (tenant_id, session_id) (mv_sessions s)\<rparr>))"

definition memory_ops :: "memory_vault vault_ops" where
  "memory_ops = \<lparr>vo_get_or_create_many = mem_get_or_create_many,
     vo_resolve_many = mem_resolve_many, vo_delete_session = mem_delete_session\<rparr>"


section \<open>The invariant of one session\<close>

text \<open>
  Index and records of a session describe one bijection between keys and identifiers: every
  index entry leads to its record, and every record is reached from one key. All identifiers
  were drawn from the random source.
\<close>

definition sess_ok :: "ustr set \<Rightarrow> vault_session \<Rightarrow> bool" where
  "sess_ok used se \<longleftrightarrow> distinct (map fst (vs_records se)) \<and> distinct (map fst (vs_index se))
     \<and> (\<forall>k tok. dict_get (vs_index se) k = Some tok \<longrightarrow>
          (\<exists>i e. parse_token tok = Some \<lparr>tk_entity_type = fst k, tk_token_id = i\<rparr>
             \<and> dict_get (vs_records se) i = Some e \<and> ve_token e = tok))
     \<and> (\<forall>i e. dict_get (vs_records se) i = Some e \<longrightarrow>
          i \<in> used \<and> (\<exists>k. dict_get (vs_index se) k = Some (ve_token e))
          \<and> (\<exists>ty. parse_token (ve_token e) = Some \<lparr>tk_entity_type = ty, tk_token_id = i\<rparr>))
     \<and> (\<forall>k k' tok. dict_get (vs_index se) k = Some tok \<and> dict_get (vs_index se) k' = Some tok \<longrightarrow> k = k')"

definition live :: "vault_session \<Rightarrow> rat \<Rightarrow> bool" where
  "live se now \<longleftrightarrow> (\<forall>i e. dict_get (vs_records se) i = Some e \<longrightarrow> now < ve_expires_at e)"

definition view :: "vault_session \<Rightarrow> rat \<Rightarrow> vault_key \<Rightarrow> (ustr \<times> ustr) option" where
  "view se now k =
     (case existing_mapping se k of
        None \<Rightarrow> None
      | Some (tok, i, e) \<Rightarrow> if now < ve_expires_at e then Some (tok, ve_original_value e) else None)"

lemma sess_okD:
  assumes "sess_ok used se"
  shows "distinct (map fst (vs_records se))" "distinct (map fst (vs_index se))"
    "dict_get (vs_index se) k = Some tok \<Longrightarrow> \<exists>i e. parse_token tok = Some \<lparr>tk_entity_type = fst k, tk_token_id = i\<rparr>
       \<and> dict_get (vs_records se) i = Some e \<and> ve_token e = tok"
    "dict_get (vs_records se) i = Some e \<Longrightarrow> i \<in> used"
    "dict_get (vs_records se) i = Some e \<Longrightarrow> \<exists>k. dict_get (vs_index se) k = Some (ve_token e)"
    "dict_get (vs_records se) i = Some e \<Longrightarrow>
       \<exists>ty. parse_token (ve_token e) = Some \<lparr>tk_entity_type = ty, tk_token_id = i\<rparr>"
    "dict_get (vs_index se) k = Some tok \<Longrightarrow> dict_get (vs_index se) k' = Some tok \<Longrightarrow> k = k'"
  using assms unfolding sess_ok_def by blast+

lemma sess_okI:
  assumes "distinct (map fst (vs_records se))" "distinct (map fst (vs_index se))"
    "\<And>k tok. dict_get (vs_index se) k = Some tok \<Longrightarrow> \<exists>i e. parse_token tok = Some \<lparr>tk_entity_type = fst k, tk_token_id = i\<rparr>
       \<and> dict_get (vs_records se) i = Some e \<and> ve_token e = tok"
    "\<And>i e. dict_get (vs_records se) i = Some e \<Longrightarrow> i \<in> used \<and> (\<exists>k. dict_get (vs_index se) k = Some (ve_token e))
       \<and> (\<exists>ty. parse_token (ve_token e) = Some \<lparr>tk_entity_type = ty, tk_token_id = i\<rparr>)"
    "\<And>k k' tok. dict_get (vs_index se) k = Some tok \<Longrightarrow> dict_get (vs_index se) k' = Some tok \<Longrightarrow> k = k'"
  shows "sess_ok used se"
  unfolding sess_ok_def by (intro conjI allI impI) (use assms in blast)+

lemma sess_ok_mono: "sess_ok used se \<Longrightarrow> used \<subseteq> used' \<Longrightarrow> sess_ok used' se"
  unfolding sess_ok_def by blast

lemma sess_ok_empty [simp]: "sess_ok used empty_session"
  by (simp add: sess_ok_def empty_session_def)

lemma existing_mapping_Some:
  assumes "sess_ok used se"
  shows "existing_mapping se k = Some (tok, i, e) \<longleftrightarrow>
     dict_get (vs_index se) k = Some tok \<and> parse_token tok = Some \<lparr>tk_entity_type = fst k, tk_token_id = i\<rparr>
     \<and> dict_get (vs_records se) i = Some e \<and> ve_token e = tok"
proof (cases "dict_get (vs_index se) k")
  case (Some tok')
  obtain i' e' where x: "parse_token tok' = Some \<lparr>tk_entity_type = fst k, tk_token_id = i'\<rparr>"
    "dict_get (vs_records se) i' = Some e'" "ve_token e' = tok'"
    using sess_okD(3)[OF assms Some] by blast
  then have "existing_mapping se k = Some (tok', i', e')" using Some by (simp add: existing_mapping_def)
  then show ?thesis using Some x by auto
qed (simp add: existing_mapping_def)

lemma existing_mapping_None:
  assumes "sess_ok used se"
  shows "existing_mapping se k = None \<longleftrightarrow> dict_get (vs_index se) k = None"
proof (cases "dict_get (vs_index se) k")
  case (Some tok)
  then show ?thesis using sess_okD(3)[OF assms Some] existing_mapping_Some[OF assms, of k] by auto
qed (simp add: existing_mapping_def)

lemma view_Some:
  assumes "sess_ok used se"
  shows "view se now k = Some (tok, v) \<longleftrightarrow>
    (\<exists>i e. dict_get (vs_index se) k = Some tok \<and> parse_token tok = Some \<lparr>tk_entity_type = fst k, tk_token_id = i\<rparr>
     \<and> dict_get (vs_records se) i = Some e \<and> ve_token e = tok \<and> now < ve_expires_at e \<and> v = ve_original_value e)"
proof -
  have "view se now k = Some (tok, v) \<longleftrightarrow> (\<exists>i e. existing_mapping se k = Some (tok, i, e)
      \<and> now < ve_expires_at e \<and> v = ve_original_value e)"
    by (cases "existing_mapping se k") (auto simp: view_def split: if_splits)
  then show ?thesis unfolding existing_mapping_Some[OF assms] by blast
qed

lemma map_of_filter_value:
  "distinct (map fst xs) \<Longrightarrow> map_of (filter (\<lambda>(k, v). P v) xs) k =
     (case map_of xs k of None \<Rightarrow> None | Some v \<Rightarrow> if P v then Some v else None)"
  by (induction xs) (auto split: option.splits simp: map_of_eq_None_iff image_iff)

lemma distinct_map_fst_filter: "distinct (map fst xs) \<Longrightarrow> distinct (map fst (filter P xs))"
  by (simp add: distinct_map_filter)

lemma purge_records:
  assumes "sess_ok used se"
  shows "dict_get (vs_records (purge se now)) i = Some e \<longleftrightarrow>
    dict_get (vs_records se) i = Some e \<and> now < ve_expires_at e"
proof -
  note d = sess_okD(1)[OF assms]
  have rec: "map_of (filter (\<lambda>(k, v). \<not> ve_expires_at v \<le> now) (vs_records se)) i = Some e \<longleftrightarrow>
     dict_get (vs_records se) i = Some e \<and> now < ve_expires_at e"
    using map_of_filter_value[OF d, of "\<lambda>v. \<not> ve_expires_at v \<le> now" i] by (auto split: option.splits)
  show ?thesis
  proof (cases "filter (\<lambda>(token_id, e). ve_expires_at e \<le> now) (vs_records se) = []")
    case True
    then have "now < ve_expires_at e" if "dict_get (vs_records se) i = Some e"
      using map_of_SomeD[OF that] by (fastforce simp: filter_empty_conv not_le)
    then show ?thesis using True by (auto simp: purge_def Let_def)
  next
    case False
    then show ?thesis using rec by (simp add: purge_def Let_def)
  qed
qed

lemma purge_index:
  assumes "sess_ok used se"
  shows "dict_get (vs_index (purge se now)) k = Some tok \<longleftrightarrow>
    dict_get (vs_index se) k = Some tok \<and> (\<exists>i e. dict_get (vs_records se) i = Some e \<and> ve_token e = tok \<and> now < ve_expires_at e)"
proof (cases "filter (\<lambda>(token_id, e). ve_expires_at e \<le> now) (vs_records se) = []")
  case True
  have "now < ve_expires_at e" if "dict_get (vs_records se) i = Some e" for i e
    using map_of_SomeD[OF that] True by (fastforce simp: filter_empty_conv not_le)
  then show ?thesis using True sess_okD(3)[OF assms, of k tok] by (auto simp: purge_def Let_def)
next
  case False
  let ?r = "filter (\<lambda>(token_id, e). \<not> ve_expires_at e \<le> now) (vs_records se)"
  have "tok \<in> set (map (\<lambda>(token_id, e). ve_token e) ?r) \<longleftrightarrow>
      (\<exists>i e. dict_get (vs_records se) i = Some e \<and> ve_token e = tok \<and> now < ve_expires_at e)"
    using sess_okD(1)[OF assms] by (force simp: not_le)
  then show ?thesis using False map_of_filter_value[OF sess_okD(2)[OF assms],
      of "\<lambda>t. t \<in> set (map (\<lambda>(token_id, e). ve_token e) ?r)" k]
    by (auto simp: purge_def Let_def split: option.splits)
qed

lemma purge_ok:
  assumes "sess_ok used se"
  shows "sess_ok used (purge se now)" and "live (purge se now) now" and "view (purge se now) now = view se now"
proof -
  note D = sess_okD[OF assms] and R = purge_records[OF assms, of now] and I = purge_index[OF assms, of now]
  have d: "distinct (map fst (vs_records (purge se now)))" "distinct (map fst (vs_index (purge se now)))"
    using D(1,2) by (auto simp: purge_def Let_def distinct_map_fst_filter)
  have idx: "\<exists>i e. parse_token tok = Some \<lparr>tk_entity_type = fst k, tk_token_id = i\<rparr>
       \<and> dict_get (vs_records (purge se now)) i = Some e \<and> ve_token e = tok"
    if ix: "dict_get (vs_index (purge se now)) k = Some tok" for k tok
  proof -
    obtain i e where ie: "dict_get (vs_records se) i = Some e" "ve_token e = tok" "now < ve_expires_at e"
      and k: "dict_get (vs_index se) k = Some tok" using ix unfolding I by blast
    obtain i' e' where "parse_token tok = Some \<lparr>tk_entity_type = fst k, tk_token_id = i'\<rparr>"
      using D(3)[OF k] by blast
    moreover have "\<exists>ty. parse_token tok = Some \<lparr>tk_entity_type = ty, tk_token_id = i\<rparr>" using D(6)[OF ie(1)] ie(2) by simp
    ultimately show ?thesis using ie R by auto
  qed
  show ok: "sess_ok used (purge se now)"
  proof (rule sess_okI[OF d idx])
    fix i e assume "dict_get (vs_records (purge se now)) i = Some e"
    then have e: "dict_get (vs_records se) i = Some e" "now < ve_expires_at e" by (simp_all add: R)
    then have "dict_get (vs_index (purge se now)) k = Some (ve_token e)"
      if "dict_get (vs_index se) k = Some (ve_token e)" for k
      using that by (auto simp: I)
    then show "i \<in> used \<and> (\<exists>k. dict_get (vs_index (purge se now)) k = Some (ve_token e))
       \<and> (\<exists>ty. parse_token (ve_token e) = Some \<lparr>tk_entity_type = ty, tk_token_id = i\<rparr>)"
      using D(4-6)[OF e(1)] by blast
  next
    fix k k' tok assume "dict_get (vs_index (purge se now)) k = Some tok" "dict_get (vs_index (purge se now)) k' = Some tok"
    then show "k = k'" using D(7) by (auto simp: I)
  qed
  show "live (purge se now) now" by (simp add: live_def R)
  show "view (purge se now) now = view se now"
  proof
    fix k
    have "view (purge se now) now k = Some (tok, v) \<longleftrightarrow> view se now k = Some (tok, v)" for tok v
      unfolding view_Some[OF ok] view_Some[OF assms] R I by blast
    then show "view (purge se now) now k = view se now k" by (metis option.exhaust surj_pair)
  qed
qed


text \<open>Reusing a mapping only moves its expiry; minting one adds one pair to the bijection.\<close>

lemma refresh_step:
  assumes ok: "sess_ok used se" and lv: "live se now" and ex: "existing_mapping se k = Some (tok, i, e)"
    and now: "now < deadline"
  defines "se' \<equiv> se\<lparr>vs_records := dict_put i (e\<lparr>ve_expires_at := deadline\<rparr>) (vs_records se)\<rparr>"
  shows "sess_ok used se'" "live se' now" "view se' now = view se now" "view se now k = Some (tok, ve_original_value e)"
proof -
  note D = sess_okD[OF ok]
  from ex have ie: "dict_get (vs_index se) k = Some tok" "dict_get (vs_records se) i = Some e" "ve_token e = tok"
    by (auto simp: existing_mapping_Some[OF ok])
  have R: "dict_get (vs_records se') j = Some x \<longleftrightarrow>
      (if j = i then x = e\<lparr>ve_expires_at := deadline\<rparr> else dict_get (vs_records se) j = Some x)" for j x
    by (auto simp: se'_def)
  have idx: "vs_index se' = vs_index se" by (simp add: se'_def)
  have tokens: "(\<exists>x. dict_get (vs_records se') j = Some x \<and> ve_token x = t \<and> now < ve_expires_at x \<and> v = ve_original_value x)
      \<longleftrightarrow> (\<exists>x. dict_get (vs_records se) j = Some x \<and> ve_token x = t \<and> now < ve_expires_at x \<and> v = ve_original_value x)" for j t v
    using lv ie(2) now unfolding R by (cases "j = i") (auto simp: live_def)
  show ok': "sess_ok used se'"
  proof (rule sess_okI)
    show "distinct (map fst (vs_records se'))" "distinct (map fst (vs_index se'))"
      using D(1,2) by (simp_all add: se'_def distinct_update)
  next
    fix k' t assume "dict_get (vs_index se') k' = Some t"
    then have "dict_get (vs_index se) k' = Some t" by (simp add: se'_def)
    from D(3)[OF this] obtain j x where j: "parse_token t = Some \<lparr>tk_entity_type = fst k', tk_token_id = j\<rparr>"
      "dict_get (vs_records se) j = Some x" "ve_token x = t" by blast
    then show "\<exists>i e. parse_token t = Some \<lparr>tk_entity_type = fst k', tk_token_id = i\<rparr>
       \<and> dict_get (vs_records se') i = Some e \<and> ve_token e = t"
      using ie(2) by (cases "j = i") (auto simp: R)
  next
    fix j x assume "dict_get (vs_records se') j = Some x"
    then obtain y where "dict_get (vs_records se) j = Some y" "ve_token y = ve_token x"
      using ie(2) by (auto simp: R split: if_splits)
    then show "j \<in> used \<and> (\<exists>k. dict_get (vs_index se') k = Some (ve_token x))
       \<and> (\<exists>ty. parse_token (ve_token x) = Some \<lparr>tk_entity_type = ty, tk_token_id = j\<rparr>)"
      using D(4-6)[of j y] by (simp add: se'_def)
  qed (use D(7) in \<open>simp add: se'_def\<close>)
  show "live se' now" using lv now by (auto simp: live_def R split: if_splits)
  show "view se' now = view se now"
  proof
    fix k'
    have "view se' now k' = Some (t, v) \<longleftrightarrow> view se now k' = Some (t, v)" for t v
      unfolding view_Some[OF ok'] view_Some[OF ok] idx using tokens by blast
    then show "view se' now k' = view se now k'" by (metis option.exhaust surj_pair)
  qed
  show "view se now k = Some (tok, ve_original_value e)"
    using ex lv ie(2) by (auto simp: view_def live_def)
qed

lemma mint_step:
  assumes ok: "sess_ok used se" and lv: "live se now" and ex: "existing_mapping se k = None"
    and now: "now < deadline" and fresh: "i \<notin> used" and tok: "parse_token tok = Some \<lparr>tk_entity_type = fst k, tk_token_id = i\<rparr>"
    and e: "ve_token e = tok" "ve_expires_at e = deadline"
  defines "se' \<equiv> se\<lparr>vs_records := dict_put i e (vs_records se), vs_index := dict_put k tok (vs_index se)\<rparr>"
  shows "sess_ok (insert i used) se'" "live se' now" "view se' now = (view se now)(k \<mapsto> (tok, ve_original_value e))"
    "view se now k = None"
proof -
  note D = sess_okD[OF ok]
  have k: "dict_get (vs_index se) k = None" using ex by (simp add: existing_mapping_None[OF ok])
  have i: "dict_get (vs_records se) i = None" using D(4)[of i] fresh by (cases "dict_get (vs_records se) i") auto
  have R: "dict_get (vs_records se') j = (if j = i then Some e else dict_get (vs_records se) j)" for j
    by (simp add: se'_def)
  have I: "dict_get (vs_index se') j = (if j = k then Some tok else dict_get (vs_index se) j)" for j
    by (simp add: se'_def)
  have new: "dict_get (vs_index se) j \<noteq> Some tok" for j
    using D(3)[of j tok] tok i by auto
  show ok': "sess_ok (insert i used) se'"
  proof (rule sess_okI)
    show "distinct (map fst (vs_records se'))" "distinct (map fst (vs_index se'))"
      using D(1,2) by (simp_all add: se'_def distinct_update)
  next
    fix k' t assume a: "dict_get (vs_index se') k' = Some t"
    show "\<exists>i e. parse_token t = Some \<lparr>tk_entity_type = fst k', tk_token_id = i\<rparr>
       \<and> dict_get (vs_records se') i = Some e \<and> ve_token e = t"
    proof (cases "k' = k")
      case True
      then show ?thesis using a tok e by (auto simp: I R)
    next
      case False
      then obtain j x where "parse_token t = Some \<lparr>tk_entity_type = fst k', tk_token_id = j\<rparr>"
        "dict_get (vs_records se) j = Some x" "ve_token x = t" using a D(3)[of k' t] by (auto simp: I)
      then show ?thesis using i by (cases "j = i") (auto simp: R)
    qed
  next
    fix j x assume a: "dict_get (vs_records se') j = Some x"
    show "j \<in> insert i used \<and> (\<exists>k. dict_get (vs_index se') k = Some (ve_token x))
       \<and> (\<exists>ty. parse_token (ve_token x) = Some \<lparr>tk_entity_type = ty, tk_token_id = j\<rparr>)"
    proof (cases "j = i")
      case True
      then have "x = e" using a by (simp add: R)
      then have "dict_get (vs_index se') k = Some (ve_token x)" using e(1) by (simp add: I)
      then show ?thesis using True tok e(1) \<open>x = e\<close> by blast
    next
      case False
      then have x: "dict_get (vs_records se) j = Some x" using a by (simp add: R)
      obtain k' where "dict_get (vs_index se) k' = Some (ve_token x)" using D(5)[OF x] by blast
      then show ?thesis using D(4,6)[OF x] k by (metis I insertI2 option.distinct(1))
    qed
  next
    fix k' k'' t assume "dict_get (vs_index se') k' = Some t" "dict_get (vs_index se') k'' = Some t"
    then show "k' = k''" using D(7)[of k' t k''] new by (auto simp: I split: if_splits)
  qed
  show "live se' now" using lv now e(2) by (auto simp: live_def R split: if_splits)
  show "view se' now = (view se now)(k \<mapsto> (tok, ve_original_value e))"
  proof
    fix k'
    show "view se' now k' = ((view se now)(k \<mapsto> (tok, ve_original_value e))) k'"
    proof (cases "k' = k")
      case True
      have "existing_mapping se' k = Some (tok, i, e)" unfolding existing_mapping_Some[OF ok'] using tok e by (simp add: I R)
      then show ?thesis using True now e by (simp add: view_def)
    next
      case False
      have "existing_mapping se' k' = existing_mapping se k'"
        using False i D(3)[of k'] by (fastforce simp: existing_mapping_def I R split: option.splits)
      then show ?thesis using False by (simp add: view_def)
    qed
  qed
  show "view se now k = None" using ex by (simp add: view_def)
qed


section \<open>The invariant of the vault\<close>

definition drawn_ids :: "memory_vault \<Rightarrow> ustr set" where
  "drawn_ids s = {i. \<exists>j < mv_drawn s. encode_crockford (mv_random s j) = Inr i}"

text \<open>
  The draws so far and the next \<open>n\<close> are 16 bytes and pairwise different; this is the one
  assumption on the random source.
\<close>

definition fresh_source :: "nat \<Rightarrow> memory_vault \<Rightarrow> bool" where
  "fresh_source n s \<longleftrightarrow>
     (\<forall>j < mv_drawn s + n. length (mv_random s j) = 16 \<and> valid_bytes (mv_random s j))
     \<and> inj_on (mv_random s) {..<mv_drawn s + n}"

definition mv_ok :: "nat \<Rightarrow> memory_vault \<Rightarrow> bool" where
  "mv_ok n s \<longleftrightarrow> fresh_source n s \<and> (\<forall>t u. sess_ok (drawn_ids s) (session_at s t u))"

definition mv_stored :: "memory_vault \<Rightarrow> uuid \<Rightarrow> uuid \<Rightarrow> vault_key \<Rightarrow> (ustr \<times> ustr) option" where
  "mv_stored s t u = view (session_at s t u) (mv_now s)"

lemma session_at_put: "session_at (put_session t u se s) t' u' = (if (t', u') = (t, u) then se else session_at s t' u')"
  by (auto simp: session_at_def put_session_def)

lemma put_session_fields [simp]:
  "mv_now (put_session t u se s) = mv_now s" "mv_drawn (put_session t u se s) = mv_drawn s"
  "mv_random (put_session t u se s) = mv_random s" "mv_failure (put_session t u se s) = mv_failure s"
  by (simp_all add: put_session_def)

lemma drawn_ids_put [simp]: "drawn_ids (put_session t u se s) = drawn_ids s"
  by (simp add: drawn_ids_def)

lemma fresh_source_put [simp]: "fresh_source n (put_session t u se s) = fresh_source n s"
  by (simp add: fresh_source_def)

lemma mv_ok_put: "mv_ok n s \<Longrightarrow> sess_ok (drawn_ids s) se \<Longrightarrow> mv_ok n (put_session t u se s)"
  by (auto simp: mv_ok_def session_at_put)

lemma mv_stored_put:
  "mv_stored (put_session t u se s) t' u' = (if (t', u') = (t, u) then view se (mv_now s) else mv_stored s t' u')"
  by (auto simp: mv_stored_def session_at_put)

text \<open>A fresh draw is no identifier in use.\<close>

lemma draw_fresh:
  assumes "fresh_source (Suc n) s"
  obtains i where "draw_token_id s = (Inr i, s\<lparr>mv_drawn := Suc (mv_drawn s)\<rparr>)" "i \<notin> drawn_ids s"
    "is_valid_token_id i" "drawn_ids (s\<lparr>mv_drawn := Suc (mv_drawn s)\<rparr>) = insert i (drawn_ids s)"
    "fresh_source n (s\<lparr>mv_drawn := Suc (mv_drawn s)\<rparr>)"
proof -
  have r: "length (mv_random s j) = 16" "valid_bytes (mv_random s j)" if "j \<le> mv_drawn s" for j
    using assms that by (auto simp: fresh_source_def)
  have inj: "mv_random s j \<noteq> mv_random s (mv_drawn s)" if "j < mv_drawn s" for j
    using assms that inj_onD[of "mv_random s" "{..<mv_drawn s + Suc n}" j "mv_drawn s"]
    by (auto simp: fresh_source_def)
  obtain i where i: "encode_crockford (mv_random s (mv_drawn s)) = Inr i" "is_valid_token_id i"
    using encode_crockford_inj[OF r(1) r(1) r(2) r(2)] by blast
  have "i \<notin> drawn_ids s"
  proof
    assume "i \<in> drawn_ids s"
    then obtain j where j: "j < mv_drawn s" "encode_crockford (mv_random s j) = Inr i" by (auto simp: drawn_ids_def)
    then have "mv_random s j = mv_random s (mv_drawn s)"
      using encode_crockford_inj[OF r(1) r(1) r(2) r(2), of j "mv_drawn s"] i(1) by simp
    then show False using inj[OF j(1)] by simp
  qed
  moreover have "drawn_ids (s\<lparr>mv_drawn := Suc (mv_drawn s)\<rparr>) = insert i (drawn_ids s)"
    using i(1) by (auto simp: drawn_ids_def less_Suc_eq)
  moreover have "fresh_source n (s\<lparr>mv_drawn := Suc (mv_drawn s)\<rparr>)"
    using assms by (simp add: fresh_source_def)
  ultimately show thesis using that i by (simp add: draw_token_id_def new_token_id_def)
qed

definition step_ok :: "nat \<Rightarrow> memory_vault \<Rightarrow> uuid \<Rightarrow> uuid \<Rightarrow> vault_write_request \<Rightarrow> ustr \<Rightarrow> memory_vault \<Rightarrow> bool" where
  "step_ok n s t u w tok s' \<longleftrightarrow> mv_ok n s' \<and> live (session_at s' t u) (mv_now s') \<and> mv_now s' = mv_now s
     \<and> mv_failure s' = mv_failure s
     \<and> mv_stored s' t u = (case mv_stored s t u (vault_key_of w) of
          None \<Rightarrow> (mv_stored s t u)(vault_key_of w \<mapsto> (tok, vw_original_value w)) | Some _ \<Rightarrow> mv_stored s t u)
     \<and> (\<exists>v. mv_stored s' t u (vault_key_of w) = Some (tok, v))
     \<and> (\<forall>t' u'. (t', u') \<noteq> (t, u) \<longrightarrow> mv_stored s' t' u' = mv_stored s t' u')"

lemma locked_step:
  assumes ok: "mv_ok (Suc n) s" and lv: "live (session_at s t u) (mv_now s)" and now: "mv_now s < deadline"
    and ty: "is_valid_entity_type (vw_entity_type w)"
  shows "\<exists>tok s'. get_or_create_locked t u w deadline s = (Inr tok, s') \<and> step_ok n s t u w tok s'"
proof -
  let ?se = "session_at s t u" and ?k = "vault_key_of w"
  have se: "sess_ok (drawn_ids s) ?se" using ok by (simp add: mv_ok_def)
  show ?thesis
  proof (cases "existing_mapping ?se ?k")
    case (Some x)
    obtain tok i e where x: "x = (tok, i, e)" by (cases x)
    let ?se' = "?se\<lparr>vs_records := dict_put i (e\<lparr>ve_expires_at := deadline\<rparr>) (vs_records ?se)\<rparr>"
    note step = refresh_step[OF se lv Some[unfolded x] now]
    have "mv_ok n (put_session t u ?se' s)"
      using mv_ok_put[OF ok step(1)] by (auto simp: mv_ok_def fresh_source_def inj_on_def)
    then show ?thesis using Some x step
      by (intro exI[of _ tok] exI[of _ "put_session t u ?se' s"])
        (auto simp: step_ok_def get_or_create_locked_def Let_def session_at_put mv_stored_put mv_stored_def)
  next
    case None
    let ?s1 = "s\<lparr>mv_drawn := Suc (mv_drawn s)\<rparr>"
    obtain i where i: "draw_token_id s = (Inr i, ?s1)" "i \<notin> drawn_ids s" "is_valid_token_id i"
      "drawn_ids ?s1 = insert i (drawn_ids s)" "fresh_source n ?s1"
      using draw_fresh ok unfolding mv_ok_def by metis
    let ?tok = "render_token (vw_entity_type w) i"
    let ?e = "\<lparr>ve_token = ?tok, ve_entity_type = vw_entity_type w,
      ve_original_value = vw_original_value w, ve_expires_at = deadline\<rparr>"
    let ?se' = "?se\<lparr>vs_records := dict_put i ?e (vs_records ?se), vs_index := dict_put ?k ?tok (vs_index ?se)\<rparr>"
    have f: "format_token (vw_entity_type w) i = Inr ?tok" using ty i(3) by (simp add: format_token_def)
    then have p: "parse_token ?tok = Some \<lparr>tk_entity_type = fst ?k, tk_token_id = i\<rparr>"
      by (simp add: parse_token_format vault_key_of_def)
    note step = mint_step[OF se lv None now i(2) p, of ?e]
    have "session_at ?s1 t' u' = session_at s t' u'" for t' u' by (simp add: session_at_def)
    moreover from this have "mv_ok n ?s1"
      using ok i(4,5) sess_ok_mono[OF _ subset_insertI[of "drawn_ids s" i]] by (auto simp: mv_ok_def)
    then have "mv_ok n (put_session t u ?se' ?s1)" using step(1) i(4) by (intro mv_ok_put) simp_all
    moreover have "get_or_create_locked t u w deadline s = (Inr ?tok, put_session t u ?se' ?s1)"
      using None by (simp add: get_or_create_locked_def Let_def bindS_def i(1) f liftS_def)
    ultimately show ?thesis using step
      by (intro exI[of _ ?tok] exI[of _ "put_session t u ?se' ?s1"]) (auto simp: step_ok_def session_at_put mv_stored_put mv_stored_def)
  qed
qed


text \<open>The loop over the entries of a batch.\<close>

definition batch_ok :: "nat \<Rightarrow> memory_vault \<Rightarrow> uuid \<Rightarrow> uuid \<Rightarrow> vault_write_request list \<Rightarrow> ustr list \<Rightarrow>
    memory_vault \<Rightarrow> bool" where
  "batch_ok n s t u es toks s' \<longleftrightarrow> length toks = length es \<and> mv_ok n s' \<and> mv_now s' = mv_now s
     \<and> mv_failure s' = mv_failure s
     \<and> (\<forall>i < length es. \<exists>v. mv_stored s' t u (vault_key_of (es ! i)) = Some (toks ! i, v))
     \<and> (\<forall>k x. mv_stored s t u k = Some x \<longrightarrow> mv_stored s' t u k = Some x)
     \<and> (\<forall>k tok v. mv_stored s' t u k = Some (tok, v) \<longrightarrow> mv_stored s t u k = Some (tok, v)
          \<or> (\<exists>w \<in> set es. vault_key_of w = k \<and> vw_original_value w = v))
     \<and> (\<forall>t' u'. (t', u') \<noteq> (t, u) \<longrightarrow> mv_stored s' t' u' = mv_stored s t' u')"

lemma batch_ok_Cons:
  assumes step: "step_ok m s t u w tok s1" and b: "batch_ok n s1 t u es toks s2"
  shows "batch_ok n s t u (w # es) (tok # toks) s2"
proof -
  note st = step[unfolded step_ok_def, THEN conjunct2, THEN conjunct2, THEN conjunct2, THEN conjunct2, THEN conjunct1]
  obtain v0 where new: "mv_stored s1 t u (vault_key_of w) = Some (tok, v0)" using step by (auto simp: step_ok_def)
  have keep: "mv_stored s1 t u k = Some x" if "mv_stored s t u k = Some x" for k x
    using that by (auto simp: st split: option.splits)
  have orig: "mv_stored s t u k = Some (tk, v) \<or> vault_key_of w = k \<and> vw_original_value w = v"
    if "mv_stored s1 t u k = Some (tk, v)" for k tk v
    using that by (auto simp: st split: option.splits if_splits)
  have "mv_stored s2 t u (vault_key_of w) = Some (tok, v0)" using new b unfolding batch_ok_def by blast
  then have nth: "\<exists>v. mv_stored s2 t u (vault_key_of ((w # es) ! i)) = Some ((tok # toks) ! i, v)"
    if "i < length (w # es)" for i
    using that b by (cases i) (auto simp: batch_ok_def)
  have origin: "mv_stored s t u k = Some (tk, v) \<or> (\<exists>w \<in> set (w # es). vault_key_of w = k \<and> vw_original_value w = v)"
    if "mv_stored s2 t u k = Some (tk, v)" for k tk v
  proof -
    have "mv_stored s1 t u k = Some (tk, v) \<or> (\<exists>w \<in> set es. vault_key_of w = k \<and> vw_original_value w = v)"
      using that b unfolding batch_ok_def by blast
    then show ?thesis using orig[of k tk v] by auto
  qed
  show ?thesis
    unfolding batch_ok_def using nth origin keep b step by (auto simp: batch_ok_def step_ok_def)
qed

lemma create_each_step:
  assumes "mv_ok (n + length es) s" "live (session_at s t u) (mv_now s)" "mv_now s < deadline"
    "\<forall>w \<in> set es. is_valid_entity_type (vw_entity_type w)"
  shows "\<exists>toks s'. create_each t u es deadline s = (Inr toks, s') \<and> batch_ok n s t u es toks s'"
  using assms
proof (induction es arbitrary: s)
  case (Cons w es)
  have a: "mv_ok (Suc (n + length es)) s" "is_valid_entity_type (vw_entity_type w)"
    using Cons.prems by simp_all
  from locked_step[OF a(1) Cons.prems(2,3) a(2)] obtain tok s1
    where s1: "get_or_create_locked t u w deadline s = (Inr tok, s1)" and st: "step_ok (n + length es) s t u w tok s1"
    by blast
  then have ok1: "mv_ok (n + length es) s1" "live (session_at s1 t u) (mv_now s1)" "mv_now s1 = mv_now s"
    unfolding step_ok_def by blast+
  have "mv_now s1 < deadline" "\<forall>w \<in> set es. is_valid_entity_type (vw_entity_type w)"
    using Cons.prems(3,4) ok1(3) by simp_all
  from Cons.IH[OF ok1(1,2) this] obtain toks s2
    where s2: "create_each t u es deadline s1 = (Inr toks, s2)" "batch_ok n s1 t u es toks s2" by blast
  have "create_each t u (w # es) deadline s = (Inr (tok # toks), s2)"
    using s1 s2(1) by (simp add: bindS_def liftS_def)
  then show ?case using batch_ok_Cons[OF st s2(2)] by blast
qed (simp add: batch_ok_def)


section \<open>The operations keep the contract\<close>

lemma guard_failure_bind:
  "bindS guard_failure f s = (case mv_failure s of None \<Rightarrow> f () s | Some e \<Rightarrow> (Inl e, s))"
  by (simp add: bindS_def guard_failure_def split: option.splits)

lemma validate_types_Inr:
  "traverseR (\<lambda>e. validate_entity_type (vw_entity_type e)) es = Inr ts \<Longrightarrow>
     \<forall>w \<in> set es. is_valid_entity_type (vw_entity_type w)"
  by (induction es arbitrary: ts) (auto simp: result_simps validate_entity_type_def split: if_splits)

lemma validate_types_ok:
  "\<forall>w \<in> set es. is_valid_entity_type (vw_entity_type w) \<Longrightarrow>
     traverseR (\<lambda>e. validate_entity_type (vw_entity_type e)) es = Inr (map vw_entity_type es)"
  by (rule traverseR_total) (simp add: validate_entity_type_def)

lemma purge_session_ok:
  assumes "mv_ok n s" and s1: "s1 = put_session t u (purge (session_at s t u) (mv_now s)) s"
  shows "mv_ok n s1" "live (session_at s1 t u) (mv_now s1)" "mv_stored s1 = mv_stored s" "mv_now s1 = mv_now s"
proof -
  have se: "sess_ok (drawn_ids s) (session_at s t u)" using assms(1) by (simp add: mv_ok_def)
  note p = purge_ok[OF se, of "mv_now s"]
  show "mv_ok n s1" "live (session_at s1 t u) (mv_now s1)" "mv_now s1 = mv_now s"
    using mv_ok_put[OF assms(1) p(1)] p(2) by (simp_all add: s1 session_at_put)
  have "mv_stored s1 t' u' = mv_stored s t' u'" for t' u'
    unfolding s1 mv_stored_put using p(3) by (auto simp: mv_stored_def)
  then show "mv_stored s1 = mv_stored s" by blast
qed

lemma mem_create_cases:
  assumes "mv_ok (n + length es) s"
  shows "(\<exists>x. mem_get_or_create_many t u es ttl s = (Inl x, s))
    \<or> (\<exists>toks s'. mem_get_or_create_many t u es ttl s = (Inr toks, s') \<and> batch_ok n s t u es toks s')"
proof (cases "mv_failure s")
  case None
  show ?thesis
  proof (cases "traverseR (\<lambda>e. validate_entity_type (vw_entity_type e)) es")
    case (Inl x)
    then show ?thesis using None by (simp add: mem_get_or_create_many_def guard_failure_bind)
  next
    case (Inr ts)
    note ty = validate_types_Inr[OF Inr]
    show ?thesis
    proof (cases "ttl < 1 \<or> es = []")
      case True
      then show ?thesis using None Inr assms
        by (auto simp: mem_get_or_create_many_def guard_failure_bind liftS_def batch_ok_def)
    next
      case False
      let ?s1 = "put_session t u (purge (session_at s t u) (mv_now s)) s"
      note p = purge_session_ok[OF assms refl, of t u]
      have "mv_now ?s1 < mv_now s + of_int ttl" using False p(4) by simp
      from create_each_step[OF p(1,2) this ty] obtain toks s'
        where c: "create_each t u es (mv_now s + of_int ttl) ?s1 = (Inr toks, s')" "batch_ok n ?s1 t u es toks s'" by blast
      have "mem_get_or_create_many t u es ttl s = (Inr toks, s')"
        using None Inr False c(1) by (simp add: mem_get_or_create_many_def guard_failure_bind Let_def)
      moreover have "batch_ok n s t u es toks s'" using c(2) unfolding batch_ok_def p(3,4) by simp
      ultimately show ?thesis by blast
    qed
  qed
qed (simp add: mem_get_or_create_many_def guard_failure_bind)

lemma mem_create_Inr:
  "mv_ok (n + length es) s \<Longrightarrow> mem_get_or_create_many t u es ttl s = (Inr toks, s') \<Longrightarrow> batch_ok n s t u es toks s'"
  using mem_create_cases[of n es s t u ttl] by auto

lemma mem_create_total:
  assumes "mv_ok (length es) s" "mv_failure s = None" "\<forall>w \<in> set es. is_valid_entity_type (vw_entity_type w)" "1 \<le> ttl"
  shows "\<exists>toks s'. mem_get_or_create_many t u es ttl s = (Inr toks, s')"
proof (cases "es = []")
  case True
  then show ?thesis using assms by (simp add: mem_get_or_create_many_def guard_failure_bind liftS_def)
next
  case False
  let ?s1 = "put_session t u (purge (session_at s t u) (mv_now s)) s"
  have ok: "mv_ok (0 + length es) s" using assms(1) by simp
  note p = purge_session_ok[OF ok refl, of t u]
  have "mv_now ?s1 < mv_now s + of_int ttl" using assms(4) p(4) by simp
  from create_each_step[OF p(1,2) this assms(3)] obtain toks s'
    where "create_each t u es (mv_now s + of_int ttl) ?s1 = (Inr toks, s')" by blast
  then show ?thesis using assms False
    by (simp add: mem_get_or_create_many_def guard_failure_bind Let_def validate_types_ok)
qed

definition lookup_token :: "vault_session \<Rightarrow> ustr \<Rightarrow> ustr option" where
  "lookup_token se tok = (case parse_token tok of None \<Rightarrow> None | Some p \<Rightarrow>
     (case dict_get (vs_records se) (tk_token_id p) of None \<Rightarrow> None
      | Some e \<Rightarrow> if ve_token e \<noteq> tok then None else Some (ve_original_value e)))"

lemma resolve_fold:
  "dict_get (fold (\<lambda>token resolved. case parse_token token of None \<Rightarrow> resolved
        | Some parsed \<Rightarrow> (case dict_get (vs_records se) (tk_token_id parsed) of None \<Rightarrow> resolved
             | Some e \<Rightarrow> if ve_token e \<noteq> token then resolved else dict_put token (ve_original_value e) resolved)) toks d) tok
   = (if tok \<in> set toks \<and> lookup_token se tok \<noteq> None then lookup_token se tok else dict_get d tok)"
  by (induction toks arbitrary: d) (auto simp: lookup_token_def split: option.splits)

lemma lookup_token_view:
  assumes "sess_ok used se" "live se now"
  shows "lookup_token se tok = Some v \<longleftrightarrow> (\<exists>k. view se now k = Some (tok, v))"
proof
  assume "lookup_token se tok = Some v"
  then obtain p e where p: "parse_token tok = Some p" "dict_get (vs_records se) (tk_token_id p) = Some e"
    "ve_token e = tok" "v = ve_original_value e"
    by (auto simp: lookup_token_def split: option.splits if_splits)
  then obtain k where k: "dict_get (vs_index se) k = Some tok" using sess_okD(5)[OF assms(1)] by blast
  then obtain i e' where i: "parse_token tok = Some \<lparr>tk_entity_type = fst k, tk_token_id = i\<rparr>"
    "dict_get (vs_records se) i = Some e'" using sess_okD(3)[OF assms(1)] by blast
  with p have "e' = e" "tk_token_id p = i" by auto
  then have "view se now k = Some (tok, v)"
    unfolding view_Some[OF assms(1)] using k i p assms(2) by (auto simp: live_def)
  then show "\<exists>k. view se now k = Some (tok, v)" by blast
next
  assume "\<exists>k. view se now k = Some (tok, v)"
  then show "lookup_token se tok = Some v" unfolding view_Some[OF assms(1)] by (auto simp: lookup_token_def)
qed


lemma mv_ok_mono: "mv_ok n s \<Longrightarrow> m \<le> n \<Longrightarrow> mv_ok m s"
  unfolding mv_ok_def fresh_source_def by (auto elim: inj_on_subset)

lemma mem_resolve_props:
  assumes "mv_ok n s" "mem_resolve_many t u toks s = (r, s')"
  shows "mv_ok n s' \<and> mv_stored s' = mv_stored s"
    and "r = Inr d \<Longrightarrow> dict_get d tok = Some v \<longleftrightarrow> tok \<in> set toks \<and> (\<exists>k. mv_stored s t u k = Some (tok, v))"
proof -
  have "(mv_ok n s' \<and> mv_stored s' = mv_stored s) \<and> (r = Inr d \<longrightarrow>
     (dict_get d tok = Some v \<longleftrightarrow> tok \<in> set toks \<and> (\<exists>k. mv_stored s t u k = Some (tok, v))))"
  proof (cases "mv_failure s")
    case (Some x)
    then show ?thesis using assms by (auto simp: mem_resolve_many_def guard_failure_bind)
  next
    case None
    show ?thesis
    proof (cases "dict_get (mv_sessions s) (t, u)")
      case none: None
      have "mv_stored s t u k = None" for k
        using none by (simp add: mv_stored_def session_at_def view_def existing_mapping_def empty_session_def)
      then show ?thesis using assms None none by (auto simp: mem_resolve_many_def guard_failure_bind)
    next
      case (Some se)
      then have se: "session_at s t u = se" by (simp add: session_at_def)
      let ?se = "purge se (mv_now s)"
      note p = purge_session_ok[OF assms(1) refl, of t u, unfolded se]
      from assms(2) None Some have s': "s' = put_session t u ?se s"
        and r: "r = Inr (fold (\<lambda>token resolved. case parse_token token of None \<Rightarrow> resolved
        | Some parsed \<Rightarrow> (case dict_get (vs_records ?se) (tk_token_id parsed) of None \<Rightarrow> resolved
             | Some e \<Rightarrow> if ve_token e \<noteq> token then resolved else dict_put token (ve_original_value e) resolved)) toks [])"
        by (auto simp: mem_resolve_many_def guard_failure_bind Let_def)
      have ok: "sess_ok (drawn_ids s) se" using assms(1) se by (auto simp: mv_ok_def)
      have "lookup_token ?se tok = Some v \<longleftrightarrow> (\<exists>k. mv_stored s t u k = Some (tok, v))"
        using lookup_token_view[OF purge_ok(1,2)[OF ok]] purge_ok(3)[OF ok] by (simp add: mv_stored_def se)
      then show ?thesis using p(1,3) s' by (auto simp: r resolve_fold split: if_splits)
    qed
  qed
  then show "mv_ok n s' \<and> mv_stored s' = mv_stored s"
    and "r = Inr d \<Longrightarrow> dict_get d tok = Some v \<longleftrightarrow> tok \<in> set toks \<and> (\<exists>k. mv_stored s t u k = Some (tok, v))"
    by blast+
qed

lemma mem_resolve_total: "mv_failure s = None \<Longrightarrow> \<exists>d s'. mem_resolve_many t u toks s = (Inr d, s')"
  by (cases "dict_get (mv_sessions s) (t, u)") (simp_all add: mem_resolve_many_def guard_failure_bind Let_def)

lemma mem_delete_total: "mv_failure s = None \<Longrightarrow> \<exists>n s'. mem_delete_session t u s = (Inr n, s') \<and> mv_failure s' = None"
  by (cases "dict_get (mv_sessions s) (t, u)") (simp_all add: mem_delete_session_def guard_failure_bind)

lemma session_at_delete:
  "session_at (s\<lparr>mv_sessions := AList.delete (t, u) (mv_sessions s)\<rparr>) t' u' =
     (if (t', u') = (t, u) then empty_session else session_at s t' u')"
  by (auto simp: session_at_def delete_conv')

lemma mem_delete_props:
  assumes "mv_ok n s" "mem_delete_session t u s = (Inr c, s')"
  shows "mv_ok n s' \<and> mv_stored s' = (mv_stored s)(t := (mv_stored s t)(u := Map.empty))"
proof -
  have empty: "view empty_session now = Map.empty" for now
    by (auto simp: view_def existing_mapping_def empty_session_def)
  have f: "mv_failure s = None" using assms(2) by (auto simp: mem_delete_session_def guard_failure_bind split: option.splits)
  show ?thesis
  proof (cases "dict_get (mv_sessions s) (t, u)")
    case None
    then have "mv_stored s t u = Map.empty" by (simp add: mv_stored_def session_at_def empty)
    then show ?thesis using None assms f by (auto simp: mem_delete_session_def guard_failure_bind fun_eq_iff)
  next
    case (Some se)
    let ?s = "s\<lparr>mv_sessions := AList.delete (t, u) (mv_sessions s)\<rparr>"
    have s': "s' = ?s" using assms(2) f Some by (auto simp: mem_delete_session_def guard_failure_bind)
    have "mv_ok n ?s" using assms(1) by (simp add: mv_ok_def fresh_source_def drawn_ids_def session_at_delete)
    moreover have "mv_stored ?s t' u' = (if (t', u') = (t, u) then Map.empty else mv_stored s t' u')" for t' u'
      by (simp add: mv_stored_def session_at_delete empty)
    ultimately show ?thesis unfolding s' by (auto simp: fun_eq_iff)
  qed
qed

interpretation mem: token_vault memory_ops mv_ok mv_stored
proof
  fix n m s assume "mv_ok n s" "m \<le> n" then show "mv_ok m s" by (rule mv_ok_mono)
next
  fix n s t u k tok v assume "mv_ok n s" "mv_stored s t u k = Some (tok, v)"
  then show "\<exists>tk. parse_token tok = Some tk \<and> tk_entity_type tk = fst k"
    unfolding mv_ok_def mv_stored_def by (metis view_Some token.select_convs(1))
next
  fix n s t u k tok v k' v' assume "mv_ok n s" "mv_stored s t u k = Some (tok, v)" "mv_stored s t u k' = Some (tok, v')"
  then show "k = k'" unfolding mv_ok_def mv_stored_def by (metis view_Some sess_okD(7))
next
  fix n es s t u ttl toks s' assume "mv_ok (n + length es) s" "vo_get_or_create_many memory_ops t u es ttl s = (Inr toks, s')"
  then show "mv_ok n s'" using mem_create_Inr by (auto simp: memory_ops_def batch_ok_def)
next
  fix es s t u ttl toks s' assume "mv_ok (length es) s" "vo_get_or_create_many memory_ops t u es ttl s = (Inr toks, s')"
  then have b: "batch_ok 0 s t u es toks s'" using mem_create_Inr[of 0] by (simp add: memory_ops_def)
  show "length toks = length es" using b by (simp add: batch_ok_def)
  fix i assume "i < length es"
  then show "\<exists>v. mv_stored s' t u (vault_key_of (es ! i)) = Some (toks ! i, v)" using b by (simp add: batch_ok_def)
next
  fix es s t u ttl toks s' k tok v assume "mv_ok (length es) s" "vo_get_or_create_many memory_ops t u es ttl s = (Inr toks, s')"
  then have b: "batch_ok 0 s t u es toks s'" using mem_create_Inr[of 0] by (simp add: memory_ops_def)
  show "mv_stored s t u k = Some (tok, v) \<or> (\<exists>w \<in> set es. vault_key_of w = k \<and> vw_original_value w = v)"
    if "mv_stored s' t u k = Some (tok, v)" using b that unfolding batch_ok_def by blast
next
  fix es s t u ttl toks s' k x assume "mv_ok (length es) s" "vo_get_or_create_many memory_ops t u es ttl s = (Inr toks, s')"
  then have b: "batch_ok 0 s t u es toks s'" using mem_create_Inr[of 0] by (simp add: memory_ops_def)
  show "mv_stored s' t u k = Some x" if "mv_stored s t u k = Some x" using b that unfolding batch_ok_def by blast
next
  fix es s t u ttl r s' t' u' assume "mv_ok (length es) s" "vo_get_or_create_many memory_ops t u es ttl s = (r, s')" "(t', u') \<noteq> (t, u)"
  then show "mv_stored s' t' u' = mv_stored s t' u'"
    using mem_create_cases[of 0 es s t u ttl] by (auto simp: memory_ops_def batch_ok_def)
next
  fix n s t u toks answer s' assume "mv_ok n s" "vo_resolve_many memory_ops t u toks s = (answer, s')"
  then show "mv_ok n s' \<and> mv_stored s' = mv_stored s" using mem_resolve_props(1) by (simp add: memory_ops_def)
next
  fix n s t u toks d s' tok v assume "mv_ok n s" "vo_resolve_many memory_ops t u toks s = (Inr d, s')"
  then show "dict_get d tok = Some v \<longleftrightarrow> tok \<in> set toks \<and> (\<exists>k. mv_stored s t u k = Some (tok, v))"
    using mem_resolve_props(2) by (simp add: memory_ops_def)
next
  fix n s t u c s' assume "mv_ok n s" "vo_delete_session memory_ops t u s = (Inr c, s')"
  then show "mv_ok n s' \<and> mv_stored s' = (mv_stored s)(t := (mv_stored s t)(u := Map.empty))"
    using mem_delete_props by (simp add: memory_ops_def)
qed


section \<open>Properties\<close>

text \<open>
  C28. The contract of \<open>get_or_create_many\<close>: the call returns one token per entry, in order; each
  token now resolves in this session, to a value stored under the entry's type and fingerprint;
  an existing live mapping keeps its token and value; nothing is stored that was not there or in
  the batch; and no other session changes. If it raises instead, the vault is as it was.
\<close>

theorem mem_get_or_create_contract:
  assumes "mv_ok (length es) s"
  shows "case mem_get_or_create_many t u es ttl s of
       (Inl x, s') \<Rightarrow> s' = s
     | (Inr toks, s') \<Rightarrow> length toks = length es
         \<and> (\<forall>i < length es. \<exists>v. mv_stored s' t u (vault_key_of (es ! i)) = Some (toks ! i, v))
         \<and> (\<forall>k x. mv_stored s t u k = Some x \<longrightarrow> mv_stored s' t u k = Some x)
         \<and> (\<forall>k tok v. mv_stored s' t u k = Some (tok, v) \<longrightarrow> mv_stored s t u k = Some (tok, v)
              \<or> (\<exists>w \<in> set es. vault_key_of w = k \<and> vw_original_value w = v))
         \<and> (\<forall>t' u'. (t', u') \<noteq> (t, u) \<longrightarrow> mv_stored s' t' u' = mv_stored s t' u')"
proof -
  have "mv_ok (0 + length es) s" using assms by simp
  from mem_create_cases[OF this, of t u ttl] show ?thesis
  proof (elim disjE exE conjE)
    fix toks s' assume "mem_get_or_create_many t u es ttl s = (Inr toks, s')" "batch_ok 0 s t u es toks s'"
    then show ?thesis unfolding batch_ok_def by simp
  qed simp
qed

text \<open>
  Possessing a token is not enough: resolving returns exactly the requested tokens that are
  stored live in this very tenant and session, with their values, so a token of another tenant
  or session, an expired one and an invented one are all absent alike.
\<close>

theorem mem_resolve_exact:
  assumes "mv_ok n s" "mem_resolve_many t u toks s = (Inr d, s')"
  shows "dict_get d tok = Some v \<longleftrightarrow> tok \<in> set toks \<and> (\<exists>k. mv_stored s t u k = Some (tok, v))"
  using mem_resolve_props(2)[OF assms] by simp

text \<open>
  C31. A deleted session is gone at once and alone: afterwards none of its tokens resolves, and
  every other session still resolves what it did.
\<close>

theorem mem_delete_session_complete:
  assumes "mv_ok n s" "mem_delete_session t u s = (Inr c, s')" "mem_resolve_many t' u' toks s' = (Inr d, s'')"
  shows "dict_get d tok = Some v \<longleftrightarrow>
    (t', u') \<noteq> (t, u) \<and> tok \<in> set toks \<and> (\<exists>k. mv_stored s t' u' k = Some (tok, v))"
  using mem_delete_props[OF assms(1,2)] mem_resolve_props(2)[of n s' t' u' toks "Inr d" s'' d tok v] assms(3) by auto

text \<open>A transformation does not make the store fail.\<close>

lemma memory_transform_healthy:
  assumes "transform env memory_ops t u txt es policy s = (Inr out, s')" "\<forall>e \<in> set es. wf_entity e"
    "mv_ok (length es) s" "mv_failure s = None"
  shows "mv_failure s' = None"
proof (rule transform_facts[OF assms(1,2)])
  fix sel' ps toks
  assume sel': "select_entities txt es policy = Inr sel'"
    and ps: "pending_of_plan env t u txt (plan_for policy sel') = Inr ps"
    and call: "ps = [] \<and> s' = s \<or> ps \<noteq> [] \<and> vo_get_or_create_many memory_ops t u
      (map write_request_of ps) (pl_session_ttl_seconds policy) s = (Inr toks, s')"
  have "length ps \<le> length es" using pending_count[OF sel' ps] .
  then have "mv_ok (0 + length (map write_request_of ps)) s" using mv_ok_mono[OF assms(3)] by simp
  from mem_create_Inr[OF this] show ?thesis using call assms(4) by (auto simp: memory_ops_def batch_ok_def)
qed

text \<open>
  C1. The round trip, through the in-memory vault: protect a text, let the provider return the
  protected text, and restore it in the same session. If the text has no token delimiter, the
  policy only tokenizes and allows, and values that share a fingerprint are spelled alike, then
  the caller gets back the original text, with no unknown token, whatever the policy does with
  unknown ones.
\<close>

theorem memory_round_trip:
  assumes "mv_ok (length es) s" and failure: "mv_failure s = None"
    and tr: "transform env memory_ops t u txt es policy s = (Inr out, s')"
    and "\<forall>e \<in> set es. wf_entity e" "LEFT_DELIMITER \<notin> set txt"
    and sel: "select_entities txt es policy = Inr sel"
    and acts: "\<forall>e \<in> set sel. pl_action_for policy (de_entity_type e) \<in> {TOKENIZE, ALLOW}"
    and "\<forall>ps. pending_of_plan env t u txt (plan_for policy sel) = Inr ps \<longrightarrow> faithful (mv_stored s t u) ps"
    and "validated_content U response limit = Inr (tt_text out)"
  shows "\<exists>r s2. restore U memory_ops limit t u response action s' = (Inr r, s2)
    \<and> ro_text r = txt \<and> ps_unknown_tokens (ro_summary r) = 0"
proof -
  have "mv_failure s' = None" by (rule memory_transform_healthy[OF tr assms(4,1) failure])
  then obtain d s2 where res: "mem_resolve_many t u (remdups (map tm_text (find_tokens (tt_text out)))) s' = (Inr d, s2)"
    by (cases "dict_get (mv_sessions s') (t, u)") (simp_all add: mem_resolve_many_def guard_failure_bind Let_def)
  have ok: "mv_ok (length es + 0) s" using assms(1) by simp
  have "vo_resolve_many memory_ops t u (remdups (map tm_text (find_tokens (tt_text out)))) s' = (Inr d, s2)"
    using res by (simp add: memory_ops_def)
  from mem.restore_after_transform[OF tr assms(4) ok assms(5) sel assms(8,9) this, of action]
  obtain rs r s3 where "length rs = length sel"
    "\<forall>i < length sel. \<exists>m. span_result env t u txt (plan_for policy sel ! i) m (rs ! i)"
    "restore U memory_ops limit t u response action s' = (Inr r, s3)"
    "ro_text r = rebuild txt 0 (edits (enumerate 0 (plan_for policy sel)) (irreversible (plan_for policy sel) rs))"
    "ps_unknown_tokens (ro_summary r) = 0" by blast
  then show ?thesis using irreversible_edits_empty[OF _ _ acts] by metis
qed


lemma memory_transform_total:
  assumes "env_ok env" "refused txt es policy = None" "\<forall>e \<in> set es. wf_entity e"
    and "mv_ok (length es) s" "mv_failure s = None" and sel: "select_entities txt es policy = Inr sel"
    and ps: "pending_of_plan env t u txt (plan_for policy sel) = Inr ps"
    and types: "\<forall>e \<in> set sel. is_valid_entity_type (de_entity_type e)" "length txt \<le> 256 ^ 4"
    and ttl: "1 \<le> pl_session_ttl_seconds policy"
  shows "\<exists>out s'. transform env memory_ops t u txt es policy s = (Inr out, s')"
proof (rule mem.transform_succeeds[OF assms(1-4) sel ps _ types])
  have "length (map write_request_of ps) \<le> length es" using pending_count[OF sel ps] by simp
  then have "mv_ok (length (map write_request_of ps)) s" using mv_ok_mono[OF assms(4)] by blast
  moreover have "\<forall>w \<in> set (map write_request_of ps). is_valid_entity_type (vw_entity_type w)"
    using pending_types[OF ps[unfolded plan_for_def]] types(1) by (fastforce simp: write_request_of_def)
  ultimately show "\<exists>toks s'. vo_get_or_create_many memory_ops t u (map write_request_of ps)
        (pl_session_ttl_seconds policy) s = (Inr toks, s')"
    using mem_create_total[of "map write_request_of ps" s] assms(5) ttl by (simp add: memory_ops_def)
qed

text \<open>
  The transformation returns: for a request that is not refused, with valid type names, a
  positive lifetime and fingerprints that can be computed, no later step of the code raises; a
  result comes back from the in-memory vault whenever no failure is injected.
\<close>

theorem memory_transform_returns:
  assumes "env_ok env" "refused txt es policy = None" "\<forall>e \<in> set es. wf_entity e"
    and "mv_ok (length es) s" "mv_failure s = None" and sel: "select_entities txt es policy = Inr sel"
    and ps: "pending_of_plan env t u txt (plan_for policy sel) = Inr ps"
    and types: "\<forall>e \<in> set sel. is_valid_entity_type (de_entity_type e)" "length txt \<le> 256 ^ 4"
    and ttl: "1 \<le> pl_session_ttl_seconds policy"
  shows "\<exists>out s'. transform env memory_ops t u txt es policy s = (Inr out, s')"
  by (rule memory_transform_total[OF assms])

section \<open>A worked instance\<close>

definition sample_vault :: memory_vault where
  "sample_vault = \<lparr>mv_sessions = [], mv_failure = None, mv_now = 0,
     mv_random = (\<lambda>j. replicate 15 0 @ [j mod 256]), mv_drawn = 0\<rparr>"

lemma sample_vault_ok: "n \<le> 256 \<Longrightarrow> mv_ok n sample_vault"
  by (auto simp: mv_ok_def fresh_source_def sample_vault_def valid_bytes_def inj_on_def session_at_def)

definition sample_requests :: "vault_write_request list" where
  "sample_requests = [\<lparr>vw_entity_type = lit ''PERSON'', vw_normalized_hmac = lit ''ab'', vw_original_value = lit ''Bob''\<rparr>]"

lemma sample_env_ok: "env_ok sample_env"
  by (simp add: env_ok_def sample_env_def zero_hmac_def)

lemma person_valid: "is_valid_entity_type (lit ''PERSON'')"
  by (simp add: is_valid_entity_type_def grammar_consts is_entity_char_def ascii_upper_def ascii_digit_def)

theorem mem_get_or_create_contract_witness:
  "case mem_get_or_create_many 1 2 sample_requests 60 sample_vault of
       (Inl x, s') \<Rightarrow> s' = sample_vault
     | (Inr toks, s') \<Rightarrow> length toks = length sample_requests
         \<and> (\<forall>i < length sample_requests. \<exists>v. mv_stored s' 1 2 (vault_key_of (sample_requests ! i)) = Some (toks ! i, v))
         \<and> (\<forall>k x. mv_stored sample_vault 1 2 k = Some x \<longrightarrow> mv_stored s' 1 2 k = Some x)
         \<and> (\<forall>k tok v. mv_stored s' 1 2 k = Some (tok, v) \<longrightarrow> mv_stored sample_vault 1 2 k = Some (tok, v)
              \<or> (\<exists>w \<in> set sample_requests. vault_key_of w = k \<and> vw_original_value w = v))
         \<and> (\<forall>t' u'. (t', u') \<noteq> (1, 2) \<longrightarrow> mv_stored s' t' u' = mv_stored sample_vault t' u')"
  by (rule mem_get_or_create_contract) (simp add: sample_vault_ok sample_requests_def)

lemma sample_fields: "mv_failure sample_vault = None" "length sample_requests = 1"
  by (simp_all add: sample_vault_def sample_requests_def)

lemma sample_created:
  "\<exists>toks s'. mem_get_or_create_many 1 2 sample_requests 60 sample_vault = (Inr toks, s') \<and> mv_ok 0 s' \<and> mv_failure s' = None
     \<and> length toks = 1 \<and> (\<exists>k v. mv_stored s' 1 2 k = Some (hd toks, v))"
proof -
  have "\<exists>toks s'. mem_get_or_create_many 1 2 sample_requests 60 sample_vault = (Inr toks, s')"
  proof (rule mem_create_total)
    show "\<forall>w \<in> set sample_requests. is_valid_entity_type (vw_entity_type w)"
      using person_valid by (simp add: sample_requests_def)
  qed (simp_all add: sample_vault_ok sample_fields)
  then obtain toks s' where c: "mem_get_or_create_many 1 2 sample_requests 60 sample_vault = (Inr toks, s')" by blast
  have b: "batch_ok 0 sample_vault 1 2 sample_requests toks s'"
    by (rule mem_create_Inr[OF _ c]) (simp add: sample_vault_ok sample_fields)
  then have len: "length toks = 1" and st: "\<exists>v. mv_stored s' 1 2 (vault_key_of (sample_requests ! 0)) = Some (toks ! 0, v)"
    using sample_fields unfolding batch_ok_def by auto
  have "hd toks = toks ! 0" using len by (cases toks) auto
  with st have "\<exists>k v. mv_stored s' 1 2 k = Some (hd toks, v)" by (simp only:) blast
  moreover have "mv_ok 0 s'" "mv_failure s' = None" using b sample_fields(1) by (simp_all add: batch_ok_def)
  ultimately show ?thesis using c len by (elim exE) (intro exI conjI)
qed

theorem mem_resolve_exact_witness:
  "\<exists>toks s' d s''. mem_get_or_create_many 1 2 sample_requests 60 sample_vault = (Inr toks, s')
    \<and> mem_resolve_many 1 2 toks s' = (Inr d, s'') \<and> (\<exists>v. dict_get d (hd toks) = Some v)"
proof -
  obtain toks s' k v where c: "mem_get_or_create_many 1 2 sample_requests 60 sample_vault = (Inr toks, s')"
    "mv_ok 0 s'" "mv_failure s' = None" "length toks = 1" "mv_stored s' 1 2 k = Some (hd toks, v)"
    using sample_created by blast
  obtain d s'' where r: "mem_resolve_many 1 2 toks s' = (Inr d, s'')" using mem_resolve_total[OF c(3)] by blast
  have "dict_get d (hd toks) = Some v \<longleftrightarrow> hd toks \<in> set toks \<and> (\<exists>k. mv_stored s' 1 2 k = Some (hd toks, v))"
    by (rule mem_resolve_exact[OF c(2) r])
  moreover have "hd toks \<in> set toks" using c(4) by (cases toks) auto
  ultimately show ?thesis using c(1,5) r by blast
qed

theorem mem_delete_session_complete_witness:
  "\<exists>toks s' n s'' d s3. mem_get_or_create_many 1 2 sample_requests 60 sample_vault = (Inr toks, s')
    \<and> mem_delete_session 1 2 s' = (Inr n, s'') \<and> mem_resolve_many 1 2 toks s'' = (Inr d, s3)
    \<and> dict_get d (hd toks) = None"
proof -
  obtain toks s' where c: "mem_get_or_create_many 1 2 sample_requests 60 sample_vault = (Inr toks, s')"
    "mv_ok 0 s'" "mv_failure s' = None"
    using sample_created by blast
  obtain n s'' where d: "mem_delete_session 1 2 s' = (Inr n, s'')" "mv_failure s'' = None"
    using mem_delete_total[OF c(3)] by blast
  obtain dd s3 where r: "mem_resolve_many 1 2 toks s'' = (Inr dd, s3)" using mem_resolve_total[OF d(2)] by blast
  have "dict_get dd (hd toks) \<noteq> Some v" for v
    using mem_delete_session_complete[OF c(2) d(1) r, of "hd toks" v] by simp
  then show ?thesis using c(1) d(1) r by (cases "dict_get dd (hd toks)") auto
qed

lemma sample_faithful:
  assumes "pending_of_plan sample_env 1 2 (lit ''a Bob!'') (plan_for sample_policy sample_entities) = Inr ps"
  shows "faithful (mv_stored sample_vault 1 2) ps"
proof -
  obtain h where "ps = [\<lparr>pe_index = 0, pe_original = slice (lit ''a Bob!'') 2 5,
      pe_entity_type = lit ''PERSON'', pe_normalized_hmac = h\<rparr>]"
    using sample_pending[of "lit ''a Bob!''", OF disjI1[OF refl]] unfolding assms by (elim exE) (rule that, simp only: sum.inject)
  then show ?thesis
    by (simp add: faithful_def mv_stored_def sample_vault_def session_at_def view_def existing_mapping_def empty_session_def)
qed

lemma sample_selected:
  "select_entities (lit ''a Bob!'') sample_entities sample_policy = Inr sample_entities"
  by (rule sample_select) simp

lemma sample_not_refused: "refused (lit ''a Bob!'') sample_entities sample_policy = None"
proof -
  have "select_leftmost (filter (confident_for sample_policy) sample_entities) = sample_entities"
    using sample_selected by (simp only: select_entities_Inr)
  then show ?thesis
    by (simp add: refused_def) (simp add: sample_entities_def sample_span_def sample_policy_def)
qed

lemma sample_returns:
  "\<exists>out s'. transform sample_env memory_ops 1 2 (lit ''a Bob!'') sample_entities sample_policy sample_vault = (Inr out, s')"
proof -
  obtain ps where "pending_of_plan sample_env 1 2 (lit ''a Bob!'') (plan_for sample_policy sample_entities) = Inr ps"
    using sample_pending[of "lit ''a Bob!''", OF disjI1[OF refl]] by (elim exE)
  note ps = this
  show ?thesis
  proof (rule memory_transform_total[OF sample_env_ok sample_not_refused sample_entities_wf _ _ sample_selected ps])
    show "\<forall>e \<in> set sample_entities. is_valid_entity_type (de_entity_type e)"
      using person_valid by (simp add: sample_entities_def sample_span_def)
  qed (simp_all add: sample_vault_ok sample_fields sample_entities_def, simp add: sample_policy_def)
qed

theorem memory_transform_returns_witness:
  "\<exists>out s'. transform sample_env memory_ops 1 2 (lit ''a Bob!'') sample_entities sample_policy sample_vault = (Inr out, s')"
proof -
  obtain ps where "pending_of_plan sample_env 1 2 (lit ''a Bob!'') (plan_for sample_policy sample_entities) = Inr ps"
    using sample_pending[of "lit ''a Bob!''", OF disjI1[OF refl]] by (elim exE)
  note ps = this
  show ?thesis
  proof (rule memory_transform_returns[OF sample_env_ok sample_not_refused sample_entities_wf _ _ sample_selected ps])
    show "\<forall>e \<in> set sample_entities. is_valid_entity_type (de_entity_type e)"
      using person_valid by (simp add: sample_entities_def sample_span_def)
  qed (simp_all add: sample_vault_ok sample_fields sample_entities_def, simp add: sample_policy_def)
qed

text \<open>The text with the one name tokenized, echoed by the provider, comes back as it was.\<close>

theorem memory_round_trip_witness:
  "\<exists>out s' r s2. transform sample_env memory_ops 1 2 (lit ''a Bob!'') sample_entities sample_policy sample_vault = (Inr out, s')
    \<and> restore ascii_ucd memory_ops (length (tt_text out)) 1 2
        \<lparr>pv_content = Some (tt_text out), pv_model = Some (lit ''m''),
          pv_usage = None, pv_finish_reason = None\<rparr> UFAIL s' = (Inr r, s2)
    \<and> ro_text r = lit ''a Bob!''"
proof -
  obtain out s' where tr: "transform sample_env memory_ops 1 2 (lit ''a Bob!'') sample_entities sample_policy sample_vault = (Inr out, s')"
    using sample_returns by (elim exE)
  have ok: "mv_ok (length sample_entities) sample_vault" by (simp add: sample_vault_ok sample_entities_def)
  have left: "LEFT_DELIMITER \<notin> set (lit ''a Bob!'')" by (simp add: LEFT_DELIMITER_def)
  have acts: "\<forall>e \<in> set sample_entities. pl_action_for sample_policy (de_entity_type e) \<in> {TOKENIZE, ALLOW}"
    by (simp add: sample_entities_def sample_span_def sample_policy_def)
  have faith: "\<forall>ps. pending_of_plan sample_env 1 2 (lit ''a Bob!'') (plan_for sample_policy sample_entities) = Inr ps
      \<longrightarrow> faithful (mv_stored sample_vault 1 2) ps"
    using sample_faithful by blast
  have valid: "validated_content ascii_ucd \<lparr>pv_content = Some (tt_text out), pv_model = Some (lit ''m''),
          pv_usage = None, pv_finish_reason = None\<rparr>
      (length (tt_text out)) = Inr (tt_text out)"
    by (simp add: validated_content_def strip_def lstrip_def ascii_defs)
  have "\<exists>r s2. restore ascii_ucd memory_ops (length (tt_text out)) 1 2
        \<lparr>pv_content = Some (tt_text out), pv_model = Some (lit ''m''),
          pv_usage = None, pv_finish_reason = None\<rparr> UFAIL s' = (Inr r, s2)
    \<and> ro_text r = lit ''a Bob!'' \<and> ps_unknown_tokens (ro_summary r) = 0"
    by (rule memory_round_trip[OF ok sample_fields(1) tr sample_entities_wf left sample_selected acts faith valid])
  then show ?thesis using tr by (elim exE conjE) (intro exI conjI)
qed

end
