(* ===== verification/Document_Protection.thy ===== *)
theory Document_Protection
  imports Document_Analysis Memory_Vault
begin

text \<open>
  \<^verbatim>\<open>app/documents/protection.py\<close>: a stored document becomes text a provider may see. The
  analysis comes with the policy that labelled it; the same tokenizer, vault and session serve the
  document and the caller's instruction about it. The world has the state of the document sources
  and of the policy cache, which the analysis uses, beside the vault, the network and the audit
  queue.
\<close>

section \<open>The world of a document request\<close>

record ('s, 'v, 'o, 'a) document_world =
  dw_source :: 's
  dw_vault :: 'v
  dw_outside :: 'o
  dw_audit :: 'a

definition from_source :: "('s, 'b) op \<Rightarrow> (('s, 'v, 'o, 'a) document_world, 'b) op" where
  "from_source f w = (case f (dw_source w) of (r, s) \<Rightarrow> (r, w\<lparr>dw_source := s\<rparr>))"

definition in_vault :: "('v, 'b) op \<Rightarrow> (('s, 'v, 'o, 'a) document_world, 'b) op" where
  "in_vault f w = (case f (dw_vault w) of (r, v) \<Rightarrow> (r, w\<lparr>dw_vault := v\<rparr>))"

definition to_outside :: "('o, 'b) op \<Rightarrow> (('s, 'v, 'o, 'a) document_world, 'b) op" where
  "to_outside f w = (case f (dw_outside w) of (r, x) \<Rightarrow> (r, w\<lparr>dw_outside := x\<rparr>))"

definition to_audit :: "('a, 'b) op \<Rightarrow> (('s, 'v, 'o, 'a) document_world, 'b) op" where
  "to_audit f w = (case f (dw_audit w) of (r, a) \<Rightarrow> (r, w\<lparr>dw_audit := a\<rparr>))"

lemma document_world_eq [state_simps]:
  "from_source f w = (r, w') \<longleftrightarrow> (\<exists>s. f (dw_source w) = (r, s) \<and> w' = w\<lparr>dw_source := s\<rparr>)"
  "in_vault g w = (r', w') \<longleftrightarrow> (\<exists>v. g (dw_vault w) = (r', v) \<and> w' = w\<lparr>dw_vault := v\<rparr>)"
  "to_outside h w = (r'', w') \<longleftrightarrow> (\<exists>x. h (dw_outside w) = (r'', x) \<and> w' = w\<lparr>dw_outside := x\<rparr>)"
  "to_audit k w = (r''', w') \<longleftrightarrow> (\<exists>a. k (dw_audit w) = (r''', a) \<and> w' = w\<lparr>dw_audit := a\<rparr>)"
  by (auto simp: from_source_def in_vault_def to_outside_def to_audit_def split: prod.splits)


section \<open>The stage\<close>

record ('s, 'v) document_protector =
  dp_analyzer :: "'s document_analyzer"
  dp_env :: tok_env
  dp_vault :: "'v vault_ops"
  dp_detector :: detector
  dp_max_entities :: int
  dp_language :: ustr

definition mk_document_protector :: "('s, 'v) document_protector \<Rightarrow> ('s, 'v) document_protector res" where
  "mk_document_protector P = (if dp_max_entities P < 1 then Inl ValueError else Inr P)"

definition document_entity_budget :: "policy_snapshot \<Rightarrow> int \<Rightarrow> policy_like" where
  "document_entity_budget snapshot document_max_entities =
     \<lparr>pl_max_entities = document_max_entities, pl_session_ttl_seconds = sn_session_ttl_seconds snapshot,
      pl_action_for = action_for snapshot, pl_min_score_for = min_score_for snapshot\<rparr>"

record protected_document =
  pd_tenant_id :: uuid
  pd_session_id :: uuid
  pd_document_id :: uuid
  pd_text :: ustr
  pd_instruction :: ustr
  pd_summary :: privacy_summary
  pd_policy_version :: nat

definition mk_protected_document :: "protected_document \<Rightarrow> protected_document res" where
  "mk_protected_document d = (if pd_text d = [] then Inl ValueError else Inr d)"

definition detect_instruction :: "('s, 'v) document_protector \<Rightarrow> ustr \<Rightarrow> detected_entity list res" where
  "detect_instruction P instruction =
     (if strip (te_ucd (dp_env P)) instruction = [] then Inr [] else dp_detector P instruction (dp_language P))"

fun reject_blocked_instruction :: "detected_entity list \<Rightarrow> policy_snapshot \<Rightarrow> unit res" where
  "reject_blocked_instruction [] policy = Inr ()"
| "reject_blocked_instruction (e # es) policy =
     (if action_for policy (de_entity_type e) = BLOCK
      then Inl (GatewayError POLICY_VIOLATION ''policy_blocked_instruction_entity'')
      else reject_blocked_instruction es policy)"

definition as_detections :: "analyzed_document \<Rightarrow> detected_entity list" where
  "as_detections a = map (\<lambda>l. \<lparr>de_entity_type = ls_entity_type l, de_start = ls_start l, de_end = ls_end l,
     de_score = ls_score l, de_recognizer = None\<rparr>) (an_spans a)"

definition verify_every_span_was_acted_on :: "analyzed_document \<Rightarrow> transformed_text \<Rightarrow> unit res" where
  "verify_every_span_was_acted_on a t =
     (if ps_detected (tt_summary t) = length (an_spans a) then Inr ()
      else Inl (GatewayError INTERNAL_ERROR ''protection_dropped_labeled_spans''))"

definition protect :: "('s, 'v) document_protector \<Rightarrow> uuid \<Rightarrow> uuid \<Rightarrow> uuid \<Rightarrow> uuid \<Rightarrow> ustr \<Rightarrow>
    (('s, 'v, 'o, 'a) document_world, protected_document) op" where
  "protect P tenant_id user_id session_id document_id instruction =
     bindS (from_source (analyze (dp_analyzer P) tenant_id user_id document_id)) (\<lambda>analyzed.
     bindS (liftS (detect_instruction P instruction)) (\<lambda>entities.
     bindS (liftS (reject_blocked_instruction entities (an_policy analyzed))) (\<lambda>_.
     bindS (in_vault (transform (dp_env P) (dp_vault P) tenant_id session_id (xd_text (sd_document (an_segmented analyzed)))
              (as_detections analyzed) (document_entity_budget (an_policy analyzed) (dp_max_entities P)))) (\<lambda>transformed.
     bindS (liftS (verify_every_span_was_acted_on analyzed transformed)) (\<lambda>_.
     bindS (if entities = [] then liftS (Inr None)
            else bindS (in_vault (transform (dp_env P) (dp_vault P) tenant_id session_id instruction entities
                          (policy_view (an_policy analyzed)))) (\<lambda>t. liftS (Inr (Some t)))) (\<lambda>protected_instruction.
       liftS (mk_protected_document
         \<lparr>pd_tenant_id = tenant_id, pd_session_id = session_id, pd_document_id = document_id,
          pd_text = tt_text transformed,
          pd_instruction = (case protected_instruction of None \<Rightarrow> instruction | Some t \<Rightarrow> tt_text t),
          pd_summary = (case protected_instruction of None \<Rightarrow> tt_summary transformed
             | Some t \<Rightarrow> merged_with (tt_summary transformed) (tt_summary t)),
          pd_policy_version = sn_version (an_policy analyzed)\<rparr>)))))))"


section \<open>Labelled spans are spliced as they are\<close>

text \<open>
  The tokenizer validates, filters and resolves spans again, by its own simpler rule. On the spans
  of an analysis all three change nothing.
\<close>

lemma labelled_spans_ok:
  assumes "analyze A tenant_id user_id document_id s = (Inr a, s')"
  shows "disjoint_ordered (as_detections a)"
    "\<forall>e \<in> set (as_detections a). wf_entity e \<and> de_end e \<le> length (xd_text (sd_document (an_segmented a)))
       \<and> min_score_for (an_policy a) (de_entity_type e) \<le> de_score e"
    "\<forall>l \<in> set (an_spans a). ls_action l = action_for (an_policy a) (ls_entity_type l) \<and> ls_action l \<noteq> BLOCK"
    "int (length (an_spans a)) \<le> az_max_entities A"
proof -
  from assms obtain ds cs rs where d: "detect_segments A (an_segmented a) = Inr ds" "coalesce ds = Inr cs"
    "resolve_detections (select_confident (an_policy a) cs) = Inr rs" "int (length rs) \<le> az_max_entities A"
    "label_spans (sd_document (an_segmented a)) (an_policy a) rs = Inr (an_spans a)"
    "check_spans (length (xd_text (sd_document (an_segmented a)))) 0 (an_spans a) = Inr ()"
    by (rule analyze_Inr)
  note lab = label_spans_Inr[OF d(5)]
  have cs: "\<forall>c \<in> set cs. wf_detection c"
    using coalesce_ok[OF detect_segments_Inr(1)[OF d(1)]] d(2) by (metis Inr_inject)
  show "int (length (an_spans a)) \<le> az_max_entities A" using d(4) lab by (simp add: list_all2_lengthD)
  show "\<forall>l \<in> set (an_spans a). ls_action l = action_for (an_policy a) (ls_entity_type l) \<and> ls_action l \<noteq> BLOCK"
    using list_all2_right[OF lab] by blast
  have nonempty: "\<forall>l \<in> set (an_spans a). ls_start l < ls_end l" using list_all2_right[OF lab] by blast
  from check_spans_Inr[OF d(6) this] show "disjoint_ordered (as_detections a)"
    by (simp add: disjoint_ordered_def as_detections_def sorted_wrt_map)
  show "\<forall>e \<in> set (as_detections a). wf_entity e \<and> de_end e \<le> length (xd_text (sd_document (an_segmented a)))
     \<and> min_score_for (an_policy a) (de_entity_type e) \<le> de_score e"
  proof
    fix e assume "e \<in> set (as_detections a)"
    then obtain l where l: "l \<in> set (an_spans a)" "de_entity_type e = ls_entity_type l" "de_start e = ls_start l"
      "de_end e = ls_end l" "de_score e = ls_score l" by (auto simp: as_detections_def)
    from list_all2_right[OF lab l(1)] obtain r where r: "r \<in> set rs" "ls_entity_type l = de_entity_type (gd_entity r)"
      "ls_score l = de_score (gd_entity r)" by blast
    have "gd_entity r \<in> set (map gd_entity rs)" using r(1) by simp
    then have "gd_entity r \<in> set (map gd_entity (select_confident (an_policy a) cs))"
      unfolding resolve_detections_Inr[OF d(3)] using resolve_overlaps_subset by blast
    then obtain c where "c \<in> set (select_confident (an_policy a) cs)" "gd_entity r = gd_entity c" by auto
    then show "wf_entity e \<and> de_end e \<le> length (xd_text (sd_document (an_segmented a)))
        \<and> min_score_for (an_policy a) (de_entity_type e) \<le> de_score e"
      using cs l r nonempty check_spans_Inr[OF d(6) nonempty]
      by (auto simp: select_confident_def wf_detection_def wf_entity_def)
  qed
qed

lemma labelled_spans_selected:
  assumes "analyze A tenant_id user_id document_id s = (Inr a, s')"
  shows "select_entities (xd_text (sd_document (an_segmented a))) (as_detections a) (document_entity_budget (an_policy a) n)
    = Inr (as_detections a)"
  using labelled_spans_ok(1,2)[OF assms]
  by (intro select_entities_id) (auto simp: confident_for_def document_entity_budget_def)

lemma labelled_plan:
  assumes "analyze A tenant_id user_id document_id s = (Inr a, s')"
  shows "map snd (plan_for (document_entity_budget (an_policy a) n) (as_detections a)) = map ls_action (an_spans a)"
  using labelled_spans_ok(3)[OF assms] by (auto simp: plan_for_def document_entity_budget_def as_detections_def)

lemma labelled_spans_transformed:
  assumes "analyze A tenant_id user_id document_id s = (Inr a, s')"
    "transform env ops tenant_id session_id (xd_text (sd_document (an_segmented a))) (as_detections a)
       (document_entity_budget (an_policy a) n) v = (Inr t, v')"
  shows "tt_summary t = summarize (plan_for (document_entity_budget (an_policy a) n) (as_detections a))"
    "verify_every_span_was_acted_on a t = Inr ()"
proof -
  obtain sel where "select_entities (xd_text (sd_document (an_segmented a))) (as_detections a)
      (document_entity_budget (an_policy a) n) = Inr sel"
    "tt_summary t = summarize (plan_for (document_entity_budget (an_policy a) n) sel)"
    using transform_facts[OF assms(2)] labelled_spans_ok(2)[OF assms(1)] by metis
  then show t: "tt_summary t = summarize (plan_for (document_entity_budget (an_policy a) n) (as_detections a))"
    using labelled_spans_selected[OF assms(1), of n] by simp
  then show "verify_every_span_was_acted_on a t = Inr ()"
    by (simp add: verify_every_span_was_acted_on_def summarize_def as_detections_def)
qed


section \<open>What protection yields\<close>

lemma reject_blocked_instruction_Inr:
  "reject_blocked_instruction es policy = Inr u \<longleftrightarrow> (\<forall>e \<in> set es. action_for policy (de_entity_type e) \<noteq> BLOCK)"
  by (induction es) auto

lemma reject_blocked_instruction_Inl:
  "\<exists>e \<in> set es. action_for policy (de_entity_type e) = BLOCK \<Longrightarrow>
     reject_blocked_instruction es policy = Inl (GatewayError POLICY_VIOLATION ''policy_blocked_instruction_entity'')"
  by (induction es) auto

lemma protect_Inr:
  assumes "protect P tenant_id user_id session_id document_id instruction w = (Inr d, w')"
  obtains a s' es t v1 v2 where "analyze (dp_analyzer P) tenant_id user_id document_id (dw_source w) = (Inr a, s')"
    "detect_instruction P instruction = Inr es" "\<forall>e \<in> set es. action_for (an_policy a) (de_entity_type e) \<noteq> BLOCK"
    "transform (dp_env P) (dp_vault P) tenant_id session_id (xd_text (sd_document (an_segmented a))) (as_detections a)
       (document_entity_budget (an_policy a) (dp_max_entities P)) (dw_vault w) = (Inr t, v1)"
    "pd_text d = tt_text t" "pd_text d \<noteq> []"
    "es = [] \<and> v2 = v1 \<and> pd_instruction d = instruction \<or>
       (\<exists>ti. transform (dp_env P) (dp_vault P) tenant_id session_id instruction es (policy_view (an_policy a)) v1 = (Inr ti, v2)
          \<and> pd_instruction d = tt_text ti \<and> es \<noteq> [])"
    "pd_tenant_id d = tenant_id" "pd_session_id d = session_id" "pd_document_id d = document_id"
    "pd_policy_version d = sn_version (an_policy a)" "w' = w\<lparr>dw_source := s', dw_vault := v2\<rparr>"
proof -
  from assms obtain a s' es t v1 x v2 where
    s: "analyze (dp_analyzer P) tenant_id user_id document_id (dw_source w) = (Inr a, s')"
    "detect_instruction P instruction = Inr es" "reject_blocked_instruction es (an_policy a) = Inr ()"
    "transform (dp_env P) (dp_vault P) tenant_id session_id (xd_text (sd_document (an_segmented a))) (as_detections a)
       (document_entity_budget (an_policy a) (dp_max_entities P)) (dw_vault w) = (Inr t, v1)"
    and rest: "(if es = [] then liftS (Inr None)
       else bindS (in_vault (transform (dp_env P) (dp_vault P) tenant_id session_id instruction es (policy_view (an_policy a))))
              (\<lambda>t. liftS (Inr (Some t)))) (w\<lparr>dw_source := s', dw_vault := v1\<rparr>) = (Inr x, w')"
    "mk_protected_document
         \<lparr>pd_tenant_id = tenant_id, pd_session_id = session_id, pd_document_id = document_id,
          pd_text = tt_text t, pd_instruction = (case x of None \<Rightarrow> instruction | Some t \<Rightarrow> tt_text t),
          pd_summary = (case x of None \<Rightarrow> tt_summary t | Some i \<Rightarrow> merged_with (tt_summary t) (tt_summary i)),
          pd_policy_version = sn_version (an_policy a)\<rparr> = Inr d"
    by (auto simp: protect_def state_simps)
  then have d: "d = \<lparr>pd_tenant_id = tenant_id, pd_session_id = session_id, pd_document_id = document_id,
          pd_text = tt_text t, pd_instruction = (case x of None \<Rightarrow> instruction | Some t \<Rightarrow> tt_text t),
          pd_summary = (case x of None \<Rightarrow> tt_summary t | Some i \<Rightarrow> merged_with (tt_summary t) (tt_summary i)),
          pd_policy_version = sn_version (an_policy a)\<rparr>" "tt_text t \<noteq> []"
    by (auto simp: mk_protected_document_def split: if_splits)
  show thesis
  proof (cases "es = []")
    case True
    with rest have "x = None" "w' = w\<lparr>dw_source := s', dw_vault := v1\<rparr>" by (auto simp: liftS_eq)
    with True s d show thesis by (intro that[of a s' es t v1 v1]) (auto simp: reject_blocked_instruction_Inr)
  next
    case False
    with rest obtain ti v2 where "x = Some ti" "w' = w\<lparr>dw_source := s', dw_vault := v2\<rparr>"
      "transform (dp_env P) (dp_vault P) tenant_id session_id instruction es (policy_view (an_policy a)) v1 = (Inr ti, v2)"
      by (auto simp: state_simps)
    with False s d show thesis by (intro that[of a s' es t v1 v2]) (auto simp: reject_blocked_instruction_Inr)
  qed
qed

text \<open>
  The protected text is the document with every labelled span treated as its label says, and
  nothing else changed.
\<close>

lemma protected_text:
  assumes "analyze A tenant_id user_id document_id s = (Inr a, s')"
    "transform env ops tenant_id session_id (xd_text (sd_document (an_segmented a))) (as_detections a)
       (document_entity_budget (an_policy a) n) v = (Inr t, v')"
  shows "\<exists>ms rs. length ms = length (an_spans a) \<and> length rs = length (an_spans a)
    \<and> (\<forall>i < length (an_spans a). span_result env tenant_id session_id (xd_text (sd_document (an_segmented a)))
          (as_detections a ! i, ls_action (an_spans a ! i)) (ms ! i) (rs ! i))
    \<and> tt_text t = rebuild (xd_text (sd_document (an_segmented a))) 0
        (edits (enumerate 0 (zip (as_detections a) (map ls_action (an_spans a)))) rs)"
proof -
  let ?p = "document_entity_budget (an_policy a) n"
  have wf: "\<forall>e \<in> set (as_detections a). wf_entity e" using labelled_spans_ok(2)[OF assms(1)] by blast
  have len: "length (as_detections a) = length (an_spans a)" by (simp add: as_detections_def)
  obtain ms rs where f: "length ms = length (as_detections a)" "length rs = length (as_detections a)"
    "\<And>i. i < length (as_detections a) \<Longrightarrow> span_result env tenant_id session_id (xd_text (sd_document (an_segmented a)))
       (plan_for ?p (as_detections a) ! i) (ms ! i) (rs ! i)"
    "tt_text t = rebuild (xd_text (sd_document (an_segmented a))) 0 (edits (enumerate 0 (plan_for ?p (as_detections a))) rs)"
    using transform_facts[OF assms(2) wf] labelled_spans_selected[OF assms(1), of n] by (metis Inr_inject)
  moreover have "plan_for ?p (as_detections a) = zip (as_detections a) (map ls_action (an_spans a))"
    using labelled_plan[OF assms(1), of n] by (auto simp: list_eq_iff_nth_eq plan_for_def as_detections_def)
  ultimately show ?thesis using len by auto
qed


text \<open>
  The order protects against blocked types only. An instruction with more entities than the
  request ceiling of the policy is refused by the second transformation, when the mappings of the
  document have been written.
\<close>

lemma instruction_over_budget_keeps_mappings:
  assumes "analyze (dp_analyzer P) tenant_id user_id document_id (dw_source w) = (Inr a, s')"
    "detect_instruction P instruction = Inr es" "\<forall>e \<in> set es. action_for (an_policy a) (de_entity_type e) \<noteq> BLOCK"
    "transform (dp_env P) (dp_vault P) tenant_id session_id (xd_text (sd_document (an_segmented a))) (as_detections a)
       (document_entity_budget (an_policy a) (dp_max_entities P)) (dw_vault w) = (Inr t, v1)"
    "select_entities instruction es (policy_view (an_policy a)) = Inr sel" "sn_max_entities (an_policy a) < int (length sel)"
    "es \<noteq> []"
  shows "protect P tenant_id user_id session_id document_id instruction w
    = (Inl (GatewayError ENTITY_LIMIT_EXCEEDED []), w\<lparr>dw_source := s', dw_vault := v1\<rparr>)"
proof -
  note v = labelled_spans_transformed(2)[OF assms(1,4)]
  have r: "reject_blocked_instruction es (an_policy a) = Inr ()" using assms(3) by (simp add: reject_blocked_instruction_Inr)
  have l: "enforce_limit sel (policy_view (an_policy a)) = Inl (GatewayError ENTITY_LIMIT_EXCEEDED [])"
    using assms(6) by (simp add: enforce_limit_def policy_view_def)
  have i: "transform (dp_env P) (dp_vault P) tenant_id session_id instruction es (policy_view (an_policy a)) v1
    = (Inl (GatewayError ENTITY_LIMIT_EXCEEDED []), v1)"
    using l by (simp add: transform_def assms(5))
  show ?thesis
    by (simp add: protect_def bindS_def from_source_def in_vault_def liftS_def assms(1,2,4,7) v r i)
qed

section \<open>One token for one value\<close>

context token_vault
begin

lemma minted_token_stored:
  assumes "ok (length ps) s" "vo_get_or_create_many ops t u (map write_request_of ps) ttl s = (Inr toks, s')"
    "j < length ps" "mapping_for (ps ! j) (toks ! j) = Inr m"
  shows "\<exists>v. stored s' t u (em_entity_type m, em_normalized_hmac m) = Some (em_token m, v)"
proof -
  let ?es = "map write_request_of ps"
  have key: "vault_key_of (?es ! j) = (em_entity_type m, em_normalized_hmac m)"
    using assms(3) mapping_for_Inr[OF assms(4)] by (simp add: vault_key_of_def write_request_of_def)
  obtain v where v: "stored s' t u (em_entity_type m, em_normalized_hmac m) = Some (toks ! j, v)"
    using create_stored[of ?es s t u ttl toks s' j] assms(1-3) key by auto
  have "ok 0 s'" using create_ok[of 0 ?es s t u ttl toks s'] assms(1,2) by simp
  then obtain tk where tk: "parse_token (toks ! j) = Some tk" "tk_entity_type tk = em_entity_type m"
    using stored_token v by fastforce
  then have "coerce_vault_token (toks ! j) (pe_entity_type (ps ! j)) = Inr tk"
    using mapping_for_Inr[OF assms(4)] by (simp add: coerce_vault_token_def)
  then have "em_token m = toks ! j" using assms(4) tk(1) by (auto simp: mapping_for_def result_simps parse_token_format)
  then show ?thesis using v by simp
qed

lemma transform_stores:
  assumes "transform env ops t u txt es policy s = (Inr out, s')" "\<forall>e \<in> set es. wf_entity e" "ok (length es) s"
    "select_entities txt es policy = Inr sel"
  obtains ms rs where "length ms = length sel" "length rs = length sel"
    "\<And>i. i < length sel \<Longrightarrow> span_result env t u txt (plan_for policy sel ! i) (ms ! i) (rs ! i)"
    "tt_text out = rebuild txt 0 (edits (enumerate 0 (plan_for policy sel)) rs)"
    "\<And>i m. i < length sel \<Longrightarrow> ms ! i = Some m \<Longrightarrow>
       \<exists>v. stored s' t u (em_entity_type m, em_normalized_hmac m) = Some (em_token m, v)"
    "\<And>k x. stored s t u k = Some x \<Longrightarrow> stored s' t u k = Some x"
proof (rule transform_facts[OF assms(1,2)])
  fix sel' ms rs ps toks
  assume "select_entities txt es policy = Inr sel'"
  then have eq: "sel' = sel" using assms(4) by simp
  assume f: "length ms = length sel'" "length rs = length sel'"
    "\<And>i. i < length sel' \<Longrightarrow> span_result env t u txt (plan_for policy sel' ! i) (ms ! i) (rs ! i)"
    "tt_text out = rebuild txt 0 (edits (enumerate 0 (plan_for policy sel')) rs)"
    and ps: "pending_of_plan env t u txt (plan_for policy sel') = Inr ps"
    and call: "ps = [] \<and> s' = s \<or> ps \<noteq> [] \<and>
       vo_get_or_create_many ops t u (map write_request_of ps) (pl_session_ttl_seconds policy) s = (Inr toks, s')"
    and origin: "\<And>i m. i < length sel' \<Longrightarrow> ms ! i = Some m \<Longrightarrow>
       \<exists>j < length ps. pe_index (ps ! j) = i \<and> mapping_for (ps ! j) (toks ! j) = Inr m"
  have okp: "ok (length ps) s" using ok_mono[OF assms(3) pending_count[OF assms(4)]] ps eq by simp
  show thesis
  proof (rule that[OF f[unfolded eq]])
    fix i m assume "i < length sel" "ms ! i = Some m"
    then obtain j where "j < length ps" "mapping_for (ps ! j) (toks ! j) = Inr m" using origin eq by blast
    moreover from this call have "vo_get_or_create_many ops t u (map write_request_of ps) (pl_session_ttl_seconds policy) s = (Inr toks, s')"
      by auto
    ultimately show "\<exists>v. stored s' t u (em_entity_type m, em_normalized_hmac m) = Some (em_token m, v)"
      using minted_token_stored okp by blast
  next
    fix k x assume "stored s t u k = Some x"
    then show "stored s' t u k = Some x" 
      using call create_keeps[of "map write_request_of ps" s t u "pl_session_ttl_seconds policy" toks s' k x] okp by auto
  qed
qed

lemma transform_keeps_ok:
  assumes "transform env ops t u txt es policy s = (Inr out, s')" "\<forall>e \<in> set es. wf_entity e" "ok (length es + n) s"
  shows "ok n s'"
proof (rule transform_facts[OF assms(1,2)])
  fix sel ps toks
  assume "select_entities txt es policy = Inr sel" "pending_of_plan env t u txt (plan_for policy sel) = Inr ps"
    and call: "ps = [] \<and> s' = s \<or> ps \<noteq> [] \<and>
       vo_get_or_create_many ops t u (map write_request_of ps) (pl_session_ttl_seconds policy) s = (Inr toks, s')"
  then have "ok (n + length ps) s" using pending_count by (intro ok_mono[OF assms(3)]) auto
  then show "ok n s'" using call create_ok[of n "map write_request_of ps"] ok_mono by auto
qed

text \<open>
  Two texts transformed one after the other in a session: where both hold a tokenized span of the
  same type whose values normalise alike, both get the same token.
\<close>

lemma same_value_same_token:
  assumes one: "transform env ops t u txt es policy s = (Inr out, s1)" "\<forall>e \<in> set es. wf_entity e"
      "ok (length es) s" "select_entities txt es policy = Inr sel"
    and two: "transform env ops t u txt2 es2 policy2 s1 = (Inr out2, s2)" "\<forall>e \<in> set es2. wf_entity e"
      "ok (length es2) s1" "select_entities txt2 es2 policy2 = Inr sel2"
  shows "\<exists>rs rs2. length rs = length sel \<and> length rs2 = length sel2
    \<and> tt_text out = rebuild txt 0 (edits (enumerate 0 (plan_for policy sel)) rs)
    \<and> tt_text out2 = rebuild txt2 0 (edits (enumerate 0 (plan_for policy2 sel2)) rs2)
    \<and> (\<forall>i < length sel. \<forall>j < length sel2.
         pl_action_for policy (de_entity_type (sel ! i)) = TOKENIZE \<and> pl_action_for policy2 (de_entity_type (sel2 ! j)) = TOKENIZE
         \<and> de_entity_type (sel2 ! j) = de_entity_type (sel ! i)
         \<and> normalize (te_ucd env) (de_entity_type (sel ! i)) (slice txt (de_start (sel ! i)) (de_end (sel ! i)))
           = normalize (te_ucd env) (de_entity_type (sel ! i)) (slice txt2 (de_start (sel2 ! j)) (de_end (sel2 ! j)))
         \<longrightarrow> (\<exists>token. rs ! i = Some token \<and> rs2 ! j = Some token))"
proof -
  obtain ms rs where a: "length ms = length sel" "length rs = length sel"
    "\<And>i. i < length sel \<Longrightarrow> span_result env t u txt (plan_for policy sel ! i) (ms ! i) (rs ! i)"
    "tt_text out = rebuild txt 0 (edits (enumerate 0 (plan_for policy sel)) rs)"
    "\<And>i m. i < length sel \<Longrightarrow> ms ! i = Some m \<Longrightarrow>
       \<exists>v. stored s1 t u (em_entity_type m, em_normalized_hmac m) = Some (em_token m, v)"
    by (rule transform_stores[OF one]) blast
  obtain ms2 rs2 where b: "length ms2 = length sel2" "length rs2 = length sel2"
    "\<And>i. i < length sel2 \<Longrightarrow> span_result env t u txt2 (plan_for policy2 sel2 ! i) (ms2 ! i) (rs2 ! i)"
    "tt_text out2 = rebuild txt2 0 (edits (enumerate 0 (plan_for policy2 sel2)) rs2)"
    "\<And>i m. i < length sel2 \<Longrightarrow> ms2 ! i = Some m \<Longrightarrow>
       \<exists>v. stored s2 t u (em_entity_type m, em_normalized_hmac m) = Some (em_token m, v)"
    "\<And>k x. stored s1 t u k = Some x \<Longrightarrow> stored s2 t u k = Some x"
    by (rule transform_stores[OF two]) blast
  have "\<exists>token. rs ! i = Some token \<and> rs2 ! j = Some token"
    if i: "i < length sel" "pl_action_for policy (de_entity_type (sel ! i)) = TOKENIZE"
      and j: "j < length sel2" "pl_action_for policy2 (de_entity_type (sel2 ! j)) = TOKENIZE"
      and same: "de_entity_type (sel2 ! j) = de_entity_type (sel ! i)"
        "normalize (te_ucd env) (de_entity_type (sel ! i)) (slice txt (de_start (sel ! i)) (de_end (sel ! i)))
           = normalize (te_ucd env) (de_entity_type (sel ! i)) (slice txt2 (de_start (sel2 ! j)) (de_end (sel2 ! j)))"
    for i j
  proof -
    obtain m where m: "ms ! i = Some m" "mapping_ok env t u txt (sel ! i) m" "rs ! i = Some (em_token m)"
      using a(3)[OF i(1)] i by (auto simp: span_result_def)
    obtain m2 where m2: "ms2 ! j = Some m2" "mapping_ok env t u txt2 (sel2 ! j) m2" "rs2 ! j = Some (em_token m2)"
      using b(3)[OF j(1)] j by (auto simp: span_result_def)
    have key: "(em_entity_type m2, em_normalized_hmac m2) = (em_entity_type m, em_normalized_hmac m)"
      using m(2) m2(2) same by (auto simp: mapping_ok_def)
    obtain v where "stored s2 t u (em_entity_type m, em_normalized_hmac m) = Some (em_token m, v)"
      using a(5)[OF i(1) m(1)] b(6) by blast
    then have "em_token m2 = em_token m" using b(5)[OF j(1) m2(1)] key by auto
    then show ?thesis using m(3) m2(3) by simp
  qed
  then show ?thesis using a(2,4) b(2,4) by blast
qed

end

text \<open>
  C26. The model sees one identifier for one person: when a document and the instruction about it
  are protected together, over the in-memory vault, any tokenized span of the document and any
  tokenized span of the instruction that have the same type, and values that normalise alike, are
  replaced by the same token.
\<close>

theorem document_and_instruction_share_tokens:
  assumes "protect P tenant_id user_id session_id document_id instruction w = (Inr d, w')"
    "dp_vault P = memory_ops" "mv_ok n (dw_vault w)"
    "analyze (dp_analyzer P) tenant_id user_id document_id (dw_source w) = (Inr a, s')"
    "detect_instruction P instruction = Inr es" "es \<noteq> []" "\<forall>e \<in> set es. wf_entity e"
    "length (an_spans a) + length es \<le> n" "select_entities instruction es (policy_view (an_policy a)) = Inr sel"
  shows "\<exists>rs rs2. length rs = length (an_spans a) \<and> length rs2 = length sel
    \<and> pd_text d = rebuild (xd_text (sd_document (an_segmented a))) 0
        (edits (enumerate 0 (zip (as_detections a) (map ls_action (an_spans a)))) rs)
    \<and> pd_instruction d = rebuild instruction 0 (edits (enumerate 0 (plan_for (policy_view (an_policy a)) sel)) rs2)
    \<and> (\<forall>i < length (an_spans a). \<forall>j < length sel. let l = an_spans a ! i; e = sel ! j; U = te_ucd (dp_env P) in
         ls_action l = TOKENIZE \<and> de_entity_type e = ls_entity_type l
         \<and> normalize U (ls_entity_type l) (span_text a l) = normalize U (ls_entity_type l) (slice instruction (de_start e) (de_end e))
         \<longrightarrow> (\<exists>token. rs ! i = Some token \<and> rs2 ! j = Some token))"
proof -
  let ?txt = "xd_text (sd_document (an_segmented a))" and ?p = "document_entity_budget (an_policy a) (dp_max_entities P)"
  obtain t v1 v2 ti where
    tr: "transform (dp_env P) memory_ops tenant_id session_id ?txt (as_detections a) ?p (dw_vault w) = (Inr t, v1)"
    and tr2: "transform (dp_env P) memory_ops tenant_id session_id instruction es (policy_view (an_policy a)) v1 = (Inr ti, v2)"
    and d: "pd_text d = tt_text t" "pd_instruction d = tt_text ti"
    by (rule protect_Inr[OF assms(1)]) (use assms(2,4-6) in auto)
  have wf: "\<forall>e \<in> set (as_detections a). wf_entity e" using labelled_spans_ok(2)[OF assms(4)] by blast
  have len: "length (as_detections a) = length (an_spans a)" by (simp add: as_detections_def)
  have ok: "mv_ok (length (as_detections a) + length es) (dw_vault w)"
    using assms(3,8) len by (auto intro: mv_ok_mono)
  then have ok1: "mv_ok (length (as_detections a)) (dw_vault w)" and ok2: "mv_ok (length es) v1"
    using mem.transform_keeps_ok[OF tr wf ok] by (auto intro: mv_ok_mono)
  have plan: "plan_for ?p (as_detections a) = zip (as_detections a) (map ls_action (an_spans a))"
    using labelled_plan[OF assms(4), of "dp_max_entities P"] by (auto simp: list_eq_iff_nth_eq plan_for_def as_detections_def)
  obtain rs rs2 where r: "length rs = length (as_detections a)" "length rs2 = length sel"
    "tt_text t = rebuild ?txt 0 (edits (enumerate 0 (plan_for ?p (as_detections a))) rs)"
    "tt_text ti = rebuild instruction 0 (edits (enumerate 0 (plan_for (policy_view (an_policy a)) sel)) rs2)"
    and share: "\<forall>i < length (as_detections a). \<forall>j < length sel.
         pl_action_for ?p (de_entity_type (as_detections a ! i)) = TOKENIZE
         \<and> pl_action_for (policy_view (an_policy a)) (de_entity_type (sel ! j)) = TOKENIZE
         \<and> de_entity_type (sel ! j) = de_entity_type (as_detections a ! i)
         \<and> normalize (te_ucd (dp_env P)) (de_entity_type (as_detections a ! i))
             (slice ?txt (de_start (as_detections a ! i)) (de_end (as_detections a ! i)))
           = normalize (te_ucd (dp_env P)) (de_entity_type (as_detections a ! i)) (slice instruction (de_start (sel ! j)) (de_end (sel ! j)))
         \<longrightarrow> (\<exists>token. rs ! i = Some token \<and> rs2 ! j = Some token)"
    using mem.same_value_same_token[OF tr wf ok1 labelled_spans_selected[OF assms(4)] tr2 assms(7) ok2 assms(9)] by blast
  have "let l = an_spans a ! i; e = sel ! j; U = te_ucd (dp_env P) in
         ls_action l = TOKENIZE \<and> de_entity_type e = ls_entity_type l
         \<and> normalize U (ls_entity_type l) (span_text a l) = normalize U (ls_entity_type l) (slice instruction (de_start e) (de_end e))
         \<longrightarrow> (\<exists>token. rs ! i = Some token \<and> rs2 ! j = Some token)" if "i < length (an_spans a)" "j < length sel" for i j
    using share[rule_format, of i j] that labelled_spans_ok(3)[OF assms(4)] len
    by (auto simp: Let_def as_detections_def span_text_def document_entity_budget_def policy_view_def)
  then show ?thesis using r d plan len by auto
qed

section \<open>A worked request\<close>

text \<open>One page with one name, and an instruction that repeats it.\<close>

definition person_snapshot :: policy_snapshot where
  "person_snapshot = sample_snapshot\<lparr>sn_entities := [(lit ''PERSON'', default_rule TOKENIZE (1 / 2))]\<rparr>"

definition bob_document :: extracted_document where
  "bob_document = \<lparr>xd_text = lit ''a Bob!'', xd_pages = [\<lparr>pg_number = 1, pg_start = 0, pg_end = 6\<rparr>]\<rparr>"

definition bob_protector :: "(unit, memory_vault) document_protector" where
  "bob_protector =
     \<lparr>dp_analyzer = \<lparr>az_segment = (\<lambda>_ _ _. liftS (segment_document \<lparr>sm_max_characters = 16, sm_overlap = 12\<rparr> bob_document)),
        az_detector = (\<lambda>_ _. Inr sample_entities), az_snapshot_for = (\<lambda>_. liftS (Inr person_snapshot)),
        az_gathered = (\<lambda>es. es), az_max_entities = 5\<rparr>,
      dp_env = sample_env, dp_vault = memory_ops, dp_detector = (\<lambda>_ _. Inr sample_entities), dp_max_entities = 5,
      dp_language = lit ''en''\<rparr>"

definition bob_analyzed :: analyzed_document where
  "bob_analyzed = \<lparr>an_tenant_id = 1, an_document_id = 3,
     an_segmented = \<lparr>sd_document = bob_document, sd_segments = [\<lparr>sg_index = 0, sg_start = 0, sg_end = 6, sg_pages = [1]\<rparr>]\<rparr>,
     an_spans = [\<lparr>ls_entity_type = lit ''PERSON'', ls_start = 2, ls_end = 5, ls_score = 1, ls_action = TOKENIZE,
        ls_pages = [1], ls_segments = [0]\<rparr>],
     an_policy = person_snapshot\<rparr>"

definition bob_world :: "(unit, memory_vault, unit, unit) document_world" where
  "bob_world = \<lparr>dw_source = (), dw_vault = sample_vault, dw_outside = (), dw_audit = ()\<rparr>"

lemma bob_analysis: "analyze (dp_analyzer bob_protector) 1 9 3 () = (Inr bob_analyzed, ())"
  by code_simp

lemma bob_detections: "as_detections bob_analyzed = sample_entities"
  by (simp add: as_detections_def bob_analyzed_def sample_entities_def sample_span_def)

lemma bob_instruction: "detect_instruction bob_protector (lit ''a Bob!'') = Inr sample_entities"
  by (simp add: detect_instruction_def bob_protector_def) code_simp

lemma bob_plan:
  "plan_for (document_entity_budget person_snapshot n) sample_entities = plan_for sample_policy sample_entities"
  "plan_for (policy_view person_snapshot) sample_entities = plan_for sample_policy sample_entities"
  by (simp_all add: plan_for_def sample_entities_def sample_span_def sample_policy_def document_entity_budget_def
      policy_view_def person_snapshot_def action_for_def default_rule_def)

lemma bob_selected:
  "select_entities (lit ''a Bob!'') sample_entities (document_entity_budget person_snapshot n) = Inr sample_entities"
  "select_entities (lit ''a Bob!'') sample_entities (policy_view person_snapshot) = Inr sample_entities"
  by (rule select_entities_id; simp add: sample_entities_def sample_span_def wf_entity_def confident_for_def
      document_entity_budget_def policy_view_def person_snapshot_def min_score_for_def default_rule_def)+

lemma bob_transforms:
  assumes "select_entities (lit ''a Bob!'') sample_entities policy = Inr sample_entities"
    "plan_for policy sample_entities = plan_for sample_policy sample_entities" "1 \<le> pl_max_entities policy"
    "1 \<le> pl_session_ttl_seconds policy" "mv_ok 1 v" "mv_failure v = None"
  shows "\<exists>t v'. transform sample_env memory_ops 1 2 (lit ''a Bob!'') sample_entities policy v = (Inr t, v') \<and> mv_failure v' = None"
proof -
  have acts: "\<forall>e \<in> set sample_entities. pl_action_for policy (de_entity_type e) \<noteq> BLOCK"
    using assms(2) by (simp add: plan_for_def sample_entities_def sample_span_def sample_policy_def)
  have sel: "select_leftmost (filter (confident_for policy) sample_entities) = sample_entities"
    using assms(1) by (simp only: select_entities_Inr)
  have nr: "refused (lit ''a Bob!'') sample_entities policy = None"
    unfolding refused_def sel using acts assms(3) by (simp add: sample_entities_def sample_span_def)
  obtain ps where "pending_of_plan sample_env 1 2 (lit ''a Bob!'') (plan_for policy sample_entities) = Inr ps"
    using sample_pending[of "lit ''a Bob!''", OF disjI1[OF refl]] unfolding assms(2) by (elim exE)
  note ps = this
  have ok: "mv_ok (length sample_entities) v" using assms(5) by (simp add: sample_entities_def)
  have "\<exists>t v'. transform sample_env memory_ops 1 2 (lit ''a Bob!'') sample_entities policy v = (Inr t, v')"
  proof (rule memory_transform_total[OF sample_env_ok nr sample_entities_wf ok assms(6) assms(1) ps])
    show "\<forall>e \<in> set sample_entities. is_valid_entity_type (de_entity_type e)"
      using person_valid by (simp add: sample_entities_def sample_span_def)
  qed (simp_all add: assms(4))
  then show ?thesis using memory_transform_healthy[OF _ sample_entities_wf ok assms(6)] by blast
qed

lemma bob_protected:
  "\<exists>d w'. protect bob_protector 1 9 2 3 (lit ''a Bob!'') bob_world = (Inr d, w')
     \<and> mv_stored (dw_vault w') 1 2 \<noteq> mv_stored (dw_vault bob_world) 1 2"
proof -
  let ?p = "document_entity_budget person_snapshot 5"
  have ok: "mv_ok (length sample_entities + 1) sample_vault" by (simp add: sample_vault_ok sample_entities_def)
  obtain t v1 where t: "transform sample_env memory_ops 1 2 (lit ''a Bob!'') sample_entities ?p sample_vault = (Inr t, v1)"
    "mv_failure v1 = None"
    using bob_transforms[OF bob_selected(1) bob_plan(1), of 5 sample_vault]
    by (auto simp: sample_vault_ok sample_fields document_entity_budget_def person_snapshot_def sample_snapshot_def)
  have ok1: "mv_ok 1 v1" by (rule mem.transform_keeps_ok[OF t(1) sample_entities_wf ok])
  obtain i v2 where i: "transform sample_env memory_ops 1 2 (lit ''a Bob!'') sample_entities (policy_view person_snapshot) v1 = (Inr i, v2)"
    using bob_transforms[OF bob_selected(2) bob_plan(2) _ _ ok1 t(2)]
    by (auto simp: policy_view_def person_snapshot_def sample_snapshot_def)
  have vr: "verify_every_span_was_acted_on bob_analyzed t = Inr ()"
    using labelled_spans_transformed(2)[OF bob_analysis, of sample_env memory_ops 2 5 sample_vault t v1] t(1)
    by (simp add: bob_detections) (simp add: bob_analyzed_def bob_document_def)
  have nonempty: "tt_text t \<noteq> []"
  proof -
    obtain rs where rs: "tt_text t = rebuild (lit ''a Bob!'') 0 (edits (enumerate 0 (plan_for ?p sample_entities)) rs)"
      by (rule mem.transform_stores[OF t(1) sample_entities_wf _ bob_selected(1)]) (simp_all add: sample_vault_ok sample_entities_def)
    then show ?thesis
      by (cases rs; cases "hd rs") (auto simp: bob_plan sample_plan sample_span_def slice_def)
  qed
  have rj: "reject_blocked_instruction sample_entities person_snapshot = Inr ()"
    by (simp add: sample_entities_def sample_span_def person_snapshot_def action_for_def default_rule_def)
  have es: "sample_entities \<noteq> []" by (simp add: sample_entities_def)
  have B: "an_policy bob_analyzed = person_snapshot" "xd_text (sd_document (an_segmented bob_analyzed)) = lit ''a Bob!''"
    by (simp_all add: bob_analyzed_def bob_document_def)
  have P: "dp_env bob_protector = sample_env" "dp_vault bob_protector = memory_ops" "dp_max_entities bob_protector = 5"
    by (simp_all add: bob_protector_def)
  have W: "dw_source bob_world = ()" "dw_vault bob_world = sample_vault" by (simp_all add: bob_world_def)
  have "\<exists>d. protect bob_protector 1 9 2 3 (lit ''a Bob!'') bob_world = (Inr d, bob_world\<lparr>dw_vault := v2\<rparr>)"
    by (simp only: protect_def bindS_def from_source_def in_vault_def liftS_def W bob_analysis bob_instruction B rj P
        bob_detections t(1) i vr prod.case sum.case es if_False option.case)
      (use t(1) i vr nonempty in \<open>simp add: mk_protected_document_def W\<close>)
  moreover have "mv_stored v2 1 2 \<noteq> mv_stored sample_vault 1 2"
  proof (rule mem.transform_stores[OF t(1) sample_entities_wf _ bob_selected(1)])
    fix ms rs
    assume sr: "\<And>i. i < length sample_entities \<Longrightarrow>
        span_result sample_env 1 2 (lit ''a Bob!'') (plan_for ?p sample_entities ! i) (ms ! i) (rs ! i)"
      and st: "\<And>i m. i < length sample_entities \<Longrightarrow> ms ! i = Some m \<Longrightarrow>
        \<exists>v. mv_stored v1 1 2 (em_entity_type m, em_normalized_hmac m) = Some (em_token m, v)"
    have "0 < length sample_entities" by (simp add: sample_entities_def)
    then obtain k x where k: "mv_stored v1 1 2 k = Some x"
      using sr[of 0] st[of 0] by (auto simp: bob_plan sample_plan span_result_def)
    have "mv_stored v2 1 2 k = Some x"
      by (rule mem.transform_stores[OF i sample_entities_wf _ bob_selected(2)]) (use ok1 k in \<open>auto simp: sample_entities_def\<close>)
    moreover have "mv_stored sample_vault 1 2 k = None"
      by (simp add: mv_stored_def sample_vault_def session_at_def view_def existing_mapping_def empty_session_def split: prod.splits)
    ultimately show "mv_stored v2 1 2 \<noteq> mv_stored sample_vault 1 2" by auto
  qed (simp add: sample_vault_ok sample_entities_def)
  ultimately show ?thesis using W by fastforce
qed



theorem document_and_instruction_share_tokens_witness:
  "\<exists>d w' rs rs2 token. protect bob_protector 1 9 2 3 (lit ''a Bob!'') bob_world = (Inr d, w')
     \<and> pd_text d = rebuild (lit ''a Bob!'') 0 (edits (enumerate 0 (zip sample_entities [TOKENIZE])) rs)
     \<and> rs ! 0 = Some token \<and> rs2 ! 0 = Some token"
proof -
  obtain d w' where p: "protect bob_protector 1 9 2 3 (lit ''a Bob!'') bob_world = (Inr d, w')"
    using bob_protected by metis
  have P: "dp_vault bob_protector = memory_ops" "mv_ok 2 (dw_vault bob_world)"
    by (simp_all add: bob_protector_def bob_world_def sample_vault_ok)
  have S: "sample_entities \<noteq> []" "length (an_spans bob_analyzed) + length sample_entities \<le> 2"
    by (simp_all add: sample_entities_def bob_analyzed_def)
  have a: "analyze (dp_analyzer bob_protector) 1 9 3 (dw_source bob_world) = (Inr bob_analyzed, ())"
    using bob_analysis by (simp add: bob_world_def)
  have sel: "select_entities (lit ''a Bob!'') sample_entities (policy_view (an_policy bob_analyzed)) = Inr sample_entities"
    using bob_selected(2) by (simp add: bob_analyzed_def)
  from document_and_instruction_share_tokens[OF p P a bob_instruction S(1) sample_entities_wf S(2) sel]
  obtain rs rs2 where r: "pd_text d = rebuild (xd_text (sd_document (an_segmented bob_analyzed))) 0
        (edits (enumerate 0 (zip (as_detections bob_analyzed) (map ls_action (an_spans bob_analyzed)))) rs)"
    and share: "\<forall>i < length (an_spans bob_analyzed). \<forall>j < length sample_entities.
         let l = an_spans bob_analyzed ! i; e = sample_entities ! j; U = te_ucd (dp_env bob_protector) in
         ls_action l = TOKENIZE \<and> de_entity_type e = ls_entity_type l
         \<and> normalize U (ls_entity_type l) (span_text bob_analyzed l) = normalize U (ls_entity_type l) (slice (lit ''a Bob!'') (de_start e) (de_end e))
         \<longrightarrow> (\<exists>token. rs ! i = Some token \<and> rs2 ! j = Some token)" by blast
  have "\<exists>token. rs ! 0 = Some token \<and> rs2 ! 0 = Some token"
    using share by (simp add: bob_analyzed_def sample_entities_def sample_span_def span_text_def bob_document_def)
  moreover have "xd_text (sd_document (an_segmented bob_analyzed)) = lit ''a Bob!''" "map ls_action (an_spans bob_analyzed) = [TOKENIZE]"
    by (simp_all add: bob_analyzed_def bob_document_def)
  ultimately show ?thesis using p r by (simp only: bob_detections) blast
qed

end
