(* ===== verification/Preview.thy ===== *)
theory Preview
  imports Grammar Domain
begin

text \<open>
  The masked rendering of what a provider was sent, \<^verbatim>\<open>app/pipeline/preview.py\<close>. \<open>regex_sub\<close> is
  \<open>re.sub\<close> for a pattern given by its match at the start of a text, and \<open>regex_finds\<close> is
  \<open>finditer\<close>; both patterns match at least one character.
\<close>

function regex_sub :: "(ustr \<Rightarrow> nat option) \<Rightarrow> (ustr \<Rightarrow> ustr) \<Rightarrow> ustr \<Rightarrow> ustr" where
  "regex_sub match replace [] = []"
| "regex_sub match replace (c # cs) =
     (case match (c # cs) of
        None \<Rightarrow> c # regex_sub match replace cs
      | Some n \<Rightarrow> replace (take n (c # cs)) @ regex_sub match replace (drop (n - 1) cs))"
  by pat_completeness auto
termination by (relation "measure (\<lambda>(m, r, s). length s)") auto

function regex_finds :: "(ustr \<Rightarrow> nat option) \<Rightarrow> ustr \<Rightarrow> ustr list" where
  "regex_finds match [] = []"
| "regex_finds match (c # cs) =
     (case match (c # cs) of
        None \<Rightarrow> regex_finds match cs
      | Some n \<Rightarrow> take n (c # cs) # regex_finds match (drop (n - 1) cs))"
  by pat_completeness auto
termination by (relation "measure (\<lambda>(m, s). length s)") auto

definition MASK :: ustr where "MASK = replicate 4 0x2022"
definition MAX_PREVIEW_CHARS :: nat where "MAX_PREVIEW_CHARS = 600"
definition TRUNCATION_SUFFIX :: ustr where "TRUNCATION_SUFFIX = [32, 0x2026]"

text \<open>\<open>_REDACTION_PATTERN\<close>: the character class does not contain the delimiter that ends it.\<close>

definition redaction_match :: "ustr \<Rightarrow> nat option" where
  "redaction_match s =
     (let opening = LEFT_DELIMITER # NAMESPACE @ [FIELD_SEPARATOR] @ REDACTED_MARKER @ [FIELD_SEPARATOR] in
      if \<not> startswith s opening then None
      else (let s1 = drop (length opening) s; entity_type = takeWhile is_entity_char s1
            in if 1 \<le> length entity_type \<and> length entity_type \<le> 64
                  \<and> startswith (drop (length entity_type) s1) [RIGHT_DELIMITER]
               then Some (length opening + length entity_type + 1) else None))"

text \<open>\<open>match.group('entity_type')\<close> of the two patterns.\<close>

definition token_entity_type :: "ustr \<Rightarrow> ustr" where
  "token_entity_type matched = takeWhile is_entity_char (drop 5 matched)"

definition redaction_entity_type :: "ustr \<Rightarrow> ustr" where
  "redaction_entity_type matched = takeWhile is_entity_char (drop 14 matched)"

definition mask_token :: "ustr \<Rightarrow> ustr" where
  "mask_token matched = LEFT_DELIMITER # token_entity_type matched @ FIELD_SEPARATOR # MASK @ [RIGHT_DELIMITER]"

definition mask_redaction :: "ustr \<Rightarrow> ustr" where
  "mask_redaction matched =
     LEFT_DELIMITER # redaction_entity_type matched @ FIELD_SEPARATOR # lit ''REDACTED'' @ [RIGHT_DELIMITER]"

definition mask_tokens :: "ustr \<Rightarrow> ustr" where
  "mask_tokens txt = regex_sub redaction_match mask_redaction (regex_sub regex_match mask_token txt)"

text \<open>\<open>rfind\<close> of one character over the whole text; \<open>-1\<close> when there is none.\<close>

definition rfind_char :: "ustr \<Rightarrow> uchar \<Rightarrow> int" where
  "rfind_char s c = (case py_rfind s [c] 0 (length s) of None \<Rightarrow> -1 | Some i \<Rightarrow> int i)"

definition rstrip :: "ucd \<Rightarrow> ustr \<Rightarrow> ustr" where
  "rstrip U s = rev (lstrip U (rev s))"

definition truncate_preview :: "ucd \<Rightarrow> nat \<Rightarrow> ustr \<Rightarrow> ustr" where
  "truncate_preview U limit txt =
     (if length txt \<le> limit then txt
      else let cut = take limit txt;
               opened = rfind_char cut LEFT_DELIMITER;
               closed = rfind_char cut RIGHT_DELIMITER;
               kept = (if opened > closed then take (nat opened) cut else cut)
           in rstrip U kept @ TRUNCATION_SUFFIX)"

definition preview_of :: "ucd \<Rightarrow> ustr list \<Rightarrow> ustr" where
  "preview_of U messages =
     truncate_preview U MAX_PREVIEW_CHARS (mask_tokens (strip U (join_with [10, 10] messages)))"

text \<open>\<open>ProtectedEntitySummary\<close> and \<open>applied_actions\<close>.\<close>

record entity_summary =
  es_entity_type :: ustr
  es_count :: nat
  es_action :: ustr

definition count_message :: "ustr \<Rightarrow> ((ustr \<times> ustr) \<times> nat) list \<Rightarrow> ((ustr \<times> ustr) \<times> nat) list" where
  "count_message message counts =
     fold (\<lambda>m. dict_incr (redaction_entity_type m, lit ''redact'') 1) (regex_finds redaction_match message)
       (fold (\<lambda>m. dict_incr (token_entity_type m, lit ''tokenize'') 1) (regex_finds regex_match message) counts)"

definition applied_actions :: "ustr list \<Rightarrow> entity_summary list" where
  "applied_actions messages =
     map (\<lambda>((entity_type, action), count). \<lparr>es_entity_type = entity_type, es_count = count, es_action = action\<rparr>)
       (sort_key (\<lambda>((entity_type, action), count). (- int count, entity_type)) (fold count_message messages []))"

record protected_preview =
  pp_text :: "ustr option"
  pp_entity_summary :: "entity_summary list"
  pp_outbound_scan :: ustr
  pp_truncated :: bool

definition OUTBOUND_SCAN_PASSED :: ustr where "OUTBOUND_SCAN_PASSED = lit ''passed''"

section \<open>No token survives the masking\<close>

definition token_free :: "ustr \<Rightarrow> bool" where
  "token_free s \<longleftrightarrow> (\<forall>i. regex_match (drop i s) = None)"

lemma token_free_Nil [simp]: "token_free []"
  by (simp add: token_free_def)

lemma token_free_Cons: "token_free (c # cs) \<longleftrightarrow> regex_match (c # cs) = None \<and> token_free cs"
proof
  assume "token_free (c # cs)"
  then show "regex_match (c # cs) = None \<and> token_free cs"
    unfolding token_free_def by (metis drop0 drop_Suc_Cons)
next
  assume a: "regex_match (c # cs) = None \<and> token_free cs"
  show "token_free (c # cs)" unfolding token_free_def
  proof
    fix i show "regex_match (drop i (c # cs)) = None" using a by (cases i) (auto simp: token_free_def)
  qed
qed

lemma token_free_drop: "token_free s \<Longrightarrow> token_free (drop i s)"
  by (simp add: token_free_def)

lemma find_tokens_token_free: "token_free s \<Longrightarrow> find_tokens s = []"
proof -
  have "token_free s \<Longrightarrow> scan_from p s = []" for p
    by (induction p s rule: scan_from.induct) (auto simp: token_free_Cons)
  then show "token_free s \<Longrightarrow> find_tokens s = []" by (simp add: find_tokens_def List.map_filter_def)
qed

text \<open>A match depends only on the characters it covers, none of which but the first is a left delimiter.\<close>

lemma regex_match_prefix:
  assumes "regex_match (a @ b) = Some n" "n \<le> length a"
  shows "regex_match (a @ b') = Some n"
proof -
  obtain e t r where r: "render_ok e t" "a @ b = render_token e t @ r" "n = length (render_token e t)"
    using regex_match_Some[OF assms(1)] .
  then have "a = render_token e t @ drop n a" using assms(2)
    by (metis append_eq_append_conv_if append_take_drop_id)
  then have "a @ b' = render_token e t @ (drop n a @ b')" by (metis append.assoc)
  then show ?thesis using regex_match_render[OF r(1), of "drop n a @ b'"] r(3) by argo
qed

lemma regex_match_no_left:
  assumes "regex_match s = Some n" "0 < i" "i < n"
  shows "s ! i \<noteq> LEFT_DELIMITER"
proof -
  obtain e t r where r: "render_ok e t" "s = render_token e t @ r" "n = length (render_token e t)"
    using regex_match_Some[OF assms(1)] .
  then show ?thesis using render_tail_no_left[OF r(1) assms(2)] assms(3) by (simp add: nth_append)
qed

lemma token_free_prefix: "token_free (a @ b) \<Longrightarrow> token_free a"
proof (rule ccontr)
  assume s: "token_free (a @ b)" and "\<not> token_free a"
  then obtain i n where m: "regex_match (drop i a) = Some n" by (auto simp: token_free_def)
  then have "i < length a" by (cases "i < length a") auto
  moreover have "regex_match (drop i a @ b) = Some n"
    using regex_match_prefix[of "drop i a" "[]" n b] m regex_match_length[OF m] by simp
  ultimately have "regex_match (drop i (a @ b)) = Some n" by simp
  then show False using s by (simp add: token_free_def)
qed

lemma regex_match_not_left: "c \<noteq> LEFT_DELIMITER \<Longrightarrow> regex_match (c # cs) = None"
  by (cases "regex_match (c # cs)") (auto dest: regex_match_hd)

lemma token_free_take: "token_free s \<Longrightarrow> token_free (take k s)"
  using token_free_prefix[of "take k s" "drop k s"] by simp

lemma token_free_no_left: "LEFT_DELIMITER \<notin> set a \<Longrightarrow> token_free b \<Longrightarrow> token_free (a @ b)"
  by (induction a) (auto simp: token_free_Cons regex_match_not_left)

lemma dropWhile_until: "x \<notin> set xs \<Longrightarrow> dropWhile (\<lambda>c. c \<noteq> x) (xs @ x # ys) = x # ys"
  by (induction xs) auto

text \<open>A mask is not a token and does not begin one: after its type and colon no type follows.\<close>

lemma mask_not_token:
  assumes "FIELD_SEPARATOR \<notin> set ty" "dropWhile is_entity_char ys = x # xs" "x \<noteq> FIELD_SEPARATOR"
  shows "regex_match (LEFT_DELIMITER # ty @ FIELD_SEPARATOR # ys) = None"
proof (rule ccontr)
  assume "\<not> ?thesis"
  then obtain n where "regex_match (LEFT_DELIMITER # ty @ FIELD_SEPARATOR # ys) = Some n" by auto
  then obtain e t r where r: "render_ok e t" "LEFT_DELIMITER # ty @ FIELD_SEPARATOR # ys = render_token e t @ r"
    by (rule regex_match_Some)
  let ?zs = "e @ FIELD_SEPARATOR # t @ RIGHT_DELIMITER # r"
  from r(2) have "ty @ FIELD_SEPARATOR # ys = NAMESPACE @ FIELD_SEPARATOR # ?zs" by (simp add: render_token_def)
  from arg_cong[OF this, of "dropWhile (\<lambda>c. c \<noteq> FIELD_SEPARATOR)"]
  have "ys = ?zs"
    unfolding dropWhile_until[OF assms(1)] dropWhile_until[OF namespace_simps(1)] by blast
  moreover have "\<forall>c \<in> set e. is_entity_char c" using r(1) by (simp add: render_ok_def list_all_iff)
  then have "dropWhile is_entity_char ?zs = FIELD_SEPARATOR # t @ RIGHT_DELIMITER # r"
    using entity_char_not_special by (auto simp: dropWhile_append2)
  ultimately show False using assms(2,3) by simp
qed

lemma sub_keeps_prefix:
  assumes "\<And>t n. match t = Some n \<Longrightarrow> \<exists>body. replace (take n t) = LEFT_DELIMITER # body"
  shows "k \<le> length (regex_sub match replace s) \<Longrightarrow> LEFT_DELIMITER \<notin> set (take k (regex_sub match replace s)) \<Longrightarrow>
    take k s = take k (regex_sub match replace s) \<and> k \<le> length s"
proof (induction s arbitrary: k rule: length_induct)
  case (1 s)
  show ?case
  proof (cases s)
    case (Cons c cs)
    show ?thesis
    proof (cases "match (c # cs)")
      case None
      then show ?thesis using 1 Cons by (cases k) auto
    next
      case (Some n)
      then obtain body where "replace (take n (c # cs)) = LEFT_DELIMITER # body" using assms by blast
      then show ?thesis using 1 Cons Some by (cases k) auto
    qed
  qed (use 1 in auto)
qed

lemma regex_sub_token_free:
  assumes rep: "\<And>t n. match t = Some n \<Longrightarrow> \<exists>body. replace (take n t) = LEFT_DELIMITER # body
      \<and> LEFT_DELIMITER \<notin> set body \<and> (\<forall>rest. regex_match (LEFT_DELIMITER # body @ rest) = None)"
  shows "(\<And>i. i < length s \<Longrightarrow> match (drop i s) = None \<Longrightarrow> regex_match (drop i s) = None) \<Longrightarrow>
    token_free (regex_sub match replace s)"
proof (induction s rule: length_induct)
  case (1 s)
  show ?case
  proof (cases s)
    case (Cons c cs)
    have rest: "token_free (regex_sub match replace (drop j cs))" for j
      using 1(1)[rule_format, of "drop j cs"] 1(2)[of "Suc (j + i)" for i] Cons
      by (auto simp: add.commute)
    show ?thesis
    proof (cases "match (c # cs)")
      case None
      let ?o = "regex_sub match replace cs"
      have "regex_match (c # ?o) = None"
      proof (rule ccontr)
        assume "regex_match (c # ?o) \<noteq> None"
        then obtain n where n: "regex_match (c # ?o) = Some n" by auto
        note len = regex_match_length[OF n] regex_match_pos[OF n]
        have "LEFT_DELIMITER \<notin> set (take (n - 1) ?o)"
          using regex_match_no_left[OF n, of "Suc i" for i] len
          by (fastforce simp: in_set_conv_nth)
        then have "take (n - 1) cs = take (n - 1) ?o"
          using sub_keeps_prefix[of match replace "n - 1" cs] rep len by fastforce
        then have "c # cs = (c # take (n - 1) ?o) @ drop (n - 1) cs"
          "c # ?o = (c # take (n - 1) ?o) @ drop (n - 1) ?o"
          by (metis append_Cons append_take_drop_id)+
        then have "regex_match (c # cs) = Some n"
          using regex_match_prefix[of "c # take (n - 1) ?o" "drop (n - 1) ?o" n "drop (n - 1) cs"] n len by simp
        then show False using 1(2)[of 0] None Cons by simp
      qed
      then show ?thesis using None Cons rest[of 0] by (simp add: token_free_Cons)
    next
      case (Some n)
      then obtain body where b: "replace (take n (c # cs)) = LEFT_DELIMITER # body" "LEFT_DELIMITER \<notin> set body"
        "\<forall>rest. regex_match (LEFT_DELIMITER # body @ rest) = None" using rep by blast
      then show ?thesis using Some Cons token_free_no_left[OF b(2) rest[of "n - 1"]]
        by (simp add: token_free_Cons)
    qed
  qed simp
qed

lemma entity_chars_special:
  "list_all is_entity_char e \<Longrightarrow> FIELD_SEPARATOR \<notin> set e \<and> LEFT_DELIMITER \<notin> set e"
  using entity_char_not_special by (auto simp: list_all_iff)

lemma takeWhile_entity: "list_all is_entity_char (takeWhile is_entity_char s)"
  by (auto simp: list_all_iff dest: set_takeWhileD)

lemma mask_token_shape:
  "\<exists>body. mask_token w = LEFT_DELIMITER # body \<and> LEFT_DELIMITER \<notin> set body
     \<and> (\<forall>rest. regex_match (LEFT_DELIMITER # body @ rest) = None)"
proof -
  let ?ty = "token_entity_type w"
  have ty: "FIELD_SEPARATOR \<notin> set ?ty \<and> LEFT_DELIMITER \<notin> set ?ty"
    unfolding token_entity_type_def by (rule entity_chars_special[OF takeWhile_entity])
  have "regex_match (LEFT_DELIMITER # ?ty @ FIELD_SEPARATOR # MASK @ RIGHT_DELIMITER # rest) = None" for rest
    by (rule mask_not_token[OF ty[THEN conjunct1], of _ "0x2022" "tl MASK @ RIGHT_DELIMITER # rest"])
       (simp_all add: MASK_def is_entity_char_def ascii_defs grammar_consts numeral_eq_Suc)
  then show ?thesis using ty
    by (intro exI[of _ "?ty @ FIELD_SEPARATOR # MASK @ [RIGHT_DELIMITER]"])
       (auto simp: mask_token_def MASK_def grammar_consts)
qed

lemma mask_redaction_shape:
  "\<exists>body. mask_redaction w = LEFT_DELIMITER # body \<and> LEFT_DELIMITER \<notin> set body
     \<and> (\<forall>rest. regex_match (LEFT_DELIMITER # body @ rest) = None)"
proof -
  let ?ty = "redaction_entity_type w"
  have ty: "FIELD_SEPARATOR \<notin> set ?ty \<and> LEFT_DELIMITER \<notin> set ?ty"
    unfolding redaction_entity_type_def by (rule entity_chars_special[OF takeWhile_entity])
  have "regex_match (LEFT_DELIMITER # ?ty @ FIELD_SEPARATOR # lit ''REDACTED'' @ RIGHT_DELIMITER # rest) = None" for rest
    by (rule mask_not_token[OF ty[THEN conjunct1], of _ RIGHT_DELIMITER rest])
       (simp_all add: is_entity_char_def ascii_defs grammar_consts)
  then show ?thesis using ty
    by (intro exI[of _ "?ty @ FIELD_SEPARATOR # lit ''REDACTED'' @ [RIGHT_DELIMITER]"])
       (auto simp: mask_redaction_def grammar_consts)
qed

lemma mask_tokens_token_free: "token_free (mask_tokens txt)"
proof -
  have "token_free (regex_sub regex_match mask_token txt)"
    by (rule regex_sub_token_free) (use mask_token_shape in auto)
  then show ?thesis unfolding mask_tokens_def
    by (intro regex_sub_token_free) (use mask_redaction_shape in \<open>auto simp: token_free_def\<close>)
qed

lemma token_free_rstrip: "token_free s \<Longrightarrow> token_free (rstrip U s)"
proof -
  have "\<exists>t. s = rstrip U s @ t"
    unfolding rstrip_def lstrip_def by (metis rev_append rev_rev_ident takeWhile_dropWhile_id)
  then show "token_free s \<Longrightarrow> token_free (rstrip U s)" using token_free_prefix by metis
qed

text \<open>A text that ends in characters no token contains begins no new match.\<close>

lemma token_free_append_other:
  assumes "token_free s" "LEFT_DELIMITER \<notin> set t" "RIGHT_DELIMITER \<notin> set t"
  shows "token_free (s @ t)"
proof (rule ccontr)
  assume "\<not> token_free (s @ t)"
  then obtain i n where m: "regex_match (drop i (s @ t)) = Some n" by (auto simp: token_free_def)
  have i: "i < length s"
  proof (rule ccontr)
    assume "\<not> i < length s"
    then have "drop (i - length s) t \<noteq> []" "hd (drop (i - length s) t) = LEFT_DELIMITER"
      using regex_match_hd[OF m] by simp_all
    then show False using assms(2) set_drop_subset by (metis hd_in_set subsetD)
  qed
  obtain e tk r where r: "render_ok e tk" "drop i s @ t = render_token e tk @ r" "n = length (render_token e tk)"
    using regex_match_Some[OF m] i by (metis drop_append diff_is_0_eq drop_0 less_imp_le)
  have "n \<le> length (drop i s)"
  proof (rule ccontr)
    assume "\<not> n \<le> length (drop i s)"
    then have longer: "length (drop i s) < length (render_token e tk)" using r(3) by simp
    obtain u where "drop i s = render_token e tk @ u \<or> drop i s @ u = render_token e tk \<and> t = u @ r"
      using r(2) unfolding append_eq_append_conv2 by blast
    moreover from longer have "drop i s \<noteq> render_token e tk @ u" by (metis length_append not_add_less1)
    ultimately have u: "render_token e tk = drop i s @ u" "t = u @ r" by simp_all
    from u(1) longer have "u \<noteq> []" by (metis append_Nil2 less_irrefl)
    with u have "last (render_token e tk) \<in> set t" by simp
    then show False using assms(3) by (simp add: render_token_def)
  qed
  then have "regex_match (drop i s) = Some n" using regex_match_prefix[of "drop i s" t n "[]"] m i by simp
  then show False using assms(1) by (simp add: token_free_def)
qed

text \<open>
  A preview never discloses a token: whatever the protected messages hold, no part of the text
  handed to the caller is one of the gateway's tokens, or matches their pattern, so no identifier
  in it can be presented to the vault; and the text is at most two characters longer than the
  limit.
\<close>

theorem preview_token_free:
  "find_tokens (preview_of U messages) = [] \<and> (\<forall>i. regex_match (drop i (preview_of U messages)) = None)
    \<and> length (preview_of U messages) \<le> MAX_PREVIEW_CHARS + 2"
proof -
  let ?m = "mask_tokens (strip U (join_with [10, 10] messages))"
  have cut: "token_free (rstrip U kept @ TRUNCATION_SUFFIX)" if "token_free kept" for kept
    by (rule token_free_append_other[OF token_free_rstrip[OF that]])
       (simp_all add: TRUNCATION_SUFFIX_def grammar_consts)
  have "token_free (preview_of U messages)"
    using cut token_free_take[OF mask_tokens_token_free] token_free_take[OF token_free_take[OF mask_tokens_token_free]]
      mask_tokens_token_free
    by (simp add: preview_of_def truncate_preview_def Let_def del: take_take)
  moreover have "length kept \<le> n \<Longrightarrow> length (rstrip U kept) \<le> n" for kept n
    by (simp add: rstrip_def lstrip_def length_dropWhile_le[THEN order_trans])
  then have "length (preview_of U messages) \<le> MAX_PREVIEW_CHARS + 2"
    by (auto simp: preview_of_def truncate_preview_def Let_def TRUNCATION_SUFFIX_def)
  ultimately show ?thesis using find_tokens_token_free by (simp add: token_free_def)
qed

end
