(* ===== verification/Pipeline.thy ===== *)
theory Pipeline
  imports Outbound Audit_Trail Preview Memory_Vault
begin

text \<open>
  The path of one chat request, \<^verbatim>\<open>app/pipeline\<close>: admission and identity (\<^verbatim>\<open>session.py\<close>,
  \<^verbatim>\<open>context.py\<close>), the whole-request guards (\<^verbatim>\<open>guards.py\<close>), the failure translation of a stage
  (\<^verbatim>\<open>stages.py\<close>), what leaves (\<^verbatim>\<open>reporting.py\<close>) and the service that orders them (\<^verbatim>\<open>service.py\<close>),
  over the models of policy, tokenizer, outbound gateway, restoration and audit.

  An awaitable that the request deadline cancels ends with \<open>TimeoutError\<close> and whatever state it
  left: the deadline itself and the semaphore around provider calls are part of the operations
  given to \<open>run_stage\<close>. Request ids, fresh session ids and clocks are arguments.
\<close>

section \<open>Admission\<close>

definition NIL_SESSION_ID :: uuid where "NIL_SESSION_ID = 0"

definition resolve_session_id :: "uuid \<Rightarrow> uuid option \<Rightarrow> uuid res" where
  "resolve_session_id fresh requested =
     (case requested of
        None \<Rightarrow> Inr fresh
      | Some u \<Rightarrow> if u = NIL_SESSION_ID then Inl (GatewayError INVALID_REQUEST ''session_id_must_not_be_nil'') else Inr u)"

definition PIPELINE_OVERHEAD_BUDGET_SECONDS :: rat where "PIPELINE_OVERHEAD_BUDGET_SECONDS = 15"
definition DEFAULT_LANGUAGE :: ustr where "DEFAULT_LANGUAGE = lit ''en''"
definition DEFAULT_MAX_CONCURRENT_PROVIDER_CALLS :: int where "DEFAULT_MAX_CONCURRENT_PROVIDER_CALLS = 16"

definition default_timeout_seconds :: "rat \<Rightarrow> rat \<Rightarrow> nat \<Rightarrow> rat" where
  "default_timeout_seconds connect_timeout read_timeout max_retries =
     overall_deadline_seconds connect_timeout read_timeout max_retries DEFAULT_RETRY_BACKOFF_BASE_SECONDS
       + PIPELINE_OVERHEAD_BUDGET_SECONDS"

record pipeline_config =
  pc_timeout_seconds :: rat
  pc_max_concurrent_provider_calls :: int

definition mk_pipeline_config :: "rat \<Rightarrow> int \<Rightarrow> pipeline_config res" where
  "mk_pipeline_config timeout_seconds max_calls =
     (if timeout_seconds \<le> 0 then Inl ValueError
      else if max_calls < 1 then Inl ValueError
      else Inr \<lparr>pc_timeout_seconds = timeout_seconds, pc_max_concurrent_provider_calls = max_calls\<rparr>)"

definition pipeline_config_from_settings :: "rat \<Rightarrow> rat \<Rightarrow> nat \<Rightarrow> int \<Rightarrow> pipeline_config res" where
  "pipeline_config_from_settings connect_timeout read_timeout max_retries max_calls =
     mk_pipeline_config (default_timeout_seconds connect_timeout read_timeout max_retries) max_calls"

record pipeline_attempt =
  pa_request_id :: uuid
  pa_principal :: principal
  pa_session_id :: uuid
  pa_provider_alias :: ustr
  pa_model_alias :: ustr
  pa_started_at :: int
  pa_started_clock :: rat
  pa_deadline :: rat

text \<open>What admission draws: the request id, a fresh session id and the wall clock.\<close>

record admission =
  ad_request_id :: uuid
  ad_fresh_session :: uuid
  ad_started_at :: int

definition begin_pipeline_attempt :: "admission \<Rightarrow> chat_request \<Rightarrow> principal \<Rightarrow> uuid \<Rightarrow> rat \<Rightarrow> rat \<Rightarrow> pipeline_attempt" where
  "begin_pipeline_attempt adm request caller session_id clock_now timeout_seconds =
     \<lparr>pa_request_id = ad_request_id adm, pa_principal = caller, pa_session_id = session_id,
      pa_provider_alias = cr_provider request, pa_model_alias = cr_model request,
      pa_started_at = ad_started_at adm, pa_started_clock = clock_now, pa_deadline = clock_now + timeout_seconds\<rparr>"

definition elapsed_ms :: "pipeline_attempt \<Rightarrow> rat \<Rightarrow> nat" where
  "elapsed_ms attempt clock_now = nat \<lfloor>(clock_now - pa_started_clock attempt) * 1000\<rfloor>"

definition with_policy :: "pipeline_attempt \<Rightarrow> policy_snapshot \<Rightarrow> request_context" where
  "with_policy attempt snapshot =
     \<lparr>rc_request_id = pa_request_id attempt, rc_principal = pa_principal attempt, rc_session_id = pa_session_id attempt,
      rc_policy_version = sn_version snapshot, rc_diagnostics_enabled = False\<rparr>"

section \<open>Guards\<close>

fun enforce_message_sizes :: "nat \<Rightarrow> chat_message list \<Rightarrow> unit res" where
  "enforce_message_sizes max_chars [] = Inr ()"
| "enforce_message_sizes max_chars (m # ms) =
     (if max_chars < length (cm_content m) then Inl (GatewayError REQUEST_TOO_LARGE ''message_too_long'')
      else enforce_message_sizes max_chars ms)"

definition entity_budget :: "policy_snapshot \<Rightarrow> int \<Rightarrow> int" where
  "entity_budget policy deployment_max_entities = min (sn_max_entities policy) deployment_max_entities"

text \<open>\<open>zip(..., strict=True)\<close> raises when one list is longer.\<close>

fun select_request_entities :: "chat_message list \<Rightarrow> detected_entity list list \<Rightarrow> policy_snapshot \<Rightarrow>
    detected_entity list list res" where
  "select_request_entities [] [] policy = Inr []"
| "select_request_entities (m # ms) (es # detections) policy =
     bindR (select_entities (cm_content m) es (policy_view policy)) (\<lambda>selected.
       bindR (select_request_entities ms detections policy) (\<lambda>rest. Inr (selected # rest)))"
| "select_request_entities _ _ policy = Inl ValueError"

definition enforce_entity_budget :: "detected_entity list list \<Rightarrow> int \<Rightarrow> int res" where
  "enforce_entity_budget selections budget =
     (let total = int (sum_list (map length selections))
      in if budget < total then Inl (GatewayError ENTITY_LIMIT_EXCEEDED ''request_entity_budget_exceeded'') else Inr total)"

definition validate_provider_response :: "provider_response \<Rightarrow> provider_response res" where
  "validate_provider_response response =
     (if pv_content response = None then Inl (GatewayError PROVIDER_RESPONSE_INVALID ''content_not_text'') else Inr response)"

definition reject_blocked_entities :: "detected_entity list list \<Rightarrow> policy_snapshot \<Rightarrow> unit res" where
  "reject_blocked_entities selections policy =
     (if list_ex (list_ex (\<lambda>e. action_for policy (de_entity_type e) = BLOCK)) selections
      then Inl (GatewayError POLICY_VIOLATION ''policy_blocked_entity'') else Inr ())"

section \<open>Stages\<close>

definition run_stage :: "error_code \<Rightarrow> error_code \<Rightarrow> ('s, 'a) op \<Rightarrow> ('s, 'a) op" where
  "run_stage error_type timeout_type stage = catchS stage (\<lambda>e. case e of
       GatewayError c r \<Rightarrow> None
     | Diverges \<Rightarrow> None
     | TimeoutError \<Rightarrow> Some (liftS (Inl (GatewayError timeout_type ''deadline_exceeded'')))
     | _ \<Rightarrow> Some (liftS (Inl (GatewayError error_type ''stage_failed''))))"

section \<open>The pipeline and the world it runs in\<close>

record ('p, 'v, 'o, 'a) world =
  wd_policy :: "'p policy_service"
  wd_vault :: 'v
  wd_outside :: 'o
  wd_audit :: 'a

record ('raw, 'p, 'v, 'o, 'a) pipeline =
  sp_decode :: "'raw decoder"
  sp_get_active :: "('p, 'raw) active_policy_source"
  sp_cache_ttl :: rat
  sp_detect :: detector
  sp_env :: tok_env
  sp_vault :: "'v vault_ops"
  sp_gateway :: "'o outbound_gateway"
  sp_max_output_chars :: nat
  sp_audit :: "audit_fields \<Rightarrow> ('a, unit) op"
  sp_time :: "('p, 'v, 'o, 'a) world \<Rightarrow> rat"
  sp_config :: pipeline_config
  sp_max_message_chars :: nat
  sp_max_entities_per_request :: int
  sp_audit_fail_closed :: bool
  sp_preview_enabled :: bool

definition on_policy :: "('p policy_service, 'b) op \<Rightarrow> (('p, 'v, 'o, 'a) world, 'b) op" where
  "on_policy f w = (case f (wd_policy w) of (r, p) \<Rightarrow> (r, w\<lparr>wd_policy := p\<rparr>))"

definition on_vault :: "('v, 'b) op \<Rightarrow> (('p, 'v, 'o, 'a) world, 'b) op" where
  "on_vault f w = (case f (wd_vault w) of (r, v) \<Rightarrow> (r, w\<lparr>wd_vault := v\<rparr>))"

definition on_outside :: "('o, 'b) op \<Rightarrow> (('p, 'v, 'o, 'a) world, 'b) op" where
  "on_outside f w = (case f (wd_outside w) of (r, o') \<Rightarrow> (r, w\<lparr>wd_outside := o'\<rparr>))"

definition on_audit :: "('a, 'b) op \<Rightarrow> (('p, 'v, 'o, 'a) world, 'b) op" where
  "on_audit f w = (case f (wd_audit w) of (r, a) \<Rightarrow> (r, w\<lparr>wd_audit := a\<rparr>))"

section \<open>What leaves\<close>

record request_outcome =
  rq_status_code :: int
  rq_counts :: privacy_summary
  rq_input_character_count :: nat
  rq_output_character_count :: nat
  rq_provider_latency_ms :: "nat option"
  rq_pipeline_latency_ms :: "nat option"
  rq_error_code :: "error_code option"
  rq_blocked :: bool
  rq_prompt_hmac :: "ustr option"
  rq_response_hmac :: "ustr option"
  rq_outbound_hmac :: "ustr option"
  rq_outbound_scan :: "ustr option"

record chat_response =
  ch_request_id :: uuid
  ch_session_id :: uuid
  ch_provider :: ustr
  ch_model :: ustr
  ch_message :: chat_message
  ch_privacy :: privacy_summary
  ch_usage :: "provider_usage option"
  ch_protected_preview :: "protected_preview option"

fun verdict_value :: "scan_verdict \<Rightarrow> ustr" where
  "verdict_value CLEAN = lit ''clean''"
| "verdict_value BLOCKED = lit ''blocked''"

text \<open>\<open>str(error.code)\<close> is the member's name.\<close>

fun error_code_value :: "error_code \<Rightarrow> ustr" where
  "error_code_value AUTHENTICATION_REQUIRED = lit ''AUTHENTICATION_REQUIRED''"
| "error_code_value AUTHENTICATION_FAILED = lit ''AUTHENTICATION_FAILED''"
| "error_code_value AUTHORIZATION_FAILED = lit ''AUTHORIZATION_FAILED''"
| "error_code_value RATE_LIMIT_EXCEEDED = lit ''RATE_LIMIT_EXCEEDED''"
| "error_code_value REQUEST_TOO_LARGE = lit ''REQUEST_TOO_LARGE''"
| "error_code_value INVALID_REQUEST = lit ''INVALID_REQUEST''"
| "error_code_value UNSUPPORTED_LANGUAGE = lit ''UNSUPPORTED_LANGUAGE''"
| "error_code_value POLICY_NOT_FOUND = lit ''POLICY_NOT_FOUND''"
| "error_code_value POLICY_VIOLATION = lit ''POLICY_VIOLATION''"
| "error_code_value ENTITY_LIMIT_EXCEEDED = lit ''ENTITY_LIMIT_EXCEEDED''"
| "error_code_value PRIVACY_DETECTOR_UNAVAILABLE = lit ''PRIVACY_DETECTOR_UNAVAILABLE''"
| "error_code_value VAULT_UNAVAILABLE = lit ''VAULT_UNAVAILABLE''"
| "error_code_value VAULT_ENCRYPTION_FAILED = lit ''VAULT_ENCRYPTION_FAILED''"
| "error_code_value PROVIDER_NOT_ALLOWED = lit ''PROVIDER_NOT_ALLOWED''"
| "error_code_value MODEL_NOT_ALLOWED = lit ''MODEL_NOT_ALLOWED''"
| "error_code_value PROVIDER_TIMEOUT = lit ''PROVIDER_TIMEOUT''"
| "error_code_value PROVIDER_UNAVAILABLE = lit ''PROVIDER_UNAVAILABLE''"
| "error_code_value PROVIDER_RESPONSE_INVALID = lit ''PROVIDER_RESPONSE_INVALID''"
| "error_code_value RESTORATION_FAILED = lit ''RESTORATION_FAILED''"
| "error_code_value AUDIT_UNAVAILABLE = lit ''AUDIT_UNAVAILABLE''"
| "error_code_value DOCUMENT_NOT_FOUND = lit ''DOCUMENT_NOT_FOUND''"
| "error_code_value DOCUMENT_TOO_LARGE = lit ''DOCUMENT_TOO_LARGE''"
| "error_code_value DOCUMENT_TYPE_UNSUPPORTED = lit ''DOCUMENT_TYPE_UNSUPPORTED''"
| "error_code_value DOCUMENT_INVALID = lit ''DOCUMENT_INVALID''"
| "error_code_value DOCUMENT_STORAGE_UNAVAILABLE = lit ''DOCUMENT_STORAGE_UNAVAILABLE''"
| "error_code_value DOCUMENT_ENCRYPTION_FAILED = lit ''DOCUMENT_ENCRYPTION_FAILED''"
| "error_code_value DOCUMENT_EXTRACTION_FAILED = lit ''DOCUMENT_EXTRACTION_FAILED''"
| "error_code_value DOCUMENT_EXTRACTION_TIMEOUT = lit ''DOCUMENT_EXTRACTION_TIMEOUT''"
| "error_code_value INTERNAL_ERROR = lit ''INTERNAL_ERROR''"

definition audit_payload :: "pipeline_attempt \<Rightarrow> policy_snapshot option \<Rightarrow> request_outcome \<Rightarrow> audit_fields" where
  "audit_payload attempt snapshot outcome =
     \<lparr>af_record =
        \<lparr>ar_tenant_id = p_tenant_id (pa_principal attempt), ar_request_id = pa_request_id attempt,
         ar_status_code = rq_status_code outcome, ar_occurred_at = Some (Aware (pa_started_at attempt)),
         ar_api_key_id = Some (p_api_key_id (pa_principal attempt)), ar_session_id_hash = None,
         ar_policy_id = map_option sn_policy_id snapshot, ar_policy_version = map_option (int \<circ> sn_version) snapshot,
         ar_provider_alias = Some (pa_provider_alias attempt), ar_model_alias = Some (pa_model_alias attempt),
         ar_input_character_count = int (rq_input_character_count outcome),
         ar_output_character_count = int (rq_output_character_count outcome),
         ar_entity_counts = map (\<lambda>(t, n). (t, int n)) (ps_entity_types (rq_counts outcome)),
         ar_actions = action_counts (rq_counts outcome), ar_blocked = rq_blocked outcome, ar_block_reason_code = None,
         ar_provider_latency_ms = map_option int (rq_provider_latency_ms outcome),
         ar_pipeline_latency_ms = map_option int (rq_pipeline_latency_ms outcome),
         ar_error_code = map_option error_code_value (rq_error_code outcome),
         ar_prompt_hmac = rq_prompt_hmac outcome, ar_response_hmac = rq_response_hmac outcome,
         ar_outbound_hmac = rq_outbound_hmac outcome, ar_outbound_scan = rq_outbound_scan outcome\<rparr>,
      af_status_code = Some (rq_status_code outcome), af_session_id = Some (pa_session_id attempt)\<rparr>"

definition build_response :: "pipeline_attempt \<Rightarrow> restored_output \<Rightarrow> privacy_summary \<Rightarrow> protected_preview option \<Rightarrow>
    ustr option \<Rightarrow> chat_response" where
  "build_response attempt restored summary preview provider_alias =
     \<lparr>ch_request_id = pa_request_id attempt, ch_session_id = pa_session_id attempt,
      ch_provider = (case provider_alias of Some a \<Rightarrow> a | None \<Rightarrow> pa_provider_alias attempt),
      ch_model = pa_model_alias attempt,
      ch_message = \<lparr>cm_role = RAssistant, cm_content = ro_text restored\<rparr>,
      ch_privacy = summary, ch_usage = ro_usage restored, ch_protected_preview = preview\<rparr>"

definition record_outcome :: "('raw, 'p, 'v, 'o, 'a) pipeline \<Rightarrow> pipeline_attempt \<Rightarrow> policy_snapshot option \<Rightarrow> request_outcome \<Rightarrow>
    bool \<Rightarrow> (('p, 'v, 'o, 'a) world, unit) op" where
  "record_outcome P attempt snapshot outcome fail_closed =
     catchS (on_audit (run_stage INTERNAL_ERROR INTERNAL_ERROR (sp_audit P (audit_payload attempt snapshot outcome))))
       (\<lambda>e. case e of GatewayError c r \<Rightarrow> if fail_closed then None else Some (liftS (Inr ())) | _ \<Rightarrow> None)"

definition failure_outcome :: "error_code \<Rightarrow> nat \<Rightarrow> request_outcome" where
  "failure_outcome code latency =
     \<lparr>rq_status_code = int (status_code code), rq_counts = empty_summary, rq_input_character_count = 0,
      rq_output_character_count = 0, rq_provider_latency_ms = None, rq_pipeline_latency_ms = Some latency,
      rq_error_code = Some code, rq_blocked = (code = POLICY_VIOLATION), rq_prompt_hmac = None,
      rq_response_hmac = None, rq_outbound_hmac = None, rq_outbound_scan = None\<rparr>"

definition record_failure :: "('raw, 'p, 'v, 'o, 'a) pipeline \<Rightarrow> pipeline_attempt \<Rightarrow> policy_snapshot option \<Rightarrow> error_code \<Rightarrow>
    (('p, 'v, 'o, 'a) world, unit) op" where
  "record_failure P attempt snapshot code w =
     record_outcome P attempt snapshot (failure_outcome code (elapsed_ms attempt (sp_time P w))) False w"

section \<open>The service\<close>

definition begin_attempt :: "('raw, 'p, 'v, 'o, 'a) pipeline \<Rightarrow> admission \<Rightarrow> chat_request \<Rightarrow> principal \<Rightarrow> rat \<Rightarrow>
    pipeline_attempt res" where
  "begin_attempt P adm request caller clock_now =
     bindR (enforce_message_sizes (sp_max_message_chars P) (cr_messages request)) (\<lambda>_.
       bindR (resolve_session_id (ad_fresh_session adm) (cr_session_id request)) (\<lambda>session_id.
         Inr (begin_pipeline_attempt adm request caller session_id clock_now (pc_timeout_seconds (sp_config P)))))"

definition resolve_stage :: "('raw, 'p, 'v, 'o, 'a) pipeline \<Rightarrow> pipeline_attempt \<Rightarrow> (('p, 'v, 'o, 'a) world, policy_snapshot) op" where
  "resolve_stage P attempt w =
     on_policy (run_stage INTERNAL_ERROR INTERNAL_ERROR
       (resolve_policy (sp_decode P) (sp_get_active P) (sp_cache_ttl P) (sp_time P w)
          (p_tenant_id (pa_principal attempt)) (pa_provider_alias attempt) (pa_model_alias attempt))) w"

definition detect_stage :: "('raw, 'p, 'v, 'o, 'a) pipeline \<Rightarrow> chat_message list \<Rightarrow> (('p, 'v, 'o, 'a) world, detected_entity list list) op" where
  "detect_stage P messages = run_stage PRIVACY_DETECTOR_UNAVAILABLE PRIVACY_DETECTOR_UNAVAILABLE
     (liftS (traverseR (\<lambda>m. sp_detect P (cm_content m) DEFAULT_LANGUAGE) messages))"

definition guard_request :: "('raw, 'p, 'v, 'o, 'a) pipeline \<Rightarrow> chat_message list \<Rightarrow> detected_entity list list \<Rightarrow>
    policy_snapshot \<Rightarrow> unit res" where
  "guard_request P messages detections snapshot =
     bindR (select_request_entities messages detections snapshot) (\<lambda>selections.
       bindR (enforce_entity_budget selections (entity_budget snapshot (sp_max_entities_per_request P))) (\<lambda>_.
         reject_blocked_entities selections snapshot))"

text \<open>\<open>_tokenize\<close>: the loop with its variables \<open>messages\<close> and \<open>summary\<close>, then the protected request.\<close>

fun tokenize_loop :: "('raw, 'p, 'v, 'o, 'a) pipeline \<Rightarrow> request_context \<Rightarrow> policy_snapshot \<Rightarrow>
    (chat_message \<times> detected_entity list) list \<Rightarrow> chat_message list \<Rightarrow> privacy_summary \<Rightarrow>
    (('p, 'v, 'o, 'a) world, chat_message list \<times> privacy_summary) op" where
  "tokenize_loop P context snapshot [] messages summary = liftS (Inr (messages, summary))"
| "tokenize_loop P context snapshot ((m, es) # rest) messages summary =
     bindS (on_vault (run_stage VAULT_UNAVAILABLE VAULT_UNAVAILABLE
              (transform (sp_env P) (sp_vault P) (p_tenant_id (rc_principal context)) (rc_session_id context)
                 (cm_content m) es (policy_view snapshot)))) (\<lambda>transformed.
       tokenize_loop P context snapshot rest
         (messages @ [\<lparr>cm_role = cm_role m, cm_content = tt_text transformed\<rparr>])
         (merged_with summary (tt_summary transformed)))"

definition tokenize_stage :: "('raw, 'p, 'v, 'o, 'a) pipeline \<Rightarrow> chat_request \<Rightarrow> request_context \<Rightarrow> policy_snapshot \<Rightarrow>
    detected_entity list list \<Rightarrow> (('p, 'v, 'o, 'a) world, protected_chat_request \<times> privacy_summary) op" where
  "tokenize_stage P request context snapshot detections =
     (if length (cr_messages request) \<noteq> length detections then liftS (Inl ValueError)
      else bindS (tokenize_loop P context snapshot (zip (cr_messages request) detections) [] empty_summary)
        (\<lambda>(messages, summary).
          bindS (liftS (mk_protected_request
              \<lparr>pr_request_id = rc_request_id context, pr_tenant_id = p_tenant_id (rc_principal context),
               pr_session_id = rc_session_id context, pr_provider_alias = cr_provider request,
               pr_model_alias = cr_model request, pr_messages = messages, pr_policy_version = sn_version snapshot,
               pr_temperature = cr_temperature request, pr_max_output_tokens = cr_max_output_tokens request\<rparr>))
            (\<lambda>protected. liftS (Inr (protected, summary)))))"

text \<open>\<open>_complete\<close>: how the gateway awaits the adapter for this pipeline.\<close>

definition complete_stage :: "'o invoker" where
  "complete_stage adapter protected =
     bindS (run_stage PROVIDER_UNAVAILABLE PROVIDER_TIMEOUT (lp_complete adapter protected))
       (\<lambda>response. liftS (validate_provider_response response))"

definition transmit_stage :: "('raw, 'p, 'v, 'o, 'a) pipeline \<Rightarrow> policy_snapshot \<Rightarrow> protected_chat_request \<Rightarrow>
    (('p, 'v, 'o, 'a) world, transmission) op" where
  "transmit_stage P snapshot protected =
     bindS (on_outside (send (sp_gateway P) snapshot (Some complete_stage) protected)) (\<lambda>sent.
       case sent of Transmitted t \<Rightarrow> liftS (Inr t) | OutboundBlocked a \<Rightarrow> liftS (Inl blocked_error))"

definition restore_stage :: "('raw, 'p, 'v, 'o, 'a) pipeline \<Rightarrow> request_context \<Rightarrow> policy_snapshot \<Rightarrow> provider_response \<Rightarrow>
    (('p, 'v, 'o, 'a) world, restored_output) op" where
  "restore_stage P context snapshot response =
     on_vault (run_stage RESTORATION_FAILED RESTORATION_FAILED
       (restore (te_ucd (sp_env P)) (sp_vault P) (sp_max_output_chars P) (p_tenant_id (rc_principal context))
          (rc_session_id context) response (sn_unknown_output_token_action snapshot)))"

definition pipeline_preview :: "('raw, 'p, 'v, 'o, 'a) pipeline \<Rightarrow> protected_chat_request \<Rightarrow> protected_preview option" where
  "pipeline_preview P protected =
     (if \<not> sp_preview_enabled P then None
      else let messages = map cm_content (pr_messages protected); shown = preview_of (te_ucd (sp_env P)) messages
           in Some \<lparr>pp_text = Some shown, pp_entity_summary = applied_actions messages,
                    pp_outbound_scan = OUTBOUND_SCAN_PASSED, pp_truncated = endswith shown TRUNCATION_SUFFIX\<rparr>)"

definition run_request :: "('raw, 'p, 'v, 'o, 'a) pipeline \<Rightarrow> chat_request \<Rightarrow> pipeline_attempt \<Rightarrow> policy_snapshot \<Rightarrow>
    (('p, 'v, 'o, 'a) world, chat_response \<times> request_outcome) op" where
  "run_request P request attempt snapshot =
     (let context = with_policy attempt snapshot; G = sp_gateway P in
      bindS (liftS (registry_get (og_ucd G) (og_providers G) (pa_provider_alias attempt))) (\<lambda>_.
      bindS (detect_stage P (cr_messages request)) (\<lambda>detections.
      bindS (liftS (guard_request P (cr_messages request) detections snapshot)) (\<lambda>_.
      bindS (tokenize_stage P request context snapshot detections) (\<lambda>(protected, counted).
      bindS (transmit_stage P snapshot protected) (\<lambda>t.
      bindS (restore_stage P context snapshot (tr_response t)) (\<lambda>restored.
      bindS getS (\<lambda>w.
      bindS (liftS (gateway_response_digest G (p_tenant_id (pa_principal attempt)) (ro_text restored))) (\<lambda>response_hmac.
        let summary = merged_with counted (ro_summary restored) in
        liftS (Inr
          (build_response attempt restored summary (pipeline_preview P protected) (Some (tr_provider_alias t)),
           \<lparr>rq_status_code = 200, rq_counts = summary,
            rq_input_character_count = sum_list (map (length \<circ> cm_content) (cr_messages request)),
            rq_output_character_count = length (ro_text restored),
            rq_provider_latency_ms = Some (tr_provider_latency_ms t),
            rq_pipeline_latency_ms = Some (elapsed_ms attempt (sp_time P w)),
            rq_error_code = None, rq_blocked = False,
            rq_prompt_hmac = Some (at_prompt_hmac (tr_attestation t)), rq_response_hmac = Some response_hmac,
            rq_outbound_hmac = Some (at_payload_hmac (tr_attestation t)),
            rq_outbound_scan = Some (verdict_value (os_verdict (at_scan (tr_attestation t))))\<rparr>)))))))))))"

text \<open>The two \<open>except GatewayError\<close> of \<open>invoke\<close>: the refusal is recorded, the error raised again.\<close>

definition refuse :: "('raw, 'p, 'v, 'o, 'a) pipeline \<Rightarrow> pipeline_attempt \<Rightarrow> policy_snapshot option \<Rightarrow> exn \<Rightarrow>
    (('p, 'v, 'o, 'a) world, 'b) op" where
  "refuse P attempt snapshot e =
     (case e of
        GatewayError code r \<Rightarrow> bindS (record_failure P attempt snapshot code) (\<lambda>_. liftS (Inl e))
      | _ \<Rightarrow> liftS (Inl e))"

definition invoke :: "('raw, 'p, 'v, 'o, 'a) pipeline \<Rightarrow> admission \<Rightarrow> chat_request \<Rightarrow> principal \<Rightarrow>
    (('p, 'v, 'o, 'a) world, chat_response) op" where
  "invoke P adm request caller w =
     (case begin_attempt P adm request caller (sp_time P w) of
        Inl e \<Rightarrow> (Inl e, w)
      | Inr attempt \<Rightarrow>
          (case resolve_stage P attempt w of
             (Inl e, w1) \<Rightarrow> refuse P attempt None e w1
           | (Inr snapshot, w1) \<Rightarrow>
               (case run_request P request attempt snapshot w1 of
                  (Inl e, w2) \<Rightarrow> refuse P attempt (Some snapshot) e w2
                | (Inr (response, outcome), w2) \<Rightarrow>
                    bindS (record_outcome P attempt (Some snapshot) outcome (sp_audit_fail_closed P))
                      (\<lambda>_. liftS (Inr response)) w2)))"

section \<open>Stages and the parts of the world\<close>

lemma on_policy_eq [state_simps]:
  "on_policy f w = (r, w') \<longleftrightarrow> (\<exists>p. f (wd_policy w) = (r, p) \<and> w' = w\<lparr>wd_policy := p\<rparr>)"
  by (auto simp: on_policy_def split: prod.splits)

lemma on_vault_eq [state_simps]:
  "on_vault f w = (r, w') \<longleftrightarrow> (\<exists>v. f (wd_vault w) = (r, v) \<and> w' = w\<lparr>wd_vault := v\<rparr>)"
  by (auto simp: on_vault_def split: prod.splits)

lemma on_outside_eq [state_simps]:
  "on_outside f w = (r, w') \<longleftrightarrow> (\<exists>o'. f (wd_outside w) = (r, o') \<and> w' = w\<lparr>wd_outside := o'\<rparr>)"
  by (auto simp: on_outside_def split: prod.splits)

lemma on_audit_eq [state_simps]:
  "on_audit f w = (r, w') \<longleftrightarrow> (\<exists>a. f (wd_audit w) = (r, a) \<and> w' = w\<lparr>wd_audit := a\<rparr>)"
  by (auto simp: on_audit_def split: prod.splits)

lemma bindS_cases:
  assumes "bindS m f s = (r, s'')"
  obtains (raised) e where "m s = (Inl e, s'')" "r = Inl e" | (went_on) x s' where "m s = (Inr x, s')" "f x s' = (r, s'')"
  using assms by (auto simp: bindS_def split: prod.splits sum.splits)

lemma run_stage_Inr [state_simps]: "run_stage a b m s = (Inr x, s') \<longleftrightarrow> m s = (Inr x, s')"
  by (auto simp: run_stage_def catchS_def liftS_def split: prod.splits sum.splits option.splits exn.splits)

text \<open>A stage raises a domain error or its own; it never invents a result.\<close>

lemma run_stage_Inl:
  "run_stage a b m s = (Inl e, s') \<Longrightarrow> \<exists>e'. m s = (Inl e', s')
     \<and> (e = e' \<or> e = GatewayError b ''deadline_exceeded'' \<or> e = GatewayError a ''stage_failed'')"
  by (auto simp: run_stage_def catchS_def liftS_def split: prod.splits sum.splits option.splits exn.splits)

lemma tokenize_loop_world:
  "tokenize_loop P c sn mes ms sm w = (r, w') \<Longrightarrow> \<exists>v. w' = w\<lparr>wd_vault := v\<rparr>"
proof (induction mes arbitrary: ms sm w)
  case Nil
  then have "w' = w\<lparr>wd_vault := wd_vault w\<rparr>" by (simp add: liftS_eq)
  then show ?case ..
next
  case (Cons me mes)
  obtain m es where me: "me = (m, es)" by (cases me)
  from Cons.prems[unfolded me tokenize_loop.simps] show ?case
  proof (cases rule: bindS_cases)
    case (raised e)
    then show ?thesis by (auto simp: on_vault_eq)
  next
    case (went_on x s')
    then obtain v where "s' = w\<lparr>wd_vault := v\<rparr>" by (auto simp: on_vault_eq)
    with Cons.IH[OF went_on(2)] show ?thesis by fastforce
  qed
qed

text \<open>
  What the loop has done when it returns: each message has been transformed in the vault the
  previous one left; \<open>vs\<close> are the states of the vault before and after each.
\<close>

definition transformed_all :: "('raw, 'p, 'v, 'o, 'a) pipeline \<Rightarrow> uuid \<Rightarrow> uuid \<Rightarrow> policy_snapshot \<Rightarrow>
    (chat_message \<times> detected_entity list) list \<Rightarrow> 'v list \<Rightarrow> transformed_text list \<Rightarrow> bool" where
  "transformed_all P tenant session snapshot mes vs outs \<longleftrightarrow>
     length outs = length mes \<and> length vs = Suc (length mes)
     \<and> (\<forall>i < length mes. transform (sp_env P) (sp_vault P) tenant session (cm_content (fst (mes ! i))) (snd (mes ! i))
           (policy_view snapshot) (vs ! i) = (Inr (outs ! i), vs ! Suc i))"

definition with_text :: "chat_message \<Rightarrow> transformed_text \<Rightarrow> chat_message" where
  "with_text m out = \<lparr>cm_role = cm_role m, cm_content = tt_text out\<rparr>"

lemma transformed_all_Cons:
  assumes "transform (sp_env P) (sp_vault P) t u (cm_content m) es (policy_view sn) v = (Inr out, hd vs)"
    "transformed_all P t u sn mes vs outs"
  shows "transformed_all P t u sn ((m, es) # mes) (v # vs) (out # outs)"
proof -
  have "vs \<noteq> []" using assms(2) by (auto simp: transformed_all_def)
  with assms show ?thesis by (auto simp: transformed_all_def nth_Cons' hd_conv_nth)
qed

lemma tokenize_loop_Inr:
  "tokenize_loop P c sn mes ms sm w = (Inr (ms', sm'), w') \<Longrightarrow>
   \<exists>vs outs. transformed_all P (p_tenant_id (rc_principal c)) (rc_session_id c) sn mes vs outs
     \<and> hd vs = wd_vault w \<and> w' = w\<lparr>wd_vault := last vs\<rparr>
     \<and> ms' = ms @ map2 with_text (map fst mes) outs \<and> sm' = fold (\<lambda>out s. merged_with s (tt_summary out)) outs sm"
proof (induction mes arbitrary: ms sm w)
  case Nil
  then show ?case by (intro exI[of _ "[wd_vault w]"] exI[of _ "[]"]) (simp add: transformed_all_def liftS_eq)
next
  case (Cons me mes)
  obtain m es where me: "me = (m, es)" by (cases me)
  obtain out v where out: "transform (sp_env P) (sp_vault P) (p_tenant_id (rc_principal c)) (rc_session_id c)
      (cm_content m) es (policy_view sn) (wd_vault w) = (Inr out, v)"
    and rest: "tokenize_loop P c sn mes (ms @ [\<lparr>cm_role = cm_role m, cm_content = tt_text out\<rparr>])
      (merged_with sm (tt_summary out)) (w\<lparr>wd_vault := v\<rparr>) = (Inr (ms', sm'), w')"
    using Cons.prems[unfolded me] by (auto simp: state_simps)
  from Cons.IH[OF rest] obtain vs outs where IH: "transformed_all P (p_tenant_id (rc_principal c)) (rc_session_id c) sn mes vs outs"
    "hd vs = v" "w' = w\<lparr>wd_vault := last vs\<rparr>"
    "ms' = (ms @ [with_text m out]) @ map2 with_text (map fst mes) outs"
    "sm' = fold (\<lambda>out s. merged_with s (tt_summary out)) outs (merged_with sm (tt_summary out))"
    by (auto simp: with_text_def)
  have "vs \<noteq> []" using IH(1) by (auto simp: transformed_all_def)
  with IH transformed_all_Cons[of P _ _ m es sn "wd_vault w" out vs mes outs] out show ?case unfolding me
    by (intro exI[of _ "wd_vault w # vs"] exI[of _ "out # outs"]) simp
qed


section \<open>The frame of each stage\<close>

lemma detect_stage_Inr:
  "detect_stage P ms w = (Inr ds, w') \<Longrightarrow>
     w' = w \<and> traverseR (\<lambda>m. sp_detect P (cm_content m) DEFAULT_LANGUAGE) ms = Inr ds"
  by (auto simp: detect_stage_def liftS_eq run_stage_Inr)

lemma detect_stage_Inl: "detect_stage P ms w = (Inl e, w') \<Longrightarrow> w' = w"
  by (auto simp: detect_stage_def liftS_eq dest!: run_stage_Inl)

lemma resolve_stage_frame: "resolve_stage P attempt w = (r, w') \<Longrightarrow> \<exists>p. w' = w\<lparr>wd_policy := p\<rparr>"
  by (auto simp: resolve_stage_def on_policy_eq)

lemma record_outcome_frame: "record_outcome P attempt sn outcome fc w = (r, w') \<Longrightarrow> \<exists>a. w' = w\<lparr>wd_audit := a\<rparr>"
  by (auto simp: record_outcome_def catchS_def liftS_def on_audit_def split: prod.splits sum.splits option.splits exn.splits if_splits)

lemma refuse_frame:
  assumes "refuse P attempt sn e w = (r, w')"
  shows "(\<exists>a. w' = w\<lparr>wd_audit := a\<rparr>) \<and> (\<exists>e'. r = Inl e')"
proof (cases "\<exists>c x. e = GatewayError c x")
  case True
  then obtain c x where e: "e = GatewayError c x" by blast
  from assms[unfolded refuse_def e exn.case record_failure_def] show ?thesis
    by (auto simp: bindS_def liftS_def record_failure_def split: prod.splits sum.splits dest: record_outcome_frame)
next
  case False
  then show ?thesis using assms by (cases e) (auto simp: refuse_def liftS_def intro: exI[of _ "wd_audit w"])
qed

lemma tokenize_stage_frame: "tokenize_stage P request c sn ds w = (r, w') \<Longrightarrow> wd_outside w' = wd_outside w"
  by (auto simp: tokenize_stage_def liftS_eq split: if_splits prod.splits elim!: bindS_cases dest!: tokenize_loop_world)

lemma transmit_stage_send:
  assumes "transmit_stage P sn protected w = (r, w')"
  obtains x where "send (sp_gateway P) sn (Some complete_stage) protected (wd_outside w) = (x, wd_outside w')"
    "w' = w\<lparr>wd_outside := wd_outside w'\<rparr>" "r = (case x of Inr (Transmitted t) \<Rightarrow> Inr t | Inr (OutboundBlocked a) \<Rightarrow> Inl blocked_error | Inl e \<Rightarrow> Inl e)"
proof -
  obtain x o' where x: "send (sp_gateway P) sn (Some complete_stage) protected (wd_outside w) = (x, o')" by fastforce
  then have "w' = w\<lparr>wd_outside := o'\<rparr>" "r = (case x of Inr (Transmitted t) \<Rightarrow> Inr t | Inr (OutboundBlocked a) \<Rightarrow> Inl blocked_error | Inl e \<Rightarrow> Inl e)"
    using assms by (auto simp: transmit_stage_def on_outside_def bindS_def liftS_def split: sum.splits send_outcome.splits)
  with x that show thesis by simp
qed

lemma restore_stage_frame: "restore_stage P c sn response w = (r, w') \<Longrightarrow> wd_outside w' = wd_outside w"
  by (auto simp: restore_stage_def on_vault_eq)


text \<open>
  How far one run got: it stopped at the allow-list, the detector or the guards, and then neither
  the vault nor the outside has changed; or the guards passed, and whatever the outside has seen
  since is one \<open>send\<close> of the protected request.
\<close>

lemma run_request_stages:
  assumes "run_request P request attempt sn w = (r, w')"
  obtains (stopped) e where "r = Inl e" "w' = w"
      "\<forall>ds. traverseR (\<lambda>m. sp_detect P (cm_content m) DEFAULT_LANGUAGE) (cr_messages request) = Inr ds \<longrightarrow>
         registry_get (og_ucd (sp_gateway P)) (og_providers (sp_gateway P)) (pa_provider_alias attempt) = Inl e
         \<or> (\<exists>e'. guard_request P (cr_messages request) ds sn = Inl e')"
  | (unsent) ds where "traverseR (\<lambda>m. sp_detect P (cm_content m) DEFAULT_LANGUAGE) (cr_messages request) = Inr ds"
      "guard_request P (cr_messages request) ds sn = Inr ()" "wd_outside w' = wd_outside w" "\<exists>e. r = Inl e"
  | (sent) ds protected counted w1 x where
      "traverseR (\<lambda>m. sp_detect P (cm_content m) DEFAULT_LANGUAGE) (cr_messages request) = Inr ds"
      "guard_request P (cr_messages request) ds sn = Inr ()"
      "tokenize_stage P request (with_policy attempt sn) sn ds w = (Inr (protected, counted), w1)"
      "send (sp_gateway P) sn (Some complete_stage) protected (wd_outside w) = (x, wd_outside w')"
proof -
  let ?G = "sp_gateway P"
  from assms[unfolded run_request_def Let_def] show thesis
  proof (cases rule: bindS_cases)
    case (raised e)
    then show thesis by (intro that(1)) (auto simp: liftS_eq)
  next
    case (went_on x1 s1)
    have s1: "s1 = w" using went_on(1) by (auto simp: liftS_eq)
    from went_on(2) show thesis
    proof (cases rule: bindS_cases)
      case (raised e)
      from raised have "w' = w" using s1 detect_stage_Inl by blast
      moreover have "\<nexists>ds. traverseR (\<lambda>m. sp_detect P (cm_content m) DEFAULT_LANGUAGE) (cr_messages request) = Inr ds"
        using raised(1) by (auto simp: detect_stage_def liftS_eq dest!: run_stage_Inl)
      ultimately show thesis using raised(2) that(1) by blast
    next
      case (went_on ds s2)
      note ds = detect_stage_Inr[OF went_on(1)]
      from went_on(2) show thesis
      proof (cases rule: bindS_cases)
        case (raised e)
        then show thesis using ds s1 by (intro that(1)) (auto simp: liftS_eq)
      next
        case (went_on u s3)
        then have g: "guard_request P (cr_messages request) ds sn = Inr ()" "s3 = w" using ds s1 by (auto simp: liftS_eq)
        from went_on(2) show thesis
        proof (cases rule: bindS_cases)
          case (raised e)
          then show thesis using ds g tokenize_stage_frame[OF raised(1)] by (intro that(2)) auto
        next
          case (went_on pc w1)
          obtain protected counted where pc: "pc = (protected, counted)" by (cases pc)
          have o1: "wd_outside w1 = wd_outside w" using tokenize_stage_frame[OF went_on(1)] g(2) by simp
          note tok = went_on(1)[unfolded pc g(2)]
          from went_on(2)[unfolded pc prod.case] show thesis
          proof (cases rule: bindS_cases)
            case (raised e)
            from raised(1) obtain x where "send ?G sn (Some complete_stage) protected (wd_outside w1) = (x, wd_outside w')"
              by (rule transmit_stage_send)
            then show thesis using ds g tok o1 by (intro that(3)) auto
          next
            case (went_on t w2)
            from went_on(1) obtain x where x: "send ?G sn (Some complete_stage) protected (wd_outside w1) = (x, wd_outside w2)"
              by (rule transmit_stage_send)
            have "wd_outside w' = wd_outside w2"
              using went_on(2) by (auto simp: liftS_eq elim!: bindS_cases dest!: restore_stage_frame)
            then show thesis using ds g tok o1 x by (intro that(3)) auto
          qed
        qed
      qed
    qed
  qed
qed


section \<open>The order of effects\<close>

lemma begin_attempt_Inr:
  "begin_attempt P adm request caller now = Inr attempt \<Longrightarrow>
     pa_principal attempt = caller \<and> pa_request_id attempt = ad_request_id adm
     \<and> pa_provider_alias attempt = cr_provider request \<and> pa_model_alias attempt = cr_model request
     \<and> resolve_session_id (ad_fresh_session adm) (cr_session_id request) = Inr (pa_session_id attempt)
     \<and> enforce_message_sizes (sp_max_message_chars P) (cr_messages request) = Inr ()"
  by (auto simp: begin_attempt_def begin_pipeline_attempt_def bindR_Inr)

lemma guard_request_Inr:
  "guard_request P ms ds sn = Inr u \<Longrightarrow> select_request_entities ms ds sn = Inr sel \<Longrightarrow>
     int (sum_list (map length sel)) \<le> entity_budget sn (sp_max_entities_per_request P)
     \<and> (\<forall>es \<in> set sel. \<forall>e \<in> set es. action_for sn (de_entity_type e) \<noteq> BLOCK)"
  by (auto simp: guard_request_def bindR_Inr enforce_entity_budget_def reject_blocked_entities_def Let_def list_ex_iff
      split: if_splits)

text \<open>
  C6. A refused request leaves no trace outside the audit trail: once a blocked type has been
  selected in any message, or the selected entities of all messages together exceed the smaller of
  the policy's and the deployment's budget, the request ends in an error, the vault is exactly as
  it was (nothing has been tokenised, not even in the messages before the blocked one) and no
  provider has been called.
\<close>

theorem refused_request_leaves_nothing:
  assumes "begin_attempt P adm request caller (sp_time P w) = Inr attempt"
    "resolve_stage P attempt w = (Inr snapshot, w1)"
    "traverseR (\<lambda>m. sp_detect P (cm_content m) DEFAULT_LANGUAGE) (cr_messages request) = Inr detections"
    "select_request_entities (cr_messages request) detections snapshot = Inr selections"
    "entity_budget snapshot (sp_max_entities_per_request P) < int (sum_list (map length selections))
      \<or> (\<exists>es \<in> set selections. \<exists>e \<in> set es. action_for snapshot (de_entity_type e) = BLOCK)"
    "invoke P adm request caller w = (r, w')"
  shows "(\<exists>e. r = Inl e) \<and> wd_vault w' = wd_vault w \<and> wd_outside w' = wd_outside w"
proof -
  have refused: "guard_request P (cr_messages request) detections snapshot \<noteq> Inr ()"
    using guard_request_Inr[OF _ assms(4), of P "()"] assms(5) by fastforce
  obtain r2 w2 where run: "run_request P request attempt snapshot w1 = (r2, w2)" by fastforce
  from run obtain e where e: "r2 = Inl e" "w2 = w1"
    by (cases rule: run_request_stages) (use assms(3) refused in auto)
  have "refuse P attempt (Some snapshot) e w1 = (r, w')" using assms(1,2,6) run e by (simp add: invoke_def)
  from refuse_frame[OF this] resolve_stage_frame[OF assms(2)] show ?thesis by auto
qed

lemma tokenize_stage_Inr:
  assumes "tokenize_stage P request c sn ds w = (Inr (protected, counted), w')"
  shows "\<exists>vs outs. transformed_all P (p_tenant_id (rc_principal c)) (rc_session_id c) sn (zip (cr_messages request) ds) vs outs
     \<and> hd vs = wd_vault w \<and> w' = w\<lparr>wd_vault := last vs\<rparr> \<and> length ds = length (cr_messages request)
     \<and> pr_messages protected = map2 with_text (cr_messages request) outs
     \<and> counted = fold (\<lambda>out s. merged_with s (tt_summary out)) outs empty_summary
     \<and> pr_request_id protected = rc_request_id c \<and> pr_tenant_id protected = p_tenant_id (rc_principal c)
     \<and> pr_session_id protected = rc_session_id c \<and> pr_provider_alias protected = cr_provider request
     \<and> pr_model_alias protected = cr_model request \<and> pr_policy_version protected = sn_version sn"
proof -
  from assms obtain ms' where len: "length (cr_messages request) = length ds"
    and loop: "tokenize_loop P c sn (zip (cr_messages request) ds) [] empty_summary w = (Inr (ms', counted), w')"
    and mk: "mk_protected_request
              \<lparr>pr_request_id = rc_request_id c, pr_tenant_id = p_tenant_id (rc_principal c),
               pr_session_id = rc_session_id c, pr_provider_alias = cr_provider request,
               pr_model_alias = cr_model request, pr_messages = ms', pr_policy_version = sn_version sn,
               pr_temperature = cr_temperature request, pr_max_output_tokens = cr_max_output_tokens request\<rparr> = Inr protected"
    by (auto simp: tokenize_stage_def state_simps split: if_splits prod.splits)
  from mk have "protected = \<lparr>pr_request_id = rc_request_id c, pr_tenant_id = p_tenant_id (rc_principal c),
               pr_session_id = rc_session_id c, pr_provider_alias = cr_provider request,
               pr_model_alias = cr_model request, pr_messages = ms', pr_policy_version = sn_version sn,
               pr_temperature = cr_temperature request, pr_max_output_tokens = cr_max_output_tokens request\<rparr>"
    by (auto simp: mk_protected_request_def result_simps split: if_splits)
  with tokenize_loop_Inr[OF loop] len show ?thesis by auto
qed

lemma send_changes:
  assumes "send G sn invoker request s = (r, s')" "s' \<noteq> s \<or> (\<exists>t. r = Inr (Transmitted t))"
  obtains a adapter where "attest G sn request = Inr a" "is_clean (at_scan a)"
    "registry_get (og_ucd G) (og_providers G) (pr_provider_alias request) = Inr adapter"
    "\<forall>m \<in> set (pr_messages request). \<forall>e. \<not> leaks (og_ucd G) (og_detector G) sn (og_language G) (cm_content m) e"
    "\<And>t. r = Inr (Transmitted t) \<Longrightarrow> tr_attestation t = a"
proof (cases "attest G sn request")
  case (Inl x)
  then show thesis using assms by (auto simp: send_def bindS_def liftS_def)
next
  case (Inr a)
  have clean: "is_clean (at_scan a)" using assms Inr by (auto simp: send_def bindS_def liftS_def split: if_splits)
  then obtain adapter where adapter: "registry_get (og_ucd G) (og_providers G) (pr_provider_alias request) = Inr adapter"
    using assms Inr by (cases "registry_get (og_ucd G) (og_providers G) (pr_provider_alias request)")
      (auto simp: send_def bindS_def liftS_def)
  have "tr_attestation t = a" if "r = Inr (Transmitted t)" for t
    using assms(1) that Inr by (auto simp: send_def state_simps split: if_splits)
  moreover have "\<forall>m \<in> set (pr_messages request). \<forall>e. \<not> leaks (og_ucd G) (og_detector G) sn (og_language G) (cm_content m) e"
    using scan_outbound_findings(1,2)[OF attest_Inr[OF Inr, THEN conjunct2]] clean by auto
  ultimately show thesis using that[OF Inr clean adapter] by blast
qed


text \<open>
  C2. A provider sees only what has been through every stage: if a request changes the world
  outside at all, then its messages were within size, its policy was resolved for its tenant, the
  detector answered for every message, the guards passed, every message was transformed under that
  policy in the requester's own session, one after the other from the vault as it was, and the one
  request handed to the gateway carries exactly the transformed texts, in order and with their
  roles. The last scan of that request found nothing the policy acts on.
\<close>

theorem provider_sees_only_protected:
  assumes "invoke P adm request caller w = (r, w')" "wd_outside w' \<noteq> wd_outside w"
  shows "\<exists>attempt snapshot w1 detections vs outs protected x.
      begin_attempt P adm request caller (sp_time P w) = Inr attempt
    \<and> resolve_stage P attempt w = (Inr snapshot, w1)
    \<and> traverseR (\<lambda>m. sp_detect P (cm_content m) DEFAULT_LANGUAGE) (cr_messages request) = Inr detections
    \<and> guard_request P (cr_messages request) detections snapshot = Inr ()
    \<and> transformed_all P (p_tenant_id caller) (pa_session_id attempt) snapshot (zip (cr_messages request) detections) vs outs
    \<and> hd vs = wd_vault w
    \<and> pr_messages protected = map2 with_text (cr_messages request) outs
    \<and> pr_provider_alias protected = cr_provider request \<and> pr_tenant_id protected = p_tenant_id caller
    \<and> (\<forall>m \<in> set (pr_messages protected). \<forall>e.
         \<not> leaks (og_ucd (sp_gateway P)) (og_detector (sp_gateway P)) snapshot (og_language (sp_gateway P)) (cm_content m) e)
    \<and> send (sp_gateway P) snapshot (Some complete_stage) protected (wd_outside w) = (x, wd_outside w')"
proof -
  obtain attempt where attempt: "begin_attempt P adm request caller (sp_time P w) = Inr attempt"
    using assms by (auto simp: invoke_def split: sum.splits)
  obtain rs w1 where rs: "resolve_stage P attempt w = (rs, w1)" by fastforce
  note o1 = resolve_stage_frame[OF rs]
  obtain snapshot where snapshot: "rs = Inr snapshot"
  proof (cases rs)
    case (Inl e)
    then have "refuse P attempt None e w1 = (r, w')" using assms(1) attempt rs by (simp add: invoke_def)
    then show thesis using refuse_frame o1 assms(2) by fastforce
  qed
  obtain r2 w2 where run: "run_request P request attempt snapshot w1 = (r2, w2)" by fastforce
  have o2: "wd_outside w2 = wd_outside w'"
  proof (cases r2)
    case (Inl e)
    then have "refuse P attempt (Some snapshot) e w2 = (r, w')" using assms(1) attempt rs snapshot run by (simp add: invoke_def)
    then show ?thesis using refuse_frame by fastforce
  next
    case (Inr ro)
    then have "bindS (record_outcome P attempt (Some snapshot) (snd ro) (sp_audit_fail_closed P)) (\<lambda>_. liftS (Inr (fst ro))) w2 = (r, w')"
      using assms(1) attempt rs snapshot run by (cases ro) (simp add: invoke_def)
    then show ?thesis by (auto simp: liftS_eq elim!: bindS_cases dest!: record_outcome_frame)
  qed
  note att = begin_attempt_Inr[OF attempt]
  from run show ?thesis
  proof (cases rule: run_request_stages)
    case (sent ds protected counted w3 x)
    note tok = tokenize_stage_Inr[OF sent(3)]
    have "wd_outside w2 \<noteq> wd_outside w1" using o1 o2 assms(2) by auto
    then obtain a adapter where send: "\<forall>m \<in> set (pr_messages protected). \<forall>e.
         \<not> leaks (og_ucd (sp_gateway P)) (og_detector (sp_gateway P)) snapshot (og_language (sp_gateway P)) (cm_content m) e"
      using send_changes[OF sent(4)] by metis
    from tok att o1 obtain vs outs where
      "transformed_all P (p_tenant_id caller) (pa_session_id attempt) snapshot (zip (cr_messages request) ds) vs outs"
      "hd vs = wd_vault w" "pr_messages protected = map2 with_text (cr_messages request) outs"
      "pr_provider_alias protected = cr_provider request" "pr_tenant_id protected = p_tenant_id caller"
      by (auto simp: with_policy_def)
    moreover have "send (sp_gateway P) snapshot (Some complete_stage) protected (wd_outside w) = (x, wd_outside w')"
      using sent(4) o1 o2 by auto
    ultimately show ?thesis using attempt rs snapshot sent(1,2) send by blast
  qed (use o1 o2 assms(2) in auto)
qed


section \<open>What a served request has recorded\<close>

lemma mk_audit_record_Inr: "mk_audit_record r = Inr a \<Longrightarrow> a = r"
  by (auto simp: mk_audit_record_def bindR_Inr validated_counts_Inr)

lemma adapter_record_queued:
  assumes "adapter_record hmac key now bag s = (Inr u, s')" "as_fail_closed s" "af_session_id bag = Some session"
  obtains h where "session_digest hmac key (ar_tenant_id (af_record bag)) session = Inr h"
    "as_queue s' = as_queue s @ [stamped now ((af_record bag)\<lparr>ar_session_id_hash := Some h,
       ar_status_code := (case af_status_code bag of Some c \<Rightarrow> c | None \<Rightarrow> DEFAULT_STATUS_CODE)\<rparr>)]"
    "\<not> as_degraded s" "\<not> as_stopped s"
proof -
  let ?r = "(af_record bag)\<lparr>ar_session_id_hash := None,
       ar_status_code := (case af_status_code bag of Some c \<Rightarrow> c | None \<Rightarrow> DEFAULT_STATUS_CODE)\<rparr>"
  from assms(1,3) obtain h a where h: "session_digest hmac key (ar_tenant_id (af_record bag)) session = Inr h"
    and a: "mk_audit_record (?r\<lparr>ar_session_id_hash := Some h\<rparr>) = Inr a" and sub: "submit now a s = (Inr u, s')"
    by (auto simp: adapter_record_def Let_def state_simps bindR_Inr)
  have "a = (af_record bag)\<lparr>ar_session_id_hash := Some h,
       ar_status_code := (case af_status_code bag of Some c \<Rightarrow> c | None \<Rightarrow> DEFAULT_STATUS_CODE)\<rparr>"
    using mk_audit_record_Inr[OF a] by simp
  moreover from sub have "as_queue s' = as_queue s @ [stamped now a] \<and> \<not> as_degraded s \<and> \<not> as_stopped s"
    by (cases rule: submit_cases) (use assms(2) in \<open>auto split: if_splits\<close>)
  ultimately show thesis using that h by simp
qed

lemma run_request_Inr:
  assumes "run_request P request attempt sn w = (Inr (response, outcome), w')"
  shows "wd_audit w' = wd_audit w" "ch_request_id response = pa_request_id attempt"
    "ch_session_id response = pa_session_id attempt" "rq_counts outcome = ch_privacy response"
    "rq_status_code outcome = 200" "rq_error_code outcome = None" "\<not> rq_blocked outcome"
    "rq_outbound_scan outcome = Some (lit ''clean'')"
    "gateway_response_digest (sp_gateway P) (p_tenant_id (pa_principal attempt)) (cm_content (ch_message response))
       = Inr (the (rq_response_hmac outcome))"
    "\<exists>a protected. attest (sp_gateway P) sn protected = Inr a \<and> rq_outbound_hmac outcome = Some (at_payload_hmac a)
       \<and> rq_prompt_hmac outcome = Some (at_prompt_hmac a) \<and> pr_request_id protected = pa_request_id attempt"
    "rq_response_hmac outcome \<noteq> None"
proof -
  from assms obtain ds protected counted w1 t w2 restored h where
    tok: "tokenize_stage P request (with_policy attempt sn) sn ds w = (Inr (protected, counted), w1)"
    and tr: "transmit_stage P sn protected w1 = (Inr t, w2)"
    and re: "restore_stage P (with_policy attempt sn) sn (tr_response t) w2 = (Inr restored, w')"
    and h: "gateway_response_digest (sp_gateway P) (p_tenant_id (pa_principal attempt)) (ro_text restored) = Inr h"
    and response: "response = build_response attempt restored (merged_with counted (ro_summary restored))
          (pipeline_preview P protected) (Some (tr_provider_alias t))"
    and outcome: "outcome = \<lparr>rq_status_code = 200, rq_counts = merged_with counted (ro_summary restored),
            rq_input_character_count = sum_list (map (length \<circ> cm_content) (cr_messages request)),
            rq_output_character_count = length (ro_text restored),
            rq_provider_latency_ms = Some (tr_provider_latency_ms t),
            rq_pipeline_latency_ms = Some (elapsed_ms attempt (sp_time P w')),
            rq_error_code = None, rq_blocked = False,
            rq_prompt_hmac = Some (at_prompt_hmac (tr_attestation t)), rq_response_hmac = Some h,
            rq_outbound_hmac = Some (at_payload_hmac (tr_attestation t)),
            rq_outbound_scan = Some (verdict_value (os_verdict (at_scan (tr_attestation t))))\<rparr>"
    by (auto simp: run_request_def Let_def state_simps dest!: detect_stage_Inr)
  note tok = tokenize_stage_Inr[OF tok]
  from tr obtain x where x: "send (sp_gateway P) sn (Some complete_stage) protected (wd_outside w1) = (x, wd_outside w2)"
    "w2 = w1\<lparr>wd_outside := wd_outside w2\<rparr>" and xt: "x = Inr (Transmitted t)"
    by (rule transmit_stage_send) (auto split: sum.splits send_outcome.splits)
  obtain a adapter where a: "attest (sp_gateway P) sn protected = Inr a" "is_clean (at_scan a)" "tr_attestation t = a"
    using send_changes[OF x(1)] xt by blast
  have "wd_audit w1 = wd_audit w" "wd_audit w' = wd_audit w2"
    using tok re by (auto simp: restore_stage_def on_vault_eq)
  moreover have "wd_audit w2 = wd_audit w1" using arg_cong[OF x(2), of wd_audit] by simp
  ultimately show "wd_audit w' = wd_audit w" by simp
  show "rq_outbound_scan outcome = Some (lit ''clean'')" using a by (simp add: outcome is_clean_def)
  show "\<exists>a protected. attest (sp_gateway P) sn protected = Inr a \<and> rq_outbound_hmac outcome = Some (at_payload_hmac a)
       \<and> rq_prompt_hmac outcome = Some (at_prompt_hmac a) \<and> pr_request_id protected = pa_request_id attempt"
    using a tok by (intro exI[of _ a] exI[of _ protected]) (auto simp: outcome with_policy_def)
  show "ch_request_id response = pa_request_id attempt" "ch_session_id response = pa_session_id attempt"
    "rq_counts outcome = ch_privacy response" "rq_status_code outcome = 200" "rq_error_code outcome = None"
    "\<not> rq_blocked outcome" "rq_response_hmac outcome \<noteq> None"
    "gateway_response_digest (sp_gateway P) (p_tenant_id (pa_principal attempt)) (cm_content (ch_message response))
       = Inr (the (rq_response_hmac outcome))"
    by (simp_all add: response outcome build_response_def h)
qed


text \<open>
  C7. No request is served unaudited: where the deployment and the audit service fail closed, a
  request that returns a response has added exactly one record to the audit queue, with its own
  request id and tenant, status 200, a clean last scan, the digest of the very payload that was
  attested, the digest of the text returned and the counts of the summary returned; and neither
  had the previous write to the audit table failed nor was the service stopping.
\<close>

theorem served_implies_audited:
  assumes "sp_audit P = adapter_record hmac key now" "sp_audit_fail_closed P" "as_fail_closed (wd_audit w)"
    "invoke P adm request caller w = (Inr response, w')"
  shows "\<exists>entry. as_queue (wd_audit w') = as_queue (wd_audit w) @ [entry]
    \<and> ar_request_id entry = ad_request_id adm \<and> ch_request_id response = ad_request_id adm
    \<and> ar_tenant_id entry = p_tenant_id caller \<and> ar_api_key_id entry = Some (p_api_key_id caller)
    \<and> ar_status_code entry = 200 \<and> ar_error_code entry = None \<and> \<not> ar_blocked entry
    \<and> ar_outbound_scan entry = Some (lit ''clean'')
    \<and> (\<exists>snapshot a protected. attest (sp_gateway P) snapshot protected = Inr a
          \<and> pr_request_id protected = ad_request_id adm \<and> ar_outbound_hmac entry = Some (at_payload_hmac a))
    \<and> (\<exists>d. gateway_response_digest (sp_gateway P) (p_tenant_id caller) (cm_content (ch_message response)) = Inr d
          \<and> ar_response_hmac entry = Some d)
    \<and> ar_actions entry = action_counts (ch_privacy response)
    \<and> \<not> as_degraded (wd_audit w) \<and> \<not> as_stopped (wd_audit w)"
proof -
  obtain attempt snapshot w1 outcome w2 where attempt: "begin_attempt P adm request caller (sp_time P w) = Inr attempt"
    and rs: "resolve_stage P attempt w = (Inr snapshot, w1)"
    and run: "run_request P request attempt snapshot w1 = (Inr (response, outcome), w2)"
    and rec: "record_outcome P attempt (Some snapshot) outcome True w2 = (Inr (), w')"
    using assms(2,4) by (auto simp: invoke_def state_simps split: sum.splits prod.splits dest: refuse_frame)
  note att = begin_attempt_Inr[OF attempt] and R = run_request_Inr[OF run]
  let ?bag = "audit_payload attempt (Some snapshot) outcome"
  have a0: "wd_audit w2 = wd_audit w" using R(1) resolve_stage_frame[OF rs] by auto
  from rec have "adapter_record hmac key now ?bag (wd_audit w) = (Inr (), wd_audit w')"
    unfolding record_outcome_def assms(1) a0[symmetric]
    by (auto simp: catchS_def state_simps split: prod.splits sum.splits option.splits exn.splits if_splits)
  moreover have "af_session_id ?bag = Some (pa_session_id attempt)" by (simp add: audit_payload_def)
  ultimately obtain h where h: "as_queue (wd_audit w') = as_queue (wd_audit w) @
      [stamped now ((af_record ?bag)\<lparr>ar_session_id_hash := Some h,
         ar_status_code := (case af_status_code ?bag of Some c \<Rightarrow> c | None \<Rightarrow> DEFAULT_STATUS_CODE)\<rparr>)]"
    and alive: "\<not> as_degraded (wd_audit w)" "\<not> as_stopped (wd_audit w)"
    using adapter_record_queued[OF _ assms(3), of hmac key now ?bag "()" "wd_audit w'" "pa_session_id attempt"] by metis
  obtain a protected where a: "attest (sp_gateway P) snapshot protected = Inr a" "rq_outbound_hmac outcome = Some (at_payload_hmac a)"
    "pr_request_id protected = pa_request_id attempt" using R(10) by blast
  obtain d where d: "gateway_response_digest (sp_gateway P) (p_tenant_id caller) (cm_content (ch_message response)) = Inr d"
    "rq_response_hmac outcome = Some d" using R(9,11) att by auto
  show ?thesis
    by (rule exI, rule conjI, rule h) (use att R alive a d in \<open>auto simp: stamped_def audit_payload_def\<close>)
qed


section \<open>A worked instance\<close>

text \<open>
  A pipeline over the in-memory vault and an audit service, with a provider that counts the calls
  it gets: the world outside is their number.
\<close>

definition sample_provider :: "nat llm_provider" where
  "sample_provider = \<lparr>lp_alias = lit ''openai'', lp_complete = (\<lambda>request n.
     (Inr \<lparr>pv_content = Some (lit ''ok''), pv_model = Some (lit ''m''), pv_usage = None,
           pv_finish_reason = None\<rparr>, Suc n))\<rparr>"

definition pipeline_snapshot :: policy_snapshot where
  "pipeline_snapshot = sample_snapshot\<lparr>sn_entities := [(US_SSN, default_rule BLOCK (1 / 2))],
     sn_providers := [(lit ''openai'', [lit ''fast''])]\<rparr>"

definition sample_pipeline :: "detector \<Rightarrow> (policy_document, unit, memory_vault, nat, audit_service) pipeline" where
  "sample_pipeline detect =
     \<lparr>sp_decode = sample_decoder, sp_get_active = (\<lambda>_. liftS (Inr None)), sp_cache_ttl = 30, sp_detect = detect,
      sp_env = sample_env, sp_vault = memory_ops,
      sp_gateway = \<lparr>og_ucd = ascii_ucd, og_detector = detect, og_providers = [(lit ''openai'', sample_provider)],
        og_hmac = zero_hmac, og_key = [], og_language = lit ''en'', og_clock = of_nat\<rparr>,
      sp_max_output_chars = 10, sp_audit = adapter_record zero_hmac [] 0, sp_time = (\<lambda>_. 1),
      sp_config = \<lparr>pc_timeout_seconds = 45, pc_max_concurrent_provider_calls = 16\<rparr>,
      sp_max_message_chars = 10, sp_max_entities_per_request = 5, sp_audit_fail_closed = True,
      sp_preview_enabled = False\<rparr>"

definition sample_chat :: chat_request where
  "sample_chat = \<lparr>cr_session_id = Some 3, cr_provider = lit ''openai'', cr_model = lit ''fast'',
     cr_messages = [\<lparr>cm_role = RUser, cm_content = lit ''hello''\<rparr>], cr_temperature = None,
     cr_max_output_tokens = None\<rparr>"

definition sample_world :: "(unit, memory_vault, nat, audit_service) world" where
  "sample_world = \<lparr>wd_policy = \<lparr>sv_entries = [2 \<mapsto> \<lparr>ca_snapshot = pipeline_snapshot, ca_expires_at = 9\<rparr>],
     sv_repository = ()\<rparr>, wd_vault = sample_vault, wd_outside = 0, wd_audit = idle_service\<rparr>"

definition sample_admission :: admission where
  "sample_admission = \<lparr>ad_request_id = 1, ad_fresh_session = 7, ad_started_at = 0\<rparr>"

definition sample_caller :: principal where
  "sample_caller = sample_principal\<lparr>p_tenant_id := 2\<rparr>"

definition sample_attempt :: pipeline_attempt where
  "sample_attempt = begin_pipeline_attempt sample_admission sample_chat sample_caller 3 1 45"

lemmas sample_pipeline_defs = sample_pipeline_def sample_chat_def sample_world_def sample_admission_def
  sample_caller_def sample_principal_def sample_attempt_def begin_pipeline_attempt_def

lemma sample_begins:
  "begin_attempt (sample_pipeline d) sample_admission sample_chat sample_caller (sp_time (sample_pipeline d) sample_world)
     = Inr sample_attempt"
  by (simp add: sample_pipeline_defs begin_attempt_def resolve_session_id_def NIL_SESSION_ID_def)

lemma sample_resolves:
  "resolve_stage (sample_pipeline d) sample_attempt sample_world = (Inr pipeline_snapshot, sample_world)"
  by (simp add: sample_pipeline_defs resolve_stage_def on_policy_def run_stage_def catchS_def resolve_policy_def
      active_snapshot_def bindS_def liftS_def allows_provider_def allows_model_def pipeline_snapshot_def)

theorem refused_request_leaves_nothing_witness:
  "\<exists>e w'. invoke (sample_pipeline (\<lambda>_ _. Inr [sample_span US_SSN 0 3])) sample_admission sample_chat sample_caller sample_world
     = (Inl e, w') \<and> wd_vault w' = sample_vault \<and> wd_outside w' = 0"
proof -
  let ?d = "\<lambda>_ _. Inr [sample_span US_SSN 0 3]" and ?P = "sample_pipeline (\<lambda>_ _. Inr [sample_span US_SSN 0 3])"
  have det: "traverseR (\<lambda>m. sp_detect ?P (cm_content m) DEFAULT_LANGUAGE) (cr_messages sample_chat) = Inr [[sample_span US_SSN 0 3]]"
    by (simp add: sample_pipeline_defs)
  have sel: "select_request_entities (cr_messages sample_chat) [[sample_span US_SSN 0 3]] pipeline_snapshot = Inr [[sample_span US_SSN 0 3]]"
    by (simp add: sample_chat_def select_entities_id sample_span_def wf_entity_def confident_for_def policy_view_def
        min_score_for_def pipeline_snapshot_def sample_snapshot_def default_rule_def)
  have blocked: "\<exists>es \<in> set [[sample_span US_SSN 0 3]]. \<exists>e \<in> set es. action_for pipeline_snapshot (de_entity_type e) = BLOCK"
    by (simp add: sample_span_def action_for_def pipeline_snapshot_def default_rule_def)
  obtain r w' where run: "invoke ?P sample_admission sample_chat sample_caller sample_world = (r, w')" by fastforce
  from refused_request_leaves_nothing[OF sample_begins sample_resolves det sel disjI2[OF blocked] run] run
  show ?thesis by (auto simp: sample_world_def)
qed

lemma chat_transforms:
  "\<exists>out. transform sample_env memory_ops 2 3 (lit ''hello'') [] (policy_view pipeline_snapshot) v = (Inr out, v) \<and> tt_text out = lit ''hello'' \<and> tt_summary out = empty_summary"
proof -
  have "select_entities (lit ''hello'') [] (policy_view pipeline_snapshot) = Inr []" by (simp add: select_entities_id)
  then show ?thesis
    by (simp add: transform_def bindS_def liftS_def enforce_limit_def policy_view_def pipeline_snapshot_def sample_snapshot_def
        plan_for_def mint_def pending_of_plan_def splice_def splice_order_def slice_def summarize_def
        tally_def empty_summary_def bindR_def)
qed

lemma sample_tokenizes:
  "tokenize_stage (sample_pipeline d) sample_chat (with_policy sample_attempt pipeline_snapshot) pipeline_snapshot [[]] sample_world
     = (Inr (sample_protected, merged_with empty_summary empty_summary), sample_world)"
proof -
  obtain out where "transform sample_env memory_ops 2 3 (lit ''hello'') [] (policy_view pipeline_snapshot) sample_vault = (Inr out, sample_vault)"
    "tt_text out = lit ''hello''" "tt_summary out = empty_summary" using chat_transforms by blast
  then show ?thesis
    by (simp add: tokenize_stage_def sample_pipeline_defs with_policy_def on_vault_def run_stage_def catchS_def bindS_def liftS_def
        mk_protected_request_def sample_protected_def pipeline_snapshot_def sample_snapshot_def)
qed

lemma zero_digest: "correlation_digest zero_hmac k domain t parts = Inr d \<Longrightarrow> d = replicate 64 48"
proof -
  have "hexdigest (replicate 32 0) = replicate 64 48" by code_simp
  then show "correlation_digest zero_hmac k domain t parts = Inr d \<Longrightarrow> d = replicate 64 48"
    by (auto simp: correlation_digest_def zero_hmac_def result_simps)
qed

lemma zero_session_digest: "session_digest zero_hmac [] 2 3 = Inr (replicate 64 48)"
proof -
  obtain d where "session_digest zero_hmac [] 2 3 = Inr d"
    using frame_ok[of "[SESSION_DOMAIN, uuid_bytes 2, uuid_bytes 3]" 4]
    by (auto simp: session_digest_def correlation_digest_def SESSION_DOMAIN_def simp del: frame.simps)
  then show ?thesis using zero_digest by (simp add: session_digest_def)
qed

lemma zero_response_digest: "response_digest zero_hmac [] 2 [111, 107] = Inr (replicate 64 48)"
proof -
  have "utf8_encode (lit ''ok'') = Inr (lit ''ok'')" by (rule utf8_encode_ascii) auto
  then obtain d where "response_digest zero_hmac [] 2 (lit ''ok'') = Inr d"
    using frame_ok[of "[RESPONSE_DOMAIN, uuid_bytes 2, lit ''ok'']" 4]
    by (auto simp: response_digest_def correlation_digest_def RESPONSE_DOMAIN_def simp del: frame.simps)
  then show ?thesis using zero_digest by (auto simp: response_digest_def result_simps)
qed


lemma sample_attested:
  "\<exists>a. attest (sp_gateway (sample_pipeline (\<lambda>_ _. Inr []))) pipeline_snapshot sample_protected = Inr a \<and> is_clean (at_scan a)
     \<and> at_payload_hmac a = replicate 64 48 \<and> at_prompt_hmac a = replicate 64 48"
proof -
  have scan: "scan_outbound ascii_ucd (\<lambda>_ _. Inr []) p [101, 110] sample_protected
      = Inr \<lparr>os_verdict = CLEAN, os_findings = []\<rparr>" for p
    by (simp add: scan_outbound_def findings_in_def sample_protected_def outside_placeholders_def Let_def)
  obtain a where "attest (sample_gateway (\<lambda>_ _. Inr [])) sample_snapshot sample_protected = Inr a"
    using sample_attest[of "\<lambda>_ _. Inr []"] by blast
  then have "attest (sp_gateway (sample_pipeline (\<lambda>_ _. Inr []))) pipeline_snapshot sample_protected = Inr a"
    and "at_scan a = \<lparr>os_verdict = CLEAN, os_findings = []\<rparr>"
    by (auto simp: attest_def sample_gateway_def sample_pipeline_def scan result_simps)
  moreover from this have "at_payload_hmac a = replicate 64 48" "at_prompt_hmac a = replicate 64 48"
    by (auto simp: attest_def sample_pipeline_def result_simps outbound_digest_def prompt_digest_def dest!: zero_digest)
  ultimately show ?thesis by (auto simp: is_clean_def)
qed

lemma sample_transmits:
  "\<exists>t. transmit_stage (sample_pipeline (\<lambda>_ _. Inr [])) pipeline_snapshot sample_protected sample_world
     = (Inr t, sample_world\<lparr>wd_outside := 1\<rparr>) \<and> tr_response t = \<lparr>pv_content = Some (lit ''ok''), pv_model = Some (lit ''m''), pv_usage = None,
           pv_finish_reason = None\<rparr>
     \<and> at_payload_hmac (tr_attestation t) = replicate 64 48 \<and> at_prompt_hmac (tr_attestation t) = replicate 64 48
     \<and> is_clean (at_scan (tr_attestation t))"
proof -
  obtain a where a: "attest (sp_gateway (sample_pipeline (\<lambda>_ _. Inr []))) pipeline_snapshot sample_protected = Inr a" "is_clean (at_scan a)"
    "at_payload_hmac a = replicate 64 48" "at_prompt_hmac a = replicate 64 48" using sample_attested by blast
  have "normalize_alias ascii_ucd (lit ''openai'') = lit ''openai''" by code_simp
  then have "registry_get ascii_ucd [(lit ''openai'', sample_provider)] (lit ''openai'') = Inr sample_provider"
    by (simp add: registry_get_def)
  with a show ?thesis
    by (simp add: transmit_stage_def on_outside_def send_def bindS_def liftS_def sample_pipeline_def sample_protected_def
        complete_stage_def run_stage_def catchS_def validate_provider_response_def sample_provider_def sample_world_def getS_def)
qed

lemma no_tokens_ok: "find_tokens [111, 107] = []"
  by (simp add: find_tokens_def regex_match_def startswith_def LEFT_DELIMITER_def List.map_filter_def)

lemma sample_restores:
  "\<exists>restored. restore_stage (sample_pipeline d) c pipeline_snapshot \<lparr>pv_content = Some (lit ''ok''), pv_model = Some (lit ''m''),
       pv_usage = None, pv_finish_reason = None\<rparr> w = (Inr restored, w) \<and> ro_text restored = lit ''ok''
     \<and> ro_summary restored = empty_summary"
proof -
  have "strip ascii_ucd (lit ''m'') = lit ''m''" by code_simp
  then have "validated_content ascii_ucd \<lparr>pv_content = Some (lit ''ok''), pv_model = Some (lit ''m''),
       pv_usage = None, pv_finish_reason = None\<rparr> 10 = Inr (lit ''ok'')"
    by (simp add: validated_content_def)
  then show ?thesis
    by (simp add: restore_stage_def on_vault_def run_stage_def catchS_def restore_def no_tokens_ok Let_def passthrough_def
        sample_pipeline_def sample_env_def liftS_def)
qed

lemma sample_runs:
  "\<exists>response outcome. run_request (sample_pipeline (\<lambda>_ _. Inr [])) sample_chat sample_attempt pipeline_snapshot sample_world
     = (Inr (response, outcome), sample_world\<lparr>wd_outside := 1\<rparr>)
     \<and> rq_counts outcome = merged_with (merged_with empty_summary empty_summary) empty_summary
     \<and> rq_prompt_hmac outcome = Some (replicate 64 48) \<and> rq_outbound_hmac outcome = Some (replicate 64 48)
     \<and> rq_response_hmac outcome = Some (replicate 64 48) \<and> rq_outbound_scan outcome = Some (lit ''clean'')
     \<and> rq_status_code outcome = 200 \<and> rq_error_code outcome = None"
proof -
  let ?P = "sample_pipeline (\<lambda>_ _. Inr [])" and ?c = "with_policy sample_attempt pipeline_snapshot"
  have "normalize_alias ascii_ucd (lit ''openai'') = lit ''openai''" by code_simp
  then have reg: "registry_get (og_ucd (sp_gateway ?P)) (og_providers (sp_gateway ?P)) (pa_provider_alias sample_attempt) = Inr sample_provider"
    by (simp add: registry_get_def sample_pipeline_defs)
  have det: "detect_stage ?P (cr_messages sample_chat) w = (Inr [[]], w)" for w :: "(unit, memory_vault, nat, audit_service) world"
    by (simp add: detect_stage_def sample_pipeline_defs run_stage_def catchS_def liftS_def)
  have guard: "guard_request ?P (cr_messages sample_chat) [[]] pipeline_snapshot = Inr ()"
    by (simp add: guard_request_def sample_pipeline_defs select_entities_id enforce_entity_budget_def entity_budget_def
        pipeline_snapshot_def sample_snapshot_def reject_blocked_entities_def)
  obtain t where t: "transmit_stage ?P pipeline_snapshot sample_protected sample_world = (Inr t, sample_world\<lparr>wd_outside := 1\<rparr>)"
    "tr_response t = \<lparr>pv_content = Some (lit ''ok''), pv_model = Some (lit ''m''), pv_usage = None, pv_finish_reason = None\<rparr>"
    "at_payload_hmac (tr_attestation t) = replicate 64 48" "at_prompt_hmac (tr_attestation t) = replicate 64 48"
    "is_clean (at_scan (tr_attestation t))"
    using sample_transmits by blast
  obtain restored where re: "restore_stage ?P ?c pipeline_snapshot (tr_response t) (sample_world\<lparr>wd_outside := 1\<rparr>)
      = (Inr restored, sample_world\<lparr>wd_outside := 1\<rparr>)" "ro_text restored = lit ''ok''" "ro_summary restored = empty_summary"
    unfolding t(2) using sample_restores by blast
  have digest: "gateway_response_digest (sp_gateway ?P) (p_tenant_id (pa_principal sample_attempt)) (ro_text restored) = Inr (replicate 64 48)"
    using zero_response_digest re(2) by (simp add: gateway_response_digest_def sample_pipeline_defs)
  show ?thesis
    unfolding run_request_def Let_def
    by (simp only: bindS_def liftS_def getS_def reg det guard sample_tokenizes t(1) re(1) digest prod.case sum.case)
       (use t(3-) re(3) in \<open>simp add: is_clean_def\<close>)
qed

lemma sample_records:
  assumes "rq_counts outcome = merged_with (merged_with empty_summary empty_summary) empty_summary"
    "rq_prompt_hmac outcome = Some (replicate 64 48)" "rq_outbound_hmac outcome = Some (replicate 64 48)"
    "rq_response_hmac outcome = Some (replicate 64 48)" "rq_outbound_scan outcome = Some (lit ''clean'')"
    "rq_status_code outcome = 200" "rq_error_code outcome = None" "wd_audit w = idle_service"
  shows "\<exists>w'. record_outcome (sample_pipeline d) sample_attempt (Some pipeline_snapshot) outcome True w = (Inr (), w')
     \<and> wd_outside w' = wd_outside w"
proof -
  let ?bag = "audit_payload sample_attempt (Some pipeline_snapshot) outcome"
  have counts: "rq_counts outcome = empty_summary" using assms(1) by (simp add: merged_with_def empty_summary_def)
  have code: "list_all is_alias_char (lit ''openai'')" "list_all is_alias_char (lit ''fast'')" "list_all is_alias_char (lit ''clean'')"
    by code_simp+
  have keys: "list_all (\<lambda>(k, n). COUNT_KEY_PATTERN k \<and> 0 \<le> n) (action_counts empty_summary)" by code_simp
  then have "\<forall>(k, n) \<in> set (action_counts empty_summary). COUNT_KEY_PATTERN k \<and> 0 \<le> n" by (simp add: list_all_iff)
  then have vc: "validated_counts (action_counts empty_summary) = Inr (action_counts empty_summary)"
    by (simp add: validated_counts_Inr)
  have "\<exists>r. mk_audit_record ((af_record ?bag)\<lparr>ar_status_code := 200, ar_session_id_hash := Some (replicate 64 48)\<rparr>) = Inr r"
    using vc code assms(2-7) counts
    by (simp add: mk_audit_record_def audit_checks_def audit_payload_def sample_pipeline_defs pipeline_snapshot_def
        sample_snapshot_def require_non_negative_def require_optional_non_negative_def require_code_def require_digest_def
        audit_bounds CODE_PATTERN_def HEX_PATTERN_def ascii_defs bindR_def list_all_iff empty_summary_def split: option.splits)
  then obtain r where r: "mk_audit_record ((af_record ?bag)\<lparr>ar_status_code := 200, ar_session_id_hash := Some (replicate 64 48)\<rparr>) = Inr r"
    by blast
  have "ar_tenant_id (af_record ?bag) = 2" "af_session_id ?bag = Some 3" "af_status_code ?bag = Some 200"
    using assms(6) by (simp_all add: audit_payload_def sample_pipeline_defs)
  then have "\<exists>s. adapter_record zero_hmac [] 0 ?bag idle_service = (Inr (), s)"
    using r by (simp add: adapter_record_def Let_def zero_session_digest submit_def idle_service_def)
  then obtain s where "adapter_record zero_hmac [] 0 ?bag idle_service = (Inr (), s)" by blast
  then show ?thesis
    using assms(8) by (simp add: record_outcome_def catchS_def on_audit_def run_stage_def sample_pipeline_def)
qed

lemma chat_served:
  "\<exists>response w'. invoke (sample_pipeline (\<lambda>_ _. Inr [])) sample_admission sample_chat sample_caller sample_world
     = (Inr response, w') \<and> wd_outside w' = 1"
proof -
  let ?P = "sample_pipeline (\<lambda>_ _. Inr [])"
  obtain response outcome where run: "run_request ?P sample_chat sample_attempt pipeline_snapshot sample_world
     = (Inr (response, outcome), sample_world\<lparr>wd_outside := 1\<rparr>)"
    and out: "rq_counts outcome = merged_with (merged_with empty_summary empty_summary) empty_summary"
    "rq_prompt_hmac outcome = Some (replicate 64 48)" "rq_outbound_hmac outcome = Some (replicate 64 48)"
    "rq_response_hmac outcome = Some (replicate 64 48)" "rq_outbound_scan outcome = Some (lit ''clean'')"
    "rq_status_code outcome = 200" "rq_error_code outcome = None"
    using sample_runs by blast
  have "wd_audit (sample_world\<lparr>wd_outside := 1\<rparr>) = idle_service" by (simp add: sample_world_def)
  from sample_records[OF out this, of "\<lambda>_ _. Inr []"] obtain w' where
    w': "record_outcome ?P sample_attempt (Some pipeline_snapshot) outcome True (sample_world\<lparr>wd_outside := 1\<rparr>) = (Inr (), w')"
    "wd_outside w' = 1" by auto
  have "sp_audit_fail_closed ?P" by (simp add: sample_pipeline_def)
  then show ?thesis using w' run by (simp add: invoke_def sample_begins sample_resolves bindS_def liftS_def)
qed

theorem served_implies_audited_witness:
  "\<exists>response w' entry. invoke (sample_pipeline (\<lambda>_ _. Inr [])) sample_admission sample_chat sample_caller sample_world
     = (Inr response, w') \<and> as_queue (wd_audit w') = [entry] \<and> ar_outbound_scan entry = Some (lit ''clean'')"
proof -
  obtain response w' where run: "invoke (sample_pipeline (\<lambda>_ _. Inr [])) sample_admission sample_chat sample_caller sample_world
     = (Inr response, w')" using chat_served by blast
  have "sp_audit (sample_pipeline (\<lambda>_ _. Inr [])) = adapter_record zero_hmac [] 0" "sp_audit_fail_closed (sample_pipeline (\<lambda>_ _. Inr []))"
    "as_fail_closed (wd_audit sample_world)" "as_queue (wd_audit sample_world) = []"
    by (simp_all add: sample_pipeline_def sample_world_def idle_service_def)
  then show ?thesis using served_implies_audited[OF _ _ _ run, of zero_hmac "[]" 0] run by auto
qed

theorem provider_sees_only_protected_witness:
  "\<exists>r w' protected x. invoke (sample_pipeline (\<lambda>_ _. Inr [])) sample_admission sample_chat sample_caller sample_world = (r, w')
     \<and> wd_outside w' = 1 \<and> length (pr_messages protected) \<le> 1
     \<and> send (sp_gateway (sample_pipeline (\<lambda>_ _. Inr []))) pipeline_snapshot (Some complete_stage) protected 0 = (x, 1)"
proof -
  obtain response w' where run: "invoke (sample_pipeline (\<lambda>_ _. Inr [])) sample_admission sample_chat sample_caller sample_world
     = (Inr response, w')" and o: "wd_outside w' = 1" using chat_served by blast
  have o0: "wd_outside sample_world = 0" by (simp add: sample_world_def)
  then have "wd_outside w' \<noteq> wd_outside sample_world" using o by simp
  from provider_sees_only_protected[OF run this] obtain attempt snapshot w1 outs protected x where
    "begin_attempt (sample_pipeline (\<lambda>_ _. Inr [])) sample_admission sample_chat sample_caller
        (sp_time (sample_pipeline (\<lambda>_ _. Inr [])) sample_world) = Inr attempt"
    "resolve_stage (sample_pipeline (\<lambda>_ _. Inr [])) attempt sample_world = (Inr snapshot, w1)"
    "pr_messages protected = map2 with_text (cr_messages sample_chat) outs"
    "send (sp_gateway (sample_pipeline (\<lambda>_ _. Inr []))) snapshot (Some complete_stage) protected 0 = (x, 1)"
    using o o0 by auto
  moreover from calculation have "attempt = sample_attempt" "snapshot = pipeline_snapshot"
    using sample_begins[of "\<lambda>_ _. Inr []"] sample_resolves[of "\<lambda>_ _. Inr []"] by auto
  moreover have "length (pr_messages protected) \<le> 1" using calculation(3) by (simp add: sample_chat_def)
  ultimately show ?thesis using run o by blast
qed

end
