(* ===== verification/Document_Pipeline.thy ===== *)
theory Document_Pipeline
  imports Document_Protection Pipeline
begin

text \<open>
  \<^verbatim>\<open>app/documents/pipeline.py\<close>: protect, serialize, scan, transmit, restore, attest. The policy
  source and the documents share the state of the database and its caches; the sink takes one
  audit record per call.
\<close>

section \<open>One document request\<close>

definition DEFAULT_INSTRUCTION_MAX_CHARS :: int where "DEFAULT_INSTRUCTION_MAX_CHARS = 4000"

record document_answer =
  da_request_id :: uuid
  da_session_id :: uuid
  da_document_id :: uuid
  da_provider :: ustr
  da_model :: ustr
  da_text :: ustr
  da_privacy :: privacy_summary
  da_outbound_hmac :: ustr

record ('s, 'v, 'o, 'a) document_pipeline =
  dl_protector :: "('s, 'v) document_protector"
  dl_resolve :: "uuid \<Rightarrow> ustr \<Rightarrow> ustr \<Rightarrow> ('s, policy_snapshot) op"
  dl_gateway :: "'o outbound_gateway"
  dl_max_output_chars :: nat
  dl_submit :: "audit_record \<Rightarrow> ('a, unit) op"
  dl_time :: "('s, 'v, 'o, 'a) document_world \<Rightarrow> rat"
  dl_instruction_max_chars :: int

definition mk_document_pipeline :: "('s, 'v, 'o, 'a) document_pipeline \<Rightarrow> ('s, 'v, 'o, 'a) document_pipeline res" where
  "mk_document_pipeline P = (if dl_instruction_max_chars P < 1 then Inl ValueError else Inr P)"

record document_request =
  dr_principal :: principal
  dr_request_id :: uuid
  dr_session_id :: uuid
  dr_user_id :: uuid
  dr_document_id :: uuid
  dr_provider :: ustr
  dr_model :: ustr
  dr_instruction :: ustr

definition enforce_instruction_size :: "ustr \<Rightarrow> int \<Rightarrow> unit res" where
  "enforce_instruction_size instruction limit =
     (if limit < int (length instruction) then Inl (GatewayError REQUEST_TOO_LARGE ''instruction_too_long'') else Inr ())"

definition protected_request :: "document_request \<Rightarrow> protected_document \<Rightarrow> protected_chat_request res" where
  "protected_request q d = mk_protected_request
     \<lparr>pr_request_id = dr_request_id q, pr_tenant_id = p_tenant_id (dr_principal q), pr_session_id = dr_session_id q,
      pr_provider_alias = dr_provider q, pr_model_alias = dr_model q,
      pr_messages = [\<lparr>cm_role = RSystem, cm_content = pd_instruction d\<rparr>, \<lparr>cm_role = RUser, cm_content = pd_text d\<rparr>],
      pr_policy_version = pd_policy_version d, pr_temperature = None, pr_max_output_tokens = None\<rparr>"

text \<open>
  \<open>_attest\<close>. \<open>response\<close> is the length and text of the answer with the latency of the provider, or
  None for a blocked request.
\<close>

definition document_audit_record :: "('s, 'v, 'o, 'a) document_pipeline \<Rightarrow> document_request \<Rightarrow> policy_snapshot \<Rightarrow> privacy_summary \<Rightarrow>
    attestation \<Rightarrow> bool \<Rightarrow> nat \<Rightarrow> nat \<Rightarrow> (ustr \<times> nat) option \<Rightarrow> audit_record res" where
  "document_audit_record P q policy summary attestation is_blocked elapsed request_characters response =
     (let (entity_counts, actions) = counts_from_summary summary; tenant_id = p_tenant_id (dr_principal q) in
      bindR (gateway_session_digest (dl_gateway P) tenant_id (dr_session_id q)) (\<lambda>session_hash.
      bindR (case response of None \<Rightarrow> Inr None
               | Some (txt, _) \<Rightarrow> bindR (gateway_response_digest (dl_gateway P) tenant_id txt) (\<lambda>d. Inr (Some d))) (\<lambda>response_hmac.
        mk_audit_record
          \<lparr>ar_tenant_id = tenant_id, ar_request_id = dr_request_id q, ar_status_code = if is_blocked then 422 else 200,
           ar_occurred_at = None, ar_api_key_id = Some (p_api_key_id (dr_principal q)), ar_session_id_hash = Some session_hash,
           ar_policy_id = Some (sn_policy_id policy), ar_policy_version = Some (int (sn_version policy)),
           ar_provider_alias = Some (dr_provider q), ar_model_alias = Some (dr_model q),
           ar_input_character_count = int request_characters,
           ar_output_character_count = (case response of None \<Rightarrow> 0 | Some (txt, _) \<Rightarrow> int (length txt)),
           ar_entity_counts = entity_counts, ar_actions = actions, ar_blocked = is_blocked,
           ar_block_reason_code = if is_blocked then Some (lit ''outbound_scan'') else None,
           ar_provider_latency_ms = map_option (\<lambda>(_, l). int l) response, ar_pipeline_latency_ms = Some (int elapsed),
           ar_error_code = None, ar_prompt_hmac = Some (at_prompt_hmac attestation), ar_response_hmac = response_hmac,
           ar_outbound_hmac = Some (at_payload_hmac attestation),
           ar_outbound_scan = Some (verdict_value (os_verdict (at_scan attestation)))\<rparr>)))"

definition attest_document :: "('s, 'v, 'o, 'a) document_pipeline \<Rightarrow> document_request \<Rightarrow> policy_snapshot \<Rightarrow> privacy_summary \<Rightarrow>
    attestation \<Rightarrow> bool \<Rightarrow> rat \<Rightarrow> nat \<Rightarrow> (ustr \<times> nat) option \<Rightarrow> (('s, 'v, 'o, 'a) document_world, unit) op" where
  "attest_document P q policy summary attestation is_blocked started request_characters response =
     bindS getS (\<lambda>w.
     bindS (liftS (document_audit_record P q policy summary attestation is_blocked (latency_ms started (dl_time P w))
              request_characters response)) (\<lambda>r.
       to_audit (dl_submit P r)))"

text \<open>\<open>run\<close>, after the gateway has answered: attest a blocked request, or restore, attest and reply.\<close>

definition deliver_document :: "('s, 'v, 'o, 'a) document_pipeline \<Rightarrow> document_request \<Rightarrow> policy_snapshot \<Rightarrow> protected_document \<Rightarrow>
    rat \<Rightarrow> send_outcome \<Rightarrow> (('s, 'v, 'o, 'a) document_world, document_answer) op" where
  "deliver_document P q policy protected started sent =
     (case sent of
        OutboundBlocked a \<Rightarrow>
          bindS (attest_document P q policy (pd_summary protected) a True started (length (pd_text protected)) None)
            (\<lambda>_. liftS (Inl blocked_error))
      | Transmitted t \<Rightarrow>
          bindS (in_vault (restore (te_ucd (dp_env (dl_protector P))) (dp_vault (dl_protector P)) (dl_max_output_chars P)
                    (p_tenant_id (dr_principal q)) (dr_session_id q) (tr_response t)
                    (sn_unknown_output_token_action policy))) (\<lambda>restored.
          let summary = merged_with (pd_summary protected) (ro_summary restored) in
          bindS (attest_document P q policy summary (tr_attestation t) False started (length (pd_text protected))
                    (Some (ro_text restored, tr_provider_latency_ms t))) (\<lambda>_.
            liftS (Inr \<lparr>da_request_id = dr_request_id q, da_session_id = dr_session_id q, da_document_id = dr_document_id q,
              da_provider = dr_provider q, da_model = ro_model restored, da_text = ro_text restored, da_privacy = summary,
              da_outbound_hmac = at_payload_hmac (tr_attestation t)\<rparr>))))"

definition run_document :: "('s, 'v, 'o, 'a) document_pipeline \<Rightarrow> document_request \<Rightarrow>
    (('s, 'v, 'o, 'a) document_world, document_answer) op" where
  "run_document P q =
     bindS getS (\<lambda>w0. let started = dl_time P w0; tenant_id = p_tenant_id (dr_principal q) in
     bindS (liftS (enforce_instruction_size (dr_instruction q) (dl_instruction_max_chars P))) (\<lambda>_.
     bindS (from_source (dl_resolve P tenant_id (dr_provider q) (dr_model q))) (\<lambda>policy.
     bindS (liftS (authorize (dl_gateway P) (dr_provider q))) (\<lambda>_.
     bindS (protect (dl_protector P) tenant_id (dr_user_id q) (dr_session_id q) (dr_document_id q) (dr_instruction q)) (\<lambda>protected.
     bindS (liftS (protected_request q protected)) (\<lambda>request.
     bindS (to_outside (send (dl_gateway P) policy None request)) (\<lambda>sent.
       deliver_document P q policy protected started sent)))))))"


section \<open>The stages of a request\<close>

lemma protect_frame:
  assumes "protect P tenant_id user_id session_id document_id instruction w = (r, w')"
  shows "dw_outside w' = dw_outside w \<and> dw_audit w' = dw_audit w"
  using assms by (auto simp: protect_def bindS_def from_source_def in_vault_def liftS_def split: prod.splits sum.splits if_splits)

lemma run_document_stages:
  assumes "run_document P q w = (r, w')"
  obtains (refused) e where "r = Inl e" "dw_outside w' = dw_outside w" "dw_audit w' = dw_audit w"
  | (sent) policy s1 protected w2 request x o' where
    "int (length (dr_instruction q)) \<le> dl_instruction_max_chars P"
    "dl_resolve P (p_tenant_id (dr_principal q)) (dr_provider q) (dr_model q) (dw_source w) = (Inr policy, s1)"
    "authorize (dl_gateway P) (dr_provider q) = Inr ()"
    "protect (dl_protector P) (p_tenant_id (dr_principal q)) (dr_user_id q) (dr_session_id q) (dr_document_id q) (dr_instruction q)
       (w\<lparr>dw_source := s1\<rparr>) = (Inr protected, w2)"
    "protected_request q protected = Inr request"
    "send (dl_gateway P) policy None request (dw_outside w) = (x, o')"
    "(case x of Inl e \<Rightarrow> (Inl e, w2\<lparr>dw_outside := o'\<rparr>)
      | Inr sent \<Rightarrow> deliver_document P q policy protected (dl_time P w) sent (w2\<lparr>dw_outside := o'\<rparr>)) = (r, w')"
    "dw_outside w2 = dw_outside w" "dw_audit w2 = dw_audit w"
proof -
  let ?t = "p_tenant_id (dr_principal q)"
  have run: "bindS (liftS (enforce_instruction_size (dr_instruction q) (dl_instruction_max_chars P))) (\<lambda>_.
     bindS (from_source (dl_resolve P ?t (dr_provider q) (dr_model q))) (\<lambda>policy.
     bindS (liftS (authorize (dl_gateway P) (dr_provider q))) (\<lambda>_.
     bindS (protect (dl_protector P) ?t (dr_user_id q) (dr_session_id q) (dr_document_id q) (dr_instruction q)) (\<lambda>protected.
     bindS (liftS (protected_request q protected)) (\<lambda>request.
     bindS (to_outside (send (dl_gateway P) policy None request)) (\<lambda>sent.
       deliver_document P q policy protected (dl_time P w) sent)))))) w = (r, w')"
    using assms by (simp add: run_document_def Let_def bindS_def[of getS])
  then show thesis
  proof (cases rule: bindS_cases)
    case (raised e)
    then show thesis by (intro refused) (auto simp: liftS_eq)
  next
    case (went_on u w1)
    then have size: "int (length (dr_instruction q)) \<le> dl_instruction_max_chars P" and w1: "w1 = w"
      by (auto simp: liftS_eq enforce_instruction_size_def split: if_splits)
    from went_on(2) show thesis
    proof (cases rule: bindS_cases)
      case (raised e)
      then show thesis using w1 by (intro refused) (auto simp: document_world_eq)
    next
      case (went_on policy w2)
      then obtain s1 where rs: "dl_resolve P ?t (dr_provider q) (dr_model q) (dw_source w) = (Inr policy, s1)"
        and w2: "w2 = w\<lparr>dw_source := s1\<rparr>" using w1 by (auto simp: document_world_eq)
      from went_on(2) show thesis
      proof (cases rule: bindS_cases)
        case (raised e)
        then show thesis using w2 by (intro refused) (auto simp: liftS_eq)
      next
        case (went_on u w3)
        then have au: "authorize (dl_gateway P) (dr_provider q) = Inr ()" and w3: "w3 = w2" by (auto simp: liftS_eq)
        from went_on(2) show thesis
        proof (cases rule: bindS_cases)
          case (raised e)
          then show thesis using w2 w3 protect_frame[OF raised(1)] by (intro refused) auto
        next
          case (went_on protected w4)
          note fr = protect_frame[OF went_on(1)] and pr = went_on(1)[unfolded w3 w2]
          from went_on(2) show thesis
          proof (cases rule: bindS_cases)
            case (raised e)
            then show thesis using w2 w3 fr by (intro refused) (auto simp: liftS_eq)
          next
            case (went_on request w5)
            then have rq: "protected_request q protected = Inr request" and w5: "w5 = w4" by (auto simp: liftS_eq)
            obtain x o' where x: "send (dl_gateway P) policy None request (dw_outside w) = (x, o')" by fastforce
            have "to_outside (send (dl_gateway P) policy None request) w4 = (x, w4\<lparr>dw_outside := o'\<rparr>)"
              using x fr w2 w3 by (simp add: to_outside_def)
            then have "(case x of Inl e \<Rightarrow> (Inl e, w4\<lparr>dw_outside := o'\<rparr>)
                | Inr sent \<Rightarrow> deliver_document P q policy protected (dl_time P w) sent (w4\<lparr>dw_outside := o'\<rparr>)) = (r, w')"
              using went_on(2) w5 by (simp add: bindS_def split: sum.splits)
            then show thesis using sent[OF size rs au pr rq x] fr w2 w3 by simp
          qed
        qed
      qed
    qed
  qed
qed

lemma attest_document_Inr:
  assumes "attest_document P q policy summary a blocked started n response w = (rs, w')"
  shows "dw_outside w' = dw_outside w"
    and "rs = Inr u \<or> dw_audit w' \<noteq> dw_audit w \<Longrightarrow> \<exists>record elapsed ra.
      document_audit_record P q policy summary a blocked elapsed n response = Inr record
      \<and> dl_submit P record (dw_audit w) = (ra, dw_audit w') \<and> rs = ra"
  using assms by (auto simp: attest_document_def state_simps bindS_def liftS_def to_audit_def split: sum.splits prod.splits)

lemma deliver_document_outside: "deliver_document P q policy protected started sent w = (r, w') \<Longrightarrow> dw_outside w' = dw_outside w"
  by (cases sent) (auto simp: deliver_document_def Let_def liftS_eq document_world_eq elim!: bindS_cases dest!: attest_document_Inr(1))

lemma document_audit_record_Inr:
  "document_audit_record P q policy summary a blocked elapsed n response = Inr rec \<Longrightarrow>
     ar_tenant_id rec = p_tenant_id (dr_principal q) \<and> ar_request_id rec = dr_request_id q
   \<and> ar_policy_id rec = Some (sn_policy_id policy) \<and> ar_policy_version rec = Some (int (sn_version policy))
   \<and> ar_status_code rec = (if blocked then 422 else 200) \<and> ar_blocked rec = blocked
   \<and> ar_outbound_hmac rec = Some (at_payload_hmac a) \<and> ar_outbound_scan rec = Some (verdict_value (os_verdict (at_scan a)))
   \<and> ar_output_character_count rec = (case response of None \<Rightarrow> 0 | Some (txt, _) \<Rightarrow> int (length txt))"
  by (auto simp: document_audit_record_def Let_def result_simps case_prod_beta dest!: mk_audit_record_Inr)

text \<open>
  C3. A document reaches a provider only when it has been through every stage: if a document
  request changes the world outside at all, then the destination was permitted by the tenant's
  policy before the document was opened; the document was analysed and its text rebuilt with every
  labelled span treated as its label says; the instruction had no blocked type and was transformed
  in the same session, if anything was found in it; the one request handed to the gateway carries
  the protected instruction as system message and the protected text as user message; and the last
  scan found in neither a value the policy acts on.
\<close>

theorem document_provider_sees_only_protected:
  assumes "run_document P q w = (r, w')" "dw_outside w' \<noteq> dw_outside w"
  shows "\<exists>policy s1 a s2 es ms rs (protected :: protected_document) request x. let D = dl_protector P; t = p_tenant_id (dr_principal q);
        u = dr_session_id q; body = xd_text (sd_document (an_segmented a)) in
      int (length (dr_instruction q)) \<le> dl_instruction_max_chars P
    \<and> dl_resolve P t (dr_provider q) (dr_model q) (dw_source w) = (Inr policy, s1)
    \<and> analyze (dp_analyzer D) t (dr_user_id q) (dr_document_id q) s1 = (Inr a, s2)
    \<and> detect_instruction D (dr_instruction q) = Inr es \<and> (\<forall>e \<in> set es. action_for (an_policy a) (de_entity_type e) \<noteq> BLOCK)
    \<and> length rs = length (an_spans a)
    \<and> (\<forall>i < length (an_spans a). span_result (dp_env D) t u body (as_detections a ! i, ls_action (an_spans a ! i)) (ms ! i) (rs ! i))
    \<and> pd_text protected = rebuild body 0 (edits (enumerate 0 (zip (as_detections a) (map ls_action (an_spans a)))) rs)
    \<and> (if es = [] then pd_instruction protected = dr_instruction q
       else \<exists>v ti v'. transform (dp_env D) (dp_vault D) t u (dr_instruction q) es (policy_view (an_policy a)) v = (Inr ti, v')
              \<and> pd_instruction protected = tt_text ti)
    \<and> pr_messages request = [\<lparr>cm_role = RSystem, cm_content = pd_instruction protected\<rparr>, \<lparr>cm_role = RUser, cm_content = pd_text protected\<rparr>]
    \<and> pr_provider_alias request = dr_provider q \<and> pr_tenant_id request = t
    \<and> (\<forall>m \<in> set (pr_messages request). \<forall>e.
         \<not> leaks (og_ucd (dl_gateway P)) (og_detector (dl_gateway P)) policy (og_language (dl_gateway P)) (cm_content m) e)
    \<and> send (dl_gateway P) policy None request (dw_outside w) = (x, dw_outside w')"
  using assms(1)
proof (cases rule: run_document_stages)
  case (refused e)
  then show ?thesis using assms(2) by simp
next
  case (sent policy s1 protected w2 request x o')
  have o': "o' = dw_outside w'" using sent(7) by (auto split: sum.splits dest!: deliver_document_outside)
  then have changed: "o' \<noteq> dw_outside w" using assms(2) by simp
  obtain b adapter where quiet: "\<forall>m \<in> set (pr_messages request). \<forall>e.
      \<not> leaks (og_ucd (dl_gateway P)) (og_detector (dl_gateway P)) policy (og_language (dl_gateway P)) (cm_content m) e"
    by (rule send_changes[OF sent(6)]) (use changed in auto)
  from sent(5) have request: "pr_messages request =
      [\<lparr>cm_role = RSystem, cm_content = pd_instruction protected\<rparr>, \<lparr>cm_role = RUser, cm_content = pd_text protected\<rparr>]"
    "pr_provider_alias request = dr_provider q" "pr_tenant_id request = p_tenant_id (dr_principal q)"
    by (auto simp: protected_request_def mk_protected_request_def)
  from sent(4) show ?thesis
  proof (rule protect_Inr)
    fix a s' es t v1 v2
    assume an: "analyze (dp_analyzer (dl_protector P)) (p_tenant_id (dr_principal q)) (dr_user_id q) (dr_document_id q)
        (dw_source (w\<lparr>dw_source := s1\<rparr>)) = (Inr a, s')"
      and es: "detect_instruction (dl_protector P) (dr_instruction q) = Inr es"
        "\<forall>e \<in> set es. action_for (an_policy a) (de_entity_type e) \<noteq> BLOCK"
      and tr: "transform (dp_env (dl_protector P)) (dp_vault (dl_protector P)) (p_tenant_id (dr_principal q)) (dr_session_id q)
        (xd_text (sd_document (an_segmented a))) (as_detections a)
        (document_entity_budget (an_policy a) (dp_max_entities (dl_protector P))) (dw_vault (w\<lparr>dw_source := s1\<rparr>)) = (Inr t, v1)"
      and text_eq: "pd_text protected = tt_text t"
      and ins: "es = [] \<and> v2 = v1 \<and> pd_instruction protected = dr_instruction q \<or>
        (\<exists>ti. transform (dp_env (dl_protector P)) (dp_vault (dl_protector P)) (p_tenant_id (dr_principal q)) (dr_session_id q)
            (dr_instruction q) es (policy_view (an_policy a)) v1 = (Inr ti, v2) \<and> pd_instruction protected = tt_text ti \<and> es \<noteq> [])"
    note pt = protected_text[OF an tr]
    then obtain ms rs where body: "length rs = length (an_spans a)"
      "\<forall>i < length (an_spans a). span_result (dp_env (dl_protector P)) (p_tenant_id (dr_principal q)) (dr_session_id q)
         (xd_text (sd_document (an_segmented a))) (as_detections a ! i, ls_action (an_spans a ! i)) (ms ! i) (rs ! i)"
      "pd_text protected = rebuild (xd_text (sd_document (an_segmented a))) 0
        (edits (enumerate 0 (zip (as_detections a) (map ls_action (an_spans a)))) rs)" using text_eq by auto
    have i: "if es = [] then pd_instruction protected = dr_instruction q
       else \<exists>v ti v'. transform (dp_env (dl_protector P)) (dp_vault (dl_protector P)) (p_tenant_id (dr_principal q)) (dr_session_id q)
            (dr_instruction q) es (policy_view (an_policy a)) v = (Inr ti, v') \<and> pd_instruction protected = tt_text ti"
      using ins by auto
    show ?thesis unfolding Let_def
      by (intro exI[of _ policy] exI[of _ a] exI[of _ es] exI[of _ ms] exI[of _ rs] exI[of _ protected]
          exI[of _ request] exI[of _ x] exI conjI sent(1,2) es body request quiet i; use an sent(2,6) o' in simp)
  qed
qed


text \<open>
  What the record does not cover: when the provider fails, or its answer cannot be restored, the
  payload has been serialized, scanned and sent, and no record is written.
\<close>

lemma failure_after_serialisation_unattested:
  assumes "int (length (dr_instruction q)) \<le> dl_instruction_max_chars P"
    "dl_resolve P (p_tenant_id (dr_principal q)) (dr_provider q) (dr_model q) (dw_source w) = (Inr policy, s1)"
    "authorize (dl_gateway P) (dr_provider q) = Inr ()"
    "protect (dl_protector P) (p_tenant_id (dr_principal q)) (dr_user_id q) (dr_session_id q) (dr_document_id q) (dr_instruction q)
       (w\<lparr>dw_source := s1\<rparr>) = (Inr protected, w2)"
    "protected_request q protected = Inr request"
    "send (dl_gateway P) policy None request (dw_outside w) = (Inl e, o')"
  shows "run_document P q w = (Inl e, w2\<lparr>dw_outside := o'\<rparr>)" "dw_audit w2 = dw_audit w"
proof -
  have fr: "dw_outside w2 = dw_outside w" "dw_audit w2 = dw_audit w" using protect_frame[OF assms(4)] by simp_all
  show "dw_audit w2 = dw_audit w" by (rule fr(2))
  have size: "enforce_instruction_size (dr_instruction q) (dl_instruction_max_chars P) = Inr ()"
    using assms(1) by (simp add: enforce_instruction_size_def)
  show "run_document P q w = (Inl e, w2\<lparr>dw_outside := o'\<rparr>)"
    by (simp add: run_document_def Let_def bindS_def from_source_def to_outside_def liftS_def size assms(2-6) fr)
qed


section \<open>A worked request\<close>

definition hello_document :: extracted_document where
  "hello_document = \<lparr>xd_text = lit ''hello'', xd_pages = [\<lparr>pg_number = 1, pg_start = 0, pg_end = 5\<rparr>]\<rparr>"

definition hello_pipeline :: "(unit, memory_vault, nat, audit_service) document_pipeline" where
  "hello_pipeline =
     \<lparr>dl_protector =
        \<lparr>dp_analyzer = \<lparr>az_segment = (\<lambda>_ _ _. liftS (segment_document \<lparr>sm_max_characters = 16, sm_overlap = 12\<rparr> hello_document)),
           az_detector = (\<lambda>_ _. Inr []), az_snapshot_for = (\<lambda>_. liftS (Inr pipeline_snapshot)), az_gathered = (\<lambda>es. es),
           az_max_entities = 5\<rparr>,
         dp_env = sample_env, dp_vault = memory_ops, dp_detector = (\<lambda>_ _. Inr []), dp_max_entities = 5, dp_language = lit ''en''\<rparr>,
      dl_resolve = (\<lambda>_ _ _. liftS (Inr pipeline_snapshot)), dl_gateway = sp_gateway (sample_pipeline (\<lambda>_ _. Inr [])),
      dl_max_output_chars = 10, dl_submit = submit 0, dl_time = (\<lambda>_. 0), dl_instruction_max_chars = 5\<rparr>"

definition hello_request :: document_request where
  "hello_request = \<lparr>dr_principal = sample_caller, dr_request_id = 1, dr_session_id = 3, dr_user_id = 9, dr_document_id = 4,
     dr_provider = lit ''openai'', dr_model = lit ''fast'', dr_instruction = []\<rparr>"

definition hello_world :: "(unit, memory_vault, nat, audit_service) document_world" where
  "hello_world = \<lparr>dw_source = (), dw_vault = sample_vault, dw_outside = 0, dw_audit = idle_service\<rparr>"

definition hello_analyzed :: analyzed_document where
  "hello_analyzed = \<lparr>an_tenant_id = 2, an_document_id = 4,
     an_segmented = \<lparr>sd_document = hello_document, sd_segments = [\<lparr>sg_index = 0, sg_start = 0, sg_end = 5, sg_pages = [1]\<rparr>]\<rparr>,
     an_spans = [], an_policy = pipeline_snapshot\<rparr>"

definition hello_protected :: protected_document where
  "hello_protected = \<lparr>pd_tenant_id = 2, pd_session_id = 3, pd_document_id = 4, pd_text = lit ''hello'', pd_instruction = [],
     pd_summary = empty_summary, pd_policy_version = 1\<rparr>"

definition hello_sent :: protected_chat_request where
  "hello_sent = \<lparr>pr_request_id = 1, pr_tenant_id = 2, pr_session_id = 3, pr_provider_alias = lit ''openai'',
     pr_model_alias = lit ''fast'',
     pr_messages = [\<lparr>cm_role = RSystem, cm_content = []\<rparr>, \<lparr>cm_role = RUser, cm_content = lit ''hello''\<rparr>],
     pr_policy_version = 1, pr_temperature = None, pr_max_output_tokens = None\<rparr>"

lemma hello_analysis: "analyze (dp_analyzer (dl_protector hello_pipeline)) 2 9 4 () = (Inr hello_analyzed, ())"
  by code_simp

lemma hello_protection: "protect (dl_protector hello_pipeline) 2 9 3 4 [] hello_world = (Inr hello_protected, hello_world)"
proof -
  have none: "as_detections hello_analyzed = []" by (simp add: as_detections_def hello_analyzed_def)
  have ins: "detect_instruction (dl_protector hello_pipeline) [] = Inr []"
    by (simp add: detect_instruction_def hello_pipeline_def sample_env_def)
  have "select_entities (lit ''hello'') [] (document_entity_budget pipeline_snapshot 5) = Inr []" by (simp add: select_entities_id)
  then obtain t where t: "transform sample_env memory_ops 2 3 (lit ''hello'') [] (document_entity_budget pipeline_snapshot 5) sample_vault
      = (Inr t, sample_vault)" "tt_text t = lit ''hello''" "tt_summary t = empty_summary"
    by (simp add: transform_def bindS_def liftS_def enforce_limit_def document_entity_budget_def
        plan_for_def mint_def pending_of_plan_def splice_def splice_order_def slice_def summarize_def
        tally_def empty_summary_def bindR_def)
  have v: "verify_every_span_was_acted_on hello_analyzed t = Inr ()"
    using t(3) by (simp add: verify_every_span_was_acted_on_def hello_analyzed_def empty_summary_def)
  have B: "an_policy hello_analyzed = pipeline_snapshot" "xd_text (sd_document (an_segmented hello_analyzed)) = lit ''hello''"
    by (simp_all add: hello_analyzed_def hello_document_def)
  have P: "dp_env (dl_protector hello_pipeline) = sample_env" "dp_vault (dl_protector hello_pipeline) = memory_ops"
    "dp_max_entities (dl_protector hello_pipeline) = 5" by (simp_all add: hello_pipeline_def)
  have W: "dw_source hello_world = ()" "dw_vault hello_world = sample_vault" "hello_world\<lparr>dw_source := ()\<rparr> = hello_world"
    "hello_world\<lparr>dw_vault := sample_vault\<rparr> = hello_world" by (simp_all add: hello_world_def)
  show ?thesis
    by (simp only: protect_def bindS_def from_source_def in_vault_def liftS_def W hello_analysis ins B reject_blocked_instruction.simps P
        none t(1) v prod.case sum.case if_True option.case simp_thms)
      (simp add: mk_protected_document_def t W hello_protected_def pipeline_snapshot_def sample_snapshot_def hello_world_def)
qed

lemma hello_attested:
  "\<exists>a. attest (dl_gateway hello_pipeline) pipeline_snapshot hello_sent = Inr a \<and> is_clean (at_scan a)
     \<and> at_payload_hmac a = replicate 64 48 \<and> at_prompt_hmac a = replicate 64 48"
proof -
  have enc: "utf8_encode (lit ''openai'') = Inr (lit ''openai'')" "utf8_encode (lit ''fast'') = Inr (lit ''fast'')"
    "utf8_encode (lit ''user'') = Inr (lit ''user'')" "utf8_encode (lit ''system'') = Inr (lit ''system'')"
    "utf8_encode (lit ''hello'') = Inr (lit ''hello'')" "utf8_encode [] = Inr []"
    by (rule utf8_encode_ascii; auto)+
  moreover have "nat_str (Suc 0) = [49]" "nat_str (Suc (Suc 0)) = [50]" by (subst nat_str.simps; simp)+
  ultimately obtain b where b: "serialize_outbound hello_sent = Inr b" "length b < 256"
    by (simp add: serialize_outbound_def outbound_parts_def hello_sent_def SERIALIZATION_VERSION_def to_bytes_be_def bindR_def
        del: enc_be.simps nat_str.simps utf8_encode.simps)
  obtain d where d: "outbound_digest zero_hmac [] 2 b = Inr d"
    using frame_ok[of "[OUTBOUND_DOMAIN, uuid_bytes 2, b]" 4] b(2)
    by (auto simp: outbound_digest_def correlation_digest_def OUTBOUND_DOMAIN_def simp del: frame.simps)
  obtain e where e: "prompt_digest zero_hmac [] 2 (outbound_segments hello_sent) = Inr e"
    using frame_ok[of "[PROMPT_DOMAIN, uuid_bytes 2, [], lit ''hello'']" 4] enc(5,6)
    by (auto simp: prompt_digest_def correlation_digest_def PROMPT_DOMAIN_def outbound_segments_def hello_sent_def
        simp del: frame.simps utf8_encode.simps)
  have scan: "scan_outbound ascii_ucd (\<lambda>_ _. Inr []) p [101, 110] hello_sent = Inr \<lparr>os_verdict = CLEAN, os_findings = []\<rparr>" for p
    by (simp add: scan_outbound_def findings_in_def hello_sent_def outside_placeholders_def Let_def)
  have "pr_tenant_id hello_sent = 2" by (simp add: hello_sent_def)
  moreover have "d = replicate 64 48" using d zero_digest by (simp add: outbound_digest_def)
  moreover have "e = replicate 64 48" using e by (auto simp: prompt_digest_def result_simps dest!: zero_digest)
  ultimately show ?thesis using b(1) d e scan
    by (simp add: attest_def hello_pipeline_def sample_pipeline_def is_clean_def)
qed

lemma hello_transmits:
  "\<exists>t. send (dl_gateway hello_pipeline) pipeline_snapshot None hello_sent 0 = (Inr (Transmitted t), 1)
     \<and> tr_response t = \<lparr>pv_content = Some (lit ''ok''), pv_model = Some (lit ''m''), pv_usage = None, pv_finish_reason = None\<rparr>
     \<and> at_payload_hmac (tr_attestation t) = replicate 64 48 \<and> at_prompt_hmac (tr_attestation t) = replicate 64 48
     \<and> is_clean (at_scan (tr_attestation t))"
proof -
  obtain a where a: "attest (dl_gateway hello_pipeline) pipeline_snapshot hello_sent = Inr a" "is_clean (at_scan a)"
    "at_payload_hmac a = replicate 64 48" "at_prompt_hmac a = replicate 64 48" using hello_attested by blast
  have "normalize_alias ascii_ucd (lit ''openai'') = lit ''openai''" by code_simp
  then have reg: "registry_get (og_ucd (dl_gateway hello_pipeline)) (og_providers (dl_gateway hello_pipeline)) (pr_provider_alias hello_sent)
      = Inr sample_provider"
    by (simp add: registry_get_def hello_pipeline_def sample_pipeline_def hello_sent_def)
  show ?thesis using a by (simp add: send_def bindS_def liftS_def reg getS_def) (simp add: sample_provider_def bindS_def liftS_def getS_def)
qed

lemma hello_recorded:
  assumes "at_payload_hmac a = replicate 64 48" "at_prompt_hmac a = replicate 64 48" "is_clean (at_scan a)"
  shows "\<exists>rec. document_audit_record hello_pipeline hello_request pipeline_snapshot (merged_with empty_summary empty_summary) a False n m
    (Some ([111, 107], l)) = Inr rec"
proof -
  have sum: "merged_with empty_summary empty_summary = empty_summary" by (simp add: merged_with_def empty_summary_def)
  have code: "list_all is_alias_char (lit ''openai'')" "list_all is_alias_char (lit ''fast'')" "list_all is_alias_char (lit ''clean'')"
    by code_simp+
  have "list_all (\<lambda>(k, n). COUNT_KEY_PATTERN k \<and> 0 \<le> n) (action_counts empty_summary)" by code_simp
  then have "\<forall>(k, n) \<in> set (action_counts empty_summary). COUNT_KEY_PATTERN k \<and> 0 \<le> n" by (simp add: list_all_iff)
  then have vc: "validated_counts (action_counts empty_summary) = Inr (action_counts empty_summary)"
    by (simp add: validated_counts_Inr)
  have G: "gateway_session_digest (dl_gateway hello_pipeline) 2 3 = Inr (replicate 64 48)"
    "gateway_response_digest (dl_gateway hello_pipeline) 2 [111, 107] = Inr (replicate 64 48)"
    using zero_session_digest zero_response_digest
    by (simp_all add: gateway_session_digest_def gateway_response_digest_def hello_pipeline_def sample_pipeline_def)
  have Q: "p_tenant_id (dr_principal hello_request) = 2" "dr_session_id hello_request = 3"
    "dr_provider hello_request = lit ''openai''" "dr_model hello_request = lit ''fast''"
    by (simp_all add: hello_request_def sample_caller_def sample_principal_def)
  have cl: "os_verdict (at_scan a) = CLEAN" using assms(3) by (simp add: is_clean_def)
  show ?thesis
    unfolding document_audit_record_def sum counts_from_summary_def Let_def prod.case Q G
    using vc code assms(1,2) cl
    by (simp add: G mk_audit_record_def audit_checks_def require_non_negative_def require_optional_non_negative_def require_code_def
        require_digest_def audit_bounds CODE_PATTERN_def HEX_PATTERN_def ascii_defs bindR_def list_all_iff
        empty_summary_def split: option.splits)
qed

lemma hello_served:
  "\<exists>answer w'. run_document hello_pipeline hello_request hello_world = (Inr answer, w') \<and> dw_outside w' = 1"
proof -
  obtain t where t: "send (dl_gateway hello_pipeline) pipeline_snapshot None hello_sent 0 = (Inr (Transmitted t), 1)"
    "tr_response t = \<lparr>pv_content = Some (lit ''ok''), pv_model = Some (lit ''m''), pv_usage = None, pv_finish_reason = None\<rparr>"
    "at_payload_hmac (tr_attestation t) = replicate 64 48" "at_prompt_hmac (tr_attestation t) = replicate 64 48"
    "is_clean (at_scan (tr_attestation t))" using hello_transmits by blast
  obtain rec where rec: "document_audit_record hello_pipeline hello_request pipeline_snapshot (merged_with empty_summary empty_summary)
      (tr_attestation t) False 0 5 (Some ([111, 107], tr_provider_latency_ms t)) = Inr rec"
    using hello_recorded[OF t(3-5)] by blast
  have Q: "p_tenant_id (dr_principal hello_request) = 2" "dr_session_id hello_request = 3" "dr_instruction hello_request = []"
    "dr_provider hello_request = lit ''openai''" "dr_model hello_request = lit ''fast''" "dr_user_id hello_request = 9"
    "dr_document_id hello_request = 4"
    by (simp_all add: hello_request_def sample_caller_def sample_principal_def)
  have size: "enforce_instruction_size [] (dl_instruction_max_chars hello_pipeline) = Inr ()"
    by (simp add: enforce_instruction_size_def hello_pipeline_def)
  have res: "dl_resolve hello_pipeline x y z = liftS (Inr pipeline_snapshot)" for x y z by (simp add: hello_pipeline_def)
  have "normalize_alias ascii_ucd (lit ''openai'') = lit ''openai''" by code_simp
  then have auth: "authorize (dl_gateway hello_pipeline) (lit ''openai'') = Inr ()"
    by (simp add: authorize_def registry_get_def hello_pipeline_def sample_pipeline_def)
  have rq: "protected_request hello_request hello_protected = Inr hello_sent"
    by (simp add: protected_request_def hello_request_def hello_protected_def hello_sent_def mk_protected_request_def
        sample_caller_def sample_principal_def)
  have W: "dw_source hello_world = ()" "dw_outside hello_world = 0" "hello_world\<lparr>dw_source := ()\<rparr> = hello_world" by (simp_all add: hello_world_def)
  have "strip ascii_ucd (lit ''m'') = lit ''m''" by code_simp
  then have vc: "validated_content ascii_ucd (tr_response t) 10 = Inr (lit ''ok'')" by (simp add: validated_content_def t(2))
  let ?r = "passthrough (tr_response t) (lit ''ok'')"
  have re: "restore (te_ucd (dp_env (dl_protector hello_pipeline))) (dp_vault (dl_protector hello_pipeline)) (dl_max_output_chars hello_pipeline)
      2 3 (tr_response t) action v = (Inr ?r, v)" for action v
    using vc by (simp add: restore_def hello_pipeline_def sample_env_def liftS_def no_tokens_ok)
  have r: "ro_text ?r = [111, 107]" "ro_summary ?r = empty_summary" by (simp_all add: passthrough_def)
  have h: "pd_summary hello_protected = empty_summary" "length (pd_text hello_protected) = 5" by (simp_all add: hello_protected_def)
  have tm: "latency_ms (dl_time hello_pipeline u) (dl_time hello_pipeline v) = 0" for u v by (simp add: hello_pipeline_def latency_ms_def)
  obtain s where sub: "dl_submit hello_pipeline rec idle_service = (Inr (), s)"
    by (simp add: hello_pipeline_def submit_def idle_service_def)
  let ?w = "hello_world\<lparr>dw_outside := 1\<rparr>"
  have vw: "?w\<lparr>dw_vault := dw_vault ?w\<rparr> = ?w" "dw_audit ?w = idle_service" by (simp_all add: hello_world_def)
  have att: "attest_document hello_pipeline hello_request pipeline_snapshot (merged_with empty_summary empty_summary) (tr_attestation t) False
      (dl_time hello_pipeline hello_world) 5 (Some ([111, 107], tr_provider_latency_ms t)) ?w = (Inr (), ?w\<lparr>dw_audit := s\<rparr>)"
    by (simp only: attest_document_def bindS_def getS_def liftS_def tm rec to_audit_def vw sub prod.case sum.case)
  have "\<exists>answer. deliver_document hello_pipeline hello_request pipeline_snapshot hello_protected (dl_time hello_pipeline hello_world)
      (Transmitted t) ?w = (Inr answer, ?w\<lparr>dw_audit := s\<rparr>)"
    by (simp only: deliver_document_def send_outcome.case bindS_def in_vault_def Q re vw Let_def r h att liftS_def prod.case sum.case) simp
  then show ?thesis
    by (simp only: run_document_def bindS_def getS_def Let_def liftS_def Q size res from_source_def W auth hello_protection rq to_outside_def
        t(1) prod.case sum.case) fastforce
qed

theorem document_provider_sees_only_protected_witness:
  "\<exists>answer w' protected x. run_document hello_pipeline hello_request hello_world = (Inr answer, w') \<and> dw_outside w' = 1
     \<and> length (pr_messages protected) = 2 \<and> pr_tenant_id protected = 2
     \<and> send (dl_gateway hello_pipeline) pipeline_snapshot None protected 0 = (x, 1)"
proof -
  obtain answer w' where run: "run_document hello_pipeline hello_request hello_world = (Inr answer, w')" "dw_outside w' = 1"
    using hello_served by blast
  have "dw_outside w' \<noteq> dw_outside hello_world" using run(2) by (simp add: hello_world_def)
  from document_provider_sees_only_protected[OF run(1) this] obtain policy s1 protected x where
    "dl_resolve hello_pipeline (p_tenant_id (dr_principal hello_request)) (dr_provider hello_request) (dr_model hello_request)
       (dw_source hello_world) = (Inr policy, s1)"
    "send (dl_gateway hello_pipeline) policy None protected (dw_outside hello_world) = (x, dw_outside w')"
    "pr_tenant_id protected = p_tenant_id (dr_principal hello_request)" "length (pr_messages protected) = 2"
    unfolding Let_def by (elim exE conjE) (rule that, assumption, assumption, assumption, simp)
  then show ?thesis using run
    by (auto simp: hello_pipeline_def liftS_def hello_request_def sample_caller_def sample_principal_def hello_world_def)
qed


end
