(* ===== verification/Http_Boundary.thy ===== *)
theory Http_Boundary
  imports Pipeline Codec
begin

text \<open>
  The edge of the HTTP layer: the error envelope and the handlers that render it
  (\<^verbatim>\<open>app/api/errors.py\<close>, with the messages of \<^verbatim>\<open>app/domain/errors.py\<close>), and the middleware of
  \<^verbatim>\<open>app/api/middleware.py\<close>: correlation ids, the limit on request bodies as a step relation over
  the messages that pass, and the security headers. The application behind the middleware is
  arbitrary: it may receive and send in any order.
\<close>

section \<open>Error responses\<close>

primrec catalog_message :: "error_code \<Rightarrow> ustr" where
  "catalog_message AUTHENTICATION_REQUIRED = lit ''Authentication is required.''"
| "catalog_message AUTHENTICATION_FAILED = lit ''The provided credentials are not valid.''"
| "catalog_message AUTHORIZATION_FAILED = lit ''The credentials do not grant access to this operation.''"
| "catalog_message RATE_LIMIT_EXCEEDED = lit ''The request rate limit has been exceeded.''"
| "catalog_message REQUEST_TOO_LARGE = lit ''The request body exceeds the configured limit.''"
| "catalog_message INVALID_REQUEST = lit ''The request is not valid.''"
| "catalog_message UNSUPPORTED_LANGUAGE = lit ''The requested language is not supported.''"
| "catalog_message POLICY_NOT_FOUND = lit ''No active privacy policy is configured.''"
| "catalog_message POLICY_VIOLATION = lit ''The request was blocked by the active privacy policy.''"
| "catalog_message ENTITY_LIMIT_EXCEEDED = lit ''The request contains more sensitive values than the policy allows.''"
| "catalog_message PRIVACY_DETECTOR_UNAVAILABLE = lit ''The privacy detection service is unavailable.''"
| "catalog_message VAULT_UNAVAILABLE = lit ''The secure mapping service is unavailable.''"
| "catalog_message VAULT_ENCRYPTION_FAILED = lit ''The secure mapping service could not complete the operation.''"
| "catalog_message PROVIDER_NOT_ALLOWED = lit ''The requested provider is not permitted.''"
| "catalog_message MODEL_NOT_ALLOWED = lit ''The requested model is not permitted.''"
| "catalog_message PROVIDER_TIMEOUT = lit ''The upstream model provider did not respond in time.''"
| "catalog_message PROVIDER_UNAVAILABLE = lit ''The upstream model provider is unavailable.''"
| "catalog_message PROVIDER_RESPONSE_INVALID = lit ''The upstream model provider returned an unusable response.''"
| "catalog_message RESTORATION_FAILED = lit ''The response could not be securely restored.''"
| "catalog_message AUDIT_UNAVAILABLE = lit ''The audit service is unavailable.''"
| "catalog_message DOCUMENT_NOT_FOUND = lit ''No such document.''"
| "catalog_message DOCUMENT_TOO_LARGE = lit ''The document exceeds the configured size limit.''"
| "catalog_message DOCUMENT_TYPE_UNSUPPORTED = lit ''The document type is not supported.''"
| "catalog_message DOCUMENT_INVALID = lit ''The document could not be accepted.''"
| "catalog_message DOCUMENT_STORAGE_UNAVAILABLE = lit ''The document storage service is unavailable.''"
| "catalog_message DOCUMENT_ENCRYPTION_FAILED = lit ''The document storage service could not complete the operation.''"
| "catalog_message DOCUMENT_EXTRACTION_FAILED = lit ''The document could not be read.''"
| "catalog_message DOCUMENT_EXTRACTION_TIMEOUT = lit ''The document could not be read in the time allowed.''"
| "catalog_message INTERNAL_ERROR = lit ''An internal error occurred.''"

record response =
  rs_status :: nat
  rs_headers :: "(ustr \<times> ustr) list"
  rs_content :: json

definition ERROR_HEADERS :: "(ustr \<times> ustr) list" where
  "ERROR_HEADERS = [(lit ''cache-control'', lit ''no-store''),
     (lit ''x-content-type-options'', lit ''nosniff'')]"

definition error_body :: "error_code \<Rightarrow> ustr \<Rightarrow> uuid option \<Rightarrow> json" where
  "error_body code message request_id =
     JObj [(lit ''code'', JStr (error_code_value code)), (lit ''message'', JStr message),
       (lit ''request_id'', (case request_id of None \<Rightarrow> JNull | Some u \<Rightarrow> JStr (uuid_str u)))]"

definition error_envelope :: "json \<Rightarrow> json" where
  "error_envelope body = JObj [(lit ''error'', body)]"

text \<open>\<open>message or ...\<close> and \<open>status_code or ...\<close>: an empty message and a zero status count as absent.\<close>

definition error_response :: "error_code \<Rightarrow> uuid option \<Rightarrow> ustr option \<Rightarrow> nat option \<Rightarrow> response" where
  "error_response code request_id message status =
     \<lparr>rs_status = (case status of Some n \<Rightarrow> if n \<noteq> 0 then n else status_code code | None \<Rightarrow> status_code code),
      rs_headers = ERROR_HEADERS,
      rs_content = error_envelope (error_body code
        (case message of Some m \<Rightarrow> if m \<noteq> [] then m else catalog_message code | None \<Rightarrow> catalog_message code)
        request_id)\<rparr>"

text \<open>
  What reaches the handlers: a domain error with its public message, a validation error with the
  location and the rejected input of each entry, an HTTP error of the framework, or anything else
  with its text.
\<close>

datatype raised =
    Domain_Error error_code ustr
  | Validation_Error "(ustr list \<times> json) list"
  | Http_Exception nat
  | Other_Exception ustr

definition STATUS_TO_CODE :: "(nat \<times> error_code) list" where
  "STATUS_TO_CODE =
     [(400, INVALID_REQUEST), (401, AUTHENTICATION_REQUIRED), (403, AUTHORIZATION_FAILED),
      (404, INVALID_REQUEST), (405, INVALID_REQUEST), (413, REQUEST_TOO_LARGE),
      (422, INVALID_REQUEST), (429, RATE_LIMIT_EXCEEDED), (500, INTERNAL_ERROR),
      (502, PROVIDER_UNAVAILABLE), (503, VAULT_UNAVAILABLE), (504, PROVIDER_TIMEOUT)]"

definition gateway_error_handler :: "uuid option \<Rightarrow> error_code \<Rightarrow> ustr \<Rightarrow> response" where
  "gateway_error_handler request_id code public_message =
     error_response code request_id (Some public_message) None"

definition validation_exception_handler :: "uuid option \<Rightarrow> response" where
  "validation_exception_handler request_id = error_response INVALID_REQUEST request_id None None"

text \<open>The \<open>reason\<close> of its log line: at most ten locations, sorted, without repetition.\<close>

definition validation_reason :: "(ustr list \<times> json) list \<Rightarrow> ustr" where
  "validation_reason errors =
     (let locations = map (\<lambda>e. join_with (lit ''.'') (fst e)) errors
      in join_with (lit '';'') (take 10 (sort (remdups locations))))"

definition http_exception_handler :: "uuid option \<Rightarrow> nat \<Rightarrow> response" where
  "http_exception_handler request_id status =
     (let code = (case dict_get STATUS_TO_CODE status of None \<Rightarrow> INTERNAL_ERROR | Some c \<Rightarrow> c)
      in error_response code request_id (Some (catalog_message code)) (Some status))"

definition unhandled_exception_handler :: "uuid option \<Rightarrow> response" where
  "unhandled_exception_handler request_id = error_response INTERNAL_ERROR request_id None None"

fun handle_exception :: "uuid option \<Rightarrow> raised \<Rightarrow> response" where
  "handle_exception i (Domain_Error code message) = gateway_error_handler i code message"
| "handle_exception i (Validation_Error errors) = validation_exception_handler i"
| "handle_exception i (Http_Exception status) = http_exception_handler i status"
| "handle_exception i (Other_Exception description) = unhandled_exception_handler i"

section \<open>Correlation ids\<close>

text \<open>\<open>UUID(raw)\<close> is a parameter: \<open>None\<close> is its \<open>ValueError\<close>.\<close>

definition incoming_request_id :: "(ustr \<Rightarrow> uuid option) \<Rightarrow> ustr option \<Rightarrow> uuid option" where
  "incoming_request_id parse_uuid raw =
     (case raw of None \<Rightarrow> None | Some r \<Rightarrow> if r = [] then None else parse_uuid r)"

definition REQUEST_ID_HEADER :: ustr where "REQUEST_ID_HEADER = lit ''x-request-id''"

text \<open>Assignment to a header replaces its first occurrence and drops the others.\<close>

definition set_header :: "ustr \<Rightarrow> ustr \<Rightarrow> (ustr \<times> ustr) list \<Rightarrow> (ustr \<times> ustr) list" where
  "set_header name value headers =
     (let before = takeWhile (\<lambda>h. fst h \<noteq> name) headers;
          rest = dropWhile (\<lambda>h. fst h \<noteq> name) headers
      in if rest = [] then headers @ [(name, value)]
         else before @ (name, value) # filter (\<lambda>h. fst h \<noteq> name) (tl rest))"

definition request_id_dispatch ::
    "(ustr \<Rightarrow> uuid option) \<Rightarrow> uuid \<Rightarrow> ustr option \<Rightarrow> (uuid \<Rightarrow> response) \<Rightarrow> response" where
  "request_id_dispatch parse_uuid fresh raw call_next =
     (let request_id = (case incoming_request_id parse_uuid raw of None \<Rightarrow> fresh | Some u \<Rightarrow> u);
          response = call_next request_id
      in response\<lparr>rs_headers := set_header REQUEST_ID_HEADER (uuid_str request_id) (rs_headers response)\<rparr>)"

section \<open>Security headers\<close>

definition SECURITY_HEADERS :: "(ustr \<times> ustr) list" where
  "SECURITY_HEADERS =
     [(lit ''cache-control'', lit ''no-store''), (lit ''x-content-type-options'', lit ''nosniff''),
      (lit ''x-frame-options'', lit ''DENY''),
      (lit ''referrer-policy'', lit ''strict-origin-when-cross-origin''),
      (lit ''permissions-policy'', lit ''camera=(), microphone=(), geolocation=()'')]"

definition set_default :: "(ustr \<times> ustr) list \<Rightarrow> ustr \<times> ustr \<Rightarrow> (ustr \<times> ustr) list" where
  "set_default headers h = (if fst h \<in> fst ` set headers then headers else headers @ [h])"

definition security_headers_dispatch :: "response \<Rightarrow> response" where
  "security_headers_dispatch response =
     response\<lparr>rs_headers := foldl set_default (rs_headers response) SECURITY_HEADERS\<rparr>"

section \<open>The limit on request bodies\<close>

text \<open>\<open>int(s)\<close>: spaces around, a sign, decimal digits with single underscores between them.\<close>

fun int_digits :: "ucd \<Rightarrow> nat \<Rightarrow> ustr \<Rightarrow> nat option" where
  "int_digits U acc [] = Some acc"
| "int_digits U acc (c # cs) =
     (if ud_isdecimal U c then int_digits U (acc * 10 + ud_decimal U c) cs
      else if c = 95 then
        (case cs of
           d # ds \<Rightarrow> if ud_isdecimal U d then int_digits U (acc * 10 + ud_decimal U d) ds else None
         | [] \<Rightarrow> None)
      else None)"

definition MAX_STR_DIGITS :: nat where "MAX_STR_DIGITS = 4300"

definition parse_int :: "ucd \<Rightarrow> ustr \<Rightarrow> int option" where
  "parse_int U s =
     (let t = strip U s;
          negative = (case t of c # _ \<Rightarrow> c = 45 | [] \<Rightarrow> False);
          digits = (case t of c # cs \<Rightarrow> if c = 45 \<or> c = 43 then cs else t | [] \<Rightarrow> [])
      in case digits of
           [] \<Rightarrow> None
         | d # _ \<Rightarrow>
             if \<not> ud_isdecimal U d then None
             else if MAX_STR_DIGITS < length (filter (ud_isdecimal U) digits) then None
             else map_option (\<lambda>n. if negative then - int n else int n) (int_digits U 0 digits))"

record body_limit =
  bl_max_bytes :: int
  bl_upload_max_bytes :: int
  bl_upload_path_prefixes :: "ustr list"

definition mk_body_limit :: "int \<Rightarrow> int option \<Rightarrow> ustr list \<Rightarrow> body_limit" where
  "mk_body_limit max_bytes upload_max_bytes upload_prefixes =
     \<lparr>bl_max_bytes = max_bytes,
      bl_upload_max_bytes = (case upload_max_bytes of None \<Rightarrow> max_bytes | Some n \<Rightarrow> n),
      bl_upload_path_prefixes = upload_prefixes\<rparr>"

definition limit_for :: "body_limit \<Rightarrow> ustr \<Rightarrow> int" where
  "limit_for B path =
     (if list_ex (startswith path) (bl_upload_path_prefixes B) then bl_upload_max_bytes B else bl_max_bytes B)"

text \<open>What becomes of a request before its body is read.\<close>

datatype admission = Pass_Through | Rejected error_code | Metered int

definition admit :: "ucd \<Rightarrow> body_limit \<Rightarrow> bool \<Rightarrow> ustr \<Rightarrow> ustr option \<Rightarrow> admission" where
  "admit U B is_http path declared =
     (if \<not> is_http then Pass_Through
      else
        let limit = limit_for B path
        in case declared of
             None \<Rightarrow> Metered limit
           | Some d \<Rightarrow>
               (case parse_int U d of
                  None \<Rightarrow> Rejected INVALID_REQUEST
                | Some n \<Rightarrow> if n > limit then Rejected REQUEST_TOO_LARGE else Metered limit))"

datatype received = Http_Request bytes bool | Http_Disconnect
datatype sent = Response_Start nat "(ustr \<times> ustr) list" | Response_Body bytes bool

text \<open>
  The variables of the closures, with what the application was given and what was sent on. Both
  lists only serve to state what passed.
\<close>

record meter =
  mt_received :: int
  mt_exceeded :: bool
  mt_started :: bool
  mt_delivered :: "received list"
  mt_sent :: "sent list"

definition fresh_meter :: meter where
  "fresh_meter = \<lparr>mt_received = 0, mt_exceeded = False, mt_started = False, mt_delivered = [], mt_sent = []\<rparr>"

fun counting_receive :: "int \<Rightarrow> received \<Rightarrow> meter \<Rightarrow> meter" where
  "counting_receive limit (Http_Request body more_body) M =
     (let M = M\<lparr>mt_received := mt_received M + int (length body)\<rparr>
      in if mt_received M > limit
         then M\<lparr>mt_exceeded := True, mt_delivered := mt_delivered M @ [Http_Request [] False]\<rparr>
         else M\<lparr>mt_delivered := mt_delivered M @ [Http_Request body more_body]\<rparr>)"
| "counting_receive limit Http_Disconnect M = M\<lparr>mt_delivered := mt_delivered M @ [Http_Disconnect]\<rparr>"

fun is_start :: "sent \<Rightarrow> bool" where
  "is_start (Response_Start status headers) \<longleftrightarrow> True"
| "is_start (Response_Body body more_body) \<longleftrightarrow> False"

text \<open>\<open>_reject\<close> renders the error response, here the messages \<open>rejection\<close>, through \<open>send\<close>.\<close>

definition reject_messages :: "(json \<Rightarrow> bytes) \<Rightarrow> error_code \<Rightarrow> uuid option \<Rightarrow> sent list" where
  "reject_messages render code request_id =
     (let r = error_response code request_id None None
      in [Response_Start (rs_status r) (rs_headers r), Response_Body (render (rs_content r)) False])"

definition guarded_send :: "sent list \<Rightarrow> sent \<Rightarrow> meter \<Rightarrow> meter" where
  "guarded_send rejection m M =
     (if mt_exceeded M \<and> \<not> mt_started M then M\<lparr>mt_sent := mt_sent M @ rejection, mt_started := True\<rparr>
      else if mt_exceeded M then M
      else M\<lparr>mt_started := (mt_started M \<or> is_start m), mt_sent := mt_sent M @ [m]\<rparr>)"

inductive meter_step :: "int \<Rightarrow> sent list \<Rightarrow> meter \<Rightarrow> meter \<Rightarrow> bool" for limit rejection where
  receive: "meter_step limit rejection M (counting_receive limit m M)"
| send: "meter_step limit rejection M (guarded_send rejection m M)"

inductive_cases meter_stepE: "meter_step limit rejection M M'"

text \<open>The states of a metered request, whatever the application and the client do.\<close>

inductive metered :: "int \<Rightarrow> sent list \<Rightarrow> meter \<Rightarrow> bool" for limit rejection where
  start: "metered limit rejection fresh_meter"
| step: "metered limit rejection M \<Longrightarrow> meter_step limit rejection M M' \<Longrightarrow> metered limit rejection M'"


section \<open>Properties of the limit\<close>

definition body_bytes :: "received list \<Rightarrow> int" where
  "body_bytes ms = sum_list (map (\<lambda>m. case m of Http_Request body more_body \<Rightarrow> int (length body) | Http_Disconnect \<Rightarrow> 0) ms)"

lemma body_bytes_simps [simp]:
  "body_bytes [] = 0" "body_bytes (xs @ ys) = body_bytes xs + body_bytes ys"
  "body_bytes [Http_Request body more_body] = int (length body)" "body_bytes [Http_Disconnect] = 0"
  by (simp_all add: body_bytes_def)

definition meter_inv :: "int \<Rightarrow> meter \<Rightarrow> bool" where
  "meter_inv limit M \<longleftrightarrow> body_bytes (mt_delivered M) \<le> limit \<and> body_bytes (mt_delivered M) \<le> mt_received M
     \<and> (mt_exceeded M \<longleftrightarrow> limit < mt_received M) \<and> (mt_started M \<or> \<not> list_ex is_start (mt_sent M))"

lemma meter_inv_step: "meter_inv limit M \<Longrightarrow> meter_step limit rejection M M' \<Longrightarrow> meter_inv limit M'"
proof (elim meter_stepE)
  fix m assume "meter_inv limit M" "M' = counting_receive limit m M"
  then show "meter_inv limit M'" by (cases m) (auto simp: meter_inv_def Let_def)
next
  fix m assume "meter_inv limit M" "M' = guarded_send rejection m M"
  then show "meter_inv limit M'" by (auto simp: meter_inv_def guarded_send_def)
qed

lemma metered_inv: "metered limit rejection M \<Longrightarrow> 0 \<le> limit \<Longrightarrow> meter_inv limit M"
  by (induction rule: metered.induct) (simp add: meter_inv_def fresh_meter_def, blast intro: meter_inv_step)

lemma exceeded_step:
  assumes "meter_step limit rejection M M'" "mt_exceeded M" "limit < mt_received M"
  shows "mt_exceeded M' \<and> limit < mt_received M' \<and> body_bytes (mt_delivered M') = body_bytes (mt_delivered M)
    \<and> (if mt_started M then mt_started M' \<and> mt_sent M' = mt_sent M
       else mt_sent M' = mt_sent M \<and> \<not> mt_started M' \<or> mt_started M' \<and> mt_sent M' = mt_sent M @ rejection)"
  using assms(1)
proof (cases rule: meter_step.cases)
  case (receive m)
  with assms(2,3) show ?thesis by (cases m) (auto simp: Let_def)
next
  case (send m)
  with assms(2,3) show ?thesis by (auto simp: guarded_send_def)
qed

lemma exceeded_steps:
  assumes "(meter_step limit rejection)\<^sup>*\<^sup>* M M'" "mt_exceeded M" "limit < mt_received M"
  shows "mt_exceeded M' \<and> limit < mt_received M' \<and> body_bytes (mt_delivered M') = body_bytes (mt_delivered M)
    \<and> (if mt_started M then mt_started M' \<and> mt_sent M' = mt_sent M
       else mt_sent M' = mt_sent M \<and> \<not> mt_started M' \<or> mt_started M' \<and> mt_sent M' = mt_sent M @ rejection)"
  using assms(1)
proof (induction rule: rtranclp_induct)
  case base
  then show ?case using assms by simp
next
  case (step N N')
  then show ?case using exceeded_step[OF step(2)] by (auto split: if_splits)
qed

text \<open>
  C15. Whatever sizes the chunks of a body have and however the application receives and sends,
  the application is given at most \<open>limit\<close> bytes of it. Once the bytes that arrived pass the limit
  none reaches it any more, and of what it sends nothing goes out: if no response had started,
  what goes out is at most the one error response, in full.
\<close>

theorem body_limit_enforced:
  assumes "0 \<le> limit" "metered limit rejection M" "(meter_step limit rejection)\<^sup>*\<^sup>* M M'"
  shows "body_bytes (mt_delivered M') \<le> limit
    \<and> (mt_exceeded M \<longleftrightarrow> limit < mt_received M)
    \<and> (mt_exceeded M \<longrightarrow> body_bytes (mt_delivered M') = body_bytes (mt_delivered M)
         \<and> (if mt_started M then mt_sent M' = mt_sent M
            else \<not> list_ex is_start (mt_sent M)
                 \<and> (mt_sent M' = mt_sent M \<or> mt_sent M' = mt_sent M @ rejection)))"
proof -
  have inv: "meter_inv limit M" using assms(1,2) metered_inv by blast
  have "metered limit rejection M'"
    using assms(3,2) by (induction rule: rtranclp_induct) (auto intro: metered.step)
  then have inv': "meter_inv limit M'" using assms(1) metered_inv by blast
  show ?thesis
  proof (cases "mt_exceeded M")
    case True
    then have "limit < mt_received M" using inv by (simp add: meter_inv_def)
    from exceeded_steps[OF assms(3) True this] True inv inv' show ?thesis
      by (auto simp: meter_inv_def split: if_splits)
  next
    case False
    with inv inv' show ?thesis by (simp add: meter_inv_def)
  qed
qed

text \<open>A chunked body of two chunks against a limit of three bytes, then a response of the application.\<close>

definition sample_rejection :: "sent list" where
  "sample_rejection = reject_messages (\<lambda>_. []) REQUEST_TOO_LARGE None"

definition second_chunk :: meter where
  "second_chunk = counting_receive 3 (Http_Request [1, 2] False) (counting_receive 3 (Http_Request [1, 2] True) fresh_meter)"

lemma second_chunk_exceeds:
  "second_chunk = \<lparr>mt_received = 4, mt_exceeded = True, mt_started = False,
     mt_delivered = [Http_Request [1, 2] True, Http_Request [] False], mt_sent = []\<rparr>"
  by (simp add: second_chunk_def fresh_meter_def Let_def)

lemma second_chunk_metered: "metered 3 sample_rejection second_chunk"
  unfolding second_chunk_def by (rule metered.step[OF metered.step[OF metered.start meter_step.receive] meter_step.receive])

theorem body_limit_enforced_witness:
  "let M = second_chunk; M' = guarded_send sample_rejection (Response_Start 200 []) M
   in body_bytes (mt_delivered M') \<le> 3 \<and> mt_exceeded M
      \<and> mt_sent M' = sample_rejection \<and> list_ex is_start (mt_sent M')"
proof -
  let ?M' = "guarded_send sample_rejection (Response_Start 200 []) second_chunk"
  have "(meter_step 3 sample_rejection)\<^sup>*\<^sup>* second_chunk ?M'"
    using meter_step.send by (rule r_into_rtranclp)
  from body_limit_enforced[OF _ second_chunk_metered this]
  have "body_bytes (mt_delivered ?M') \<le> 3" by simp
  moreover have "mt_sent ?M' = sample_rejection" "mt_exceeded second_chunk"
    by (simp_all only: second_chunk_exceeds guarded_send_def meter.select_convs) simp
  moreover have "list_ex is_start sample_rejection"
    by (simp add: sample_rejection_def reject_messages_def Let_def)
  ultimately show ?thesis by (simp only: Let_def)
qed

text \<open>
  The error response only replaces a response that has not started: one that has is cut off, its
  client never sees the end of the body.
\<close>

lemma started_response_is_cut:
  assumes "0 \<le> limit" "metered limit rejection M" "mt_exceeded M" "mt_started M"
    and "(meter_step limit rejection)\<^sup>*\<^sup>* M M'"
  shows "mt_sent M' = mt_sent M"
proof -
  have "limit < mt_received M" using metered_inv[OF assms(2,1)] assms(3) by (simp add: meter_inv_def)
  from exceeded_steps[OF assms(5,3) this] assms(4) show ?thesis by simp
qed

text \<open>A body that declares its length is refused before any of it is read, a malformed length too.\<close>

lemma declared_size_refused:
  "parse_int U d = Some n \<Longrightarrow> limit_for B path < n \<Longrightarrow> admit U B True path (Some d) = Rejected REQUEST_TOO_LARGE"
  "parse_int U d = None \<Longrightarrow> admit U B True path (Some d) = Rejected INVALID_REQUEST"
  by (simp_all add: admit_def Let_def)

section \<open>Properties of the envelope and the headers\<close>

text \<open>A rendered error depends on nothing of the request but its correlation id.\<close>

lemma validation_errors_indistinguishable:
  "handle_exception i (Validation_Error es) = handle_exception i (Validation_Error es')"
  "handle_exception i (Other_Exception d) = handle_exception i (Other_Exception d')"
  "map fst es = map fst es' \<Longrightarrow> validation_reason es = validation_reason es'"
proof -
  assume "map fst es = map fst es'"
  then have "map (join_with (lit ''.'')) (map fst es) = map (join_with (lit ''.'')) (map fst es')" by simp
  then show "validation_reason es = validation_reason es'" by (simp add: validation_reason_def comp_def)
qed simp_all

lemma error_status: "400 \<le> rs_status (error_response code i message None) \<and> rs_status (error_response code i message None) < 600"
  using status_code_is_error by (simp add: error_response_def)

lemma set_header_get: "dict_get (set_header name value headers) name = Some value"
proof (cases "dropWhile (\<lambda>h. fst h \<noteq> name) headers")
  case Nil
  then have "name \<notin> fst ` set headers" by (auto simp: dropWhile_eq_Nil_conv)
  then have "dict_get headers name = None" by (simp add: map_of_eq_None_iff)
  then show ?thesis using Nil by (simp add: set_header_def map_add_def)
next
  case (Cons h hs)
  have "name \<notin> fst ` set (takeWhile (\<lambda>h. fst h \<noteq> name) headers)" by (auto dest: set_takeWhileD)
  then have "dict_get (takeWhile (\<lambda>h. fst h \<noteq> name) headers) name = None" by (simp add: map_of_eq_None_iff)
  then show ?thesis using Cons by (simp add: set_header_def map_add_def)
qed

text \<open>Whatever the caller supplied, the id that is echoed has 36 characters: hexadecimal digits and hyphens.\<close>

lemma request_id_is_canonical:
  assumes "\<And>r u. parse_uuid r = Some u \<Longrightarrow> valid_uuid u" "valid_uuid fresh"
  shows "\<exists>u. valid_uuid u
    \<and> dict_get (rs_headers (request_id_dispatch parse_uuid fresh raw call_next)) REQUEST_ID_HEADER = Some (uuid_str u)
    \<and> length (uuid_str u) = 36"
  using assms
  by (auto simp: request_id_dispatch_def Let_def set_header_get incoming_request_id_def split: option.split if_splits)

lemma set_defaults:
  "dict_get (foldl set_default hs ds) k = (case dict_get hs k of Some v \<Rightarrow> Some v | None \<Rightarrow> dict_get ds k)"
proof (induction ds arbitrary: hs)
  case (Cons d ds)
  have "dict_get (set_default hs d) k
      = (case dict_get hs k of Some v \<Rightarrow> Some v | None \<Rightarrow> if k = fst d then Some (snd d) else None)"
    using map_of_eq_None_iff[of hs "fst d"]
    by (cases "dict_get hs (fst d)"; cases d) (auto simp: set_default_def map_add_def split: option.split)
  then show ?case using Cons by (cases d) (auto split: option.split)
qed (simp split: option.split)

lemma security_headers_present:
  assumes "dict_get SECURITY_HEADERS k = Some v"
  shows "dict_get (rs_headers (security_headers_dispatch r)) k
    = (case dict_get (rs_headers r) k of None \<Rightarrow> Some v | Some w \<Rightarrow> Some w)"
  using assms by (simp add: security_headers_dispatch_def set_defaults split: option.split)

end
