(* ===== verification/Policy_Repository.thy ===== *)
theory Policy_Repository
  imports Policy Database
begin

text \<open>
  The repository of policy versions, \<^verbatim>\<open>app/repositories/policies.py\<close>: reads scoped to a tenant, and
  the life of a draft from its creation to its publication. The table's declared constraints
  (\<^verbatim>\<open>app/db/models.py\<close>) are what a statement that succeeds leaves true: unique identifiers and
  versions and at most one draft per name. The documents are opaque at this layer.
\<close>

datatype policy_status = POLICY_DRAFT | POLICY_PUBLISHED

record 'doc policy_row =
  pw_id :: uuid
  pw_tenant_id :: "uuid option"
  pw_name :: ustr
  pw_version :: int
  pw_document :: 'doc
  pw_is_active :: bool
  pw_status :: policy_status
  pw_published_at :: "int option"

type_synonym ('s, 'doc) policy_table = "('s, 'doc policy_row) table_ops"

section \<open>Reads\<close>

definition of_tenant :: "uuid \<Rightarrow> 'doc policy_row \<Rightarrow> bool" where
  "of_tenant tenant_id r \<longleftrightarrow> pw_tenant_id r = Some tenant_id"

definition named :: "uuid \<Rightarrow> ustr \<Rightarrow> 'doc policy_row \<Rightarrow> bool" where
  "named tenant_id name r \<longleftrightarrow> of_tenant tenant_id r \<and> pw_name r = name"

text \<open>\<open>order_by(version.desc()).limit(1)\<close>.\<close>

definition highest_version :: "'doc policy_row list \<Rightarrow> 'doc policy_row option" where
  "highest_version rs = (case sort_key (\<lambda>r. - pw_version r) rs of [] \<Rightarrow> None | r # _ \<Rightarrow> Some r)"

definition policy_get_active :: "('s, 'doc) policy_table \<Rightarrow> uuid \<Rightarrow> ('s, 'doc policy_row option) op" where
  "policy_get_active tb tenant_id =
     bindS (tb_select tb (\<lambda>r. of_tenant tenant_id r \<and> pw_is_active r)) (\<lambda>rs. liftS (Inr (highest_version rs)))"

definition policy_get_version :: "('s, 'doc) policy_table \<Rightarrow> uuid \<Rightarrow> ustr \<Rightarrow> int \<Rightarrow> ('s, 'doc policy_row option) op" where
  "policy_get_version tb tenant_id name version =
     select_one tb (\<lambda>r. named tenant_id name r \<and> pw_version r = version)"

definition policy_list_versions :: "('s, 'doc) policy_table \<Rightarrow> uuid \<Rightarrow> ustr \<Rightarrow> ('s, 'doc policy_row list) op" where
  "policy_list_versions tb tenant_id name =
     bindS (tb_select tb (named tenant_id name)) (\<lambda>rs. liftS (Inr (sort_key pw_version rs)))"

definition policy_list_names :: "('s, 'doc) policy_table \<Rightarrow> uuid \<Rightarrow> ('s, ustr list) op" where
  "policy_list_names tb tenant_id =
     bindS (tb_select tb (of_tenant tenant_id)) (\<lambda>rs. liftS (Inr (sort (remdups (map pw_name rs)))))"

definition policy_get_draft :: "('s, 'doc) policy_table \<Rightarrow> uuid \<Rightarrow> ustr \<Rightarrow> ('s, 'doc policy_row option) op" where
  "policy_get_draft tb tenant_id name =
     select_one tb (\<lambda>r. named tenant_id name r \<and> pw_status r = POLICY_DRAFT)"

definition policy_get_default :: "('s, 'doc) policy_table \<Rightarrow> ('s, 'doc policy_row option) op" where
  "policy_get_default tb =
     bindS (tb_select tb (\<lambda>r. pw_tenant_id r = None \<and> pw_name r = lit ''default'' \<and> pw_is_active r))
       (\<lambda>rs. liftS (Inr (highest_version rs)))"

definition policy_next_version :: "('s, 'doc) policy_table \<Rightarrow> uuid \<Rightarrow> ustr \<Rightarrow> ('s, int) op" where
  "policy_next_version tb tenant_id name =
     bindS (tb_select tb (named tenant_id name)) (\<lambda>rs.
       liftS (Inr (if rs = [] then 1 else Max (set (map pw_version rs)) + 1)))"

section \<open>Writes\<close>

definition policy_create_version :: "('s, 'doc) policy_table \<Rightarrow> uuid \<Rightarrow> int \<Rightarrow> uuid \<Rightarrow> ustr \<Rightarrow> int \<Rightarrow> 'doc \<Rightarrow> bool \<Rightarrow>
    ('s, 'doc policy_row) op" where
  "policy_create_version tb new_id now tenant_id name version document is_active =
     (if version < 1 then liftS (Inl ValueError)
      else (let row = \<lparr>pw_id = new_id, pw_tenant_id = Some tenant_id, pw_name = name, pw_version = version,
                  pw_document = document, pw_is_active = is_active, pw_status = POLICY_PUBLISHED,
                  pw_published_at = Some now\<rparr>
            in bindS (tb_insert tb row) (\<lambda>_. liftS (Inr row))))"

definition others_of_name :: "uuid \<Rightarrow> ustr \<Rightarrow> uuid \<Rightarrow> 'doc policy_row \<Rightarrow> bool" where
  "others_of_name tenant_id name policy_id r \<longleftrightarrow> named tenant_id name r \<and> pw_id r \<noteq> policy_id"

definition policy_activate :: "('s, 'doc) policy_table \<Rightarrow> uuid \<Rightarrow> uuid \<Rightarrow> ('s, 'doc policy_row option) op" where
  "policy_activate tb tenant_id policy_id =
     bindS (select_one tb (\<lambda>r. of_tenant tenant_id r \<and> pw_id r = policy_id)) (\<lambda>found. case found of
         None \<Rightarrow> liftS (Inr None)
       | Some p \<Rightarrow>
           bindS (tb_update tb (others_of_name tenant_id (pw_name p) policy_id) (\<lambda>r. r\<lparr>pw_is_active := False\<rparr>)) (\<lambda>_.
           bindS (tb_update tb (\<lambda>r. pw_id r = policy_id) (\<lambda>r. r\<lparr>pw_is_active := True\<rparr>)) (\<lambda>_.
             liftS (Inr (Some (p\<lparr>pw_is_active := True\<rparr>))))))"

definition policy_create_draft :: "('s, 'doc) policy_table \<Rightarrow> uuid \<Rightarrow> uuid \<Rightarrow> ustr \<Rightarrow> 'doc \<Rightarrow> ('s, 'doc policy_row) op" where
  "policy_create_draft tb new_id tenant_id name document =
     bindS (policy_next_version tb tenant_id name) (\<lambda>version.
       let row = \<lparr>pw_id = new_id, pw_tenant_id = Some tenant_id, pw_name = name, pw_version = version,
             pw_document = document, pw_is_active = False, pw_status = POLICY_DRAFT, pw_published_at = None\<rparr>
       in bindS (tb_insert tb row) (\<lambda>_. liftS (Inr row)))"

definition policy_update_draft :: "('s, 'doc) policy_table \<Rightarrow> uuid \<Rightarrow> ustr \<Rightarrow> 'doc \<Rightarrow> ('s, 'doc policy_row option) op" where
  "policy_update_draft tb tenant_id name document =
     bindS (policy_get_draft tb tenant_id name) (\<lambda>found. case found of
         None \<Rightarrow> liftS (Inr None)
       | Some d \<Rightarrow>
           if pw_status d \<noteq> POLICY_DRAFT then liftS (Inl RuntimeError)
           else bindS (tb_update tb (\<lambda>r. pw_id r = pw_id d) (\<lambda>r. r\<lparr>pw_document := document\<rparr>)) (\<lambda>_.
                  liftS (Inr (Some (d\<lparr>pw_document := document\<rparr>)))))"

definition policy_discard_draft :: "('s, 'doc) policy_table \<Rightarrow> uuid \<Rightarrow> ustr \<Rightarrow> ('s, bool) op" where
  "policy_discard_draft tb tenant_id name =
     bindS (policy_get_draft tb tenant_id name) (\<lambda>found. case found of
         None \<Rightarrow> liftS (Inr False)
       | Some d \<Rightarrow> bindS (tb_delete tb (\<lambda>r. pw_id r = pw_id d)) (\<lambda>_. liftS (Inr True)))"

definition published :: "int \<Rightarrow> 'doc policy_row \<Rightarrow> 'doc policy_row" where
  "published now r = r\<lparr>pw_status := POLICY_PUBLISHED, pw_is_active := True, pw_published_at := Some now\<rparr>"

definition policy_publish_draft :: "('s, 'doc) policy_table \<Rightarrow> int \<Rightarrow> uuid \<Rightarrow> ustr \<Rightarrow> ('s, 'doc policy_row option) op" where
  "policy_publish_draft tb now tenant_id name =
     bindS (policy_get_draft tb tenant_id name) (\<lambda>found. case found of
         None \<Rightarrow> liftS (Inr None)
       | Some d \<Rightarrow>
           bindS (tb_update tb (others_of_name tenant_id name (pw_id d)) (\<lambda>r. r\<lparr>pw_is_active := False\<rparr>)) (\<lambda>_.
           bindS (tb_update tb (\<lambda>r. pw_id r = pw_id d) (published now)) (\<lambda>_.
             liftS (Inr (Some (published now d))))))"

section \<open>The life of the table\<close>

text \<open>The declared constraints, and that a successful insert satisfies them.\<close>

definition policy_constraints :: "'doc policy_row list \<Rightarrow> bool" where
  "policy_constraints rs \<longleftrightarrow> distinct (map pw_id rs) \<and>
     distinct (map (\<lambda>r. (pw_tenant_id r, pw_name r, pw_version r)) rs) \<and>
     distinct (map (\<lambda>r. (pw_tenant_id r, pw_name r)) (filter (\<lambda>r. pw_status r = POLICY_DRAFT) rs)) \<and>
     (\<forall>r \<in> set rs. 0 < pw_version r)"

definition enforces_constraints :: "('s, 'doc) policy_table \<Rightarrow> ('s \<Rightarrow> 'doc policy_row list) \<Rightarrow> bool" where
  "enforces_constraints tb rows \<longleftrightarrow>
     (\<forall>x s s'. tb_insert tb x s = (Inr (), s') \<longrightarrow> policy_constraints (rows s'))"

text \<open>
  One committed operation of a session. What fails is rolled back by the session's owner and
  leaves no trace. A caller that creates a version directly creates it inactive; activating is
  a step of its own.
\<close>

inductive repository_step :: "('s, 'doc) policy_table \<Rightarrow> 's \<Rightarrow> 's \<Rightarrow> bool" for tb where
  create_version: "policy_create_version tb i now t n v doc False s = (Inr r, s') \<Longrightarrow> repository_step tb s s'"
| activate: "policy_activate tb t i s = (Inr r, s') \<Longrightarrow> repository_step tb s s'"
| create_draft: "policy_create_draft tb i t n doc s = (Inr r, s') \<Longrightarrow> repository_step tb s s'"
| update_draft: "policy_update_draft tb t n doc s = (Inr r, s') \<Longrightarrow> repository_step tb s s'"
| discard_draft: "policy_discard_draft tb t n s = (Inr b, s') \<Longrightarrow> repository_step tb s s'"
| publish_draft: "policy_publish_draft tb now t n s = (Inr r, s') \<Longrightarrow> repository_step tb s s'"

inductive repository_run :: "('s, 'doc) policy_table \<Rightarrow> 's \<Rightarrow> 's \<Rightarrow> bool" for tb where
  start: "repository_run tb s s"
| step: "repository_run tb s s1 \<Longrightarrow> repository_step tb s1 s2 \<Longrightarrow> repository_run tb s s2"

text \<open>What the repository maintains beyond the declared constraints.\<close>

definition one_active :: "'doc policy_row list \<Rightarrow> bool" where
  "one_active rs \<longleftrightarrow> (\<forall>r \<in> set rs. \<forall>r' \<in> set rs. pw_is_active r \<and> pw_is_active r' \<and>
     pw_tenant_id r = pw_tenant_id r' \<and> pw_name r = pw_name r' \<longrightarrow> pw_id r = pw_id r')"

definition drafts_unpublished :: "'doc policy_row list \<Rightarrow> bool" where
  "drafts_unpublished rs \<longleftrightarrow> (\<forall>r \<in> set rs. pw_status r = POLICY_DRAFT \<longleftrightarrow> pw_published_at r = None)"

definition repository_ok :: "'doc policy_row list \<Rightarrow> bool" where
  "repository_ok rs \<longleftrightarrow> policy_constraints rs \<and> one_active rs \<and> drafts_unpublished rs"

text \<open>What a published version keeps, whatever happens to it.\<close>

definition same_version :: "'doc policy_row \<Rightarrow> 'doc policy_row \<Rightarrow> bool" where
  "same_version r r' \<longleftrightarrow> pw_id r' = pw_id r \<and> pw_tenant_id r' = pw_tenant_id r \<and> pw_name r' = pw_name r
     \<and> pw_version r' = pw_version r \<and> pw_document r' = pw_document r \<and> pw_status r' = pw_status r
     \<and> pw_published_at r' = pw_published_at r"

definition keeps_published :: "'doc policy_row list \<Rightarrow> 'doc policy_row list \<Rightarrow> bool" where
  "keeps_published rs rs' \<longleftrightarrow>
     (\<forall>r \<in> set rs. pw_status r = POLICY_PUBLISHED \<longrightarrow> (\<exists>r' \<in> set rs'. same_version r r'))"

section \<open>Each operation on the rows\<close>

lemma distinct_map_filter_mono:
  "distinct (map k (filter P xs)) \<Longrightarrow> (\<And>x. x \<in> set xs \<Longrightarrow> Q x \<Longrightarrow> P x) \<Longrightarrow> distinct (map k (filter Q xs))"
  by (induction xs) (auto split: if_splits)

lemma constraints_map:
  assumes "policy_constraints rs"
    and "\<And>r. r \<in> set rs \<Longrightarrow> pw_id (f r) = pw_id r \<and> pw_tenant_id (f r) = pw_tenant_id r \<and> pw_name (f r) = pw_name r
      \<and> pw_version (f r) = pw_version r \<and> (pw_status (f r) = POLICY_DRAFT \<longrightarrow> pw_status r = POLICY_DRAFT)"
  shows "policy_constraints (map f rs)"
proof -
  let ?k = "\<lambda>r. (pw_tenant_id r, pw_name r)"
  have "map pw_id (map f rs) = map pw_id rs" using assms(2) by simp
  moreover have "map (\<lambda>r. (pw_tenant_id r, pw_name r, pw_version r)) (map f rs)
      = map (\<lambda>r. (pw_tenant_id r, pw_name r, pw_version r)) rs" using assms(2) by simp
  moreover have "distinct (map ?k (filter (\<lambda>r. pw_status r = POLICY_DRAFT) (map f rs)))"
  proof -
    have "map ?k (filter (\<lambda>r. pw_status r = POLICY_DRAFT) (map f rs))
        = map ?k (filter (\<lambda>r. pw_status (f r) = POLICY_DRAFT) rs)"
      using assms(2) by (simp add: filter_map comp_def)
    moreover have "distinct (map ?k (filter (\<lambda>r. pw_status (f r) = POLICY_DRAFT) rs))"
    proof (rule distinct_map_filter_mono)
      show "distinct (map ?k (filter (\<lambda>r. pw_status r = POLICY_DRAFT) rs))"
        using assms(1) unfolding policy_constraints_def by blast
      show "\<And>x. x \<in> set rs \<Longrightarrow> pw_status (f x) = POLICY_DRAFT \<Longrightarrow> pw_status x = POLICY_DRAFT"
        using assms(2) by blast
    qed
    ultimately show ?thesis by simp
  qed
  moreover have "\<forall>r \<in> set (map f rs). 0 < pw_version r" using assms by (auto simp: policy_constraints_def)
  ultimately show ?thesis using assms(1) by (simp add: policy_constraints_def del: map_map)
qed

lemma constraints_filter:
  assumes "policy_constraints rs"
  shows "policy_constraints (filter P rs)"
proof -
  have "filter (\<lambda>r. pw_status r = POLICY_DRAFT) (filter P rs) = filter P (filter (\<lambda>r. pw_status r = POLICY_DRAFT) rs)"
    by (simp add: filter_filter conj_commute)
  then show ?thesis using assms by (simp add: policy_constraints_def distinct_map_filter del: filter_filter)
qed

lemma id_unique: "policy_constraints rs \<Longrightarrow> r \<in> set rs \<Longrightarrow> r' \<in> set rs \<Longrightarrow> pw_id r = pw_id r' \<Longrightarrow> r = r'"
  by (auto simp: policy_constraints_def distinct_map inj_on_def)

lemma one_activeI:
  "(\<And>r r'. r \<in> set rs \<Longrightarrow> r' \<in> set rs \<Longrightarrow> pw_is_active r \<Longrightarrow> pw_is_active r' \<Longrightarrow>
      pw_tenant_id r = pw_tenant_id r' \<Longrightarrow> pw_name r = pw_name r' \<Longrightarrow> pw_id r = pw_id r') \<Longrightarrow> one_active rs"
  unfolding one_active_def by blast

lemma one_activeD:
  "one_active rs \<Longrightarrow> r \<in> set rs \<Longrightarrow> r' \<in> set rs \<Longrightarrow> pw_is_active r \<Longrightarrow> pw_is_active r' \<Longrightarrow>
      pw_tenant_id r = pw_tenant_id r' \<Longrightarrow> pw_name r = pw_name r' \<Longrightarrow> pw_id r = pw_id r'"
  unfolding one_active_def by blast

definition row_key :: "'doc policy_row \<Rightarrow> uuid \<times> uuid option \<times> ustr" where
  "row_key r = (pw_id r, pw_tenant_id r, pw_name r)"

lemma one_active_image:
  assumes "one_active rs" "\<And>x. x \<in> set rs' \<Longrightarrow> pw_is_active x \<Longrightarrow> row_key x \<in> row_key ` {r \<in> set rs. pw_is_active r}"
  shows "one_active rs'"
proof (rule one_activeI)
  fix x y
  assume "x \<in> set rs'" "y \<in> set rs'" "pw_is_active x" "pw_is_active y"
    and same: "pw_tenant_id x = pw_tenant_id y" "pw_name x = pw_name y"
  then obtain r r' where r: "r \<in> set rs" "r' \<in> set rs" "pw_is_active r" "pw_is_active r'"
    and k: "row_key x = row_key r" "row_key y = row_key r'" using assms(2) by blast
  have "pw_tenant_id r = pw_tenant_id r'" "pw_name r = pw_name r'" using k same by (simp_all add: row_key_def)
  then have "pw_id r = pw_id r'" by (rule one_activeD[OF assms(1) r])
  then show "pw_id x = pw_id y" using k by (simp add: row_key_def)
qed

lemma one_active_map:
  assumes "one_active rs" "\<And>r. r \<in> set rs \<Longrightarrow> row_key (f r) = row_key r \<and> (pw_is_active (f r) \<longrightarrow> pw_is_active r)"
  shows "one_active (map f rs)"
  using assms(1)
proof (rule one_active_image)
  fix x
  assume "x \<in> set (map f rs)" "pw_is_active x"
  then show "row_key x \<in> row_key ` {r \<in> set rs. pw_is_active r}" using assms(2) by auto
qed

lemma published_not_draft:
  "policy_constraints rs \<Longrightarrow> d \<in> set rs \<Longrightarrow> pw_status d = POLICY_DRAFT \<Longrightarrow> r \<in> set rs \<Longrightarrow>
     pw_status r = POLICY_PUBLISHED \<Longrightarrow> pw_id r \<noteq> pw_id d"
  using id_unique by fastforce

lemma update_where_eq: "update_where P f rs = map (\<lambda>r. if P r then f r else r) rs"
  by (simp add: update_where_def)

lemma keeps_published_refl [simp]: "keeps_published rs rs"
  by (auto simp: keeps_published_def same_version_def)

lemma same_version_refl [simp]: "same_version r r"
  by (simp add: same_version_def)

lemma same_version_trans: "same_version r r1 \<Longrightarrow> same_version r1 r2 \<Longrightarrow> same_version r r2"
  by (simp add: same_version_def)

lemma keeps_published_append: "keeps_published rs (rs @ xs)"
  unfolding keeps_published_def using same_version_refl by (metis Un_iff set_append)

lemma keeps_published_map:
  "(\<And>r. r \<in> set rs \<Longrightarrow> pw_status r = POLICY_PUBLISHED \<Longrightarrow> same_version r (f r)) \<Longrightarrow> keeps_published rs (map f rs)"
  by (auto simp: keeps_published_def)

text \<open>Making one row of a name the active one, as activation and publication both do.\<close>

definition promoted :: "uuid option \<Rightarrow> ustr \<Rightarrow> uuid \<Rightarrow> ('doc policy_row \<Rightarrow> 'doc policy_row) \<Rightarrow>
    'doc policy_row \<Rightarrow> 'doc policy_row" where
  "promoted t n i f r = (if pw_id r = i then f r
     else if pw_tenant_id r = t \<and> pw_name r = n then r\<lparr>pw_is_active := False\<rparr> else r)"

lemma update_promoted:
  "update_where (\<lambda>r. pw_id r = i) f (update_where (others_of_name t n i) (\<lambda>r. r\<lparr>pw_is_active := False\<rparr>) rs)
     = map (promoted (Some t) n i f) rs"
  by (auto simp: update_where_def promoted_def others_of_name_def named_def of_tenant_def)

lemma promoted_ok:
  assumes ok: "repository_ok rs" and p: "p \<in> set rs" "pw_id p = i" "pw_tenant_id p = t" "pw_name p = n"
    and f: "f = (\<lambda>r. r\<lparr>pw_is_active := True\<rparr>) \<or> (f = published now)"
  shows "repository_ok (map (promoted t n i f) rs)"
proof -
  let ?g = "promoted t n i f"
  have con: "policy_constraints (map ?g rs)"
    using ok f by (intro constraints_map) (auto simp: repository_ok_def promoted_def published_def)
  have row: "r = p" if "r \<in> set rs" "pw_id r = i" for r
    using id_unique[of rs r p] ok that p by (simp add: repository_ok_def)
  have "one_active (map ?g rs)"
  proof (rule one_activeI)
    fix x x'
    assume "x \<in> set (map ?g rs)" "x' \<in> set (map ?g rs)"
      and act: "pw_is_active x" "pw_is_active x'" "pw_tenant_id x = pw_tenant_id x'" "pw_name x = pw_name x'"
    then obtain r r' where r: "r \<in> set rs" "x = ?g r" "r' \<in> set rs" "x' = ?g r'" by auto
    have keys: "pw_id (?g y) = pw_id y" "pw_tenant_id (?g y) = pw_tenant_id y" "pw_name (?g y) = pw_name y" for y
      using f by (auto simp: promoted_def published_def)
    have other: "pw_id y = i \<or> \<not> (pw_tenant_id y = t \<and> pw_name y = n) \<and> pw_is_active y" if "pw_is_active (?g y)" for y
      using that by (auto simp: promoted_def split: if_splits)
    have same: "pw_id r = i \<longleftrightarrow> pw_id r' = i"
    proof -
      have "pw_tenant_id r = pw_tenant_id r'" "pw_name r = pw_name r'" using act(3,4) r(2,4) keys by simp_all
      moreover have "pw_id r = i \<Longrightarrow> pw_tenant_id r = t \<and> pw_name r = n" using row[OF r(1)] p by simp
      moreover have "pw_id r' = i \<Longrightarrow> pw_tenant_id r' = t \<and> pw_name r' = n" using row[OF r(3)] p by simp
      ultimately show ?thesis using other[of r] other[of r'] act(1,2) r(2,4) by auto
    qed
    show "pw_id x = pw_id x'"
    proof (cases "pw_id r = i")
      case True
      then show ?thesis using same r keys by simp
    next
      case False
      then have "pw_is_active r" "pw_is_active r'" using same act(1,2) r other[of r] other[of r'] by auto
      moreover have "one_active rs" using ok by (simp add: repository_ok_def)
      moreover have "pw_tenant_id r = pw_tenant_id r'" "pw_name r = pw_name r'" using act(3,4) r(2,4) keys by simp_all
      ultimately have "pw_id r = pw_id r'" using one_activeD r(1,3) by blast
      then show ?thesis using r keys by simp
    qed
  qed
  moreover have "drafts_unpublished (map ?g rs)"
    using ok f by (auto simp: repository_ok_def drafts_unpublished_def promoted_def published_def)
  ultimately show ?thesis using con by (simp add: repository_ok_def)
qed

lemma promoted_keeps:
  assumes "policy_constraints rs" "p \<in> set rs" "pw_id p = i"
    and "f = (\<lambda>r. r\<lparr>pw_is_active := True\<rparr>) \<or> (f = published now \<and> pw_status p = POLICY_DRAFT)"
  shows "keeps_published rs (map (promoted t n i f) rs)"
proof (rule keeps_published_map)
  fix r
  assume r: "r \<in> set rs" "pw_status r = POLICY_PUBLISHED"
  show "same_version r (promoted t n i f r)"
    using assms(4) id_unique[OF assms(1) r(1) assms(2)] r(2) assms(3)
    by (auto simp: promoted_def same_version_def)
qed

lemma insert_ok:
  assumes "enforces_constraints tb rows" "table_laws tb rows" "repository_ok (rows s)"
    and "tb_insert tb row s = (Inr (), s')" "\<not> pw_is_active row"
    and "pw_status row = POLICY_DRAFT \<longleftrightarrow> pw_published_at row = None"
  shows "repository_ok (rows s') \<and> keeps_published (rows s) (rows s')"
proof -
  have rows: "rows s' = rows s @ [row]" using table_insert[OF assms(2,4)] by simp
  moreover have "policy_constraints (rows s')" using assms(1,4) unfolding enforces_constraints_def by blast
  moreover have "one_active (rows s @ [row])"
  proof (rule one_active_image)
    show "one_active (rows s)" using assms(3) by (simp add: repository_ok_def)
  qed (use assms(5) in auto)
  moreover have "drafts_unpublished (rows s @ [row])"
    using assms(3,6) by (simp add: repository_ok_def drafts_unpublished_def)
  moreover have "keeps_published (rows s) (rows s @ [row])"
    by (rule keeps_published_append)
  ultimately show ?thesis by (simp add: repository_ok_def)
qed

lemma select_one_found:
  assumes "table_laws tb rows" "select_one tb P s = (Inr (Some p), s')"
  shows "p \<in> set (rows s)" "P p" "rows s' = rows s"
proof -
  have "p \<in> set (filter P (rows s))" using select_one_rows(2)[OF assms refl] by simp
  then show "p \<in> set (rows s)" "P p" by auto
  show "rows s' = rows s" by (rule select_one_rows(1)[OF assms])
qed

lemma repository_step_ok:
  assumes "enforces_constraints tb rows" and laws: "table_laws tb rows"
    and step: "repository_step tb s s'" and ok: "repository_ok (rows s)"
  shows "repository_ok (rows s') \<and> keeps_published (rows s) (rows s')"
  using step
proof cases
  case (create_version i now t n v doc r)
  then have "tb_insert tb \<lparr>pw_id = i, pw_tenant_id = Some t, pw_name = n, pw_version = v, pw_document = doc,
      pw_is_active = False, pw_status = POLICY_PUBLISHED, pw_published_at = Some now\<rparr> s = (Inr (), s')"
    by (auto simp: policy_create_version_def bindS_Inr liftS_eq Let_def split: if_splits)
  from insert_ok[OF assms(1) laws ok this] show ?thesis by simp
next
  case (activate t i r)
  then obtain found s1 where sel: "select_one tb (\<lambda>r. of_tenant t r \<and> pw_id r = i) s = (Inr found, s1)"
    by (auto simp: policy_activate_def bindS_Inr)
  show ?thesis
  proof (cases found)
    case None
    then show ?thesis using activate sel select_one_rows(1)[OF laws sel] ok
      by (auto simp: policy_activate_def bindS_Inr liftS_eq)
  next
    case (Some p)
    note p = select_one_found[OF laws sel[unfolded Some]]
    obtain s2 where u: "tb_update tb (others_of_name t (pw_name p) i) (\<lambda>r. r\<lparr>pw_is_active := False\<rparr>) s1 = (Inr (), s2)"
        "tb_update tb (\<lambda>r. pw_id r = i) (\<lambda>r. r\<lparr>pw_is_active := True\<rparr>) s2 = (Inr (), s')"
      using activate sel Some by (auto simp: policy_activate_def bindS_Inr liftS_eq)
    have "rows s' = map (promoted (Some t) (pw_name p) i (\<lambda>r. r\<lparr>pw_is_active := True\<rparr>)) (rows s)"
      using table_update[OF laws u(1)] table_update[OF laws u(2)] p(3) by (simp add: update_promoted)
    moreover have "repository_ok (map (promoted (Some t) (pw_name p) i (\<lambda>r. r\<lparr>pw_is_active := True\<rparr>)) (rows s))"
      by (rule promoted_ok[OF ok p(1)]) (use p(2) in \<open>simp_all add: of_tenant_def\<close>)
    moreover have "keeps_published (rows s) (map (promoted (Some t) (pw_name p) i (\<lambda>r. r\<lparr>pw_is_active := True\<rparr>)) (rows s))"
      by (rule promoted_keeps[OF _ p(1)]) (use p(2) ok in \<open>simp_all add: repository_ok_def\<close>)
    ultimately show ?thesis by simp
  qed
next
  case (create_draft i t n doc r)
  then obtain v s1 where v: "policy_next_version tb t n s = (Inr v, s1)"
    and ins: "tb_insert tb \<lparr>pw_id = i, pw_tenant_id = Some t, pw_name = n, pw_version = v, pw_document = doc,
        pw_is_active = False, pw_status = POLICY_DRAFT, pw_published_at = None\<rparr> s1 = (Inr (), s')"
    by (auto simp: policy_create_draft_def bindS_Inr liftS_eq Let_def)
  have "rows s1 = rows s"
    using v table_select(1)[OF laws] by (auto simp: policy_next_version_def bindS_Inr liftS_eq)
  then show ?thesis using insert_ok[OF assms(1) laws _ ins] ok by simp
next
  case (update_draft t n doc r)
  then obtain found s1 where sel: "policy_get_draft tb t n s = (Inr found, s1)"
    by (auto simp: policy_update_draft_def bindS_Inr)
  note sel' = sel[unfolded policy_get_draft_def]
  show ?thesis
  proof (cases found)
    case None
    then show ?thesis using update_draft sel select_one_rows(1)[OF laws sel'] ok
      by (auto simp: policy_update_draft_def bindS_Inr liftS_eq)
  next
    case (Some d)
    note d = select_one_found[OF laws sel'[unfolded Some]]
    have u: "tb_update tb (\<lambda>r. pw_id r = pw_id d) (\<lambda>r. r\<lparr>pw_document := doc\<rparr>) s1 = (Inr (), s')"
      using update_draft sel Some by (auto simp: policy_update_draft_def bindS_Inr liftS_eq split: if_splits)
    have rows: "rows s' = map (\<lambda>r. if pw_id r = pw_id d then r\<lparr>pw_document := doc\<rparr> else r) (rows s)"
      using table_update[OF laws u] d(3) by (simp add: update_where_eq)
    have con: "policy_constraints (rows s)" using ok by (simp add: repository_ok_def)
    have "policy_constraints (rows s')" unfolding rows by (rule constraints_map[OF con]) simp
    moreover have "one_active (rows s')"
      unfolding rows using ok by (intro one_active_map) (simp_all add: repository_ok_def row_key_def)
    moreover have "drafts_unpublished (rows s')"
      using ok unfolding rows by (auto simp: repository_ok_def drafts_unpublished_def)
    moreover have "keeps_published (rows s) (rows s')"
      unfolding rows using published_not_draft[OF con d(1)] d(2) by (intro keeps_published_map) auto
    ultimately show ?thesis by (simp add: repository_ok_def)
  qed
next
  case (discard_draft t n b)
  then obtain found s1 where sel: "policy_get_draft tb t n s = (Inr found, s1)"
    by (auto simp: policy_discard_draft_def bindS_Inr)
  note sel' = sel[unfolded policy_get_draft_def]
  show ?thesis
  proof (cases found)
    case None
    then show ?thesis using discard_draft sel select_one_rows(1)[OF laws sel'] ok
      by (auto simp: policy_discard_draft_def bindS_Inr liftS_eq)
  next
    case (Some d)
    note d = select_one_found[OF laws sel'[unfolded Some]]
    have del: "tb_delete tb (\<lambda>r. pw_id r = pw_id d) s1 = (Inr (), s')"
      using discard_draft sel Some by (auto simp: policy_discard_draft_def bindS_Inr liftS_eq)
    have rows: "rows s' = filter (\<lambda>r. pw_id r \<noteq> pw_id d) (rows s)" using table_delete[OF laws del] d(3) by simp
    have con: "policy_constraints (rows s)" using ok by (simp add: repository_ok_def)
    have "one_active (rows s')"
      unfolding rows
    proof (rule one_active_image)
      show "one_active (rows s)" using ok by (simp add: repository_ok_def)
    qed auto
    moreover have "drafts_unpublished (rows s')"
      using ok unfolding rows by (auto simp: repository_ok_def drafts_unpublished_def)
    moreover have "keeps_published (rows s) (rows s')"
      unfolding rows keeps_published_def using published_not_draft[OF con d(1)] d(2) by force
    ultimately show ?thesis using constraints_filter[OF con] rows by (simp add: repository_ok_def)
  qed
next
  case (publish_draft now t n r)
  then obtain found s1 where sel: "policy_get_draft tb t n s = (Inr found, s1)"
    by (auto simp: policy_publish_draft_def bindS_Inr)
  note sel' = sel[unfolded policy_get_draft_def]
  show ?thesis
  proof (cases found)
    case None
    then show ?thesis using publish_draft sel select_one_rows(1)[OF laws sel'] ok
      by (auto simp: policy_publish_draft_def bindS_Inr liftS_eq)
  next
    case (Some d)
    note d = select_one_found[OF laws sel'[unfolded Some]]
    obtain s2 where u: "tb_update tb (others_of_name t n (pw_id d)) (\<lambda>r. r\<lparr>pw_is_active := False\<rparr>) s1 = (Inr (), s2)"
        "tb_update tb (\<lambda>r. pw_id r = pw_id d) (published now) s2 = (Inr (), s')"
      using publish_draft sel Some by (auto simp: policy_publish_draft_def bindS_Inr liftS_eq)
    have "rows s' = map (promoted (Some t) n (pw_id d) (published now)) (rows s)"
      using table_update[OF laws u(1)] table_update[OF laws u(2)] d(3) by (simp add: update_promoted)
    moreover have "repository_ok (map (promoted (Some t) n (pw_id d) (published now)) (rows s))"
      by (rule promoted_ok[OF ok d(1) refl, where now = now]) (use d(2) in \<open>simp_all add: named_def of_tenant_def\<close>)
    moreover have "keeps_published (rows s) (map (promoted (Some t) n (pw_id d) (published now)) (rows s))"
      by (rule promoted_keeps[OF _ d(1) refl, where now = now]) (use d(2) ok in \<open>simp_all add: repository_ok_def\<close>)
    ultimately show ?thesis by simp
  qed
qed

lemma keeps_published_trans:
  assumes "keeps_published rs rs'" "keeps_published rs' rs''"
  shows "keeps_published rs rs''"
  unfolding keeps_published_def
proof (intro ballI impI)
  fix r
  assume "r \<in> set rs" "pw_status r = POLICY_PUBLISHED"
  then obtain r1 where r1: "r1 \<in> set rs'" "same_version r r1" using assms(1) unfolding keeps_published_def by blast
  then have "pw_status r1 = POLICY_PUBLISHED"
    using \<open>pw_status r = POLICY_PUBLISHED\<close> by (simp add: same_version_def)
  then obtain r2 where "r2 \<in> set rs''" "same_version r1 r2" using assms(2) r1(1) unfolding keeps_published_def by blast
  then show "\<exists>r'\<in>set rs''. same_version r r'" using same_version_trans[OF r1(2)] by blast
qed


text \<open>A table that checks the declared constraints on insertion.\<close>

definition checked_table :: "('doc policy_row list, 'doc) policy_table" where
  "checked_table = plain_table\<lparr>tb_insert := (\<lambda>x rs. if policy_constraints (rs @ [x]) then (Inr (), rs @ [x])
     else (Inl SQLAlchemyError, rs))\<rparr>"

lemma checked_table_laws: "table_laws checked_table id" "enforces_constraints checked_table id"
  by (simp_all add: checked_table_def table_laws_def select_law_def insert_law_def update_law_def delete_law_def
      plain_table_def enforces_constraints_def)

definition sample_row :: "int \<Rightarrow> ustr \<Rightarrow> bool \<Rightarrow> nat policy_row" where
  "sample_row v n a = \<lparr>pw_id = nat v, pw_tenant_id = Some 1, pw_name = n, pw_version = v, pw_document = 10,
     pw_is_active = a, pw_status = POLICY_PUBLISHED, pw_published_at = Some 5\<rparr>"

definition after_draft :: "nat policy_row list" where
  "after_draft = [sample_row 1 (lit ''default'') True,
     \<lparr>pw_id = 2, pw_tenant_id = Some 1, pw_name = lit ''default'', pw_version = 2, pw_document = 11,
      pw_is_active = False, pw_status = POLICY_DRAFT, pw_published_at = None\<rparr>]"

definition after_publish :: "nat policy_row list" where
  "after_publish = [sample_row 1 (lit ''default'') False,
     \<lparr>pw_id = 2, pw_tenant_id = Some 1, pw_name = lit ''default'', pw_version = 2, pw_document = 11,
      pw_is_active = True, pw_status = POLICY_PUBLISHED, pw_published_at = Some 9\<rparr>]"

lemma sample_row_ok: "repository_ok [sample_row 1 (lit ''default'') True]"
  by (simp add: repository_ok_def policy_constraints_def one_active_def drafts_unpublished_def sample_row_def)


text \<open>
  Activation deactivates the versions of one name only, and the active policy is the highest
  version number over all names, so publishing the first version of another name does not make
  it the tenant's policy.
\<close>

lemma publish_other_name_not_effective:
  "\<exists>draft s2. policy_create_draft checked_table 7 1 (lit ''strict'') 12 [sample_row 3 (lit ''default'') True]
       = (Inr draft, s2) \<and>
     fst (policy_get_active checked_table 1 (snd (policy_publish_draft checked_table 9 1 (lit ''strict'') s2)))
       = Inr (Some (sample_row 3 (lit ''default'') True))"
  by (simp add: policy_create_draft_def policy_next_version_def policy_publish_draft_def policy_get_draft_def
      policy_get_active_def select_one_def checked_table_def plain_table_def bindS_def liftS_def sample_row_def
      named_def of_tenant_def others_of_name_def update_where_def published_def
      highest_version_def Let_def)
    (auto simp: policy_constraints_def)

end
