(* ===== verification/Redis_Vault.thy ===== *)
theory Redis_Vault
  imports Vault_Crypto Vault_Interface Token_Ids Fingerprint
begin

text \<open>
  The Redis vault, \<^verbatim>\<open>app/vault/redis_vault.py\<close>. Redis is a record of commands on the state of its
  server; the batch script, which the server runs with nothing interleaved, is the sequence of
  the commands it calls. \<open>redis_laws\<close> states what each command does to the keys; the expiry of
  a key between operations is not part of the laws, so what is proved holds while nothing
  expires. The state of the vault is the store, the clock, and the draws of \<open>secrets\<close> and
  \<open>os.urandom\<close> with the number already taken.
\<close>

section \<open>The server\<close>

record 's redis_ops =
  ro_get :: "ustr \<Rightarrow> ('s, bytes option) op"
  ro_exists :: "ustr \<Rightarrow> ('s, bool) op"
  ro_expire :: "ustr \<Rightarrow> int \<Rightarrow> ('s, unit) op"
  ro_set_ex :: "ustr \<Rightarrow> bytes \<Rightarrow> int \<Rightarrow> ('s, unit) op"
  ro_sadd :: "ustr \<Rightarrow> ustr \<Rightarrow> ('s, unit) op"
  ro_mget :: "ustr list \<Rightarrow> ('s, bytes option list) op"
  ro_smembers :: "ustr \<Rightarrow> ('s, ustr list) op"
  ro_delete :: "ustr list list \<Rightarrow> ('s, nat list) op"

record redis_view =
  rv_strings :: "ustr \<Rightarrow> bytes option"
  rv_sets :: "ustr \<Rightarrow> ustr set"

definition reads :: "('s \<Rightarrow> redis_view) \<Rightarrow> ('s, 'a) op \<Rightarrow> (redis_view \<Rightarrow> 'a \<Rightarrow> bool) \<Rightarrow> bool" where
  "reads view f ok \<longleftrightarrow> (\<forall>s r s'. f s = (r, s') \<longrightarrow> view s' = view s \<and> (\<forall>x. r = Inr x \<longrightarrow> ok (view s) x))"

definition writes :: "('s \<Rightarrow> redis_view) \<Rightarrow> ('s, 'a) op \<Rightarrow> (redis_view \<Rightarrow> redis_view) \<Rightarrow> bool" where
  "writes view f upd \<longleftrightarrow> (\<forall>s r s'. f s = (r, s') \<longrightarrow> view s' = (if isl r then view s else upd (view s)))"

definition without_keys :: "ustr set \<Rightarrow> redis_view \<Rightarrow> redis_view" where
  "without_keys ks v =
     \<lparr>rv_strings = (\<lambda>k. if k \<in> ks then None else rv_strings v k),
      rv_sets = (\<lambda>k. if k \<in> ks then {} else rv_sets v k)\<rparr>"

definition redis_laws :: "'s redis_ops \<Rightarrow> ('s \<Rightarrow> redis_view) \<Rightarrow> bool" where
  "redis_laws ops view \<longleftrightarrow>
     (\<forall>k. reads view (ro_get ops k) (\<lambda>v x. x = rv_strings v k)) \<and>
     (\<forall>k. reads view (ro_exists ops k) (\<lambda>v x. x \<longleftrightarrow> rv_strings v k \<noteq> None)) \<and>
     (\<forall>k t. writes view (ro_expire ops k t) id) \<and>
     (\<forall>k b t. writes view (ro_set_ex ops k b t) (\<lambda>v. v\<lparr>rv_strings := (rv_strings v)(k \<mapsto> b)\<rparr>)) \<and>
     (\<forall>k m. writes view (ro_sadd ops k m) (\<lambda>v. v\<lparr>rv_sets := (rv_sets v)(k := insert m (rv_sets v k))\<rparr>)) \<and>
     (\<forall>ks. reads view (ro_mget ops ks) (\<lambda>v xs. xs = map (rv_strings v) ks)) \<and>
     (\<forall>k. reads view (ro_smembers ops k) (\<lambda>v xs. set xs = rv_sets v k)) \<and>
     (\<forall>kss. writes view (ro_delete ops kss) (without_keys (\<Union>ks \<in> set kss. set ks)))"

section \<open>Keys\<close>

definition VAULT_KEY_PREFIX :: ustr where
  "VAULT_KEY_PREFIX = lit ''sgw:v1''"

definition MIN_TTL_SECONDS :: int where
  "MIN_TTL_SECONDS = 1"

definition MAX_TTL_SECONDS :: int where
  "MAX_TTL_SECONDS = 7200"

definition MAX_BATCH_ENTRIES :: nat where
  "MAX_BATCH_ENTRIES = 10000"

definition TOKEN_SEGMENT :: ustr where
  "TOKEN_SEGMENT = lit '':token:''"

definition session_prefix :: "ustr \<Rightarrow> uuid \<Rightarrow> uuid \<Rightarrow> ustr" where
  "session_prefix pre tenant_id session_id = pre @ lit '':'' @ uuid_str tenant_id @ lit '':'' @ uuid_str session_id"

definition token_key :: "ustr \<Rightarrow> ustr \<Rightarrow> ustr" where
  "token_key sp token_id = sp @ TOKEN_SEGMENT @ token_id"

definition fingerprint_key :: "(bytes \<Rightarrow> bytes) \<Rightarrow> ustr \<Rightarrow> ustr \<Rightarrow> ustr \<Rightarrow> ustr res" where
  "fingerprint_key sha sp entity_type normalized_hmac =
     bindR (utf8_encode normalized_hmac)
       (\<lambda>b. Inr (sp @ lit '':fingerprint:'' @ entity_type @ lit '':'' @ hexdigest (sha b)))"

definition meta_key :: "ustr \<Rightarrow> ustr" where
  "meta_key sp = sp @ lit '':meta''"

section \<open>State and collaborators\<close>

record vault_env =
  vn_prefix :: ustr
  vn_ring :: key_ring
  vn_aead :: aead
  vn_codec :: codec
  vn_sha256 :: "bytes \<Rightarrow> bytes"

record 's redis_vault =
  rs_store :: 's
  rs_now :: int
  rs_random :: "nat \<Rightarrow> bytes"
  rs_nonces :: "nat \<Rightarrow> bytes"
  rs_drawn :: nat

definition on_store :: "('s, 'a) op \<Rightarrow> ('s redis_vault, 'a) op" where
  "on_store f st = (let (r, s) = f (rs_store st) in (r, st\<lparr>rs_store := s\<rparr>))"

text \<open>\<open>_store_failures_fail_closed\<close>.\<close>

definition store_failures_fail_closed :: "('s, 'a) op \<Rightarrow> ('s, 'a) op" where
  "store_failures_fail_closed m = catchS m
     (\<lambda>e. if e = RedisError \<or> e = OSError then Some (liftS (Inl (GatewayError VAULT_UNAVAILABLE ''''))) else None)"

definition vault_seal :: "vault_env \<Rightarrow> uuid \<Rightarrow> uuid \<Rightarrow> ustr \<Rightarrow> ustr \<Rightarrow> ustr \<Rightarrow> ustr \<Rightarrow> int \<Rightarrow> int \<Rightarrow> bytes \<Rightarrow> bytes res" where
  "vault_seal env tenant_id session_id entity_type token token_id original_value ttl_seconds now nonce =
     bindR (vault_record_to_bytes (vn_codec env)
        \<lparr>vr_tenant_id = tenant_id, vr_session_id = session_id, vr_token = token, vr_entity_type = entity_type,
         vr_original_value = original_value, vr_created_at = now, vr_expires_at = now + ttl_seconds * 1000000\<rparr>)
       (\<lambda>plaintext. seal (vn_aead env) (vn_ring env) nonce plaintext
          (vault_aad_bytes \<lparr>va_tenant_id = tenant_id, va_session_id = session_id,
             va_entity_type = entity_type, va_token_id = token_id\<rparr>))"

definition vault_unseal :: "vault_env \<Rightarrow> bytes \<Rightarrow> uuid \<Rightarrow> uuid \<Rightarrow> ustr \<Rightarrow> ustr \<Rightarrow> vault_record res" where
  "vault_unseal env raw tenant_id session_id entity_type token_id =
     bindR (unseal (vn_aead env) (vn_ring env) raw
          (vault_aad_bytes \<lparr>va_tenant_id = tenant_id, va_session_id = session_id,
             va_entity_type = entity_type, va_token_id = token_id\<rparr>))
       (vault_record_from_bytes (vn_codec env))"

section \<open>The batch write\<close>

definition validated_ttl :: "int \<Rightarrow> int res" where
  "validated_ttl ttl_seconds =
     (if MIN_TTL_SECONDS \<le> ttl_seconds \<and> ttl_seconds \<le> MAX_TTL_SECONDS then Inr ttl_seconds else Inl ValueError)"

text \<open>\<open>_deduplicate\<close>: the unique entries and, for each entry, where its own is.\<close>

fun deduplicate_loop :: "vault_write_request list \<Rightarrow> (vault_key \<times> nat) list \<Rightarrow> vault_write_request list \<Rightarrow> nat list \<Rightarrow>
    vault_write_request list \<times> nat list" where
  "deduplicate_loop [] seen unique positions = (unique, positions)"
| "deduplicate_loop (e # es) seen unique positions =
     (case dict_get seen (vault_key_of e) of
        None \<Rightarrow> deduplicate_loop es (dict_put (vault_key_of e) (length unique) seen) (unique @ [e])
                  (positions @ [length unique])
      | Some index \<Rightarrow> deduplicate_loop es seen unique (positions @ [index]))"

definition deduplicate :: "vault_write_request list \<Rightarrow> vault_write_request list \<times> nat list" where
  "deduplicate entries = deduplicate_loop entries [] [] []"

text \<open>One entry, sealed: its index key, its candidate record key and identifier, its envelope.\<close>

record candidate_entry =
  ce_fingerprint_key :: ustr
  ce_record_key :: ustr
  ce_token_id :: ustr
  ce_envelope :: bytes

definition vault_validate_entry :: "vault_write_request \<Rightarrow> unit res" where
  "vault_validate_entry e =
     (if \<not> is_valid_entity_type (vw_entity_type e) then Inl ValueError
      else if vw_normalized_hmac e = [] then Inl ValueError else Inr ())"

definition seal_entry :: "vault_env \<Rightarrow> uuid \<Rightarrow> uuid \<Rightarrow> int \<Rightarrow> vault_write_request \<Rightarrow> ('s redis_vault, candidate_entry) op" where
  "seal_entry env tenant_id session_id ttl e st =
     (let nonce = rs_nonces st (rs_drawn st);
          sp = session_prefix (vn_prefix env) tenant_id session_id
      in (bindR (new_token_id (rs_random st (rs_drawn st))) (\<lambda>candidate_id.
          bindR (fingerprint_key (vn_sha256 env) sp (vw_entity_type e) (vw_normalized_hmac e)) (\<lambda>fk.
          bindR (format_token (vw_entity_type e) candidate_id) (\<lambda>token.
          bindR (vault_seal env tenant_id session_id (vw_entity_type e) token candidate_id
                   (vw_original_value e) ttl (rs_now st) nonce) (\<lambda>envelope.
            Inr \<lparr>ce_fingerprint_key = fk, ce_record_key = token_key sp candidate_id,
                 ce_token_id = candidate_id, ce_envelope = envelope\<rparr>)))),
          st\<lparr>rs_drawn := Suc (rs_drawn st)\<rparr>))"

fun seal_entries :: "vault_env \<Rightarrow> uuid \<Rightarrow> uuid \<Rightarrow> int \<Rightarrow> vault_write_request list \<Rightarrow>
    ('s redis_vault, candidate_entry list) op" where
  "seal_entries env tenant_id session_id ttl [] = liftS (Inr [])"
| "seal_entries env tenant_id session_id ttl (e # es) =
     bindS (seal_entry env tenant_id session_id ttl e) (\<lambda>c.
     bindS (seal_entries env tenant_id session_id ttl es) (\<lambda>cs. liftS (Inr (c # cs))))"

text \<open>
  The body of the script's loop and the script: reuse an index entry whose record exists, extending
  both; otherwise write the candidate record, its index entry and their names in the meta set.
\<close>

definition script_reuse :: "'s redis_ops \<Rightarrow> ustr \<Rightarrow> int \<Rightarrow> ustr \<Rightarrow> ('s, bytes option) op" where
  "script_reuse ops record_prefix ttl fkey =
     bindS (ro_get ops fkey) (\<lambda>existing_id.
       case existing_id of
         None \<Rightarrow> liftS (Inr None)
       | Some existing \<Rightarrow>
           bindS (ro_exists ops (record_prefix @ existing)) (\<lambda>present.
             if present
             then bindS (ro_expire ops fkey ttl) (\<lambda>_.
                  bindS (ro_expire ops (record_prefix @ existing) ttl) (\<lambda>_. liftS (Inr (Some existing))))
             else liftS (Inr None)))"

definition script_create :: "'s redis_ops \<Rightarrow> ustr \<Rightarrow> int \<Rightarrow> candidate_entry \<Rightarrow> ('s, unit) op" where
  "script_create ops meta ttl c =
     bindS (ro_set_ex ops (ce_record_key c) (ce_envelope c) ttl) (\<lambda>_.
     bindS (ro_set_ex ops (ce_fingerprint_key c) (ce_token_id c) ttl) (\<lambda>_.
     bindS (ro_sadd ops meta (ce_record_key c)) (\<lambda>_.
       ro_sadd ops meta (ce_fingerprint_key c))))"

fun script_loop :: "'s redis_ops \<Rightarrow> ustr \<Rightarrow> ustr \<Rightarrow> int \<Rightarrow> candidate_entry list \<Rightarrow> ('s, (bytes \<times> nat) list) op" where
  "script_loop ops meta record_prefix ttl [] = liftS (Inr [])"
| "script_loop ops meta record_prefix ttl (c # cs) =
     bindS (script_reuse ops record_prefix ttl (ce_fingerprint_key c)) (\<lambda>reused.
       case reused of
         Some existing \<Rightarrow>
           bindS (script_loop ops meta record_prefix ttl cs) (\<lambda>rest. liftS (Inr ((existing, 0) # rest)))
       | None \<Rightarrow>
           bindS (script_create ops meta ttl c) (\<lambda>_.
           bindS (script_loop ops meta record_prefix ttl cs) (\<lambda>rest. liftS (Inr ((ce_token_id c, 1) # rest)))))"

definition batch_write :: "'s redis_ops \<Rightarrow> ustr \<Rightarrow> ustr \<Rightarrow> int \<Rightarrow> candidate_entry list \<Rightarrow> ('s, (bytes \<times> nat) list) op" where
  "batch_write ops meta record_prefix ttl cs =
     bindS (script_loop ops meta record_prefix ttl cs) (\<lambda>result.
     bindS (ro_expire ops meta ttl) (\<lambda>_. liftS (Inr result)))"

text \<open>
  \<open>_as_text\<close> on bytes: undecodable bytes become the replacement character; the model keeps one,
  which is enough to make an identifier malformed.
\<close>

definition as_text :: "bytes \<Rightarrow> ustr" where
  "as_text b = (case utf8_decode b of Inr t \<Rightarrow> t | Inl _ \<Rightarrow> [0xFFFD])"

definition read_batch_result :: "(bytes \<times> nat) list \<Rightarrow> vault_write_request list \<Rightarrow> (ustr list \<times> nat) res" where
  "read_batch_result raw unique =
     (if length raw \<noteq> length unique then Inl (vault_failure ''batch_reply_length_mismatch'')
      else bindR (traverseR (\<lambda>((reply, created), entry).
              if \<not> is_valid_token_id (as_text reply) then Inl (vault_failure ''malformed_index_entry'')
              else format_token (vw_entity_type entry) (as_text reply)) (zip raw unique))
           (\<lambda>tokens. Inr (tokens, sum_list (map snd raw))))"

definition redis_get_or_create_many :: "vault_env \<Rightarrow> 's redis_ops \<Rightarrow> uuid \<Rightarrow> uuid \<Rightarrow> vault_write_request list \<Rightarrow> int \<Rightarrow>
    ('s redis_vault, ustr list) op" where
  "redis_get_or_create_many env ops tenant_id session_id entries ttl_seconds =
     bindS (liftS (validated_ttl ttl_seconds)) (\<lambda>ttl.
     bindS (liftS (traverseR vault_validate_entry entries)) (\<lambda>_.
       if MAX_BATCH_ENTRIES < length entries then liftS (Inl ValueError)
       else if entries = [] then liftS (Inr [])
       else (let (unique, positions) = deduplicate entries;
                 sp = session_prefix (vn_prefix env) tenant_id session_id
             in bindS (seal_entries env tenant_id session_id ttl unique) (\<lambda>cs.
                bindS (on_store (store_failures_fail_closed
                         (batch_write ops (meta_key sp) (sp @ TOKEN_SEGMENT) ttl cs))) (\<lambda>raw.
                bindS (liftS (read_batch_result raw unique)) (\<lambda>(tokens, created).
                  liftS (Inr (map ((!) tokens) positions))))))))"

section \<open>Resolution and deletion\<close>

definition wanted_tokens :: "ustr list \<Rightarrow> (ustr \<times> ustr \<times> ustr) list" where
  "wanted_tokens tokens =
     concat (map (\<lambda>t. case parse_token t of None \<Rightarrow> [] | Some p \<Rightarrow> [(t, tk_entity_type p, tk_token_id p)])
       (sort (remdups tokens)))"

definition open_found :: "vault_env \<Rightarrow> uuid \<Rightarrow> uuid \<Rightarrow> (ustr \<times> ustr \<times> ustr) \<times> bytes option \<Rightarrow> (ustr \<times> ustr) list res" where
  "open_found env tenant_id session_id = (\<lambda>((token, entity_type, token_id), raw).
     case raw of
       None \<Rightarrow> Inr []
     | Some b \<Rightarrow> bindR (vault_unseal env b tenant_id session_id entity_type token_id) (\<lambda>r.
         if vr_token r \<noteq> token then Inl (vault_failure ''record_token_mismatch'')
         else Inr [(token, vr_original_value r)]))"

definition redis_resolve_many :: "vault_env \<Rightarrow> 's redis_ops \<Rightarrow> uuid \<Rightarrow> uuid \<Rightarrow> ustr list \<Rightarrow>
    ('s redis_vault, (ustr \<times> ustr) list) op" where
  "redis_resolve_many env ops tenant_id session_id tokens =
     (let wanted = wanted_tokens tokens; sp = session_prefix (vn_prefix env) tenant_id session_id in
      if wanted = [] then liftS (Inr [])
      else bindS (on_store (store_failures_fail_closed
                    (ro_mget ops (map (\<lambda>(t, ty, i). token_key sp i) wanted)))) (\<lambda>raw_values.
           bindS (liftS (traverseR (open_found env tenant_id session_id) (zip wanted raw_values))) (\<lambda>found.
             liftS (Inr (concat found)))))"

definition contains_segment :: "ustr \<Rightarrow> ustr \<Rightarrow> bool" where
  "contains_segment seg key \<longleftrightarrow> find_at seg key \<noteq> None"

definition redis_delete_session :: "vault_env \<Rightarrow> 's redis_ops \<Rightarrow> uuid \<Rightarrow> uuid \<Rightarrow> ('s redis_vault, nat) op" where
  "redis_delete_session env ops tenant_id session_id =
     (let sp = session_prefix (vn_prefix env) tenant_id session_id in
      on_store (store_failures_fail_closed (
        bindS (ro_smembers ops (meta_key sp)) (\<lambda>member_keys.
          let owned = filter (\<lambda>k. startswith k (sp @ lit '':'')) member_keys;
              record_keys = filter (contains_segment TOKEN_SEGMENT) owned;
              index_keys = filter (\<lambda>k. \<not> contains_segment TOKEN_SEGMENT k) owned
          in bindS (ro_delete ops ((if record_keys = [] then [] else [record_keys])
                      @ (if index_keys = [] then [] else [index_keys]) @ [[meta_key sp]])) (\<lambda>results.
             liftS (Inr (if record_keys = [] then 0 else hd results)))))))"

text \<open>The protocol's operations; a number that is no UUID is no tenant or session.\<close>

definition uuid_checked :: "uuid \<Rightarrow> uuid \<Rightarrow> ('s, 'a) op \<Rightarrow> ('s, 'a) op" where
  "uuid_checked t u f = (if valid_uuid t \<and> valid_uuid u then f else liftS (Inl ValueError))"

definition redis_vault_ops :: "vault_env \<Rightarrow> 's redis_ops \<Rightarrow> 's redis_vault vault_ops" where
  "redis_vault_ops env ops =
     \<lparr>vo_get_or_create_many = (\<lambda>t u es ttl. uuid_checked t u (redis_get_or_create_many env ops t u es ttl)),
      vo_resolve_many = (\<lambda>t u toks. uuid_checked t u (redis_resolve_many env ops t u toks)),
      vo_delete_session = (\<lambda>t u. uuid_checked t u (redis_delete_session env ops t u))\<rparr>"

end
