(* ===== verification/S3_Store.thy ===== *)
theory S3_Store
  imports Document_Store
begin

text \<open>
  The store over an S3-compatible service, \<^verbatim>\<open>app/documents/storage/s3.py\<close>. The client library and
  the service are not part of the repository: a client is a record of the calls the store makes,
  each on the state of the service, and \<open>s3_laws\<close> states what the service documents of them.
  A small object is one request; a larger one is a multipart upload whose parts, but the last,
  are all of the configured size.
\<close>

section \<open>The client\<close>

datatype s3_error =
    ClientError ustr "nat option"
  | BotoCoreError
  | ConnectionOSError
  | OtherError exn

type_synonym ('r, 'a) call = "'r \<Rightarrow> (s3_error + 'a) \<times> 'r"

record 'r s3_client =
  s3_enter :: "('r, unit) call"
  s3_put_object :: "ustr \<Rightarrow> bytes \<Rightarrow> ustr option \<Rightarrow> ('r, unit) call"
  s3_create_multipart_upload :: "ustr \<Rightarrow> ustr option \<Rightarrow> ('r, ustr) call"
  s3_upload_part :: "ustr \<Rightarrow> nat \<Rightarrow> ustr \<Rightarrow> bytes \<Rightarrow> ('r, ustr) call"
  s3_complete_multipart_upload :: "ustr \<Rightarrow> ustr \<Rightarrow> (ustr \<times> nat) list \<Rightarrow> ('r, unit) call"
  s3_abort_multipart_upload :: "ustr \<Rightarrow> ustr \<Rightarrow> ('r, unit) call"
  s3_get_object :: "ustr \<Rightarrow> ('r, bytes list \<times> s3_error option) call"
  s3_delete_object :: "ustr \<Rightarrow> ('r, unit) call"
  s3_head_bucket :: "('r, unit) call"

text \<open>
  \<open>objects r key\<close> is the object under a key, \<open>uploads r id\<close> the key and the parts (tag and body by
  number) of an upload that is neither completed nor aborted. A call that fails says nothing of
  the object or the upload it names, and leaves the others alone.
\<close>

definition put_object_law :: "'r s3_client \<Rightarrow> ('r \<Rightarrow> ustr \<Rightarrow> bytes option) \<Rightarrow>
    ('r \<Rightarrow> ustr \<Rightarrow> (ustr \<times> (nat \<rightharpoonup> ustr \<times> bytes)) option) \<Rightarrow> bool" where
  "put_object_law cl objects uploads \<longleftrightarrow> (\<forall>key body ct r res r'. s3_put_object cl key body ct r = (res, r') \<longrightarrow>
     uploads r' = uploads r \<and> (\<forall>k. k \<noteq> key \<longrightarrow> objects r' k = objects r k)
     \<and> (\<not> isl res \<longrightarrow> objects r' key = Some body))"

definition create_upload_law :: "'r s3_client \<Rightarrow> ('r \<Rightarrow> ustr \<Rightarrow> bytes option) \<Rightarrow>
    ('r \<Rightarrow> ustr \<Rightarrow> (ustr \<times> (nat \<rightharpoonup> ustr \<times> bytes)) option) \<Rightarrow> bool" where
  "create_upload_law cl objects uploads \<longleftrightarrow> (\<forall>key ct r res r'. s3_create_multipart_upload cl key ct r = (res, r') \<longrightarrow>
     objects r' = objects r
     \<and> (\<forall>i. res = Inr i \<longrightarrow> uploads r i = None \<and> uploads r' = (uploads r)(i \<mapsto> (key, Map.empty))))"

definition upload_part_law :: "'r s3_client \<Rightarrow> ('r \<Rightarrow> ustr \<Rightarrow> bytes option) \<Rightarrow>
    ('r \<Rightarrow> ustr \<Rightarrow> (ustr \<times> (nat \<rightharpoonup> ustr \<times> bytes)) option) \<Rightarrow> bool" where
  "upload_part_law cl objects uploads \<longleftrightarrow> (\<forall>key n i body r res r'. s3_upload_part cl key n i body r = (res, r') \<longrightarrow>
     objects r' = objects r
     \<and> (\<forall>tag ps. res = Inr tag \<and> uploads r i = Some (key, ps) \<longrightarrow> uploads r' i = Some (key, ps(n \<mapsto> (tag, body)))))"

definition complete_law :: "'r s3_client \<Rightarrow> ('r \<Rightarrow> ustr \<Rightarrow> bytes option) \<Rightarrow>
    ('r \<Rightarrow> ustr \<Rightarrow> (ustr \<times> (nat \<rightharpoonup> ustr \<times> bytes)) option) \<Rightarrow> bool" where
  "complete_law cl objects uploads \<longleftrightarrow> (\<forall>key i parts r res r'. s3_complete_multipart_upload cl key i parts r = (res, r') \<longrightarrow>
     (\<forall>k. k \<noteq> key \<longrightarrow> objects r' k = objects r k)
     \<and> (\<forall>ps bodies. \<not> isl res \<and> uploads r i = Some (key, ps)
          \<and> list_all2 (\<lambda>(tag, n) body. ps n = Some (tag, body)) parts bodies
          \<longrightarrow> objects r' key = Some (concat bodies)))"

definition abort_law :: "'r s3_client \<Rightarrow> ('r \<Rightarrow> ustr \<Rightarrow> bytes option) \<Rightarrow>
    ('r \<Rightarrow> ustr \<Rightarrow> (ustr \<times> (nat \<rightharpoonup> ustr \<times> bytes)) option) \<Rightarrow> bool" where
  "abort_law cl objects uploads \<longleftrightarrow> (\<forall>key i r res r'. s3_abort_multipart_upload cl key i r = (res, r') \<longrightarrow>
     objects r' = objects r \<and> (\<not> isl res \<longrightarrow> uploads r' i = None))"

definition get_object_law :: "'r s3_client \<Rightarrow> ('r \<Rightarrow> ustr \<Rightarrow> bytes option) \<Rightarrow> bool" where
  "get_object_law cl objects \<longleftrightarrow> (\<forall>key r res r'. s3_get_object cl key r = (res, r') \<longrightarrow>
     objects r' = objects r \<and> (\<forall>blocks. res = Inr (blocks, None) \<longrightarrow> objects r key = Some (concat blocks)))"

definition delete_object_law :: "'r s3_client \<Rightarrow> ('r \<Rightarrow> ustr \<Rightarrow> bytes option) \<Rightarrow> bool" where
  "delete_object_law cl objects \<longleftrightarrow> (\<forall>key r res r'. s3_delete_object cl key r = (res, r') \<longrightarrow>
     (\<forall>k. k \<noteq> key \<longrightarrow> objects r' k = objects r k) \<and> (\<not> isl res \<longrightarrow> objects r' key = None))"

definition reading_law :: "'r s3_client \<Rightarrow> ('r \<Rightarrow> ustr \<Rightarrow> bytes option) \<Rightarrow> bool" where
  "reading_law cl objects \<longleftrightarrow> (\<forall>r. objects (snd (s3_enter cl r)) = objects r \<and> objects (snd (s3_head_bucket cl r)) = objects r)"

definition s3_laws :: "'r s3_client \<Rightarrow> ('r \<Rightarrow> ustr \<Rightarrow> bytes option) \<Rightarrow>
    ('r \<Rightarrow> ustr \<Rightarrow> (ustr \<times> (nat \<rightharpoonup> ustr \<times> bytes)) option) \<Rightarrow> bool" where
  "s3_laws cl objects uploads \<longleftrightarrow> put_object_law cl objects uploads \<and> create_upload_law cl objects uploads
     \<and> upload_part_law cl objects uploads \<and> complete_law cl objects uploads \<and> abort_law cl objects uploads
     \<and> get_object_law cl objects \<and> delete_object_law cl objects \<and> reading_law cl objects"

section \<open>The store\<close>

definition MIN_PART_BYTES :: nat where "MIN_PART_BYTES = 5242880"
definition DOWNLOAD_CHUNK_BYTES :: nat where "DOWNLOAD_CHUNK_BYTES = 65536"

definition MISSING_OBJECT_CODES :: "ustr list" where
  "MISSING_OBJECT_CODES = [lit ''NoSuchKey'', lit ''404'', lit ''NoSuchBucket'']"

record 'r s3_store =
  sc_client :: "'r s3_client"
  sc_part_bytes :: nat

record 'r s3_state =
  sx_open :: bool
  sx_remote :: 'r

definition mk_s3_store :: "'r s3_client \<Rightarrow> int \<Rightarrow> 'r s3_store res" where
  "mk_s3_store cl part_bytes =
     (if part_bytes < int MIN_PART_BYTES then Inl ValueError
      else Inr \<lparr>sc_client = cl, sc_part_bytes = nat part_bytes\<rparr>)"

text \<open>What \<open>_unavailable\<close> builds; the log context names the operation, not a reason.\<close>

definition s3_unavailable :: exn where
  "s3_unavailable = GatewayError DOCUMENT_STORAGE_UNAVAILABLE ''''"

definition s3_translate :: "s3_error \<Rightarrow> exn" where
  "s3_translate e = (case e of
       ClientError code status \<Rightarrow>
         if code \<in> set MISSING_OBJECT_CODES \<or> status = Some 404
         then GatewayError DOCUMENT_NOT_FOUND ''object_missing'' else s3_unavailable
     | OtherError x \<Rightarrow> x
     | _ \<Rightarrow> s3_unavailable)"

definition s3_call :: "('r, 'a) call \<Rightarrow> ('r s3_state, 'a) op" where
  "s3_call f s = (case f (sx_remote s) of (r, remote) \<Rightarrow>
     (case r of Inl e \<Rightarrow> Inl (s3_translate e) | Inr x \<Rightarrow> Inr x, s\<lparr>sx_remote := remote\<rparr>))"

text \<open>\<open>_open\<close>: every failure of the library is reported as unavailable here, a missing bucket too.\<close>

definition s3_open :: "'r s3_store \<Rightarrow> ('r s3_state, unit) op" where
  "s3_open S s =
     (if sx_open s then (Inr (), s)
      else (case s3_enter (sc_client S) (sx_remote s) of
          (Inl (OtherError x), remote) \<Rightarrow> (Inl x, s\<lparr>sx_remote := remote\<rparr>)
        | (Inl _, remote) \<Rightarrow> (Inl s3_unavailable, s\<lparr>sx_remote := remote\<rparr>)
        | (Inr _, remote) \<Rightarrow> (Inr (), s\<lparr>sx_open := True, sx_remote := remote\<rparr>)))"

definition s3_aclose :: "'r s3_state \<Rightarrow> 'r s3_state" where
  "s3_aclose s = s\<lparr>sx_open := False\<rparr>"

subsection \<open>Writing\<close>

text \<open>The local variables of \<open>put\<close>, which its exception handler reads.\<close>

record put_locals =
  pv_buffer :: bytes
  pv_upload_id :: "ustr option"
  pv_parts :: "(ustr \<times> nat) list"
  pv_total :: nat

type_synonym ('r, 'a) put_op = "('r s3_state \<times> put_locals, 'a) op"

definition s3_begin :: "'r s3_store \<Rightarrow> ustr \<Rightarrow> ustr option \<Rightarrow> ('r, ustr) put_op" where
  "s3_begin S key ct = (\<lambda>(s, l).
     case pv_upload_id l of
       Some i \<Rightarrow> (Inr i, s, l)
     | None \<Rightarrow> (case s3_call (s3_create_multipart_upload (sc_client S) key ct) s of
           (Inl e, s') \<Rightarrow> (Inl e, s', l)
         | (Inr i, s') \<Rightarrow> (Inr i, s', l\<lparr>pv_upload_id := Some i\<rparr>)))"

definition s3_send_part :: "'r s3_store \<Rightarrow> ustr \<Rightarrow> ustr \<Rightarrow> nat \<Rightarrow> ('r, unit) put_op" where
  "s3_send_part S key upload_id n = (\<lambda>(s, l).
     let number = length (pv_parts l) + 1 in
     case s3_call (s3_upload_part (sc_client S) key number upload_id (take n (pv_buffer l))) s of
       (Inl e, s') \<Rightarrow> (Inl e, s', l)
     | (Inr tag, s') \<Rightarrow> (Inr (), s', l\<lparr>pv_parts := pv_parts l @ [(tag, number)], pv_buffer := drop n (pv_buffer l)\<rparr>))"

definition s3_send_full :: "'r s3_store \<Rightarrow> ustr \<Rightarrow> ustr option \<Rightarrow> ('r, unit) put_op" where
  "s3_send_full S key ct = bindS (s3_begin S key ct) (\<lambda>i. s3_send_part S key i (sc_part_bytes S))"

lemma s3_begin_buffer: "s3_begin S key ct (s, l) = (r, s', l') \<Longrightarrow> pv_buffer l' = pv_buffer l"
  by (auto simp: s3_begin_def split: option.splits sum.splits prod.splits)

lemma s3_send_part_Inr:
  "s3_send_part S key i n (s, l) = (Inr u, s', l') \<longleftrightarrow>
     (\<exists>tag. s3_call (s3_upload_part (sc_client S) key (length (pv_parts l) + 1) i (take n (pv_buffer l))) s = (Inr tag, s')
        \<and> l' = l\<lparr>pv_parts := pv_parts l @ [(tag, length (pv_parts l) + 1)], pv_buffer := drop n (pv_buffer l)\<rparr>)"
  by (cases "s3_call (s3_upload_part (sc_client S) key (length (pv_parts l) + 1) i (take n (pv_buffer l))) s")
    (auto simp: s3_send_part_def Let_def split: sum.splits)

lemma s3_send_full_buffer:
  "s3_send_full S key ct (s, l) = (Inr u, s', l') \<Longrightarrow> pv_buffer l' = drop (sc_part_bytes S) (pv_buffer l)"
  by (auto simp: s3_send_full_def bindS_Inr s3_send_part_Inr dest!: s3_begin_buffer)

text \<open>The loop \<open>while len(buffer) >= part_bytes\<close>; the part size is at least five mebibytes.\<close>

function s3_drain :: "'r s3_store \<Rightarrow> ustr \<Rightarrow> ustr option \<Rightarrow> 'r s3_state \<Rightarrow> put_locals \<Rightarrow>
    unit res \<times> 'r s3_state \<times> put_locals" where
  "s3_drain S key ct s l =
     (if 0 < sc_part_bytes S \<and> sc_part_bytes S \<le> length (pv_buffer l)
      then (case s3_send_full S key ct (s, l) of
          (Inl e, s', l') \<Rightarrow> (Inl e, s', l')
        | (Inr _, s', l') \<Rightarrow> s3_drain S key ct s' l')
      else (Inr (), s, l))"
  by pat_completeness auto
termination
  by (relation "measure (\<lambda>(S, key, ct, s, l). length (pv_buffer l))") (auto dest!: sym[THEN s3_send_full_buffer])

declare s3_drain.simps [simp del]

fun s3_put_loop :: "'r s3_store \<Rightarrow> ustr \<Rightarrow> ustr option \<Rightarrow> bytes list \<Rightarrow> exn option \<Rightarrow> ('r, unit) put_op" where
  "s3_put_loop S key ct [] err = liftS (case err of Some e \<Rightarrow> Inl e | None \<Rightarrow> Inr ())"
| "s3_put_loop S key ct (block # blocks) err =
     bindS (\<lambda>(s, l). s3_drain S key ct s (l\<lparr>pv_buffer := pv_buffer l @ block, pv_total := pv_total l + length block\<rparr>))
       (\<lambda>_. s3_put_loop S key ct blocks err)"

text \<open>What follows the loop: one request, or the last part and the completion.\<close>

definition s3_finish :: "'r s3_store \<Rightarrow> ustr \<Rightarrow> ustr option \<Rightarrow> ('r, nat) put_op" where
  "s3_finish S key ct = (\<lambda>(s, l).
     case pv_upload_id l of
       None \<Rightarrow> (case s3_call (s3_put_object (sc_client S) key (pv_buffer l) ct) s of
           (Inl e, s') \<Rightarrow> (Inl e, s', l) | (Inr _, s') \<Rightarrow> (Inr (pv_total l), s', l))
     | Some i \<Rightarrow>
         bindS (s3_send_part S key i (length (pv_buffer l))) (\<lambda>_ (s, l).
           (case s3_call (s3_complete_multipart_upload (sc_client S) key i (pv_parts l)) s of
              (Inl e, s') \<Rightarrow> (Inl e, s', l) | (Inr _, s') \<Rightarrow> (Inr (pv_total l), s', l))) (s, l))"

definition s3_abort :: "'r s3_store \<Rightarrow> ustr \<Rightarrow> ustr \<Rightarrow> 'r s3_state \<Rightarrow> 'r s3_state" where
  "s3_abort S key upload_id s =
     s\<lparr>sx_remote := snd (s3_abort_multipart_upload (sc_client S) key upload_id (sx_remote s))\<rparr>"

definition s3_put :: "'r s3_store \<Rightarrow> ustr \<Rightarrow> bytes gen \<Rightarrow> ustr option \<Rightarrow> ('r s3_state, nat) op" where
  "s3_put S key chunks content_type =
     bindS (s3_open S) (\<lambda>_ s.
       let extra = (if content_type = Some [] then None else content_type) in
       case bindS (s3_put_loop S key extra (fst chunks) (snd chunks)) (\<lambda>_. s3_finish S key extra)
              (s, \<lparr>pv_buffer = [], pv_upload_id = None, pv_parts = [], pv_total = 0\<rparr>) of
         (Inr n, s', _) \<Rightarrow> (Inr n, s')
       | (Inl e, s', l) \<Rightarrow>
           (Inl e, case pv_upload_id l of None \<Rightarrow> s' | Some i \<Rightarrow> s3_abort S key i s'))"

subsection \<open>The other operations\<close>

text \<open>A stream that dies in the middle of the object is translated too.\<close>

definition s3_stream_error :: "s3_error \<Rightarrow> exn" where
  "s3_stream_error e = (case e of OtherError x \<Rightarrow> x | _ \<Rightarrow> s3_unavailable)"

definition s3_get :: "'r s3_store \<Rightarrow> ustr \<Rightarrow> 'r s3_state \<Rightarrow> bytes gen \<times> 'r s3_state" where
  "s3_get S key s =
     (case bindS (s3_open S) (\<lambda>_. s3_call (s3_get_object (sc_client S) key)) s of
        (Inl e, s') \<Rightarrow> (gen_fail e, s')
      | (Inr (blocks, end_of_stream), s') \<Rightarrow> ((blocks, map_option s3_stream_error end_of_stream), s'))"

definition s3_delete :: "'r s3_store \<Rightarrow> ustr \<Rightarrow> ('r s3_state, unit) op" where
  "s3_delete S key = bindS (s3_open S) (\<lambda>_. s3_call (s3_delete_object (sc_client S) key))"

definition s3_health :: "'r s3_store \<Rightarrow> ('r s3_state, unit) op" where
  "s3_health S = bindS (s3_open S) (\<lambda>_. s3_call (s3_head_bucket (sc_client S)))"

definition s3_store_ops :: "'r s3_store \<Rightarrow> 'r s3_state document_store_ops" where
  "s3_store_ops S = \<lparr>ds_put = s3_put S, ds_get = s3_get S, ds_delete = s3_delete S, ds_health = s3_health S\<rparr>"


section \<open>The store keeps the contract of the seam\<close>

abbreviation s3_blob :: "('r \<Rightarrow> ustr \<Rightarrow> bytes option) \<Rightarrow> 'r s3_state \<Rightarrow> ustr \<Rightarrow> bytes option" where
  "s3_blob objects s \<equiv> objects (sx_remote s)"

lemma s3_call_eq:
  "s3_call f s = (Inr x, s') \<longleftrightarrow> (\<exists>remote. f (sx_remote s) = (Inr x, remote) \<and> s' = s\<lparr>sx_remote := remote\<rparr>)"
  "s3_call f s = (Inl e, s') \<longleftrightarrow> (\<exists>remote x. f (sx_remote s) = (Inl x, remote) \<and> e = s3_translate x \<and> s' = s\<lparr>sx_remote := remote\<rparr>)"
  by (auto simp: s3_call_def split: prod.splits sum.splits)

lemma s3_call_remote: "s3_call f s = (r, s') \<Longrightarrow> sx_remote s' = snd (f (sx_remote s))"
  by (auto simp: s3_call_def split: prod.splits)

lemma s3_law_objects:
  assumes "s3_laws cl objects uploads"
  shows "objects (snd (s3_create_multipart_upload cl key ct r)) = objects r"
    and "objects (snd (s3_upload_part cl key n i body r)) = objects r"
    and "objects (snd (s3_abort_multipart_upload cl key i r)) = objects r"
    and "objects (snd (s3_get_object cl key r)) = objects r"
proof -
  note laws = assms[unfolded s3_laws_def create_upload_law_def upload_part_law_def abort_law_def get_object_law_def]
  show "objects (snd (s3_create_multipart_upload cl key ct r)) = objects r"
    by (cases "s3_create_multipart_upload cl key ct r") (use laws in simp)
  show "objects (snd (s3_upload_part cl key n i body r)) = objects r"
    by (cases "s3_upload_part cl key n i body r") (use laws in simp)
  show "objects (snd (s3_abort_multipart_upload cl key i r)) = objects r"
    by (cases "s3_abort_multipart_upload cl key i r") (use laws in simp)
  show "objects (snd (s3_get_object cl key r)) = objects r"
    by (cases "s3_get_object cl key r") (use laws in simp)
qed

lemma s3_open_blob:
  assumes "s3_laws (sc_client S) objects uploads" "s3_open S s = (r, s')"
  shows "s3_blob objects s' = s3_blob objects s"
proof -
  have "objects (snd (s3_enter (sc_client S) (sx_remote s))) = objects (sx_remote s)"
    using assms(1) by (simp add: s3_laws_def reading_law_def)
  then show ?thesis using assms(2) by (auto simp: s3_open_def split: if_splits prod.splits sum.splits s3_error.splits)
qed

text \<open>
  Between two statements of \<open>put\<close>: the objects are as they were, and what has been consumed is in
  the parts of the upload, in order and each of full size, followed by the buffer.
\<close>

definition parts_hold :: "(nat \<rightharpoonup> ustr \<times> bytes) \<Rightarrow> (ustr \<times> nat) list \<Rightarrow> bytes list \<Rightarrow> bool" where
  "parts_hold ps parts bodies \<longleftrightarrow> map snd parts = [1 ..< Suc (length parts)]
     \<and> list_all2 (\<lambda>(tag, n) body. ps n = Some (tag, body)) parts bodies"

definition put_inv :: "('r \<Rightarrow> ustr \<Rightarrow> bytes option) \<Rightarrow> ('r \<Rightarrow> ustr \<Rightarrow> (ustr \<times> (nat \<rightharpoonup> ustr \<times> bytes)) option) \<Rightarrow>
    'r s3_store \<Rightarrow> ustr \<Rightarrow> (ustr \<Rightarrow> bytes option) \<Rightarrow> bytes \<Rightarrow> 'r s3_state \<Rightarrow> put_locals \<Rightarrow> bool" where
  "put_inv objects uploads S key before consumed s l \<longleftrightarrow>
     s3_blob objects s = before \<and> pv_total l = length consumed
     \<and> (case pv_upload_id l of
          None \<Rightarrow> pv_parts l = [] \<and> pv_buffer l = consumed
        | Some i \<Rightarrow> \<exists>ps bodies. uploads (sx_remote s) i = Some (key, ps) \<and> parts_hold ps (pv_parts l) bodies
            \<and> (\<forall>b \<in> set bodies. length b = sc_part_bytes S) \<and> concat bodies @ pv_buffer l = consumed)"

lemma parts_hold_snoc:
  assumes "parts_hold ps parts bodies"
  shows "parts_hold (ps(length parts + 1 \<mapsto> (tag, body))) (parts @ [(tag, length parts + 1)]) (bodies @ [body])"
proof -
  have small: "n \<le> length parts" if "(t, n) \<in> set parts" for t n
  proof -
    have "n \<in> set (map snd parts)" using that by force
    then have "n \<in> set [1 ..< Suc (length parts)]" using assms by (metis parts_hold_def)
    then show ?thesis by (simp del: upt_Suc)
  qed
  have "list_all2 (\<lambda>(t, n) b. (ps(length parts + 1 \<mapsto> (tag, body))) n = Some (t, b)) parts bodies"
    by (rule list.rel_mono_strong[where R = "\<lambda>(t, n) b. ps n = Some (t, b)"])
      (use assms in \<open>auto simp: parts_hold_def dest: small\<close>)
  then show ?thesis using assms by (simp add: parts_hold_def list_all2_appendI)
qed


subsection \<open>Before the object is published, the objects are as they were\<close>

lemma s3_begin_blob:
  assumes "s3_laws (sc_client S) objects uploads" "s3_begin S key ct (s, l) = (r, s', l')"
  shows "s3_blob objects s' = s3_blob objects s"
proof -
  note s3_law_objects(1)[OF assms(1), of key ct "sx_remote s"]
  then show ?thesis using assms(2) s3_call_remote
    by (fastforce simp: s3_begin_def split: option.splits sum.splits prod.splits)
qed

lemma s3_send_part_blob:
  assumes "s3_laws (sc_client S) objects uploads" "s3_send_part S key i n (s, l) = (r, s', l')"
  shows "s3_blob objects s' = s3_blob objects s"
proof -
  note s3_law_objects(2)[OF assms(1), of key _ i _ "sx_remote s"]
  then show ?thesis using assms(2) s3_call_remote
    by (fastforce simp: s3_send_part_def Let_def split: sum.splits prod.splits)
qed

lemma s3_send_full_blob:
  assumes "s3_laws (sc_client S) objects uploads" "s3_send_full S key ct (s, l) = (r, s', l')"
  shows "s3_blob objects s' = s3_blob objects s"
  using assms(2) s3_begin_blob[OF assms(1)] s3_send_part_blob[OF assms(1)]
  by (fastforce simp: s3_send_full_def bindS_def split: prod.splits sum.splits)

lemma s3_drain_blob:
  assumes "s3_laws (sc_client S) objects uploads"
  shows "s3_drain S key ct s l = (r, s', l') \<Longrightarrow> s3_blob objects s' = s3_blob objects s"
proof (induction "length (pv_buffer l)" arbitrary: s l rule: less_induct)
  case less
  show ?case
  proof (cases "0 < sc_part_bytes S \<and> sc_part_bytes S \<le> length (pv_buffer l)")
    case True
    obtain r1 s1 l1 where step: "s3_send_full S key ct (s, l) = (r1, s1, l1)" by (cases "s3_send_full S key ct (s, l)")
    note blob = s3_send_full_blob[OF assms step]
    show ?thesis
    proof (cases r1)
      case (Inr u)
      then have "length (pv_buffer l1) < length (pv_buffer l)" using s3_send_full_buffer step True by fastforce
      then show ?thesis using less step Inr True blob by (simp add: s3_drain.simps[of _ _ _ s l])
    qed (use less(2) step True blob in \<open>simp add: s3_drain.simps[of _ _ _ s l]\<close>)
  next
    case False
    then show ?thesis using less(2) by (simp add: s3_drain.simps[of _ _ _ s l] split: if_splits)
  qed
qed

lemma s3_put_loop_blob:
  assumes "s3_laws (sc_client S) objects uploads"
  shows "s3_put_loop S key ct blocks err (s, l) = (r, s', l') \<Longrightarrow> s3_blob objects s' = s3_blob objects s"
proof (induction blocks arbitrary: s l)
  case (Cons block blocks)
  obtain r1 s1 l1 where step:
    "s3_drain S key ct s (l\<lparr>pv_buffer := pv_buffer l @ block, pv_total := pv_total l + length block\<rparr>) = (r1, s1, l1)"
    by (cases "s3_drain S key ct s (l\<lparr>pv_buffer := pv_buffer l @ block, pv_total := pv_total l + length block\<rparr>)")
  show ?case using Cons s3_drain_blob[OF assms step] step by (cases r1) (auto simp: bindS_def)
qed (auto simp: liftS_def)

subsection \<open>What has been consumed is in the parts and the buffer\<close>

lemma s3_begin_inv:
  assumes "s3_laws (sc_client S) objects uploads" "put_inv objects uploads S key before consumed s l"
    "s3_begin S key ct (s, l) = (Inr i, s', l')"
  shows "put_inv objects uploads S key before consumed s' l'" "pv_upload_id l' = Some i" "pv_buffer l' = pv_buffer l"
proof -
  show "pv_buffer l' = pv_buffer l" using s3_begin_buffer assms(3) by blast
  show "pv_upload_id l' = Some i" using assms(3) by (auto simp: s3_begin_def split: option.splits sum.splits prod.splits)
  show "put_inv objects uploads S key before consumed s' l'"
  proof (cases "pv_upload_id l")
    case None
    then obtain remote where create: "s3_create_multipart_upload (sc_client S) key ct (sx_remote s) = (Inr i, remote)"
      and s': "s' = s\<lparr>sx_remote := remote\<rparr>" and l': "l' = l\<lparr>pv_upload_id := Some i\<rparr>"
      using assms(3) by (auto simp: s3_begin_def s3_call_eq split: sum.splits prod.splits)
    have "objects remote = objects (sx_remote s)" "uploads remote i = Some (key, Map.empty)"
      using assms(1) create unfolding s3_laws_def create_upload_law_def by force+
    then show ?thesis using assms(2) None by (auto simp: put_inv_def s' l' parts_hold_def intro: exI[of _ "[]"])
  next
    case (Some j)
    then show ?thesis using assms(2,3) by (auto simp: s3_begin_def)
  qed
qed

lemma s3_send_part_holds:
  assumes "s3_laws (sc_client S) objects uploads" "uploads (sx_remote s) i = Some (key, ps)"
    "parts_hold ps (pv_parts l) bodies" "s3_send_part S key i n (s, l) = (Inr u, s', l')"
  shows "\<exists>ps'. uploads (sx_remote s') i = Some (key, ps') \<and> parts_hold ps' (pv_parts l') (bodies @ [take n (pv_buffer l)])"
    "pv_buffer l' = drop n (pv_buffer l)" "pv_upload_id l' = pv_upload_id l" "pv_total l' = pv_total l"
proof -
  from assms(4) obtain tag remote where up:
    "s3_upload_part (sc_client S) key (length (pv_parts l) + 1) i (take n (pv_buffer l)) (sx_remote s) = (Inr tag, remote)"
    and s': "s' = s\<lparr>sx_remote := remote\<rparr>"
    and l': "l' = l\<lparr>pv_parts := pv_parts l @ [(tag, length (pv_parts l) + 1)], pv_buffer := drop n (pv_buffer l)\<rparr>"
    by (auto simp: s3_send_part_Inr s3_call_eq)
  have "uploads remote i = Some (key, ps(length (pv_parts l) + 1 \<mapsto> (tag, take n (pv_buffer l))))"
    using assms(1,2) up unfolding s3_laws_def upload_part_law_def by blast
  then show "\<exists>ps'. uploads (sx_remote s') i = Some (key, ps') \<and> parts_hold ps' (pv_parts l') (bodies @ [take n (pv_buffer l)])"
    using parts_hold_snoc[OF assms(3)] by (auto simp: s' l')
qed (use assms(4) in \<open>auto simp: s3_send_part_Inr\<close>)

lemma s3_send_full_inv:
  assumes "s3_laws (sc_client S) objects uploads" "put_inv objects uploads S key before consumed s l"
    "sc_part_bytes S \<le> length (pv_buffer l)" "s3_send_full S key ct (s, l) = (Inr u, s', l')"
  shows "put_inv objects uploads S key before consumed s' l'"
proof -
  obtain i s1 l1 where started: "s3_begin S key ct (s, l) = (Inr i, s1, l1)"
    and part: "s3_send_part S key i (sc_part_bytes S) (s1, l1) = (Inr u, s', l')"
    using assms(4) by (auto simp: s3_send_full_def bindS_Inr)
  note b = s3_begin_inv[OF assms(1,2) started]
  then obtain ps bodies where p: "uploads (sx_remote s1) i = Some (key, ps)" "parts_hold ps (pv_parts l1) bodies"
    "\<forall>b \<in> set bodies. length b = sc_part_bytes S" "concat bodies @ pv_buffer l1 = consumed"
    by (auto simp: put_inv_def)
  note h = s3_send_part_holds[OF assms(1) p(1,2) part]
  have "concat (bodies @ [take (sc_part_bytes S) (pv_buffer l1)]) @ pv_buffer l' = consumed" using p(4) h(2) by simp
  moreover have "\<forall>b \<in> set (bodies @ [take (sc_part_bytes S) (pv_buffer l1)]). length b = sc_part_bytes S"
    using p(3) assms(3) b(3) by auto
  moreover have "s3_blob objects s' = before" using b(1) s3_send_part_blob[OF assms(1) part] by (simp add: put_inv_def)
  moreover have "pv_upload_id l' = Some i" "pv_total l' = length consumed" using b(1,2) h(3,4) by (simp_all add: put_inv_def)
  moreover obtain ps' where "uploads (sx_remote s') i = Some (key, ps')"
    "parts_hold ps' (pv_parts l') (bodies @ [take (sc_part_bytes S) (pv_buffer l1)])" using h(1) by blast
  ultimately show ?thesis
    by (simp add: put_inv_def) (intro exI[of _ "bodies @ [take (sc_part_bytes S) (pv_buffer l1)]"]; simp)
qed


lemma s3_drain_inv:
  assumes "s3_laws (sc_client S) objects uploads"
  shows "put_inv objects uploads S key before consumed s l \<Longrightarrow> s3_drain S key ct s l = (Inr u, s', l') \<Longrightarrow>
    put_inv objects uploads S key before consumed s' l'"
proof (induction "length (pv_buffer l)" arbitrary: s l rule: less_induct)
  case less
  show ?case
  proof (cases "0 < sc_part_bytes S \<and> sc_part_bytes S \<le> length (pv_buffer l)")
    case True
    then obtain s1 l1 where step: "s3_send_full S key ct (s, l) = (Inr (), s1, l1)" "s3_drain S key ct s1 l1 = (Inr u, s', l')"
      using less(3) by (auto simp: s3_drain.simps[of _ _ _ s l] split: prod.splits sum.splits)
    have "length (pv_buffer l1) < length (pv_buffer l)" using s3_send_full_buffer[OF step(1)] True by auto
    from less(1)[OF this s3_send_full_inv[OF assms less(2) _ step(1)] step(2)] True show ?thesis by simp
  next
    case False
    then show ?thesis using less(2,3) by (simp add: s3_drain.simps[of _ _ _ s l] split: if_splits)
  qed
qed

lemma put_inv_receive:
  "put_inv objects uploads S key before consumed s l \<Longrightarrow>
     put_inv objects uploads S key before (consumed @ block) s
       (l\<lparr>pv_buffer := pv_buffer l @ block, pv_total := pv_total l + length block\<rparr>)"
  by (auto simp: put_inv_def split: option.splits)

lemma s3_put_loop_inv:
  assumes "s3_laws (sc_client S) objects uploads"
  shows "put_inv objects uploads S key before consumed s l \<Longrightarrow>
    s3_put_loop S key ct blocks err (s, l) = (Inr u, s', l') \<Longrightarrow>
    err = None \<and> put_inv objects uploads S key before (consumed @ concat blocks) s' l'"
proof (induction blocks arbitrary: consumed s l)
  case (Cons block blocks)
  from Cons.prems(2) obtain s1 l1 where
    step: "s3_drain S key ct s (l\<lparr>pv_buffer := pv_buffer l @ block, pv_total := pv_total l + length block\<rparr>) = (Inr (), s1, l1)"
      "s3_put_loop S key ct blocks err (s1, l1) = (Inr u, s', l')"
    by (auto simp: bindS_Inr)
  from Cons.IH[OF s3_drain_inv[OF assms put_inv_receive[OF Cons.prems(1)] step(1)] step(2)] show ?case by simp
qed (auto simp: liftS_def split: option.splits)

subsection \<open>Publishing\<close>

lemma s3_complete_publishes:
  assumes "s3_laws cl objects uploads" "s3_complete_multipart_upload cl key i parts r = (Inr u, r')"
    "uploads r i = Some (key, ps)" "parts_hold ps parts bodies"
  shows "objects r' key = Some (concat bodies)"
proof -
  have "complete_law cl objects uploads" using assms(1) by (simp add: s3_laws_def)
  from this[unfolded complete_law_def, rule_format, OF assms(2)] assms(3,4) show ?thesis
    by (auto simp: parts_hold_def)
qed

lemma s3_finish_publishes:
  assumes "s3_laws (sc_client S) objects uploads" "put_inv objects uploads S key before consumed s l"
    "s3_finish S key ct (s, l) = (Inr n, s', l')"
  shows "s3_blob objects s' key = Some consumed \<and> n = length consumed"
proof (cases "pv_upload_id l")
  case None
  then obtain remote where put: "s3_put_object (sc_client S) key (pv_buffer l) ct (sx_remote s) = (Inr (), remote)"
    and s': "s' = s\<lparr>sx_remote := remote\<rparr>" "n = pv_total l"
    using assms(3) by (auto simp: s3_finish_def s3_call_eq split: sum.splits prod.splits)
  have "objects remote key = Some (pv_buffer l)" using assms(1) put by (auto simp: s3_laws_def put_object_law_def)
  then show ?thesis using None assms(2) by (simp add: put_inv_def s')
next
  case (Some i)
  then obtain s1 l1 where part: "s3_send_part S key i (length (pv_buffer l)) (s, l) = (Inr (), s1, l1)"
    and last: "(case s3_call (s3_complete_multipart_upload (sc_client S) key i (pv_parts l1)) s1 of
              (Inl e, s') \<Rightarrow> (Inl e, s', l1) | (Inr _, s') \<Rightarrow> (Inr (pv_total l1), s', l1)) = (Inr n, s', l')"
    using assms(3) by (auto simp: s3_finish_def bindS_Inr)
  from Some assms(2) obtain ps bodies where p: "uploads (sx_remote s) i = Some (key, ps)" "parts_hold ps (pv_parts l) bodies"
    "concat bodies @ pv_buffer l = consumed" "pv_total l = length consumed"
    by (auto simp: put_inv_def)
  note h = s3_send_part_holds[OF assms(1) p(1,2) part]
  then obtain ps' where ps': "uploads (sx_remote s1) i = Some (key, ps')" "parts_hold ps' (pv_parts l1) (bodies @ [pv_buffer l])" by auto
  from last obtain remote where complete: "s3_complete_multipart_upload (sc_client S) key i (pv_parts l1) (sx_remote s1) = (Inr (), remote)"
    and s': "s' = s1\<lparr>sx_remote := remote\<rparr>" "n = pv_total l1"
    by (auto simp: s3_call_eq split: sum.splits prod.splits)
  have "objects remote key = Some (concat (bodies @ [pv_buffer l]))"
    by (rule s3_complete_publishes[OF assms(1) complete ps'])
  then show ?thesis using p(3,4) h(4) by (simp add: s')
qed

lemma s3_finish_other:
  assumes "s3_laws (sc_client S) objects uploads" "s3_finish S key ct (s, l) = (r, s', l')" "key' \<noteq> key"
  shows "s3_blob objects s' key' = s3_blob objects s key'"
proof -
  have put: "objects (snd (s3_put_object (sc_client S) key body ct r)) key' = objects r key'" for body r
    using assms(1,3) by (cases "s3_put_object (sc_client S) key body ct r") (auto simp: s3_laws_def put_object_law_def)
  have complete: "objects (snd (s3_complete_multipart_upload (sc_client S) key i ps r)) key' = objects r key'" for i ps r
    using assms(1,3) by (cases "s3_complete_multipart_upload (sc_client S) key i ps r") (auto simp: s3_laws_def complete_law_def)
  show ?thesis
  proof (cases "pv_upload_id l")
    case None
    obtain r1 s1 where c: "s3_call (s3_put_object (sc_client S) key (pv_buffer l) ct) s = (r1, s1)" by fastforce
    then show ?thesis using assms(2) None put s3_call_remote[OF c] by (auto simp: s3_finish_def split: sum.splits)
  next
    case (Some i)
    obtain r1 s1 l1 where part: "s3_send_part S key i (length (pv_buffer l)) (s, l) = (r1, s1, l1)"
      by (cases "s3_send_part S key i (length (pv_buffer l)) (s, l)")
    obtain r2 s2 where c: "s3_call (s3_complete_multipart_upload (sc_client S) key i (pv_parts l1)) s1 = (r2, s2)" by fastforce
    show ?thesis using assms(2) Some part c complete s3_call_remote[OF c] s3_send_part_blob[OF assms(1) part]
      by (auto simp: s3_finish_def bindS_def split: sum.splits)
  qed
qed


lemma s3_put_cases:
  assumes "s3_put S key chunks content_type s = (r, s')"
  obtains (unopened) e where "s3_open S s = (Inl e, s')" "r = Inl e"
  | (returned) s1 s2 l2 l' extra n where "s3_open S s = (Inr (), s1)"
      "s3_put_loop S key extra (fst chunks) (snd chunks) (s1, \<lparr>pv_buffer = [], pv_upload_id = None, pv_parts = [], pv_total = 0\<rparr>) = (Inr (), s2, l2)"
      "s3_finish S key extra (s2, l2) = (Inr n, s', l')" "r = Inr n"
  | (stopped) s1 s2 l2 extra e where "s3_open S s = (Inr (), s1)"
      "s3_put_loop S key extra (fst chunks) (snd chunks) (s1, \<lparr>pv_buffer = [], pv_upload_id = None, pv_parts = [], pv_total = 0\<rparr>) = (Inl e, s2, l2)"
      "r = Inl e" "s' = (case pv_upload_id l2 of None \<Rightarrow> s2 | Some i \<Rightarrow> s3_abort S key i s2)"
  | (unfinished) s1 s2 l2 s3 l3 extra e where "s3_open S s = (Inr (), s1)"
      "s3_put_loop S key extra (fst chunks) (snd chunks) (s1, \<lparr>pv_buffer = [], pv_upload_id = None, pv_parts = [], pv_total = 0\<rparr>) = (Inr (), s2, l2)"
      "s3_finish S key extra (s2, l2) = (Inl e, s3, l3)" "r = Inl e"
      "s' = (case pv_upload_id l3 of None \<Rightarrow> s3 | Some i \<Rightarrow> s3_abort S key i s3)"
proof -
  obtain r1 s1 where opened: "s3_open S s = (r1, s1)" by fastforce
  let ?extra = "if content_type = Some [] then None else content_type"
  let ?l = "\<lparr>pv_buffer = [], pv_upload_id = None, pv_parts = [], pv_total = 0\<rparr>"
  obtain r2 s2 l2 where loop: "s3_put_loop S key ?extra (fst chunks) (snd chunks) (s1, ?l) = (r2, s2, l2)"
    by (cases "s3_put_loop S key ?extra (fst chunks) (snd chunks) (s1, ?l)")
  obtain r3 s3 l3 where finish: "s3_finish S key ?extra (s2, l2) = (r3, s3, l3)"
    by (cases "s3_finish S key ?extra (s2, l2)")
  show thesis
  proof (cases r1)
    case (Inl e)
    then show ?thesis using assms opened unopened by (auto simp: s3_put_def bindS_def)
  next
    case r1: (Inr u)
    note p = assms[unfolded s3_put_def bindS_def opened r1 Let_def]
    show ?thesis
    proof (cases r2)
      case (Inl e)
      then show ?thesis using p loop opened r1 by (intro stopped[of s1 ?extra e s2 l2]) auto
    next
      case r2: (Inr u2)
      show ?thesis
      proof (cases r3)
        case (Inl e)
        then show ?thesis using p loop finish opened r1 r2 by (intro unfinished[of s1 ?extra s2 l2 e s3 l3]) auto
      next
        case (Inr n)
        then show ?thesis using p loop finish opened r1 r2 by (intro returned[of s1 ?extra s2 l2 n l3]) auto
      qed
    qed
  qed
qed

lemma put_inv_start:
  "put_inv objects uploads S key (s3_blob objects s) [] s \<lparr>pv_buffer = [], pv_upload_id = None, pv_parts = [], pv_total = 0\<rparr>"
  by (simp add: put_inv_def)

lemma s3_put_publishes:
  assumes "s3_laws (sc_client S) objects uploads" "s3_put S key chunks ct s = (Inr n, s')"
  shows "snd chunks = None \<and> s3_blob objects s' key = Some (concat (fst chunks)) \<and> n = length (concat (fst chunks))"
  using assms(2)
proof (cases rule: s3_put_cases)
  case (returned s1 s2 l2 l' extra n')
  from s3_put_loop_inv[OF assms(1) put_inv_start[of objects uploads S key s1] returned(2)]
  have "snd chunks = None" "put_inv objects uploads S key (s3_blob objects s1) (concat (fst chunks)) s2 l2" by simp_all
  with s3_finish_publishes[OF assms(1) this(2) returned(3)] returned(4) show ?thesis by simp
qed auto

lemma s3_abort_blob:
  "s3_laws (sc_client S) objects uploads \<Longrightarrow> s3_blob objects (s3_abort S key i s) = s3_blob objects s"
  by (simp add: s3_abort_def s3_law_objects(3))

lemma s3_put_other:
  assumes "s3_laws (sc_client S) objects uploads" "s3_put S key chunks ct s = (r, s')" "key' \<noteq> key"
  shows "s3_blob objects s' key' = s3_blob objects s key'"
  using assms(2)
proof (cases rule: s3_put_cases)
  case (unopened e)
  then show ?thesis using s3_open_blob[OF assms(1)] by metis
next
  case (returned s1 s2 l2 l' extra n)
  then show ?thesis
    using s3_open_blob[OF assms(1) returned(1)] s3_put_loop_blob[OF assms(1) returned(2)]
      s3_finish_other[OF assms(1) returned(3) assms(3)] by simp
next
  case (stopped s1 s2 l2 extra e)
  then show ?thesis
    using s3_open_blob[OF assms(1) stopped(1)] s3_put_loop_blob[OF assms(1) stopped(2)] s3_abort_blob[OF assms(1)]
    by (simp split: option.splits)
next
  case (unfinished s1 s2 l2 s3 l3 extra e)
  then show ?thesis
    using s3_open_blob[OF assms(1) unfinished(1)] s3_put_loop_blob[OF assms(1) unfinished(2)]
      s3_finish_other[OF assms(1) unfinished(3) assms(3)] s3_abort_blob[OF assms(1)]
    by (simp split: option.splits)
qed

lemma s3_store_is_document_store:
  assumes "s3_laws (sc_client S) objects uploads"
  shows "document_store (s3_store_ops S) (s3_blob objects)"
proof
  fix key key' chunks ct s n s' r blocks g u d
  note ops = s3_store_ops_def
  have call: "s3_blob objects s'' = s3_blob objects s" if "bindS (s3_open S) (\<lambda>_. s3_call f) s = (r', s'')"
      "\<And>r. objects (snd (f r)) = objects r" for f :: "('a, 'b) call" and s r' s''
  proof -
    obtain r1 s1 where o: "s3_open S s = (r1, s1)" by fastforce
    then show ?thesis using that(1) s3_open_blob[OF assms o] s3_call_remote[of f s1] that(2)
      by (cases r1) (auto simp: bindS_def)
  qed
  show "ds_put (s3_store_ops S) key chunks ct s = (r, s') \<Longrightarrow> key' \<noteq> key \<Longrightarrow> s3_blob objects s' key' = s3_blob objects s key'"
    using s3_put_other[OF assms] by (simp add: ops)
  show "snd chunks = None \<and> s3_blob objects s' = (s3_blob objects s)(key \<mapsto> concat (fst chunks)) \<and> n = length (concat (fst chunks))"
    if "ds_put (s3_store_ops S) key chunks ct s = (Inr n, s')"
  proof -
    from that have put: "s3_put S key chunks ct s = (Inr n, s')" by (simp add: ops)
    have "s3_blob objects s' k = ((s3_blob objects s)(key \<mapsto> concat (fst chunks))) k" for k
      using s3_put_publishes[OF assms put] s3_put_other[OF assms put, of k] by (cases "k = key") simp_all
    then show ?thesis using s3_put_publishes[OF assms put] by blast
  qed
  show "ds_get (s3_store_ops S) key s = (g, s') \<Longrightarrow> s3_blob objects s' = s3_blob objects s"
    using call[of "s3_get_object (sc_client S) key" s] s3_law_objects(4)[OF assms]
    by (fastforce simp: ops s3_get_def split: prod.splits sum.splits)
  show "ds_health (s3_store_ops S) s = (d, s') \<Longrightarrow> s3_blob objects s' = s3_blob objects s"
    using call[of "s3_head_bucket (sc_client S)" s d s'] assms by (simp add: ops s3_health_def s3_laws_def reading_law_def)
  show "ds_get (s3_store_ops S) key s = ((blocks, None), s') \<Longrightarrow> s3_blob objects s key = Some (concat blocks)"
  proof -
    assume get: "ds_get (s3_store_ops S) key s = ((blocks, None), s')"
    then obtain s1 remote where o: "s3_open S s = (Inr (), s1)" and g: "s3_get_object (sc_client S) key (sx_remote s1) = (Inr (blocks, None), remote)"
      by (auto simp: ops s3_get_def bindS_def s3_call_def gen_fail_def split: prod.splits sum.splits)
    have "objects (sx_remote s1) key = Some (concat blocks)"
      using assms g unfolding s3_laws_def get_object_law_def by blast
    then show ?thesis using s3_open_blob[OF assms o] by simp
  qed
  have del: "objects (snd (s3_delete_object (sc_client S) key r)) k = objects r k" if "k \<noteq> key" for r k
    using assms that by (cases "s3_delete_object (sc_client S) key r") (auto simp: s3_laws_def delete_object_law_def)
  show other: "ds_delete (s3_store_ops S) key s = (d, s') \<Longrightarrow> key' \<noteq> key \<Longrightarrow> s3_blob objects s' key' = s3_blob objects s key'"
    for d key'
  proof -
    assume "ds_delete (s3_store_ops S) key s = (d, s')" and ne: "key' \<noteq> key"
    moreover obtain r1 s1 where o: "s3_open S s = (r1, s1)" by fastforce
    ultimately show ?thesis using s3_open_blob[OF assms o] s3_call_remote[of "s3_delete_object (sc_client S) key" s1] del[OF ne]
      by (cases r1) (auto simp: ops s3_delete_def bindS_def)
  qed
  show "ds_delete (s3_store_ops S) key s = (Inr u, s') \<Longrightarrow> s3_blob objects s' = (s3_blob objects s)(key := None)"
  proof (rule ext)
    fix k assume d: "ds_delete (s3_store_ops S) key s = (Inr u, s')"
    then obtain s1 remote where "s3_open S s = (Inr (), s1)" "s3_delete_object (sc_client S) key (sx_remote s1) = (Inr (), remote)"
      "s' = s1\<lparr>sx_remote := remote\<rparr>" by (auto simp: ops s3_delete_def bindS_Inr s3_call_eq)
    then show "s3_blob objects s' k = ((s3_blob objects s)(key := None)) k"
      using assms other[OF d, of k] by (cases "k = key") (auto simp: s3_laws_def delete_object_law_def)
  qed
qed


section \<open>Properties\<close>

text \<open>
  A service in memory: an upload is named by a text longer than the names of the uploads there are,
  and it completes when every part but the last has the size the service asks for.
\<close>

record bucket =
  bk_objects :: "(ustr \<times> bytes) list"
  bk_uploads :: "(ustr \<times> ustr \<times> (nat \<times> ustr \<times> bytes) list) list"

definition bucket_objects :: "bucket \<Rightarrow> ustr \<Rightarrow> bytes option" where
  "bucket_objects r = dict_get (bk_objects r)"

definition bucket_uploads :: "bucket \<Rightarrow> ustr \<Rightarrow> (ustr \<times> (nat \<rightharpoonup> ustr \<times> bytes)) option" where
  "bucket_uploads r i = map_option (\<lambda>(key, ps). (key, dict_get ps)) (dict_get (bk_uploads r) i)"

definition bucket_missing :: s3_error where
  "bucket_missing = ClientError (lit ''NoSuchKey'') (Some 404)"

definition bucket_complete :: "nat \<Rightarrow> ustr \<Rightarrow> ustr \<Rightarrow> (ustr \<times> nat) list \<Rightarrow> (bucket, unit) call" where
  "bucket_complete least key i parts r =
     (case dict_get (bk_uploads r) i of
        None \<Rightarrow> (Inl (ClientError (lit ''NoSuchUpload'') (Some 404)), r)
      | Some (k, ps) \<Rightarrow>
          (let bodies = map (\<lambda>(tag, n). case dict_get ps n of Some (t, b) \<Rightarrow> b | None \<Rightarrow> []) parts in
           if list_all (\<lambda>b. least \<le> length b) (butlast bodies)
           then (Inr (), r\<lparr>bk_objects := dict_put key (concat bodies) (bk_objects r), bk_uploads := AList.delete i (bk_uploads r)\<rparr>)
           else (Inl (ClientError (lit ''EntityTooSmall'') (Some 400)), r)))"

definition bucket_client :: "nat \<Rightarrow> bucket s3_client" where
  "bucket_client least =
     \<lparr>s3_enter = (\<lambda>r. (Inr (), r)),
      s3_put_object = (\<lambda>key body ct r. (Inr (), r\<lparr>bk_objects := dict_put key body (bk_objects r)\<rparr>)),
      s3_create_multipart_upload = (\<lambda>key ct r.
        let i = concat (map fst (bk_uploads r)) @ [0] in (Inr i, r\<lparr>bk_uploads := dict_put i (key, []) (bk_uploads r)\<rparr>)),
      s3_upload_part = (\<lambda>key n i body r. case dict_get (bk_uploads r) i of
          None \<Rightarrow> (Inl (ClientError (lit ''NoSuchUpload'') (Some 404)), r)
        | Some (k, ps) \<Rightarrow> (Inr (nat_str n), r\<lparr>bk_uploads := dict_put i (k, dict_put n (nat_str n, body) ps) (bk_uploads r)\<rparr>)),
      s3_complete_multipart_upload = bucket_complete least,
      s3_abort_multipart_upload = (\<lambda>key i r. (Inr (), r\<lparr>bk_uploads := AList.delete i (bk_uploads r)\<rparr>)),
      s3_get_object = (\<lambda>key r. case dict_get (bk_objects r) key of
          None \<Rightarrow> (Inl bucket_missing, r) | Some b \<Rightarrow> (Inr (fake_pieces DOWNLOAD_CHUNK_BYTES b, None), r)),
      s3_delete_object = (\<lambda>key r. (Inr (), r\<lparr>bk_objects := AList.delete key (bk_objects r)\<rparr>)),
      s3_head_bucket = (\<lambda>r. (Inr (), r))\<rparr>"

lemma concat_map_length_le: "x \<in> set d \<Longrightarrow> length (f x) \<le> length (concat (map f d))"
  by (induction d) (auto intro: le_trans)

lemma fresh_upload: "dict_get d (concat (map fst d) @ [0]) = None"
proof -
  have "length k \<le> length (concat (map fst d))" if "k \<in> fst ` set d" for k
    using that by (metis (no_types, opaque_lifting) concat_map_length_le imageE)
  then have "concat (map fst d) @ [0] \<notin> fst ` set d" by fastforce
  then show ?thesis by (simp add: map_of_eq_None_iff)
qed

lemma bucket_laws: "s3_laws (bucket_client least) bucket_objects bucket_uploads"
  unfolding s3_laws_def
proof (intro conjI)
  note defs = bucket_client_def bucket_objects_def bucket_uploads_def fun_eq_iff
  show "put_object_law (bucket_client least) bucket_objects bucket_uploads" by (auto simp: put_object_law_def defs)
  show "create_upload_law (bucket_client least) bucket_objects bucket_uploads"
    by (auto simp: create_upload_law_def defs Let_def fresh_upload)
  show "upload_part_law (bucket_client least) bucket_objects bucket_uploads"
    by (auto simp: upload_part_law_def defs split: option.splits prod.splits)
  show "abort_law (bucket_client least) bucket_objects bucket_uploads" by (auto simp: abort_law_def defs delete_conv')
  show "get_object_law (bucket_client least) bucket_objects"
    using fake_pieces_concat[of DOWNLOAD_CHUNK_BYTES]
    by (auto simp: get_object_law_def defs DOWNLOAD_CHUNK_BYTES_def split: option.splits)
  show "delete_object_law (bucket_client least) bucket_objects" by (auto simp: delete_object_law_def defs delete_conv')
  show "reading_law (bucket_client least) bucket_objects" by (auto simp: reading_law_def defs)
  have bodies: "map (\<lambda>(tag, n). case ps n of Some (t, b) \<Rightarrow> b | None \<Rightarrow> []) parts = bodies"
    if "list_all2 (\<lambda>(tag, n) body. ps n = Some (tag, body)) parts bodies" for ps :: "nat \<rightharpoonup> ustr \<times> bytes" and parts bodies
    using that by (induction parts bodies rule: list_all2_induct) auto
  show "complete_law (bucket_client least) bucket_objects bucket_uploads"
    unfolding complete_law_def by (auto simp: defs bucket_complete_def Let_def bodies split: option.splits if_splits)
qed


text \<open>The constructor asks the service for no part it would refuse.\<close>

lemma mk_s3_store_part: "mk_s3_store cl n = Inr S \<Longrightarrow> MIN_PART_BYTES \<le> sc_part_bytes S \<and> sc_client S = cl"
  by (auto simp: mk_s3_store_def split: if_splits)

text \<open>If what the store is handed raises, no object changes.\<close>

lemma s3_put_raising_source:
  assumes laws: "s3_laws (sc_client S) objects uploads" and raises: "snd chunks \<noteq> None"
  shows "objects (sx_remote (snd (s3_put S key chunks ct s))) = objects (sx_remote s)"
proof -
  obtain r s' where put: "s3_put S key chunks ct s = (r, s')" by fastforce
  from put show ?thesis
  proof (cases rule: s3_put_cases)
    case (unopened e)
    then show ?thesis using s3_open_blob[OF laws] put by (metis snd_conv)
  next
    case (returned s1 s2 l2 l' extra n)
    then show ?thesis using s3_put_loop_inv[OF laws put_inv_start returned(2)] raises by simp
  next
    case (stopped s1 s2 l2 extra e)
    then show ?thesis
      using put s3_open_blob[OF laws stopped(1)] s3_put_loop_blob[OF laws stopped(2)] s3_abort_blob[OF laws]
      by (simp split: option.splits)
  next
    case (unfinished s1 s2 l2 s3 l3 extra e)
    then show ?thesis using s3_put_loop_inv[OF laws put_inv_start unfinished(2)] raises by simp
  qed
qed

text \<open>
  C40. Over a service that keeps its documented promises, the S3 store keeps the contract of the
  document seam: a write that returns has published exactly the concatenation of its chunks, in one
  request or in parts, and reports its length; no write touches another object, a part-written
  upload is never an object, and what a read yields to its end is the object.
\<close>

theorem s3_store_contract:
  assumes "s3_laws cl objects uploads" "mk_s3_store cl part_bytes = Inr S"
  shows "document_store (s3_store_ops S) (\<lambda>s. objects (sx_remote s))
    \<and> (\<forall>n s'. s3_put S key chunks ct s = (Inr n, s') \<longrightarrow> snd chunks = None
         \<and> objects (sx_remote s') = (objects (sx_remote s))(key \<mapsto> concat (fst chunks)) \<and> n = length (concat (fst chunks)))
    \<and> (snd chunks \<noteq> None \<longrightarrow> objects (sx_remote (snd (s3_put S key chunks ct s))) = objects (sx_remote s))"
proof (intro conjI allI impI)
  have laws: "s3_laws (sc_client S) objects uploads" using mk_s3_store_part[OF assms(2)] assms(1) by simp
  show contract: "document_store (s3_store_ops S) (\<lambda>s. objects (sx_remote s))" by (rule s3_store_is_document_store[OF laws])
  fix n s' assume put: "s3_put S key chunks ct s = (Inr n, s')"
  then show "snd chunks = None"
    "objects (sx_remote s') = (objects (sx_remote s))(key \<mapsto> concat (fst chunks))" "n = length (concat (fst chunks))"
    using document_store.put_returns[OF contract, of key chunks ct s n s'] by (simp_all add: s3_store_ops_def)
next
  assume "snd chunks \<noteq> None"
  then show "objects (sx_remote (snd (s3_put S key chunks ct s))) = objects (sx_remote s)"
    using s3_put_raising_source mk_s3_store_part[OF assms(2)] assms(1) by metis
qed

theorem s3_store_contract_witness:
  "\<exists>S s'. mk_s3_store (bucket_client MIN_PART_BYTES) (int MIN_PART_BYTES) = Inr S
     \<and> s3_put S (lit ''k'') ([[1, 2], [3]], None) None \<lparr>sx_open = False, sx_remote = \<lparr>bk_objects = [], bk_uploads = []\<rparr>\<rparr> = (Inr 3, s')
     \<and> bucket_objects (sx_remote s') (lit ''k'') = Some [1, 2, 3]"
proof -
  define S where "S = \<lparr>sc_client = bucket_client MIN_PART_BYTES, sc_part_bytes = MIN_PART_BYTES\<rparr>"
  have S: "mk_s3_store (bucket_client MIN_PART_BYTES) (int MIN_PART_BYTES) = Inr S" "sc_client S = bucket_client MIN_PART_BYTES"
    "sc_part_bytes S = MIN_PART_BYTES"
    by (simp_all add: mk_s3_store_def S_def)
  let ?s = "\<lparr>sx_open = False, sx_remote = \<lparr>bk_objects = [], bk_uploads = []\<rparr>\<rparr>"
  obtain n s' where put: "s3_put S (lit ''k'') ([[1, 2], [3]], None) None ?s = (Inr n, s')"
    by (simp add: s3_put_def bindS_def s3_open_def S(2,3) bucket_client_def s3_drain.simps MIN_PART_BYTES_def liftS_def
        s3_finish_def s3_call_def)
  from s3_store_contract[OF bucket_laws S(1), of "lit ''k''" "([[1, 2], [3]], None)" None ?s] put
  have "n = 3" "bucket_objects (sx_remote s') (lit ''k'') = Some [1, 2, 3]" by auto
  with S(1) put show ?thesis by blast
qed

text \<open>An upload in parts, on a service that takes parts of two bytes.\<close>

lemma multipart_example:
  "\<exists>s'. s3_put \<lparr>sc_client = bucket_client 2, sc_part_bytes = 2\<rparr> (lit ''k'') ([[1, 2, 3], [4, 5]], None) None
       \<lparr>sx_open = True, sx_remote = \<lparr>bk_objects = [], bk_uploads = []\<rparr>\<rparr> = (Inr 5, s')
     \<and> bk_objects (sx_remote s') = [(lit ''k'', [1, 2, 3, 4, 5])] \<and> bk_uploads (sx_remote s') = []"
  by (simp add: s3_put_def bindS_def s3_open_def s3_drain.simps s3_send_full_def s3_begin_def s3_send_part_def s3_call_def
      bucket_client_def bucket_complete_def liftS_def s3_finish_def Let_def)

text \<open>
  A bucket that is not there is reported as a missing document (404), not as unavailable storage:
  by the readiness check, and by an upload.
\<close>

lemma missing_bucket_is_not_found:
  assumes "sx_open s"
    "fst (s3_head_bucket (sc_client S) (sx_remote s)) = Inl (ClientError (lit ''NoSuchBucket'') status)"
  shows "fst (s3_health S s) = Inl (GatewayError DOCUMENT_NOT_FOUND ''object_missing'')"
  using assms by (auto simp: s3_health_def s3_open_def bindS_def s3_call_def s3_translate_def MISSING_OBJECT_CODES_def split: prod.splits)

end
